(* ===== verification/Zlibs_Prelude.thy ===== *)
theory Zlibs_Prelude
  imports Main "HOL-Library.Word"
begin

text \<open>
  Shared vocabulary of the development: the machine integer types of the code, the values
  taken by a counting \<open>for\<close> loop, reads and writes of a byte range inside an array, and
  unsigned 32-bit subtraction. The lemmas about them are declared so that the component
  proofs get them from the simplifier or from the collections below.
\<close>

unbundle bit_operations_syntax

section \<open>Machine integers\<close>

type_synonym u8 = "8 word"
type_synonym u16 = "16 word"
type_synonym u32 = "32 word"
type_synonym u64 = "64 word"

named_theorems model_defs "definitions of the model that proofs unfold as a group"
named_theorems bytes_simps "reads and writes of byte ranges"

definition sub32 :: "nat \<Rightarrow> nat \<Rightarrow> nat" where
  "sub32 a b = (a + 2 ^ 32 - b) mod 2 ^ 32"

lemma sub32_eq: "b \<le> a \<Longrightarrow> a < 2 ^ 32 \<Longrightarrow> sub32 a b = a - b"
proof -
  assume "b \<le> a" "a < 2 ^ 32"
  then have "(a + 2 ^ 32 - b) mod 2 ^ 32 = (a - b + 2 ^ 32) mod 2 ^ 32" by simp
  also have "\<dots> = a - b" using \<open>a < 2 ^ 32\<close> by simp
  finally show ?thesis by (simp add: sub32_def)
qed

lemma unat_of_nat32: "n < 2 ^ 32 \<Longrightarrow> unat (of_nat n :: u32) = n"
  by (simp add: unat_of_nat take_bit_nat_eq_self)

lemma ucast_u8_u32 [simp]: "ucast (ucast x :: u32) = (x :: u8)"
  by (rule bit_word_eqI) (auto simp: bit_simps)

lemma ucast_u32_u8: "ucast (ucast x :: u8) = take_bit 8 (x :: u32)"
  by (rule bit_word_eqI) (auto simp: bit_simps)

section \<open>Counting loops\<close>

text \<open>
  \<open>steps n k\<close> lists the values of \<open>i\<close> in \<open>for (i = 0; i < n; i += k)\<close>, for \<open>0 < k\<close>.
\<close>

definition steps :: "nat \<Rightarrow> nat \<Rightarrow> nat list" where
  "steps n k = map (\<lambda>i. i * k) [0 ..< (n + k - 1) div k]"

lemma steps_dvd: "0 < k \<Longrightarrow> steps (m * k) k = map (\<lambda>i. i * k) [0 ..< m]"
proof -
  assume "0 < k"
  then have "m * k + k - 1 = (k - 1) + m * k" by simp
  then have "(m * k + k - 1) div k = (k - 1 + m * k) div k" by (rule arg_cong)
  also have "\<dots> = m" using \<open>0 < k\<close> by (simp only: div_mult_self1) simp
  finally show ?thesis by (simp add: steps_def)
qed

lemma set_steps: "0 < k \<Longrightarrow> set (steps n k) = {i. i < n \<and> k dvd i}"
proof -
  assume k: "0 < k"
  have "i * k < n \<longleftrightarrow> i < (n + k - 1) div k" for i
  proof -
    have "i < (n + k - 1) div k \<longleftrightarrow> Suc i * k \<le> n + k - 1"
      using k less_eq_div_iff_mult_less_eq [of k "Suc i" "n + k - 1"] by (simp add: Suc_le_eq)
    also have "\<dots> \<longleftrightarrow> i * k < n" using k by auto
    finally show ?thesis ..
  qed
  note less = this
  show ?thesis
  proof (intro set_eqI iffI)
    fix j assume "j \<in> set (steps n k)"
    then obtain i where "j = i * k" "i < (n + k - 1) div k"
      using k by (auto simp: steps_def)
    then show "j \<in> {i. i < n \<and> k dvd i}" using less [of i] by simp
  next
    fix j assume "j \<in> {i. i < n \<and> k dvd i}"
    then obtain i where "j = i * k" "i * k < n" using k by (auto elim!: dvdE simp: mult.commute)
    then show "j \<in> set (steps n k)" using less [of i] by (auto simp: steps_def)
  qed
qed

section \<open>Byte ranges\<close>

definition slice :: "nat \<Rightarrow> nat \<Rightarrow> 'a list \<Rightarrow> 'a list" where
  "slice off n xs = take n (drop off xs)"

definition overwrite :: "nat \<Rightarrow> 'a list \<Rightarrow> 'a list \<Rightarrow> 'a list" where
  "overwrite off ds xs = take off xs @ ds @ drop (off + length ds) xs"

lemma length_slice [simp]: "length (slice off n xs) = min n (length xs - off)"
  by (simp add: slice_def)

lemma length_overwrite [simp]:
  "off + length ds \<le> length xs \<Longrightarrow> length (overwrite off ds xs) = length xs"
  by (simp add: overwrite_def)

lemma nth_slice [bytes_simps]:
  "i < n \<Longrightarrow> off + i < length xs \<Longrightarrow> slice off n xs ! i = xs ! (off + i)"
  by (simp add: slice_def)

lemma nth_overwrite [bytes_simps]:
  assumes "off + length ds \<le> length xs" and "i < length xs"
  shows "overwrite off ds xs ! i =
    (if off \<le> i \<and> i < off + length ds then ds ! (i - off) else xs ! i)"
  using assms by (auto simp: overwrite_def nth_append)

lemma slice_overwrite_same [simp]:
  "off + length ds \<le> length xs \<Longrightarrow> slice off (length ds) (overwrite off ds xs) = ds"
  by (simp add: slice_def overwrite_def)

lemma slice_overwrite_disjoint [bytes_simps]:
  assumes "off + length ds \<le> length xs"
    and "o2 + n \<le> length xs"
    and "o2 + n \<le> off \<or> off + length ds \<le> o2"
  shows "slice o2 n (overwrite off ds xs) = slice o2 n xs"
  using assms by (intro nth_equalityI) (auto simp: nth_slice nth_overwrite)

lemma slice_all [simp]: "slice 0 (length xs) xs = xs"
  by (simp add: slice_def)

lemma slice_replicate [simp]:
  "off + n \<le> m \<Longrightarrow> slice off n (replicate m x) = replicate n x"
  by (simp add: slice_def)

lemma slice_slice [simp]:
  "a + b \<le> n \<Longrightarrow> slice a b (slice off n xs) = slice (off + a) b xs"
  by (simp add: slice_def drop_take add.commute min_absorb1)

lemma set_slice_subset: "set (slice off n xs) \<subseteq> set xs"
  by (metis slice_def set_take_subset set_drop_subset subset_trans)

section \<open>Traces\<close>

text \<open>Where an element stands in a trace that one event is appended to.\<close>

lemma append_single_cases:
  "tr @ [c] = xs @ x # ys \<longleftrightarrow> (xs = tr \<and> x = c \<and> ys = []) \<or> (\<exists>zs. tr = xs @ x # zs \<and> ys = zs @ [c])"
  by (cases ys rule: rev_cases) (auto simp: append_eq_append_conv2)

section \<open>Early return\<close>

text \<open>
  \<open>if (!op()) return false; rest\<close>: the state carries on only when the operation succeeded.
\<close>

definition and_then :: "bool \<times> 's \<Rightarrow> ('s \<Rightarrow> bool \<times> 's) \<Rightarrow> bool \<times> 's" where
  "and_then r k = (case r of (ok, s) \<Rightarrow> if ok then k s else (False, s))"

lemma and_then_True [simp]: "and_then (True, s) k = k s"
  and and_then_False [simp]: "and_then (False, s) k = (False, s)"
  by (simp_all add: and_then_def)

lemma and_then_eq_True:
  "and_then r k = (True, t) \<longleftrightarrow> (\<exists>s. r = (True, s) \<and> k s = (True, t))"
  by (auto simp: and_then_def split: prod.splits)

lemma and_then_cong [fundef_cong]:
  "r = r' \<Longrightarrow> (\<And>s. r' = (True, s) \<Longrightarrow> k s = k' s) \<Longrightarrow> and_then r k = and_then r' k'"
  by (auto simp: and_then_def split: prod.splits)

end
