(* ===== verification/Ring_Buffer.thy ===== *)
theory Ring_Buffer
  imports Zlibs_Prelude
begin

text \<open>
  The circular buffer of \<open>misc/ring_buffer.h\<close>, one definition per member function, with the
  template parameters \<open>MaxSize\<close> and \<open>OverwriteOldest\<close> as arguments. Slot \<open>_tail\<close> is always
  free, so a buffer of capacity \<open>MaxSize\<close> owns \<open>MaxSize + 1\<close> slots. Each member is one step
  here; \<open>Uart_Hw\<close> has the accesses of \<open>insert\<close> and \<open>remove\<close> one by one, with the interrupt between.
\<close>

section \<open>State and operations\<close>

record 'a ring_buffer =
  rb_buffer :: "'a list"
  rb_head :: nat
  rb_tail :: nat

definition STORAGE_SIZE :: "nat \<Rightarrow> nat" where
  "STORAGE_SIZE MaxSize = MaxSize + 1"

definition rb_new :: "nat \<Rightarrow> 'a \<Rightarrow> 'a ring_buffer" where
  "rb_new MaxSize zero =
     \<lparr>rb_buffer = replicate (STORAGE_SIZE MaxSize) zero, rb_head = 0, rb_tail = 0\<rparr>"

definition rb_size :: "nat \<Rightarrow> 'a ring_buffer \<Rightarrow> nat" where
  "rb_size MaxSize b =
     (if rb_head b \<ge> rb_tail b then rb_head b - rb_tail b
      else STORAGE_SIZE MaxSize + rb_head b - rb_tail b)"

definition rb_is_empty :: "'a ring_buffer \<Rightarrow> bool" where
  "rb_is_empty b = (rb_head b = rb_tail b)"

definition rb_is_full :: "nat \<Rightarrow> 'a ring_buffer \<Rightarrow> bool" where
  "rb_is_full MaxSize b = (rb_size MaxSize b = MaxSize)"

definition rb_next :: "nat \<Rightarrow> nat \<Rightarrow> nat" where
  "rb_next MaxSize i = (if i + 1 \<ge> STORAGE_SIZE MaxSize then 0 else i + 1)"

definition rb_insert :: "nat \<Rightarrow> bool \<Rightarrow> 'a \<Rightarrow> 'a ring_buffer \<Rightarrow> bool \<times> 'a ring_buffer" where
  "rb_insert MaxSize OverwriteOldest data b =
     (let next = rb_next MaxSize (rb_head b)
      in if rb_tail b = next then
           (if \<not> OverwriteOldest then (False, b)
            else let new_tail = rb_next MaxSize (rb_tail b);
                     b = b\<lparr>rb_tail := new_tail\<rparr>
                 in (True, b\<lparr>rb_buffer := (rb_buffer b)[next := data], rb_head := next\<rparr>))
         else (True, b\<lparr>rb_buffer := (rb_buffer b)[next := data], rb_head := next\<rparr>))"

definition rb_peek :: "nat \<Rightarrow> 'a ring_buffer \<Rightarrow> 'a option" where
  "rb_peek MaxSize b =
     (if rb_head b = rb_tail b then None
      else Some (rb_buffer b ! rb_next MaxSize (rb_tail b)))"

definition rb_remove :: "nat \<Rightarrow> 'a ring_buffer \<Rightarrow> 'a option \<times> 'a ring_buffer" where
  "rb_remove MaxSize b =
     (if rb_head b = rb_tail b then (None, b)
      else let next = rb_next MaxSize (rb_tail b); value = rb_buffer b ! next
           in (Some value, b\<lparr>rb_tail := next\<rparr>))"

definition rb_reset :: "'a ring_buffer \<Rightarrow> 'a ring_buffer" where
  "rb_reset b = b\<lparr>rb_tail := rb_head b\<rparr>"

section \<open>Invariant and contents\<close>

definition rb_inv :: "nat \<Rightarrow> 'a ring_buffer \<Rightarrow> bool" where
  "rb_inv MaxSize b \<longleftrightarrow>
     0 < MaxSize \<and> length (rb_buffer b) = STORAGE_SIZE MaxSize \<and>
     rb_head b < STORAGE_SIZE MaxSize \<and> rb_tail b < STORAGE_SIZE MaxSize"

definition rb_list :: "nat \<Rightarrow> 'a ring_buffer \<Rightarrow> 'a list" where
  "rb_list MaxSize b =
     map (\<lambda>i. rb_buffer b ! ((rb_tail b + 1 + i) mod STORAGE_SIZE MaxSize)) [0 ..< rb_size MaxSize b]"

lemma rb_next_mod: "i < STORAGE_SIZE M \<Longrightarrow> rb_next M i = (i + 1) mod STORAGE_SIZE M"
  by (auto simp: rb_next_def le_Suc_eq)

lemma rb_next_less [simp]: "rb_next M i < STORAGE_SIZE M"
  by (simp add: rb_next_def STORAGE_SIZE_def)

lemma rb_size_mod:
  assumes "rb_inv M b"
  shows "rb_size M b = (STORAGE_SIZE M + rb_head b - rb_tail b) mod STORAGE_SIZE M"
  using assms by (auto simp: rb_size_def rb_inv_def mod_if)

lemma length_rb_list [simp]: "length (rb_list M b) = rb_size M b"
  by (simp add: rb_list_def)

lemma rb_size_le: "rb_inv M b \<Longrightarrow> rb_size M b \<le> M"
  by (auto simp: rb_size_def rb_inv_def STORAGE_SIZE_def)

lemma rb_size_0_iff: "rb_inv M b \<Longrightarrow> rb_size M b = 0 \<longleftrightarrow> rb_head b = rb_tail b"
  by (auto simp: rb_size_def rb_inv_def)

lemma rb_full_iff: "rb_inv M b \<Longrightarrow> rb_size M b = M \<longleftrightarrow> rb_tail b = rb_next M (rb_head b)"
  by (auto simp: rb_size_def rb_inv_def rb_next_def STORAGE_SIZE_def)

lemma rb_inv_new: "0 < M \<Longrightarrow> rb_inv M (rb_new M z)"
  by (simp add: rb_inv_def rb_new_def STORAGE_SIZE_def)

lemma rb_list_new: "rb_list M (rb_new M z) = []"
  by (simp add: rb_list_def rb_new_def rb_size_def)

lemma rb_list_Nil_iff: "rb_inv M b \<Longrightarrow> rb_list M b = [] \<longleftrightarrow> rb_head b = rb_tail b"
  using rb_size_0_iff by (metis length_0_conv length_rb_list)

text \<open>
  Advancing the tail drops the oldest element; storing at the slot after the head and
  publishing the new head appends one. Every operation is one of these two moves.
\<close>

lemma rb_advance_tail:
  assumes inv: "rb_inv M b" and ne: "rb_head b \<noteq> rb_tail b"
  shows "rb_list M b = (rb_buffer b ! rb_next M (rb_tail b)) # rb_list M (b\<lparr>rb_tail := rb_next M (rb_tail b)\<rparr>)"
proof -
  let ?S = "STORAGE_SIZE M" and ?t = "rb_next M (rb_tail b)"
  let ?b = "b\<lparr>rb_tail := ?t\<rparr>"
  have size: "rb_size M b = Suc (rb_size M ?b)"
    using inv ne by (auto simp: rb_size_def rb_inv_def rb_next_def)
  have t: "?t = (rb_tail b + 1) mod ?S"
    using inv by (simp add: rb_next_mod rb_inv_def)
  have "rb_list M b = map (\<lambda>i. rb_buffer b ! ((rb_tail b + 1 + i) mod ?S)) (0 # map Suc [0 ..< rb_size M ?b])"
    unfolding rb_list_def size by (simp only: upt_conv_Cons map_Suc_upt zero_less_Suc)
  also have "\<dots> = rb_buffer b ! ?t # rb_list M ?b"
  proof -
    have "(rb_tail b + 1 + Suc i) mod ?S = (?t + 1 + i) mod ?S" for i
      unfolding t using mod_add_left_eq [of "rb_tail b + 1" ?S "1 + i"] by (simp add: add.assoc)
    then show ?thesis by (simp add: rb_list_def o_def t)
  qed
  finally show ?thesis .
qed

lemma rb_publish_head:
  assumes inv: "rb_inv M b" and room: "rb_size M b < M"
  shows "rb_list M (b\<lparr>rb_buffer := (rb_buffer b)[rb_next M (rb_head b) := x], rb_head := rb_next M (rb_head b)\<rparr>)
    = rb_list M b @ [x]"
proof -
  let ?S = "STORAGE_SIZE M" and ?h = "rb_next M (rb_head b)"
  let ?b = "b\<lparr>rb_buffer := (rb_buffer b)[?h := x], rb_head := ?h\<rparr>"
  have S: "rb_head b < ?S" "rb_tail b < ?S" "length (rb_buffer b) = ?S" "?S = M + 1"
    using inv by (auto simp: rb_inv_def STORAGE_SIZE_def)
  have size: "rb_size M ?b = Suc (rb_size M b)"
    using inv room by (auto simp: rb_size_def rb_inv_def rb_next_def STORAGE_SIZE_def)
  have slot: "(rb_tail b + 1 + rb_size M b) mod ?S = ?h"
    using S by (auto simp: rb_size_def rb_next_mod mod_if)
  have other: "(rb_tail b + 1 + i) mod ?S \<noteq> ?h" if "i < rb_size M b" for i
  proof
    assume "(rb_tail b + 1 + i) mod ?S = ?h"
    then have "(rb_tail b + 1 + i) mod ?S = (rb_tail b + 1 + rb_size M b) mod ?S"
      using slot by simp
    then have "?S dvd (rb_tail b + 1 + rb_size M b) - (rb_tail b + 1 + i)"
      by (metis mod_eq_dvd_iff_nat nat_le_linear dvd_0_right diff_is_0_eq)
    then have "?S dvd rb_size M b - i" by simp
    with that room S(4) show False by (auto dest: dvd_imp_le)
  qed
  have "rb_list M ?b = map (\<lambda>i. (rb_buffer b)[?h := x] ! ((rb_tail b + 1 + i) mod ?S)) [0 ..< rb_size M b]
      @ [(rb_buffer b)[?h := x] ! ((rb_tail b + 1 + rb_size M b) mod ?S)]"
    unfolding rb_list_def size by simp
  also have "map (\<lambda>i. (rb_buffer b)[?h := x] ! ((rb_tail b + 1 + i) mod ?S)) [0 ..< rb_size M b] = rb_list M b"
    unfolding rb_list_def by (intro map_cong refl nth_list_update_neq other [symmetric]) simp
  also have "(rb_buffer b)[?h := x] ! ((rb_tail b + 1 + rb_size M b) mod ?S) = x"
    unfolding slot using S(3) by simp
  finally show ?thesis .
qed

lemma rb_insert_inv: "rb_inv M b \<Longrightarrow> rb_inv M (snd (rb_insert M ow x b))"
  by (auto simp: rb_inv_def rb_insert_def Let_def)

lemma rb_remove_inv: "rb_inv M b \<Longrightarrow> rb_inv M (snd (rb_remove M b))"
  by (auto simp: rb_inv_def rb_remove_def Let_def)

lemma rb_reset_inv: "rb_inv M b \<Longrightarrow> rb_inv M (rb_reset b)"
  by (auto simp: rb_inv_def rb_reset_def)

lemma rb_insert_room:
  assumes "rb_inv M b" and "rb_size M b < M"
  shows "fst (rb_insert M ow x b)" and "rb_list M (snd (rb_insert M ow x b)) = rb_list M b @ [x]"
proof -
  have "rb_tail b \<noteq> rb_next M (rb_head b)" using assms rb_full_iff by (metis less_irrefl)
  then show "fst (rb_insert M ow x b)" and "rb_list M (snd (rb_insert M ow x b)) = rb_list M b @ [x]"
    using rb_publish_head [OF assms] by (simp_all add: rb_insert_def Let_def)
qed

lemma rb_insert_full_reject:
  assumes "rb_inv M b" and "rb_size M b = M"
  shows "rb_insert M False x b = (False, b)"
proof -
  have "rb_tail b = rb_next M (rb_head b)" using assms rb_full_iff by metis
  then show ?thesis by (simp add: rb_insert_def Let_def)
qed

lemma rb_insert_full_overwrite:
  assumes inv: "rb_inv M b" and full: "rb_size M b = M"
  shows "fst (rb_insert M True x b)" and "rb_list M (snd (rb_insert M True x b)) = tl (rb_list M b) @ [x]"
proof -
  let ?b = "b\<lparr>rb_tail := rb_next M (rb_tail b)\<rparr>"
  have t: "rb_tail b = rb_next M (rb_head b)" using inv full rb_full_iff by metis
  have M: "0 < M" using inv by (simp add: rb_inv_def)
  have ne: "rb_head b \<noteq> rb_tail b" using rb_size_0_iff [OF inv] full M by simp
  have inv': "rb_inv M ?b" using inv by (simp add: rb_inv_def)
  have tl: "rb_list M ?b = tl (rb_list M b)" using rb_advance_tail [OF inv ne] by simp
  have "rb_size M ?b < M" using tl full M by (metis length_rb_list length_tl diff_less zero_less_one)
  from rb_publish_head [OF inv' this, of x]
  show "rb_list M (snd (rb_insert M True x b)) = tl (rb_list M b) @ [x]"
    using t tl by (simp add: rb_insert_def Let_def)
  show "fst (rb_insert M True x b)" using t by (simp add: rb_insert_def Let_def)
qed

lemma rb_remove_cases:
  assumes "rb_inv M b"
  shows "(case rb_list M b of [] \<Rightarrow> rb_remove M b = (None, b)
     | x # xs \<Rightarrow> fst (rb_remove M b) = Some x \<and> rb_list M (snd (rb_remove M b)) = xs)"
proof (cases "rb_head b = rb_tail b")
  case True
  then show ?thesis using rb_list_Nil_iff [OF assms] by (simp add: rb_remove_def)
next
  case False
  then have "rb_remove M b = (Some (rb_buffer b ! rb_next M (rb_tail b)), b\<lparr>rb_tail := rb_next M (rb_tail b)\<rparr>)"
    by (simp add: rb_remove_def Let_def)
  then show ?thesis by (subst rb_advance_tail [OF assms False]) simp
qed

lemma rb_peek_remove: "rb_peek M b = fst (rb_remove M b)"
  by (simp add: rb_peek_def rb_remove_def Let_def)

lemma rb_list_reset: "rb_list M (rb_reset b) = []"
  by (simp add: rb_list_def rb_reset_def rb_size_def)

section \<open>The queue interface\<close>

text \<open>A client that inserts a list of elements, and one that removes a number of them.\<close>

primrec insert_all :: "('a \<Rightarrow> 'q \<Rightarrow> bool \<times> 'q) \<Rightarrow> 'a list \<Rightarrow> 'q \<Rightarrow> 'q" where
  "insert_all ins [] q = q"
| "insert_all ins (x # xs) q = insert_all ins xs (snd (ins x q))"

primrec remove_n :: "('q \<Rightarrow> 'a option \<times> 'q) \<Rightarrow> nat \<Rightarrow> 'q \<Rightarrow> 'a option list \<times> 'q" where
  "remove_n rem 0 q = ([], q)"
| "remove_n rem (Suc n) q =
     (case rem q of (x, q) \<Rightarrow> case remove_n rem n q of (xs, q) \<Rightarrow> (x # xs, q))"

text \<open>
  What a client of the buffer (the UART driver through \<open>RingBufferBase\<close>) relies on: removal
  in insertion order and a bounded number of elements. Whether an insertion into a full
  buffer is refused or drops the oldest element is what the two extensions fix.
\<close>

locale fifo =
  fixes insert :: "'a \<Rightarrow> 'q \<Rightarrow> bool \<times> 'q"
    and remove :: "'q \<Rightarrow> 'a option \<times> 'q"
    and peek :: "'q \<Rightarrow> 'a option"
    and reset :: "'q \<Rightarrow> 'q"
    and contents :: "'q \<Rightarrow> 'a list"
    and capacity :: nat
    and inv :: "'q \<Rightarrow> bool"
  assumes insert_inv: "inv q \<Longrightarrow> inv (snd (insert x q))"
    and remove_inv: "inv q \<Longrightarrow> inv (snd (remove q))"
    and reset_inv: "inv q \<Longrightarrow> inv (reset q)"
    and bounded: "inv q \<Longrightarrow> length (contents q) \<le> capacity"
    and insert_room: "inv q \<Longrightarrow> length (contents q) < capacity \<Longrightarrow>
          fst (insert x q) \<and> contents (snd (insert x q)) = contents q @ [x]"
    and remove_Nil: "inv q \<Longrightarrow> contents q = [] \<Longrightarrow> remove q = (None, q)"
    and remove_Cons: "inv q \<Longrightarrow> contents q = x # xs \<Longrightarrow>
          fst (remove q) = Some x \<and> contents (snd (remove q)) = xs"
    and peek_remove: "inv q \<Longrightarrow> peek q = fst (remove q)"
    and contents_reset: "inv q \<Longrightarrow> contents (reset q) = []"
begin

lemma insert_all_contents:
  "inv q \<Longrightarrow> length (contents q) + length xs \<le> capacity \<Longrightarrow>
   inv (insert_all insert xs q) \<and> contents (insert_all insert xs q) = contents q @ xs"
proof (induction xs arbitrary: q)
  case (Cons x xs)
  then show ?case using insert_room [of q x] insert_inv [of q x] by simp
qed simp

lemma insert_all_inv: "inv q \<Longrightarrow> inv (insert_all insert xs q)"
  by (induction xs arbitrary: q) (simp_all add: insert_inv)

lemma remove_n_contents:
  "inv q \<Longrightarrow> n \<le> length (contents q) \<Longrightarrow>
   fst (remove_n remove n q) = map Some (take n (contents q)) \<and>
   inv (snd (remove_n remove n q)) \<and> contents (snd (remove_n remove n q)) = drop n (contents q)"
proof (induction n arbitrary: q)
  case (Suc n)
  then obtain x xs where c: "contents q = x # xs" by (cases "contents q") auto
  obtain q' where q': "remove q = (Some x, q')" "contents q' = xs" "inv q'"
    using remove_Cons [OF Suc.prems(1) c] remove_inv [OF Suc.prems(1)] by (metis prod.collapse)
  then show ?case using Suc.IH [of q'] Suc.prems c by (auto split: prod.splits)
qed simp

lemma insert_then_remove:
  assumes "inv q" "contents q = []" "length xs \<le> capacity"
  shows "fst (remove_n remove (length xs) (insert_all insert xs q)) = map Some xs"
  using insert_all_contents [of q xs] remove_n_contents [of "insert_all insert xs q" "length xs"] assms
  by simp

end

locale rejecting_fifo = fifo +
  assumes insert_full: "inv q \<Longrightarrow> length (contents q) = capacity \<Longrightarrow> insert x q = (False, q)"
begin

lemma insert_all_prefix:
  "inv q \<Longrightarrow> contents (insert_all insert xs q) = contents q @ take (capacity - length (contents q)) xs"
proof (induction xs arbitrary: q)
  case (Cons x xs)
  show ?case
  proof (cases "length (contents q) < capacity")
    case True
    with Cons show ?thesis
      using insert_room [OF Cons.prems True, of x] insert_inv [OF Cons.prems, of x]
      by (simp add: take_Cons' Suc_diff_Suc)
  next
    case False
    then have "length (contents q) = capacity" using bounded [OF Cons.prems] by simp
    then show ?thesis using Cons insert_full [OF Cons.prems] by simp
  qed
qed simp

end

locale overwriting_fifo = fifo +
  assumes insert_overwrite: "inv q \<Longrightarrow> length (contents q) = capacity \<Longrightarrow>
    fst (insert x q) \<and> contents (snd (insert x q)) = tl (contents q) @ [x]"
begin

lemma insert_accepts: "inv q \<Longrightarrow> fst (insert x q)"
  using bounded [of q] insert_room [of q x] insert_overwrite [of q x] by linarith

lemma insert_all_suffix:
  "inv q \<Longrightarrow> 0 < capacity \<Longrightarrow>
   contents (insert_all insert xs q) = drop (length (contents q) + length xs - capacity) (contents q @ xs)"
proof (induction xs arbitrary: q)
  case Nil
  then show ?case using bounded by simp
next
  case (Cons x xs)
  let ?q = "snd (insert x q)"
  show ?case
  proof (cases "length (contents q) < capacity")
    case True
    have "drop (Suc (length (contents q) + length xs) - capacity) (contents q @ x # xs)
      = drop (length (contents q @ [x]) + length xs - capacity) ((contents q @ [x]) @ xs)" by simp
    then show ?thesis
      using Cons.IH [OF insert_inv [OF Cons.prems(1)] Cons.prems(2), of x]
        insert_room [OF Cons.prems(1) True, of x] by (simp del: drop_append)
  next
    case False
    then have full: "length (contents q) = capacity" using bounded [OF Cons.prems(1)] by simp
    then obtain y ys where "contents q = y # ys" using Cons.prems(2) by (cases "contents q") auto
    moreover have "drop (length (contents q) + length (x # xs) - capacity) (contents q @ x # xs)
      = drop (length (tl (contents q) @ [x]) + length xs - capacity) ((tl (contents q) @ [x]) @ xs)"
      using full Cons.prems(2) \<open>contents q = y # ys\<close> by (simp add: drop_Cons' del: drop_append)
    ultimately show ?thesis
      using Cons.IH [OF insert_inv [OF Cons.prems(1)] Cons.prems(2), of x]
        insert_overwrite [OF Cons.prems(1) full, of x] by (simp del: drop_append)
  qed
qed

end

section \<open>The buffer implements both interfaces\<close>

lemma rb_fifo: "fifo (rb_insert M ow) (rb_remove M) (rb_peek M) rb_reset (rb_list M) M (rb_inv M)"
proof unfold_locales
  fix q :: "'a ring_buffer" and x xs
  assume inv: "rb_inv M q"
  show "rb_inv M (snd (rb_insert M ow x q))" using inv by (rule rb_insert_inv)
  show "rb_inv M (snd (rb_remove M q))" using inv by (rule rb_remove_inv)
  show "rb_inv M (rb_reset q)" using inv by (rule rb_reset_inv)
  show "length (rb_list M q) \<le> M" using inv by (simp add: rb_size_le)
  show "rb_peek M q = fst (rb_remove M q)" by (rule rb_peek_remove)
  show "rb_list M (rb_reset q) = []" by (rule rb_list_reset)
  show "fst (rb_insert M ow x q) \<and> rb_list M (snd (rb_insert M ow x q)) = rb_list M q @ [x]"
    if "length (rb_list M q) < M" using rb_insert_room [OF inv] that by simp
  show "rb_remove M q = (None, q)" if "rb_list M q = []"
    using rb_remove_cases [OF inv] that by simp
  show "fst (rb_remove M q) = Some x \<and> rb_list M (snd (rb_remove M q)) = xs"
    if "rb_list M q = x # xs" using rb_remove_cases [OF inv] that by simp
qed

interpretation rb_reject: rejecting_fifo "rb_insert M False" "rb_remove M" "rb_peek M" rb_reset
    "rb_list M" M "rb_inv M" for M
  by (intro rejecting_fifo.intro rb_fifo rejecting_fifo_axioms.intro) (simp add: rb_insert_full_reject)

interpretation rb_overwrite: overwriting_fifo "rb_insert M True" "rb_remove M" "rb_peek M" rb_reset
    "rb_list M" M "rb_inv M" for M
  by (intro overwriting_fifo.intro rb_fifo overwriting_fifo_axioms.intro)
    (simp add: rb_insert_full_overwrite)

section \<open>Properties\<close>

text \<open>C24. A buffer without \<open>OverwriteOldest\<close> is a bounded first-in first-out queue: feeding any
  bytes into a fresh buffer keeps exactly the first \<open>MaxSize\<close> of them (later ones are refused),
  and that many removals return those in insertion order.\<close>

theorem ring_buffer_keeps_first:
  assumes "0 < MaxSize"
  shows "rb_list MaxSize (insert_all (rb_insert MaxSize False) xs (rb_new MaxSize z)) = take MaxSize xs
    \<and> fst (remove_n (rb_remove MaxSize) (min MaxSize (length xs))
         (insert_all (rb_insert MaxSize False) xs (rb_new MaxSize z))) = map Some (take MaxSize xs)"
proof -
  let ?q = "rb_new MaxSize z" and ?r = "insert_all (rb_insert MaxSize False) xs (rb_new MaxSize z)"
  have inv: "rb_inv MaxSize ?q" using assms by (rule rb_inv_new)
  have c: "rb_list MaxSize ?r = take MaxSize xs"
    using rb_reject.insert_all_prefix [OF inv, of xs] by (simp add: rb_list_new del: length_rb_list)
  moreover have "rb_inv MaxSize ?r" using inv by (rule rb_reject.insert_all_inv)
  ultimately show ?thesis
    using rb_reject.remove_n_contents [of MaxSize ?r "min MaxSize (length xs)"]
    by (simp add: min_def del: length_rb_list)
qed

lemma ring_buffer_keeps_first_witness:
  "rb_list 2 (insert_all (rb_insert 2 False) [1, 2, 3 :: u8] (rb_new 2 0)) = [1, 2]
   \<and> fst (remove_n (rb_remove 2) 2 (insert_all (rb_insert 2 False) [1, 2, 3 :: u8] (rb_new 2 0))) = [Some 1, Some 2]"
  using ring_buffer_keeps_first [of 2 "[1, 2, 3 :: u8]" 0] by (simp add: min_def)

text \<open>With \<open>OverwriteOldest\<close> an insertion always succeeds and the buffer always holds the newest
  \<open>MaxSize\<close> elements, oldest first.\<close>

theorem ring_buffer_keeps_newest:
  assumes "0 < MaxSize"
  shows "rb_list MaxSize (insert_all (rb_insert MaxSize True) xs (rb_new MaxSize z))
      = drop (length xs - MaxSize) xs
    \<and> fst (rb_insert MaxSize True x (insert_all (rb_insert MaxSize True) xs (rb_new MaxSize z)))"
proof -
  let ?q = "rb_new MaxSize z" and ?r = "insert_all (rb_insert MaxSize True) xs (rb_new MaxSize z)"
  have inv: "rb_inv MaxSize ?q" using assms by (rule rb_inv_new)
  then have "rb_inv MaxSize ?r" by (rule rb_overwrite.insert_all_inv)
  then have "fst (rb_insert MaxSize True x ?r)" by (rule rb_overwrite.insert_accepts)
  then show ?thesis
    using rb_overwrite.insert_all_suffix [OF inv assms, of xs] by (simp add: rb_list_new del: length_rb_list)
qed

lemma ring_buffer_keeps_newest_witness:
  "rb_list 2 (insert_all (rb_insert 2 True) [1, 2, 3 :: u8] (rb_new 2 0)) = [2, 3]"
  using ring_buffer_keeps_newest [of 2 "[1, 2, 3 :: u8]" 0 0] by simp

end
