(* ===== verification/Misc_Strings.thy ===== *)
theory Misc_Strings
  imports Zlibs_Prelude
begin

text \<open>
  The compile-time strings of \<open>misc/string.h\<close> and \<open>misc/version.h\<close>. A \<open>StringLiteral\<close> is its array of
  characters, the terminator included. The numbers are of type \<open>int\<close>; the smallest one is left out
  by the properties, since its negation does not compile.
\<close>

section \<open>Definitions\<close>

type_synonym string_literal = string

definition NUL :: char where
  "NUL = CHR 0x00"

definition StringLiteral :: "string \<Rightarrow> string_literal" where
  "StringLiteral str = str @ [NUL]"

definition literal_view :: "string_literal \<Rightarrow> string" where
  "literal_view l = take (length l - 1) l"

definition literal_c_str :: "string_literal \<Rightarrow> string" where
  "literal_c_str l = takeWhile (\<lambda>c. c \<noteq> NUL) l"

definition join_one :: "string_literal \<Rightarrow> string \<times> nat \<Rightarrow> string \<times> nat" where
  "join_one l p = (case p of (result, off) \<Rightarrow>
     (overwrite off (take (length l - 1) l) result, off + (length l - 1)))"

definition string_join :: "string_literal list \<Rightarrow> string_literal" where
  "string_join ls =
     (let total = sum_list (map length ls) - length ls + 1;
          (result, off) = fold join_one ls (replicate total NUL, 0)
      in result[off := NUL])"

definition DECIMAL_BASE :: nat where
  "DECIMAL_BASE = 10"

definition digit_char :: "nat \<Rightarrow> char" where
  "digit_char d = char_of (48 + d)"

fun count_digits :: "nat \<Rightarrow> nat" where
  "count_digits remaining =
     (if 0 < remaining div 10 then Suc (count_digits (remaining div 10)) else 1)"

fun write_digits :: "nat \<Rightarrow> nat \<Rightarrow> string \<Rightarrow> string" where
  "write_digits write_offset remaining result =
     (let result = result[write_offset := digit_char (remaining mod 10)]
      in if 0 < remaining div 10 then write_digits (write_offset - 1) (remaining div 10) result else result)"

definition int_to_string :: "int \<Rightarrow> string_literal" where
  "int_to_string v =
     (let is_negative = v < 0;
          absolute = nat (if is_negative then - v else v);
          digits = count_digits absolute;
          total = digits + (if is_negative then 1 else 0) + 1;
          result = write_digits (total - 2) absolute (replicate total NUL);
          result = (if is_negative then result[0 := CHR ''-''] else result)
      in result[total - 1 := NUL])"

definition version_string :: "int \<Rightarrow> int \<Rightarrow> int \<Rightarrow> string_literal" where
  "version_string major minor revision =
     string_join [int_to_string major, StringLiteral ''.'', int_to_string minor, StringLiteral ''.'',
       int_to_string revision]"

declare count_digits.simps [simp del] write_digits.simps [simp del]

section \<open>Joining\<close>

lemma literal_view_StringLiteral [simp]: "literal_view (StringLiteral s) = s"
  by (simp add: literal_view_def StringLiteral_def)

lemma length_StringLiteral [simp]: "length (StringLiteral s) = length s + 1"
  by (simp add: StringLiteral_def)

lemma overwrite_end: "off = length xs \<Longrightarrow> overwrite off ds (xs @ ys) = xs @ ds @ drop (length ds) ys"
  by (simp add: overwrite_def)

lemma join_fold:
  "fold join_one (map StringLiteral ss) (pre @ replicate (length (concat ss) + 1) NUL, length pre) =
     (pre @ concat ss @ [NUL], length pre + length (concat ss))"
proof (induction ss arbitrary: pre)
  case (Cons s ss)
  have "join_one (StringLiteral s) (pre @ replicate (length (concat (s # ss)) + 1) NUL, length pre) =
      ((pre @ s) @ replicate (length (concat ss) + 1) NUL, length (pre @ s))"
    by (simp add: join_one_def StringLiteral_def overwrite_def drop_replicate del: replicate_Suc
      flip: replicate_Suc)
  with Cons.IH [of "pre @ s"] show ?case by simp
qed simp

lemma string_join_literals: "string_join (map StringLiteral ss) = StringLiteral (concat ss)"
proof -
  have "sum_list (map length (map StringLiteral ss)) = length (concat ss) + length ss"
    by (induction ss) auto
  then show ?thesis
    using join_fold [of ss "[]"] by (simp add: string_join_def StringLiteral_def list_update_append)
qed

lemma literal_c_str_StringLiteral: "NUL \<notin> set s \<Longrightarrow> literal_c_str (StringLiteral s) = s"
  by (auto simp: literal_c_str_def StringLiteral_def takeWhile_append)

section \<open>Numbers\<close>

text \<open>The decimal notation of a number, most significant digit first, without leading zeros.\<close>

fun decimal :: "nat \<Rightarrow> string" where
  "decimal n = (if n < 10 then [digit_char n] else decimal (n div 10) @ [digit_char (n mod 10)])"

definition decimal_int :: "int \<Rightarrow> string" where
  "decimal_int v = (if v < 0 then CHR ''-'' # decimal (nat (- v)) else decimal (nat v))"

text \<open>Reading a decimal notation back.\<close>

definition decimal_value :: "string \<Rightarrow> nat" where
  "decimal_value s = foldl (\<lambda>a c. 10 * a + (of_char c - 48)) 0 s"

definition decimal_int_value :: "string \<Rightarrow> int" where
  "decimal_int_value s =
     (case s of c # t \<Rightarrow> if c = CHR ''-'' then - int (decimal_value t) else int (decimal_value s) | [] \<Rightarrow> 0)"

declare decimal.simps [simp del]

lemma length_decimal: "length (decimal n) = count_digits n"
proof (induction n rule: decimal.induct)
  case (1 n)
  then show ?case by (subst decimal.simps, subst count_digits.simps) (simp add: div_greater_zero_iff)
qed

lemma count_digits_pos: "0 < count_digits n"
  by (subst count_digits.simps) simp

lemma write_digits_eq:
  "count_digits n \<le> Suc off \<Longrightarrow> off < length r \<Longrightarrow>
     write_digits off n r = overwrite (Suc off - count_digits n) (decimal n) r"
proof (induction n arbitrary: off r rule: decimal.induct)
  case (1 n)
  show ?case
  proof (cases "n < 10")
    case True
    then show ?thesis using "1.prems"
      by (subst write_digits.simps, subst decimal.simps, subst count_digits.simps)
        (simp add: overwrite_def upd_conv_take_nth_drop)
  next
    case False
    let ?m = "n div 10" and ?r = "r[off := digit_char (n mod 10)]"
    have digits: "count_digits n = Suc (count_digits ?m)"
      using False by (subst count_digits.simps) (simp add: div_greater_zero_iff)
    have le: "count_digits ?m \<le> off" using "1.prems"(1) digits by simp
    then have pos: "0 < off" using count_digits_pos [of ?m] by linarith
    have "write_digits off n r = write_digits (off - 1) ?m ?r"
      using False by (subst write_digits.simps) (simp add: div_greater_zero_iff)
    also have "\<dots> = overwrite (Suc (off - 1) - count_digits ?m) (decimal ?m) ?r"
      using "1.IH" [OF False, of "off - 1" ?r] le "1.prems"(2) pos by simp
    also have "\<dots> = overwrite (Suc off - count_digits n) (decimal n) r"
      using pos le "1.prems"(2) digits False
      by (subst (2) decimal.simps) (simp add: overwrite_def length_decimal upd_conv_take_nth_drop)
    finally show ?thesis .
  qed
qed

lemma overwrite_rest: "length ds = n \<Longrightarrow> overwrite k ds (replicate (n + k + 1) x) = replicate k x @ ds @ [x]"
  by (auto simp: overwrite_def drop_replicate min_def simp del: replicate_Suc simp flip: replicate_append_same) simp

lemma int_to_string_eq: "int_to_string v = StringLiteral (decimal_int v)"
proof -
  let ?a = "nat (if v < 0 then - v else v)" and ?k = "if v < 0 then 1 else 0 :: nat"
  have pos: "0 < count_digits ?a" by (rule count_digits_pos)
  have "write_digits (count_digits ?a + ?k + 1 - 2) ?a (replicate (count_digits ?a + ?k + 1) NUL) =
      overwrite ?k (decimal ?a) (replicate (count_digits ?a + ?k + 1) NUL)"
    using pos by (subst write_digits_eq) auto
  also have "\<dots> = replicate ?k NUL @ decimal ?a @ [NUL]"
    by (rule overwrite_rest) (rule length_decimal)
  finally show ?thesis
    by (cases "v < 0")
      (simp_all add: int_to_string_def decimal_int_def StringLiteral_def list_update_append length_decimal)
qed

lemma of_char_digit: "d < 10 \<Longrightarrow> of_char (digit_char d) = 48 + d"
  by (simp add: digit_char_def)

lemma decimal_value_decimal: "decimal_value (decimal n) = n"
proof (induction n rule: decimal.induct)
  case (1 n)
  then show ?case by (subst decimal.simps) (simp add: decimal_value_def of_char_digit)
qed

lemma digit_not_sign: "d < 10 \<Longrightarrow> digit_char d \<noteq> CHR ''-''"
proof
  assume "d < 10" "digit_char d = CHR ''-''"
  then have "48 + d = (of_char (CHR ''-'') :: nat)" using of_char_digit [of d] by simp
  then show False by simp
qed

lemma decimal_digits: "decimal n \<noteq> [] \<and> hd (decimal n) \<noteq> CHR ''-''"
proof (induction n rule: decimal.induct)
  case (1 n)
  then show ?case by (subst (1 2) decimal.simps) (auto simp: digit_not_sign)
qed

lemma decimal_int_value: "decimal_int_value (decimal_int v) = v"
  using decimal_digits [of "nat v"] decimal_value_decimal [of "nat v"]
  by (cases "decimal (nat v)") (auto simp: decimal_int_value_def decimal_int_def decimal_value_decimal split: list.splits)

section \<open>Properties\<close>

text \<open>\<open>int_to_string\<close> is the decimal notation of the number (most significant digit first, without leading
zeros, with a sign when it is negative) followed by the terminator, so that the number is read back from it; the
string of a version is the three numbers with dots between them, with one terminator at its end.\<close>

theorem version_string_readable:
  "int_to_string v = StringLiteral (decimal_int v) \<and>
     decimal_int_value (literal_view (int_to_string v)) = v \<and>
     version_string major minor revision =
       StringLiteral (decimal_int major @ ''.'' @ decimal_int minor @ ''.'' @ decimal_int revision)"
proof -
  have "version_string major minor revision = string_join (map StringLiteral
      [decimal_int major, ''.'', decimal_int minor, ''.'', decimal_int revision])"
    by (simp add: version_string_def int_to_string_eq)
  also have "\<dots> = StringLiteral (decimal_int major @ ''.'' @ decimal_int minor @ ''.'' @ decimal_int revision)"
    by (subst string_join_literals) simp
  finally show ?thesis by (simp add: int_to_string_eq decimal_int_value)
qed

end
