(* ===== verification/Misc_Numeric.thy ===== *)
theory Misc_Numeric
  imports Zlibs_Prelude "HOL-Library.Signed_Division"
begin

text \<open>
  The bit operations of \<open>misc/bit.h\<close>, for unsigned types at least as wide as \<open>int\<close> or narrower (the
  result is cut to the width on assignment), and \<open>constrain\<close> and \<open>map_range\<close> of \<open>misc/numeric.h\<close> for
  \<open>int\<close>, under ranges for which the products do not overflow (an overflow is undefined in C++).
\<close>

section \<open>Definitions\<close>

definition bit_read :: "'a::len word \<Rightarrow> nat \<Rightarrow> bool" where
  "bit_read v b = (drop_bit b v AND 1 \<noteq> 0)"

definition bit_set :: "'a::len word \<Rightarrow> nat \<Rightarrow> 'a word" where
  "bit_set v b = v OR push_bit b 1"

definition bit_clear :: "'a::len word \<Rightarrow> nat \<Rightarrow> 'a word" where
  "bit_clear v b = v AND NOT (push_bit b 1)"

definition bit_write :: "'a::len word \<Rightarrow> nat \<Rightarrow> bool \<Rightarrow> 'a word" where
  "bit_write v b bit_value = (if bit_value then bit_set v b else bit_clear v b)"

definition constrain :: "int \<Rightarrow> int \<Rightarrow> int \<Rightarrow> int" where
  "constrain input low high = (if input < low then low else if high < input then high else input)"

definition map_range :: "int \<Rightarrow> int \<Rightarrow> int \<Rightarrow> int \<Rightarrow> int \<Rightarrow> int" where
  "map_range x in_min in_max out_min out_max =
     (let x = constrain x in_min in_max
      in if in_min = out_min \<and> in_max = out_max then x
         else if in_min = in_max then x
         else if out_max - out_min < in_max - in_min
              then ((x - in_min) * (out_max - out_min + 1)) sdiv (in_max - in_min + 1) + out_min
         else ((x - in_min) * (out_max - out_min)) sdiv (in_max - in_min) + out_min)"

section \<open>Lemmas\<close>

lemma bit_read_eq: "bit_read v b = bit v b"
  by (auto simp: bit_read_def and_one_eq bit_iff_odd_drop_bit odd_iff_mod_2_eq_one)

lemma bit_write_eq:
  "b < LENGTH('a) \<Longrightarrow> bit_read (bit_write v b x) n = (if n = b then x else bit_read (v :: 'a::len word) n)"
  by (auto simp: bit_read_eq bit_write_def bit_set_def bit_clear_def bit_simps dest: bit_imp_le_length)

lemma constrain_bounds: "low \<le> high \<Longrightarrow> low \<le> constrain x low high \<and> constrain x low high \<le> high"
  by (simp add: constrain_def)

lemma constrain_mono: "low \<le> high \<Longrightarrow> x \<le> y \<Longrightarrow> constrain x low high \<le> constrain y low high"
  by (simp add: constrain_def)

lemma sdiv_pos: "0 \<le> a \<Longrightarrow> 0 < b \<Longrightarrow> a sdiv b = a div (b :: int)"
  by (cases "a = 0") (simp_all add: signed_divide_int_def)

text \<open>The linear part of both branches: \<open>n\<close> steps of the input for \<open>m\<close> steps of the output.\<close>

lemma scale_bounds:
  fixes k :: int
  assumes "0 \<le> k" "k \<le> n" "0 < n" "0 \<le> m"
  shows "0 \<le> (k * m) div n" "(k * m) div n \<le> m"
proof -
  have "k * m \<le> n * m" using assms by (simp add: mult_right_mono)
  then have "(k * m) div n \<le> (n * m) div n" using assms by (intro zdiv_mono1) auto
  then show "(k * m) div n \<le> m" using assms by simp
  show "0 \<le> (k * m) div n" using assms by (simp add: pos_imp_zdiv_nonneg_iff)
qed

lemma scale_mono:
  fixes k :: int
  shows "k \<le> l \<Longrightarrow> 0 < n \<Longrightarrow> 0 \<le> m \<Longrightarrow> (k * m) div n \<le> (l * m) div n"
  by (intro zdiv_mono1 mult_right_mono) auto

lemma scale_last:
  fixes d :: int
  assumes "0 \<le> m" "m < d"
  shows "(d * (m + 1)) div (d + 1) = m"
proof -
  have "d * (m + 1) = (d - m) + m * (d + 1)" by (simp add: algebra_simps)
  then have "(d * (m + 1)) div (d + 1) = ((d - m) + m * (d + 1)) div (d + 1)" by (rule arg_cong)
  also have "\<dots> = m" using assms by simp
  finally show ?thesis .
qed

lemma map_range_eq:
  assumes "in_min < in_max" "out_min \<le> out_max"
  shows "map_range x in_min in_max out_min out_max =
     (let k = constrain x in_min in_max - in_min; d = in_max - in_min; m = out_max - out_min
      in out_min + (if m < d then (k * (m + 1)) div (d + 1) else (k * m) div d))"
  using assms constrain_bounds [of in_min in_max x]
  by (auto simp: map_range_def Let_def sdiv_pos scale_last)

lemma quantized_bounds:
  fixes k :: int
  assumes "0 \<le> k" "k \<le> d" "0 \<le> m" "m < d"
  shows "(k * (m + 1)) div (d + 1) \<le> m"
  using scale_mono [of k d "d + 1" "m + 1"] scale_last [of m d] assms by simp

section \<open>Properties\<close>

text \<open>\<open>map_range\<close> into an output range that is not reversed gives a value inside it, is monotone in the
input, and takes the ends of the input range to the ends of the output range; inputs outside of the input range
count as its ends.\<close>

theorem map_range_linear:
  assumes "in_min < in_max" "out_min \<le> out_max" "x \<le> y"
  shows "out_min \<le> map_range x in_min in_max out_min out_max \<and>
     map_range x in_min in_max out_min out_max \<le> map_range y in_min in_max out_min out_max \<and>
     map_range y in_min in_max out_min out_max \<le> out_max \<and>
     map_range (min x in_min) in_min in_max out_min out_max = out_min \<and>
     map_range (max y in_max) in_min in_max out_min out_max = out_max"
proof -
  let ?k = "\<lambda>x. constrain x in_min in_max - in_min" and ?d = "in_max - in_min" and ?m = "out_max - out_min"
  have k: "0 \<le> ?k z" "?k z \<le> ?d" for z using constrain_bounds [of in_min in_max z] assms(1) by auto
  have mono: "?k x \<le> ?k y" using constrain_mono assms by simp
  have ends: "?k (min x in_min) = 0" "?k (max y in_max) = ?d" using assms(1) by (auto simp: constrain_def)
  note eq = map_range_eq [OF assms(1,2), unfolded Let_def]
  show ?thesis
  proof (cases "?m < ?d")
    case True
    then show ?thesis
      using assms mono ends k [of x] scale_mono [OF mono, of "?d + 1" "?m + 1"] quantized_bounds [OF k, of ?m y]
        scale_last [of ?m ?d] by (simp add: eq pos_imp_zdiv_nonneg_iff)
  next
    case False
    then show ?thesis
      using assms mono ends scale_bounds [OF k, of ?m x] scale_bounds [OF k, of ?m y]
        scale_mono [OF mono, of ?d ?m] by (simp add: eq)
  qed
qed

theorem map_range_linear_witness:
  "map_range 300 0 1023 0 100 \<le> map_range 2000 0 1023 0 100 \<and> map_range (max 2000 1023) 0 1023 0 100 = 100"
  using map_range_linear [of 0 1023 0 100 300 2000] by simp

end
