(* ===== verification/Emu_Common.thy ===== *)
theory Emu_Common
  imports Zlibs_Prelude
begin

text \<open>
  The types, constants and byte encodings of \<open>emueeprom/emueeprom_common.h\<close>: logical entries
  and their four-byte little-endian form (value first, then address), page states, result
  codes, and the number of logical addresses a page can serve.
\<close>

section \<open>Constants\<close>

definition ERASED_VALUE :: u16 where [model_defs]: "ERASED_VALUE = 0xFFFF"
definition ERASED_BYTE :: u8 where [model_defs]: "ERASED_BYTE = ucast ERASED_VALUE"
definition RESERVED_STATUS_ADDRESS :: u16 where [model_defs]: "RESERVED_STATUS_ADDRESS = ERASED_VALUE"
definition SERIALIZED_VALUE_OFFSET :: nat where [simp]: "SERIALIZED_VALUE_OFFSET = 0"
definition SERIALIZED_ADDRESS_OFFSET :: nat where [simp]: "SERIALIZED_ADDRESS_OFFSET = 2"
definition SERIALIZED_ENTRY_SIZE :: nat where [simp]: "SERIALIZED_ENTRY_SIZE = 2 + 2"
definition INTERNAL_BLOCK_SIZE :: nat where [simp]: "INTERNAL_BLOCK_SIZE = 256"
definition MIN_INTERNAL_ENTRY_BLOCK_COUNT :: nat where [simp]: "MIN_INTERNAL_ENTRY_BLOCK_COUNT = 3"

definition address_count_for :: "nat \<Rightarrow> nat \<Rightarrow> nat" where
  "address_count_for page_size write_block_size =
     (let page_entry_count = page_size div SERIALIZED_ENTRY_SIZE;
          entries_per_backend_block = write_block_size div SERIALIZED_ENTRY_SIZE;
          internal_entry_count = MIN_INTERNAL_ENTRY_BLOCK_COUNT * entries_per_backend_block
      in if page_entry_count \<le> internal_entry_count then 0
         else let address_count = page_entry_count - internal_entry_count
              in if address_count > unat RESERVED_STATUS_ADDRESS
                 then unat RESERVED_STATUS_ADDRESS else address_count)"

section \<open>Entries and enumerations\<close>

record entry =
  entry_address :: u16
  entry_value :: u16

definition make_entry :: "u16 \<Rightarrow> u16 \<Rightarrow> entry" where
  "make_entry address val = \<lparr>entry_address = address, entry_value = val\<rparr>"

datatype page_status = Valid | Erased | Formatted | Receiving

fun page_status_code :: "page_status \<Rightarrow> u16" where
  "page_status_code Valid = 0x0000"
| "page_status_code Erased = ERASED_VALUE"
| "page_status_code Formatted = 0xEEEE"
| "page_status_code Receiving = 0x7777"

datatype read_status = ReadOk | NoVariable | ReadNoPage | ReadError
datatype write_status = WriteOk | PageFull | WriteNoPage | WriteError
datatype page = Page1 | Page2 | Factory

section \<open>Byte encodings\<close>

definition serialize_value :: "'a::len word \<Rightarrow> u8 list" where
  "serialize_value val =
     map (\<lambda>index. ucast (drop_bit (index * 8) val AND ucast ERASED_BYTE)) [0 ..< LENGTH('a) div 8]"

definition deserialize_value :: "u8 list \<Rightarrow> 'a::len word" where
  "deserialize_value data =
     fold (\<lambda>index val. val OR push_bit (index * 8) (ucast (data ! index))) [0 ..< LENGTH('a) div 8] 0"

definition serialize_entry :: "entry \<Rightarrow> u8 list" where
  "serialize_entry e = serialize_value (entry_value e) @ serialize_value (entry_address e)"

definition deserialize_entry :: "u8 list \<Rightarrow> entry" where
  "deserialize_entry data =
     make_entry (deserialize_value (slice SERIALIZED_ADDRESS_OFFSET 2 data))
       (deserialize_value (slice SERIALIZED_VALUE_OFFSET 2 data))"

definition all_erased :: "u8 list \<Rightarrow> bool" where
  "all_erased data = list_all (\<lambda>byte. byte = ERASED_BYTE) data"

section \<open>Facts about the encodings\<close>

lemma ERASED_BYTE_eq: "ERASED_BYTE = 0xFF"
  by (simp add: model_defs)

lemma replicate_4: "replicate 4 x = [x, x, x, x]"
  by (simp add: numeral_eq_Suc)

lemma upt_2: "[0 ..< 2] = [0, 1 :: nat]"
  by (simp add: numeral_2_eq_2)

lemma serialize_u16:
  "serialize_value (v :: u16) = [ucast (v AND 0xFF), ucast (drop_bit 8 v AND 0xFF)]"
  by (simp add: serialize_value_def upt_2 ERASED_BYTE_eq)

lemma deserialize_u16:
  "deserialize_value [a, b] = (ucast a OR push_bit 8 (ucast b) :: u16)"
  by (simp add: deserialize_value_def upt_2)

lemma length_serialize_entry [simp]: "length (serialize_entry e) = 4"
  by (simp add: serialize_entry_def serialize_u16)

lemma all_erased_iff: "all_erased xs \<longleftrightarrow> xs = replicate (length xs) ERASED_BYTE"
  by (induction xs) (auto simp: all_erased_def)

lemma all_erased_replicate [simp]: "all_erased (replicate n ERASED_BYTE)"
  by (simp add: all_erased_def list_all_length)

lemma all_erased_append [simp]: "all_erased (xs @ ys) \<longleftrightarrow> all_erased xs \<and> all_erased ys"
  by (simp add: all_erased_def)

lemma mask8_u16: "(0xFF :: u16) = mask 8"
  by (simp add: mask_eq_exp_minus_1)

lemma u16_bytes_roundtrip:
  fixes v :: u16
  shows "ucast (ucast (v AND 0xFF) :: u8) OR push_bit 8 (ucast (ucast (drop_bit 8 v AND 0xFF) :: u8)) = v"
  unfolding mask8_u16 by (rule bit_word_eqI) (auto simp: bit_simps)

lemma deserialize_serialize_u16: "deserialize_value (serialize_value v) = (v :: u16)"
  by (simp only: serialize_u16 deserialize_u16 u16_bytes_roundtrip)

lemma deserialize_serialize_entry: "deserialize_entry (serialize_entry e) = e"
proof -
  have "slice 2 2 (serialize_entry e) = serialize_value (entry_address e)"
    and "slice 0 2 (serialize_entry e) = serialize_value (entry_value e)"
    by (simp_all add: serialize_entry_def serialize_u16 slice_def numeral_2_eq_2)
  then show ?thesis
    by (simp add: deserialize_entry_def make_entry_def deserialize_serialize_u16)
qed

lemma serialize_entry_erased_iff:
  "all_erased (serialize_entry e) \<longleftrightarrow> entry_address e = RESERVED_STATUS_ADDRESS \<and> entry_value e = ERASED_VALUE"
proof
  assume "all_erased (serialize_entry e)"
  then have "serialize_entry e = replicate 4 ERASED_BYTE" by (metis all_erased_iff length_serialize_entry)
  also have "\<dots> = serialize_entry (make_entry RESERVED_STATUS_ADDRESS ERASED_VALUE)"
    by (simp add: serialize_entry_def make_entry_def serialize_u16 model_defs replicate_4)
  finally have "deserialize_entry (serialize_entry e)
      = deserialize_entry (serialize_entry (make_entry RESERVED_STATUS_ADDRESS ERASED_VALUE))"
    by (rule arg_cong)
  then have "e = make_entry RESERVED_STATUS_ADDRESS ERASED_VALUE"
    by (simp only: deserialize_serialize_entry)
  then show "entry_address e = RESERVED_STATUS_ADDRESS \<and> entry_value e = ERASED_VALUE"
    by (simp add: make_entry_def)
qed (simp add: serialize_entry_def serialize_u16 model_defs all_erased_def)

end
