(* ===== verification/Emu_Eeprom.thy ===== *)
theory Emu_Eeprom
  imports Emu_Common
begin

text \<open>
  The emulated EEPROM of \<open>emueeprom/internal.h\<close> and \<open>emueeprom.cpp\<close>: every member function of
  \<open>EmuEepromInternal\<close>, in the order of the source. The flash backend (the virtual interface
  \<open>Hwa\<close>) and the two size constants of the owner are the fields of \<open>emu_env\<close>; the backend has
  a state of its own type. A function that returns \<open>bool\<close> and changes members becomes a
  function to \<open>bool \<times> state\<close>. Offsets and sizes are natural numbers; the one unsigned
  subtraction whose operand comes from the running state goes through \<open>sub32\<close>.
\<close>

section \<open>Backend interface and state\<close>

text \<open>\<open>hwa_read\<close> receives the caller's buffer and returns its contents after the call.\<close>

record 'h emu_env =
  hwa_init :: "'h \<Rightarrow> bool \<times> 'h"
  hwa_erase_page :: "page \<Rightarrow> 'h \<Rightarrow> bool \<times> 'h"
  hwa_write :: "page \<Rightarrow> nat \<Rightarrow> u8 list \<Rightarrow> 'h \<Rightarrow> bool \<times> 'h"
  hwa_read :: "page \<Rightarrow> nat \<Rightarrow> u8 list \<Rightarrow> 'h \<Rightarrow> bool \<times> u8 list \<times> 'h"
  page_size :: nat
  write_block_size :: nat

record next_write_offset =
  nwo_page :: page
  nwo_offset :: nat

record 'h emu =
  hwa_state :: 'h
  ram_cache :: "u16 list"
  write_block_buffer :: "u8 list"
  page_status_cache :: "page \<Rightarrow> page_status"
  next_write_offset_cache :: next_write_offset
  write_block_page :: page
  write_block_offset :: nat
  write_block_entries :: nat
  write_block_dirty :: bool
  cache_dirty :: bool

datatype page_operation = OpRead | OpWrite

definition emu_new :: "'h \<Rightarrow> nat \<Rightarrow> 'h emu" where
  "emu_new h logical_address_count =
     \<lparr>hwa_state = h, ram_cache = replicate logical_address_count 0,
      write_block_buffer = replicate INTERNAL_BLOCK_SIZE 0,
      page_status_cache = (\<lambda>_. Erased),
      next_write_offset_cache = \<lparr>nwo_page = Page1, nwo_offset = 0\<rparr>,
      write_block_page = Page1, write_block_offset = 0, write_block_entries = 0,
      write_block_dirty = False, cache_dirty = False\<rparr>"

definition read_block_size :: nat where [simp]: "read_block_size = INTERNAL_BLOCK_SIZE"

definition max_address :: "'h emu \<Rightarrow> nat" where
  "max_address s = length (ram_cache s) mod 2 ^ 16"

definition entries_per_block :: "'h emu_env \<Rightarrow> nat" where
  "entries_per_block E = write_block_size E div SERIALIZED_ENTRY_SIZE"

section \<open>Calls into the backend\<close>

definition call_init :: "'h emu_env \<Rightarrow> 'h emu \<Rightarrow> bool \<times> 'h emu" where
  "call_init E s = (case hwa_init E (hwa_state s) of (ok, h) \<Rightarrow> (ok, s\<lparr>hwa_state := h\<rparr>))"

definition call_erase :: "'h emu_env \<Rightarrow> page \<Rightarrow> 'h emu \<Rightarrow> bool \<times> 'h emu" where
  "call_erase E p s = (case hwa_erase_page E p (hwa_state s) of (ok, h) \<Rightarrow> (ok, s\<lparr>hwa_state := h\<rparr>))"

definition call_write :: "'h emu_env \<Rightarrow> page \<Rightarrow> nat \<Rightarrow> u8 list \<Rightarrow> 'h emu \<Rightarrow> bool \<times> 'h emu" where
  "call_write E p offset data s =
     (case hwa_write E p offset data (hwa_state s) of (ok, h) \<Rightarrow> (ok, s\<lparr>hwa_state := h\<rparr>))"

text \<open>Every read of the source first fills the buffer with \<open>ERASED_BYTE\<close>.\<close>

definition call_read :: "'h emu_env \<Rightarrow> page \<Rightarrow> nat \<Rightarrow> nat \<Rightarrow> 'h emu \<Rightarrow> u8 list option \<times> 'h emu" where
  "call_read E p offset n s =
     (case hwa_read E p offset (replicate n ERASED_BYTE) (hwa_state s) of
        (ok, data, h) \<Rightarrow> (if ok then Some data else None, s\<lparr>hwa_state := h\<rparr>))"

section \<open>Cached page states and offsets\<close>

definition cached_page_status :: "page \<Rightarrow> 'h emu \<Rightarrow> page_status" where
  "cached_page_status p s = page_status_cache s p"

definition set_cached_page_status :: "page \<Rightarrow> page_status \<Rightarrow> 'h emu \<Rightarrow> 'h emu" where
  "set_cached_page_status p status s = s\<lparr>page_status_cache := (page_status_cache s)(p := status)\<rparr>"

definition cached_next_write_offset :: "'h emu \<Rightarrow> next_write_offset" where
  "cached_next_write_offset s = next_write_offset_cache s"

definition set_cached_next_write_offset :: "page \<Rightarrow> nat \<Rightarrow> 'h emu \<Rightarrow> 'h emu" where
  "set_cached_next_write_offset p offset s =
     s\<lparr>next_write_offset_cache := \<lparr>nwo_page = p, nwo_offset = offset\<rparr>\<rparr>"

definition clear_write_block :: "'h emu \<Rightarrow> 'h emu" where
  "clear_write_block s =
     s\<lparr>write_block_buffer := replicate INTERNAL_BLOCK_SIZE ERASED_BYTE,
       write_block_page := Page1, write_block_offset := 0,
       write_block_entries := 0, write_block_dirty := False\<rparr>"

definition fill_cache_erased :: "'h emu \<Rightarrow> 'h emu" where
  "fill_cache_erased s = s\<lparr>ram_cache := replicate (length (ram_cache s)) ERASED_VALUE\<rparr>"

definition serialize_page_status :: "page_status \<Rightarrow> u16" where
  "serialize_page_status status = page_status_code status"

definition deserialize_page_status :: "u16 \<Rightarrow> page_status option" where
  "deserialize_page_status val =
     (if val = page_status_code Valid then Some Valid
      else if val = page_status_code Formatted then Some Formatted
      else if val = page_status_code Receiving then Some Receiving
      else None)"

fun find_valid_page :: "page_operation \<Rightarrow> 'h emu \<Rightarrow> page option" where
  "find_valid_page OpWrite s =
     (let page_1_status = cached_page_status Page1 s; page_2_status = cached_page_status Page2 s
      in if page_2_status = Valid then Some (if page_1_status = Receiving then Page1 else Page2)
         else if page_1_status = Valid then Some (if page_2_status = Receiving then Page2 else Page1)
         else None)"
| "find_valid_page OpRead s =
     (let page_1_status = cached_page_status Page1 s; page_2_status = cached_page_status Page2 s
      in if page_1_status = Valid then Some Page1
         else if page_2_status = Valid then Some Page2
         else None)"

section \<open>The pending write block\<close>

definition flush_write_block :: "'h emu_env \<Rightarrow> 'h emu \<Rightarrow> bool \<times> 'h emu" where
  "flush_write_block E s =
     (if \<not> write_block_dirty s then (True, s)
      else and_then
        (call_write E (write_block_page s) (write_block_offset s)
           (take (write_block_size E) (write_block_buffer s)) s)
        (\<lambda>s. let cached_write_offset = cached_next_write_offset s;
                 s = (if nwo_page cached_write_offset = write_block_page s \<and>
                         nwo_offset cached_write_offset > write_block_offset s \<and>
                         nwo_offset cached_write_offset < write_block_offset s + write_block_size E
                      then set_cached_next_write_offset (write_block_page s)
                             (write_block_offset s + write_block_size E) s
                      else s)
             in (True, clear_write_block s)))"

definition write_entry :: "'h emu_env \<Rightarrow> page \<Rightarrow> nat \<Rightarrow> entry \<Rightarrow> 'h emu \<Rightarrow> write_status \<times> 'h emu" where
  "write_entry E p offset e s =
     (if offset + SERIALIZED_ENTRY_SIZE > page_size E then (PageFull, s)
      else let block_offset = (offset div write_block_size E) * write_block_size E;
               within_block = offset - block_offset
      in if within_block + SERIALIZED_ENTRY_SIZE > write_block_size E then (WriteError, s)
      else case (if write_block_dirty s \<and>
                    (write_block_page s \<noteq> p \<or> write_block_offset s \<noteq> block_offset)
                 then flush_write_block E s else (True, s)) of
        (False, s) \<Rightarrow> (WriteError, s)
      | (True, s) \<Rightarrow>
          let s = (if \<not> write_block_dirty s
                   then s\<lparr>write_block_buffer := replicate INTERNAL_BLOCK_SIZE ERASED_BYTE,
                          write_block_page := p, write_block_offset := block_offset,
                          write_block_entries := 0, write_block_dirty := True\<rparr>
                   else s);
              s = s\<lparr>write_block_buffer :=
                      overwrite within_block (serialize_entry e) (write_block_buffer s),
                    write_block_entries := write_block_entries s + 1\<rparr>
          in if write_block_entries s \<ge> entries_per_block E
             then (case flush_write_block E s of
                     (False, s) \<Rightarrow> (WriteError, s) | (True, s) \<Rightarrow> (WriteOk, s))
             else (WriteOk, s))"

section \<open>Scans over a page\<close>

text \<open>
  The scans of \<open>find_next_free_offset\<close> and \<open>refresh_next_write_offset\<close> visit the read blocks of
  a page and, inside each, the write blocks, up to the first erased one. \<open>scan_read_block\<close> is
  the inner loop, \<open>scan_erased\<close> the outer one: it returns \<open>None\<close> when a read fails, else the
  offset of the first erased write block, if there is one.
\<close>

fun scan_read_block :: "'h emu_env \<Rightarrow> u8 list \<Rightarrow> nat list \<Rightarrow> nat option" where
  "scan_read_block E buffer [] = None"
| "scan_read_block E buffer (within_read_block # ws) =
     (if all_erased (slice within_read_block (write_block_size E) buffer)
      then Some within_read_block else scan_read_block E buffer ws)"

fun scan_erased :: "'h emu_env \<Rightarrow> page \<Rightarrow> nat list \<Rightarrow> 'h emu \<Rightarrow> nat option option \<times> 'h emu" where
  "scan_erased E p [] s = (Some None, s)"
| "scan_erased E p (read_offset # rs) s =
     (case call_read E p read_offset read_block_size s of
        (None, s) \<Rightarrow> (None, s)
      | (Some buffer, s) \<Rightarrow>
          (case scan_read_block E buffer (steps read_block_size (write_block_size E)) of
             Some within_read_block \<Rightarrow> (Some (Some (read_offset + within_read_block)), s)
           | None \<Rightarrow> scan_erased E p rs s))"

definition find_next_free_offset :: "'h emu_env \<Rightarrow> page \<Rightarrow> 'h emu \<Rightarrow> nat option \<times> 'h emu" where
  "find_next_free_offset E p s =
     (case scan_erased E p (steps (page_size E) read_block_size) s of
        (Some (Some offset), s) \<Rightarrow> (Some offset, s)
      | (_, s) \<Rightarrow> (None, s))"

definition refresh_next_write_offset :: "'h emu_env \<Rightarrow> page \<Rightarrow> 'h emu \<Rightarrow> bool \<times> 'h emu" where
  "refresh_next_write_offset E p s =
     (case scan_erased E p (steps (page_size E) read_block_size) s of
        (None, s) \<Rightarrow> (False, s)
      | (Some (Some offset), s) \<Rightarrow> (True, set_cached_next_write_offset p offset s)
      | (Some None, s) \<Rightarrow> (True, set_cached_next_write_offset p (page_size E) s))"

text \<open>
  The status scan goes backwards, entry by entry inside a read block and then block by block,
  to the most recent status record.
\<close>

fun scan_status_block :: "u8 list \<Rightarrow> nat \<Rightarrow> page_status option" where
  "scan_status_block buffer within_read_block =
     (let e = deserialize_entry (slice within_read_block SERIALIZED_ENTRY_SIZE buffer)
      in case (if entry_address e = RESERVED_STATUS_ADDRESS
               then deserialize_page_status (entry_value e) else None) of
           Some status \<Rightarrow> Some status
         | None \<Rightarrow> if within_read_block < SERIALIZED_ENTRY_SIZE then None
                   else scan_status_block buffer (within_read_block - SERIALIZED_ENTRY_SIZE))"

lemma block_before: "(n :: nat) div k * k \<noteq> 0 \<Longrightarrow> n div k * k - (2 + 2) < n"
  using div_times_less_eq_dividend [of n k] by linarith

function scan_status :: "'h emu_env \<Rightarrow> page \<Rightarrow> nat \<Rightarrow> 'h emu \<Rightarrow> page_status option option \<times> 'h emu" where
  "scan_status E p offset s =
     (let read_block_offset = (offset div read_block_size) * read_block_size
      in case call_read E p read_block_offset read_block_size s of
           (None, s) \<Rightarrow> (None, s)
         | (Some buffer, s) \<Rightarrow>
             (case scan_status_block buffer (offset - read_block_offset) of
                Some status \<Rightarrow> (Some (Some status), s)
              | None \<Rightarrow> if read_block_offset = 0 then (Some None, s)
                        else scan_status E p (read_block_offset - SERIALIZED_ENTRY_SIZE) s))"
  by pat_completeness auto
termination
  by (relation "measure (\<lambda>(E, p, offset, s). offset)")
    (simp, simp only: in_measure split_conv SERIALIZED_ENTRY_SIZE_def, erule block_before)

declare scan_status_block.simps [simp del] scan_status.simps [simp del]

definition refresh_page_status :: "'h emu_env \<Rightarrow> page \<Rightarrow> 'h emu \<Rightarrow> bool \<times> 'h emu" where
  "refresh_page_status E p s =
     (let start = page_size E - SERIALIZED_ENTRY_SIZE in
      case (if find_valid_page OpWrite s = Some p
            then (let cached_write_offset = cached_next_write_offset s in
                  case (if nwo_page cached_write_offset \<noteq> p \<or> nwo_offset cached_write_offset = 0
                        then refresh_next_write_offset E p s else (True, s)) of
                    (False, s) \<Rightarrow> (None, s)
                  | (True, s) \<Rightarrow>
                      let cached_write_offset = cached_next_write_offset s in
                      (Some (if nwo_offset cached_write_offset > 0
                             then sub32 (min (nwo_offset cached_write_offset) (page_size E)) SERIALIZED_ENTRY_SIZE
                             else start), s))
            else (Some start, s)) of
        (None, s) \<Rightarrow> (False, s)
      | (Some offset, s) \<Rightarrow>
          (case scan_status E p offset s of
             (None, s) \<Rightarrow> (False, s)
           | (Some (Some status), s) \<Rightarrow> (True, set_cached_page_status p status s)
           | (Some None, s) \<Rightarrow> (True, set_cached_page_status p Erased s)))"

definition page_status :: "'h emu_env \<Rightarrow> page \<Rightarrow> 'h emu \<Rightarrow> page_status \<times> 'h emu" where
  "page_status E p s =
     (case refresh_page_status E p s of
        (False, s) \<Rightarrow> (Erased, s) | (True, s) \<Rightarrow> (cached_page_status p s, s))"

definition write_page_status :: "'h emu_env \<Rightarrow> page \<Rightarrow> page_status \<Rightarrow> 'h emu \<Rightarrow> bool \<times> 'h emu" where
  "write_page_status E p status s =
     and_then (flush_write_block E s) (\<lambda>s.
     case find_next_free_offset E p s of
       (None, s) \<Rightarrow> (False, s)
     | (Some offset, s) \<Rightarrow>
         (case write_entry E p offset
                 (make_entry RESERVED_STATUS_ADDRESS (serialize_page_status status)) s of
            (st, s) \<Rightarrow>
              if st \<noteq> WriteOk then (False, s)
              else and_then (flush_write_block E s) (\<lambda>s.
                let cached_write_offset = cached_next_write_offset s;
                    s = (if nwo_page cached_write_offset = p
                         then set_cached_next_write_offset p
                                (min ((offset div write_block_size E) * write_block_size E + write_block_size E)
                                   (page_size E)) s
                         else s)
                in (True, set_cached_page_status p status s))))"

definition read_entry :: "'h emu_env \<Rightarrow> page \<Rightarrow> nat \<Rightarrow> 'h emu \<Rightarrow> entry option \<times> 'h emu" where
  "read_entry E p offset s =
     (let block_offset = (offset div write_block_size E) * write_block_size E;
          within_block = offset - block_offset
      in if within_block + SERIALIZED_ENTRY_SIZE > write_block_size E then (None, s)
         else case call_read E p block_offset (write_block_size E) s of
                (None, s) \<Rightarrow> (None, s)
              | (Some buffer, s) \<Rightarrow>
                  (Some (deserialize_entry (slice within_block SERIALIZED_ENTRY_SIZE buffer)), s))"

section \<open>Rebuilding the RAM mirror\<close>

fun cache_entries :: "u8 list \<Rightarrow> nat list \<Rightarrow> 'h emu \<Rightarrow> bool \<times> 'h emu" where
  "cache_entries write_block [] s = (True, s)"
| "cache_entries write_block (i # is) s =
     (let entry_data = slice (i * SERIALIZED_ENTRY_SIZE) SERIALIZED_ENTRY_SIZE write_block
      in if all_erased entry_data then cache_entries write_block is s
         else let decoded = deserialize_entry entry_data
         in if entry_address decoded = RESERVED_STATUS_ADDRESS then cache_entries write_block is s
         else if unat (entry_address decoded) \<ge> max_address s then (False, s)
         else cache_entries write_block is
                (s\<lparr>ram_cache := (ram_cache s)[unat (entry_address decoded) := entry_value decoded]\<rparr>))"

text \<open>\<open>None\<close>: an entry is out of range; \<open>Some True\<close>: an erased write block ended the scan.\<close>

fun cache_read_block :: "'h emu_env \<Rightarrow> page \<Rightarrow> nat \<Rightarrow> u8 list \<Rightarrow> nat list \<Rightarrow> 'h emu \<Rightarrow> bool option \<times> 'h emu" where
  "cache_read_block E p read_offset buffer [] s = (Some False, s)"
| "cache_read_block E p read_offset buffer (within_read_block # ws) s =
     (let write_block = slice within_read_block (write_block_size E) buffer
      in if all_erased write_block
         then (Some True, clear_write_block
                 (set_cached_next_write_offset p (read_offset + within_read_block) s))
         else (case cache_entries write_block [0 ..< entries_per_block E]
                      (set_cached_next_write_offset p
                         (read_offset + within_read_block + write_block_size E) s) of
                 (False, s) \<Rightarrow> (None, s)
               | (True, s) \<Rightarrow> cache_read_block E p read_offset buffer ws s))"

fun cache_page :: "'h emu_env \<Rightarrow> page \<Rightarrow> nat list \<Rightarrow> 'h emu \<Rightarrow> bool \<times> 'h emu" where
  "cache_page E p [] s = (True, clear_write_block s)"
| "cache_page E p (read_offset # rs) s =
     (case call_read E p read_offset read_block_size s of
        (None, s) \<Rightarrow> (False, s)
      | (Some buffer, s) \<Rightarrow>
          (case cache_read_block E p read_offset buffer
                  (steps read_block_size (write_block_size E)) s of
             (None, s) \<Rightarrow> (False, s)
           | (Some True, s) \<Rightarrow> (True, s)
           | (Some False, s) \<Rightarrow> cache_page E p rs s))"

definition emu_cache :: "'h emu_env \<Rightarrow> 'h emu \<Rightarrow> bool \<times> 'h emu" where
  "emu_cache E s =
     (let s = (set_cached_next_write_offset Page1 0 (fill_cache_erased (clear_write_block s)))\<lparr>cache_dirty := False\<rparr>
      in case find_valid_page OpRead s of
           None \<Rightarrow> (False, s)
         | Some valid_page \<Rightarrow> cache_page E valid_page (steps (page_size E) read_block_size) s)"

section \<open>Writing\<close>

definition write_internal :: "'h emu_env \<Rightarrow> entry \<Rightarrow> bool \<Rightarrow> 'h emu \<Rightarrow> write_status \<times> 'h emu" where
  "write_internal E e cache_only s =
     (if entry_address e = RESERVED_STATUS_ADDRESS \<or> unat (entry_address e) \<ge> max_address s
      then (WriteError, s)
      else if cache_only
      then (WriteOk, s\<lparr>ram_cache := (ram_cache s)[unat (entry_address e) := entry_value e], cache_dirty := True\<rparr>)
      else case find_valid_page OpWrite s of
        None \<Rightarrow> (WriteNoPage, s)
      | Some valid_page \<Rightarrow>
          (case (let cached_write_offset = cached_next_write_offset s in
                 if nwo_page cached_write_offset = valid_page \<and> nwo_offset cached_write_offset \<noteq> 0
                 then (True, s) else refresh_next_write_offset E valid_page s) of
             (False, s) \<Rightarrow> (WriteError, s)
           | (True, s) \<Rightarrow>
               let write_offset = nwo_offset (cached_next_write_offset s) in
               if write_offset \<ge> page_size E then (PageFull, s)
               else case write_entry E valid_page write_offset e s of
                 (status, s) \<Rightarrow>
                   if status \<noteq> WriteOk then (status, s)
                   else let s = set_cached_next_write_offset valid_page (write_offset + SERIALIZED_ENTRY_SIZE) s
                        in (WriteOk, s\<lparr>ram_cache := (ram_cache s)[unat (entry_address e) := entry_value e]\<rparr>)))"

fun transfer_entries :: "'h emu_env \<Rightarrow> nat list \<Rightarrow> 'h emu \<Rightarrow> write_status \<times> 'h emu" where
  "transfer_entries E [] s = (WriteOk, s)"
| "transfer_entries E (addr # as) s =
     (if ram_cache s ! addr = ERASED_VALUE then transfer_entries E as s
      else case write_internal E (make_entry (of_nat addr) (ram_cache s ! addr)) False s of
        (status, s) \<Rightarrow> if status \<noteq> WriteOk then (status, s) else transfer_entries E as s)"

definition page_transfer :: "'h emu_env \<Rightarrow> 'h emu \<Rightarrow> write_status \<times> 'h emu" where
  "page_transfer E s =
     (case flush_write_block E s of
        (False, s) \<Rightarrow> (WriteError, s)
      | (True, s) \<Rightarrow>
     case find_valid_page OpRead s of
        None \<Rightarrow> (WriteNoPage, s)
      | Some old_page \<Rightarrow>
     if old_page \<noteq> Page1 \<and> old_page \<noteq> Page2 then (WriteNoPage, s)
     else let new_page = (if old_page = Page2 then Page1 else Page2) in
     case write_page_status E new_page Receiving s of
        (False, s) \<Rightarrow> (WriteError, s)
      | (True, s) \<Rightarrow>
     case transfer_entries E [0 ..< max_address s] (set_cached_next_write_offset new_page 0 s) of
        (status, s) \<Rightarrow>
     if status \<noteq> WriteOk then (status, s)
     else case and_then (flush_write_block E s) (\<lambda>s.
               and_then (call_erase E old_page s) (\<lambda>s.
               and_then (write_page_status E old_page Formatted s) (\<lambda>s.
               and_then (write_page_status E new_page Valid s) (\<lambda>s.
               emu_cache E s)))) of
        (False, s) \<Rightarrow> (WriteError, s)
      | (True, s) \<Rightarrow> (WriteOk, s\<lparr>cache_dirty := False\<rparr>))"

definition emu_write :: "'h emu_env \<Rightarrow> entry \<Rightarrow> bool \<Rightarrow> 'h emu \<Rightarrow> write_status \<times> 'h emu" where
  "emu_write E e cache_only s =
     (if entry_address e = RESERVED_STATUS_ADDRESS \<or> unat (entry_address e) \<ge> max_address s
      then (WriteError, s)
      else case write_internal E e cache_only s of
        (status, s) \<Rightarrow>
          if status = PageFull
          then (case page_transfer E s of
                  (status, s) \<Rightarrow> if status = WriteOk then write_internal E e False s else (status, s))
          else (status, s))"

definition emu_flush :: "'h emu_env \<Rightarrow> 'h emu \<Rightarrow> bool \<times> 'h emu" where
  "emu_flush E s =
     (case (if cache_dirty s then page_transfer E s else (WriteOk, s)) of
        (status, s) \<Rightarrow> if status \<noteq> WriteOk then (False, s) else flush_write_block E s)"

section \<open>Reading\<close>

function read_scan :: "'h emu_env \<Rightarrow> nat \<Rightarrow> page \<Rightarrow> nat \<Rightarrow> 'h emu \<Rightarrow> (read_status \<times> u16 option) \<times> 'h emu" where
  "read_scan E addr valid_page read_offset s =
     (case read_entry E valid_page read_offset s of
        (retrieved, s) \<Rightarrow>
          if \<exists>e. retrieved = Some e \<and> unat (entry_address e) = addr
          then let v = entry_value (the retrieved)
               in ((ReadOk, Some v), s\<lparr>ram_cache := (ram_cache s)[addr := v]\<rparr>)
          else if read_offset < SERIALIZED_ENTRY_SIZE then ((NoVariable, None), s)
          else read_scan E addr valid_page (read_offset - SERIALIZED_ENTRY_SIZE) s)"
  by pat_completeness auto
termination
  by (relation "measure (\<lambda>(E, addr, p, offset, s). offset)") auto

declare read_scan.simps [simp del]

definition emu_read :: "'h emu_env \<Rightarrow> nat \<Rightarrow> 'h emu \<Rightarrow> (read_status \<times> u16 option) \<times> 'h emu" where
  "emu_read E addr s =
     (if addr \<ge> max_address s then ((ReadError, None), s)
      else if ram_cache s ! addr \<noteq> ERASED_VALUE then ((ReadOk, Some (ram_cache s ! addr)), s)
      else case find_valid_page OpRead s of
        None \<Rightarrow> ((ReadNoPage, None), s)
      | Some valid_page \<Rightarrow>
          let cached_read_offset = cached_next_write_offset s;
              read_offset = (if nwo_page cached_read_offset = valid_page \<and> nwo_offset cached_read_offset > 0
                             then sub32 (nwo_offset cached_read_offset) SERIALIZED_ENTRY_SIZE
                             else page_size E - SERIALIZED_ENTRY_SIZE)
          in read_scan E addr valid_page read_offset s)"

section \<open>Formatting, factory page, initialisation\<close>

definition emu_format :: "'h emu_env \<Rightarrow> bool \<Rightarrow> 'h emu \<Rightarrow> bool \<times> 'h emu" where
  "emu_format E format_factory_page s =
     and_then (call_erase E Page1 (clear_write_block s)) (\<lambda>s.
     and_then (call_erase E Page2 (set_cached_page_status Page1 Erased s)) (\<lambda>s.
     let s = set_cached_page_status Page2 Erased s in
     and_then (if format_factory_page then call_erase E Factory s else (True, s)) (\<lambda>s.
     let s = (if format_factory_page then set_cached_page_status Factory Erased s else s);
         s = (fill_cache_erased s)\<lparr>cache_dirty := False\<rparr> in
     and_then (write_page_status E Page1 Valid s) (\<lambda>s.
     and_then (write_page_status E Page2 Formatted s) (\<lambda>s.
     (True, set_cached_next_write_offset Page1 0 s))))))"

fun copy_blocks :: "'h emu_env \<Rightarrow> page \<Rightarrow> page \<Rightarrow> nat list \<Rightarrow> 'h emu \<Rightarrow> bool \<times> 'h emu" where
  "copy_blocks E src dst [] s = (True, s)"
| "copy_blocks E src dst (offset # os) s =
     (case call_read E src offset (write_block_size E) s of
        (None, s) \<Rightarrow> (False, s)
      | (Some block, s) \<Rightarrow>
          if all_erased block then (True, s)
          else and_then (call_write E dst offset block s) (copy_blocks E src dst os))"

definition store_to_factory :: "'h emu_env \<Rightarrow> 'h emu \<Rightarrow> bool \<times> 'h emu" where
  "store_to_factory E s =
     and_then (emu_flush E s) (\<lambda>s.
     case find_valid_page OpRead s of
       None \<Rightarrow> (False, s)
     | Some active_page \<Rightarrow>
         and_then (call_erase E Factory s) (\<lambda>s.
         and_then (copy_blocks E active_page Factory (steps (page_size E) (write_block_size E))
                     (set_cached_page_status Factory Erased s)) (\<lambda>s.
         (True, set_cached_page_status Factory (cached_page_status active_page s) s))))"

definition restore_from_factory :: "'h emu_env \<Rightarrow> 'h emu \<Rightarrow> bool \<times> 'h emu" where
  "restore_from_factory E s =
     and_then (refresh_page_status E Factory s) (\<lambda>s.
     if cached_page_status Factory s \<noteq> Valid then (False, s)
     else
     and_then (call_erase E Page1 (clear_write_block s)) (\<lambda>s.
     and_then (call_erase E Page2 (set_cached_page_status Page1 Erased s)) (\<lambda>s.
     let s = (fill_cache_erased (set_cached_page_status Page2 Erased s))\<lparr>cache_dirty := False\<rparr> in
     and_then (copy_blocks E Factory Page1 (steps (page_size E) (write_block_size E)) s) (\<lambda>s.
     and_then (write_page_status E Page1 Valid s) (\<lambda>s.
     and_then (write_page_status E Page2 Formatted s) (\<lambda>s.
     emu_cache E (set_cached_next_write_offset Page1 0 s)))))))"

text \<open>
  \<open>init\<close>: \<open>init_done\<close> is the code after the switch, reached with the value of \<open>do_cache\<close>;
  \<open>init_receiving\<close> is the body shared by the two cases that resume an interrupted transfer.
\<close>

definition init_done :: "'h emu_env \<Rightarrow> bool \<Rightarrow> 'h emu \<Rightarrow> bool \<times> 'h emu" where
  "init_done E do_cache s =
     (if do_cache then (case emu_cache E s of (False, s) \<Rightarrow> emu_format E False s | (True, s) \<Rightarrow> (True, s))
      else (True, s))"

definition init_format :: "'h emu_env \<Rightarrow> bool \<Rightarrow> 'h emu \<Rightarrow> bool \<times> 'h emu" where
  "init_format E do_cache s = and_then (emu_format E False s) (init_done E do_cache)"

definition init_receiving :: "'h emu_env \<Rightarrow> page \<Rightarrow> 'h emu \<Rightarrow> bool \<times> 'h emu" where
  "init_receiving E receiving_page s =
     and_then (call_erase E receiving_page s) (\<lambda>s.
     case emu_cache E s of
       (False, s) \<Rightarrow> init_format E False s
     | (True, s) \<Rightarrow>
         (case page_transfer E s of
            (status, s) \<Rightarrow> if status \<noteq> WriteOk then init_format E False s else init_done E False s))"

definition init_reformat :: "'h emu_env \<Rightarrow> page \<Rightarrow> 'h emu \<Rightarrow> bool \<times> 'h emu" where
  "init_reformat E p s =
     and_then (call_erase E p s) (\<lambda>s.
     and_then (write_page_status E p Formatted s) (init_done E True))"

definition init_repair :: "'h emu_env \<Rightarrow> 'h emu \<Rightarrow> bool \<times> 'h emu" where
  "init_repair E s =
     (let page_1_status = cached_page_status Page1 s; page_2_status = cached_page_status Page2 s
      in case page_1_status of
           Erased \<Rightarrow>
             if page_2_status = Valid then init_reformat E Page1 s else init_format E False s
         | Receiving \<Rightarrow>
             if page_2_status = Valid then init_receiving E Page1 s else init_format E False s
         | Valid \<Rightarrow>
             (case page_2_status of
                Valid \<Rightarrow> init_format E True s
              | Erased \<Rightarrow> init_reformat E Page2 s
              | Formatted \<Rightarrow> init_done E True s
              | Receiving \<Rightarrow> init_receiving E Page2 s)
         | Formatted \<Rightarrow>
             if page_2_status = Valid then init_done E True s else init_format E False s)"

definition emu_init :: "'h emu_env \<Rightarrow> 'h emu \<Rightarrow> bool \<times> 'h emu" where
  "emu_init E s =
     and_then (call_init E s) (\<lambda>s.
     let s = fill_cache_erased
               ((set_cached_next_write_offset Page1 0 (clear_write_block s))\<lparr>cache_dirty := False\<rparr>) in
     and_then (refresh_page_status E Page1 s) (\<lambda>s.
     and_then (refresh_page_status E Page2 s) (\<lambda>s.
     and_then (refresh_page_status E Factory s) (init_repair E))))"

end
