(* ===== verification/Emu_Log.thy ===== *)
theory Emu_Log
  imports Emu_Eeprom
begin

text \<open>
  The abstract view of a flash page of the emulated EEPROM: an append-only log of entries.
  \<open>log_rep B n bs xs\<close> says that the \<open>n\<close> bytes \<open>xs\<close> of a page are the write blocks \<open>bs\<close> (of \<open>B\<close>
  bytes, none of them erased) followed by erased bytes; \<open>block_entries\<close> reads the entries of a
  block and \<open>replay\<close> folds a log of entries into the values of the logical addresses. All
  facts here are about lists of bytes only: the operations enter in \<open>Emu_Correct\<close>.
\<close>

section \<open>Entries of a write block\<close>

definition slots :: "nat \<Rightarrow> u8 list \<Rightarrow> u8 list list" where
  "slots k block = map (\<lambda>i. slice (i * 4) 4 block) [0 ..< k]"

definition block_entries :: "nat \<Rightarrow> u8 list \<Rightarrow> entry list" where
  "block_entries k block = map deserialize_entry (filter (\<lambda>d. \<not> all_erased d) (slots k block))"

definition log_entries :: "nat \<Rightarrow> u8 list list \<Rightarrow> entry list" where
  "log_entries k bs = concat (map (block_entries k) bs)"

definition entries_block :: "nat \<Rightarrow> entry list \<Rightarrow> u8 list" where
  "entries_block B es = concat (map serialize_entry es) @ replicate (B - 4 * length es) ERASED_BYTE"

lemma length_concat_serialize [simp]: "length (concat (map serialize_entry es)) = 4 * length es"
  by (induction es) simp_all

lemma length_entries_block [simp]: "4 * length es \<le> B \<Longrightarrow> length (entries_block B es) = B"
  by (simp add: entries_block_def)

lemma slice_append_left [bytes_simps]: "a + n \<le> length xs \<Longrightarrow> slice a n (xs @ ys) = slice a n xs"
  by (simp add: slice_def)

lemma slice_append_right [bytes_simps]:
  "length xs \<le> a \<Longrightarrow> slice a n (xs @ ys) = slice (a - length xs) n ys"
  by (simp add: slice_def)

lemma slice_full: "length xs = n \<Longrightarrow> slice 0 n xs = xs"
  by (simp add: slice_def)

lemma slice_concat_serialize:
  "i < length es \<Longrightarrow> slice (i * 4) 4 (concat (map serialize_entry es)) = serialize_entry (es ! i)"
proof (induction es arbitrary: i)
  case (Cons e es)
  then show ?case
    by (cases i) (simp_all add: slice_append_left slice_append_right slice_def)
qed simp

lemma slot_entries_block:
  assumes "4 * length es \<le> B" and "i * 4 + 4 \<le> B"
  shows "slice (i * 4) 4 (entries_block B es) =
    (if i < length es then serialize_entry (es ! i) else replicate 4 ERASED_BYTE)"
proof (cases "i < length es")
  case True
  then show ?thesis
    by (simp add: entries_block_def slice_append_left slice_concat_serialize)
next
  case False
  then have "slice (i * 4) 4 (entries_block B es) = slice (i * 4 - 4 * length es) 4 (replicate (B - 4 * length es) ERASED_BYTE)"
    by (simp add: entries_block_def slice_append_right)
  also have "\<dots> = replicate 4 ERASED_BYTE"
    using assms False by (intro slice_replicate) simp
  finally show ?thesis using False by simp
qed

lemma block_entries_entries_block:
  assumes "4 * length es \<le> B" and "k * 4 \<le> B" and "length es \<le> k"
    and "\<forall>e \<in> set es. \<not> all_erased (serialize_entry e)"
  shows "block_entries k (entries_block B es) = es"
proof -
  have eq: "slots k (entries_block B es) = map serialize_entry es @ replicate (k - length es) (replicate 4 ERASED_BYTE)"
  proof (rule nth_equalityI)
    fix i assume "i < length (slots k (entries_block B es))"
    then have "i < k" by (simp add: slots_def)
    with assms slot_entries_block [of es B i]
    show "slots k (entries_block B es) ! i = (map serialize_entry es @ replicate (k - length es) (replicate 4 ERASED_BYTE)) ! i"
      by (simp add: slots_def nth_append)
  qed (use assms in \<open>simp add: slots_def\<close>)
  have "filter (\<lambda>d. \<not> all_erased d) (map serialize_entry es) = map serialize_entry es"
    using assms(4) by (simp add: filter_id_conv)
  then show ?thesis
    by (simp add: block_entries_def eq deserialize_serialize_entry o_def)
qed

lemma entries_block_not_erased:
  assumes "es \<noteq> []" and "\<forall>e \<in> set es. \<not> all_erased (serialize_entry e)"
  shows "\<not> all_erased (entries_block B es)"
  using assms by (cases es) (auto simp: entries_block_def)

lemma overwrite_entries_block:
  assumes "4 * length es + 4 \<le> B"
  shows "overwrite (4 * length es) (serialize_entry e) (entries_block B es @ ys) = entries_block B (es @ [e]) @ ys"
  using assms by (simp add: overwrite_def entries_block_def drop_replicate algebra_simps)

section \<open>Pages as logs\<close>

definition log_rep :: "nat \<Rightarrow> nat \<Rightarrow> u8 list list \<Rightarrow> u8 list \<Rightarrow> bool" where
  "log_rep B n bs xs \<longleftrightarrow>
     length bs * B \<le> n \<and> (\<forall>b \<in> set bs. length b = B \<and> \<not> all_erased b) \<and>
     xs = concat bs @ replicate (n - length bs * B) ERASED_BYTE"

lemma length_concat_blocks: "\<forall>b \<in> set bs. length b = B \<Longrightarrow> length (concat bs) = length bs * B"
  by (induction bs) simp_all

lemma log_rep_length: "log_rep B n bs xs \<Longrightarrow> length xs = n"
  using length_concat_blocks [of bs B] by (auto simp: log_rep_def)

lemma log_rep_bound: "log_rep B n bs xs \<Longrightarrow> length bs * B \<le> n"
  by (simp add: log_rep_def)

lemma log_rep_erased: "log_rep B n [] (replicate n ERASED_BYTE)"
  by (simp add: log_rep_def)

lemma slice_concat_blocks:
  "\<forall>b \<in> set bs. length b = B \<Longrightarrow> i < length bs \<Longrightarrow> slice (i * B) B (concat bs) = bs ! i"
proof (induction bs arbitrary: i)
  case (Cons b bs)
  then show ?case
    by (cases i) (simp_all add: slice_append_left slice_append_right slice_full add.commute)
qed simp

lemma log_rep_block:
  assumes rep: "log_rep B n bs xs" and "i * B + B \<le> n"
  shows "slice (i * B) B xs = (if i < length bs then bs ! i else replicate B ERASED_BYTE)"
proof (cases "i < length bs")
  case True
  then have "i * B + B \<le> length bs * B" by (metis Suc_leI add.commute mult_Suc mult_le_mono1)
  then show ?thesis using rep True length_concat_blocks [of bs B]
    by (auto simp: log_rep_def slice_append_left slice_concat_blocks)
next
  case False
  then have "length bs * B \<le> i * B" by simp
  then have "slice (i * B) B xs = slice (i * B - length bs * B) B (replicate (n - length bs * B) ERASED_BYTE)"
    using rep length_concat_blocks [of bs B] by (auto simp: log_rep_def slice_append_right)
  also have "\<dots> = replicate B ERASED_BYTE" using assms(2) \<open>length bs * B \<le> i * B\<close>
    by (intro slice_replicate) simp
  finally show ?thesis using False by simp
qed

lemma log_rep_block_erased:
  assumes "log_rep B n bs xs" and "i * B + B \<le> n"
  shows "all_erased (slice (i * B) B xs) \<longleftrightarrow> length bs \<le> i"
  using log_rep_block [OF assms] assms(1) by (auto simp: log_rep_def)

lemma log_rep_append:
  assumes rep: "log_rep B n bs xs" and fit: "length bs * B + B \<le> n"
    and b: "length b = B" "\<not> all_erased b"
  shows "log_rep B n (bs @ [b]) (overwrite (length bs * B) b xs)"
proof -
  have len: "length (concat bs) = length bs * B"
    using rep length_concat_blocks by (auto simp: log_rep_def)
  have "overwrite (length bs * B) b xs = concat bs @ b @ drop B (replicate (n - length bs * B) ERASED_BYTE)"
    using rep b len by (simp add: overwrite_def log_rep_def)
  also have "drop B (replicate (n - length bs * B) ERASED_BYTE) = replicate (n - length (bs @ [b]) * B) ERASED_BYTE"
    by (simp add: drop_replicate algebra_simps)
  finally show ?thesis using rep b fit by (auto simp: log_rep_def)
qed

lemma log_entries_append [simp]: "log_entries k (bs @ cs) = log_entries k bs @ log_entries k cs"
  by (simp add: log_entries_def)

lemma log_entries_Nil [simp]: "log_entries k [] = []"
  by (simp add: log_entries_def)

lemma log_entries_Cons [simp]: "log_entries k (b # bs) = block_entries k b @ log_entries k bs"
  by (simp add: log_entries_def)

section \<open>Replaying a log\<close>

text \<open>
  The values of the logical addresses after a log: status records are skipped, an address
  outside the logical range makes the log unreadable.
\<close>

fun replay :: "entry list \<Rightarrow> u16 list \<Rightarrow> u16 list option" where
  "replay [] c = Some c"
| "replay (e # es) c =
     (if entry_address e = RESERVED_STATUS_ADDRESS then replay es c
      else if unat (entry_address e) \<ge> length c then None
      else replay es (c[unat (entry_address e) := entry_value e]))"

lemma replay_append:
  "replay (xs @ ys) c = (case replay xs c of None \<Rightarrow> None | Some c \<Rightarrow> replay ys c)"
  by (induction xs c rule: replay.induct) auto

lemma replay_length: "replay es c = Some d \<Longrightarrow> length d = length c"
  by (induction es c rule: replay.induct) (auto split: if_splits)

section \<open>Status records\<close>

definition status_entry :: "page_status \<Rightarrow> entry" where
  "status_entry st = make_entry RESERVED_STATUS_ADDRESS (page_status_code st)"

lemma status_entry_address [simp]: "entry_address (status_entry st) = RESERVED_STATUS_ADDRESS"
  by (simp add: status_entry_def make_entry_def)

lemma status_entry_not_erased: "st \<noteq> Erased \<Longrightarrow> \<not> all_erased (serialize_entry (status_entry st))"
  unfolding serialize_entry_erased_iff
  by (cases st) (simp_all add: status_entry_def make_entry_def model_defs)

lemma data_entry_not_erased:
  "entry_address e \<noteq> RESERVED_STATUS_ADDRESS \<Longrightarrow> \<not> all_erased (serialize_entry e)"
  by (simp add: serialize_entry_erased_iff)


fun entry_status :: "entry \<Rightarrow> page_status option" where
  "entry_status e = (if entry_address e = RESERVED_STATUS_ADDRESS then deserialize_page_status (entry_value e) else None)"

declare entry_status.simps [simp del]

definition log_status :: "entry list \<Rightarrow> page_status option" where
  "log_status es = foldl (\<lambda>acc e. case entry_status e of None \<Rightarrow> acc | Some st \<Rightarrow> Some st) None es"

text \<open>The state of a page: the most recent status record in any of its slots.\<close>

definition bytes_status :: "u8 list \<Rightarrow> page_status option" where
  "bytes_status xs = log_status (map deserialize_entry (slots (length xs div 4) xs))"

lemma log_status_Nil [simp]: "log_status [] = None"
  by (simp add: log_status_def)

lemma log_status_snoc [simp]:
  "log_status (es @ [e]) = (case entry_status e of None \<Rightarrow> log_status es | Some st \<Rightarrow> Some st)"
  by (simp add: log_status_def split: option.splits)

lemma log_status_append:
  "log_status (xs @ ys) = (case log_status ys of None \<Rightarrow> log_status xs | Some st \<Rightarrow> Some st)"
proof (induction ys rule: rev_induct)
  case (snoc y ys)
  then show ?case
    using log_status_snoc [of "xs @ ys" y] by (simp del: append_assoc add: append_assoc [symmetric] split: option.splits)
qed simp

lemma log_status_one [simp]: "log_status [e] = entry_status e"
  by (simp add: log_status_def split: option.splits)

lemma entry_status_data: "entry_address e \<noteq> RESERVED_STATUS_ADDRESS \<Longrightarrow> entry_status e = None"
  by (simp add: entry_status.simps)

lemma log_status_None: "\<forall>e \<in> set es. entry_status e = None \<Longrightarrow> log_status es = None"
  by (induction es rule: rev_induct) simp_all

lemma log_status_data: "\<forall>e \<in> set es. entry_address e \<noteq> RESERVED_STATUS_ADDRESS \<Longrightarrow> log_status es = None"
  by (rule log_status_None) (simp add: entry_status_data)

lemma deserialize_erased: "deserialize_entry (replicate 4 ERASED_BYTE) = make_entry RESERVED_STATUS_ADDRESS ERASED_VALUE"
proof -
  have "replicate 4 ERASED_BYTE = serialize_entry (make_entry RESERVED_STATUS_ADDRESS ERASED_VALUE)"
    by (simp add: serialize_entry_def make_entry_def serialize_u16 model_defs replicate_4)
  then show ?thesis by (simp only: deserialize_serialize_entry)
qed

lemma entry_status_erased [simp]: "entry_status (make_entry RESERVED_STATUS_ADDRESS ERASED_VALUE) = None"
  by (simp add: entry_status.simps make_entry_def deserialize_page_status_def model_defs)

lemma entry_status_status [simp]: "st \<noteq> Erased \<Longrightarrow> entry_status (status_entry st) = Some st"
  by (cases st) (simp_all add: status_entry_def entry_status.simps make_entry_def deserialize_page_status_def model_defs)

lemma slots_length: "\<forall>d \<in> set (slots k b). 4 * k \<le> length b \<longrightarrow> length d = 4"
  by (auto simp: slots_def)

lemma log_status_block:
  "4 * k \<le> length b \<Longrightarrow> log_status (block_entries k b) = log_status (map deserialize_entry (slots k b))"
proof -
  have "\<forall>d \<in> set ds. length d = 4 \<Longrightarrow>
      log_status (map deserialize_entry (filter (\<lambda>d. \<not> all_erased d) ds)) = log_status (map deserialize_entry ds)" for ds
  proof (induction ds rule: rev_induct)
    case (snoc d ds)
    have "all_erased d \<Longrightarrow> deserialize_entry d = make_entry RESERVED_STATUS_ADDRESS ERASED_VALUE"
      using snoc.prems all_erased_iff [of d] deserialize_erased by simp
    then show ?case using snoc by (cases "all_erased d") (simp_all split: option.splits)
  qed simp
  then show "4 * k \<le> length b \<Longrightarrow> ?thesis" using slots_length [of k b] by (simp add: block_entries_def)
qed

lemma slots_append:
  assumes "4 * a \<le> length xs" shows "slots (a + b) xs = slots a xs @ slots b (drop (4 * a) xs)"
proof (rule nth_equalityI)
  fix i assume "i < length (slots (a + b) xs)"
  then have "i < a + b" by (simp add: slots_def)
  then show "slots (a + b) xs ! i = (slots a xs @ slots b (drop (4 * a) xs)) ! i"
    by (auto simp: slots_def nth_append slice_def algebra_simps)
qed (simp add: slots_def)

lemma slots_take: "4 * a \<le> n \<Longrightarrow> slots a (take n xs) = slots a xs"
  by (auto simp: slots_def slice_def drop_take min_def)

text \<open>On a page that is a log, the scan over all slots sees the status of the log.\<close>

lemma bytes_status_blocks:
  assumes "\<forall>b \<in> set bs. length b = 4 * k"
  shows "log_status (map deserialize_entry (slots (length bs * k) (concat bs @ ys))) = log_status (log_entries k bs)"
  using assms
proof (induction bs)
  case (Cons b bs)
  have "slots (length (b # bs) * k) (concat (b # bs) @ ys) = slots k b @ slots (length bs * k) (concat bs @ ys)"
    using slots_append [of k "b @ concat bs @ ys" "length bs * k"] slots_take [of k "4 * k" "b @ concat bs @ ys"] Cons.prems
    by simp
  then show ?case using Cons by (simp add: log_status_append log_status_block split: option.splits)
qed (simp add: slots_def)

lemma bytes_status_log:
  assumes rep: "log_rep (4 * k) n bs xs" and n: "4 dvd n"
  shows "bytes_status xs = log_status (log_entries k bs)"
proof -
  let ?e = "n - length bs * (4 * k)"
  have xs: "xs = concat bs @ replicate ?e ERASED_BYTE" and len: "\<forall>b \<in> set bs. length b = 4 * k"
    and le: "length bs * (4 * k) \<le> n" using rep by (simp_all add: log_rep_def)
  have split: "length xs div 4 = length bs * k + ?e div 4"
    using log_rep_length [OF rep] le n by (auto elim!: dvdE)
  have "drop (4 * (length bs * k)) xs = replicate ?e ERASED_BYTE"
    using xs length_concat_blocks [OF len] by (simp add: algebra_simps)
  moreover have "slots (?e div 4) (replicate ?e ERASED_BYTE) = replicate (?e div 4) (replicate 4 ERASED_BYTE)"
  proof (rule nth_equalityI)
    fix i assume "i < length (slots (?e div 4) (replicate ?e ERASED_BYTE))"
    then have "i * 4 + 4 \<le> ?e" by (simp add: slots_def)
    then show "slots (?e div 4) (replicate ?e ERASED_BYTE) ! i = replicate (?e div 4) (replicate 4 ERASED_BYTE) ! i"
      by (simp add: slots_def)
  qed (simp add: slots_def)
  moreover have "slots (length xs div 4) xs = slots (length bs * k) xs @ slots (?e div 4) (drop (4 * (length bs * k)) xs)"
    unfolding split by (rule slots_append) (use le log_rep_length [OF rep] in \<open>simp add: algebra_simps\<close>)
  ultimately have "slots (length xs div 4) xs = slots (length bs * k) xs @ replicate (?e div 4) (replicate 4 ERASED_BYTE)"
    by simp
  moreover have "log_status (map deserialize_entry (replicate j (replicate 4 ERASED_BYTE))) = None" for j
    by (rule log_status_None) (simp add: deserialize_erased)
  ultimately show ?thesis
    using bytes_status_blocks [OF len, of "replicate ?e ERASED_BYTE"] xs
    by (simp add: bytes_status_def log_status_append)
qed

end
