(* ===== verification/Emu_Flash.thy ===== *)
theory Emu_Flash
  imports Emu_Eeprom Emu_Log
begin

text \<open>
  The contract between the emulated EEPROM and its flash backend, and what the scans of the
  EEPROM compute under it. The locale \<open>flash\<close> states what the interface \<open>Hwa\<close> documents:
  aligned reads return the bytes of the page, erasing fills a page with \<open>ERASED_BYTE\<close>, and an
  aligned write of one write block to an erased place stores it; \<open>pg\<close> gives the bytes of a page
  in a backend state and \<open>ok\<close> its well-formed states. \<open>emu_config\<close> is the conjunction of the
  \<open>static_assert\<close>s of the owner class \<open>EmuEeprom\<close>.
\<close>

section \<open>Configuration\<close>

definition emu_config :: "nat \<Rightarrow> nat \<Rightarrow> nat \<Rightarrow> bool" where
  "emu_config PageSize WriteBlockSize LogicalAddressCount \<longleftrightarrow>
     LogicalAddressCount > 0 \<and> LogicalAddressCount \<le> 65535 \<and>
     PageSize > 0 \<and> PageSize mod SERIALIZED_ENTRY_SIZE = 0 \<and>
     PageSize mod INTERNAL_BLOCK_SIZE = 0 \<and>
     WriteBlockSize \<ge> SERIALIZED_ENTRY_SIZE \<and> WriteBlockSize mod SERIALIZED_ENTRY_SIZE = 0 \<and>
     WriteBlockSize \<le> INTERNAL_BLOCK_SIZE \<and> INTERNAL_BLOCK_SIZE mod WriteBlockSize = 0 \<and>
     address_count_for PageSize WriteBlockSize > 0 \<and>
     LogicalAddressCount \<le> address_count_for PageSize WriteBlockSize"

definition page_blocks :: "nat \<Rightarrow> u8 list \<Rightarrow> u8 list list" where
  "page_blocks B xs =
     takeWhile (\<lambda>b. \<not> all_erased b) (map (\<lambda>off. slice off B xs) (steps (length xs) B))"

section \<open>The blocks of a page\<close>

lemma find_append: "List.find P (xs @ ys) = (case List.find P xs of None \<Rightarrow> List.find P ys | Some x \<Rightarrow> Some x)"
  by (induction xs) auto

lemma find_takeWhile:
  "List.find P xs = (if length (takeWhile (\<lambda>x. \<not> P x) xs) < length xs
     then Some (xs ! length (takeWhile (\<lambda>x. \<not> P x) xs)) else None)"
  by (induction xs) auto

lemma steps_nested:
  assumes "0 < b"
  shows "concat (map (\<lambda>r. map (\<lambda>j. r + j) (steps (w * b) b)) (map (\<lambda>i. i * (w * b)) [0 ..< n])) = steps (n * w * b) b"
proof (induction n)
  case (Suc n)
  have "map (\<lambda>j. n * (w * b) + j) (steps (w * b) b) = map (\<lambda>i. i * b) [n * w ..< n * w + w]"
    unfolding steps_dvd [OF assms] by (rule nth_equalityI) (simp_all add: algebra_simps)
  moreover have "[0 ..< Suc n * w] = [0 ..< n * w] @ [n * w ..< n * w + w]"
    using upt_add_eq_append [of 0 "n * w" w] by (simp add: add.commute)
  ultimately show ?case
    using Suc.IH by (simp only: steps_dvd [OF assms] upt_Suc_append map_append concat_append list.map concat.simps append_Nil2)
qed (simp add: steps_def assms)

lemma log_rep_page_blocks:
  assumes "log_rep B n bs xs" and "0 < B" and "B dvd n"
  shows "page_blocks B xs = bs"
proof -
  obtain m where n: "n = m * B" using \<open>B dvd n\<close> by (metis dvdE mult.commute)
  have bound: "length bs \<le> m" using log_rep_bound [OF assms(1)] n \<open>0 < B\<close> by simp
  have blk: "slice (i * B) B xs = (if i < length bs then bs ! i else replicate B ERASED_BYTE)" if "i < m" for i
  proof (rule log_rep_block [OF assms(1)])
    have "Suc i * B \<le> m * B" using that by (intro mult_le_mono1) simp
    then show "i * B + B \<le> n" using n by simp
  qed
  have "map (\<lambda>off. slice off B xs) (steps n B) = bs @ replicate (m - length bs) (replicate B ERASED_BYTE)"
    using bound blk unfolding n by (intro nth_equalityI) (auto simp: steps_dvd \<open>0 < B\<close> nth_append)
  moreover have "\<forall>b \<in> set bs. \<not> all_erased b" using assms(1) by (simp add: log_rep_def)
  ultimately show ?thesis
    using log_rep_length [OF assms(1)] by (cases "m - length bs") (simp_all add: page_blocks_def)
qed


section \<open>The flash contract\<close>

locale flash =
  fixes E :: "'h emu_env" and pg :: "'h \<Rightarrow> page \<Rightarrow> u8 list" and ok :: "'h \<Rightarrow> bool" and Count :: nat
  assumes config: "emu_config (page_size E) (write_block_size E) Count"
    and page_size_u32: "page_size E < 2 ^ 32"
    and page_length: "ok h \<Longrightarrow> length (pg h p) = page_size E"
    and init_law: "ok h \<Longrightarrow> \<exists>h'. hwa_init E h = (True, h') \<and> ok h' \<and> pg h' = pg h"
    and erase_law: "ok h \<Longrightarrow> \<exists>h'. hwa_erase_page E p h = (True, h') \<and> ok h' \<and>
      pg h' = (pg h)(p := replicate (page_size E) ERASED_BYTE)"
    and read_law: "ok h \<Longrightarrow> write_block_size E dvd off \<Longrightarrow> write_block_size E dvd length buf \<Longrightarrow>
      buf \<noteq> [] \<Longrightarrow> off + length buf \<le> page_size E \<Longrightarrow>
      \<exists>h'. hwa_read E p off buf h = (True, slice off (length buf) (pg h p), h') \<and> ok h' \<and> pg h' = pg h"
    and write_law: "ok h \<Longrightarrow> write_block_size E dvd off \<Longrightarrow> length data = write_block_size E \<Longrightarrow>
      off + write_block_size E \<le> page_size E \<Longrightarrow> all_erased (slice off (write_block_size E) (pg h p)) \<Longrightarrow>
      \<exists>h'. hwa_write E p off data h = (True, h') \<and> ok h' \<and> pg h' = (pg h)(p := overwrite off data (pg h p))"

text \<open>\<open>same_flash pg ok s t\<close>: the backend state may have moved, the pages have not.\<close>

definition same_flash :: "('h \<Rightarrow> page \<Rightarrow> u8 list) \<Rightarrow> ('h \<Rightarrow> bool) \<Rightarrow> 'h emu \<Rightarrow> 'h emu \<Rightarrow> bool" where
  "same_flash pg ok s t \<longleftrightarrow>
     (\<exists>h. t = s\<lparr>hwa_state := h\<rparr> \<and> ok h \<and> pg h = pg (hwa_state s))"

lemma same_flash_trans: "same_flash pg ok s t \<Longrightarrow> same_flash pg ok t u \<Longrightarrow> same_flash pg ok s u"
  by (auto simp: same_flash_def)

lemma same_flash_refl: "ok (hwa_state s) \<Longrightarrow> same_flash pg ok s s"
  by (auto simp: same_flash_def intro!: exI [of _ "hwa_state s"])

lemma same_flashD:
  "same_flash pg ok s t \<Longrightarrow> ok (hwa_state t) \<and> pg (hwa_state t) = pg (hwa_state s)"
  by (auto simp: same_flash_def)

context flash
begin

definition B where "B = write_block_size E"
definition N where "N = page_size E"
definition k where "k = entries_per_block E"
definition m where "m = N div B"

lemma B_eq: "B = 4 * k" and k_pos: "0 < k" and B_pos: "0 < B"
  and B_dvd_256: "B dvd 256" and dvd_256_N: "256 dvd N" and N_pos: "0 < N" and N_u32: "N < 2 ^ 32"
proof -
  note c = config [unfolded emu_config_def, folded B_def N_def, simplified]
  show B: "B = 4 * k" using c by (auto simp: k_def entries_per_block_def B_def)
  show "0 < k" using c B by (cases k) auto
  then show "0 < B" using B by simp
  show "B dvd 256" using c by (auto simp: mod_eq_0_iff_dvd)
  show "256 dvd N" using c by (auto simp: mod_eq_0_iff_dvd)
  show "0 < N" using c by auto
  show "N < 2 ^ 32" using page_size_u32 by (simp add: N_def)
qed

lemma B_dvd_N: "B dvd N"
  using B_dvd_256 dvd_256_N by (rule dvd_trans)

lemma N_eq: "N = m * B"
  using B_dvd_N by (simp add: m_def)

lemma count_bounds: "0 < Count" "Count < 2 ^ 16" "Count \<le> (m - 3) * k" "4 \<le> m"
proof -
  note c = config [unfolded emu_config_def, folded B_def N_def]
  show "0 < Count" "Count < 2 ^ 16" using c by auto
  have a: "address_count_for N B > 0" "Count \<le> address_count_for N B" using c by auto
  have "N div 4 = m * k" using N_eq B_eq by simp
  moreover have "B div 4 = k" using B_eq by simp
  ultimately have "address_count_for N B \<le> m * k - 3 * k" and "3 * k < m * k"
    using a(1) by (auto simp: address_count_for_def Let_def model_defs split: if_splits)
  then show "Count \<le> (m - 3) * k" and "4 \<le> m" using a(2) by (auto simp: diff_mult_distrib)
qed

lemma call_readE:
  assumes "ok (hwa_state s)" "B dvd off" "B dvd n" "0 < n" "off + n \<le> N"
  obtains t where "call_read E p off n s = (Some (slice off n (pg (hwa_state s) p)), t)" "same_flash pg ok s t"
proof -
  obtain h where "hwa_read E p off (replicate n ERASED_BYTE) (hwa_state s) = (True, slice off n (pg (hwa_state s) p), h)"
    "ok h" "pg h = pg (hwa_state s)"
    using read_law [of "hwa_state s" off "replicate n ERASED_BYTE" p] assms by (auto simp: B_def N_def)
  then show thesis by (intro that) (auto simp: call_read_def same_flash_def)
qed

lemma call_eraseE:
  assumes "ok (hwa_state s)"
  obtains h where "call_erase E p s = (True, s\<lparr>hwa_state := h\<rparr>)" "ok h"
    "pg h = (pg (hwa_state s))(p := replicate N ERASED_BYTE)"
  using erase_law [OF assms, of p] by (auto simp: call_erase_def N_def)

lemma call_writeE:
  assumes "ok (hwa_state s)" "B dvd off" "length data = B" "off + B \<le> N" "all_erased (slice off B (pg (hwa_state s) p))"
  obtains h where "call_write E p off data s = (True, s\<lparr>hwa_state := h\<rparr>)" "ok h"
    "pg h = (pg (hwa_state s))(p := overwrite off data (pg (hwa_state s) p))"
  using write_law [of "hwa_state s" off data p] assms by (auto simp: call_write_def N_def B_def)

lemma read_block_bounds: "r \<in> set (steps N 256) \<Longrightarrow> B dvd r \<and> r + 256 \<le> N"
proof -
  assume "r \<in> set (steps N 256)"
  then have r: "r < N" "256 dvd r" by (auto simp: set_steps)
  then have "256 dvd N - r" using dvd_256_N by (simp add: dvd_diff_nat)
  moreover have "0 < N - r" using r by simp
  ultimately have "256 \<le> N - r" by (rule dvd_imp_le)
  then show ?thesis using r B_dvd_256 dvd_trans by auto
qed

lemma steps_N_256: "concat (map (\<lambda>r. map (\<lambda>j. r + j) (steps 256 B)) (steps N 256)) = steps N B"
proof -
  obtain w where w: "256 = w * B" using B_dvd_256 by (metis dvdE mult.commute)
  obtain n where n: "N = n * 256" using dvd_256_N by (metis dvdE mult.commute)
  have "steps N 256 = map (\<lambda>i. i * 256) [0 ..< n]" using steps_dvd [of 256 n] n by simp
  then show ?thesis using steps_nested [OF B_pos, of w n] w n by (simp add: mult.assoc)
qed


section \<open>What the scans compute\<close>

lemma scan_read_block_find:
  "scan_read_block E buffer ws = List.find (\<lambda>off. all_erased (slice off B buffer)) ws"
  by (induction ws) (simp_all add: B_def)

lemma find_in_block:
  assumes "\<forall>j \<in> set ws. j + B \<le> 256"
  shows "List.find (\<lambda>off. all_erased (slice off B xs)) (map (\<lambda>j. r + j) ws) =
    map_option (\<lambda>j. r + j) (List.find (\<lambda>off. all_erased (slice off B (slice r 256 xs))) ws)"
  using assms by (induction ws) auto

lemma steps_256_bound: "\<forall>j \<in> set (steps 256 B). j + B \<le> 256"
proof
  fix j assume "j \<in> set (steps 256 B)"
  then have "j < 256" "B dvd j" by (auto simp: set_steps B_pos)
  then have "B dvd 256 - j" "0 < 256 - j" using B_dvd_256 by (auto simp: dvd_diff_nat)
  then show "j + B \<le> 256" by (metis dvd_imp_le le_diff_conv2 less_imp_le_nat \<open>j < 256\<close> add.commute)
qed

lemma scan_erased_find:
  assumes "ok (hwa_state s)" and "set rs \<subseteq> set (steps N 256)"
  shows "\<exists>t. scan_erased E p rs s =
      (Some (List.find (\<lambda>off. all_erased (slice off B (pg (hwa_state s) p)))
         (concat (map (\<lambda>r. map (\<lambda>j. r + j) (steps 256 B)) rs))), t) \<and> same_flash pg ok s t"
  using assms
proof (induction rs arbitrary: s)
  case (Cons r rs)
  let ?xs = "pg (hwa_state s) p"
  have r: "B dvd r" "r + 256 \<le> N" using Cons.prems read_block_bounds by auto
  obtain t where t: "call_read E p r 256 s = (Some (slice r 256 ?xs), t)" "same_flash pg ok s t"
    by (rule call_readE [OF Cons.prems(1), where off = r and n = 256 and p = p]) (use r B_dvd_256 in auto)
  obtain u where u: "scan_erased E p rs t =
      (Some (List.find (\<lambda>off. all_erased (slice off B ?xs)) (concat (map (\<lambda>r. map (\<lambda>j. r + j) (steps 256 B)) rs))), u)"
    "same_flash pg ok t u"
    using Cons.IH [of t] Cons.prems same_flashD [OF t(2)] by auto
  show ?case
    using t u same_flash_trans [OF t(2) u(2)]
    by (auto simp: scan_read_block_find find_append find_in_block [OF steps_256_bound] B_def [symmetric]
        split: option.splits)
qed (auto simp: same_flash_refl)

definition first_erased :: "u8 list \<Rightarrow> nat option" where
  "first_erased xs = (if length (page_blocks B xs) < m then Some (length (page_blocks B xs) * B) else None)"

lemma scan_erased_page:
  assumes "ok (hwa_state s)"
  obtains t where "scan_erased E p (steps N 256) s = (Some (first_erased (pg (hwa_state s) p)), t)"
    "same_flash pg ok s t"
proof -
  let ?xs = "pg (hwa_state s) p" and ?P = "\<lambda>xs off. all_erased (slice off B xs)"
  have len: "length ?xs = N" using page_length [OF assms] by (simp add: N_def)
  have "length (takeWhile (\<lambda>off. \<not> ?P ?xs off) (steps N B)) = length (page_blocks B ?xs)"
    by (simp add: page_blocks_def len takeWhile_map o_def)
  moreover have "length (steps N B) = m" using steps_dvd [OF B_pos, of m] N_eq by simp
  moreover have "i < m \<Longrightarrow> steps N B ! i = i * B" for i using steps_dvd [OF B_pos, of m] N_eq by simp
  ultimately have "List.find (?P ?xs) (steps N B) = first_erased ?xs"
    by (simp add: find_takeWhile [of "?P ?xs"] first_erased_def)
  then show thesis
    using scan_erased_find [OF assms, of "steps N 256" p] that by (auto simp: steps_N_256)
qed

lemma find_next_free_offset_eq:
  assumes "ok (hwa_state s)"
  obtains t where "find_next_free_offset E p s = (first_erased (pg (hwa_state s) p), t)" "same_flash pg ok s t"
proof -
  obtain t where t: "scan_erased E p (steps N 256) s = (Some (first_erased (pg (hwa_state s) p)), t)"
    "same_flash pg ok s t" by (rule scan_erased_page [OF assms])
  then show thesis
    by (intro that [of t]) (cases "first_erased (pg (hwa_state s) p)", simp_all add: find_next_free_offset_def N_def)
qed

lemma refresh_next_write_offset_eq:
  assumes "ok (hwa_state s)"
  obtains t where "refresh_next_write_offset E p s =
      (True, set_cached_next_write_offset p (length (page_blocks B (pg (hwa_state s) p)) * B) t)"
    "same_flash pg ok s t"
proof -
  have "length (page_blocks B (pg (hwa_state s) p)) \<le> m"
    using page_length [OF assms, of p] steps_dvd [OF B_pos, of m] N_eq
      length_takeWhile_le [of _ "map (\<lambda>off. slice off B (pg (hwa_state s) p)) (steps N B)"]
    by (simp add: page_blocks_def N_def)
  then have le: "length (page_blocks B (pg (hwa_state s) p)) = m \<or> length (page_blocks B (pg (hwa_state s) p)) < m"
    by linarith
  obtain t where t: "scan_erased E p (steps N 256) s = (Some (first_erased (pg (hwa_state s) p)), t)"
    "same_flash pg ok s t" by (rule scan_erased_page [OF assms])
  then show thesis using le N_eq
    by (intro that [of t]) (auto simp: refresh_next_write_offset_def first_erased_def N_def)
qed


section \<open>Page status\<close>

lemma scan_status_block_eq:
  "scan_status_block buf (i * 4) = log_status (map deserialize_entry (slots (Suc i) buf))"
proof (induction i)
  case 0
  then show ?case
    by (simp add: scan_status_block.simps [of _ 0] slots_def entry_status.simps Let_def split: option.splits)
next
  case (Suc i)
  have "slots (Suc (Suc i)) buf = slots (Suc i) buf @ [slice (Suc i * 4) 4 buf]" by (simp add: slots_def)
  then show ?case using Suc
    by (subst scan_status_block.simps) (simp add: entry_status.simps Let_def split: option.splits)
qed

lemma scan_status_eq:
  assumes "ok (hwa_state s)" and "i * 4 < N"
  shows "\<exists>t. scan_status E p (i * 4) s =
      (Some (log_status (map deserialize_entry (slots (Suc i) (pg (hwa_state s) p)))), t) \<and> same_flash pg ok s t"
  using assms
proof (induction i arbitrary: s rule: less_induct)
  case (less i)
  let ?xs = "pg (hwa_state s) p"
  define r w where "r = i div 64" and "w = i mod 64"
  have i: "i = r * 64 + w" by (simp add: r_def w_def)
  have w: "4 * Suc w \<le> 256" using mod_less_divisor [of 64 i] by (simp add: w_def)
  have div: "i div 64 = r" "i * 4 - r * 256 = w * 4"
    by (simp add: r_def) (use i in linarith)
  have le: "r * 256 + 256 \<le> N"
    using read_block_bounds [of "r * 256"] less.prems(2) i by (auto simp: set_steps)
  have len: "length ?xs = N" using page_length [OF less.prems(1)] by (simp add: N_def)
  obtain t where t: "call_read E p (r * 256) 256 s = (Some (slice (r * 256) 256 ?xs), t)" "same_flash pg ok s t"
    by (rule call_readE [OF less.prems(1), where off = "r * 256" and n = 256 and p = p])
      (use le B_dvd_256 in auto)
  have "slots (Suc i) ?xs = slots (r * 64) ?xs @ slots (Suc w) (drop (r * 256) ?xs)"
    using slots_append [of "r * 64" ?xs "Suc w"] le len i by (simp add: mult.commute)
  moreover have "slots (Suc w) (slice (r * 256) 256 ?xs) = slots (Suc w) (drop (r * 256) ?xs)"
    unfolding slice_def by (rule slots_take) (rule w)
  ultimately have split: "log_status (map deserialize_entry (slots (Suc i) ?xs)) =
      (case scan_status_block (slice (r * 256) 256 ?xs) (w * 4) of
         None \<Rightarrow> log_status (map deserialize_entry (slots (r * 64) ?xs)) | Some st \<Rightarrow> Some st)"
    by (simp add: log_status_append scan_status_block_eq)
  show ?case
  proof (cases "scan_status_block (slice (r * 256) 256 ?xs) (w * 4)")
    case None
    show ?thesis
    proof (cases "r = 0")
      case True
      then show ?thesis using t div None split
        by (subst scan_status.simps) (simp add: Let_def slots_def)
    next
      case False
      then have "r * 64 - 1 < i" "(r * 64 - 1) * 4 = r * 256 - 4" "Suc (r * 64 - 1) = r * 64"
        using i by linarith+
      moreover obtain u where "scan_status E p ((r * 64 - 1) * 4) t =
          (Some (log_status (map deserialize_entry (slots (Suc (r * 64 - 1)) ?xs))), u)" "same_flash pg ok t u"
        using less.IH [of "r * 64 - 1" t] same_flashD [OF t(2)] less.prems(2) calculation(1,2) by auto
      ultimately show ?thesis using t div None split False same_flash_trans [OF t(2), of u]
        by (subst scan_status.simps) (simp add: Let_def)
    qed
  next
    case (Some st)
    then show ?thesis using t div split by (subst scan_status.simps) (simp add: Let_def)
  qed
qed

lemma refresh_page_status_eq:
  assumes "ok (hwa_state s)" and "find_valid_page OpWrite s \<noteq> Some p"
  obtains t where "refresh_page_status E p s =
      (True, set_cached_page_status p
         (case bytes_status (pg (hwa_state s) p) of None \<Rightarrow> Erased | Some st \<Rightarrow> st) t)"
    "same_flash pg ok s t"
proof -
  have n: "N = N div 4 * 4" using dvd_256_N by (auto elim!: dvdE)
  then have "0 < N div 4" using N_pos by simp
  then have i: "(N div 4 - 1) * 4 = N - 4" "(N div 4 - 1) * 4 < N" "Suc (N div 4 - 1) = N div 4"
    using n by (simp_all add: diff_mult_distrib)
  have len: "length (pg (hwa_state s) p) = N" using page_length [OF assms(1)] by (simp add: N_def)
  obtain t where t: "scan_status E p (N - 4) s = (Some (bytes_status (pg (hwa_state s) p)), t)" "same_flash pg ok s t"
    using scan_status_eq [OF assms(1) i(2), of p] i len by (auto simp: bytes_status_def)
  then show thesis using assms(2)
    by (intro that [of t]) (simp_all add: refresh_page_status_def Let_def N_def [symmetric] split: option.splits)
qed


section \<open>Rebuilding the RAM mirror replays the log\<close>

lemma cache_entries_replay:
  assumes "length (ram_cache s) < 2 ^ 16"
  shows "case replay (map deserialize_entry (filter (\<lambda>d. \<not> all_erased d) (map (\<lambda>i. slice (i * 4) 4 blk) is))) (ram_cache s) of
      Some c \<Rightarrow> cache_entries blk is s = (True, s\<lparr>ram_cache := c\<rparr>)
    | None \<Rightarrow> \<exists>c. length c = length (ram_cache s) \<and> cache_entries blk is s = (False, s\<lparr>ram_cache := c\<rparr>)"
  using assms
proof (induction "is" arbitrary: s)
  case (Cons i "is")
  let ?e = "deserialize_entry (slice (i * 4) 4 blk)"
  have max: "max_address s = length (ram_cache s)" using Cons.prems by (simp add: max_address_def)
  have "length (ram_cache s) = length (ram_cache s) \<and> s = s\<lparr>ram_cache := ram_cache s\<rparr>" by simp
  then have refl: "\<exists>c. length c = length (ram_cache s) \<and> s = s\<lparr>ram_cache := c\<rparr>" ..
  show ?case
    using Cons.IH [of s] Cons.IH [of "s\<lparr>ram_cache := (ram_cache s)[unat (entry_address ?e) := entry_value ?e]\<rparr>"] Cons.prems refl
    by (auto simp: Let_def max split: option.splits)
qed simp

lemma page_cache_step:
  assumes "length (ram_cache s) < 2 ^ 16"
  shows "case replay (block_entries k blk) (ram_cache s) of
      Some c \<Rightarrow> cache_entries blk [0 ..< entries_per_block E] s = (True, s\<lparr>ram_cache := c\<rparr>)
    | None \<Rightarrow> \<exists>c. length c = length (ram_cache s) \<and> cache_entries blk [0 ..< entries_per_block E] s = (False, s\<lparr>ram_cache := c\<rparr>)"
  using cache_entries_replay [OF assms, of blk "[0 ..< entries_per_block E]"]
  by (simp add: block_entries_def slots_def k_def)

definition blocks_at :: "u8 list \<Rightarrow> nat list \<Rightarrow> u8 list list" where
  "blocks_at buf ws = takeWhile (\<lambda>b. \<not> all_erased b) (map (\<lambda>off. slice off B buf) ws)"

text \<open>Inside one read block: the blocks up to the first erased one are replayed.\<close>

lemma cache_read_block_replay:
  assumes "length (ram_cache s) < 2 ^ 16"
  shows "case replay (log_entries k (blocks_at buf ws)) (ram_cache s) of
      Some c \<Rightarrow> cache_read_block E p r buf ws s =
        (if length (blocks_at buf ws) < length ws
         then (Some True, clear_write_block (set_cached_next_write_offset p (r + ws ! length (blocks_at buf ws)) (s\<lparr>ram_cache := c\<rparr>)))
         else (Some False, if ws = [] then s else set_cached_next_write_offset p (r + last ws + B) (s\<lparr>ram_cache := c\<rparr>)))
    | None \<Rightarrow> \<exists>t. cache_read_block E p r buf ws s = (None, t) \<and> hwa_state t = hwa_state s \<and>
        page_status_cache t = page_status_cache s \<and> length (ram_cache t) = length (ram_cache s)"
  using assms
proof (induction ws arbitrary: s)
  case (Cons w ws)
  let ?blk = "slice w B buf" and ?s = "set_cached_next_write_offset p (r + w + B) s"
  show ?case
  proof (cases "all_erased ?blk")
    case True
    then show ?thesis by (simp add: blocks_at_def B_def Let_def)
  next
    case False
    have len: "length (ram_cache ?s) < 2 ^ 16" using Cons.prems by (simp add: set_cached_next_write_offset_def)
    note step = page_cache_step [OF len, of ?blk]
    show ?thesis
    proof (cases "replay (block_entries k ?blk) (ram_cache s)")
      case None
      then show ?thesis using step False
        by (auto simp: blocks_at_def B_def [symmetric] Let_def replay_append set_cached_next_write_offset_def)
    next
      case (Some c)
      have "length c < 2 ^ 16" using replay_length [OF Some] Cons.prems by simp
      then show ?thesis
        using Cons.IH [of "?s\<lparr>ram_cache := c\<rparr>"] Some step False replay_length [OF Some]
        by (auto simp: blocks_at_def B_def [symmetric] Let_def replay_append set_cached_next_write_offset_def split: option.splits)
    qed
  qed
qed (simp add: blocks_at_def)


lemma blocks_at_append:
  "blocks_at xs (a @ b) = (if length (blocks_at xs a) < length a then blocks_at xs a else blocks_at xs a @ blocks_at xs b)"
  by (induction a) (simp_all add: blocks_at_def)

lemma blocks_at_Nil [simp]: "blocks_at xs [] = []"
  by (simp add: blocks_at_def)

lemma length_blocks_at: "length (blocks_at xs ws) \<le> length ws"
  using length_takeWhile_le [of _ "map (\<lambda>off. slice off B xs) ws"] by (simp add: blocks_at_def)

lemma blocks_at_slice:
  assumes "\<forall>j \<in> set ws. j + B \<le> 256"
  shows "blocks_at (slice r 256 xs) ws = blocks_at xs (map (\<lambda>j. r + j) ws)"
  using assms by (induction ws) (simp_all add: blocks_at_def)

lemma steps_256_not_Nil: "steps 256 B \<noteq> []"
proof -
  have "0 \<in> set (steps 256 B)" by (simp add: set_steps B_pos)
  then show ?thesis by auto
qed

lemma cache_page_replay:
  fixes p :: page
  assumes "length (ram_cache s) < 2 ^ 16" and "ok (hwa_state s)" and "set rs \<subseteq> set (steps N 256)"
  defines "ws \<equiv> concat (map (\<lambda>r. map (\<lambda>j. r + j) (steps 256 B)) rs)"
  defines "bs \<equiv> blocks_at (pg (hwa_state s) p) ws"
  shows "(\<forall>c. replay (log_entries k bs) (ram_cache s) = Some c \<longrightarrow>
      (\<exists>h. ok h \<and> pg h = pg (hwa_state s) \<and> cache_page E p rs s =
        (True, clear_write_block ((if rs = [] then s
          else set_cached_next_write_offset p (if length bs < length ws then ws ! length bs else last ws + B) s)
          \<lparr>ram_cache := c, hwa_state := h\<rparr>))))
    \<and> (replay (log_entries k bs) (ram_cache s) = None \<longrightarrow>
      (\<exists>t. cache_page E p rs s = (False, t) \<and> ok (hwa_state t) \<and> pg (hwa_state t) = pg (hwa_state s) \<and>
         page_status_cache t = page_status_cache s \<and> length (ram_cache t) = length (ram_cache s)))"
  using assms(1-3) unfolding ws_def bs_def
proof (induction rs arbitrary: s)
  case Nil
  then show ?case by (auto simp: blocks_at_def intro!: exI [of _ "hwa_state s"])
next
  case (Cons r rs)
  let ?xs = "pg (hwa_state s) p" and ?w = "map (\<lambda>j. r + j) (steps 256 B)"
  let ?ws = "concat (map (\<lambda>r. map (\<lambda>j. r + j) (steps 256 B)) rs)"
  let ?bs = "blocks_at ?xs ?w"
  have r: "B dvd r" "r + 256 \<le> N" using Cons.prems read_block_bounds by auto
  obtain t where t: "call_read E p r 256 s = (Some (slice r 256 ?xs), t)" "same_flash pg ok s t"
    by (rule call_readE [OF Cons.prems(2), where off = r and n = 256 and p = p]) (use r B_dvd_256 in auto)
  obtain h where h: "t = s\<lparr>hwa_state := h\<rparr>" "ok h" "pg h = pg (hwa_state s)"
    using t(2) by (auto simp: same_flash_def)
  have bs: "blocks_at (slice r 256 ?xs) (steps 256 B) = ?bs" by (rule blocks_at_slice [OF steps_256_bound])
  have "length (ram_cache t) < 2 ^ 16" using Cons.prems(1) h by simp
  note blk = cache_read_block_replay [OF this, where buf = "slice r 256 ?xs" and ws = "steps 256 B" and p = p and r = r, unfolded bs]
  have app: "blocks_at ?xs (?w @ ?ws) = (if length ?bs < length ?w then ?bs else ?bs @ blocks_at ?xs ?ws)"
    by (rule blocks_at_append)
  have unf: "cache_page E p (r # rs) s = (case cache_read_block E p r (slice r 256 ?xs) (steps 256 B) t of
      (None, s) \<Rightarrow> (False, s) | (Some True, s) \<Rightarrow> (True, s) | (Some False, s) \<Rightarrow> cache_page E p rs s)"
    using t(1) by (simp add: B_def)
  have last: "last ?w = r + last (steps 256 B)" using steps_256_not_Nil by (simp add: last_map)
  show ?case
  proof (cases "replay (log_entries k ?bs) (ram_cache s)")
    case None
    then have "replay (log_entries k (blocks_at ?xs (?w @ ?ws))) (ram_cache s) = None"
      by (simp add: app replay_append)
    then show ?thesis using blk unf None h by (auto simp del: cache_page.simps)
  next
    case (Some c)
    show ?thesis
    proof (cases "length ?bs < length ?w")
      case True
      then show ?thesis using blk unf Some h app
        by (auto simp del: cache_page.simps simp: nth_append clear_write_block_def set_cached_next_write_offset_def intro!: exI [of _ h])
    next
      case False
      then have len: "length ?bs = length ?w" using length_blocks_at [of ?xs ?w] by linarith
      let ?t = "set_cached_next_write_offset p (last ?w + B) (t\<lparr>ram_cache := c\<rparr>)"
      have step: "cache_page E p (r # rs) s = cache_page E p rs ?t"
        using blk unf Some h False steps_256_not_Nil last by (simp add: len del: cache_page.simps)
      have cond: "length (ram_cache ?t) < 2 ^ 16" "ok (hwa_state ?t)" "set rs \<subseteq> set (steps N 256)"
        "pg (hwa_state ?t) = pg (hwa_state s)" "ram_cache ?t = c" "page_status_cache ?t = page_status_cache s"
        using Cons.prems replay_length [OF Some] h by (simp_all add: set_cached_next_write_offset_def)
      note IH = Cons.IH [OF cond(1-3), unfolded cond(4-6)]
      have rep: "replay (log_entries k (blocks_at ?xs (?w @ ?ws))) (ram_cache s) = replay (log_entries k (blocks_at ?xs ?ws)) c"
        using app False Some by (simp add: replay_append)
      have ne: "rs \<noteq> [] \<Longrightarrow> ?ws \<noteq> []" using steps_256_not_Nil by (cases rs) simp_all
      have off: "(if rs = [] then nwo_offset (next_write_offset_cache ?t)
          else if length (blocks_at ?xs ?ws) < length ?ws then ?ws ! length (blocks_at ?xs ?ws) else last ?ws + B)
        = (if length (blocks_at ?xs (?w @ ?ws)) < length (?w @ ?ws)
           then (?w @ ?ws) ! length (blocks_at ?xs (?w @ ?ws)) else last (?w @ ?ws) + B)"
        unfolding app using False ne len by (cases "rs = []") (simp_all add: nth_append last_append set_cached_next_write_offset_def)
      show ?thesis
        unfolding list.map concat.simps rep step
      proof (intro conjI allI impI)
        fix c' assume "replay (log_entries k (blocks_at ?xs ?ws)) c = Some c'"
        then obtain h' where h': "ok h'" "pg h' = pg (hwa_state s)" "cache_page E p rs ?t =
            (True, clear_write_block ((if rs = [] then ?t
              else set_cached_next_write_offset p (if length (blocks_at ?xs ?ws) < length ?ws
                then ?ws ! length (blocks_at ?xs ?ws) else last ?ws + B) ?t)\<lparr>ram_cache := c', hwa_state := h'\<rparr>))"
          using IH by blast
        show "\<exists>h. ok h \<and> pg h = pg (hwa_state s) \<and> cache_page E p rs ?t =
          (True, clear_write_block ((if r # rs = [] then s
            else set_cached_next_write_offset p (if length (blocks_at ?xs (?w @ ?ws)) < length (?w @ ?ws)
              then (?w @ ?ws) ! length (blocks_at ?xs (?w @ ?ws)) else last (?w @ ?ws) + B) s)\<lparr>ram_cache := c', hwa_state := h\<rparr>))"
          unfolding h'(3) off [symmetric]
          by (rule exI [of _ h']) (simp add: h' h set_cached_next_write_offset_def clear_write_block_def)
      next
        assume "replay (log_entries k (blocks_at ?xs ?ws)) c = None"
        then show "\<exists>t. cache_page E p rs ?t = (False, t) \<and> ok (hwa_state t) \<and> pg (hwa_state t) = pg (hwa_state s) \<and>
            page_status_cache t = page_status_cache s \<and> length (ram_cache t) = length (ram_cache s)"
          using IH replay_length [OF Some] by fastforce
      qed
    qed
  qed
qed


definition log_values :: "nat \<Rightarrow> u8 list \<Rightarrow> u16 list option" where
  "log_values n xs = replay (log_entries k (page_blocks B xs)) (replicate n ERASED_VALUE)"

lemma blocks_at_page:
  "length xs = N \<Longrightarrow> blocks_at xs (steps N B) = page_blocks B xs"
  by (simp add: blocks_at_def page_blocks_def)

lemma page_blocks_le: "length xs = N \<Longrightarrow> length (page_blocks B xs) \<le> m"
proof -
  assume len: "length xs = N"
  have "length (steps N B) = m" using steps_dvd [OF B_pos, of m] N_eq by simp
  then show ?thesis using length_blocks_at [of xs "steps N B"] by (simp only: blocks_at_page [OF len])
qed

lemma m_pos: "0 < m"
  using count_bounds(4) by simp

lemma emu_cache_replay:
  assumes "length (ram_cache s) < 2 ^ 16" and "ok (hwa_state s)" and p: "find_valid_page OpRead s = Some p"
  shows "\<And>c. log_values (length (ram_cache s)) (pg (hwa_state s) p) = Some c \<Longrightarrow>
      (\<exists>h. ok h \<and> pg h = pg (hwa_state s) \<and> emu_cache E s =
        (True, clear_write_block (set_cached_next_write_offset p (length (page_blocks B (pg (hwa_state s) p)) * B)
           (s\<lparr>ram_cache := c, hwa_state := h, cache_dirty := False\<rparr>))))"
    and "log_values (length (ram_cache s)) (pg (hwa_state s) p) = None \<Longrightarrow>
      (\<exists>t. emu_cache E s = (False, t) \<and> ok (hwa_state t) \<and> pg (hwa_state t) = pg (hwa_state s) \<and>
         page_status_cache t = page_status_cache s \<and> length (ram_cache t) = length (ram_cache s))"
proof -
  let ?t = "(set_cached_next_write_offset Page1 0 (fill_cache_erased (clear_write_block s)))\<lparr>cache_dirty := False\<rparr>"
  let ?pb = "page_blocks B (pg (hwa_state s) p)"
  have t: "length (ram_cache ?t) < 2 ^ 16" "ok (hwa_state ?t)" "hwa_state ?t = hwa_state s"
    "ram_cache ?t = replicate (length (ram_cache s)) ERASED_VALUE" "page_status_cache ?t = page_status_cache s"
    using assms(1,2) by (simp_all add: set_cached_next_write_offset_def fill_cache_erased_def clear_write_block_def)
  have "find_valid_page OpRead ?t = Some p"
    using p by (simp add: cached_page_status_def t)
  then have eq: "emu_cache E s = cache_page E p (steps N 256) ?t"
    by (simp add: emu_cache_def Let_def N_def)
  have len: "length (pg (hwa_state s) p) = N" using page_length [OF assms(2)] by (simp add: N_def)
  have st: "steps N B = map (\<lambda>i. i * B) [0 ..< m]" using steps_dvd [OF B_pos, of m] N_eq by simp
  have ne: "steps N 256 \<noteq> []"
  proof -
    have "0 \<in> set (steps N 256)" using N_pos by (simp add: set_steps)
    then show ?thesis by auto
  qed
  have "(if length ?pb < length (steps N B) then steps N B ! length ?pb else last (steps N B) + B) = length ?pb * B"
    using page_blocks_le [OF len] m_pos unfolding st by (auto simp: last_map algebra_simps)
  note off = this
  note rep = cache_page_replay [OF t(1,2) order_refl, where p = p, unfolded steps_N_256 t(3-5) blocks_at_page [OF len] off]
  show "\<exists>h. ok h \<and> pg h = pg (hwa_state s) \<and> emu_cache E s =
        (True, clear_write_block (set_cached_next_write_offset p (length ?pb * B)
           (s\<lparr>ram_cache := c, hwa_state := h, cache_dirty := False\<rparr>)))"
    if c: "log_values (length (ram_cache s)) (pg (hwa_state s) p) = Some c" for c
  proof -
    obtain h where h: "ok h" "pg h = pg (hwa_state s)" "emu_cache E s =
        (True, clear_write_block ((set_cached_next_write_offset p (length ?pb * B) ?t)\<lparr>ram_cache := c, hwa_state := h\<rparr>))"
      using rep c ne unfolding eq log_values_def by auto
    then show ?thesis
      by (intro exI [of _ h]) (simp add: set_cached_next_write_offset_def clear_write_block_def fill_cache_erased_def)
  qed
  show "\<exists>t. emu_cache E s = (False, t) \<and> ok (hwa_state t) \<and> pg (hwa_state t) = pg (hwa_state s) \<and>
         page_status_cache t = page_status_cache s \<and> length (ram_cache t) = length (ram_cache s)"
    if "log_values (length (ram_cache s)) (pg (hwa_state s) p) = None"
    using rep that t(4) unfolding eq log_values_def by auto
qed

end

end
