(* ===== verification/Emu_Journal.thy ===== *)
theory Emu_Journal
  imports Emu_Flash
begin

text \<open>
  The write path of the emulated EEPROM over a flash that keeps its contract: the active page
  together with the pending write block is a journal of entries, and every operation that
  writes appends to it. \<open>journal E pg ok p bs es s\<close>: page \<open>p\<close> holds exactly the blocks \<open>bs\<close>
  and the pending block of the state holds the entries \<open>es\<close> that follow them.
\<close>

section \<open>The pending block and the journal\<close>

definition pending :: "'h emu_env \<Rightarrow> page \<Rightarrow> nat \<Rightarrow> entry list \<Rightarrow> 'h emu \<Rightarrow> bool" where
  "pending E p nb es s \<longleftrightarrow>
     length es < entries_per_block E \<and> (\<forall>e \<in> set es. \<not> all_erased (serialize_entry e)) \<and>
     (if es = [] then \<not> write_block_dirty s
      else write_block_dirty s \<and> write_block_page s = p \<and>
        write_block_offset s = nb * write_block_size E \<and> write_block_entries s = length es \<and>
        (\<exists>ys. write_block_buffer s = entries_block (write_block_size E) es @ ys))"

definition journal :: "'h emu_env \<Rightarrow> ('h \<Rightarrow> page \<Rightarrow> u8 list) \<Rightarrow> ('h \<Rightarrow> bool) \<Rightarrow> page \<Rightarrow> u8 list list
    \<Rightarrow> entry list \<Rightarrow> 'h emu \<Rightarrow> bool" where
  "journal E pg ok p bs es s \<longleftrightarrow>
     ok (hwa_state s) \<and> log_rep (write_block_size E) (page_size E) bs (pg (hwa_state s) p) \<and>
     pending E p (length bs) es s \<and>
     (es \<noteq> [] \<longrightarrow> length bs < page_size E div write_block_size E)"

definition offset_ok :: "'h emu_env \<Rightarrow> page \<Rightarrow> nat \<Rightarrow> nat \<Rightarrow> 'h emu \<Rightarrow> bool" where
  "offset_ok E p nb ne s \<longleftrightarrow>
     cached_next_write_offset s = \<lparr>nwo_page = p, nwo_offset = nb * write_block_size E + 4 * ne\<rparr> \<or>
     (nwo_page (cached_next_write_offset s) \<noteq> p \<or> nwo_offset (cached_next_write_offset s) = 0) \<and> ne = 0"

text \<open>\<open>frame s t\<close>: what the journal operations leave alone.\<close>

definition frame :: "'h emu \<Rightarrow> 'h emu \<Rightarrow> bool" where
  "frame s t \<longleftrightarrow> ram_cache t = ram_cache s \<and> page_status_cache t = page_status_cache s \<and> cache_dirty t = cache_dirty s"

lemma frame_refl [simp]: "frame s s"
  by (simp add: frame_def)

lemma frame_trans: "frame s t \<Longrightarrow> frame t u \<Longrightarrow> frame s u"
  by (simp add: frame_def)

lemma same_flash_frame: "same_flash pg ok s t \<Longrightarrow> frame s t"
  by (auto simp: same_flash_def frame_def)

lemma journal_ok: "journal E pg ok p bs es s \<Longrightarrow> ok (hwa_state s)"
  by (simp add: journal_def)

context flash
begin

lemmas fold_config = B_def [symmetric] N_def [symmetric] k_def [symmetric] m_def [symmetric]

lemma flush_clean: "\<not> write_block_dirty s \<Longrightarrow> flush_write_block E s = (True, s)"
  by (simp add: flush_write_block_def)

lemma block_fits: "i < m \<Longrightarrow> i * B + B \<le> N"
proof -
  assume "i < m"
  then have "Suc i * B \<le> m * B" by (intro mult_le_mono1) simp
  then show ?thesis using N_eq by simp
qed

text \<open>Flushing a pending block appends it to the page.\<close>

lemma flush_pending:
  assumes ok: "ok (hwa_state s)" and rep: "log_rep B N bs (pg (hwa_state s) p)" and room: "length bs < m"
    and ne: "es \<noteq> []" "\<forall>e \<in> set es. \<not> all_erased (serialize_entry e)" "4 * length es \<le> B"
    and blk: "write_block_dirty s" "write_block_page s = p" "write_block_offset s = length bs * B"
      "write_block_buffer s = entries_block B es @ ys"
  shows "\<exists>t. flush_write_block E s = (True, t) \<and> ok (hwa_state t) \<and> frame s t \<and> \<not> write_block_dirty t \<and>
    log_rep B N (bs @ [entries_block B es]) (pg (hwa_state t) p) \<and>
    (\<forall>q. q \<noteq> p \<longrightarrow> pg (hwa_state t) q = pg (hwa_state s) q) \<and>
    (nwo_page (cached_next_write_offset s) \<noteq> p \<longrightarrow> cached_next_write_offset t = cached_next_write_offset s) \<and>
    (nwo_page (cached_next_write_offset s) = p \<longrightarrow> nwo_page (cached_next_write_offset t) = p) \<and>
    (cached_next_write_offset s = \<lparr>nwo_page = p, nwo_offset = length bs * B + 4 * length es\<rparr> \<longrightarrow>
      4 * length es < B \<longrightarrow> cached_next_write_offset t = \<lparr>nwo_page = p, nwo_offset = length bs * B + B\<rparr>)"
proof -
  let ?d = "entries_block B es"
  have d: "length ?d = B" "\<not> all_erased ?d" using ne entries_block_not_erased by simp_all
  have fit: "length bs * B + B \<le> N" using room by (rule block_fits)
  have er: "all_erased (slice (length bs * B) B (pg (hwa_state s) p))"
    using log_rep_block_erased [OF rep fit] by simp
  obtain h where h: "call_write E p (length bs * B) ?d s = (True, s\<lparr>hwa_state := h\<rparr>)" "ok h"
    "pg h = (pg (hwa_state s))(p := overwrite (length bs * B) ?d (pg (hwa_state s) p))"
    using call_writeE [OF ok _ d(1) fit er] by (metis dvd_triv_right)
  have "call_write E (write_block_page s) (write_block_offset s) (take (write_block_size E) (write_block_buffer s)) s
      = (True, s\<lparr>hwa_state := h\<rparr>)"
    using h(1) blk d(1) by (simp add: fold_config)
  then show ?thesis
    using h(2,3) log_rep_append [OF rep fit d] blk ne(1)
    by (auto simp: flush_write_block_def Let_def clear_write_block_def frame_def cached_next_write_offset_def
        set_cached_next_write_offset_def fold_config)
qed

lemma pending_fits: "pending E p nb es s \<Longrightarrow> 4 * length es + 4 \<le> B"
  using B_eq by (auto simp: pending_def k_def)

lemma journal_flush:
  assumes j: "journal E pg ok p bs es s"
  shows "\<exists>t bs'. flush_write_block E s = (True, t) \<and> journal E pg ok p bs' [] t \<and> frame s t \<and>
    log_entries k bs' = log_entries k bs @ es \<and>
    length bs' = (if es = [] then length bs else Suc (length bs)) \<and> (es = [] \<longrightarrow> bs' = bs) \<and>
    (\<forall>q. q \<noteq> p \<longrightarrow> pg (hwa_state t) q = pg (hwa_state s) q) \<and>
    (nwo_page (cached_next_write_offset s) \<noteq> p \<longrightarrow> cached_next_write_offset t = cached_next_write_offset s) \<and>
    (nwo_page (cached_next_write_offset s) = p \<longrightarrow> nwo_page (cached_next_write_offset t) = p) \<and>
    (offset_ok E p (length bs) (length es) s \<longrightarrow> offset_ok E p (length bs') 0 t)"
proof (cases "es = []")
  case True
  then show ?thesis using j flush_clean by (auto simp: journal_def pending_def)
next
  case False
  note d = j [unfolded journal_def pending_def fold_config]
  have "4 * length es \<le> B" using d B_eq by auto
  moreover obtain ys where "write_block_buffer s = entries_block B es @ ys" using d False by auto
  ultimately obtain t where t: "flush_write_block E s = (True, t)" "ok (hwa_state t)" "frame s t" "\<not> write_block_dirty t"
    "log_rep B N (bs @ [entries_block B es]) (pg (hwa_state t) p)"
    "\<forall>q. q \<noteq> p \<longrightarrow> pg (hwa_state t) q = pg (hwa_state s) q"
    "nwo_page (cached_next_write_offset s) \<noteq> p \<longrightarrow> cached_next_write_offset t = cached_next_write_offset s"
    "nwo_page (cached_next_write_offset s) = p \<longrightarrow> nwo_page (cached_next_write_offset t) = p"
    "cached_next_write_offset s = \<lparr>nwo_page = p, nwo_offset = length bs * B + 4 * length es\<rparr> \<longrightarrow>
      4 * length es < B \<longrightarrow> cached_next_write_offset t = \<lparr>nwo_page = p, nwo_offset = length bs * B + B\<rparr>"
    using flush_pending [of s bs p es ys] d False by auto
  have "block_entries k (entries_block B es) = es"
    using d False B_eq by (intro block_entries_entries_block) auto
  then have "journal E pg ok p (bs @ [entries_block B es]) [] t \<and>
      log_entries k (bs @ [entries_block B es]) = log_entries k bs @ es"
    using t k_pos by (simp add: journal_def pending_def fold_config)
  moreover have "offset_ok E p (length bs) (length es) s \<longrightarrow> offset_ok E p (length (bs @ [entries_block B es])) 0 t"
    using t(9) d False B_eq by (auto simp: offset_ok_def fold_config)
  ultimately show ?thesis using t False by (intro exI [of _ t] exI [of _ "bs @ [entries_block B es]"]) simp
qed


section \<open>Appending one entry\<close>

text \<open>\<open>slots_used\<close> counts the entry slots before the next free one, pending entries included.\<close>

definition slots_used :: "u8 list list \<Rightarrow> entry list \<Rightarrow> nat" where
  "slots_used bs es = length bs * k + length es"

lemma offset_slots: "length bs * B + 4 * length es = 4 * slots_used bs es"
  by (simp add: slots_used_def B_eq algebra_simps)

lemma pending_step:
  assumes pend: "pending E p (length bs) es s" and e: "\<not> all_erased (serialize_entry e)"
    and s': "s' = (if \<not> write_block_dirty s
       then s\<lparr>write_block_buffer := replicate INTERNAL_BLOCK_SIZE ERASED_BYTE, write_block_page := p,
              write_block_offset := length bs * B, write_block_entries := 0, write_block_dirty := True\<rparr>
       else s)"
    and t: "t = s'\<lparr>write_block_buffer := overwrite (4 * length es) (serialize_entry e) (write_block_buffer s'),
       write_block_entries := write_block_entries s' + 1\<rparr>"
  shows "write_block_dirty t" "write_block_page t = p" "write_block_offset t = length bs * B"
    "write_block_entries t = length es + 1" "\<exists>ys. write_block_buffer t = entries_block B (es @ [e]) @ ys"
    "hwa_state t = hwa_state s" "frame s t" "cached_next_write_offset t = cached_next_write_offset s"
proof -
  note d = pend [unfolded pending_def fold_config]
  have "\<exists>ys. write_block_buffer s' = entries_block B es @ ys"
  proof (cases "es = []")
    case True
    have "replicate 256 ERASED_BYTE = entries_block B [] @ replicate (256 - B) ERASED_BYTE"
      using B_dvd_256 by (simp add: entries_block_def dvd_imp_le flip: replicate_add)
    then show ?thesis using d True by (simp add: s')
  qed (use d s' in auto)
  then obtain ys where ys: "write_block_buffer s' = entries_block B es @ ys" by blast
  show "\<exists>ys. write_block_buffer t = entries_block B (es @ [e]) @ ys"
    using pending_fits [OF pend] by (auto simp: t ys overwrite_entries_block)
  show "write_block_dirty t" "write_block_page t = p" "write_block_offset t = length bs * B"
    "write_block_entries t = length es + 1"
    "hwa_state t = hwa_state s" "frame s t" "cached_next_write_offset t = cached_next_write_offset s"
    using d by (auto simp: t s' frame_def cached_next_write_offset_def split: if_splits)
qed

lemma write_entry_journal:
  assumes j: "journal E pg ok p bs es s" and room: "length bs < m" and e: "\<not> all_erased (serialize_entry e)"
  shows "\<exists>t bs' es'. write_entry E p (length bs * B + 4 * length es) e s = (WriteOk, t) \<and>
    journal E pg ok p bs' es' t \<and> log_entries k bs' @ es' = log_entries k bs @ es @ [e] \<and>
    slots_used bs' es' = slots_used bs es + 1 \<and> frame s t \<and>
    (es' = [] \<or> es' = es @ [e]) \<and>
    (\<forall>q. q \<noteq> p \<longrightarrow> pg (hwa_state t) q = pg (hwa_state s) q) \<and>
    (nwo_page (cached_next_write_offset s) \<noteq> p \<longrightarrow> cached_next_write_offset t = cached_next_write_offset s) \<and>
    (nwo_page (cached_next_write_offset s) = p \<longrightarrow> nwo_page (cached_next_write_offset t) = p)"
proof -
  let ?off = "length bs * B + 4 * length es"
  note d = j [unfolded journal_def fold_config]
  have pend: "pending E p (length bs) es s" using d by simp
  have fit: "4 * length es + 4 \<le> B" by (rule pending_fits [OF pend])
  then have blk: "?off div B * B = length bs * B" "?off - length bs * B = 4 * length es"
    using B_pos by simp_all
  have fits: "?off + 4 \<le> N" using block_fits [OF room] fit by simp
  define s' where "s' = (if \<not> write_block_dirty s
       then s\<lparr>write_block_buffer := replicate INTERNAL_BLOCK_SIZE ERASED_BYTE, write_block_page := p,
              write_block_offset := length bs * B, write_block_entries := 0, write_block_dirty := True\<rparr>
       else s)"
  define t where "t = s'\<lparr>write_block_buffer := overwrite (4 * length es) (serialize_entry e) (write_block_buffer s'),
       write_block_entries := write_block_entries s' + 1\<rparr>"
  note st = pending_step [OF pend e s'_def t_def]
  have skip: "(if write_block_dirty s \<and> (write_block_page s \<noteq> p \<or> write_block_offset s \<noteq> length bs * B)
      then flush_write_block E s else (True, s)) = (True, s)"
    using pend by (auto simp: pending_def fold_config split: if_splits)
  have "(N < ?off + 4) = False" "(B < 4 * length es + 4) = False"
    using fits fit by simp_all
  note no = this
  have size: "SERIALIZED_ENTRY_SIZE = 4" by simp
  have unf: "write_entry E p ?off e s = (if k \<le> length es + 1
      then (case flush_write_block E t of (False, s) \<Rightarrow> (WriteError, s) | (True, s) \<Rightarrow> (WriteOk, s)) else (WriteOk, t))"
    by (simp only: write_entry_def Let_def fold_config size no blk skip s'_def [symmetric] t_def [symmetric] st(4)
        if_False prod.case bool.case)
  have es1: "\<forall>x \<in> set (es @ [e]). \<not> all_erased (serialize_entry x)" "4 * length (es @ [e]) \<le> B" "es @ [e] \<noteq> []"
    using pend e fit by (auto simp: pending_def)
  show ?thesis
  proof (cases "length es + 1 \<ge> k")
    case False
    have "pending E p (length bs) (es @ [e]) t"
      unfolding pending_def fold_config using st es1 False by auto
    then have "journal E pg ok p bs (es @ [e]) t"
      using d st(6) room by (simp add: journal_def fold_config)
    then show ?thesis using unf False st
      by (intro exI [of _ t] exI [of _ bs] exI [of _ "es @ [e]"]) (simp add: slots_used_def)
  next
    case True
    then have full: "length es + 1 = k" using pend by (simp add: pending_def fold_config)
    obtain ys where ys: "write_block_buffer t = entries_block B (es @ [e]) @ ys" using st(5) by blast
    have rep: "log_rep B N bs (pg (hwa_state t) p)" and ok: "ok (hwa_state t)"
      using d st(6) by simp_all
    obtain u where u: "flush_write_block E t = (True, u)" "ok (hwa_state u)" "frame t u" "\<not> write_block_dirty u"
      "log_rep B N (bs @ [entries_block B (es @ [e])]) (pg (hwa_state u) p)"
      "\<forall>q. q \<noteq> p \<longrightarrow> pg (hwa_state u) q = pg (hwa_state t) q"
      "nwo_page (cached_next_write_offset t) \<noteq> p \<longrightarrow> cached_next_write_offset u = cached_next_write_offset t"
      "nwo_page (cached_next_write_offset t) = p \<longrightarrow> nwo_page (cached_next_write_offset u) = p"
      using flush_pending [OF ok rep room es1(3,1,2) st(1-3) ys] by blast
    have "block_entries k (entries_block B (es @ [e])) = es @ [e]"
      using es1 full B_eq by (intro block_entries_entries_block) auto
    moreover have "journal E pg ok p (bs @ [entries_block B (es @ [e])]) [] u"
      using u k_pos by (simp add: journal_def pending_def fold_config)
    ultimately show ?thesis using unf True u st full frame_trans [OF st(7) u(3)]
      by (intro exI [of _ u] exI [of _ "bs @ [entries_block B (es @ [e])]"] exI [of _ "[]"]) (simp add: slots_used_def)
  qed
qed


section \<open>Logical writes\<close>

lemma find_valid_page_frame: "frame s t \<Longrightarrow> find_valid_page op t = find_valid_page op s"
  by (cases op) (simp_all add: frame_def cached_page_status_def)

lemma journal_page_blocks: "journal E pg ok p bs es s \<Longrightarrow> page_blocks B (pg (hwa_state s) p) = bs"
  using log_rep_page_blocks [OF _ B_pos B_dvd_N] by (simp add: journal_def fold_config)

lemma journal_same_flash:
  "journal E pg ok p bs es s \<Longrightarrow> same_flash pg ok s t \<Longrightarrow> journal E pg ok p bs es t"
  by (auto simp: journal_def pending_def same_flash_def)

lemma journal_set_offset [simp]:
  "journal E pg ok p bs es (set_cached_next_write_offset q off s) = journal E pg ok p bs es s"
  by (simp add: journal_def pending_def set_cached_next_write_offset_def)

lemma journal_ram [simp]: "journal E pg ok p bs es (s\<lparr>ram_cache := c\<rparr>) = journal E pg ok p bs es s"
  by (simp add: journal_def pending_def)

lemma journal_length: "journal E pg ok p bs es s \<Longrightarrow> length bs \<le> m"
proof -
  assume "journal E pg ok p bs es s"
  then have "log_rep B N bs (pg (hwa_state s) p)" by (simp add: journal_def fold_config)
  from log_rep_bound [OF this] have "length bs * B \<le> m * B" using N_eq by simp
  then show ?thesis using B_pos by simp
qed

definition write_offset_step :: "page \<Rightarrow> 'h emu \<Rightarrow> bool \<times> 'h emu" where
  "write_offset_step p s =
     (let cached_write_offset = cached_next_write_offset s in
      if nwo_page cached_write_offset = p \<and> nwo_offset cached_write_offset \<noteq> 0
      then (True, s) else refresh_next_write_offset E p s)"

lemma write_offset_resolved:
  assumes j: "journal E pg ok p bs es s" and off: "offset_ok E p (length bs) (length es) s"
  obtains t where "write_offset_step p s = (True, t)" "journal E pg ok p bs es t" "frame s t"
    "pg (hwa_state t) = pg (hwa_state s)"
    "cached_next_write_offset t = \<lparr>nwo_page = p, nwo_offset = length bs * B + 4 * length es\<rparr>"
proof (cases "nwo_page (cached_next_write_offset s) = p \<and> nwo_offset (cached_next_write_offset s) \<noteq> 0")
  case True
  then show thesis using off j
    by (intro that [of s]) (auto simp: write_offset_step_def Let_def offset_ok_def fold_config)
next
  case False
  then have es: "es = []" using off by (auto simp: offset_ok_def)
  obtain t where t: "refresh_next_write_offset E p s = (True, set_cached_next_write_offset p (length bs * B) t)"
    "same_flash pg ok s t"
    using refresh_next_write_offset_eq [OF journal_ok [OF j], of p] journal_page_blocks [OF j] by metis
  then show thesis using False es journal_same_flash [OF j t(2)] same_flash_frame [OF t(2)] same_flashD [OF t(2)]
    by (intro that [of "set_cached_next_write_offset p (length bs * B) t"])
      (auto simp: write_offset_step_def frame_def cached_next_write_offset_def set_cached_next_write_offset_def
        journal_set_offset [unfolded set_cached_next_write_offset_def])
qed

lemma address_not_reserved: "unat (entry_address e) < n \<Longrightarrow> n < 2 ^ 16 \<Longrightarrow> entry_address e \<noteq> RESERVED_STATUS_ADDRESS"
  by (auto simp: model_defs)

lemma write_internal_journal:
  assumes j: "journal E pg ok p bs es s" and fp: "find_valid_page OpWrite s = Some p"
    and off: "offset_ok E p (length bs) (length es) s"
    and len: "length (ram_cache s) < 2 ^ 16" and addr: "unat (entry_address e) < length (ram_cache s)"
  shows "length bs < m \<Longrightarrow> \<exists>t bs' es'. write_internal E e False s = (WriteOk, t) \<and>
      journal E pg ok p bs' es' t \<and> log_entries k bs' @ es' = log_entries k bs @ es @ [e] \<and>
      slots_used bs' es' = slots_used bs es + 1 \<and> offset_ok E p (length bs') (length es') t \<and>
      (es' = [] \<or> es' = es @ [e]) \<and>
      frame (s\<lparr>ram_cache := (ram_cache s)[unat (entry_address e) := entry_value e]\<rparr>) t \<and>
      (\<forall>q. q \<noteq> p \<longrightarrow> pg (hwa_state t) q = pg (hwa_state s) q)"
    and "length bs = m \<Longrightarrow> \<exists>t. write_internal E e False s = (PageFull, t) \<and>
      journal E pg ok p bs es t \<and> offset_ok E p (length bs) (length es) t \<and> frame s t \<and>
      pg (hwa_state t) = pg (hwa_state s)"
proof -
  obtain t where t: "write_offset_step p s = (True, t)" "journal E pg ok p bs es t" "frame s t"
    "pg (hwa_state t) = pg (hwa_state s)"
    "cached_next_write_offset t = \<lparr>nwo_page = p, nwo_offset = length bs * B + 4 * length es\<rparr>"
    by (rule write_offset_resolved [OF j off])
  have "max_address s = length (ram_cache s)" using len by (simp add: max_address_def)
  then have guard: "\<not> (entry_address e = RESERVED_STATUS_ADDRESS \<or> unat (entry_address e) \<ge> max_address s)"
    using address_not_reserved [OF addr len] addr by simp
  have unf: "write_internal E e False s =
      (if length bs * B + 4 * length es \<ge> N then (PageFull, t)
       else case write_entry E p (length bs * B + 4 * length es) e t of
         (status, s) \<Rightarrow> if status \<noteq> WriteOk then (status, s)
           else (WriteOk, (set_cached_next_write_offset p (length bs * B + 4 * length es + SERIALIZED_ENTRY_SIZE) s)
             \<lparr>ram_cache := (ram_cache s)[unat (entry_address e) := entry_value e]\<rparr>))"
    unfolding write_internal_def write_offset_step_def [symmetric] fold_config
    using guard by (simp add: fp t(1,5) Let_def set_cached_next_write_offset_def del: find_valid_page.simps split: prod.splits)
  show "\<exists>t. write_internal E e False s = (PageFull, t) \<and>
      journal E pg ok p bs es t \<and> offset_ok E p (length bs) (length es) t \<and> frame s t \<and>
      pg (hwa_state t) = pg (hwa_state s)" if "length bs = m"
    using unf that N_eq t by (auto simp: offset_ok_def fold_config)
  assume room: "length bs < m"
  have e: "\<not> all_erased (serialize_entry e)"
    using address_not_reserved [OF addr len] by (rule data_entry_not_erased)
  obtain u bs' es' where u: "write_entry E p (length bs * B + 4 * length es) e t = (WriteOk, u)"
    "journal E pg ok p bs' es' u" "log_entries k bs' @ es' = log_entries k bs @ es @ [e]"
    "slots_used bs' es' = slots_used bs es + 1" "frame t u" "es' = [] \<or> es' = es @ [e]"
    "\<forall>q. q \<noteq> p \<longrightarrow> pg (hwa_state u) q = pg (hwa_state t) q"
    using write_entry_journal [OF t(2) room e] by blast
  have "4 * length es + 4 \<le> B" using j pending_fits by (auto simp: journal_def)
  then have "\<not> N \<le> length bs * B + 4 * length es" using block_fits [OF room] by simp
  moreover define v where "v = (set_cached_next_write_offset p (length bs * B + 4 * length es + 4) u)
        \<lparr>ram_cache := (ram_cache u)[unat (entry_address e) := entry_value e]\<rparr>"
  ultimately have w: "write_internal E e False s = (WriteOk, v)"
    using unf u(1) by simp
  have "length bs * B + 4 * length es + 4 = length bs' * B + 4 * length es'"
    using u(4) unfolding offset_slots by simp
  then have "offset_ok E p (length bs') (length es') v"
    by (simp add: v_def offset_ok_def set_cached_next_write_offset_def cached_next_write_offset_def fold_config)
  moreover have "frame (s\<lparr>ram_cache := (ram_cache s)[unat (entry_address e) := entry_value e]\<rparr>) v"
    using frame_trans [OF t(3) u(5)] by (simp add: frame_def v_def set_cached_next_write_offset_def)
  moreover have "journal E pg ok p bs' es' v" using u(2) by (simp add: v_def)
  moreover have "hwa_state v = hwa_state u" by (simp add: v_def set_cached_next_write_offset_def)
  ultimately show "\<exists>t bs' es'. write_internal E e False s = (WriteOk, t) \<and>
      journal E pg ok p bs' es' t \<and> log_entries k bs' @ es' = log_entries k bs @ es @ [e] \<and>
      slots_used bs' es' = slots_used bs es + 1 \<and> offset_ok E p (length bs') (length es') t \<and>
      (es' = [] \<or> es' = es @ [e]) \<and>
      frame (s\<lparr>ram_cache := (ram_cache s)[unat (entry_address e) := entry_value e]\<rparr>) t \<and>
      (\<forall>q. q \<noteq> p \<longrightarrow> pg (hwa_state t) q = pg (hwa_state s) q)"
    using u w t(4) by (intro exI [of _ v] exI [of _ bs'] exI [of _ es']) auto
qed


section \<open>Status records\<close>

lemma write_page_status_journal:
  assumes ok: "ok (hwa_state s)" and rep: "log_rep B N bs (pg (hwa_state s) p)" and room: "length bs < m"
    and clean: "\<not> write_block_dirty s" and st: "st \<noteq> Erased"
  shows "\<exists>t bs'. write_page_status E p st s = (True, t) \<and> ok (hwa_state t) \<and>
    log_rep B N bs' (pg (hwa_state t) p) \<and> log_entries k bs' = log_entries k bs @ [status_entry st] \<and>
    length bs' = Suc (length bs) \<and> \<not> write_block_dirty t \<and>
    (\<forall>q. q \<noteq> p \<longrightarrow> pg (hwa_state t) q = pg (hwa_state s) q) \<and>
    ram_cache t = ram_cache s \<and> page_status_cache t = (page_status_cache s)(p := st) \<and>
    cache_dirty t = cache_dirty s \<and>
    cached_next_write_offset t = (if nwo_page (cached_next_write_offset s) = p
      then \<lparr>nwo_page = p, nwo_offset = length bs' * B\<rparr> else cached_next_write_offset s)"
proof -
  let ?e = "status_entry st"
  have j: "journal E pg ok p bs [] s" using ok rep clean k_pos by (simp add: journal_def pending_def fold_config)
  have free: "first_erased (pg (hwa_state s) p) = Some (length bs * B)"
    using journal_page_blocks [OF j] room by (simp add: first_erased_def)
  obtain t where t: "find_next_free_offset E p s = (Some (length bs * B), t)" "same_flash pg ok s t"
    using find_next_free_offset_eq [OF ok, of p] free by metis
  have nwo: "cached_next_write_offset t = cached_next_write_offset s"
    using t(2) by (auto simp: same_flash_def cached_next_write_offset_def)
  obtain u bs' es' where u: "write_entry E p (length bs * B) ?e t = (WriteOk, u)" "journal E pg ok p bs' es' u"
    "log_entries k bs' @ es' = log_entries k bs @ [?e]" "slots_used bs' es' = slots_used bs [] + 1" "frame t u"
    "es' = [] \<or> es' = [?e]" "\<forall>q. q \<noteq> p \<longrightarrow> pg (hwa_state u) q = pg (hwa_state t) q"
    "nwo_page (cached_next_write_offset t) \<noteq> p \<longrightarrow> cached_next_write_offset u = cached_next_write_offset t"
    "nwo_page (cached_next_write_offset t) = p \<longrightarrow> nwo_page (cached_next_write_offset u) = p"
    using write_entry_journal [OF journal_same_flash [OF j t(2)] room status_entry_not_erased [OF st]] by auto
  obtain v bs'' where v: "flush_write_block E u = (True, v)" "journal E pg ok p bs'' [] v" "frame u v"
    "log_entries k bs'' = log_entries k bs' @ es'"
    "length bs'' = (if es' = [] then length bs' else Suc (length bs'))"
    "\<forall>q. q \<noteq> p \<longrightarrow> pg (hwa_state v) q = pg (hwa_state u) q"
    "nwo_page (cached_next_write_offset u) \<noteq> p \<longrightarrow> cached_next_write_offset v = cached_next_write_offset u"
    "nwo_page (cached_next_write_offset u) = p \<longrightarrow> nwo_page (cached_next_write_offset v) = p"
    using journal_flush [OF u(2)] by blast
  have len: "length bs'' = Suc (length bs)"
  proof (cases "es' = []")
    case True
    then have eq: "length bs' * k = length bs * k + 1" using u(4) by (simp add: slots_used_def)
    then have "k dvd 1" by (metis dvd_add_right_iff dvd_triv_right)
    then show ?thesis using True v(5) eq by simp
  next
    case False
    then have "length bs' * k = length bs * k" using u(4,6) by (auto simp: slots_used_def)
    then show ?thesis using False v(5) k_pos by simp
  qed
  have fit: "length bs * B + B \<le> N" by (rule block_fits [OF room])
  have blk: "length bs * B div B * B = length bs * B" "min (length bs * B + B) N = length bs'' * B"
    using fit B_pos len by simp_all
  have e: "make_entry RESERVED_STATUS_ADDRESS (serialize_page_status st) = ?e"
    by (simp add: status_entry_def serialize_page_status_def)
  define w where "w = set_cached_page_status p st (if nwo_page (cached_next_write_offset v) = p
      then set_cached_next_write_offset p (length bs'' * B) v else v)"
  have res: "write_page_status E p st s = (True, w)"
    using flush_clean [OF clean] t(1) u(1) v(1)
    by (simp add: write_page_status_def e w_def Let_def fold_config blk del: mult_Suc)
  have fr: "frame s v" using frame_trans [OF frame_trans [OF same_flash_frame [OF t(2)] u(5)] v(3)] .
  have other: "\<forall>q. q \<noteq> p \<longrightarrow> pg (hwa_state v) q = pg (hwa_state s) q"
    using v(6) u(7) same_flashD [OF t(2)] by simp
  have hw: "hwa_state w = hwa_state v" "write_block_dirty w = write_block_dirty v"
    by (simp_all add: w_def set_cached_page_status_def set_cached_next_write_offset_def)
  have off: "cached_next_write_offset w = (if nwo_page (cached_next_write_offset s) = p
      then \<lparr>nwo_page = p, nwo_offset = length bs'' * B\<rparr> else cached_next_write_offset s)"
    using u(8,9) v(7,8) nwo
    by (auto simp: w_def set_cached_page_status_def set_cached_next_write_offset_def cached_next_write_offset_def)
  have rest: "ram_cache w = ram_cache s" "page_status_cache w = (page_status_cache s)(p := st)" "cache_dirty w = cache_dirty s"
    using fr by (simp_all add: frame_def w_def set_cached_page_status_def set_cached_next_write_offset_def)
  show ?thesis
    using res hw off rest other len v(2,4) u(3)
    by (intro exI [of _ w] exI [of _ bs'']) (simp add: journal_def pending_def fold_config)
qed

section \<open>Transferring the RAM mirror\<close>

definition data_entries :: "u16 list \<Rightarrow> nat list \<Rightarrow> entry list" where
  "data_entries c as = map (\<lambda>a. make_entry (of_nat a) (c ! a)) (filter (\<lambda>a. c ! a \<noteq> ERASED_VALUE) as)"

lemma slots_room: "slots_used bs es < m * k \<Longrightarrow> length bs < m"
proof (rule ccontr)
  assume "slots_used bs es < m * k" "\<not> length bs < m"
  then have "m * k \<le> length bs * k" by (intro mult_le_mono1) simp
  then show False using \<open>slots_used bs es < m * k\<close> unfolding slots_used_def by linarith
qed

lemma transfer_entries_journal:
  assumes "journal E pg ok p bs es s" and "find_valid_page OpWrite s = Some p"
    and "offset_ok E p (length bs) (length es) s" and "length (ram_cache s) < 2 ^ 16"
    and "\<forall>a \<in> set as. a < length (ram_cache s)"
    and "slots_used bs es + length (data_entries (ram_cache s) as) \<le> m * k"
  shows "\<exists>t bs' es'. transfer_entries E as s = (WriteOk, t) \<and> journal E pg ok p bs' es' t \<and>
    log_entries k bs' @ es' = log_entries k bs @ es @ data_entries (ram_cache s) as \<and>
    slots_used bs' es' = slots_used bs es + length (data_entries (ram_cache s) as) \<and> frame s t \<and>
    (\<forall>q. q \<noteq> p \<longrightarrow> pg (hwa_state t) q = pg (hwa_state s) q)"
  using assms
proof (induction as arbitrary: s bs es)
  case Nil
  then show ?case by (auto simp: data_entries_def)
next
  case (Cons a as)
  show ?case
  proof (cases "ram_cache s ! a = ERASED_VALUE")
    case True
    then have "data_entries (ram_cache s) (a # as) = data_entries (ram_cache s) as" by (simp add: data_entries_def)
    then show ?thesis using Cons.IH [of bs es s] Cons.prems True by simp
  next
    case False
    let ?e = "make_entry (of_nat a) (ram_cache s ! a)"
    have dat: "data_entries (ram_cache s) (a # as) = ?e # data_entries (ram_cache s) as"
      using False by (simp add: data_entries_def)
    have a: "unat (entry_address ?e) = a" "entry_value ?e = ram_cache s ! a" "a < length (ram_cache s)"
      using Cons.prems(4,5) by (simp_all add: make_entry_def unat_of_nat take_bit_nat_eq_self)
    have "length bs < m" using Cons.prems(6) dat by (intro slots_room [of bs es]) simp
    then obtain t bs' es' where t: "write_internal E ?e False s = (WriteOk, t)"
      "journal E pg ok p bs' es' t" "log_entries k bs' @ es' = log_entries k bs @ es @ [?e]"
      "slots_used bs' es' = slots_used bs es + 1" "offset_ok E p (length bs') (length es') t"
      "frame (s\<lparr>ram_cache := (ram_cache s)[a := ram_cache s ! a]\<rparr>) t"
      "\<forall>q. q \<noteq> p \<longrightarrow> pg (hwa_state t) q = pg (hwa_state s) q"
      using write_internal_journal(1) [OF Cons.prems(1-4), of ?e] a by auto
    have fr: "frame s t" using t(6) by simp
    then have ram: "ram_cache t = ram_cache s" by (simp add: frame_def)
    have valid: "find_valid_page OpWrite t = Some p" using find_valid_page_frame [OF fr] Cons.prems(2) by simp
    obtain u bs'' es'' where u: "transfer_entries E as t = (WriteOk, u)" "journal E pg ok p bs'' es'' u"
      "log_entries k bs'' @ es'' = log_entries k bs' @ es' @ data_entries (ram_cache s) as"
      "slots_used bs'' es'' = slots_used bs' es' + length (data_entries (ram_cache s) as)" "frame t u"
      "\<forall>q. q \<noteq> p \<longrightarrow> pg (hwa_state u) q = pg (hwa_state t) q"
      using Cons.IH [OF t(2) valid t(5)] Cons.prems(4-6) t(4) dat unfolding ram by auto
    have "log_entries k bs'' @ es'' = log_entries k bs @ es @ data_entries (ram_cache s) (a # as)"
      using u(3) t(3) dat by (metis append.assoc append_Cons append_Nil)
    then show ?thesis
      using False t(1,4,7) u frame_trans [OF fr u(5)] dat
      by (intro exI [of _ u] exI [of _ bs''] exI [of _ es'']) auto
  qed
qed

end

end
