(* ===== verification/Emu_Correct.thy ===== *)
theory Emu_Correct
  imports Emu_Journal
begin

text \<open>
  Correctness of the emulated EEPROM over a flash that keeps its contract. \<open>emu_inv\<close> is the
  steady state between public calls: one runtime page is valid and holds a journal whose replay
  is the RAM mirror, the other one is formatted and empty. Formatting, writing, transferring,
  flushing and initialising establish or keep it.
\<close>

section \<open>The steady state\<close>

definition other_page :: "page \<Rightarrow> page" where
  "other_page p = (if p = Page2 then Page1 else Page2)"

text \<open>A page fit to receive a transfer: at most one block, status records only.\<close>

definition fresh_page :: "'h emu_env \<Rightarrow> u8 list list \<Rightarrow> u8 list \<Rightarrow> bool" where
  "fresh_page E qs xs \<longleftrightarrow> log_rep (write_block_size E) (page_size E) qs xs \<and> length qs \<le> 1 \<and>
     (\<forall>e \<in> set (log_entries (entries_per_block E) qs). entry_address e = RESERVED_STATUS_ADDRESS)"

definition emu_log :: "'h emu_env \<Rightarrow> u8 list list \<Rightarrow> entry list \<Rightarrow> entry list" where
  "emu_log E bs es = log_entries (entries_per_block E) bs @ es"

definition emu_inv :: "'h emu_env \<Rightarrow> ('h \<Rightarrow> page \<Rightarrow> u8 list) \<Rightarrow> ('h \<Rightarrow> bool) \<Rightarrow> nat \<Rightarrow> page \<Rightarrow> u8 list list
    \<Rightarrow> entry list \<Rightarrow> 'h emu \<Rightarrow> bool" where
  "emu_inv E pg ok Count p bs es s \<longleftrightarrow>
     (p = Page1 \<or> p = Page2) \<and> cached_page_status p s = Valid \<and>
     cached_page_status (other_page p) s = Formatted \<and> length (ram_cache s) = Count \<and>
     journal E pg ok p bs es s \<and> offset_ok E p (length bs) (length es) s \<and>
     (\<forall>e \<in> set es. entry_status e = None) \<and> log_status (emu_log E bs es) = Some Valid \<and>
     (\<exists>c. replay (emu_log E bs es) (replicate Count ERASED_VALUE) = Some c \<and> (\<not> cache_dirty s \<longrightarrow> ram_cache s = c)) \<and>
     (\<exists>qs. fresh_page E qs (pg (hwa_state s) (other_page p)) \<and>
        log_status (log_entries (entries_per_block E) qs) = Some Formatted)"

definition page_state :: "u8 list \<Rightarrow> page_status" where
  "page_state xs = (case bytes_status xs of None \<Rightarrow> Erased | Some st \<Rightarrow> st)"

text \<open>The number of addresses that hold a value, and the mirror after a write.\<close>

definition values_stored :: "u16 list \<Rightarrow> nat" where
  "values_stored c = length (filter (\<lambda>v. v \<noteq> ERASED_VALUE) c)"

definition updated :: "entry \<Rightarrow> 'h emu \<Rightarrow> u16 list" where
  "updated e s = (ram_cache s)[unat (entry_address e) := entry_value e]"

section \<open>Replaying a transferred mirror\<close>

lemma replay_status [simp]: "replay (status_entry st # es) c = replay es c"
  by simp

lemma replay_skip: "\<forall>e \<in> set xs. entry_address e = RESERVED_STATUS_ADDRESS \<Longrightarrow> replay (xs @ ys) c = replay ys c"
  by (induction xs) simp_all

lemma other_page_cases [simp]:
  "other_page Page1 = Page2" "other_page Page2 = Page1" "other_page p \<noteq> Factory"
  "Factory \<noteq> other_page p"
  by (simp_all add: other_page_def)

lemma other_page_neq: "p = Page1 \<or> p = Page2 \<Longrightarrow> other_page p \<noteq> p \<and> (other_page p = Page1 \<or> other_page p = Page2) \<and> other_page (other_page p) = p"
  by auto

context flash
begin

lemma data_entries_snoc:
  "data_entries c [0 ..< Suc i] = data_entries c [0 ..< i] @ (if c ! i = ERASED_VALUE then [] else [make_entry (of_nat i) (c ! i)])"
  by (simp add: data_entries_def)

lemma replay_data:
  assumes "length c < 2 ^ 16" and "i \<le> length c"
  shows "replay (data_entries c [0 ..< i]) (replicate (length c) ERASED_VALUE) = Some (take i c @ replicate (length c - i) ERASED_VALUE)"
  using assms(2)
proof (induction i)
  case (Suc i)
  have addr: "of_nat i \<noteq> RESERVED_STATUS_ADDRESS \<Longrightarrow> unat (of_nat i :: u16) = i"
    using assms(1) Suc.prems by (simp add: unat_of_nat take_bit_nat_eq_self)
  have u: "unat (of_nat i :: u16) = i" using assms(1) Suc.prems by (simp add: unat_of_nat take_bit_nat_eq_self)
  have nr: "(of_nat i :: u16) \<noteq> RESERVED_STATUS_ADDRESS"
    using address_not_reserved [of "make_entry (of_nat i) 0" "length c"] u Suc.prems assms(1) by (simp add: make_entry_def)
  have rep: "replicate (length c - i) ERASED_VALUE = ERASED_VALUE # replicate (length c - Suc i) ERASED_VALUE"
    using Suc.prems by (metis Suc_diff_Suc Suc_le_lessD replicate_Suc)
  show ?case
    using Suc u nr by (auto simp: data_entries_snoc replay_append make_entry_def rep take_Suc_conv_app_nth
        list_update_append Suc_le_lessD simp del: upt_Suc)
qed (simp add: data_entries_def)

lemma log_status_data_entries [simp]: "length c < 2 ^ 16 \<Longrightarrow> i \<le> length c \<Longrightarrow> log_status (data_entries c [0 ..< i]) = None"
proof (rule log_status_data)
  assume a: "length c < 2 ^ 16" "i \<le> length c"
  show "\<forall>e \<in> set (data_entries c [0 ..< i]). entry_address e \<noteq> RESERVED_STATUS_ADDRESS"
  proof
    fix e assume "e \<in> set (data_entries c [0 ..< i])"
    then obtain j where "j < i" "e = make_entry (of_nat j) (c ! j)" by (auto simp: data_entries_def)
    then have "unat (entry_address e) < length c" using a by (simp add: make_entry_def unat_of_nat take_bit_nat_eq_self)
    then show "entry_address e \<noteq> RESERVED_STATUS_ADDRESS" using a(1) by (rule address_not_reserved)
  qed
qed

lemma find_valid_read:
  "p = Page1 \<or> p = Page2 \<Longrightarrow> cached_page_status p s = Valid \<Longrightarrow> cached_page_status (other_page p) s \<noteq> Valid \<Longrightarrow>
   find_valid_page OpRead s = Some p"
  by (auto simp: Let_def)

lemma find_valid_write:
  "p = Page1 \<or> p = Page2 \<Longrightarrow> cached_page_status p s = Valid \<Longrightarrow> cached_page_status (other_page p) s = Formatted \<Longrightarrow>
   find_valid_page OpWrite s = Some p"
  by (auto simp: Let_def)

lemma find_valid_write_receiving:
  "p = Page1 \<or> p = Page2 \<Longrightarrow> cached_page_status p s = Valid \<Longrightarrow> cached_page_status (other_page p) s = Receiving \<Longrightarrow>
   find_valid_page OpWrite s = Some (other_page p)"
  by (auto simp: Let_def)


section \<open>Page transfer\<close>

lemma journal_frame_hw:
  "journal E pg ok p bs [] s \<longleftrightarrow> ok (hwa_state s) \<and> log_rep B N bs (pg (hwa_state s) p) \<and> \<not> write_block_dirty s"
  using k_pos by (simp add: journal_def pending_def fold_config)

text \<open>The data part of a transfer: mark the new page, write every value, flush.\<close>

lemma transfer_fill:
  assumes ok: "ok (hwa_state s)" and clean: "\<not> write_block_dirty s" and ram: "length (ram_cache s) = Count"
    and p: "p = Page1 \<or> p = Page2" and valid: "cached_page_status p s = Valid"
    and fresh: "fresh_page E qs (pg (hwa_state s) (other_page p))"
  defines "q \<equiv> other_page p" and "d \<equiv> data_entries (ram_cache s) [0 ..< Count]"
  shows "\<exists>s1 s3 s4 bs. write_page_status E q Receiving s = (True, s1) \<and>
    transfer_entries E [0 ..< max_address s1] (set_cached_next_write_offset q 0 s1) = (WriteOk, s3) \<and>
    flush_write_block E s3 = (True, s4) \<and>
    ok (hwa_state s4) \<and> log_rep B N bs (pg (hwa_state s4) q) \<and> \<not> write_block_dirty s4 \<and>
    log_entries k bs = log_entries k qs @ [status_entry Receiving] @ d \<and>
    (length qs + 1) * k + length d \<le> length bs * k \<and> length bs * k < (length qs + 1) * k + length d + k \<and>
    ram_cache s4 = ram_cache s \<and> page_status_cache s4 = (page_status_cache s)(q := Receiving) \<and>
    (\<forall>r. r \<noteq> q \<longrightarrow> pg (hwa_state s4) r = pg (hwa_state s) r)"
proof -
  note f = fresh [unfolded fresh_page_def fold_config, folded q_def]
  have q: "q \<noteq> p" "q = Page1 \<or> q = Page2" using other_page_neq [OF p] by (simp_all add: q_def)
  have "length qs < m" using f count_bounds(4) by linarith
  then obtain s1 bs1 where s1: "write_page_status E q Receiving s = (True, s1)" "ok (hwa_state s1)"
    "log_rep B N bs1 (pg (hwa_state s1) q)" "log_entries k bs1 = log_entries k qs @ [status_entry Receiving]"
    "length bs1 = Suc (length qs)" "\<not> write_block_dirty s1"
    "\<forall>r. r \<noteq> q \<longrightarrow> pg (hwa_state s1) r = pg (hwa_state s) r"
    "ram_cache s1 = ram_cache s" "page_status_cache s1 = (page_status_cache s)(q := Receiving)"
    using write_page_status_journal [OF ok _ _ clean, of qs q Receiving] f by auto
  let ?s2 = "set_cached_next_write_offset q 0 s1"
  have j2: "journal E pg ok q bs1 [] ?s2" using s1 by (simp add: journal_frame_hw)
  have st2: "cached_page_status p ?s2 = Valid" "cached_page_status q ?s2 = Receiving"
    using s1(9) valid q by (simp_all add: cached_page_status_def set_cached_next_write_offset_def)
  have fw: "find_valid_page OpWrite ?s2 = Some q"
    using find_valid_write_receiving [OF p] st2 by (simp add: q_def)
  have off: "offset_ok E q (length bs1) (length []) ?s2"
    by (simp add: offset_ok_def cached_next_write_offset_def set_cached_next_write_offset_def)
  have r2: "ram_cache ?s2 = ram_cache s" using s1(8) by (simp add: set_cached_next_write_offset_def)
  have mx: "max_address s1 = Count" using s1(8) ram count_bounds(2) by (simp add: max_address_def)
  have dle: "length d \<le> Count" using length_filter_le [of "\<lambda>a. ram_cache s ! a \<noteq> ERASED_VALUE" "[0 ..< Count]"]
    by (simp add: d_def data_entries_def)
  have "length bs1 * k + length d \<le> 2 * k + (m - 3) * k"
    using f s1(5) dle count_bounds(3) by (intro add_le_mono mult_le_mono1) auto
  also have "\<dots> \<le> m * k" using count_bounds(4) by (simp add: diff_mult_distrib)
  finally have cap: "slots_used bs1 [] + length d \<le> m * k" by (simp add: slots_used_def)
  obtain s3 bs3 es3 where s3: "transfer_entries E [0 ..< Count] ?s2 = (WriteOk, s3)" "journal E pg ok q bs3 es3 s3"
    "log_entries k bs3 @ es3 = log_entries k bs1 @ d" "slots_used bs3 es3 = slots_used bs1 [] + length d" "frame ?s2 s3"
    "\<forall>r. r \<noteq> q \<longrightarrow> pg (hwa_state s3) r = pg (hwa_state ?s2) r"
    using transfer_entries_journal [OF j2 fw off, of "[0 ..< Count]", unfolded r2, folded d_def] ram count_bounds(2) cap
    by auto
  obtain s4 bs4 where s4: "flush_write_block E s3 = (True, s4)" "journal E pg ok q bs4 [] s4" "frame s3 s4"
    "log_entries k bs4 = log_entries k bs3 @ es3" "length bs4 = (if es3 = [] then length bs3 else Suc (length bs3))"
    "\<forall>r. r \<noteq> q \<longrightarrow> pg (hwa_state s4) r = pg (hwa_state s3) r"
    using journal_flush [OF s3(2)] by blast
  have "length es3 < k" using s3(2) by (simp add: journal_def pending_def fold_config)
  then have cnt: "(length qs + 1) * k + length d \<le> length bs4 * k \<and> length bs4 * k < (length qs + 1) * k + length d + k"
    using s3(4) s4(5) s1(5) k_pos by (cases es3) (auto simp: slots_used_def)
  have fr: "frame ?s2 s4" by (rule frame_trans [OF s3(5) s4(3)])
  have log4: "log_entries k bs4 = log_entries k qs @ [status_entry Receiving] @ d"
    using s4(4) s3(3) s1(4) by simp
  have hw2: "hwa_state ?s2 = hwa_state s1" "page_status_cache ?s2 = page_status_cache s1" "ram_cache ?s2 = ram_cache s1"
    by (simp_all add: set_cached_next_write_offset_def)
  have "ram_cache s4 = ram_cache s" "page_status_cache s4 = (page_status_cache s)(q := Receiving)"
    using fr s1(8,9) hw2 by (simp_all add: frame_def)
  moreover have "\<forall>r. r \<noteq> q \<longrightarrow> pg (hwa_state s4) r = pg (hwa_state s) r" using s4(6) s3(6) s1(7) hw2(1) by simp
  ultimately show ?thesis using s1(1) s3(1) s4(1,2) cnt log4 mx
    by (intro exI [of _ s1] exI [of _ s3] exI [of _ s4] exI [of _ bs4]) (simp add: journal_frame_hw)
qed


text \<open>The switch that ends a transfer: erase the old page, mark both, rebuild the mirror.\<close>

lemma transfer_finish:
  assumes ok: "ok (hwa_state s)" and clean: "\<not> write_block_dirty s" and ram: "length (ram_cache s) = Count"
    and p: "p = Page1 \<or> p = Page2" and nv: "cached_page_status p s = Valid"
    and rep: "log_rep B N bs (pg (hwa_state s) (other_page p))" and room: "length bs < m"
    and vals: "replay (log_entries k bs) (replicate Count ERASED_VALUE) = Some (ram_cache s)"
  shows "\<exists>t bs'. and_then (call_erase E p s) (\<lambda>s.
      and_then (write_page_status E p Formatted s) (\<lambda>s.
      and_then (write_page_status E (other_page p) Valid s) (emu_cache E))) = (True, t) \<and>
    emu_inv E pg ok Count (other_page p) bs' [] t \<and> log_entries k bs' = log_entries k bs @ [status_entry Valid] \<and>
    length bs' = Suc (length bs) \<and> ram_cache t = ram_cache s \<and> \<not> cache_dirty t \<and>
    pg (hwa_state t) Factory = pg (hwa_state s) Factory"
proof -
  let ?q = "other_page p"
  have q: "?q \<noteq> p" "?q = Page1 \<or> ?q = Page2" "other_page ?q = p" using other_page_neq [OF p] by simp_all
  obtain h where h: "call_erase E p s = (True, s\<lparr>hwa_state := h\<rparr>)" "ok h"
    "pg h = (pg (hwa_state s))(p := replicate N ERASED_BYTE)" by (rule call_eraseE [OF ok])
  let ?s5 = "s\<lparr>hwa_state := h\<rparr>"
  have er: "log_rep B N [] (pg (hwa_state ?s5) p)" using h(3) log_rep_erased by simp
  obtain s6 fs where s6: "write_page_status E p Formatted ?s5 = (True, s6)" "ok (hwa_state s6)"
    "log_rep B N fs (pg (hwa_state s6) p)" "log_entries k fs = [status_entry Formatted]" "length fs = 1"
    "\<not> write_block_dirty s6" "\<forall>r. r \<noteq> p \<longrightarrow> pg (hwa_state s6) r = pg (hwa_state ?s5) r"
    "ram_cache s6 = ram_cache s" "page_status_cache s6 = (page_status_cache s)(p := Formatted)"
    using write_page_status_journal [OF _ er, of Formatted] h(2) clean m_pos by auto
  have rep6: "log_rep B N bs (pg (hwa_state s6) ?q)" using rep s6(7) h(3) q by simp
  obtain s7 bs' where s7: "write_page_status E ?q Valid s6 = (True, s7)" "ok (hwa_state s7)"
    "log_rep B N bs' (pg (hwa_state s7) ?q)" "log_entries k bs' = log_entries k bs @ [status_entry Valid]"
    "length bs' = Suc (length bs)" "\<not> write_block_dirty s7"
    "\<forall>r. r \<noteq> ?q \<longrightarrow> pg (hwa_state s7) r = pg (hwa_state s6) r"
    "ram_cache s7 = ram_cache s6" "page_status_cache s7 = (page_status_cache s6)(?q := Valid)"
    using write_page_status_journal [OF s6(2) rep6 room s6(6), of Valid] by auto
  have st7: "page_status_cache s7 = (page_status_cache s)(p := Formatted, ?q := Valid)" using s6(9) s7(9) by simp
  then have rd: "find_valid_page OpRead s7 = Some ?q"
    using find_valid_read [OF q(2), of s7] q by (simp add: cached_page_status_def)
  have pb: "page_blocks B (pg (hwa_state s7) ?q) = bs'" by (rule log_rep_page_blocks [OF s7(3) B_pos B_dvd_N])
  have "log_values (length (ram_cache s7)) (pg (hwa_state s7) ?q) = Some (ram_cache s)"
    using vals s7(4,8) s6(8) ram by (simp add: log_values_def pb replay_append)
  then obtain g where g: "ok g" "pg g = pg (hwa_state s7)" "emu_cache E s7 =
      (True, clear_write_block (set_cached_next_write_offset ?q (length bs' * B)
         (s7\<lparr>ram_cache := ram_cache s, hwa_state := g, cache_dirty := False\<rparr>)))"
    using emu_cache_replay(1) [OF _ s7(2) rd] ram s7(8) s6(8) count_bounds(2) pb by auto
  define t where "t = clear_write_block (set_cached_next_write_offset ?q (length bs' * B)
         (s7\<lparr>ram_cache := ram_cache s, hwa_state := g, cache_dirty := False\<rparr>))"
  have tf: "hwa_state t = g" "ram_cache t = ram_cache s" "page_status_cache t = page_status_cache s7"
    "\<not> write_block_dirty t" "\<not> cache_dirty t"
    "cached_next_write_offset t = \<lparr>nwo_page = ?q, nwo_offset = length bs' * B\<rparr>"
    by (simp_all add: t_def clear_write_block_def set_cached_next_write_offset_def cached_next_write_offset_def)
  have j: "journal E pg ok ?q bs' [] t" using tf g s7(3) by (simp add: journal_frame_hw)
  have "fresh_page E fs (pg (hwa_state t) p)"
    using s6(3,4,5) s7(7) g(2) tf(1) q by (simp add: fresh_page_def fold_config)
  moreover have "log_status (log_entries k fs) = Some Formatted" using s6(4) by simp
  moreover have "log_status (log_entries k bs') = Some Valid" using s7(4) by simp
  moreover have "replay (log_entries k bs') (replicate Count ERASED_VALUE) = Some (ram_cache s)"
    using vals s7(4) by (simp add: replay_append)
  ultimately have inv: "emu_inv E pg ok Count ?q bs' [] t"
    using q j ram tf st7
    by (simp add: emu_inv_def cached_page_status_def emu_log_def offset_ok_def fold_config) blast
  have "pg (hwa_state t) Factory = pg (hwa_state s) Factory"
    using tf g s7(7) s6(7) h(3) q p by auto
  then show ?thesis using h(1) s6(1) s7(1) g(3) inv s7(4,5) tf unfolding t_def [symmetric]
    by (intro exI [of _ t] exI [of _ bs']) simp
qed

lemma page_transfer_correct:
  assumes ok: "ok (hwa_state s)" and clean: "\<not> write_block_dirty s" and ram: "length (ram_cache s) = Count"
    and p: "p = Page1 \<or> p = Page2" and valid: "cached_page_status p s = Valid"
    and nv: "cached_page_status (other_page p) s \<noteq> Valid"
    and fresh: "fresh_page E qs (pg (hwa_state s) (other_page p))"
  defines "d \<equiv> data_entries (ram_cache s) [0 ..< Count]"
  shows "\<exists>t bs. page_transfer E s = (WriteOk, t) \<and> emu_inv E pg ok Count (other_page p) bs [] t \<and>
    ram_cache t = ram_cache s \<and> \<not> cache_dirty t \<and> pg (hwa_state t) Factory = pg (hwa_state s) Factory \<and>
    log_entries k bs = log_entries k qs @ [status_entry Receiving] @ d @ [status_entry Valid] \<and>
    (length qs + 2) * k + length d \<le> length bs * k \<and> length bs * k < (length qs + 2) * k + length d + k"
proof -
  let ?q = "other_page p"
  have q: "?q \<noteq> p" using other_page_neq [OF p] by simp
  obtain s1 s3 s4 bs where f: "write_page_status E ?q Receiving s = (True, s1)"
    "transfer_entries E [0 ..< max_address s1] (set_cached_next_write_offset ?q 0 s1) = (WriteOk, s3)"
    "flush_write_block E s3 = (True, s4)" "ok (hwa_state s4)" "log_rep B N bs (pg (hwa_state s4) ?q)" "\<not> write_block_dirty s4"
    "log_entries k bs = log_entries k qs @ [status_entry Receiving] @ d"
    "(length qs + 1) * k + length d \<le> length bs * k" "length bs * k < (length qs + 1) * k + length d + k"
    "ram_cache s4 = ram_cache s" "page_status_cache s4 = (page_status_cache s)(?q := Receiving)"
    "\<forall>r. r \<noteq> ?q \<longrightarrow> pg (hwa_state s4) r = pg (hwa_state s) r"
    using transfer_fill [OF ok clean ram p valid fresh] unfolding d_def by blast
  have dle: "length d \<le> Count" using length_filter_le [of "\<lambda>a. ram_cache s ! a \<noteq> ERASED_VALUE" "[0 ..< Count]"]
    by (simp add: d_def data_entries_def)
  have "(length qs + 1) * k + length d + k \<le> 3 * k + (m - 3) * k"
    using fresh dle count_bounds(3) by (auto simp: fresh_page_def intro!: add_le_mono)
  also have "\<dots> = m * k" using count_bounds(4) by (simp add: diff_mult_distrib)
  finally have "length bs * k < m * k" using f(9) by linarith
  then have room: "length bs < m" by simp
  have skip: "\<forall>e \<in> set (log_entries k qs @ [status_entry Receiving]). entry_address e = RESERVED_STATUS_ADDRESS"
    using fresh by (auto simp: fresh_page_def fold_config)
  have len: "length (ram_cache s) < 2 ^ 16" using ram count_bounds(2) by simp
  have vals: "replay (log_entries k bs) (replicate Count ERASED_VALUE) = Some (ram_cache s4)"
    using replay_skip [OF skip, of d] replay_data [OF len order_refl] ram f(7,10) by (simp add: d_def)
  have v4: "cached_page_status p s4 = Valid" using f(11) valid q by (simp add: cached_page_status_def)
  have r4: "length (ram_cache s4) = Count" using f(10) ram by simp
  obtain t bs' where t: "and_then (call_erase E p s4) (\<lambda>s.
      and_then (write_page_status E p Formatted s) (\<lambda>s.
      and_then (write_page_status E ?q Valid s) (emu_cache E))) = (True, t)"
    "emu_inv E pg ok Count ?q bs' [] t" "log_entries k bs' = log_entries k bs @ [status_entry Valid]"
    "length bs' = Suc (length bs)" "ram_cache t = ram_cache s4" "\<not> cache_dirty t"
    "pg (hwa_state t) Factory = pg (hwa_state s4) Factory"
    using transfer_finish [OF f(4,6) r4 p v4 f(5) room vals] by blast
  have rd: "find_valid_page OpRead s = Some p" by (rule find_valid_read [OF p valid nv])
  have np: "(if p = Page2 then Page1 else Page2) = ?q" by (simp add: other_page_def)
  have same: "t\<lparr>cache_dirty := False\<rparr> = t" using t(6) by simp
  have "page_transfer E s = (WriteOk, t)"
    using flush_clean [OF clean] rd f(1-3) t(1) p same
    unfolding page_transfer_def np Let_def by (auto simp del: find_valid_page.simps)
  then show ?thesis using t f q by (intro exI [of _ t] exI [of _ bs']) auto
qed


section \<open>Formatting\<close>

lemma emu_format_correct:
  assumes ok: "ok (hwa_state s)" and ram: "length (ram_cache s) = Count"
  shows "\<exists>t bs. emu_format E f s = (True, t) \<and> emu_inv E pg ok Count Page1 bs [] t \<and>
    log_entries k bs = [status_entry Valid] \<and> length bs = 1 \<and>
    ram_cache t = replicate Count ERASED_VALUE \<and> \<not> cache_dirty t \<and>
    pg (hwa_state t) Factory = (if f then replicate N ERASED_BYTE else pg (hwa_state s) Factory)"
proof -
  let ?e = "replicate N ERASED_BYTE"
  obtain h1 where h1: "call_erase E Page1 (clear_write_block s) = (True, (clear_write_block s)\<lparr>hwa_state := h1\<rparr>)" "ok h1"
    "pg h1 = (pg (hwa_state s))(Page1 := ?e)"
    using call_eraseE [of "clear_write_block s" Page1] ok by (auto simp: clear_write_block_def)
  let ?s1 = "set_cached_page_status Page1 Erased ((clear_write_block s)\<lparr>hwa_state := h1\<rparr>)"
  obtain h2 where h2: "call_erase E Page2 ?s1 = (True, ?s1\<lparr>hwa_state := h2\<rparr>)" "ok h2" "pg h2 = (pg h1)(Page2 := ?e)"
    using call_eraseE [of ?s1 Page2] h1(2) by (auto simp: set_cached_page_status_def)
  let ?s2 = "set_cached_page_status Page2 Erased (?s1\<lparr>hwa_state := h2\<rparr>)"
  obtain h3 where h3: "call_erase E Factory ?s2 = (True, ?s2\<lparr>hwa_state := h3\<rparr>)" "ok h3" "pg h3 = (pg h2)(Factory := ?e)"
    using call_eraseE [of ?s2 Factory] h2(2) by (auto simp: set_cached_page_status_def)
  define s3 where "s3 = (fill_cache_erased (if f then set_cached_page_status Factory Erased (?s2\<lparr>hwa_state := h3\<rparr>) else ?s2))\<lparr>cache_dirty := False\<rparr>"
  have s3: "ok (hwa_state s3)" "pg (hwa_state s3) = (pg (hwa_state s))(Page1 := ?e, Page2 := ?e, Factory := if f then ?e else pg (hwa_state s) Factory)"
    "ram_cache s3 = replicate Count ERASED_VALUE" "\<not> write_block_dirty s3" "\<not> cache_dirty s3"
    using h1 h2 h3 ram
    by (auto simp: s3_def fill_cache_erased_def set_cached_page_status_def clear_write_block_def fun_eq_iff)
  have e1: "log_rep B N [] (pg (hwa_state s3) Page1)" using s3(2) log_rep_erased by simp
  obtain s4 bs where s4: "write_page_status E Page1 Valid s3 = (True, s4)" "ok (hwa_state s4)"
    "log_rep B N bs (pg (hwa_state s4) Page1)" "log_entries k bs = [status_entry Valid]" "length bs = 1" "\<not> write_block_dirty s4"
    "\<forall>r. r \<noteq> Page1 \<longrightarrow> pg (hwa_state s4) r = pg (hwa_state s3) r"
    "ram_cache s4 = ram_cache s3" "page_status_cache s4 = (page_status_cache s3)(Page1 := Valid)" "cache_dirty s4 = cache_dirty s3"
    using write_page_status_journal [OF s3(1) e1 _ s3(4), of Valid] m_pos by auto
  have e2: "log_rep B N [] (pg (hwa_state s4) Page2)" using s4(7) s3(2) log_rep_erased by simp
  obtain s5 qs where s5: "write_page_status E Page2 Formatted s4 = (True, s5)" "ok (hwa_state s5)"
    "log_rep B N qs (pg (hwa_state s5) Page2)" "log_entries k qs = [status_entry Formatted]" "length qs = 1" "\<not> write_block_dirty s5"
    "\<forall>r. r \<noteq> Page2 \<longrightarrow> pg (hwa_state s5) r = pg (hwa_state s4) r"
    "ram_cache s5 = ram_cache s4" "page_status_cache s5 = (page_status_cache s4)(Page2 := Formatted)" "cache_dirty s5 = cache_dirty s4"
    using write_page_status_journal [OF s4(2) e2 _ s4(6), of Formatted] m_pos by auto
  define t where "t = set_cached_next_write_offset Page1 0 s5"
  have tf: "hwa_state t = hwa_state s5" "ram_cache t = replicate Count ERASED_VALUE" "\<not> write_block_dirty t" "\<not> cache_dirty t"
    "cached_page_status Page1 t = Valid" "cached_page_status Page2 t = Formatted" "nwo_offset (cached_next_write_offset t) = 0"
    using s5 s4 s3 by (simp_all add: t_def set_cached_next_write_offset_def cached_page_status_def cached_next_write_offset_def)
  have res: "emu_format E f s = (True, t)"
    using h1(1) h2(1) h3(1) s4(1) s5(1)
    by (cases f) (simp_all add: emu_format_def Let_def s3_def t_def)
  have "journal E pg ok Page1 bs [] t" using tf s5(2,7) s4(3) by (simp add: journal_frame_hw)
  moreover have "fresh_page E qs (pg (hwa_state t) Page2)" using s5(3,4,5) tf(1) by (simp add: fresh_page_def fold_config)
  ultimately have "emu_inv E pg ok Count Page1 bs [] t"
    using tf s4(4) s5(4) unfolding emu_inv_def emu_log_def fold_config offset_ok_def
    by (auto intro!: exI [of _ qs])
  moreover have "pg (hwa_state t) Factory = (if f then ?e else pg (hwa_state s) Factory)"
    using s5(7) s4(7) s3(2) tf(1) by simp
  ultimately show ?thesis using res s4(4,5) tf by (intro exI [of _ t] exI [of _ bs]) simp
qed

section \<open>Initialisation\<close>

lemma init_start:
  assumes "ok h"
  shows "\<exists>s. emu_init E (emu_new h Count) = init_repair E s \<and> ok (hwa_state s) \<and> pg (hwa_state s) = pg h \<and>
    page_status_cache s = (\<lambda>p. page_state (pg h p)) \<and> ram_cache s = replicate Count ERASED_VALUE \<and>
    \<not> write_block_dirty s \<and> \<not> cache_dirty s"
proof -
  obtain h0 where h0: "hwa_init E h = (True, h0)" "ok h0" "pg h0 = pg h" using init_law [OF assms] by blast
  define s0 where "s0 = fill_cache_erased ((set_cached_next_write_offset Page1 0
      (clear_write_block ((emu_new h Count)\<lparr>hwa_state := h0\<rparr>)))\<lparr>cache_dirty := False\<rparr>)"
  have s0: "hwa_state s0 = h0" "page_status_cache s0 = (\<lambda>_. Erased)" "ram_cache s0 = replicate Count ERASED_VALUE"
    "\<not> write_block_dirty s0" "\<not> cache_dirty s0"
    by (simp_all add: s0_def emu_new_def clear_write_block_def set_cached_next_write_offset_def fill_cache_erased_def)
  have unf: "emu_init E (emu_new h Count) = and_then (refresh_page_status E Page1 s0) (\<lambda>s.
     and_then (refresh_page_status E Page2 s) (\<lambda>s. and_then (refresh_page_status E Factory s) (init_repair E)))"
    using h0(1) by (simp add: emu_init_def call_init_def emu_new_def s0_def)
  obtain t1 where t1: "refresh_page_status E Page1 s0 = (True, set_cached_page_status Page1 (page_state (pg h Page1)) t1)"
    "same_flash pg ok s0 t1"
    using refresh_page_status_eq [of s0 Page1] h0 s0 by (auto simp: page_state_def cached_page_status_def)
  let ?s1 = "set_cached_page_status Page1 (page_state (pg h Page1)) t1"
  have s1: "ok (hwa_state ?s1)" "pg (hwa_state ?s1) = pg h" "page_status_cache ?s1 = (\<lambda>_. Erased)(Page1 := page_state (pg h Page1))"
    "ram_cache ?s1 = replicate Count ERASED_VALUE" "\<not> write_block_dirty ?s1" "\<not> cache_dirty ?s1"
    using t1(2) s0 h0 by (auto simp: same_flash_def set_cached_page_status_def)
  have "find_valid_page OpWrite ?s1 \<noteq> Some Page2" using s1(3) by (simp add: cached_page_status_def Let_def)
  then obtain t2 where t2: "refresh_page_status E Page2 ?s1 = (True, set_cached_page_status Page2 (page_state (pg h Page2)) t2)"
    "same_flash pg ok ?s1 t2"
    using refresh_page_status_eq [OF s1(1), of Page2] s1(2) by (auto simp: page_state_def)
  let ?s2 = "set_cached_page_status Page2 (page_state (pg h Page2)) t2"
  have s2: "ok (hwa_state ?s2)" "pg (hwa_state ?s2) = pg h"
    "page_status_cache ?s2 = (\<lambda>_. Erased)(Page1 := page_state (pg h Page1), Page2 := page_state (pg h Page2))"
    "ram_cache ?s2 = replicate Count ERASED_VALUE" "\<not> write_block_dirty ?s2" "\<not> cache_dirty ?s2"
    using t2(2) s1 by (auto simp: same_flash_def set_cached_page_status_def)
  have "find_valid_page OpWrite ?s2 \<noteq> Some Factory" by (simp add: Let_def)
  then obtain t3 where t3: "refresh_page_status E Factory ?s2 = (True, set_cached_page_status Factory (page_state (pg h Factory)) t3)"
    "same_flash pg ok ?s2 t3"
    using refresh_page_status_eq [OF s2(1), of Factory] s2(2) by (auto simp: page_state_def)
  let ?s3 = "set_cached_page_status Factory (page_state (pg h Factory)) t3"
  have "page_status_cache ?s3 = (\<lambda>p. page_state (pg h p))"
  proof
    fix p show "page_status_cache ?s3 p = page_state (pg h p)"
      using t3(2) s2(3) by (cases p) (auto simp: same_flash_def set_cached_page_status_def)
  qed
  moreover have "ok (hwa_state ?s3)" "pg (hwa_state ?s3) = pg h" "ram_cache ?s3 = replicate Count ERASED_VALUE"
    "\<not> write_block_dirty ?s3" "\<not> cache_dirty ?s3"
    using t3(2) s2 by (auto simp: same_flash_def set_cached_page_status_def)
  ultimately show ?thesis using unf t1(1) t2(1) t3(1) by (intro exI [of _ ?s3]) simp
qed


text \<open>Rebuilding the mirror from a valid page, whatever the bytes after its first erased block.\<close>

lemma cache_any:
  assumes ok: "ok (hwa_state s)" and ram: "length (ram_cache s) = Count"
    and p: "p = Page1 \<or> p = Page2" and v: "cached_page_status p s = Valid" and f: "cached_page_status (other_page p) s \<noteq> Valid"
  shows "\<And>c. log_values Count (pg (hwa_state s) p) = Some c \<Longrightarrow>
      \<exists>t. emu_cache E s = (True, t) \<and> ok (hwa_state t) \<and> pg (hwa_state t) = pg (hwa_state s) \<and> ram_cache t = c \<and>
        page_status_cache t = page_status_cache s \<and> \<not> write_block_dirty t \<and> \<not> cache_dirty t \<and>
        cached_next_write_offset t = \<lparr>nwo_page = p, nwo_offset = length (page_blocks B (pg (hwa_state s) p)) * B\<rparr>"
    and "log_values Count (pg (hwa_state s) p) = None \<Longrightarrow>
      \<exists>t. emu_cache E s = (False, t) \<and> ok (hwa_state t) \<and> pg (hwa_state t) = pg (hwa_state s) \<and> length (ram_cache t) = Count"
proof -
  have len: "length (ram_cache s) < 2 ^ 16" using ram count_bounds(2) by simp
  note rep = emu_cache_replay [OF len ok find_valid_read [OF p v f], unfolded ram]
  show "\<exists>t. emu_cache E s = (True, t) \<and> ok (hwa_state t) \<and> pg (hwa_state t) = pg (hwa_state s) \<and> ram_cache t = c \<and>
        page_status_cache t = page_status_cache s \<and> \<not> write_block_dirty t \<and> \<not> cache_dirty t \<and>
        cached_next_write_offset t = \<lparr>nwo_page = p, nwo_offset = length (page_blocks B (pg (hwa_state s) p)) * B\<rparr>"
    if c: "log_values Count (pg (hwa_state s) p) = Some c" for c
    using rep(1) [OF c] by (auto simp: clear_write_block_def set_cached_next_write_offset_def cached_next_write_offset_def)
  show "\<exists>t. emu_cache E s = (False, t) \<and> ok (hwa_state t) \<and> pg (hwa_state t) = pg (hwa_state s) \<and> length (ram_cache t) = Count"
    if "log_values Count (pg (hwa_state s) p) = None"
    using rep(2) that by auto
qed

lemma cache_clean:
  assumes "ok (hwa_state s)" and "length (ram_cache s) = Count"
    and "p = Page1 \<or> p = Page2" and "cached_page_status p s = Valid" and "cached_page_status (other_page p) s = Formatted"
    and rep: "log_rep B N bs (pg (hwa_state s) p)" and "log_status (log_entries k bs) = Some Valid"
    and vals: "replay (log_entries k bs) (replicate Count ERASED_VALUE) = Some c"
    and fr: "fresh_page E qs (pg (hwa_state s) (other_page p))" "log_status (log_entries k qs) = Some Formatted"
  shows "\<exists>t. emu_cache E s = (True, t) \<and> emu_inv E pg ok Count p bs [] t \<and> ram_cache t = c \<and> \<not> cache_dirty t \<and>
    pg (hwa_state t) = pg (hwa_state s)"
proof -
  have pb: "page_blocks B (pg (hwa_state s) p) = bs" by (rule log_rep_page_blocks [OF rep B_pos B_dvd_N])
  have lv: "log_values Count (pg (hwa_state s) p) = Some c" using vals by (simp add: log_values_def pb)
  have nv: "cached_page_status (other_page p) s \<noteq> Valid" using assms(5) by simp
  obtain t where t: "emu_cache E s = (True, t)" "ok (hwa_state t)" "pg (hwa_state t) = pg (hwa_state s)" "ram_cache t = c"
        "page_status_cache t = page_status_cache s" "\<not> write_block_dirty t" "\<not> cache_dirty t"
        "cached_next_write_offset t = \<lparr>nwo_page = p, nwo_offset = length bs * B\<rparr>"
    using cache_any(1) [OF assms(1-4) nv lv] unfolding pb by blast
  have "emu_inv E pg ok Count p bs [] t"
    using t assms(3-5,7) rep vals fr replay_length [OF vals]
    unfolding emu_inv_def emu_log_def fold_config offset_ok_def journal_frame_hw cached_page_status_def by auto
  then show ?thesis using t by auto
qed

definition recovered :: "'h emu \<Rightarrow> bool" where
  "recovered t \<longleftrightarrow> ok (hwa_state t) \<and> length (ram_cache t) = Count \<and>
     (\<exists>p. (p = Page1 \<or> p = Page2) \<and> cached_page_status p t = Valid \<and> cached_page_status (other_page p) t = Formatted)"

lemma emu_inv_recovered: "emu_inv E pg ok Count p bs es t \<Longrightarrow> recovered t"
  using journal_ok by (auto simp: emu_inv_def recovered_def)

lemma init_format_correct:
  assumes "ok (hwa_state s)" and "length (ram_cache s) = Count"
  shows "\<exists>t bs. init_format E c s = (True, t) \<and> emu_inv E pg ok Count Page1 bs [] t \<and>
    ram_cache t = replicate Count ERASED_VALUE \<and> \<not> cache_dirty t"
proof -
  obtain t bs where t: "emu_format E False s = (True, t)" "emu_inv E pg ok Count Page1 bs [] t"
    "log_entries k bs = [status_entry Valid]" "ram_cache t = replicate Count ERASED_VALUE" "\<not> cache_dirty t"
    using emu_format_correct [OF assms, of False] by blast
  show ?thesis
  proof (cases c)
    case True
    note i = t(2) [unfolded emu_inv_def emu_log_def fold_config journal_frame_hw append_Nil2]
    obtain qs where qs: "fresh_page E qs (pg (hwa_state t) (other_page Page1))" "log_status (log_entries k qs) = Some Formatted"
      using i by blast
    have "replay (log_entries k bs) (replicate Count ERASED_VALUE) = Some (replicate Count ERASED_VALUE)"
      using t(3) by simp
    then obtain u where u: "emu_cache E t = (True, u)" "emu_inv E pg ok Count Page1 bs [] u" "ram_cache u = replicate Count ERASED_VALUE"
      "\<not> cache_dirty u"
      using cache_clean [of t Page1 bs "replicate Count ERASED_VALUE" qs] i qs by blast
    then show ?thesis using t(1) True by (intro exI [of _ u] exI [of _ bs]) (simp add: init_format_def init_done_def)
  next
    case False
    then show ?thesis using t by (intro exI [of _ t] exI [of _ bs]) (simp add: init_format_def init_done_def)
  qed
qed

lemma init_format_recovered:
  assumes "ok (hwa_state s)" and "length (ram_cache s) = Count"
  shows "\<exists>t. init_format E c s = (True, t) \<and> recovered t"
  using init_format_correct [OF assms, of c] emu_inv_recovered by blast

lemma init_done_recovered:
  assumes "recovered s" shows "\<exists>t. init_done E True s = (True, t) \<and> recovered t"
proof -
  obtain p where p: "p = Page1 \<or> p = Page2" "cached_page_status p s = Valid" "cached_page_status (other_page p) s = Formatted"
    using assms by (auto simp: recovered_def)
  have s: "ok (hwa_state s)" "length (ram_cache s) = Count" using assms by (simp_all add: recovered_def)
  have nv: "cached_page_status (other_page p) s \<noteq> Valid" using p(3) by simp
  show ?thesis
  proof (cases "log_values Count (pg (hwa_state s) p)")
    case None
    obtain t where t: "emu_cache E s = (False, t)" "ok (hwa_state t)" "length (ram_cache t) = Count"
      using cache_any(2) [OF s p(1,2) nv None] by blast
    obtain u bs where "emu_format E False t = (True, u)" "emu_inv E pg ok Count Page1 bs [] u"
      using emu_format_correct [OF t(2,3), of False] by blast
    then show ?thesis using t(1) emu_inv_recovered by (auto simp: init_done_def)
  next
    case (Some c)
    obtain t where t: "emu_cache E s = (True, t)" "ok (hwa_state t)" "ram_cache t = c" "page_status_cache t = page_status_cache s"
      using cache_any(1) [OF s p(1,2) nv Some] by blast
    have "length c = Count" using Some replay_length by (fastforce simp: log_values_def)
    then have "recovered t" using t p by (auto simp: recovered_def cached_page_status_def)
    then show ?thesis using t(1) by (simp add: init_done_def)
  qed
qed


text \<open>\<open>ready s\<close>: what \<open>init\<close> has established when it starts to repair.\<close>

lemma fresh_erased: "pg h p = replicate N ERASED_BYTE \<Longrightarrow> fresh_page E [] (pg h p)"
  using log_rep_erased by (simp add: fresh_page_def fold_config)

lemma reformat_step:
  assumes ok: "ok (hwa_state s)" and clean: "\<not> write_block_dirty s" and ram: "length (ram_cache s) = Count"
    and p: "p = Page1 \<or> p = Page2" and v: "cached_page_status p s = Valid"
  shows "\<exists>t qs. init_reformat E (other_page p) s = init_done E True t \<and> recovered t \<and>
    pg (hwa_state t) p = pg (hwa_state s) p \<and> cached_page_status p t = Valid \<and>
    pg (hwa_state t) Factory = pg (hwa_state s) Factory \<and>
    cached_page_status (other_page p) t = Formatted \<and>
    fresh_page E qs (pg (hwa_state t) (other_page p)) \<and> log_status (log_entries k qs) = Some Formatted"
proof -
  let ?q = "other_page p"
  have q: "p \<noteq> ?q" "?q = Page1 \<or> ?q = Page2" using other_page_neq [OF p] by auto
  obtain h where h: "call_erase E ?q s = (True, s\<lparr>hwa_state := h\<rparr>)" "ok h" "pg h = (pg (hwa_state s))(?q := replicate N ERASED_BYTE)"
    by (rule call_eraseE [OF ok])
  have er: "log_rep B N [] (pg (hwa_state (s\<lparr>hwa_state := h\<rparr>)) ?q)" using h(3) log_rep_erased by simp
  obtain t qs where t: "write_page_status E ?q Formatted (s\<lparr>hwa_state := h\<rparr>) = (True, t)" "ok (hwa_state t)"
    "log_rep B N qs (pg (hwa_state t) ?q)" "log_entries k qs = [status_entry Formatted]" "length qs = 1"
    "\<forall>r. r \<noteq> ?q \<longrightarrow> pg (hwa_state t) r = pg h r" "ram_cache t = ram_cache s"
    "page_status_cache t = (page_status_cache s)(?q := Formatted)"
    using write_page_status_journal [OF _ er, of Formatted] h(2) clean m_pos by auto
  have st: "cached_page_status p t = Valid" "cached_page_status ?q t = Formatted"
    using t(8) v q(1) by (simp_all add: cached_page_status_def)
  have rec: "recovered t" using t(2,7) ram p st by (auto simp: recovered_def)
  have "pg (hwa_state t) p = pg (hwa_state s) p" "pg (hwa_state t) Factory = pg (hwa_state s) Factory"
    using t(6) h(3) q(1) by simp_all
  moreover have "fresh_page E qs (pg (hwa_state t) ?q)" using t(3-5) by (simp add: fresh_page_def fold_config)
  ultimately show ?thesis using h(1) t(1,4) st rec
    by (intro exI [of _ t] exI [of _ qs]) (simp add: init_reformat_def)
qed

lemma receiving_step:
  assumes ok: "ok (hwa_state s)" and clean: "\<not> write_block_dirty s" and ram: "length (ram_cache s) = Count"
    and p: "p = Page1 \<or> p = Page2" and v: "cached_page_status p s = Valid" and r: "cached_page_status (other_page p) s \<noteq> Valid"
  shows "\<exists>t. init_receiving E (other_page p) s = (True, t) \<and> recovered t"
    and "\<And>c. log_values Count (pg (hwa_state s) p) = Some c \<Longrightarrow>
      \<exists>t bs. init_receiving E (other_page p) s = (True, t) \<and> emu_inv E pg ok Count (other_page p) bs [] t \<and>
        ram_cache t = c \<and> \<not> cache_dirty t"
proof -
  let ?q = "other_page p"
  have q: "p \<noteq> ?q" using other_page_neq [OF p] by auto
  obtain h where h: "call_erase E ?q s = (True, s\<lparr>hwa_state := h\<rparr>)" "ok h" "pg h = (pg (hwa_state s))(?q := replicate N ERASED_BYTE)"
    by (rule call_eraseE [OF ok])
  let ?s = "s\<lparr>hwa_state := h\<rparr>"
  have s': "ok (hwa_state ?s)" "length (ram_cache ?s) = Count" "cached_page_status p ?s = Valid" "cached_page_status ?q ?s \<noteq> Valid"
    "pg (hwa_state ?s) p = pg (hwa_state s) p"
    using h ram v r q by (simp_all add: cached_page_status_def)
  show full: "\<exists>t bs. init_receiving E ?q s = (True, t) \<and> emu_inv E pg ok Count ?q bs [] t \<and> ram_cache t = c \<and> \<not> cache_dirty t"
    if c: "log_values Count (pg (hwa_state s) p) = Some c" for c
  proof -
    obtain u where u: "emu_cache E ?s = (True, u)" "ok (hwa_state u)" "pg (hwa_state u) = pg (hwa_state ?s)" "ram_cache u = c"
        "page_status_cache u = page_status_cache ?s" "\<not> write_block_dirty u"
      using cache_any(1) [OF s'(1,2) p s'(3,4), of c] c s'(5) by auto
    have len: "length (ram_cache u) = Count" using c u(4) replay_length by (fastforce simp: log_values_def)
    have fr: "fresh_page E [] (pg (hwa_state u) ?q)" using h(3) u(3) by (intro fresh_erased) simp
    have st: "cached_page_status p u = Valid" "cached_page_status ?q u \<noteq> Valid"
      using u(5) s'(3,4) by (simp_all add: cached_page_status_def)
    obtain t bs where t: "page_transfer E u = (WriteOk, t)" "emu_inv E pg ok Count ?q bs [] t" "ram_cache t = ram_cache u" "\<not> cache_dirty t"
      using page_transfer_correct [OF u(2,6) len p st fr] by blast
    then show ?thesis using h(1) u(1,4)
      by (intro exI [of _ t] exI [of _ bs]) (simp add: init_receiving_def init_done_def)
  qed
  show "\<exists>t. init_receiving E ?q s = (True, t) \<and> recovered t"
  proof (cases "log_values Count (pg (hwa_state s) p)")
    case (Some c)
    then show ?thesis using full emu_inv_recovered by blast
  next
    case None
    obtain u where u: "emu_cache E ?s = (False, u)" "ok (hwa_state u)" "length (ram_cache u) = Count"
      using cache_any(2) [OF s'(1,2) p s'(3,4)] None s'(5) by auto
    then show ?thesis using h(1) init_format_recovered [OF u(2,3), of False] by (auto simp: init_receiving_def)
  qed
qed

text \<open>\<open>init\<close> on a fresh object succeeds for any contents of the pages.\<close>

lemma init_any:
  assumes "ok h" shows "\<exists>t. emu_init E (emu_new h Count) = (True, t) \<and> recovered t"
proof -
  obtain s where s: "emu_init E (emu_new h Count) = init_repair E s" "ok (hwa_state s)"
    "ram_cache s = replicate Count ERASED_VALUE" "\<not> write_block_dirty s"
    using init_start [OF assms] by blast
  have ram: "length (ram_cache s) = Count" using s(3) by simp
  let ?c1 = "cached_page_status Page1 s" and ?c2 = "cached_page_status Page2 s"
  note fmt = init_format_recovered [OF s(2) ram]
  have rec: "cached_page_status p s = Valid \<Longrightarrow> cached_page_status (other_page p) s = Formatted \<Longrightarrow>
      p = Page1 \<or> p = Page2 \<Longrightarrow> recovered s" for p
    using s(2) ram by (auto simp: recovered_def)
  have ref: "\<exists>t. init_reformat E (other_page p) s = (True, t) \<and> recovered t"
    if "p = Page1 \<or> p = Page2" "cached_page_status p s = Valid" for p
    using reformat_step [OF s(2,4) ram that] init_done_recovered by metis
  note rcv = receiving_step(1) [OF s(2,4) ram]
  show ?thesis
    unfolding s(1) init_repair_def Let_def
    using fmt ref [of Page1] ref [of Page2] rcv [of Page1] rcv [of Page2] rec [of Page1] rec [of Page2] init_done_recovered [of s]
    by (cases ?c1; cases ?c2) simp_all
qed

text \<open>Without exactly one valid page the contents are gone: \<open>init\<close> formats.\<close>

lemma init_no_valid:
  assumes "ok h" and nv: "page_state (pg h Page1) = Valid \<longleftrightarrow> page_state (pg h Page2) = Valid"
  shows "\<exists>t bs. emu_init E (emu_new h Count) = (True, t) \<and> emu_inv E pg ok Count Page1 bs [] t \<and>
    ram_cache t = replicate Count ERASED_VALUE \<and> \<not> cache_dirty t"
proof -
  obtain s where s: "emu_init E (emu_new h Count) = init_repair E s" "ok (hwa_state s)"
    "page_status_cache s = (\<lambda>p. page_state (pg h p))" "ram_cache s = replicate Count ERASED_VALUE" "\<not> write_block_dirty s"
    using init_start [OF assms(1)] by blast
  have ram: "length (ram_cache s) = Count" using s(4) by simp
  have "\<exists>c. init_repair E s = init_format E c s"
    using nv s(3) unfolding init_repair_def Let_def cached_page_status_def
    by (cases "page_state (pg h Page1)"; cases "page_state (pg h Page2)") auto
  then show ?thesis using init_format_correct [OF s(2) ram] s(1) by auto
qed

lemma init_receiving_correct:
  assumes ok: "ok h" and p: "p = Page1 \<or> p = Page2" and v: "page_state (pg h p) = Valid"
    and r: "page_state (pg h (other_page p)) = Receiving" and c: "log_values Count (pg h p) = Some c"
  shows "\<exists>t bs. emu_init E (emu_new h Count) = (True, t) \<and> emu_inv E pg ok Count (other_page p) bs [] t \<and>
    ram_cache t = c \<and> \<not> cache_dirty t"
proof -
  obtain s where s: "emu_init E (emu_new h Count) = init_repair E s" "ok (hwa_state s)" "pg (hwa_state s) = pg h"
    "page_status_cache s = (\<lambda>p. page_state (pg h p))" "ram_cache s = replicate Count ERASED_VALUE" "\<not> write_block_dirty s"
    using init_start [OF ok] by blast
  have ram: "length (ram_cache s) = Count" using s(5) by simp
  have st: "cached_page_status p s = Valid" "cached_page_status (other_page p) s \<noteq> Valid"
    using v r s(4) by (simp_all add: cached_page_status_def)
  have "init_repair E s = init_receiving E (other_page p) s"
    using p v r s(4) unfolding init_repair_def Let_def cached_page_status_def by auto
  then show ?thesis
    using receiving_step(2) [OF s(2,6) ram p st, of c] c s(1,3) by auto
qed

lemma init_clean_correct:
  assumes ok: "ok h" and p: "p = Page1 \<or> p = Page2" and rep: "log_rep B N bs (pg h p)"
    and v: "log_status (log_entries k bs) = Some Valid"
    and c: "replay (log_entries k bs) (replicate Count ERASED_VALUE) = Some c"
    and other: "page_state (pg h (other_page p)) = Erased \<or>
      (\<exists>qs. fresh_page E qs (pg h (other_page p)) \<and> log_status (log_entries k qs) = Some Formatted)"
  shows "\<exists>t. emu_init E (emu_new h Count) = (True, t) \<and> emu_inv E pg ok Count p bs [] t \<and> ram_cache t = c \<and> \<not> cache_dirty t \<and>
    pg (hwa_state t) Factory = pg h Factory"
proof -
  obtain s where s: "emu_init E (emu_new h Count) = init_repair E s" "ok (hwa_state s)" "pg (hwa_state s) = pg h"
    "page_status_cache s = (\<lambda>p. page_state (pg h p))" "ram_cache s = replicate Count ERASED_VALUE" "\<not> write_block_dirty s"
    using init_start [OF ok] by blast
  have ram: "length (ram_cache s) = Count" using s(5) by simp
  have "4 dvd N" using dvd_256_N by (rule dvd_trans [rotated]) simp
  then have stat: "log_rep B N xs (pg h q) \<Longrightarrow> page_state (pg h q) = (case log_status (log_entries k xs) of None \<Rightarrow> Erased | Some st \<Rightarrow> st)" for xs q
    using bytes_status_log [of k N xs] by (simp add: page_state_def B_eq)
  have pv: "cached_page_status p s = Valid" using stat [OF rep] v s(4) by (simp add: cached_page_status_def)
  show ?thesis
  proof (cases "page_state (pg h (other_page p)) = Erased")
    case True
    then have go: "init_repair E s = init_reformat E (other_page p) s"
      using p pv s(4) unfolding init_repair_def Let_def cached_page_status_def by auto
    obtain u qs where u: "init_reformat E (other_page p) s = init_done E True u" "recovered u"
      "pg (hwa_state u) p = pg (hwa_state s) p" "pg (hwa_state u) Factory = pg (hwa_state s) Factory" "cached_page_status p u = Valid" "cached_page_status (other_page p) u = Formatted"
      "fresh_page E qs (pg (hwa_state u) (other_page p))" "log_status (log_entries k qs) = Some Formatted"
      using reformat_step [OF s(2,6) ram p pv] by blast
    have "ok (hwa_state u)" "length (ram_cache u) = Count" using u(2) by (simp_all add: recovered_def)
    then obtain t where "emu_cache E u = (True, t)" "emu_inv E pg ok Count p bs [] t" "ram_cache t = c" "\<not> cache_dirty t"
      "pg (hwa_state t) = pg (hwa_state u)"
      using cache_clean [OF _ _ p u(5,6) _ v c u(7,8)] u(3) s(3) rep by auto
    then show ?thesis using s(1,3) go u(1,4) by (simp add: init_done_def)
  next
    case False
    then obtain qs where qs: "fresh_page E qs (pg h (other_page p))" "log_status (log_entries k qs) = Some Formatted"
      using other by blast
    have of: "cached_page_status (other_page p) s = Formatted"
      using stat [of qs "other_page p"] qs s(4) by (simp add: fresh_page_def fold_config cached_page_status_def)
    then have go: "init_repair E s = init_done E True s"
      using p pv unfolding init_repair_def Let_def by auto
    obtain t where "emu_cache E s = (True, t)" "emu_inv E pg ok Count p bs [] t" "ram_cache t = c" "\<not> cache_dirty t"
      "pg (hwa_state t) = pg (hwa_state s)"
      using cache_clean [OF s(2) ram p pv of _ v c _ qs(2)] s(3) rep qs(1) by auto
    then show ?thesis using s(1,3) go by (simp add: init_done_def)
  qed
qed


section \<open>Writing, flushing, rebooting\<close>

lemma length_data_entries: "length c = n \<Longrightarrow> length (data_entries c [0 ..< n]) = values_stored c"
proof -
  assume n: "length c = n"
  have "values_stored c = length (filter (\<lambda>v. v \<noteq> ERASED_VALUE) (map ((!) c) [0 ..< length c]))"
    by (simp only: values_stored_def map_nth)
  also have "\<dots> = length (data_entries c [0 ..< n])" by (simp add: filter_map o_def data_entries_def n)
  finally show ?thesis by simp
qed

lemmas inv_unfold = emu_inv_def emu_log_def fold_config

lemma inv_frame: "emu_inv E pg ok Count p bs es s \<Longrightarrow> find_valid_page OpRead s = Some p \<and> find_valid_page OpWrite s = Some p"
  using find_valid_read [of p s] find_valid_write [of p s] by (simp add: inv_unfold)

lemma log_status_prefix:
  "log_status (log_entries k bs @ es) = Some Valid \<Longrightarrow> \<forall>e \<in> set es. entry_status e = None \<Longrightarrow> log_status (log_entries k bs) = Some Valid"
  by (simp add: log_status_append log_status_None)

lemma inv_flush:
  assumes inv: "emu_inv E pg ok Count p bs es s"
  shows "\<exists>t bs'. flush_write_block E s = (True, t) \<and> emu_inv E pg ok Count p bs' [] t \<and> frame s t \<and>
    log_entries k bs' = log_entries k bs @ es \<and> (es = [] \<longrightarrow> bs' = bs) \<and> pg (hwa_state t) Factory = pg (hwa_state s) Factory \<and>
    pg (hwa_state t) (other_page p) = pg (hwa_state s) (other_page p)"
proof -
  note i = inv [unfolded inv_unfold]
  obtain t bs' where t: "flush_write_block E s = (True, t)" "journal E pg ok p bs' [] t" "frame s t"
    "log_entries k bs' = log_entries k bs @ es" "es = [] \<longrightarrow> bs' = bs" "\<forall>q. q \<noteq> p \<longrightarrow> pg (hwa_state t) q = pg (hwa_state s) q"
    "offset_ok E p (length bs) (length es) s \<longrightarrow> offset_ok E p (length bs') 0 t"
    using journal_flush [of p bs es s] i by blast
  have "p \<noteq> Factory" "other_page p \<noteq> p" using i other_page_neq by auto
  then have "emu_inv E pg ok Count p bs' [] t"
    using i t by (simp add: inv_unfold frame_def cached_page_status_def)
  then show ?thesis using t \<open>p \<noteq> Factory\<close> \<open>other_page p \<noteq> p\<close> by (intro exI [of _ t] exI [of _ bs']) auto
qed

lemma inv_transfer:
  assumes inv: "emu_inv E pg ok Count p bs es s"
  shows "\<exists>t bs'. page_transfer E s = (WriteOk, t) \<and> emu_inv E pg ok Count (other_page p) bs' [] t \<and>
    ram_cache t = ram_cache s \<and> \<not> cache_dirty t \<and> pg (hwa_state t) Factory = pg (hwa_state s) Factory \<and>
    (3 * k + values_stored (ram_cache s) \<le> length bs' * k) \<and> length bs' * k < 4 * k + values_stored (ram_cache s)"
proof -
  obtain u us where u: "flush_write_block E s = (True, u)" "emu_inv E pg ok Count p us [] u" "frame s u"
    "pg (hwa_state u) Factory = pg (hwa_state s) Factory" using inv_flush [OF inv] by blast
  note i = u(2) [unfolded inv_unfold journal_frame_hw]
  obtain qs where qs: "fresh_page E qs (pg (hwa_state u) (other_page p))" "log_status (log_entries k qs) = Some Formatted"
    using i by blast
  then have one: "length qs = 1" by (cases qs) (auto simp: fresh_page_def)
  have nv: "cached_page_status (other_page p) u \<noteq> Valid" using i by simp
  have ram: "length (ram_cache u) = Count" "ram_cache u = ram_cache s" using i u(3) by (simp_all add: frame_def)
  obtain t bs' where t: "page_transfer E u = (WriteOk, t)" "emu_inv E pg ok Count (other_page p) bs' [] t"
    "ram_cache t = ram_cache u" "\<not> cache_dirty t" "pg (hwa_state t) Factory = pg (hwa_state u) Factory"
    "(length qs + 2) * k + length (data_entries (ram_cache u) [0 ..< Count]) \<le> length bs' * k"
    "length bs' * k < (length qs + 2) * k + length (data_entries (ram_cache u) [0 ..< Count]) + k"
    using page_transfer_correct [of u p qs] i nv qs(1) ram(1) by blast
  have "page_transfer E s = page_transfer E u"
    using u(1) flush_clean [of u] i by (simp add: page_transfer_def)
  then show ?thesis using t u(4) ram one length_data_entries [OF ram(1)] by (intro exI [of _ t] exI [of _ bs']) simp
qed

text \<open>A write into a page that still has a free block.\<close>

lemma inv_write_internal:
  assumes inv: "emu_inv E pg ok Count p bs es s" and addr: "unat (entry_address e) < Count"
  shows "length bs < m \<Longrightarrow> \<exists>t bs' es'. write_internal E e False s = (WriteOk, t) \<and> emu_inv E pg ok Count p bs' es' t \<and>
      emu_log E bs' es' = emu_log E bs es @ [e] \<and> ram_cache t = updated e s \<and> cache_dirty t = cache_dirty s \<and>
      pg (hwa_state t) Factory = pg (hwa_state s) Factory"
    and "length bs = m \<Longrightarrow> \<exists>t. write_internal E e False s = (PageFull, t) \<and> frame s t \<and>
      ok (hwa_state t) \<and> \<not> write_block_dirty t \<and> pg (hwa_state t) = pg (hwa_state s) \<and> offset_ok E p (length bs) 0 t"
proof -
  note i = inv [unfolded inv_unfold]
  have len: "length (ram_cache s) < 2 ^ 16" and addr': "unat (entry_address e) < length (ram_cache s)"
    using i addr count_bounds(2) by simp_all
  have j: "journal E pg ok p bs es s" and off: "offset_ok E p (length bs) (length es) s" using i by simp_all
  have fw: "find_valid_page OpWrite s = Some p" using inv_frame [OF inv] by simp
  note w = write_internal_journal [OF j fw off len addr']
  have es: "entry_status e = None" "entry_address e \<noteq> RESERVED_STATUS_ADDRESS"
    using address_not_reserved [OF addr' len] entry_status_data by simp_all
  show "\<exists>t. write_internal E e False s = (PageFull, t) \<and> frame s t \<and>
      ok (hwa_state t) \<and> \<not> write_block_dirty t \<and> pg (hwa_state t) = pg (hwa_state s) \<and> offset_ok E p (length bs) 0 t"
    if full: "length bs = m"
  proof -
    have "es = []" using j full by (auto simp: journal_def fold_config)
    then show ?thesis using w(2) [OF full] by (auto simp: journal_frame_hw)
  qed
  assume room: "length bs < m"
  obtain t bs' es' where t: "write_internal E e False s = (WriteOk, t)" "journal E pg ok p bs' es' t"
    "log_entries k bs' @ es' = log_entries k bs @ es @ [e]" "offset_ok E p (length bs') (length es') t"
    "es' = [] \<or> es' = es @ [e]" "frame (s\<lparr>ram_cache := updated e s\<rparr>) t"
    "\<forall>q. q \<noteq> p \<longrightarrow> pg (hwa_state t) q = pg (hwa_state s) q"
    using w(1) [OF room] unfolding updated_def by blast
  obtain c where c: "replay (log_entries k bs @ es) (replicate Count ERASED_VALUE) = Some c" "\<not> cache_dirty s \<longrightarrow> ram_cache s = c"
    using i by auto
  have "length c = Count" using replay_length [OF c(1)] by simp
  then have rep: "replay (log_entries k bs' @ es') (replicate Count ERASED_VALUE) = Some (c[unat (entry_address e) := entry_value e])"
    using c(1) addr es(2) by (simp add: t(3) replay_append flip: append_assoc)
  have stat: "log_status (log_entries k bs' @ es') = Some Valid" "\<forall>e \<in> set es'. entry_status e = None"
    using i es(1) t(5) by (auto simp: t(3) log_status_append split: option.splits)
  have pq: "p \<noteq> Factory" "other_page p \<noteq> p" using i other_page_neq by auto
  have fr: "ram_cache t = updated e s" "page_status_cache t = page_status_cache s" "cache_dirty t = cache_dirty s"
    using t(6) by (simp_all add: frame_def)
  have "emu_inv E pg ok Count p bs' es' t"
    using i t(2,4,7) stat rep c(2) pq fr by (simp add: inv_unfold cached_page_status_def updated_def)
  then show "\<exists>t bs' es'. write_internal E e False s = (WriteOk, t) \<and> emu_inv E pg ok Count p bs' es' t \<and>
      emu_log E bs' es' = emu_log E bs es @ [e] \<and> ram_cache t = updated e s \<and> cache_dirty t = cache_dirty s \<and>
      pg (hwa_state t) Factory = pg (hwa_state s) Factory"
    using t(1,3,7) fr pq by (intro exI [of _ t] exI [of _ bs'] exI [of _ es']) (simp add: emu_log_def fold_config)
qed

lemma inv_blocks: "emu_inv E pg ok Count p bs es s \<Longrightarrow> length bs \<le> m"
  using journal_length [of p bs es s] by (simp add: emu_inv_def)

lemma inv_write_guard:
  assumes "emu_inv E pg ok Count p bs es s" and "unat (entry_address e) < Count"
  shows "\<not> (entry_address e = RESERVED_STATUS_ADDRESS \<or> unat (entry_address e) \<ge> max_address s)"
  using assms count_bounds(2) address_not_reserved [of e Count] by (simp add: inv_unfold max_address_def)

text \<open>When the page is full the write goes through a transfer, and succeeds unless the
  transferred values leave no block free.\<close>

lemma inv_write_full:
  assumes inv: "emu_inv E pg ok Count p bs es s" and addr: "unat (entry_address e) < Count" and full: "length bs = m"
  shows "if values_stored (ram_cache s) \<le> (m - 4) * k
    then \<exists>t bs' es'. emu_write E e False s = (WriteOk, t) \<and> emu_inv E pg ok Count (other_page p) bs' es' t \<and>
      ram_cache t = updated e s \<and> \<not> cache_dirty t \<and> pg (hwa_state t) Factory = pg (hwa_state s) Factory
    else \<exists>t bs'. emu_write E e False s = (PageFull, t) \<and> emu_inv E pg ok Count (other_page p) bs' [] t \<and>
      length bs' = m \<and> ram_cache t = ram_cache s \<and> pg (hwa_state t) Factory = pg (hwa_state s) Factory"
proof -
  obtain u where u: "write_internal E e False s = (PageFull, u)" "frame s u" "ok (hwa_state u)" "\<not> write_block_dirty u"
    "pg (hwa_state u) = pg (hwa_state s)" using inv_write_internal(2) [OF inv addr full] by blast
  note i = inv [unfolded inv_unfold]
  obtain qs where qs: "fresh_page E qs (pg (hwa_state u) (other_page p))" "log_status (log_entries k qs) = Some Formatted"
    using i u(5) by auto
  then have one: "length qs = 1" by (cases qs) (auto simp: fresh_page_def)
  have ram: "length (ram_cache u) = Count" "ram_cache u = ram_cache s" using i u(2) by (simp_all add: frame_def)
  have st: "cached_page_status p u = Valid" "cached_page_status (other_page p) u \<noteq> Valid"
    using i u(2) by (simp_all add: frame_def cached_page_status_def)
  obtain t bs' where t: "page_transfer E u = (WriteOk, t)" "emu_inv E pg ok Count (other_page p) bs' [] t"
    "ram_cache t = ram_cache u" "\<not> cache_dirty t" "pg (hwa_state t) Factory = pg (hwa_state u) Factory"
    "(length qs + 2) * k + length (data_entries (ram_cache u) [0 ..< Count]) \<le> length bs' * k"
    "length bs' * k < (length qs + 2) * k + length (data_entries (ram_cache u) [0 ..< Count]) + k"
    using page_transfer_correct [OF u(3,4) ram(1) _ st qs(1)] i by blast
  have cnt: "3 * k + values_stored (ram_cache s) \<le> length bs' * k" "length bs' * k < 4 * k + values_stored (ram_cache s)"
    using t(6,7) one ram length_data_entries [OF ram(1)] by simp_all
  have go: "emu_write E e False s = write_internal E e False t"
    using inv_write_guard [OF inv addr] u(1) t(1) by (simp add: emu_write_def)
  have upd: "updated e t = updated e s" using t(3) ram(2) by (simp add: updated_def)
  have mk: "(m - 4) * k + 4 * k = m * k" using count_bounds(4) by (simp add: diff_mult_distrib)
  show ?thesis
  proof (cases "values_stored (ram_cache s) \<le> (m - 4) * k")
    case True
    then have "length bs' * k < m * k" using cnt(2) mk by linarith
    then have "length bs' < m" by simp
    then show ?thesis using inv_write_internal(1) [OF t(2) addr] go True upd t(4,5) u(5) by auto
  next
    case False
    have "(m - 1) * k = (m - 4) * k + 3 * k" using count_bounds(4) mk by (simp add: diff_mult_distrib)
    then have "(m - 1) * k < length bs' * k" using cnt(1) False by linarith
    then have "m - 1 < length bs'" by simp
    then have eq: "length bs' = m" using inv_blocks [OF t(2)] by linarith
    obtain v where v: "write_internal E e False t = (PageFull, v)" "frame t v" "pg (hwa_state v) = pg (hwa_state t)"
      "ok (hwa_state v)" "\<not> write_block_dirty v" "offset_ok E (other_page p) (length bs') 0 v"
      using inv_write_internal(2) [OF t(2) addr eq] by blast
    have "journal E pg ok (other_page p) bs' [] v"
      using v t(2) by (simp add: inv_unfold journal_frame_hw)
    then have "emu_inv E pg ok Count (other_page p) bs' [] v"
      using t(2) v(2,3,6) by (simp add: inv_unfold frame_def cached_page_status_def)
    then show ?thesis using v go False eq t(3,5) u(5) ram(2) by (auto simp: frame_def)
  qed
qed

end

end
