(* ===== verification/Emu_Durable.thy ===== *)
theory Emu_Durable
  imports Emu_Correct
begin

text \<open>
  What survives: flushing and rebooting, losing power with work pending, and the factory page.
  A reboot is \<open>emu_init\<close> on a fresh object (\<open>emu_new\<close>) over the flash the previous one left.
\<close>

context flash
begin

section \<open>Flush and reboot\<close>

lemma inv_emu_flush:
  assumes inv: "emu_inv E pg ok Count p bs es s"
  shows "\<exists>t p' bs'. emu_flush E s = (True, t) \<and> emu_inv E pg ok Count p' bs' [] t \<and> ram_cache t = ram_cache s \<and>
    \<not> cache_dirty t \<and> pg (hwa_state t) Factory = pg (hwa_state s) Factory \<and>
    (\<not> cache_dirty s \<longrightarrow> es = [] \<longrightarrow> bs' = bs)"
proof (cases "cache_dirty s")
  case True
  obtain t bs' where t: "page_transfer E s = (WriteOk, t)" "emu_inv E pg ok Count (other_page p) bs' [] t"
    "ram_cache t = ram_cache s" "\<not> cache_dirty t" "pg (hwa_state t) Factory = pg (hwa_state s) Factory"
    using inv_transfer [OF inv] by blast
  have "\<not> write_block_dirty t" using t(2) by (simp add: inv_unfold journal_frame_hw)
  then have "emu_flush E s = (True, t)" using True t(1) flush_clean by (simp add: emu_flush_def)
  then show ?thesis using t True by blast
next
  case False
  obtain t bs' where "flush_write_block E s = (True, t)" "emu_inv E pg ok Count p bs' [] t" "frame s t"
    "pg (hwa_state t) Factory = pg (hwa_state s) Factory" "es = [] \<longrightarrow> bs' = bs" using inv_flush [OF inv] by blast
  then show ?thesis using False by (auto simp: emu_flush_def frame_def)
qed

lemma inv_reboot:
  assumes inv: "emu_inv E pg ok Count p bs es s"
  shows "\<exists>t c. emu_init E (emu_new (hwa_state s) Count) = (True, t) \<and> emu_inv E pg ok Count p bs [] t \<and>
    ram_cache t = c \<and> replay (log_entries k bs) (replicate Count ERASED_VALUE) = Some c \<and> \<not> cache_dirty t \<and>
    pg (hwa_state t) Factory = pg (hwa_state s) Factory"
proof -
  note i = inv [unfolded inv_unfold]
  obtain c where c: "replay (log_entries k bs) (replicate Count ERASED_VALUE) = Some c"
    using i by (auto simp: replay_append split: option.splits)
  have v: "log_status (log_entries k bs) = Some Valid" using i by (intro log_status_prefix) auto
  have rep: "log_rep B N bs (pg (hwa_state s) p)" and hw: "ok (hwa_state s)" using i by (simp_all add: journal_def fold_config)
  show ?thesis using init_clean_correct [OF hw _ rep v c] i c by blast
qed

lemma inv_reboot_flushed:
  assumes "emu_inv E pg ok Count p bs [] s" and "\<not> cache_dirty s"
  shows "\<exists>t. emu_init E (emu_new (hwa_state s) Count) = (True, t) \<and> emu_inv E pg ok Count p bs [] t \<and> ram_cache t = ram_cache s \<and>
    pg (hwa_state t) Factory = pg (hwa_state s) Factory"
  using inv_reboot [OF assms(1)] assms by (auto simp: inv_unfold)

section \<open>The factory page\<close>

lemma copy_blocks_log:
  assumes "ok (hwa_state s)" and "src \<noteq> dst" and "log_rep B N bs (pg (hwa_state s) src)"
    and "log_rep B N (take i bs) (pg (hwa_state s) dst)" and "i \<le> length bs"
  shows "\<exists>h. copy_blocks E src dst (map (\<lambda>i. i * B) [i ..< m]) s = (True, s\<lparr>hwa_state := h\<rparr>) \<and> ok h \<and>
    log_rep B N bs (pg h dst) \<and> (\<forall>r. r \<noteq> dst \<longrightarrow> pg h r = pg (hwa_state s) r)"
  using assms
proof (induction "m - i" arbitrary: i s)
  case 0
  have "length bs \<le> m" using log_rep_bound [OF "0.prems"(3)] N_eq B_pos by simp
  then have "take i bs = bs" using 0 by simp
  then show ?case using 0 by (auto intro!: exI [of _ "hwa_state s"])
next
  case (Suc j)
  then have jm: "j = m - Suc i" and "i < m" by linarith+
  then have split: "[i ..< m] = i # [Suc i ..< m]" by (simp add: upt_conv_Cons)
  have fit: "i * B + B \<le> N" by (rule block_fits [OF \<open>i < m\<close>])
  obtain t where t: "call_read E src (i * B) B s = (Some (slice (i * B) B (pg (hwa_state s) src)), t)" "same_flash pg ok s t"
    by (rule call_readE [OF Suc.prems(1), where off = "i * B" and n = B and p = src]) (use fit B_pos in auto)
  obtain h where h: "t = s\<lparr>hwa_state := h\<rparr>" "ok h" "pg h = pg (hwa_state s)" using t(2) by (auto simp: same_flash_def)
  have blk: "slice (i * B) B (pg (hwa_state s) src) = (if i < length bs then bs ! i else replicate B ERASED_BYTE)"
    by (rule log_rep_block [OF Suc.prems(3) fit])
  show ?case
  proof (cases "i < length bs")
    case False
    then have "take i bs = bs" using Suc.prems(5) by simp
    then show ?thesis using t(1) h blk False Suc.prems(4) unfolding split
      by (intro exI [of _ h]) (simp add: fold_config)
  next
    case True
    have b: "length (bs ! i) = B" "\<not> all_erased (bs ! i)" using Suc.prems(3) True by (auto simp: log_rep_def)
    have len: "length (take i bs) = i" using True by simp
    have er: "all_erased (slice (i * B) B (pg (hwa_state t) dst))"
      using log_rep_block_erased [OF Suc.prems(4) fit] h len by simp
    obtain g where g: "call_write E dst (i * B) (bs ! i) t = (True, t\<lparr>hwa_state := g\<rparr>)" "ok g"
      "pg g = (pg (hwa_state t))(dst := overwrite (i * B) (bs ! i) (pg (hwa_state t) dst))"
      using call_writeE [of t "i * B" "bs ! i" dst] h(1,2) b(1) fit er by auto
    let ?u = "s\<lparr>hwa_state := g\<rparr>"
    have "log_rep B N (take i bs @ [bs ! i]) (pg g dst)"
      using log_rep_append [OF Suc.prems(4) _ b] fit g(3) h len by simp
    then have d: "log_rep B N (take (Suc i) bs) (pg (hwa_state ?u) dst)" using True by (simp add: take_Suc_conv_app_nth)
    have s: "log_rep B N bs (pg (hwa_state ?u) src)" using Suc.prems(2,3) g(3) h by simp
    obtain f where "copy_blocks E src dst (map (\<lambda>i. i * B) [Suc i ..< m]) ?u = (True, ?u\<lparr>hwa_state := f\<rparr>)" "ok f"
      "log_rep B N bs (pg f dst)" "\<forall>r. r \<noteq> dst \<longrightarrow> pg f r = pg (hwa_state ?u) r"
      using Suc.hyps(1) [of "Suc i" ?u, OF jm] Suc.prems(2) g(2) s d True by auto
    then show ?thesis using t(1) h g blk b True unfolding split
      by (intro exI [of _ f]) (simp add: fold_config)
  qed
qed

lemma steps_blocks: "steps N B = map (\<lambda>i. i * B) [0 ..< m]"
  using steps_dvd [OF B_pos, of m] N_eq by simp

lemma copy_page:
  assumes "ok (hwa_state s)" and "src \<noteq> dst" and "log_rep B N bs (pg (hwa_state s) src)"
    and "pg (hwa_state s) dst = replicate N ERASED_BYTE"
  shows "\<exists>h. copy_blocks E src dst (steps (page_size E) (write_block_size E)) s = (True, s\<lparr>hwa_state := h\<rparr>) \<and> ok h \<and>
    log_rep B N bs (pg h dst) \<and> (\<forall>r. r \<noteq> dst \<longrightarrow> pg h r = pg (hwa_state s) r)"
  using copy_blocks_log [OF assms(1-3), of 0] assms(4) log_rep_erased by (simp add: steps_blocks fold_config)

lemma store_to_factory_correct:
  assumes inv: "emu_inv E pg ok Count p bs es s"
  shows "\<exists>t p' bs'. store_to_factory E s = (True, t) \<and> emu_inv E pg ok Count p' bs' [] t \<and> ram_cache t = ram_cache s \<and>
    \<not> cache_dirty t \<and> log_rep B N bs' (pg (hwa_state t) Factory) \<and> (\<not> cache_dirty s \<longrightarrow> es = [] \<longrightarrow> bs' = bs)"
proof -
  obtain u p' bs' where u: "emu_flush E s = (True, u)" "emu_inv E pg ok Count p' bs' [] u" "ram_cache u = ram_cache s" "\<not> cache_dirty u"
    "\<not> cache_dirty s \<longrightarrow> es = [] \<longrightarrow> bs' = bs"
    using inv_emu_flush [OF inv] by blast
  note i = u(2) [unfolded inv_unfold journal_frame_hw]
  have p': "p' \<noteq> Factory" "other_page p' \<noteq> p'" using i other_page_neq by auto
  obtain h where h: "call_erase E Factory u = (True, u\<lparr>hwa_state := h\<rparr>)" "ok h"
    "pg h = (pg (hwa_state u))(Factory := replicate N ERASED_BYTE)" using call_eraseE [of u Factory] i by blast
  let ?v = "set_cached_page_status Factory Erased (u\<lparr>hwa_state := h\<rparr>)"
  have v: "ok (hwa_state ?v)" "log_rep B N bs' (pg (hwa_state ?v) p')" "pg (hwa_state ?v) Factory = replicate N ERASED_BYTE"
    using h i p' by (simp_all add: set_cached_page_status_def)
  obtain g where g: "copy_blocks E p' Factory (steps (page_size E) (write_block_size E)) ?v = (True, ?v\<lparr>hwa_state := g\<rparr>)" "ok g"
    "log_rep B N bs' (pg g Factory)" "\<forall>r. r \<noteq> Factory \<longrightarrow> pg g r = pg (hwa_state ?v) r"
    using copy_page [OF v(1) p'(1) v(2,3)] by blast
  define t where "t = set_cached_page_status Factory (cached_page_status p' (?v\<lparr>hwa_state := g\<rparr>)) (?v\<lparr>hwa_state := g\<rparr>)"
  have res: "store_to_factory E s = (True, t)"
    using u(1) inv_frame [OF u(2)] h(1) g(1) by (simp add: store_to_factory_def t_def)
  have tf: "hwa_state t = g" "ram_cache t = ram_cache u" "cache_dirty t = cache_dirty u" "write_block_dirty t = write_block_dirty u"
    "cached_next_write_offset t = cached_next_write_offset u" "r \<noteq> Factory \<Longrightarrow> cached_page_status r t = cached_page_status r u" for r
    by (simp_all add: t_def set_cached_page_status_def cached_page_status_def cached_next_write_offset_def)
  have same: "r \<noteq> Factory \<Longrightarrow> pg g r = pg (hwa_state u) r" for r using g(4) h(3) by (simp add: set_cached_page_status_def)
  have "emu_inv E pg ok Count p' bs' [] t"
    using i tf same [of p'] same [of "other_page p'"] p' g(2) unfolding inv_unfold journal_frame_hw offset_ok_def by simp
  then show ?thesis using res tf g(3) u(3-5) by (intro exI [of _ t] exI [of _ p'] exI [of _ bs']) simp
qed


text \<open>Restoring needs a free block for the status record it appends after the copied log.\<close>

lemma restore_from_factory_correct:
  assumes inv: "emu_inv E pg ok Count p bs es s" and fac: "log_rep B N fs (pg (hwa_state s) Factory)"
    and v: "log_status (log_entries k fs) = Some Valid"
    and c: "replay (log_entries k fs) (replicate Count ERASED_VALUE) = Some c"
  shows "length fs < m \<Longrightarrow> \<exists>t bs'. restore_from_factory E s = (True, t) \<and> emu_inv E pg ok Count Page1 bs' [] t \<and>
      ram_cache t = c \<and> pg (hwa_state t) Factory = pg (hwa_state s) Factory"
    and "length fs = m \<Longrightarrow> \<exists>t. restore_from_factory E s = (False, t) \<and>
      cached_page_status Page1 t = Erased \<and> cached_page_status Page2 t = Erased"
proof -
  note i = inv [unfolded inv_unfold]
  have hw: "ok (hwa_state s)" using i journal_ok by blast
  have "4 dvd N" using dvd_256_N by (rule dvd_trans [rotated]) simp
  then have bst: "bytes_status (pg (hwa_state s) Factory) = Some Valid"
    using bytes_status_log [of k N fs] fac v by (simp add: B_eq)
  have "find_valid_page OpWrite s \<noteq> Some Factory" using inv_frame [OF inv] i by auto
  then obtain t0 where t0: "refresh_page_status E Factory s = (True, set_cached_page_status Factory Valid t0)" "same_flash pg ok s t0"
    using refresh_page_status_eq [OF hw, of Factory] bst by auto
  let ?s0 = "clear_write_block (set_cached_page_status Factory Valid t0)" and ?e = "replicate N ERASED_BYTE"
  have s0: "ok (hwa_state ?s0)" "pg (hwa_state ?s0) = pg (hwa_state s)" "ram_cache ?s0 = ram_cache s" "\<not> write_block_dirty ?s0"
    using t0(2) by (auto simp: same_flash_def clear_write_block_def set_cached_page_status_def)
  obtain h1 where h1: "call_erase E Page1 ?s0 = (True, ?s0\<lparr>hwa_state := h1\<rparr>)" "ok h1" "pg h1 = (pg (hwa_state s))(Page1 := ?e)"
    using call_eraseE [OF s0(1), of Page1] s0(2) by auto
  let ?s1 = "set_cached_page_status Page1 Erased (?s0\<lparr>hwa_state := h1\<rparr>)"
  obtain h2 where h2: "call_erase E Page2 ?s1 = (True, ?s1\<lparr>hwa_state := h2\<rparr>)" "ok h2" "pg h2 = (pg h1)(Page2 := ?e)"
    using call_eraseE [of ?s1 Page2] h1(2) by (auto simp: set_cached_page_status_def)
  define s2 where "s2 = (fill_cache_erased (set_cached_page_status Page2 Erased (?s1\<lparr>hwa_state := h2\<rparr>)))\<lparr>cache_dirty := False\<rparr>"
  have s2: "hwa_state s2 = h2" "length (ram_cache s2) = Count" "\<not> write_block_dirty s2"
    "page_status_cache s2 = (page_status_cache ?s0)(Page1 := Erased, Page2 := Erased)"
    using s0 i by (simp_all add: s2_def fill_cache_erased_def set_cached_page_status_def)
  have pages: "log_rep B N fs (pg (hwa_state s2) Factory)" "pg (hwa_state s2) Page1 = ?e" "pg (hwa_state s2) Page2 = ?e"
    "pg (hwa_state s2) Factory = pg (hwa_state s) Factory"
    using fac h2(3) h1(3) s2(1) by simp_all
  obtain g where g: "copy_blocks E Factory Page1 (steps (page_size E) (write_block_size E)) s2 = (True, s2\<lparr>hwa_state := g\<rparr>)" "ok g"
    "log_rep B N fs (pg g Page1)" "\<forall>r. r \<noteq> Page1 \<longrightarrow> pg g r = pg (hwa_state s2) r"
    using copy_page [of s2 Factory Page1 fs] s2(1) h2(2) pages by auto
  let ?s3 = "s2\<lparr>hwa_state := g\<rparr>"
  have fv: "cached_page_status Factory (set_cached_page_status Factory Valid t0) = Valid"
    by (simp add: cached_page_status_def set_cached_page_status_def)
  have unf: "restore_from_factory E s = and_then (write_page_status E Page1 Valid ?s3) (\<lambda>s.
     and_then (write_page_status E Page2 Formatted s) (\<lambda>s. emu_cache E (set_cached_next_write_offset Page1 0 s)))"
    using t0(1) h1(1) h2(1) g(1) fv
    by (simp add: restore_from_factory_def Let_def s2_def)
  show "\<exists>t. restore_from_factory E s = (False, t) \<and> cached_page_status Page1 t = Erased \<and> cached_page_status Page2 t = Erased"
    if full: "length fs = m"
  proof -
    have "page_blocks B (pg (hwa_state ?s3) Page1) = fs" using g(3) log_rep_page_blocks [OF _ B_pos B_dvd_N] by simp
    then have "first_erased (pg (hwa_state ?s3) Page1) = None" using full by (simp add: first_erased_def)
    moreover obtain t where "find_next_free_offset E Page1 ?s3 = (first_erased (pg (hwa_state ?s3) Page1), t)" "same_flash pg ok ?s3 t"
      using find_next_free_offset_eq [of ?s3 Page1] g(2) by auto
    ultimately have "write_page_status E Page1 Valid ?s3 = (False, t)" "same_flash pg ok ?s3 t"
      using flush_clean [of ?s3] s2(3) by (simp_all add: write_page_status_def)
    then show ?thesis using unf s2(4) by (auto simp: same_flash_def cached_page_status_def)
  qed
  assume room: "length fs < m"
  have r3: "log_rep B N fs (pg (hwa_state ?s3) Page1)" using g(3) by simp
  obtain s4 bs' where s4: "write_page_status E Page1 Valid ?s3 = (True, s4)" "ok (hwa_state s4)"
    "log_rep B N bs' (pg (hwa_state s4) Page1)" "log_entries k bs' = log_entries k fs @ [status_entry Valid]"
    "\<not> write_block_dirty s4" "\<forall>r. r \<noteq> Page1 \<longrightarrow> pg (hwa_state s4) r = pg (hwa_state ?s3) r"
    "ram_cache s4 = ram_cache ?s3" "page_status_cache s4 = (page_status_cache ?s3)(Page1 := Valid)"
    using write_page_status_journal [OF _ r3 room, of Valid] g(2) s2(3) by auto
  have e2: "log_rep B N [] (pg (hwa_state s4) Page2)" using s4(6) g(4) pages(3) log_rep_erased by simp
  obtain s5 qs where s5: "write_page_status E Page2 Formatted s4 = (True, s5)" "ok (hwa_state s5)"
    "log_rep B N qs (pg (hwa_state s5) Page2)" "log_entries k qs = [status_entry Formatted]" "length qs = 1"
    "\<not> write_block_dirty s5" "\<forall>r. r \<noteq> Page2 \<longrightarrow> pg (hwa_state s5) r = pg (hwa_state s4) r"
    "ram_cache s5 = ram_cache s4" "page_status_cache s5 = (page_status_cache s4)(Page2 := Formatted)"
    using write_page_status_journal [OF s4(2) e2 _ s4(5), of Formatted] m_pos by auto
  let ?s6 = "set_cached_next_write_offset Page1 0 s5"
  have s6: "ok (hwa_state ?s6)" "length (ram_cache ?s6) = Count" "cached_page_status Page1 ?s6 = Valid"
    "cached_page_status (other_page Page1) ?s6 = Formatted" "log_rep B N bs' (pg (hwa_state ?s6) Page1)"
    "fresh_page E qs (pg (hwa_state ?s6) (other_page Page1))"
    using s5 s4 s2(2) by (simp_all add: set_cached_next_write_offset_def cached_page_status_def fresh_page_def fold_config)
  have "log_status (log_entries k bs') = Some Valid" "log_status (log_entries k qs) = Some Formatted"
    "replay (log_entries k bs') (replicate Count ERASED_VALUE) = Some c"
    using s4(4) s5(4) c by (simp_all add: replay_append)
  then obtain t where t: "emu_cache E ?s6 = (True, t)" "emu_inv E pg ok Count Page1 bs' [] t" "ram_cache t = c"
    "pg (hwa_state t) = pg (hwa_state ?s6)"
    using cache_clean [OF s6(1,2) _ s6(3-5) _ _ s6(6)] by blast
  have "pg (hwa_state t) Factory = pg (hwa_state s) Factory"
    using t(4) s5(7) s4(6) g(4) pages(4) by (simp add: set_cached_next_write_offset_def)
  then show "\<exists>t bs'. restore_from_factory E s = (True, t) \<and> emu_inv E pg ok Count Page1 bs' [] t \<and>
      ram_cache t = c \<and> pg (hwa_state t) Factory = pg (hwa_state s) Factory"
    using unf s4(1) s5(1) t by (intro exI [of _ t] exI [of _ bs']) simp
qed

end

end
