(* ===== verification/Emu_Test_Flash.thy ===== *)
theory Emu_Test_Flash
  imports Emu_Durable
begin

text \<open>
  The flash backend of the test suite, \<open>HwaTestBase\<close> in \<open>emueeprom_buffer_test.cpp\<close>: three
  pages of bytes in memory, the flash rule that a write cannot turn a 0 bit into 1, and
  injected failures. Without injected failures it satisfies the contract \<open>flash\<close>, for the two
  write-block sizes the suite instantiates.
\<close>

definition PAGE_SIZE :: nat where [simp]: "PAGE_SIZE = 256"

record hwa_test =
  fail_init :: bool
  fail_erase_page :: "page option"
  fail_read_page :: "page option"
  fail_read_offset :: "nat option"
  fail_write_page :: "page option"
  fail_write_offset :: "nat option"
  page_array :: "page \<Rightarrow> u8 list"
  page_erase_counter :: nat
  max_read_size :: nat

definition hwa_test_new :: hwa_test where
  "hwa_test_new =
     \<lparr>fail_init = False, fail_erase_page = None, fail_read_page = None, fail_read_offset = None,
      fail_write_page = None, fail_write_offset = None,
      page_array = (\<lambda>_. replicate PAGE_SIZE 0), page_erase_counter = 0, max_read_size = 0\<rparr>"

definition should_fail_read :: "page \<Rightarrow> nat \<Rightarrow> hwa_test \<Rightarrow> bool" where
  "should_fail_read p offset h \<longleftrightarrow>
     fail_read_page h = Some p \<and> (fail_read_offset h = None \<or> fail_read_offset h = Some offset)"

definition should_fail_write :: "page \<Rightarrow> nat \<Rightarrow> hwa_test \<Rightarrow> bool" where
  "should_fail_write p offset h \<longleftrightarrow>
     fail_write_page h = Some p \<and> (fail_write_offset h = None \<or> fail_write_offset h = Some offset)"

definition test_init :: "hwa_test \<Rightarrow> bool \<times> hwa_test" where
  "test_init h = (\<not> fail_init h, h)"

definition erase_raw_page :: "page \<Rightarrow> hwa_test \<Rightarrow> hwa_test" where
  "erase_raw_page p h =
     h\<lparr>page_array := (page_array h)(p := replicate (length (page_array h p)) 0xFF)\<rparr>"

definition test_erase_page :: "page \<Rightarrow> hwa_test \<Rightarrow> bool \<times> hwa_test" where
  "test_erase_page p h =
     (if fail_erase_page h = Some p then (False, h)
      else let h = erase_raw_page p h in (True, h\<lparr>page_erase_counter := page_erase_counter h + 1\<rparr>))"

definition test_write :: "nat \<Rightarrow> page \<Rightarrow> nat \<Rightarrow> u8 list \<Rightarrow> hwa_test \<Rightarrow> bool \<times> hwa_test" where
  "test_write WRITE_BLOCK_SIZE p offset data h =
     (if should_fail_write p offset h then (False, h)
      else let page_data = page_array h p in
      if length data \<noteq> WRITE_BLOCK_SIZE \<or> offset mod WRITE_BLOCK_SIZE \<noteq> 0 \<or>
         offset + length data > length page_data then (False, h)
      else if list_ex (\<lambda>i. data ! i OR page_data ! (offset + i) \<noteq> page_data ! (offset + i)) [0 ..< length data]
      then (False, h)
      else (True, h\<lparr>page_array := (page_array h)(p := overwrite offset data page_data)\<rparr>))"

definition test_read :: "nat \<Rightarrow> page \<Rightarrow> nat \<Rightarrow> u8 list \<Rightarrow> hwa_test \<Rightarrow> bool \<times> u8 list \<times> hwa_test" where
  "test_read WRITE_BLOCK_SIZE p offset data h =
     (if should_fail_read p offset h then (False, data, h)
      else let page_data = page_array h p in
      if data = [] \<or> length data mod WRITE_BLOCK_SIZE \<noteq> 0 \<or> offset mod WRITE_BLOCK_SIZE \<noteq> 0 \<or>
         offset + length data > length page_data then (False, data, h)
      else (True, slice offset (length data) page_data, h\<lparr>max_read_size := max (max_read_size h) (length data)\<rparr>))"

definition test_env :: "nat \<Rightarrow> hwa_test emu_env" where
  "test_env WRITE_BLOCK_SIZE =
     \<lparr>hwa_init = test_init, hwa_erase_page = test_erase_page, hwa_write = test_write WRITE_BLOCK_SIZE,
      hwa_read = test_read WRITE_BLOCK_SIZE, page_size = PAGE_SIZE, write_block_size = WRITE_BLOCK_SIZE\<rparr>"

text \<open>No failure injected, and pages of the right size.\<close>

definition test_ok :: "hwa_test \<Rightarrow> bool" where
  "test_ok h \<longleftrightarrow> \<not> fail_init h \<and> fail_erase_page h = None \<and> fail_read_page h = None \<and> fail_write_page h = None \<and>
     (\<forall>p. length (page_array h p) = PAGE_SIZE)"

lemma test_new_ok [simp]: "test_ok hwa_test_new"
  by (simp add: test_ok_def hwa_test_new_def)

lemma erased_accepts_write:
  assumes "all_erased (slice off n xs)" and "off + n \<le> length xs" and "i < n"
  shows "xs ! (off + i) = 0xFF"
proof -
  have "slice off n xs ! i = ERASED_BYTE"
    using assms all_erased_iff [of "slice off n xs"] by (metis length_slice min.absorb1 add_le_imp_le_diff add.commute nth_replicate)
  then show ?thesis using assms by (simp add: nth_slice ERASED_BYTE_eq)
qed

lemma or_erased: "(x :: u8) OR 0xFF = 0xFF"
proof -
  have "(0xFF :: u8) = - 1" by simp
  then show ?thesis by (simp only: bit.disj_one_right)
qed

lemma test_flash:
  assumes "emu_config PAGE_SIZE W Count"
  shows "flash (test_env W) page_array test_ok Count"
proof
  show "emu_config (page_size (test_env W)) (write_block_size (test_env W)) Count"
    using assms by (simp add: test_env_def)
  show "page_size (test_env W) < 2 ^ 32" by (simp add: test_env_def)
  show "test_ok h \<Longrightarrow> length (page_array h p) = page_size (test_env W)" for h p
    by (simp add: test_ok_def test_env_def)
  show "test_ok h \<Longrightarrow> \<exists>h'. hwa_init (test_env W) h = (True, h') \<and> test_ok h' \<and> page_array h' = page_array h" for h
    by (simp add: test_env_def test_init_def test_ok_def)
  show "test_ok h \<Longrightarrow> \<exists>h'. hwa_erase_page (test_env W) p h = (True, h') \<and> test_ok h' \<and>
      page_array h' = (page_array h)(p := replicate (page_size (test_env W)) ERASED_BYTE)" for h p
    by (simp add: test_env_def test_erase_page_def test_ok_def erase_raw_page_def ERASED_BYTE_eq)
  show "\<exists>h'. hwa_read (test_env W) p off buf h = (True, slice off (length buf) (page_array h p), h') \<and>
      test_ok h' \<and> page_array h' = page_array h"
    if "test_ok h" "write_block_size (test_env W) dvd off" "write_block_size (test_env W) dvd length buf"
      "buf \<noteq> []" "off + length buf \<le> page_size (test_env W)" for h p off buf
    using that by (auto simp: test_env_def test_read_def test_ok_def should_fail_read_def Let_def)
  show "\<exists>h'. hwa_write (test_env W) p off data h = (True, h') \<and> test_ok h' \<and>
      page_array h' = (page_array h)(p := overwrite off data (page_array h p))"
    if "test_ok h" "write_block_size (test_env W) dvd off" "length data = write_block_size (test_env W)"
      "off + write_block_size (test_env W) \<le> page_size (test_env W)"
      "all_erased (slice off (write_block_size (test_env W)) (page_array h p))" for h p off data
  proof -
    have len: "length (page_array h p) = 256" using that(1) by (simp add: test_ok_def)
    have "\<not> list_ex (\<lambda>i. data ! i OR page_array h p ! (off + i) \<noteq> page_array h p ! (off + i)) [0 ..< length data]"
      using erased_accepts_write [of off W "page_array h p"] that(3-5) len or_erased
      by (auto simp: list_ex_iff test_env_def)
    then show ?thesis using that len
      by (auto simp: test_env_def test_write_def test_ok_def should_fail_write_def Let_def)
  qed
qed

interpretation test4: flash "test_env 4" page_array test_ok 61
  by (rule test_flash) (simp add: emu_config_def address_count_for_def model_defs)

interpretation test8: flash "test_env 8" page_array test_ok 58
  by (rule test_flash) (simp add: emu_config_def address_count_for_def model_defs)

end
