(* ===== verification/Emu_Status.thy ===== *)
theory Emu_Status
  imports Emu_Correct
begin

text \<open>
  What \<open>init\<close> guarantees whatever the backend does: no contract on the flash is assumed here,
  every call may fail, and reads may return anything. The lemmas track the cached page states
  through each operation.
\<close>

section \<open>Operations that leave the cached page states alone\<close>

named_theorems statuses "effect of an operation on the cached page states"

lemma call_statuses [statuses]:
  "page_status_cache (snd (call_read E p off n s)) = page_status_cache s"
  "page_status_cache (snd (call_write E p off d s)) = page_status_cache s"
  "page_status_cache (snd (call_erase E p s)) = page_status_cache s"
  by (simp_all add: call_read_def call_write_def call_erase_def split: prod.splits)

lemma setter_statuses [statuses]:
  "page_status_cache (clear_write_block s) = page_status_cache s"
  "page_status_cache (set_cached_next_write_offset p off s) = page_status_cache s"
  "page_status_cache (fill_cache_erased s) = page_status_cache s"
  "page_status_cache (set_cached_page_status p st s) = (page_status_cache s)(p := st)"
  by (simp_all add: clear_write_block_def set_cached_next_write_offset_def fill_cache_erased_def set_cached_page_status_def)

text \<open>The facts above in the form \<open>op s = (r, t)\<close> that case analyses produce.\<close>

lemma call_statusesD:
  "call_read E p off n s = (d, t) \<Longrightarrow> page_status_cache t = page_status_cache s"
  "call_write E p off w s = (b, t) \<Longrightarrow> page_status_cache t = page_status_cache s"
  "call_erase E p s = (b, t) \<Longrightarrow> page_status_cache t = page_status_cache s"
  using call_statuses by (metis snd_conv)+

lemma flush_statuses: "flush_write_block E s = (b, t) \<Longrightarrow> page_status_cache t = page_status_cache s"
  by (auto simp: flush_write_block_def and_then_def Let_def statuses dest: call_statusesD split: if_splits prod.splits)

lemma write_entry_statuses: "write_entry E p off e s = (st, t) \<Longrightarrow> page_status_cache t = page_status_cache s"
  by (auto simp: write_entry_def Let_def dest!: flush_statuses split: if_splits prod.splits bool.splits)

lemma scan_erased_statuses: "scan_erased E p rs s = (r, t) \<Longrightarrow> page_status_cache t = page_status_cache s"
  by (induction rs arbitrary: s) (auto dest: call_statusesD split: prod.splits option.splits)

lemma find_next_statuses: "find_next_free_offset E p s = (r, t) \<Longrightarrow> page_status_cache t = page_status_cache s"
  by (auto simp: find_next_free_offset_def dest: scan_erased_statuses split: prod.splits option.splits)

lemma refresh_offset_statuses: "refresh_next_write_offset E p s = (r, t) \<Longrightarrow> page_status_cache t = page_status_cache s"
  by (auto simp: refresh_next_write_offset_def statuses dest: scan_erased_statuses split: prod.splits option.splits)

lemma write_internal_statuses: "write_internal E e c s = (st, t) \<Longrightarrow> page_status_cache t = page_status_cache s"
  by (auto simp: write_internal_def Let_def statuses dest!: write_entry_statuses refresh_offset_statuses
      split: if_splits prod.splits option.splits bool.splits simp del: find_valid_page.simps)

lemma transfer_entries_statuses: "transfer_entries E as s = (st, t) \<Longrightarrow> page_status_cache t = page_status_cache s"
  by (induction as arbitrary: s) (auto dest!: write_internal_statuses split: if_splits prod.splits)

lemma cache_entries_statuses: "cache_entries blk is s = (b, t) \<Longrightarrow> page_status_cache t = page_status_cache s"
  by (induction "is" arbitrary: s) (auto simp: Let_def split: if_splits)

lemma cache_block_statuses: "cache_read_block E p r buf ws s = (b, t) \<Longrightarrow> page_status_cache t = page_status_cache s"
  by (induction ws arbitrary: s)
    (auto simp: Let_def statuses dest!: cache_entries_statuses split: if_splits prod.splits bool.splits)

lemma cache_page_statuses: "cache_page E p rs s = (b, t) \<Longrightarrow> page_status_cache t = page_status_cache s"
  by (induction rs arbitrary: s)
    (auto simp: statuses dest!: call_statusesD(1) cache_block_statuses split: prod.splits option.splits bool.splits)

lemma emu_cache_statuses: "emu_cache E s = (b, t) \<Longrightarrow> page_status_cache t = page_status_cache s"
  by (auto simp: emu_cache_def Let_def statuses dest!: cache_page_statuses split: option.splits simp del: find_valid_page.simps)

section \<open>Operations that record a page state\<close>

lemma write_page_status_statuses:
  assumes "write_page_status E p st s = (True, t)"
  shows "page_status_cache t = (page_status_cache s)(p := st)"
proof -
  obtain u where u: "flush_write_block E s = (True, u)" and rest: "(case find_next_free_offset E p u of
       (None, s) \<Rightarrow> (False, s)
     | (Some offset, s) \<Rightarrow>
         (case write_entry E p offset (make_entry RESERVED_STATUS_ADDRESS (serialize_page_status st)) s of
            (st', s) \<Rightarrow> if st' \<noteq> WriteOk then (False, s)
              else and_then (flush_write_block E s) (\<lambda>s.
                let cached_write_offset = cached_next_write_offset s;
                    s = (if nwo_page cached_write_offset = p
                         then set_cached_next_write_offset p
                                (min ((offset div write_block_size E) * write_block_size E + write_block_size E)
                                   (page_size E)) s
                         else s)
                in (True, set_cached_page_status p st s)))) = (True, t)"
    using assms unfolding write_page_status_def and_then_eq_True by blast
  obtain off v where v: "find_next_free_offset E p u = (Some off, v)"
    using rest by (auto split: prod.splits option.splits)
  obtain w where w: "write_entry E p off (make_entry RESERVED_STATUS_ADDRESS (serialize_page_status st)) v = (WriteOk, w)"
    using rest v by (auto split: prod.splits if_splits)
  obtain x where x: "flush_write_block E w = (True, x)" "page_status_cache t = (page_status_cache x)(p := st)"
    using rest v w by (auto simp: and_then_eq_True Let_def statuses split: if_splits)
  show ?thesis using x(2) flush_statuses [OF x(1)] write_entry_statuses [OF w] find_next_statuses [OF v] flush_statuses [OF u]
    by (auto simp: statuses)
qed

definition steady :: "'h emu \<Rightarrow> bool" where
  "steady s \<longleftrightarrow> (\<exists>p. (p = Page1 \<or> p = Page2) \<and> cached_page_status p s = Valid \<and>
     cached_page_status (other_page p) s = Formatted)"

lemma steady_cong: "page_status_cache t = page_status_cache s \<Longrightarrow> steady t = steady s"
  by (simp add: steady_def cached_page_status_def)

lemma emu_format_steady: "emu_format E f s = (True, t) \<Longrightarrow> steady t"
  unfolding emu_format_def Let_def and_then_eq_True
  by (auto simp: statuses steady_def cached_page_status_def dest!: write_page_status_statuses
      intro!: exI [of _ Page1] split: if_splits)

lemma page_transfer_steady:
  assumes "page_transfer E s = (WriteOk, t)"
  shows "steady t"
proof -
  obtain u p where p: "flush_write_block E s = (True, u)" "find_valid_page OpRead u = Some p" "p = Page1 \<or> p = Page2"
    using assms unfolding page_transfer_def
    by (auto split: prod.splits bool.splits option.splits if_splits simp del: find_valid_page.simps)
  have np: "(if p = Page2 then Page1 else Page2) = other_page p" by (simp add: other_page_def)
  obtain s1 s3 v where v: "write_page_status E (other_page p) Receiving u = (True, s1)"
    "transfer_entries E [0 ..< max_address s1] (set_cached_next_write_offset (other_page p) 0 s1) = (WriteOk, s3)"
    "and_then (flush_write_block E s3) (\<lambda>s. and_then (call_erase E p s) (\<lambda>s.
       and_then (write_page_status E p Formatted s) (\<lambda>s.
       and_then (write_page_status E (other_page p) Valid s) (emu_cache E)))) = (True, v)" "t = v\<lparr>cache_dirty := False\<rparr>"
    using assms p unfolding page_transfer_def Let_def
    by (auto simp: np split: prod.splits bool.splits option.splits if_splits simp del: find_valid_page.simps)
  obtain w1 w2 where w: "write_page_status E p Formatted w1 = (True, w2)"
    "\<exists>w3. write_page_status E (other_page p) Valid w2 = (True, w3) \<and> emu_cache E w3 = (True, v)"
    using v(3) unfolding and_then_eq_True by blast
  then obtain w3 where w3: "write_page_status E (other_page p) Valid w2 = (True, w3)" "emu_cache E w3 = (True, v)" by blast
  have "page_status_cache t = (page_status_cache w1)(p := Formatted, other_page p := Valid)"
    using write_page_status_statuses [OF w(1)] write_page_status_statuses [OF w3(1)] emu_cache_statuses [OF w3(2)] v(4)
    by simp
  then show ?thesis using p(3) other_page_neq [OF p(3)]
    by (auto simp: steady_def cached_page_status_def intro!: exI [of _ "other_page p"])
qed

lemma emu_cache_steady: "emu_cache E s = (b, t) \<Longrightarrow> steady s \<Longrightarrow> steady t"
  using emu_cache_statuses steady_cong by blast

lemma init_done_steady: "init_done E c s = (True, t) \<Longrightarrow> steady s \<Longrightarrow> steady t"
  unfolding init_done_def
  by (auto dest: emu_cache_steady emu_format_steady split: if_split_asm prod.split_asm bool.split_asm)

lemma init_format_steady: "init_format E c s = (True, t) \<Longrightarrow> steady t"
  by (auto simp: init_format_def and_then_eq_True dest: emu_format_steady init_done_steady)

lemma init_receiving_steady:
  assumes "init_receiving E p s = (True, t)" shows "steady t"
proof -
  obtain u where u: "(case emu_cache E u of (False, s) \<Rightarrow> init_format E False s
     | (True, s) \<Rightarrow> (case page_transfer E s of
            (status, s) \<Rightarrow> if status \<noteq> WriteOk then init_format E False s else init_done E False s)) = (True, t)"
    using assms unfolding init_receiving_def and_then_eq_True by blast
  obtain b v where v: "emu_cache E u = (b, v)" by (cases "emu_cache E u")
  obtain st w where w: "page_transfer E v = (st, w)" by (cases "page_transfer E v")
  show ?thesis
    using u v w init_format_steady [of E False v t] init_format_steady [of E False w t] init_done_steady [of E False w t]
      page_transfer_steady [of E v w]
    by (cases b) (auto split: if_split_asm)
qed

lemma init_reformat_steady:
  assumes "init_reformat E (other_page p) s = (True, t)" and "p = Page1 \<or> p = Page2" and "cached_page_status p s = Valid"
  shows "steady t"
proof -
  obtain u v where u: "call_erase E (other_page p) s = (True, u)" "write_page_status E (other_page p) Formatted u = (True, v)"
    "init_done E True v = (True, t)" using assms(1) by (auto simp: init_reformat_def and_then_eq_True)
  have "page_status_cache v = (page_status_cache s)(other_page p := Formatted)"
    using write_page_status_statuses [OF u(2)] call_statusesD(3) [OF u(1)] by simp
  then have "steady v" using assms(2,3) other_page_neq [OF assms(2)]
    by (auto simp: steady_def cached_page_status_def intro!: exI [of _ p])
  then show ?thesis by (rule init_done_steady [OF u(3)])
qed

lemma init_repair_steady:
  assumes "init_repair E s = (True, t)" shows "steady t"
proof -
  note r = assms [unfolded init_repair_def Let_def]
  have st: "cached_page_status p s = Valid \<Longrightarrow> cached_page_status (other_page p) s = Formatted \<Longrightarrow>
      p = Page1 \<or> p = Page2 \<Longrightarrow> steady s" for p by (auto simp: steady_def)
  show ?thesis
    using r init_reformat_steady [of E Page1 s t] init_reformat_steady [of E Page2 s t]
      init_done_steady [of E True s t] st [of Page1] st [of Page2]
    by (auto dest: init_format_steady init_receiving_steady split: page_status.splits if_splits)
qed

lemma emu_init_steady: "emu_init E s = (True, t) \<Longrightarrow> steady t"
  by (auto simp: emu_init_def and_then_eq_True Let_def dest: init_repair_steady)

end
