(* ===== verification/Emu_Properties.thy ===== *)
theory Emu_Properties
  imports Emu_Test_Flash Emu_Status
begin

text \<open>
  The properties of the emulated EEPROM. Those about data assume the flash contract \<open>flash\<close>;
  their witnesses use the flash of the test suite (\<open>test_env\<close>). A client's session is a list of
  \<open>emu_op\<close>, and its specification is an array of values that every accepted write updates.
\<close>

section \<open>Client sessions and their specification\<close>

datatype emu_op = Put entry bool | Flush | Transfer | Reboot

text \<open>\<open>Reboot\<close> flushes, then starts a fresh object on the same flash.\<close>

fun emu_step :: "'h emu_env \<Rightarrow> nat \<Rightarrow> emu_op \<Rightarrow> 'h emu \<Rightarrow> bool \<times> 'h emu" where
  "emu_step E Count (Put e cache_only) s = (case emu_write E e cache_only s of (st, s) \<Rightarrow> (st = WriteOk, s))"
| "emu_step E Count Flush s = emu_flush E s"
| "emu_step E Count Transfer s = (case page_transfer E s of (st, s) \<Rightarrow> (st = WriteOk, s))"
| "emu_step E Count Reboot s = and_then (emu_flush E s) (\<lambda>s. emu_init E (emu_new (hwa_state s) Count))"

fun emu_run :: "'h emu_env \<Rightarrow> nat \<Rightarrow> emu_op list \<Rightarrow> 'h emu \<Rightarrow> bool list \<times> 'h emu" where
  "emu_run E Count [] s = ([], s)"
| "emu_run E Count (x # xs) s =
     (case emu_step E Count x s of (ok, s) \<Rightarrow> case emu_run E Count xs s of (oks, s) \<Rightarrow> (ok # oks, s))"

fun spec_step :: "emu_op \<Rightarrow> bool \<Rightarrow> u16 list \<Rightarrow> u16 list" where
  "spec_step (Put e cache_only) True c = c[unat (entry_address e) := entry_value e]"
| "spec_step _ _ c = c"

fun spec_run :: "emu_op list \<Rightarrow> bool list \<Rightarrow> u16 list \<Rightarrow> u16 list" where
  "spec_run (x # xs) (b # bs) c = spec_run xs bs (spec_step x b c)"
| "spec_run _ _ c = c"

definition emu_session :: "'h emu_env \<Rightarrow> ('h \<Rightarrow> page \<Rightarrow> u8 list) \<Rightarrow> ('h \<Rightarrow> bool) \<Rightarrow> nat \<Rightarrow> 'h emu \<Rightarrow> bool" where
  "emu_session E pg ok Count s \<longleftrightarrow> (\<exists>p bs es. emu_inv E pg ok Count p bs es s)"

text \<open>An answer other than success is only ever given to a write: to an address out of range,
  or when the stored values leave no free block.\<close>

fun refusal_allowed :: "nat \<Rightarrow> emu_op \<Rightarrow> bool" where
  "refusal_allowed Count (Put e cache_only) = (unat (entry_address e) \<ge> Count \<or> \<not> cache_only)"
| "refusal_allowed Count _ = False"

context flash
begin

lemma session_I: "emu_inv E pg ok Count p bs es s \<Longrightarrow> emu_session E pg ok Count s"
  by (auto simp: emu_session_def)

lemma inv_cache_only: "emu_inv E pg ok Count p bs es s \<Longrightarrow> length c = Count \<Longrightarrow>
  emu_inv E pg ok Count p bs es (s\<lparr>ram_cache := c, cache_dirty := True\<rparr>)"
  unfolding emu_inv_def cached_page_status_def journal_def pending_def offset_ok_def cached_next_write_offset_def
  by auto

lemma out_of_range:
  "emu_inv E pg ok Count p bs es s \<Longrightarrow> Count \<le> unat (entry_address e) \<Longrightarrow> emu_write E e c s = (WriteError, s)"
  using count_bounds(2) by (simp add: emu_write_def emu_inv_def max_address_def)

lemma put_session:
  assumes inv: "emu_inv E pg ok Count p bs es s"
  shows "\<exists>b t. emu_step E Count (Put e c) s = (b, t) \<and> emu_session E pg ok Count t \<and> ram_cache t = spec_step (Put e c) b (ram_cache s) \<and>
    pg (hwa_state t) Factory = pg (hwa_state s) Factory \<and> (b \<or> refusal_allowed Count (Put e c))"
proof (cases "unat (entry_address e) < Count")
  case False
  then show ?thesis using out_of_range [OF inv] session_I [OF inv]
    by (intro exI [of _ False] exI [of _ s]) simp
next
  case addr: True
  note guard = inv_write_guard [OF inv addr]
  have len: "length (ram_cache s) = Count" using inv by (simp add: emu_inv_def)
  show ?thesis
  proof (cases c)
    case True
    let ?t = "s\<lparr>ram_cache := updated e s, cache_dirty := True\<rparr>"
    have "emu_write E e c s = (WriteOk, ?t)"
      using guard True by (simp add: emu_write_def write_internal_def updated_def)
    moreover have "emu_session E pg ok Count ?t"
      by (rule session_I [OF inv_cache_only [OF inv]]) (simp add: updated_def len)
    ultimately show ?thesis by (intro exI [of _ True] exI [of _ ?t]) (simp add: updated_def)
  next
    case False
    consider "length bs < m" | "length bs = m" using inv_blocks [OF inv] by linarith
    then show ?thesis
    proof cases
      case 1
      then obtain t bs' es' where t: "write_internal E e False s = (WriteOk, t)" "emu_inv E pg ok Count p bs' es' t"
        "ram_cache t = updated e s" "pg (hwa_state t) Factory = pg (hwa_state s) Factory"
        using inv_write_internal(1) [OF inv addr] by blast
      then show ?thesis using guard False session_I [OF t(2)]
        by (intro exI [of _ True] exI [of _ t]) (simp add: emu_write_def updated_def)
    next
      case 2
      show ?thesis
      proof (cases "values_stored (ram_cache s) \<le> (m - 4) * k")
        case True
        then obtain t bs' es' where t: "emu_write E e False s = (WriteOk, t)" "emu_inv E pg ok Count (other_page p) bs' es' t"
          "ram_cache t = updated e s" "pg (hwa_state t) Factory = pg (hwa_state s) Factory"
          using inv_write_full [OF inv addr 2] by auto
        then show ?thesis using False session_I [OF t(2)]
          by (intro exI [of _ True] exI [of _ t]) (simp add: updated_def)
      next
        case full: False
        then obtain t bs' where t: "emu_write E e False s = (PageFull, t)" "emu_inv E pg ok Count (other_page p) bs' [] t"
          "ram_cache t = ram_cache s" "pg (hwa_state t) Factory = pg (hwa_state s) Factory"
          using inv_write_full [OF inv addr 2] by auto
        then show ?thesis using False session_I [OF t(2)]
          by (intro exI [of _ False] exI [of _ t]) simp
      qed
    qed
  qed
qed

lemma session_step:
  assumes "emu_session E pg ok Count s"
  shows "\<exists>b t. emu_step E Count x s = (b, t) \<and> emu_session E pg ok Count t \<and> ram_cache t = spec_step x b (ram_cache s) \<and>
    (b \<or> refusal_allowed Count x) \<and> pg (hwa_state t) Factory = pg (hwa_state s) Factory"
proof -
  obtain p bs es where inv: "emu_inv E pg ok Count p bs es s" using assms by (auto simp: emu_session_def)
  obtain f q fs where f: "emu_flush E s = (True, f)" "emu_inv E pg ok Count q fs [] f" "ram_cache f = ram_cache s"
    "\<not> cache_dirty f" "pg (hwa_state f) Factory = pg (hwa_state s) Factory" using inv_emu_flush [OF inv] by blast
  show ?thesis
  proof (cases x)
    case (Put e c)
    then show ?thesis using put_session [OF inv] by blast
  next
    case Flush
    then show ?thesis using f session_I [OF f(2)] by (intro exI [of _ True] exI [of _ f]) simp
  next
    case Transfer
    then show ?thesis using inv_transfer [OF inv] session_I by fastforce
  next
    case Reboot
    obtain t where t: "emu_init E (emu_new (hwa_state f) Count) = (True, t)" "emu_inv E pg ok Count q fs [] t" "ram_cache t = ram_cache f"
      "pg (hwa_state t) Factory = pg (hwa_state f) Factory"
      using inv_reboot_flushed [OF f(2,4)] by blast
    then show ?thesis using Reboot f session_I [OF t(2)] by (intro exI [of _ True] exI [of _ t]) simp
  qed
qed


lemma session_run:
  assumes "emu_session E pg ok Count s"
  shows "\<exists>rs t. emu_run E Count xs s = (rs, t) \<and> emu_session E pg ok Count t \<and> ram_cache t = spec_run xs rs (ram_cache s) \<and>
    list_all2 (\<lambda>x r. r \<or> refusal_allowed Count x) xs rs \<and> pg (hwa_state t) Factory = pg (hwa_state s) Factory"
  using assms
proof (induction xs arbitrary: s)
  case (Cons x xs)
  obtain b u where u: "emu_step E Count x s = (b, u)" "emu_session E pg ok Count u" "ram_cache u = spec_step x b (ram_cache s)"
    "b \<or> refusal_allowed Count x" "pg (hwa_state u) Factory = pg (hwa_state s) Factory"
    using session_step [OF Cons.prems, of x] by blast
  obtain rs t where "emu_run E Count xs u = (rs, t)" "emu_session E pg ok Count t" "ram_cache t = spec_run xs rs (ram_cache u)"
    "list_all2 (\<lambda>x r. r \<or> refusal_allowed Count x) xs rs" "pg (hwa_state t) Factory = pg (hwa_state u) Factory"
    using Cons.IH [OF u(2)] by blast
  then show ?case using u by (intro exI [of _ "b # rs"] exI [of _ t]) simp
qed simp

lemma session_read:
  assumes "emu_session E pg ok Count s" and "a < Count" and "ram_cache s ! a \<noteq> ERASED_VALUE"
  shows "emu_read E a s = ((ReadOk, Some (ram_cache s ! a)), s)"
  using assms count_bounds(2) by (auto simp: emu_read_def emu_session_def emu_inv_def max_address_def)

lemma session_length: "emu_session E pg ok Count s \<Longrightarrow> length (ram_cache s) = Count"
  by (auto simp: emu_session_def emu_inv_def)

lemma session_format:
  assumes "ok (hwa_state s)" and "length (ram_cache s) = Count"
  shows "\<exists>t. emu_format E f s = (True, t) \<and> emu_session E pg ok Count t \<and> ram_cache t = replicate Count ERASED_VALUE \<and>
    pg (hwa_state t) Factory = (if f then replicate (page_size E) ERASED_BYTE else pg (hwa_state s) Factory)"
  using emu_format_correct [OF assms, of f] session_I by (fastforce simp: N_def)

lemma session_write:
  assumes inv: "emu_inv E pg ok Count p bs es s" and addr: "unat (entry_address e) < Count"
    and free: "length bs < m \<or> values_stored (ram_cache s) \<le> (m - 4) * k"
  shows "\<exists>t. emu_write E e False s = (WriteOk, t) \<and> emu_session E pg ok Count t \<and> ram_cache t = updated e s"
proof (cases "length bs < m")
  case True
  then obtain t bs' es' where "write_internal E e False s = (WriteOk, t)" "emu_inv E pg ok Count p bs' es' t"
    "ram_cache t = updated e s" using inv_write_internal(1) [OF inv addr] by blast
  then show ?thesis using inv_write_guard [OF inv addr] session_I by (auto simp: emu_write_def)
next
  case False
  then have "length bs = m" using inv_blocks [OF inv] by simp
  then show ?thesis using inv_write_full [OF inv addr] free session_I False by auto
qed

lemma session_full:
  assumes "emu_inv E pg ok Count p bs es s" and "unat (entry_address e) < Count"
    and "length bs = m" and "(m - 4) * k < values_stored (ram_cache s)"
  shows "\<exists>t bs'. emu_write E e False s = (PageFull, t) \<and> emu_inv E pg ok Count (other_page p) bs' [] t \<and>
    length bs' = m \<and> ram_cache t = ram_cache s"
  using inv_write_full [OF assms(1-3)] assms(4) by auto

text \<open>Storing to the factory page, any session, and restoring.\<close>

lemma session_store_restore:
  assumes "emu_session E pg ok Count s"
  shows "\<exists>t fs c. store_to_factory E s = (True, t) \<and> emu_session E pg ok Count t \<and> ram_cache t = ram_cache s \<and>
    log_rep B N fs (pg (hwa_state t) Factory) \<and> log_status (log_entries k fs) = Some Valid \<and>
    replay (log_entries k fs) (replicate Count ERASED_VALUE) = Some (ram_cache s)"
proof -
  obtain p bs es where inv: "emu_inv E pg ok Count p bs es s" using assms by (auto simp: emu_session_def)
  obtain t p' fs where t: "store_to_factory E s = (True, t)" "emu_inv E pg ok Count p' fs [] t" "ram_cache t = ram_cache s"
    "\<not> cache_dirty t" "log_rep B N fs (pg (hwa_state t) Factory)" using store_to_factory_correct [OF inv] by blast
  have "log_status (log_entries k fs) = Some Valid" "replay (log_entries k fs) (replicate Count ERASED_VALUE) = Some (ram_cache s)"
    using t(2-4) by (auto simp: inv_unfold)
  then show ?thesis using t session_I [OF t(2)] by blast
qed

lemma session_restore:
  assumes s: "emu_session E pg ok Count s" and t: "store_to_factory E s = (True, t)" and u: "emu_run E Count xs t = (rs, u)"
  shows "length (page_blocks B (pg (hwa_state t) Factory)) < m \<Longrightarrow>
      \<exists>v. restore_from_factory E u = (True, v) \<and> emu_session E pg ok Count v \<and> ram_cache v = ram_cache s"
    and "length (page_blocks B (pg (hwa_state t) Factory)) = m \<Longrightarrow>
      \<exists>v. restore_from_factory E u = (False, v) \<and> cached_page_status Page1 v = Erased \<and> cached_page_status Page2 v = Erased"
proof -
  obtain fs where f: "emu_session E pg ok Count t" "log_rep B N fs (pg (hwa_state t) Factory)"
    "log_status (log_entries k fs) = Some Valid" "replay (log_entries k fs) (replicate Count ERASED_VALUE) = Some (ram_cache s)"
    using session_store_restore [OF s] t by auto
  have run: "emu_session E pg ok Count u" "pg (hwa_state u) Factory = pg (hwa_state t) Factory"
    using session_run [OF f(1), of xs] u by auto
  then obtain p bs es where inv: "emu_inv E pg ok Count p bs es u" by (auto simp: emu_session_def)
  have pb: "page_blocks B (pg (hwa_state t) Factory) = fs" by (rule log_rep_page_blocks [OF f(2) B_pos B_dvd_N])
  note res = restore_from_factory_correct [OF inv, of fs "ram_cache s"]
  show "\<exists>v. restore_from_factory E u = (True, v) \<and> emu_session E pg ok Count v \<and> ram_cache v = ram_cache s"
    if "length (page_blocks B (pg (hwa_state t) Factory)) < m"
    using res(1) f run(2) that pb session_I by metis
  show "\<exists>v. restore_from_factory E u = (False, v) \<and> cached_page_status Page1 v = Erased \<and> cached_page_status Page2 v = Erased"
    if "length (page_blocks B (pg (hwa_state t) Factory)) = m"
    using res(2) f run(2) that pb by metis
qed

text \<open>Reset between the erasure of the old page and the \<open>Valid\<close> mark of the new one.\<close>

lemma transfer_reset:
  assumes inv: "emu_inv E pg ok Count p bs es s" and clean: "\<not> cache_dirty s"
  shows "\<exists>s0 s1 s2 s3 h t. flush_write_block E s = (True, s0) \<and> write_page_status E (other_page p) Receiving s0 = (True, s1) \<and>
    transfer_entries E [0 ..< max_address s1] (set_cached_next_write_offset (other_page p) 0 s1) = (WriteOk, s2) \<and>
    flush_write_block E s2 = (True, s3) \<and> call_erase E p s3 = (True, s3\<lparr>hwa_state := h\<rparr>) \<and>
    emu_init E (emu_new (hwa_state s3) Count) = (True, t) \<and> ram_cache t = ram_cache s \<and>
    (\<exists>u. emu_init E (emu_new h Count) = (True, u) \<and> ram_cache u = replicate Count ERASED_VALUE)"
proof -
  obtain s0 us where s0: "flush_write_block E s = (True, s0)" "emu_inv E pg ok Count p us [] s0" "frame s s0"
    using inv_flush [OF inv] by blast
  note i = s0(2) [unfolded inv_unfold journal_frame_hw]
  obtain qs where qs: "fresh_page E qs (pg (hwa_state s0) (other_page p))" using i by blast
  have ram: "length (ram_cache s0) = Count" "ram_cache s0 = ram_cache s" using i s0(3) by (simp_all add: frame_def)
  have q: "other_page p \<noteq> p" using i other_page_neq by auto
  obtain s1 s2 s3 fs where f: "write_page_status E (other_page p) Receiving s0 = (True, s1)"
    "transfer_entries E [0 ..< max_address s1] (set_cached_next_write_offset (other_page p) 0 s1) = (WriteOk, s2)"
    "flush_write_block E s2 = (True, s3)" "ok (hwa_state s3)" "log_rep B N fs (pg (hwa_state s3) (other_page p))"
    "log_entries k fs = log_entries k qs @ [status_entry Receiving] @ data_entries (ram_cache s0) [0 ..< Count]"
    "\<forall>r. r \<noteq> other_page p \<longrightarrow> pg (hwa_state s3) r = pg (hwa_state s0) r"
    using transfer_fill [of s0 p qs] i qs by blast
  have len: "length (ram_cache s0) < 2 ^ 16" using ram count_bounds(2) by simp
  then have fst: "log_status (log_entries k fs) = Some Receiving"
    using log_status_data_entries [OF len, of Count] ram unfolding f(6) by (simp add: log_status_append del: append_Cons)
  have d4: "4 dvd N" using dvd_256_N by (rule dvd_trans [rotated]) simp
  have stat: "page_state (pg g r) = (case log_status (log_entries k xs) of None \<Rightarrow> Erased | Some st \<Rightarrow> st)"
    if "log_rep B N xs (pg g r)" for g r xs
    using bytes_status_log [of k N xs "pg g r"] that d4 by (simp add: page_state_def B_eq)
  obtain h where h: "call_erase E p s3 = (True, s3\<lparr>hwa_state := h\<rparr>)" "ok h" "pg h = (pg (hwa_state s3))(p := replicate N ERASED_BYTE)"
    by (rule call_eraseE [OF f(4)])
  have old: "log_rep B N us (pg (hwa_state s3) p)" using i f(7) q by auto
  have "page_state (pg (hwa_state s3) (other_page p)) = Receiving" "page_state (pg (hwa_state s3) p) = Valid"
    using stat [OF f(5)] stat [OF old] fst i by simp_all
  moreover have "log_values Count (pg (hwa_state s3) p) = Some (ram_cache s)"
    using i ram(2) s0(3) clean by (auto simp: log_values_def log_rep_page_blocks [OF old B_pos B_dvd_N] frame_def)
  ultimately obtain t where t: "emu_init E (emu_new (hwa_state s3) Count) = (True, t)" "ram_cache t = ram_cache s"
    using init_receiving_correct [OF f(4), of p "ram_cache s"] i by blast
  have "page_state (pg h p) = Erased" using stat [of "[]" h p] h(3) log_rep_erased by simp
  moreover have "page_state (pg h (other_page p)) = Receiving" using stat [of fs h "other_page p"] f(5) fst h(3) q by simp
  ultimately have "page_state (pg h Page1) \<noteq> Valid \<and> page_state (pg h Page2) \<noteq> Valid" using i by auto
  then obtain u where "emu_init E (emu_new h Count) = (True, u)" "ram_cache u = replicate Count ERASED_VALUE"
    using init_no_valid [OF h(2)] by blast
  then show ?thesis using s0(1) f(1-3) h(1) t by blast
qed

end

section \<open>The test flash\<close>

text \<open>A freshly formatted object over the flash of the test suite.\<close>

definition test_start :: "nat \<Rightarrow> nat \<Rightarrow> hwa_test emu" where
  "test_start W Count = snd (emu_format (test_env W) False (emu_new hwa_test_new Count))"

lemma test_start4: "emu_session (test_env 4) page_array test_ok 61 (test_start 4 61)"
  "ram_cache (test_start 4 61) = replicate 61 ERASED_VALUE"
  using test4.session_format [of "emu_new hwa_test_new 61" False] by (auto simp: emu_new_def test_start_def)

lemma test_start8: "emu_session (test_env 8) page_array test_ok 58 (test_start 8 58)"
  "ram_cache (test_start 8 58) = replicate 58 ERASED_VALUE"
  using test8.session_format [of "emu_new hwa_test_new 58" False] by (auto simp: emu_new_def test_start_def)

lemmas test_flash4 = test4.flash_axioms
lemmas test_flash8 = test8.flash_axioms

text \<open>A state of the test flash whose active page is full.\<close>

definition test_full :: "hwa_test emu" where
  "test_full = snd (page_transfer (test_env 4) ((test_start 4 61)\<lparr>ram_cache := replicate 61 7, cache_dirty := True\<rparr>))"

lemma test_full_inv:
  obtains p bs where "emu_inv (test_env 4) page_array test_ok 61 p bs [] test_full" "length bs = 64"
    "ram_cache test_full = replicate 61 7" "\<not> cache_dirty test_full"
proof -
  let ?s = "(test_start 4 61)\<lparr>ram_cache := replicate 61 7, cache_dirty := True\<rparr>"
  obtain p bs es where "emu_inv (test_env 4) page_array test_ok 61 p bs es (test_start 4 61)"
    using test_start4(1) by (auto simp: emu_session_def)
  then have inv: "emu_inv (test_env 4) page_array test_ok 61 p bs es ?s" by (rule test4.inv_cache_only) simp
  have dims: "test4.m = 64" "test4.k = 1"
    unfolding test4.m_def test4.N_def test4.B_def test4.k_def by (simp_all add: test_env_def entries_per_block_def)
  obtain t bs' where t: "page_transfer (test_env 4) ?s = (WriteOk, t)"
    "emu_inv (test_env 4) page_array test_ok 61 (other_page p) bs' [] t" "ram_cache t = replicate 61 7" "64 \<le> length bs'"
    "\<not> cache_dirty t"
    using test4.inv_transfer [OF inv] dims by (auto simp: values_stored_def model_defs)
  have "length bs' = 64" using test4.inv_blocks [OF t(2)] t(4) dims by simp
  then show thesis using that [of "other_page p" bs'] t by (simp add: test_full_def)
qed

section \<open>Properties\<close>



text \<open>C4. \<open>init\<close> on a fresh object succeeds for any contents of the flash pages, whatever a reset or
  a stranger left there, and ends with one valid and one formatted runtime page.\<close>

theorem emu_init_always_succeeds:
  assumes "flash E pg ok Count" and "ok h"
  shows "\<exists>t. emu_init E (emu_new h Count) = (True, t) \<and> steady t \<and> length (ram_cache t) = Count"
  using flash.init_any [OF assms] unfolding flash.recovered_def [OF assms(1)] steady_def by blast

lemma emu_init_always_succeeds_witness:
  "fst (emu_init (test_env 8) (emu_new (hwa_test_new\<lparr>page_array := (\<lambda>p. replicate 256 0x77)\<rparr>) 58))"
  using emu_init_always_succeeds [OF test_flash8, of "hwa_test_new\<lparr>page_array := (\<lambda>p. replicate 256 0x77)\<rparr>"]
  by (auto simp: test_ok_def hwa_test_new_def)

text \<open>C27. For any backend at all, with failing or lying operations, an \<open>init\<close> that reports success
  leaves exactly the steady combination of page states: one runtime page valid, the other formatted.\<close>

theorem emu_init_success_is_steady:
  assumes "emu_init E s = (True, t)"
  shows "\<exists>p. (p = Page1 \<or> p = Page2) \<and> cached_page_status p t = Valid \<and> cached_page_status (other_page p) t = Formatted"
  using emu_init_steady [OF assms] by (simp add: steady_def)

lemma emu_init_success_is_steady_witness:
  "cached_page_status Page1 (snd (emu_init (test_env 4) (emu_new hwa_test_new 61))) \<in> {Valid, Formatted}"
proof -
  obtain t where t: "emu_init (test_env 4) (emu_new hwa_test_new 61) = (True, t)"
    using test4.init_any [of hwa_test_new] by auto
  show ?thesis using emu_init_success_is_steady [OF t] t by auto
qed

text \<open>C3. A page transfer never fails and never loses a value: for every logical address count the
  class accepts, the values fit the other page together with the three status records, the
  transfer ends with the two pages swapped and the RAM mirror unchanged, and the factory page
  is not touched.\<close>

theorem page_transfer_preserves_values:
  assumes "flash E pg ok Count" and "emu_inv E pg ok Count p bs es s"
  shows "\<exists>t bs'. page_transfer E s = (WriteOk, t) \<and> emu_inv E pg ok Count (other_page p) bs' [] t
    \<and> ram_cache t = ram_cache s \<and> pg (hwa_state t) Factory = pg (hwa_state s) Factory"
  using flash.inv_transfer [OF assms] by blast

lemma page_transfer_preserves_values_witness:
  "fst (page_transfer (test_env 8) (test_start 8 58)) = WriteOk"
proof -
  obtain p bs es where "emu_inv (test_env 8) page_array test_ok 58 p bs es (test_start 8 58)"
    using test_start8(1) by (auto simp: emu_session_def)
  from page_transfer_preserves_values [OF test_flash8 this] show ?thesis by auto
qed


text \<open>A write to an address in range succeeds and updates exactly that value whenever the active
  page has a free block, or, when it is full, whenever the stored values leave one block of the
  other page free besides the three status blocks and the one to write into.\<close>

theorem emu_write_succeeds:
  assumes "flash E pg ok Count" and "emu_inv E pg ok Count p bs es s" and "unat (entry_address e) < Count"
    and "length bs < page_size E div write_block_size E
      \<or> values_stored (ram_cache s) \<le> (page_size E div write_block_size E - 4) * entries_per_block E"
  shows "\<exists>t. emu_write E e False s = (WriteOk, t) \<and> emu_session E pg ok Count t \<and> ram_cache t = updated e s"
  using flash.session_write [OF assms(1-3)] assms(4) by (simp add: flash.fold_config [OF assms(1)])

lemma emu_write_succeeds_witness:
  "fst (emu_write (test_env 4) (make_entry 60 7) False (test_start 4 61)) = WriteOk"
proof -
  obtain p bs es where inv: "emu_inv (test_env 4) page_array test_ok 61 p bs es (test_start 4 61)"
    using test_start4(1) by (auto simp: emu_session_def)
  have "values_stored (ram_cache (test_start 4 61)) = 0" by (simp add: test_start4(2) values_stored_def)
  then show ?thesis
    using emu_write_succeeds [OF test_flash4 inv, of "make_entry 60 7"] by (auto simp: make_entry_def)
qed

text \<open>Once the active page is full and the stored values leave no block free after a transfer,
  every write to flash is answered \<open>PageFull\<close>, also one that only repeats a stored value, and the
  state it leaves is full again: no sequence of writes gets out of it. With the default address
  count this is reached when the last block's worth of addresses holds values.\<close>

theorem emu_write_stuck_when_full:
  assumes "flash E pg ok Count" and "emu_inv E pg ok Count p bs es s" and "unat (entry_address e) < Count"
    and "length bs = page_size E div write_block_size E"
    and "(page_size E div write_block_size E - 4) * entries_per_block E < values_stored (ram_cache s)"
  shows "\<exists>t bs'. emu_write E e False s = (PageFull, t) \<and> emu_inv E pg ok Count (other_page p) bs' [] t
    \<and> length bs' = page_size E div write_block_size E \<and> ram_cache t = ram_cache s"
  using flash.session_full [OF assms(1-3)] assms(4,5) by (simp add: flash.fold_config [OF assms(1)])

text \<open>The witness fills all 61 addresses of the test flash in the RAM mirror and transfers them.\<close>

lemma emu_write_stuck_when_full_witness:
  "fst (emu_write (test_env 4) (make_entry 0 7) False test_full) = PageFull"
proof -
  obtain p bs where t: "emu_inv (test_env 4) page_array test_ok 61 p bs [] test_full" "length bs = 64"
    "ram_cache test_full = replicate 61 7" by (rule test_full_inv)
  have "\<exists>u. emu_write (test_env 4) (make_entry 0 7) False test_full = (PageFull, u)"
    using emu_write_stuck_when_full [OF test_flash4 t(1), of "make_entry 0 7"] t(2,3)
    by (auto simp: make_entry_def test_env_def entries_per_block_def values_stored_def model_defs)
  then show ?thesis by auto
qed


lemma test_start_inv:
  obtains bs where "emu_inv (test_env 4) page_array test_ok 61 Page1 bs [] (test_start 4 61)" "length bs = 1"
    "\<not> cache_dirty (test_start 4 61)"
  using test4.emu_format_correct [of "emu_new hwa_test_new 61" False] by (auto simp: emu_new_def test_start_def)





text \<open>Factory page: a store always succeeds, and after any later session a restore brings back
  exactly the values stored, provided the stored page had a free block left.\<close>

theorem factory_roundtrip:
  assumes "flash E pg ok Count" and "emu_session E pg ok Count s"
    and "store_to_factory E s = (True, t)" and "emu_run E Count xs t = (rs, u)"
    and "length (page_blocks (write_block_size E) (pg (hwa_state t) Factory)) < page_size E div write_block_size E"
  shows "\<exists>v. restore_from_factory E u = (True, v) \<and> emu_session E pg ok Count v \<and> ram_cache v = ram_cache s"
  using flash.session_restore(1) [OF assms(1-4)] assms(5) by (simp add: flash.fold_config [OF assms(1)])

lemma test_start_store:
  obtains t where "store_to_factory (test_env 4) (test_start 4 61) = (True, t)"
    "length (page_blocks 4 (page_array (hwa_state t) Factory)) = 1"
proof -
  obtain bs where inv: "emu_inv (test_env 4) page_array test_ok 61 Page1 bs [] (test_start 4 61)" and "length bs = 1"
    and clean: "\<not> cache_dirty (test_start 4 61)" by (rule test_start_inv)
  moreover obtain t where t: "store_to_factory (test_env 4) (test_start 4 61) = (True, t)"
    "log_rep test4.B test4.N bs (page_array (hwa_state t) Factory)"
    using test4.store_to_factory_correct [OF inv] clean by blast
  moreover have "test4.B = 4" unfolding test4.B_def by (simp add: test_env_def)
  ultimately show thesis
    using that [OF t(1)] log_rep_page_blocks [OF t(2) test4.B_pos test4.B_dvd_N] by simp
qed

lemma factory_roundtrip_witness:
  "fst (restore_from_factory (test_env 4) (snd (store_to_factory (test_env 4) (test_start 4 61))))"
proof -
  obtain t where t: "store_to_factory (test_env 4) (test_start 4 61) = (True, t)"
    "length (page_blocks 4 (page_array (hwa_state t) Factory)) = 1" by (rule test_start_store)
  have "\<exists>v. restore_from_factory (test_env 4) t = (True, v)"
    using factory_roundtrip [OF test_flash4 test_start4(1) t(1), of "[]" "[]" t] t(2) by (auto simp: test_env_def)
  then show ?thesis using t(1) by auto
qed

text \<open>When the stored page had no free block, the restore fails after it has erased both runtime
  pages: it reports failure and no runtime page is usable until the next \<open>init\<close>.\<close>

theorem restore_fails_when_full:
  assumes "flash E pg ok Count" and "emu_session E pg ok Count s"
    and "store_to_factory E s = (True, t)" and "emu_run E Count xs t = (rs, u)"
    and "length (page_blocks (write_block_size E) (pg (hwa_state t) Factory)) = page_size E div write_block_size E"
  shows "\<exists>v. restore_from_factory E u = (False, v) \<and> cached_page_status Page1 v = Erased \<and> cached_page_status Page2 v = Erased"
  using flash.session_restore(2) [OF assms(1-4)] assms(5) by (simp add: flash.fold_config [OF assms(1)])

lemma restore_fails_when_full_witness:
  "\<not> fst (restore_from_factory (test_env 4) (snd (store_to_factory (test_env 4) test_full)))"
proof -
  obtain p bs where inv: "emu_inv (test_env 4) page_array test_ok 61 p bs [] test_full" and len: "length bs = 64"
    and clean: "\<not> cache_dirty test_full" by (rule test_full_inv)
  obtain t where t: "store_to_factory (test_env 4) test_full = (True, t)"
    "log_rep test4.B test4.N bs (page_array (hwa_state t) Factory)"
    using test4.store_to_factory_correct [OF inv] clean by blast
  have "test4.B = 4" unfolding test4.B_def by (simp add: test_env_def)
  then have "length (page_blocks 4 (page_array (hwa_state t) Factory)) = 64"
    using log_rep_page_blocks [OF t(2) test4.B_pos test4.B_dvd_N] len by simp
  then have "\<exists>v. restore_from_factory (test_env 4) t = (False, v)"
    using restore_fails_when_full [OF test_flash4 test4.session_I [OF inv] t(1), of "[]" "[]" t] by (auto simp: test_env_def)
  then show ?thesis using t(1) by auto
qed

text \<open>The byte formats are faithful: an entry and a page state written to flash read back as
  themselves, and only the reserved all-ones entry looks erased.\<close>

theorem flash_format_roundtrip:
  "deserialize_entry (serialize_entry e) = e
   \<and> (all_erased (serialize_entry e) \<longleftrightarrow> entry_address e = RESERVED_STATUS_ADDRESS \<and> entry_value e = ERASED_VALUE)
   \<and> deserialize_page_status (serialize_page_status st) = (if st = Erased then None else Some st)"
  by (cases st) (simp_all add: deserialize_serialize_entry serialize_entry_erased_iff deserialize_page_status_def
      serialize_page_status_def model_defs)

end
