(* ===== verification/Less_Db.thy ===== *)
theory Less_Db
  imports Zlibs_Prelude
begin

text \<open>
  The parameter database of \<open>lessdb/lessdb.cpp\<close>, \<open>lessdb.h\<close> and \<open>lessdb_common.h\<close>. Addresses and
  values are 32-bit words, indices natural numbers, the one-byte \<open>array_index\<close> and \<open>bit_index\<close>
  keep their width. The storage backend (the virtual interface \<open>Hwa\<close>) is the record
  \<open>ldb_env\<close> over a state of its own type; an init provider is a function from a request to an
  optional value. The mutex around each public member is left out.
\<close>

section \<open>Layouts\<close>

definition BYTE_BIT_COUNT :: nat where [simp]: "BYTE_BIT_COUNT = 8"
definition BYTE_NIBBLE_COUNT :: nat where [simp]: "BYTE_NIBBLE_COUNT = 2"
definition WORD_SIZE_IN_BYTES :: nat where [simp]: "WORD_SIZE_IN_BYTES = 2"
definition DWORD_SIZE_IN_BYTES :: nat where [simp]: "DWORD_SIZE_IN_BYTES = 4"
definition BYTE_MASK :: u32 where [model_defs]: "BYTE_MASK = 0xFF"
definition WORD_MASK :: u32 where [model_defs]: "WORD_MASK = 0xFFFF"
definition LOW_NIBBLE_MASK :: u8 where [model_defs]: "LOW_NIBBLE_MASK = 0x0F"
definition HIGH_NIBBLE_MASK :: u8 where [model_defs]: "HIGH_NIBBLE_MASK = 0xF0"
definition INVALID_ADDRESS :: u32 where [model_defs]: "INVALID_ADDRESS = 0xFFFFFFFF"
definition BIT_MASK :: "u8 list" where "BIT_MASK = [1, 2, 4, 8, 16, 32, 64, 128]"

datatype parameter_type = TBit | TByte | THalfByte | TWord | TDword
datatype factory_reset_type = ResetPartial | ResetFull
datatype preserve_setting = PreserveEnable | PreserveDisable
datatype auto_increment_setting = IncrementEnable | IncrementDisable

fun parameter_type_code :: "parameter_type \<Rightarrow> u32" where
  "parameter_type_code TBit = 0"
| "parameter_type_code TByte = 1"
| "parameter_type_code THalfByte = 2"
| "parameter_type_code TWord = 3"
| "parameter_type_code TDword = 4"

fun section_byte_size :: "nat \<Rightarrow> parameter_type \<Rightarrow> u32" where
  "section_byte_size n TBit = of_nat (n div BYTE_BIT_COUNT + (if n mod BYTE_BIT_COUNT \<noteq> 0 then 1 else 0))"
| "section_byte_size n THalfByte = of_nat (n div BYTE_NIBBLE_COUNT + (if n mod BYTE_NIBBLE_COUNT \<noteq> 0 then 1 else 0))"
| "section_byte_size n TByte = of_nat n"
| "section_byte_size n TWord = of_nat (n * WORD_SIZE_IN_BYTES)"
| "section_byte_size n TDword = of_nat (n * DWORD_SIZE_IN_BYTES)"

record db_section =
  number_of_parameters :: nat
  parameter_type :: parameter_type
  preserve_on_partial_reset :: preserve_setting
  auto_increment :: auto_increment_setting
  default_value :: u32
  section_offset :: u32

record db_block =
  sections :: "db_section list"
  block_offset :: u32

definition new_section :: "nat \<Rightarrow> parameter_type \<Rightarrow> preserve_setting \<Rightarrow> auto_increment_setting \<Rightarrow> u32 \<Rightarrow> db_section" where
  "new_section n t preserve inc dv =
     \<lparr>number_of_parameters = n, parameter_type = t, preserve_on_partial_reset = preserve,
      auto_increment = inc, default_value = dv, section_offset = 0\<rparr>"

definition section_size :: "db_section \<Rightarrow> u32" where
  "section_size sec = section_byte_size (number_of_parameters sec) (parameter_type sec)"

definition new_block :: "db_section list \<Rightarrow> db_block" where
  "new_block secs = \<lparr>sections = secs, block_offset = 0\<rparr>"

definition block_size :: "db_block \<Rightarrow> u32" where
  "block_size b = foldl (\<lambda>total sec. total + section_size sec) 0 (sections b)"

text \<open>The loop that accumulates offsets: entry \<open>i\<close> is the sum of the sizes before it.\<close>

fun offsets_from :: "u32 \<Rightarrow> u32 list \<Rightarrow> u32 list" where
  "offsets_from off [] = []"
| "offsets_from off (sz # szs) = off # offsets_from (off + sz) szs"

definition make_block :: "db_section list \<Rightarrow> db_section list" where
  "make_block secs =
     map (\<lambda>(sec, address). sec\<lparr>section_offset := address\<rparr>) (zip secs (offsets_from 0 (map section_size secs)))"

definition make_layout :: "db_block list \<Rightarrow> db_block list" where
  "make_layout blocks =
     map (\<lambda>(b, offset). b\<lparr>block_offset := offset\<rparr>) (zip blocks (offsets_from 0 (map block_size blocks)))"

definition layout_size :: "db_block list \<Rightarrow> u32" where
  "layout_size layout = (if layout = [] then 0 else block_offset (last layout) + block_size (last layout))"

definition fnv_mix :: "u32 \<Rightarrow> u32 \<Rightarrow> u32" where
  "fnv_mix hash val = (hash XOR val) * 16777619"

definition layout_uid :: "db_block list \<Rightarrow> u32" where
  "layout_uid layout =
     (if layout = [] then 0
      else foldl (\<lambda>hash b. foldl (\<lambda>hash sec.
                fnv_mix (fnv_mix hash (of_nat (number_of_parameters sec))) (parameter_type_code (parameter_type sec)))
              (fnv_mix hash (of_nat (length (sections b)))) (sections b))
            (fnv_mix 2166136261 (of_nat (length layout))) layout)"

section \<open>Backend interface and state\<close>

record 'h ldb_env =
  ldb_init :: "'h \<Rightarrow> bool \<times> 'h"
  ldb_address_count :: "'h \<Rightarrow> u32"
  ldb_clear :: "'h \<Rightarrow> bool \<times> 'h"
  ldb_read :: "u32 \<Rightarrow> parameter_type \<Rightarrow> 'h \<Rightarrow> u32 option \<times> 'h"
  ldb_write :: "u32 \<Rightarrow> u32 \<Rightarrow> parameter_type \<Rightarrow> 'h \<Rightarrow> bool \<times> 'h"

record init_request =
  req_block_index :: nat
  req_section_index :: nat
  req_parameter_index :: nat

record init_provider_entry =
  prov_layout_uid :: u32
  prov_block_index :: nat
  prov_section_index :: nat
  prov_provider :: "(init_request \<Rightarrow> u32 option) option"

record 'h lessdb =
  ldb_hwa :: 'h
  initial_address :: u32
  layout_uid_member :: u32
  last_read_value :: u8
  last_read_address :: u32
  ldb_layout :: "db_block list"
  init_providers :: "init_provider_entry list"

definition lessdb_new :: "'h \<Rightarrow> 'h lessdb" where
  "lessdb_new h =
     \<lparr>ldb_hwa = h, initial_address = 0, layout_uid_member = 0, last_read_value = 0,
      last_read_address = INVALID_ADDRESS, ldb_layout = [], init_providers = []\<rparr>"

definition hwa_read_call :: "'h ldb_env \<Rightarrow> u32 \<Rightarrow> parameter_type \<Rightarrow> 'h lessdb \<Rightarrow> u32 option \<times> 'h lessdb" where
  "hwa_read_call E a t s = (case ldb_read E a t (ldb_hwa s) of (v, h) \<Rightarrow> (v, s\<lparr>ldb_hwa := h\<rparr>))"

section \<open>Public operations\<close>

definition lessdb_init :: "'h ldb_env \<Rightarrow> 'h lessdb \<Rightarrow> bool \<times> 'h lessdb" where
  "lessdb_init E s = (case ldb_init E (ldb_hwa s) of (ok, h) \<Rightarrow> (ok, s\<lparr>ldb_hwa := h\<rparr>))"

definition lessdb_address_count :: "'h ldb_env \<Rightarrow> 'h lessdb \<Rightarrow> u32" where
  "lessdb_address_count E s = ldb_address_count E (ldb_hwa s)"

definition set_layout_uid :: "'h ldb_env \<Rightarrow> db_block list \<Rightarrow> u32 \<Rightarrow> u32 \<Rightarrow> 'h lessdb \<Rightarrow> bool \<times> 'h lessdb" where
  "set_layout_uid E layout start_address uid s =
     (if start_address \<ge> lessdb_address_count E s then (False, s)
      else if layout = [] then (False, s)
      else let total_usage = layout_size layout;
               available = lessdb_address_count E s - start_address
      in if total_usage > available then (False, s)
         else (True, s\<lparr>initial_address := start_address, layout_uid_member := uid, ldb_layout := layout\<rparr>))"

text \<open>
  The public overload for fixed-size arrays binds the layout to its UID; the private overload
  for spans uses UID 0.
\<close>

definition set_layout_span :: "'h ldb_env \<Rightarrow> db_block list \<Rightarrow> u32 \<Rightarrow> 'h lessdb \<Rightarrow> bool \<times> 'h lessdb" where
  "set_layout_span E layout start_address s = set_layout_uid E layout start_address 0 s"

definition set_layout :: "'h ldb_env \<Rightarrow> db_block list \<Rightarrow> u32 \<Rightarrow> 'h lessdb \<Rightarrow> bool \<times> 'h lessdb" where
  "set_layout E layout start_address s = set_layout_uid E layout start_address (layout_uid layout) s"

definition the_section :: "'h lessdb \<Rightarrow> nat \<Rightarrow> nat \<Rightarrow> db_section" where
  "the_section s block_index section_index = sections (ldb_layout s ! block_index) ! section_index"

definition check_parameters :: "'h lessdb \<Rightarrow> nat \<Rightarrow> nat \<Rightarrow> nat \<Rightarrow> bool" where
  "check_parameters s block_index section_index parameter_index =
     (if block_index \<ge> length (ldb_layout s) then False
      else if section_index \<ge> length (sections (ldb_layout s ! block_index)) then False
      else if parameter_index \<ge> number_of_parameters (the_section s block_index section_index) then False
      else True)"

definition section_address :: "'h lessdb \<Rightarrow> nat \<Rightarrow> nat \<Rightarrow> u32" where
  "section_address s block_index section_index =
     initial_address s + block_offset (ldb_layout s ! block_index)
       + section_offset (the_section s block_index section_index)"

text \<open>\<open>finish_read\<close> is the end of \<open>read\<close>: it records the address of a successful read.\<close>

definition finish_read :: "u32 \<Rightarrow> u32 option \<times> 'h lessdb \<Rightarrow> u32 option \<times> 'h lessdb" where
  "finish_read start_address r =
     (case r of (None, s) \<Rightarrow> (None, s) | (Some val, s) \<Rightarrow> (Some val, s\<lparr>last_read_address := start_address\<rparr>))"

definition array_index_of :: "nat \<Rightarrow> u8" where
  "array_index_of parameter_index = of_nat (parameter_index div BYTE_BIT_COUNT)"

definition bit_index_of :: "nat \<Rightarrow> u8" where
  "bit_index_of parameter_index =
     of_nat (parameter_index - unat (array_index_of parameter_index) * BYTE_BIT_COUNT)"

definition test_bit_mask :: "u32 \<Rightarrow> u8 \<Rightarrow> u32" where
  "test_bit_mask val bit_index = of_bool (val AND ucast (BIT_MASK ! unat bit_index) \<noteq> 0)"

definition read_nibble :: "u32 \<Rightarrow> nat \<Rightarrow> u32" where
  "read_nibble val parameter_index =
     (if parameter_index mod BYTE_NIBBLE_COUNT \<noteq> 0 then drop_bit 4 val else val) AND ucast LOW_NIBBLE_MASK"

definition lessdb_read :: "'h ldb_env \<Rightarrow> nat \<Rightarrow> nat \<Rightarrow> nat \<Rightarrow> 'h lessdb \<Rightarrow> u32 option \<times> 'h lessdb" where
  "lessdb_read E block_index section_index parameter_index s =
     (if \<not> check_parameters s block_index section_index parameter_index then (None, s)
      else let start_address = section_address s block_index section_index in
      case parameter_type (the_section s block_index section_index) of
        TBit \<Rightarrow>
          let start_address = start_address + ucast (array_index_of parameter_index);
              bit_index = bit_index_of parameter_index
          in finish_read start_address
            (if start_address = last_read_address s
             then (Some (test_bit_mask (ucast (last_read_value s)) bit_index), s)
             else case hwa_read_call E start_address TBit s of
               (Some v, s) \<Rightarrow> (Some (test_bit_mask v bit_index), s\<lparr>last_read_value := ucast v\<rparr>)
             | (None, s) \<Rightarrow> (None, s))
      | TByte \<Rightarrow>
          let start_address = start_address + of_nat parameter_index
          in finish_read start_address
            (case hwa_read_call E start_address TByte s of
               (Some v, s) \<Rightarrow> (Some (v AND BYTE_MASK), s) | (None, s) \<Rightarrow> (None, s))
      | THalfByte \<Rightarrow>
          let start_address = start_address + of_nat (parameter_index div BYTE_NIBBLE_COUNT)
          in finish_read start_address
            (if start_address = last_read_address s
             then (Some (read_nibble (ucast (last_read_value s)) parameter_index), s)
             else case hwa_read_call E start_address THalfByte s of
               (Some v, s) \<Rightarrow> (Some (read_nibble v parameter_index), s\<lparr>last_read_value := ucast v\<rparr>)
             | (None, s) \<Rightarrow> (None, s))
      | TWord \<Rightarrow>
          let start_address = start_address + of_nat (parameter_index * WORD_SIZE_IN_BYTES)
          in finish_read start_address
            (case hwa_read_call E start_address TWord s of
               (Some v, s) \<Rightarrow> (Some (v AND WORD_MASK), s) | (None, s) \<Rightarrow> (None, s))
      | TDword \<Rightarrow>
          let start_address = start_address + of_nat (parameter_index * DWORD_SIZE_IN_BYTES)
          in hwa_read_call E start_address TDword s)"

definition ldb_write_verify :: "'h ldb_env \<Rightarrow> u32 \<Rightarrow> u32 \<Rightarrow> parameter_type \<Rightarrow> 'h lessdb \<Rightarrow> bool \<times> 'h lessdb" where
  "ldb_write_verify E address val t s =
     (let s = (if address = last_read_address s then s\<lparr>last_read_address := INVALID_ADDRESS\<rparr> else s)
      in case ldb_write E address val t (ldb_hwa s) of
           (False, h) \<Rightarrow> (False, s\<lparr>ldb_hwa := h\<rparr>)
         | (True, h) \<Rightarrow>
             (case hwa_read_call E address t (s\<lparr>ldb_hwa := h\<rparr>) of
                (Some read_value, s) \<Rightarrow> (val = read_value, s)
              | (None, s) \<Rightarrow> (False, s)))"

definition lessdb_update :: "'h ldb_env \<Rightarrow> nat \<Rightarrow> nat \<Rightarrow> nat \<Rightarrow> u32 \<Rightarrow> 'h lessdb \<Rightarrow> bool \<times> 'h lessdb" where
  "lessdb_update E block_index section_index parameter_index new_value s =
     (if ldb_layout s = [] then (False, s)
      else if \<not> check_parameters s block_index section_index parameter_index then (False, s)
      else let start_address = section_address s block_index section_index in
      case parameter_type (the_section s block_index section_index) of
        TBit \<Rightarrow>
          let new_value = new_value AND 0x01;
              bit_index = bit_index_of parameter_index;
              start_address = start_address + ucast (array_index_of parameter_index)
          in (case hwa_read_call E start_address TBit s of
                (Some array_value, s) \<Rightarrow>
                  let array_value = (if new_value \<noteq> 0 then array_value OR ucast (BIT_MASK ! unat bit_index)
                                     else array_value AND NOT (ucast (BIT_MASK ! unat bit_index)))
                  in ldb_write_verify E start_address array_value TBit s
              | (None, s) \<Rightarrow> (False, s))
      | TByte \<Rightarrow>
          ldb_write_verify E (start_address + of_nat parameter_index) (new_value AND BYTE_MASK) TByte s
      | THalfByte \<Rightarrow>
          let new_value = new_value AND ucast LOW_NIBBLE_MASK;
              start_address = start_address + of_nat (parameter_index div BYTE_NIBBLE_COUNT)
          in (case hwa_read_call E start_address THalfByte s of
                (Some array_value, s) \<Rightarrow>
                  let array_value = (if parameter_index mod BYTE_NIBBLE_COUNT \<noteq> 0
                                     then (array_value AND ucast LOW_NIBBLE_MASK) OR push_bit 4 new_value
                                     else (array_value AND ucast HIGH_NIBBLE_MASK) OR new_value)
                  in ldb_write_verify E start_address array_value THalfByte s
              | (None, s) \<Rightarrow> (False, s))
      | TWord \<Rightarrow>
          ldb_write_verify E (start_address + of_nat (parameter_index * WORD_SIZE_IN_BYTES)) (new_value AND WORD_MASK) TWord s
      | TDword \<Rightarrow>
          ldb_write_verify E (start_address + of_nat (parameter_index * DWORD_SIZE_IN_BYTES)) new_value TDword s)"

definition lessdb_clear :: "'h ldb_env \<Rightarrow> 'h lessdb \<Rightarrow> bool \<times> 'h lessdb" where
  "lessdb_clear E s = (case ldb_clear E (ldb_hwa s) of (ok, h) \<Rightarrow> (ok, s\<lparr>ldb_hwa := h\<rparr>))"

definition register_layout_init_provider ::
    "nat \<Rightarrow> nat \<Rightarrow> (init_request \<Rightarrow> u32 option) option \<Rightarrow> 'h lessdb \<Rightarrow> 'h lessdb" where
  "register_layout_init_provider block_index section_index provider s =
     s\<lparr>init_providers := init_providers s @
        [\<lparr>prov_layout_uid = layout_uid_member s, prov_block_index = block_index,
          prov_section_index = section_index, prov_provider = provider\<rparr>]\<rparr>"

definition clear_init_providers :: "'h lessdb \<Rightarrow> 'h lessdb" where
  "clear_init_providers s = s\<lparr>init_providers := []\<rparr>"

section \<open>Factory reset\<close>

fun provider_value :: "u32 \<Rightarrow> init_request \<Rightarrow> init_provider_entry list \<Rightarrow> u32 option" where
  "provider_value uid request [] = None"
| "provider_value uid request (entry # entries) =
     (case (if prov_layout_uid entry = uid \<and> prov_block_index entry = req_block_index request \<and>
               prov_section_index entry = req_section_index request
            then (case prov_provider entry of None \<Rightarrow> None | Some provider \<Rightarrow> provider request) else None) of
        Some val \<Rightarrow> Some val
      | None \<Rightarrow> provider_value uid request entries)"

definition init_value :: "'h lessdb \<Rightarrow> nat \<Rightarrow> nat \<Rightarrow> nat \<Rightarrow> u32 \<Rightarrow> u32" where
  "init_value s block_index section_index parameter_index default_val =
     (case provider_value (layout_uid_member s)
             \<lparr>req_block_index = block_index, req_section_index = section_index,
              req_parameter_index = parameter_index\<rparr> (init_providers s) of
        Some val \<Rightarrow> val | None \<Rightarrow> default_val)"

text \<open>Byte, word and double word sections: one write per parameter.\<close>

definition value_step :: "parameter_type \<Rightarrow> u32" where
  "value_step t = (case t of TByte \<Rightarrow> 1 | TWord \<Rightarrow> of_nat WORD_SIZE_IN_BYTES | TDword \<Rightarrow> of_nat DWORD_SIZE_IN_BYTES | _ \<Rightarrow> 0)"

fun init_whole :: "'h ldb_env \<Rightarrow> nat \<Rightarrow> nat \<Rightarrow> nat list \<Rightarrow> u32 \<Rightarrow> 'h lessdb \<Rightarrow> bool \<times> 'h lessdb" where
  "init_whole E b j [] start_address s = (True, s)"
| "init_whole E b j (parameter # ps) start_address s =
     (let sec = the_section s b j;
          val = (if auto_increment sec = IncrementEnable
                 then init_value s b j parameter (default_value sec + of_nat parameter)
                 else init_value s b j parameter (default_value sec))
      in and_then (ldb_write_verify E start_address val (parameter_type sec) s)
           (init_whole E b j ps (start_address + value_step (parameter_type sec))))"

text \<open>Bit and half-byte sections: the parameters of one byte are packed, then written.\<close>

fun pack_bits :: "'h lessdb \<Rightarrow> nat \<Rightarrow> nat \<Rightarrow> nat \<Rightarrow> nat list \<Rightarrow> u8 \<Rightarrow> u8" where
  "pack_bits s b j loop [] val = val"
| "pack_bits s b j loop (i # is) val =
     (let sec = the_section s b j; parameter = loop * BYTE_BIT_COUNT + i
      in if parameter \<ge> number_of_parameters sec then val
         else let parameter_default = init_value s b j parameter (default_value sec) AND 0x01
         in pack_bits s b j loop is (if parameter_default \<noteq> 0 then val OR BIT_MASK ! i else val))"

fun pack_nibbles :: "'h lessdb \<Rightarrow> nat \<Rightarrow> nat \<Rightarrow> nat \<Rightarrow> nat list \<Rightarrow> u8 \<Rightarrow> u8" where
  "pack_nibbles s b j loop [] val = val"
| "pack_nibbles s b j loop (half_byte # hs) val =
     (let sec = the_section s b j; parameter = loop * BYTE_NIBBLE_COUNT + half_byte
      in if parameter \<ge> number_of_parameters sec then val
         else let parameter_default = init_value s b j parameter (default_value sec) AND ucast LOW_NIBBLE_MASK
         in pack_nibbles s b j loop hs
              (if half_byte = 0 then val OR ucast parameter_default
               else val OR ucast (push_bit 4 parameter_default)))"

definition pack_value :: "'h lessdb \<Rightarrow> nat \<Rightarrow> nat \<Rightarrow> nat \<Rightarrow> u8" where
  "pack_value s b j loop =
     (if parameter_type (the_section s b j) = TBit then pack_bits s b j loop [0 ..< BYTE_BIT_COUNT] 0
      else pack_nibbles s b j loop [0 ..< BYTE_NIBBLE_COUNT] 0)"

fun init_packed :: "'h ldb_env \<Rightarrow> nat \<Rightarrow> nat \<Rightarrow> nat list \<Rightarrow> u32 \<Rightarrow> 'h lessdb \<Rightarrow> bool \<times> 'h lessdb" where
  "init_packed E b j [] start_address s = (True, s)"
| "init_packed E b j (loop # loops) start_address s =
     and_then (ldb_write_verify E start_address (ucast (pack_value s b j loop)) TByte s)
       (init_packed E b j loops (start_address + 1))"

definition init_section :: "'h ldb_env \<Rightarrow> factory_reset_type \<Rightarrow> nat \<Rightarrow> nat \<Rightarrow> 'h lessdb \<Rightarrow> bool \<times> 'h lessdb" where
  "init_section E type b j s =
     (let sec = the_section s b j; n = number_of_parameters sec; start_address = section_address s b j in
      if preserve_on_partial_reset sec = PreserveEnable \<and> type = ResetPartial then (True, s)
      else case parameter_type sec of
        TBit \<Rightarrow> init_packed E b j [0 ..< n div BYTE_BIT_COUNT + (if n mod BYTE_BIT_COUNT \<noteq> 0 then 1 else 0)] start_address s
      | THalfByte \<Rightarrow> init_packed E b j [0 ..< n div BYTE_NIBBLE_COUNT + (if n mod BYTE_NIBBLE_COUNT \<noteq> 0 then 1 else 0)] start_address s
      | _ \<Rightarrow> init_whole E b j [0 ..< n] start_address s)"

fun init_sections :: "'h ldb_env \<Rightarrow> factory_reset_type \<Rightarrow> nat \<Rightarrow> nat list \<Rightarrow> 'h lessdb \<Rightarrow> bool \<times> 'h lessdb" where
  "init_sections E type b [] s = (True, s)"
| "init_sections E type b (j # js) s = and_then (init_section E type b j s) (init_sections E type b js)"

fun init_blocks :: "'h ldb_env \<Rightarrow> factory_reset_type \<Rightarrow> nat list \<Rightarrow> 'h lessdb \<Rightarrow> bool \<times> 'h lessdb" where
  "init_blocks E type [] s = (True, s)"
| "init_blocks E type (b # bs) s =
     and_then (init_sections E type b [0 ..< length (sections (ldb_layout s ! b))] s) (init_blocks E type bs)"

definition init_data :: "'h ldb_env \<Rightarrow> factory_reset_type \<Rightarrow> 'h lessdb \<Rightarrow> bool \<times> 'h lessdb" where
  "init_data E type s = init_blocks E type [0 ..< length (ldb_layout s)] s"

end
