(* ===== verification/Less_Db_Layout.thy ===== *)
theory Less_Db_Layout
  imports Less_Db
begin

text \<open>
  Where a layout puts its parameters. The offsets \<open>make_block\<close> and \<open>make_layout\<close> compute in
  32-bit arithmetic are the sums of the byte sizes before them, the byte ranges of different
  sections are disjoint, and a parameter is identified by its address and, for the packed
  types, its position in the byte.
\<close>

section \<open>Byte sizes as natural numbers\<close>

fun section_bytes :: "nat \<Rightarrow> parameter_type \<Rightarrow> nat" where
  "section_bytes n TBit = (n + 7) div 8"
| "section_bytes n THalfByte = (n + 1) div 2"
| "section_bytes n TByte = n"
| "section_bytes n TWord = n * 2"
| "section_bytes n TDword = n * 4"

definition sec_bytes :: "db_section \<Rightarrow> nat" where
  "sec_bytes sec = section_bytes (number_of_parameters sec) (parameter_type sec)"

definition block_bytes :: "db_block \<Rightarrow> nat" where
  "block_bytes b = sum_list (map sec_bytes (sections b))"

definition layout_bytes :: "db_block list \<Rightarrow> nat" where
  "layout_bytes layout = sum_list (map block_bytes layout)"

text \<open>The offset of section \<open>j\<close> of block \<open>b\<close> from the start of the layout.\<close>

definition sec_offset :: "db_block list \<Rightarrow> nat \<Rightarrow> nat \<Rightarrow> nat" where
  "sec_offset layout b j =
     sum_list (map block_bytes (take b layout)) + sum_list (map sec_bytes (take j (sections (layout ! b))))"

definition wf_layout :: "db_block list \<Rightarrow> bool" where
  "wf_layout layout \<longleftrightarrow>
     (\<forall>b < length layout. block_offset (layout ! b) = of_nat (sum_list (map block_bytes (take b layout))) \<and>
        (\<forall>j < length (sections (layout ! b)).
           section_offset (sections (layout ! b) ! j) = of_nat (sum_list (map sec_bytes (take j (sections (layout ! b)))))))"

lemma round_up:
  assumes "0 < k"
  shows "n div k + (if n mod k \<noteq> 0 then 1 else 0) = (n + (k - 1)) div (k :: nat)"
proof (cases "n mod k = 0")
  case True
  then obtain q where "n = k * q" by auto
  then have "n + (k - 1) = (k - 1) + q * k" by simp
  then have "(n + (k - 1)) div k = q" using assms by (simp only: div_mult_self1) simp
  then show ?thesis using assms \<open>n = k * q\<close> by simp
next
  case False
  then have "n + (k - 1) = (n mod k - 1) + (n div k + 1) * k"
    using assms mult_div_mod_eq [of k n] by (simp add: mult.commute)
  moreover have "(n mod k - 1 + (n div k + 1) * k) div k = n div k + 1"
    using assms by (simp only: div_mult_self1) (simp add: less_imp_diff_less)
  ultimately show ?thesis using False by simp
qed

lemma section_byte_size_eq: "section_byte_size n t = of_nat (section_bytes n t)"
  using round_up [of 8 n] round_up [of 2 n] by (cases t) simp_all

lemma section_size_eq: "section_size sec = of_nat (sec_bytes sec)"
  by (simp add: section_size_def sec_bytes_def section_byte_size_eq)

lemma foldl_section_size: "foldl (\<lambda>total sec. total + section_size sec) w secs = w + of_nat (sum_list (map sec_bytes secs))"
  by (induction secs arbitrary: w) (simp_all add: section_size_eq)

lemma block_size_eq: "block_size b = of_nat (block_bytes b)"
  by (simp add: block_size_def block_bytes_def foldl_section_size)

lemma length_offsets_from [simp]: "length (offsets_from off szs) = length szs"
  by (induction szs arbitrary: off) auto

lemma nth_offsets_from: "i < length szs \<Longrightarrow> offsets_from off szs ! i = off + sum_list (take i szs)"
  by (induction szs arbitrary: off i) (auto simp: nth_Cons add.assoc split: nat.splits)

lemma sum_section_size: "sum_list (map section_size secs) = of_nat (sum_list (map sec_bytes secs))"
  by (induction secs) (auto simp: section_size_eq)

lemma sum_block_size: "sum_list (map block_size bs) = of_nat (sum_list (map block_bytes bs))"
  by (induction bs) (auto simp: block_size_eq)

lemma length_make_block [simp]: "length (make_block secs) = length secs"
  and length_make_layout [simp]: "length (make_layout blocks) = length blocks"
  by (simp_all add: make_block_def make_layout_def)

lemma nth_make_block:
  "i < length secs \<Longrightarrow> make_block secs ! i = (secs ! i)\<lparr>section_offset := of_nat (sum_list (map sec_bytes (take i secs)))\<rparr>"
  by (simp add: make_block_def nth_offsets_from take_map sum_section_size)

lemma nth_make_layout:
  "i < length bs \<Longrightarrow> make_layout bs ! i = (bs ! i)\<lparr>block_offset := of_nat (sum_list (map block_bytes (take i bs)))\<rparr>"
  by (simp add: make_layout_def nth_offsets_from take_map sum_block_size)

lemma sec_bytes_make_block [simp]: "map sec_bytes (make_block secs) = map sec_bytes secs"
  by (rule nth_equalityI) (simp_all add: nth_make_block sec_bytes_def)

lemma block_bytes_make_layout [simp]: "map block_bytes (make_layout bs) = map block_bytes bs"
  by (rule nth_equalityI) (simp_all add: nth_make_layout block_bytes_def)

lemma block_bytes_new [simp]: "block_bytes (new_block secs) = sum_list (map sec_bytes secs)"
  by (simp add: block_bytes_def new_block_def)

definition built_layout :: "db_section list list \<Rightarrow> db_block list" where
  "built_layout bss = make_layout (map (\<lambda>secs. new_block (make_block secs)) bss)"

lemma length_built_layout [simp]: "length (built_layout bss) = length bss"
  by (simp add: built_layout_def)

lemma sections_built_layout: "b < length bss \<Longrightarrow> sections (built_layout bss ! b) = make_block (bss ! b)"
  by (simp add: built_layout_def nth_make_layout new_block_def)

lemma layout_bytes_built: "layout_bytes (built_layout bss) = sum_list (map (sum_list \<circ> map sec_bytes) bss)"
  by (simp add: layout_bytes_def built_layout_def comp_def)

lemma wf_built_layout: "wf_layout (built_layout bss)"
proof -
  let ?bs = "map (\<lambda>secs. new_block (make_block secs)) bss"
  have "section_offset (sections (built_layout bss ! b) ! j)
      = of_nat (sum_list (map sec_bytes (take j (sections (built_layout bss ! b)))))"
    if "b < length bss" "j < length (sections (built_layout bss ! b))" for b j
    using that by (simp add: sections_built_layout nth_make_block flip: take_map)
  moreover have "block_offset (built_layout bss ! b) = of_nat (sum_list (map block_bytes (take b (built_layout bss))))"
    if "b < length bss" for b
    using that by (simp add: built_layout_def nth_make_layout flip: take_map)
  ultimately show ?thesis by (simp add: wf_layout_def)
qed

lemma layout_size_eq: "wf_layout layout \<Longrightarrow> layout_size layout = of_nat (layout_bytes layout)"
proof (cases layout rule: rev_cases)
  case (snoc bs b)
  assume "wf_layout layout"
  then have "block_offset (layout ! length bs) = of_nat (sum_list (map block_bytes (take (length bs) layout)))"
    unfolding wf_layout_def snoc by (metis length_append_singleton lessI)
  then show ?thesis by (simp add: snoc layout_size_def block_size_eq layout_bytes_def)
qed (simp add: layout_size_def layout_bytes_def)

section \<open>Disjointness\<close>

lemma sum_list_take_Suc: "j < length xs \<Longrightarrow> sum_list (map f (take j xs)) + f (xs ! j) = sum_list (map f (take (Suc j) xs))" for f :: "'a \<Rightarrow> nat"
  by (simp add: take_Suc_conv_app_nth)

lemma sum_list_take_mono: "i \<le> j \<Longrightarrow> sum_list (map f (take i xs)) \<le> sum_list (map f (take j xs))" for f :: "'a \<Rightarrow> nat"
  by (metis (no_types) le_add_diff_inverse map_append sum_list_append take_add le_add1)

lemma sum_list_take_le: "sum_list (map f (take i xs)) \<le> sum_list (map f xs)" for f :: "'a \<Rightarrow> nat"
  by (metis append_take_drop_id le_add1 map_append sum_list_append)

lemma sum_list_take_less:
  "i < j \<Longrightarrow> i < length xs \<Longrightarrow> sum_list (map f (take i xs)) + f (xs ! i) \<le> sum_list (map f (take j xs))" for f :: "'a \<Rightarrow> nat"
  by (metis Suc_leI sum_list_take_Suc sum_list_take_mono)

definition sec_at :: "db_block list \<Rightarrow> nat \<Rightarrow> nat \<Rightarrow> db_section" where
  "sec_at layout b j = sections (layout ! b) ! j"

definition has_section :: "db_block list \<Rightarrow> nat \<Rightarrow> nat \<Rightarrow> bool" where
  "has_section layout b j \<longleftrightarrow> b < length layout \<and> j < length (sections (layout ! b))"

lemma section_in_block:
  "has_section layout b j \<Longrightarrow>
     sec_offset layout b j + sec_bytes (sec_at layout b j) \<le> sum_list (map block_bytes (take (Suc b) layout))"
proof -
  assume a: "has_section layout b j"
  have "sum_list (map sec_bytes (take j (sections (layout ! b)))) + sec_bytes (sec_at layout b j) \<le> block_bytes (layout ! b)"
    using a sum_list_take_le [of sec_bytes "Suc j" "sections (layout ! b)"]
    by (simp add: sum_list_take_Suc sec_at_def has_section_def block_bytes_def)
  then show ?thesis using a sum_list_take_Suc [of b layout block_bytes]
    by (simp add: sec_offset_def has_section_def)
qed

lemma section_in_layout:
  "has_section layout b j \<Longrightarrow> sec_offset layout b j + sec_bytes (sec_at layout b j) \<le> layout_bytes layout"
  by (metis section_in_block sum_list_take_le layout_bytes_def le_trans)

lemma section_before:
  assumes "has_section layout b j" "has_section layout b' j'" "b < b' \<or> b = b' \<and> j < j'"
  shows "sec_offset layout b j + sec_bytes (sec_at layout b j) \<le> sec_offset layout b' j'"
proof (cases "b < b'")
  case True
  then show ?thesis
    using section_in_block [OF assms(1)] sum_list_take_mono [of "Suc b" b' block_bytes layout]
    by (simp add: sec_offset_def)
next
  case False
  then show ?thesis
    using assms sum_list_take_less [of j j' "sections (layout ! b)" sec_bytes]
    by (auto simp: sec_offset_def sec_at_def has_section_def)
qed

lemma sections_disjoint:
  assumes "has_section layout b j" "has_section layout b' j'" "(b, j) \<noteq> (b', j')"
    and "a < sec_bytes (sec_at layout b j)" "a' < sec_bytes (sec_at layout b' j')"
  shows "sec_offset layout b j + a \<noteq> sec_offset layout b' j' + a'"
proof -
  consider "b < b' \<or> b = b' \<and> j < j'" | "b' < b \<or> b' = b \<and> j' < j"
    using assms(3) by (metis linorder_neqE_nat)
  then show ?thesis
  proof cases
    case 1
    then show ?thesis using section_before [OF assms(1,2)] assms(4) by simp
  next
    case 2
    then show ?thesis using section_before [OF assms(2,1)] assms(5) by force
  qed
qed

section \<open>Parameters\<close>

fun type_width :: "parameter_type \<Rightarrow> nat" where
  "type_width TWord = 2"
| "type_width TDword = 4"
| "type_width _ = 1"

fun unit_of :: "parameter_type \<Rightarrow> nat \<Rightarrow> nat" where
  "unit_of TBit i = i div 8"
| "unit_of THalfByte i = i div 2"
| "unit_of TByte i = i"
| "unit_of TWord i = i * 2"
| "unit_of TDword i = i * 4"

lemma unit_in_section: "i < n \<Longrightarrow> unit_of t i + type_width t \<le> section_bytes n t"
  by (cases t) auto

lemma type_width_pos [simp]: "0 < type_width t"
  by (cases t) auto

definition has_param :: "db_block list \<Rightarrow> nat \<times> nat \<times> nat \<Rightarrow> bool" where
  "has_param layout p \<longleftrightarrow> (case p of (b, j, i) \<Rightarrow> has_section layout b j \<and> i < number_of_parameters (sec_at layout b j))"

lemma check_parameters_eq: "check_parameters s b j i \<longleftrightarrow> has_param (ldb_layout s) (b, j, i)"
  by (auto simp: check_parameters_def has_param_def has_section_def the_section_def sec_at_def)

end
