(* ===== verification/Less_Db_Storage.thy ===== *)
theory Less_Db_Storage
  imports Less_Db_Layout
begin

text \<open>
  The contract the database expects of its backend, as the locale \<open>ldb_storage\<close>: a byte array
  of \<open>count\<close> cells, multi-byte values little endian. Under the contract \<open>read\<close> returns the
  stored value of a parameter, \<open>update\<close> changes that parameter only, and \<open>init_data\<close> writes
  the defaults. The read cache is part of the invariant: it has to agree with the storage on
  the bytes of bit and half-byte sections.
\<close>

section \<open>Little-endian values\<close>

fun le_value :: "u8 list \<Rightarrow> u32" where
  "le_value [] = 0"
| "le_value (x # xs) = ucast x OR push_bit 8 (le_value xs)"

fun le_bytes :: "nat \<Rightarrow> u32 \<Rightarrow> u8 list" where
  "le_bytes 0 v = []"
| "le_bytes (Suc n) v = ucast v # le_bytes n (drop_bit 8 v)"

lemma length_le_bytes [simp]: "length (le_bytes n v) = n"
  by (induction n v rule: le_bytes.induct) auto

lemma le_value_bytes: "le_value (le_bytes n v) = take_bit (8 * n) v"
proof (induction n v rule: le_bytes.induct)
  case (2 n v)
  show ?case
    by (rule bit_word_eqI) (auto simp: 2 bit_simps algebra_simps)
qed simp

lemma le_value_single [simp]: "le_value [x] = ucast x"
  by simp

definition type_bits :: "parameter_type \<Rightarrow> nat" where
  "type_bits t = (case t of TBit \<Rightarrow> 1 | THalfByte \<Rightarrow> 4 | TByte \<Rightarrow> 8 | TWord \<Rightarrow> 16 | TDword \<Rightarrow> 32)"

text \<open>The value a parameter of type \<open>t\<close> can hold.\<close>

definition type_mask :: "parameter_type \<Rightarrow> u32 \<Rightarrow> u32" where
  "type_mask t v = take_bit (type_bits t) v"

text \<open>A parameter's value from the bytes of the storage unit that holds it.\<close>

fun unpack :: "parameter_type \<Rightarrow> nat \<Rightarrow> u8 list \<Rightarrow> u32" where
  "unpack TBit i bs = of_bool (bit (bs ! 0) (i mod 8))"
| "unpack THalfByte i bs = ucast (take_bit 4 (drop_bit (4 * (i mod 2)) (bs ! 0)))"
| "unpack t i bs = le_value bs"

definition stored :: "u8 list \<Rightarrow> nat \<Rightarrow> parameter_type \<Rightarrow> nat \<Rightarrow> u32" where
  "stored mem a t i = unpack t i (slice (a + unit_of t i) (type_width t) mem)"

lemma BIT_MASK_nth: "k < 8 \<Longrightarrow> BIT_MASK ! k = 2 ^ k"
  by (auto simp: BIT_MASK_def less_Suc_eq numeral_eq_Suc)

lemma length_BIT_MASK: "length BIT_MASK = 8"
  by (simp add: BIT_MASK_def)

section \<open>Steady states\<close>

definition sec_base :: "'h lessdb \<Rightarrow> nat \<Rightarrow> nat \<Rightarrow> nat" where
  "sec_base s b j = unat (initial_address s) + sec_offset (ldb_layout s) b j"

definition sec_type :: "'h lessdb \<Rightarrow> nat \<Rightarrow> nat \<Rightarrow> parameter_type" where
  "sec_type s b j = parameter_type (sec_at (ldb_layout s) b j)"

definition param_address :: "'h lessdb \<Rightarrow> nat \<times> nat \<times> nat \<Rightarrow> nat" where
  "param_address s p = (case p of (b, j, i) \<Rightarrow> sec_base s b j + unit_of (sec_type s b j) i)"

definition param_type :: "'h lessdb \<Rightarrow> nat \<times> nat \<times> nat \<Rightarrow> parameter_type" where
  "param_type s p = (case p of (b, j, i) \<Rightarrow> sec_type s b j)"

definition param_value :: "('h \<Rightarrow> u8 list) \<Rightarrow> 'h lessdb \<Rightarrow> nat \<times> nat \<times> nat \<Rightarrow> u32" where
  "param_value cells s p = (case p of (b, j, i) \<Rightarrow> stored (cells (ldb_hwa s)) (sec_base s b j) (sec_type s b j) i)"

definition packed :: "parameter_type \<Rightarrow> bool" where
  "packed t \<longleftrightarrow> t = TBit \<or> t = THalfByte"

text \<open>The read cache holds the byte at its address wherever a packed parameter would use it.\<close>

definition cache_coherent :: "('h \<Rightarrow> u8 list) \<Rightarrow> 'h lessdb \<Rightarrow> bool" where
  "cache_coherent cells s \<longleftrightarrow>
     (\<forall>p. has_param (ldb_layout s) p \<longrightarrow> packed (param_type s p) \<longrightarrow> last_read_address s = of_nat (param_address s p) \<longrightarrow>
        last_read_value s = cells (ldb_hwa s) ! param_address s p)"

text \<open>
  \<open>array_index\<close> is one byte wide, so a bit section of more than 2048 parameters aliases itself.
\<close>

definition bits_addressable :: "db_block list \<Rightarrow> bool" where
  "bits_addressable layout \<longleftrightarrow>
     (\<forall>blk \<in> set layout. \<forall>sec \<in> set (sections blk). parameter_type sec = TBit \<longrightarrow> number_of_parameters sec \<le> 2048)"

definition ldb_steady :: "('h \<Rightarrow> u8 list) \<Rightarrow> ('h \<Rightarrow> bool) \<Rightarrow> nat \<Rightarrow> 'h lessdb \<Rightarrow> bool" where
  "ldb_steady cells ok count s \<longleftrightarrow>
     ok (ldb_hwa s) \<and> wf_layout (ldb_layout s) \<and> bits_addressable (ldb_layout s) \<and>
     unat (initial_address s) + layout_bytes (ldb_layout s) \<le> count \<and> cache_coherent cells s"

definition same_config :: "'h lessdb \<Rightarrow> 'h lessdb \<Rightarrow> bool" where
  "same_config s t \<longleftrightarrow> initial_address t = initial_address s \<and> layout_uid_member t = layout_uid_member s \<and>
     ldb_layout t = ldb_layout s \<and> init_providers t = init_providers s"

lemma same_config_refl [simp]: "same_config s s" by (simp add: same_config_def)

lemma same_config_trans: "same_config s t \<Longrightarrow> same_config t u \<Longrightarrow> same_config s u"
  by (simp add: same_config_def)

lemma same_config_simps:
  assumes "same_config s t"
  shows "ldb_layout t = ldb_layout s" "sec_base t = sec_base s" "sec_type t = sec_type s"
    "param_address t = param_address s" "param_type t = param_type s" "the_section t = the_section s"
    "init_value t = init_value s" "section_address t = section_address s"
  using assms by (auto simp: same_config_def sec_base_def sec_type_def param_address_def param_type_def
      the_section_def init_value_def section_address_def fun_eq_iff)

lemma same_config_updates [simp]:
  "same_config s (s\<lparr>ldb_hwa := x0\<rparr>)" "same_config s (s\<lparr>last_read_address := x1\<rparr>)" "same_config s (s\<lparr>last_read_value := x2\<rparr>)"
  by (simp_all add: same_config_def)

lemmas state_update_simps [simp] =
  same_config_simps [OF same_config_updates(1)] same_config_simps [OF same_config_updates(2)]
  same_config_simps [OF same_config_updates(3)]

lemma the_section_eq: "the_section s b j = sec_at (ldb_layout s) b j"
  by (simp add: the_section_def sec_at_def)

lemma param_in_layout:
  assumes "has_param (ldb_layout s) p"
  shows "param_address s p + type_width (param_type s p) \<le> unat (initial_address s) + layout_bytes (ldb_layout s)"
proof (cases p)
  case (fields b j i)
  then have "sec_offset (ldb_layout s) b j + sec_bytes (sec_at (ldb_layout s) b j) \<le> layout_bytes (ldb_layout s)"
    using assms section_in_layout by (simp add: has_param_def)
  moreover have "unit_of (sec_type s b j) i + type_width (sec_type s b j) \<le> sec_bytes (sec_at (ldb_layout s) b j)"
    using assms fields by (simp add: has_param_def sec_bytes_def sec_type_def unit_in_section)
  ultimately show ?thesis by (simp add: fields param_address_def param_type_def sec_base_def)
qed

text \<open>Two parameters share a storage unit, or their units do not overlap.\<close>

definition same_unit :: "'h lessdb \<Rightarrow> nat \<times> nat \<times> nat \<Rightarrow> nat \<times> nat \<times> nat \<Rightarrow> bool" where
  "same_unit s p q \<longleftrightarrow> (case p of (b, j, i) \<Rightarrow> case q of (b', j', i') \<Rightarrow>
     b = b' \<and> j = j' \<and> unit_of (sec_type s b j) i = unit_of (sec_type s b j) i')"

lemma units_in_section_disjoint:
  "unit_of t i \<noteq> unit_of t i' \<Longrightarrow> unit_of t i + type_width t \<le> unit_of t i' \<or> unit_of t i' + type_width t \<le> unit_of t i"
proof (cases t)
  case TBit
  assume "unit_of t i \<noteq> unit_of t i'"
  then show ?thesis by (simp only: TBit unit_of.simps type_width.simps) linarith
next
  case THalfByte
  assume "unit_of t i \<noteq> unit_of t i'"
  then show ?thesis by (simp only: THalfByte unit_of.simps type_width.simps) linarith
qed auto

lemma units_disjoint:
  assumes "has_param (ldb_layout s) p" "has_param (ldb_layout s) q" "\<not> same_unit s p q"
  shows "param_address s p + type_width (param_type s p) \<le> param_address s q \<or>
    param_address s q + type_width (param_type s q) \<le> param_address s p"
proof (cases p)
  case p: (fields b j i)
  show ?thesis
  proof (cases q)
    case q: (fields b' j' i')
    have in_sec: "unit_of (sec_type s b j) i + type_width (sec_type s b j) \<le> sec_bytes (sec_at (ldb_layout s) b j)"
      "unit_of (sec_type s b' j') i' + type_width (sec_type s b' j') \<le> sec_bytes (sec_at (ldb_layout s) b' j')"
      using assms(1,2) p q by (simp_all add: has_param_def sec_bytes_def sec_type_def unit_in_section)
    have has: "has_section (ldb_layout s) b j" "has_section (ldb_layout s) b' j'"
      using assms(1,2) p q by (simp_all add: has_param_def)
    consider "b = b' \<and> j = j'" | "b < b' \<or> b = b' \<and> j < j'" | "b' < b \<or> b' = b \<and> j' < j"
      by (metis linorder_neqE_nat)
    then show ?thesis
    proof cases
      case 1
      then have "unit_of (sec_type s b j) i \<noteq> unit_of (sec_type s b j) i'"
        using assms(3) p q by (simp add: same_unit_def)
      then show ?thesis using units_in_section_disjoint 1 p q
        by (simp add: param_address_def param_type_def)
    next
      case 2
      then show ?thesis using section_before [OF has] in_sec(1) p q
        by (simp add: param_address_def param_type_def sec_base_def)
    next
      case 3
      then show ?thesis using section_before [OF has(2,1)] in_sec(2) p q
        by (simp add: param_address_def param_type_def sec_base_def)
    qed
  qed
qed

lemma same_unit_address: "same_unit s p q \<Longrightarrow> param_address s q = param_address s p \<and> param_type s q = param_type s p"
  by (auto simp: same_unit_def param_address_def param_type_def split: prod.splits)

lemma param_value_eq: "param_value cells s p =
    unpack (param_type s p) (snd (snd p)) (slice (param_address s p) (type_width (param_type s p)) (cells (ldb_hwa s)))"
  by (simp add: param_value_def stored_def param_type_def param_address_def split: prod.splits)

section \<open>The storage contract\<close>

locale ldb_storage =
  fixes E :: "'h ldb_env" and cells :: "'h \<Rightarrow> u8 list" and ok :: "'h \<Rightarrow> bool" and count :: nat
  assumes count_less: "count < 2 ^ 32"
    and storage_count: "ok h \<Longrightarrow> ldb_address_count E h = of_nat count"
    and storage_length: "ok h \<Longrightarrow> length (cells h) = count"
    and storage_read: "ok h \<Longrightarrow> unat a + type_width t \<le> count \<Longrightarrow>
      \<exists>h'. ldb_read E a t h = (Some (le_value (slice (unat a) (type_width t) (cells h))), h') \<and> ok h' \<and> cells h' = cells h"
    and storage_write: "ok h \<Longrightarrow> unat a + type_width t \<le> count \<Longrightarrow>
      \<exists>h'. ldb_write E a v t h = (True, h') \<and> ok h' \<and>
        cells h' = overwrite (unat a) (le_bytes (type_width t) v) (cells h)"
begin

abbreviation "steady \<equiv> ldb_steady cells ok count"
abbreviation "pvalue \<equiv> param_value cells"

lemma steady_ok: "steady s \<Longrightarrow> ok (ldb_hwa s)"
  by (simp add: ldb_steady_def)

lemma steady_length: "steady s \<Longrightarrow> length (cells (ldb_hwa s)) = count"
  by (simp add: ldb_steady_def storage_length)

lemma param_bound:
  "steady s \<Longrightarrow> has_param (ldb_layout s) p \<Longrightarrow> param_address s p + type_width (param_type s p) \<le> count"
  using param_in_layout [of s p] by (simp add: ldb_steady_def)

lemma param_address_less:
  "steady s \<Longrightarrow> has_param (ldb_layout s) p \<Longrightarrow> param_address s p < 2 ^ 32 - 1"
  using param_bound [of s p] type_width_pos [of "param_type s p"] count_less by linarith

lemma unat_address:
  "steady s \<Longrightarrow> has_param (ldb_layout s) p \<Longrightarrow> unat (of_nat (param_address s p) :: u32) = param_address s p"
  using param_address_less [of s p] by (simp add: unat_of_nat32)

lemma address_inj:
  assumes "steady s" "has_param (ldb_layout s) p" "has_param (ldb_layout s) q"
    and "(of_nat (param_address s p) :: u32) = of_nat (param_address s q)"
  shows "param_address s p = param_address s q"
  using assms unat_address by metis

lemma address_valid:
  "steady s \<Longrightarrow> has_param (ldb_layout s) p \<Longrightarrow> (of_nat (param_address s p) :: u32) \<noteq> INVALID_ADDRESS"
proof
  assume a: "steady s" "has_param (ldb_layout s) p" and "(of_nat (param_address s p) :: u32) = INVALID_ADDRESS"
  then have "param_address s p = unat (0xFFFFFFFF :: u32)" using unat_address by (metis INVALID_ADDRESS_def)
  then show False using param_address_less [OF a] by simp
qed

lemma section_address_eq:
  assumes "steady s" "has_section (ldb_layout s) b j"
  shows "section_address s b j = of_nat (sec_base s b j)"
  using assms
  by (simp add: section_address_def ldb_steady_def wf_layout_def has_section_def sec_base_def sec_offset_def
      the_section_def)

lemma hwa_read_ok:
  assumes "ok (ldb_hwa s)" "a + type_width t \<le> count"
  shows "\<exists>h'. hwa_read_call E (of_nat a) t s = (Some (le_value (slice a (type_width t) (cells (ldb_hwa s)))), s\<lparr>ldb_hwa := h'\<rparr>) \<and>
    ok h' \<and> cells h' = cells (ldb_hwa s)"
proof -
  have "unat (of_nat a :: u32) = a"
    using assms(2) count_less type_width_pos [of t] by (simp add: unat_of_nat32)
  then show ?thesis using storage_read [OF assms(1), of "of_nat a" t] assms(2)
    by (auto simp: hwa_read_call_def)
qed

text \<open>A write of one storage unit, verified by the read-back.\<close>

lemma write_verify_ok:
  assumes "ok (ldb_hwa s)" "a + type_width t \<le> count"
  shows "\<exists>h'. ldb_write_verify E (of_nat a) v t s =
      (take_bit (8 * type_width t) v = v,
       s\<lparr>ldb_hwa := h', last_read_address := (if last_read_address s = of_nat a then INVALID_ADDRESS else last_read_address s)\<rparr>) \<and>
    ok h' \<and> cells h' = overwrite a (le_bytes (type_width t) v) (cells (ldb_hwa s))"
proof -
  let ?ds = "le_bytes (type_width t) v"
  have a: "unat (of_nat a :: u32) = a"
    using assms(2) count_less type_width_pos [of t] by (simp add: unat_of_nat32)
  obtain h1 where w: "ldb_write E (of_nat a) v t (ldb_hwa s) = (True, h1)" "ok h1"
      "cells h1 = overwrite a ?ds (cells (ldb_hwa s))"
    using storage_write [OF assms(1), of "of_nat a" t v] assms(2) a by auto
  have "slice a (type_width t) (cells h1) = ?ds"
    using slice_overwrite_same [of a ?ds "cells (ldb_hwa s)"] assms w(3) by (simp add: storage_length)
  then obtain h2 where r: "ldb_read E (of_nat a) t h1 = (Some (take_bit (8 * type_width t) v), h2)" "ok h2" "cells h2 = cells h1"
    using storage_read [OF w(2), of "of_nat a" t] assms(2) a by (auto simp: le_value_bytes)
  show ?thesis
    using w r by (intro exI [of _ h2]) (auto simp: ldb_write_verify_def hwa_read_call_def Let_def)
qed

lemma coherent_after_write:
  assumes s: "steady s" and p: "has_param (ldb_layout s) p"
    and ds: "length ds = type_width (param_type s p)"
    and cells': "cells h' = overwrite (param_address s p) ds (cells (ldb_hwa s))"
  shows "cache_coherent cells
    (s\<lparr>ldb_hwa := h', last_read_address := (if last_read_address s = of_nat (param_address s p) then INVALID_ADDRESS
        else last_read_address s)\<rparr>)"
proof -
  have "last_read_value s = cells h' ! param_address s q"
    if q: "has_param (ldb_layout s) q" "packed (param_type s q)"
      and hit: "last_read_address s = of_nat (param_address s q)" and ne: "last_read_address s \<noteq> of_nat (param_address s p)" for q
  proof -
    have "\<not> same_unit s p q" using same_unit_address [of s p q] hit ne by auto
    then have "param_address s q < param_address s p \<or> param_address s p + length ds \<le> param_address s q"
      using units_disjoint [OF p q(1)] ds type_width_pos [of "param_type s q"] by linarith
    moreover have "param_address s q < count" using param_bound [OF s q(1)] type_width_pos [of "param_type s q"] by linarith
    ultimately have "cells h' ! param_address s q = cells (ldb_hwa s) ! param_address s q"
      using param_bound [OF s p] steady_length [OF s] ds by (auto simp: cells' nth_overwrite)
    moreover have "last_read_value s = cells (ldb_hwa s) ! param_address s q"
      using s q hit unfolding ldb_steady_def cache_coherent_def by blast
    ultimately show ?thesis by simp
  qed
  then show ?thesis
    using address_valid [OF s] by (simp add: cache_coherent_def) metis
qed

end

end
