(* ===== verification/Less_Db_Correct.thy ===== *)
theory Less_Db_Correct
  imports Less_Db_Storage
begin

text \<open>
  The operations of the database under the storage contract: what \<open>read\<close> returns, what
  \<open>update\<close> and \<open>init_data\<close> change, and that the invariant is kept.
\<close>

text \<open>
  Every parameter keeps its value except those in the storage unit of \<open>p\<close>, whose bytes
  become \<open>ds\<close>.
\<close>

definition unit_written :: "('h \<Rightarrow> u8 list) \<Rightarrow> 'h lessdb \<Rightarrow> nat \<times> nat \<times> nat \<Rightarrow> u8 list \<Rightarrow> 'h lessdb \<Rightarrow> bool" where
  "unit_written cells s p ds s' \<longleftrightarrow>
     (\<forall>q. has_param (ldb_layout s) q \<longrightarrow>
        param_value cells s' q =
          (if same_unit s p q then unpack (param_type s p) (snd (snd q)) ds else param_value cells s q))"

lemma unit_writtenD:
  "unit_written cells s p ds s' \<Longrightarrow> has_param (ldb_layout s) q \<Longrightarrow>
    param_value cells s' q = (if same_unit s p q then unpack (param_type s p) (snd (snd q)) ds else param_value cells s q)"
  unfolding unit_written_def by blast

lemma unpack_bit: "k mod 8 = i mod 8 \<or> bit (x :: u8) (k mod 8) = bit y (k mod 8) \<Longrightarrow>
    unpack TBit k [if v then y OR 2 ^ (i mod 8) else y AND NOT (2 ^ (i mod 8))] =
      (if k mod 8 = i mod 8 then of_bool v else unpack TBit k [y])"
  by (auto simp: bit_simps)

lemma take_bit_32 [simp]: "take_bit 32 (v :: u32) = v"
  by (rule bit_word_eqI) (simp add: bit_simps)

lemma and_not_ucast: "ucast (y :: u8) AND NOT (ucast (z :: u8)) = (ucast (y AND NOT z) :: u32)"
  by (rule bit_word_eqI) (auto simp: bit_simps dest: bit_imp_le_length)

lemma mask_values:
  "v AND 1 = take_bit 1 v" "v AND BYTE_MASK = take_bit 8 v" "v AND WORD_MASK = take_bit 16 v"
  "v AND ucast LOW_NIBBLE_MASK = take_bit 4 v"
  by (simp_all add: take_bit_eq_mask model_defs mask_eq_exp_minus_1)

text \<open>Setting the nibble of parameter \<open>i\<close> in the byte \<open>y\<close>.\<close>

definition put_nibble :: "nat \<Rightarrow> u32 \<Rightarrow> u32 \<Rightarrow> u32" where
  "put_nibble i y v = (if i mod BYTE_NIBBLE_COUNT \<noteq> 0 then (y AND ucast LOW_NIBBLE_MASK) OR push_bit 4 v
     else (y AND ucast HIGH_NIBBLE_MASK) OR v)"

lemma nibble_bits:
  "bit HIGH_NIBBLE_MASK k \<longleftrightarrow> 4 \<le> k \<and> k < 8"
proof -
  have "HIGH_NIBBLE_MASK = push_bit 4 (mask 4)"
    by (simp add: model_defs mask_eq_exp_minus_1)
  show ?thesis unfolding \<open>HIGH_NIBBLE_MASK = push_bit 4 (mask 4)\<close> by (auto simp: bit_simps)
qed

lemma put_nibble_byte: "take_bit 8 (put_nibble i (ucast (y :: u8)) (take_bit 4 v)) = put_nibble i (ucast y) (take_bit 4 v)"
  by (rule bit_word_eqI) (auto simp: put_nibble_def mask_values nibble_bits bit_simps dest: bit_imp_le_length)

lemma unpack_nibble:
  "unpack THalfByte k [ucast (put_nibble i (ucast y) (take_bit 4 v))] =
     (if k mod 2 = i mod 2 then take_bit 4 v else unpack THalfByte k [y])"
proof (cases "k mod 2 = i mod 2")
  case True
  then show ?thesis
    by (intro bit_word_eqI) (auto simp: put_nibble_def mask_values nibble_bits bit_simps dest: bit_imp_le_length)
next
  case False
  then have "k mod 2 = 1 \<and> i mod 2 = 0 \<or> k mod 2 = 0 \<and> i mod 2 = 1" by linarith
  then show ?thesis
    by (intro bit_word_eqI) (auto simp: put_nibble_def mask_values nibble_bits bit_simps dest: bit_imp_le_length)
qed

context ldb_storage
begin

lemma write_unit:
  assumes s: "steady s" and p: "has_param (ldb_layout s) p"
    and w: "type_width t = type_width (param_type s p)" and fits: "take_bit (8 * type_width t) v = v"
  shows "\<exists>s'. ldb_write_verify E (of_nat (param_address s p)) v t s = (True, s') \<and> steady s' \<and> same_config s s' \<and>
    unit_written cells s p (le_bytes (type_width t) v) s'"
proof -
  let ?ds = "le_bytes (type_width t) v" and ?a = "param_address s p"
  have bound: "?a + type_width t \<le> count" using param_bound [OF s p] w by simp
  obtain h' where h': "ldb_write_verify E (of_nat ?a) v t s = (True,
      s\<lparr>ldb_hwa := h', last_read_address := (if last_read_address s = of_nat ?a then INVALID_ADDRESS else last_read_address s)\<rparr>)"
      "ok h'" "cells h' = overwrite ?a ?ds (cells (ldb_hwa s))"
    using write_verify_ok [OF steady_ok [OF s] bound, of v] fits by auto
  let ?s' = "s\<lparr>ldb_hwa := h', last_read_address := (if last_read_address s = of_nat ?a then INVALID_ADDRESS else last_read_address s)\<rparr>"
  have "steady ?s'"
    using s h' coherent_after_write [OF s p, of ?ds h'] w by (simp add: ldb_steady_def)
  moreover have "same_config s ?s'" by (simp add: same_config_def)
  moreover have "unit_written cells s p ?ds ?s'"
    unfolding unit_written_def
  proof (intro allI impI)
    fix q assume q: "has_param (ldb_layout s) q"
    have len: "length (cells (ldb_hwa s)) = count" by (rule steady_length [OF s])
    show "param_value cells ?s' q = (if same_unit s p q then unpack (param_type s p) (snd (snd q)) ?ds else param_value cells s q)"
    proof (cases "same_unit s p q")
      case True
      have "slice ?a (length ?ds) (cells h') = ?ds"
        unfolding h'(3) using bound len by (intro slice_overwrite_same) simp
      then show ?thesis using True same_unit_address [OF True] w by (simp add: param_value_eq)
    next
      case False
      have "slice (param_address s q) (type_width (param_type s q)) (cells h')
          = slice (param_address s q) (type_width (param_type s q)) (cells (ldb_hwa s))"
        unfolding h'(3) using bound len w units_disjoint [OF p q False] param_bound [OF s q]
        by (intro slice_overwrite_disjoint) auto
      then show ?thesis using False by (simp add: param_value_eq)
    qed
  qed
  ultimately show ?thesis using h'(1) by blast
qed

lemma unit_addresses:
  assumes s: "steady s" and p: "has_param (ldb_layout s) (b, j, i)"
  shows "section_address s b j = of_nat (sec_base s b j)"
    and "of_nat (param_address s (b, j, i)) = section_address s b j + of_nat (unit_of (sec_type s b j) i)"
    and "sec_type s b j = TBit \<Longrightarrow> ucast (array_index_of i) = (of_nat (i div 8) :: u32)"
    and "sec_type s b j = TBit \<Longrightarrow> unat (bit_index_of i) = i mod 8"
proof -
  show base: "section_address s b j = of_nat (sec_base s b j)"
    using section_address_eq [OF s] p by (simp add: has_param_def)
  show "of_nat (param_address s (b, j, i)) = section_address s b j + of_nat (unit_of (sec_type s b j) i)"
    by (simp add: base param_address_def)
  assume "sec_type s b j = TBit"
  moreover have "ldb_layout s ! b \<in> set (ldb_layout s)" "sec_at (ldb_layout s) b j \<in> set (sections (ldb_layout s ! b))"
    using p by (auto simp: has_param_def has_section_def sec_at_def)
  ultimately have "number_of_parameters (sec_at (ldb_layout s) b j) \<le> 2048"
    using s by (auto simp: ldb_steady_def bits_addressable_def sec_type_def)
  then have i: "i div 8 < 256" using p by (auto simp: has_param_def)
  then have a: "unat (array_index_of i) = i div 8"
    by (simp add: array_index_of_def unat_of_nat take_bit_nat_eq_self)
  then show "ucast (array_index_of i) = (of_nat (i div 8) :: u32)"
    by (simp flip: a)
  have "i - i div 8 * 8 = i mod 8" by (simp add: minus_div_mult_eq_mod)
  moreover have "i mod 8 < 2 ^ 8" by (rule less_trans [of _ 8]) auto
  ultimately show "unat (bit_index_of i) = i mod 8"
    using a by (simp add: bit_index_of_def unat_of_nat take_bit_nat_eq_self)
qed

lemma hwa_read_param:
  assumes "steady s" "has_param (ldb_layout s) p" "type_width t = type_width (param_type s p)"
  shows "\<exists>h'. hwa_read_call E (of_nat (param_address s p)) t s =
      (Some (le_value (slice (param_address s p) (type_width t) (cells (ldb_hwa s)))), s\<lparr>ldb_hwa := h'\<rparr>) \<and>
    steady (s\<lparr>ldb_hwa := h'\<rparr>) \<and> cells h' = cells (ldb_hwa s)"
proof -
  obtain h' where h': "hwa_read_call E (of_nat (param_address s p)) t s =
      (Some (le_value (slice (param_address s p) (type_width t) (cells (ldb_hwa s)))), s\<lparr>ldb_hwa := h'\<rparr>)"
      "ok h'" "cells h' = cells (ldb_hwa s)"
    using hwa_read_ok [OF steady_ok [OF assms(1)], of "param_address s p" t] param_bound [OF assms(1,2)] assms(3) by auto
  then have "steady (s\<lparr>ldb_hwa := h'\<rparr>)"
    using assms(1) by (simp add: ldb_steady_def cache_coherent_def)
  then show ?thesis using h' by blast
qed

text \<open>A packed unit is one byte.\<close>

lemma packed_slice:
  assumes "steady s" "has_param (ldb_layout s) p" "packed (param_type s p)"
  shows "slice (param_address s p) 1 (cells (ldb_hwa s)) = [cells (ldb_hwa s) ! param_address s p]"
proof -
  have "param_address s p < length (cells (ldb_hwa s))"
    using param_bound [OF assms(1,2)] steady_length [OF assms(1)] type_width_pos [of "param_type s p"] by linarith
  then show ?thesis by (simp add: slice_def take_Suc hd_drop_conv_nth drop_eq_Nil2)
qed

text \<open>The result of an update: the parameter holds the masked value and nothing else changes.\<close>

abbreviation "updated s p v s' \<equiv> steady s' \<and> same_config s s' \<and>
  (\<forall>q. has_param (ldb_layout s) q \<longrightarrow> pvalue s' q = (if q = p then type_mask (param_type s p) v else pvalue s q))"

lemma update_whole:
  assumes s: "steady s" and p: "has_param (ldb_layout s) p" and t: "\<not> packed (param_type s p)"
  shows "\<exists>s'. ldb_write_verify E (of_nat (param_address s p)) (type_mask (param_type s p) v) (param_type s p) s = (True, s') \<and>
    updated s p v s'"
proof -
  let ?t = "param_type s p" and ?v = "type_mask (param_type s p) v"
  have bits: "type_bits ?t = 8 * type_width ?t" using t by (cases ?t) (auto simp: packed_def type_bits_def)
  then have "take_bit (8 * type_width ?t) ?v = ?v" by (simp add: type_mask_def)
  from write_unit [OF s p refl this] obtain s' where s': "ldb_write_verify E (of_nat (param_address s p)) ?v ?t s = (True, s')"
      "steady s'" "same_config s s'" "unit_written cells s p (le_bytes (type_width ?t) ?v) s'" by blast
  have "same_unit s p q \<longleftrightarrow> q = p" for q
    using t by (cases ?t) (auto simp: same_unit_def param_type_def packed_def split: prod.splits)
  moreover have "unpack ?t i (le_bytes (type_width ?t) ?v) = ?v" for i
  proof -
    have "unpack ?t i (le_bytes (type_width ?t) ?v) = le_value (le_bytes (type_width ?t) ?v)"
      using t by (cases ?t) (auto simp: packed_def)
    then show ?thesis using bits by (simp add: le_value_bytes type_mask_def)
  qed
  ultimately have "updated s p v s'" using s' by (simp add: unit_written_def)
  then show ?thesis using s'(1) by blast
qed

lemma update_packed:
  assumes s: "steady s" and p: "has_param (ldb_layout s) p" and t: "packed (param_type s p)" "type_width t = 1"
    and new: "\<And>q. same_unit s p q \<Longrightarrow> has_param (ldb_layout s) q \<Longrightarrow> unpack (param_type s p) (snd (snd q)) [x] =
      (if q = p then type_mask (param_type s p) v
       else unpack (param_type s p) (snd (snd q)) [cells (ldb_hwa s) ! param_address s p])"
  shows "\<exists>s'. ldb_write_verify E (of_nat (param_address s p)) (ucast x) t s = (True, s') \<and> updated s p v s'"
proof -
  have w: "type_width (param_type s p) = 1" using t(1) by (auto simp: packed_def)
  have "take_bit (8 * type_width t) (ucast x :: u32) = ucast x"
    by (rule bit_word_eqI) (auto simp: t bit_simps dest: bit_imp_le_length)
  from write_unit [OF s p _ this] t(2) w obtain s' where s': "ldb_write_verify E (of_nat (param_address s p)) (ucast x) t s = (True, s')"
      "steady s'" "same_config s s'" "unit_written cells s p [x] s'" by auto
  have "pvalue s' q = (if q = p then type_mask (param_type s p) v else pvalue s q)" if q: "has_param (ldb_layout s) q" for q
  proof (cases "same_unit s p q")
    case True
    have "pvalue s q = unpack (param_type s p) (snd (snd q)) [cells (ldb_hwa s) ! param_address s p]"
      using packed_slice [OF s p t(1)] same_unit_address [OF True] w by (simp add: param_value_eq)
    then show ?thesis using unit_writtenD [OF s'(4) q] True new [OF True q] by simp
  next
    case False
    then have "q \<noteq> p" by (auto simp: same_unit_def split: prod.splits)
    then show ?thesis using unit_writtenD [OF s'(4) q] False by simp
  qed
  then show ?thesis using s' by blast
qed

lemma new_bit:
  assumes "same_unit s p q" "has_param (ldb_layout s) p" "param_type s p = TBit"
  shows "unpack TBit (snd (snd q)) [if v AND 1 \<noteq> 0 then y OR 2 ^ (snd (snd p) mod 8) else y AND NOT (2 ^ (snd (snd p) mod 8))] =
    (if q = p then type_mask TBit v else unpack TBit (snd (snd q)) [y])"
proof -
  obtain b j i where p: "p = (b, j, i)" by (cases p)
  obtain k where q: "q = (b, j, k)" "k div 8 = i div 8"
    using assms by (cases q) (auto simp: p same_unit_def param_type_def)
  have "k = i \<longleftrightarrow> k mod 8 = i mod 8" using q(2) by (metis div_mult_mod_eq)
  moreover have "type_mask TBit v = of_bool (v AND 1 \<noteq> 0)"
    by (simp add: type_mask_def type_bits_def and_one_eq take_bit_Suc mod_2_eq_odd)
  ultimately show ?thesis
    by (cases "k = i") (auto simp: p q bit_simps)
qed

lemma new_nibble:
  assumes "same_unit s p q" "has_param (ldb_layout s) p" "param_type s p = THalfByte"
  shows "unpack THalfByte (snd (snd q)) [ucast (put_nibble (snd (snd p)) (ucast y) (take_bit 4 v))] =
    (if q = p then type_mask THalfByte v else unpack THalfByte (snd (snd q)) [y])"
proof -
  obtain b j i where p: "p = (b, j, i)" by (cases p)
  obtain k where q: "q = (b, j, k)" "k div 2 = i div 2"
    using assms by (cases q) (auto simp: p same_unit_def param_type_def)
  have "k = i \<longleftrightarrow> k mod 2 = i mod 2" using q(2) by (metis div_mult_mod_eq)
  then show ?thesis using unpack_nibble [of k i y v] by (simp add: p q type_mask_def type_bits_def)
qed

theorem update_ok:
  assumes s: "steady s" and p: "has_param (ldb_layout s) (b, j, i)"
  shows "\<exists>s'. lessdb_update E b j i v s = (True, s') \<and> updated s (b, j, i) v s'"
proof -
  let ?p = "(b, j, i)"
  have chk: "check_parameters s b j i" "ldb_layout s \<noteq> []"
    using p by (auto simp: check_parameters_eq has_param_def has_section_def)
  note addr = unit_addresses [OF s p]
  have ty: "parameter_type (the_section s b j) = sec_type s b j" "param_type s ?p = sec_type s b j"
    by (simp_all add: the_section_eq sec_type_def param_type_def)
  show ?thesis
  proof (cases "packed (sec_type s b j)")
    case False
    have "lessdb_update E b j i v s =
        ldb_write_verify E (of_nat (param_address s ?p)) (type_mask (sec_type s b j) v) (sec_type s b j) s"
      using False unfolding lessdb_update_def addr(2)
      by (cases "sec_type s b j") (simp_all add: chk ty mask_values type_mask_def type_bits_def packed_def Let_def)
    then show ?thesis using update_whole [OF s p, of v] False ty by simp
  next
    case True
    have t: "type_width (sec_type s b j) = 1" using True by (auto simp: packed_def)
    let ?y = "cells (ldb_hwa s) ! param_address s ?p"
    obtain h' where r: "hwa_read_call E (of_nat (param_address s ?p)) (sec_type s b j) s = (Some (ucast ?y), s\<lparr>ldb_hwa := h'\<rparr>)"
        "steady (s\<lparr>ldb_hwa := h'\<rparr>)" "cells h' = cells (ldb_hwa s)"
      using hwa_read_param [OF s p, of "sec_type s b j"] packed_slice [OF s p] True ty t by auto
    let ?s = "s\<lparr>ldb_hwa := h'\<rparr>"
    have same: "pvalue ?s q = pvalue s q" for q by (simp add: param_value_eq r(3))
    consider "sec_type s b j = TBit" | "sec_type s b j = THalfByte" using True by (auto simp: packed_def)
    then show ?thesis
    proof cases
      case 1
      let ?x = "if v AND 1 \<noteq> 0 then ?y OR 2 ^ (i mod 8) else ?y AND NOT (2 ^ (i mod 8))"
      have "lessdb_update E b j i v s = ldb_write_verify E (of_nat (param_address s ?p)) (ucast ?x) TBit ?s"
        using r(1) 1 addr(3,4) unfolding lessdb_update_def addr(2)
        by (auto simp: chk ty BIT_MASK_nth unsigned_or_eq and_not_ucast Let_def)
      moreover have "\<exists>s'. ldb_write_verify E (of_nat (param_address ?s ?p)) (ucast ?x) TBit ?s = (True, s') \<and> updated ?s ?p v s'"
      proof (intro update_packed [OF r(2)])
        fix q assume q: "same_unit ?s ?p q"
        have "param_type ?s ?p = TBit" "cells (ldb_hwa ?s) ! param_address ?s ?p = ?y" using 1 ty r(3) by simp_all
        then show "unpack (param_type ?s ?p) (snd (snd q)) [?x] = (if q = ?p then type_mask (param_type ?s ?p) v
            else unpack (param_type ?s ?p) (snd (snd q)) [cells (ldb_hwa ?s) ! param_address ?s ?p])"
          using new_bit [OF q, of v ?y, unfolded snd_conv] p by (simp del: unpack.simps)
      qed (use p 1 ty in \<open>auto simp: packed_def\<close>)
      ultimately show ?thesis by (auto simp: same same_config_def)
    next
      case 2
      let ?x = "ucast (put_nibble i (ucast ?y) (take_bit 4 v)) :: u8"
      have "ucast ?x = put_nibble i (ucast ?y) (take_bit 4 v)"
        by (simp add: ucast_u32_u8 put_nibble_byte)
      then have "lessdb_update E b j i v s = ldb_write_verify E (of_nat (param_address s ?p)) (ucast ?x) THalfByte ?s"
        using r(1) 2 unfolding lessdb_update_def addr(2)
        by (auto simp: chk ty put_nibble_def mask_values Let_def)
      moreover have "\<exists>s'. ldb_write_verify E (of_nat (param_address ?s ?p)) (ucast ?x) THalfByte ?s = (True, s') \<and> updated ?s ?p v s'"
      proof (intro update_packed [OF r(2)])
        fix q assume q: "same_unit ?s ?p q"
        have "param_type ?s ?p = THalfByte" "cells (ldb_hwa ?s) ! param_address ?s ?p = ?y" using 2 ty r(3) by simp_all
        then show "unpack (param_type ?s ?p) (snd (snd q)) [?x] = (if q = ?p then type_mask (param_type ?s ?p) v
            else unpack (param_type ?s ?p) (snd (snd q)) [cells (ldb_hwa ?s) ! param_address ?s ?p])"
          using new_nibble [OF q, of ?y v, unfolded snd_conv] p by (simp del: unpack.simps)
      qed (use p 2 ty in \<open>auto simp: packed_def\<close>)
      ultimately show ?thesis by (auto simp: same same_config_def)
    qed
  qed
qed

text \<open>The state after a read: the storage and every parameter are unchanged.\<close>

abbreviation "unchanged s s' \<equiv> steady s' \<and> same_config s s' \<and> (\<forall>q. pvalue s' q = pvalue s q)"

lemma unchanged_cache:
  assumes s: "steady s" and h: "ok h'" "cells h' = cells (ldb_hwa s)" and p: "has_param (ldb_layout s) p"
    and v: "packed (param_type s p) \<Longrightarrow> v = cells (ldb_hwa s) ! param_address s p"
    and s': "s' = s\<lparr>ldb_hwa := h', last_read_value := v, last_read_address := of_nat (param_address s p)\<rparr>"
  shows "unchanged s s'"
proof -
  have "v = cells (ldb_hwa s) ! param_address s q"
    if q: "has_param (ldb_layout s) q" "packed (param_type s q)" "(of_nat (param_address s p) :: u32) = of_nat (param_address s q)" for q
  proof -
    have a: "param_address s p = param_address s q" using address_inj [OF s p q(1) q(3)] .
    have "same_unit s p q"
      using units_disjoint [OF p q(1)] a type_width_pos [of "param_type s p"] type_width_pos [of "param_type s q"] by linarith
    then show ?thesis using same_unit_address [of s p q] q(2) v a by simp
  qed
  then have "steady s'" using s h by (simp add: s' ldb_steady_def cache_coherent_def)
  then show ?thesis using h by (simp add: s' param_value_eq same_config_def)
qed

lemma le_value_fits: "take_bit (8 * length bs) (le_value bs) = le_value bs"
proof (induction bs)
  case (Cons x xs)
  have "bit (le_value xs) k \<Longrightarrow> k < 8 * length xs" for k
    using Cons by (metis bit_take_bit_iff)
  then show ?case
    by (intro bit_word_eqI) (fastforce simp: bit_simps dest: bit_imp_le_length)
qed simp

lemma unpack_bit_read: "test_bit_mask (ucast (y :: u8)) k = unpack TBit i [y]" if "unat k = i mod 8"
proof -
  have "i mod 8 < 8" by simp
  then have "BIT_MASK ! unat k = 2 ^ (i mod 8)" using that by (simp add: BIT_MASK_nth)
  moreover have "ucast y AND (ucast (2 ^ (i mod 8) :: u8) :: u32) = ucast (y AND 2 ^ (i mod 8))"
    by (simp add: unsigned_and_eq)
  moreover have "(ucast (y AND 2 ^ (i mod 8)) :: u32) = 0 \<longleftrightarrow> y AND 2 ^ (i mod 8) = 0"
    by (metis ucast_u8_u32 unsigned_0)
  ultimately show ?thesis by (simp add: test_bit_mask_def and_exp_eq_0_iff_not_bit)
qed

lemma unpack_nibble_read: "read_nibble (ucast (y :: u8)) i = unpack THalfByte i [y]"
  by (rule bit_word_eqI) (auto simp: read_nibble_def mask_values bit_simps)

theorem read_ok:
  assumes s: "steady s" and p: "has_param (ldb_layout s) (b, j, i)"
  shows "\<exists>s'. lessdb_read E b j i s = (Some (pvalue s (b, j, i)), s') \<and> unchanged s s'"
proof -
  let ?p = "(b, j, i)" and ?t = "sec_type s b j"
  have chk: "check_parameters s b j i" using p by (simp add: check_parameters_eq)
  note addr = unit_addresses [OF s p]
  have ty: "parameter_type (the_section s b j) = ?t" "param_type s ?p = ?t"
    by (simp_all add: the_section_eq sec_type_def param_type_def)
  obtain h' where r: "hwa_read_call E (of_nat (param_address s ?p)) ?t s =
      (Some (le_value (slice (param_address s ?p) (type_width ?t) (cells (ldb_hwa s)))), s\<lparr>ldb_hwa := h'\<rparr>)"
      "steady (s\<lparr>ldb_hwa := h'\<rparr>)" "cells h' = cells (ldb_hwa s)"
    using hwa_read_param [OF s p, of ?t] ty by auto
  note okh = steady_ok [OF r(2), simplified]
  let ?a = "of_nat (param_address s ?p) :: u32" and ?y = "cells (ldb_hwa s) ! param_address s ?p"
  show ?thesis
  proof (cases "packed ?t")
    case True
    then have w: "type_width ?t = 1" by (auto simp: packed_def)
    have r1: "hwa_read_call E ?a ?t s = (Some (ucast ?y), s\<lparr>ldb_hwa := h'\<rparr>)"
      using r(1) packed_slice [OF s p] True ty w by simp
    have val: "pvalue s ?p = unpack ?t i [?y]"
      using packed_slice [OF s p] True ty w by (simp add: param_value_eq)
    define f where "f v = (if ?t = TBit then test_bit_mask v (bit_index_of i) else read_nibble v i)" for v
    have f: "f (ucast ?y) = unpack ?t i [?y]"
      using True addr(4) unpack_bit_read [of "bit_index_of i" i] unpack_nibble_read [of ?y i]
      by (auto simp: f_def packed_def)
    have eq: "lessdb_read E b j i s = finish_read ?a
        (if ?a = last_read_address s then (Some (f (ucast (last_read_value s))), s)
         else case hwa_read_call E ?a ?t s of
           (Some v, s) \<Rightarrow> (Some (f v), s\<lparr>last_read_value := ucast v\<rparr>) | (None, s) \<Rightarrow> (None, s))"
      using True addr(3) unfolding lessdb_read_def addr(2)
      by (auto simp: chk ty packed_def f_def Let_def split: option.splits prod.splits)
    show ?thesis
    proof (cases "?a = last_read_address s")
      case hit: True
      then have "last_read_value s = ?y"
        using s p True ty unfolding ldb_steady_def cache_coherent_def by metis
      then have "lessdb_read E b j i s = (Some (pvalue s ?p), s\<lparr>last_read_address := ?a\<rparr>)"
        using eq hit f val by (simp add: finish_read_def)
      moreover have "unchanged s (s\<lparr>last_read_address := ?a\<rparr>)"
        by (rule unchanged_cache [OF s steady_ok [OF s] refl p]) (use \<open>last_read_value s = ?y\<close> in auto)
      ultimately show ?thesis by blast
    next
      case False
      then have "lessdb_read E b j i s = (Some (pvalue s ?p), s\<lparr>ldb_hwa := h', last_read_value := ?y, last_read_address := ?a\<rparr>)"
        using eq r1 f val by (simp add: finish_read_def)
      moreover have "unchanged s (s\<lparr>ldb_hwa := h', last_read_value := ?y, last_read_address := ?a\<rparr>)"
        by (rule unchanged_cache [OF s okh r(3) p]) auto
      ultimately show ?thesis by blast
    qed
  next
    case False
    have val: "pvalue s ?p = le_value (slice (param_address s ?p) (type_width ?t) (cells (ldb_hwa s)))"
      using False ty by (cases ?t) (auto simp: param_value_eq packed_def)
    let ?v = "le_value (slice (param_address s ?p) (type_width ?t) (cells (ldb_hwa s)))"
    have fits: "take_bit (8 * type_width ?t) ?v = ?v"
      using le_value_fits [of "slice (param_address s ?p) (type_width ?t) (cells (ldb_hwa s))"]
        param_bound [OF s p] steady_length [OF s] ty by (simp add: min_absorb1)
    show ?thesis
    proof (cases "?t = TDword")
      case True
      then have "lessdb_read E b j i s = hwa_read_call E ?a ?t s"
        unfolding lessdb_read_def addr(2) by (simp add: chk ty Let_def)
      moreover have "unchanged s (s\<lparr>ldb_hwa := h'\<rparr>)" using r by (simp add: param_value_eq)
      ultimately show ?thesis using r(1) val by auto
    next
      case False
      let ?s' = "s\<lparr>ldb_hwa := h', last_read_address := ?a\<rparr>"
      have "lessdb_read E b j i s = (Some ?v, ?s')"
        using \<open>\<not> packed ?t\<close> False r(1) fits unfolding lessdb_read_def addr(2)
        by (cases ?t) (simp_all add: chk ty packed_def mask_values finish_read_def Let_def del: le_value.simps)
      moreover have "unchanged s ?s'"
        by (rule unchanged_cache [OF s okh r(3) p, of "last_read_value s"]) (use \<open>\<not> packed ?t\<close> ty in auto)
      ultimately show ?thesis using val by auto
    qed
  qed
qed

end

end
