(* ===== verification/Less_Db_Reset.thy ===== *)
theory Less_Db_Reset
  imports Less_Db_Correct
begin

text \<open>
  Factory reset: \<open>init_data\<close> writes every parameter of the sections it does not skip, with the
  value of the first init provider that gives one, or the section's default.
\<close>

section \<open>The values written\<close>

definition param_default :: "'h lessdb \<Rightarrow> nat \<times> nat \<times> nat \<Rightarrow> u32" where
  "param_default s p = (case p of (b, j, i) \<Rightarrow>
     let sec = the_section s b j in
     init_value s b j i
       (if \<not> packed (parameter_type sec) \<and> auto_increment sec = IncrementEnable then default_value sec + of_nat i
        else default_value sec))"

definition all_params :: "db_block list \<Rightarrow> (nat \<times> nat \<times> nat) list" where
  "all_params layout =
     concat (map (\<lambda>b. concat (map (\<lambda>j. map (\<lambda>i. (b, j, i)) [0 ..< number_of_parameters (sec_at layout b j)])
       [0 ..< length (sections (layout ! b))])) [0 ..< length layout])"

lemma set_all_params: "p \<in> set (all_params layout) \<longleftrightarrow> has_param layout p"
  by (cases p) (force simp: all_params_def has_param_def has_section_def)

definition reset_skips :: "factory_reset_type \<Rightarrow> 'h lessdb \<Rightarrow> nat \<Rightarrow> nat \<Rightarrow> bool" where
  "reset_skips type s b j \<longleftrightarrow> preserve_on_partial_reset (the_section s b j) = PreserveEnable \<and> type = ResetPartial"

text \<open>
  \<open>init_data\<close> writes byte and word values unmasked and verifies them by reading back, so they
  have to fit.
\<close>

definition default_fits :: "factory_reset_type \<Rightarrow> 'h lessdb \<Rightarrow> nat \<times> nat \<times> nat \<Rightarrow> bool" where
  "default_fits type s p \<longleftrightarrow> reset_skips type s (fst p) (fst (snd p)) \<or> packed (param_type s p) \<or>
     type_mask (param_type s p) (param_default s p) = param_default s p"

definition defaults_fit :: "factory_reset_type \<Rightarrow> 'h lessdb \<Rightarrow> bool" where
  "defaults_fit type s \<longleftrightarrow> list_all (default_fits type s) (all_params (ldb_layout s))"

lemma defaults_fit_iff: "defaults_fit type s \<longleftrightarrow> (\<forall>p. has_param (ldb_layout s) p \<longrightarrow> default_fits type s p)"
  unfolding defaults_fit_def list_all_iff using set_all_params by blast

lemma defaults_fitD:
  "defaults_fit type s \<Longrightarrow> has_param (ldb_layout s) p \<Longrightarrow> \<not> packed (param_type s p) \<Longrightarrow>
    \<not> reset_skips type s (fst p) (fst (snd p)) \<Longrightarrow> type_mask (param_type s p) (param_default s p) = param_default s p"
  unfolding defaults_fit_iff default_fits_def by blast

lemma defaults_fit_full: "defaults_fit ResetFull s \<Longrightarrow> defaults_fit type s"
  unfolding defaults_fit_iff default_fits_def reset_skips_def by blast

lemma same_config_defaults:
  assumes "same_config s t"
  shows "param_default t = param_default s" "defaults_fit type t = defaults_fit type s"
    "reset_skips type t = reset_skips type s" "default_fits type t = default_fits type s"
proof -
  note eqs = same_config_simps [OF assms]
  show d: "param_default t = param_default s"
    by (rule ext) (simp add: param_default_def eqs)
  show r: "reset_skips type t = reset_skips type s" by (simp add: reset_skips_def eqs fun_eq_iff)
  show f: "default_fits type t = default_fits type s" by (rule ext) (simp add: default_fits_def eqs d r)
  show "defaults_fit type t = defaults_fit type s" by (simp add: defaults_fit_def eqs f)
qed

lemma pack_bits_config: "same_config s t \<Longrightarrow> pack_bits t b j loop ns val = pack_bits s b j loop ns val"
  by (induction ns arbitrary: val) (simp_all add: same_config_simps Let_def)

lemma pack_nibbles_config: "same_config s t \<Longrightarrow> pack_nibbles t b j loop ns val = pack_nibbles s b j loop ns val"
  by (induction ns arbitrary: val) (simp_all add: same_config_simps Let_def)

lemma pack_value_config: "same_config s t \<Longrightarrow> pack_value t b j loop = pack_value s b j loop"
  by (simp add: pack_value_def pack_bits_config pack_nibbles_config same_config_simps)

text \<open>The packed byte has the bit of every parameter it holds.\<close>

lemma pack_bits_bit:
  assumes "m < 8" "a \<le> 8"
  shows "bit (pack_bits s b j loop [a ..< 8] val) m \<longleftrightarrow> bit val m \<or>
    (a \<le> m \<and> loop * 8 + m < number_of_parameters (the_section s b j) \<and>
     init_value s b j (loop * 8 + m) (default_value (the_section s b j)) AND 1 \<noteq> 0)"
  using assms(2)
proof (induction "8 - a" arbitrary: a val)
  case (Suc n)
  then have a: "[a ..< 8] = a # [Suc a ..< 8]" by (intro upt_conv_Cons) simp
  have IH: "bit (pack_bits s b j loop [Suc a ..< 8] v) m \<longleftrightarrow> bit v m \<or>
    (Suc a \<le> m \<and> loop * 8 + m < number_of_parameters (the_section s b j) \<and>
     init_value s b j (loop * 8 + m) (default_value (the_section s b j)) AND 1 \<noteq> 0)" for v
    using Suc(1) [of "Suc a" v] Suc(2,3) by simp
  have bit_mask: "bit (val OR BIT_MASK ! a) m \<longleftrightarrow> bit val m \<or> m = a"
    using Suc(2,3) \<open>m < 8\<close> by (auto simp: BIT_MASK_nth bit_simps)
  show ?case
  proof (cases "number_of_parameters (the_section s b j) \<le> loop * 8 + a")
    case True
    then show ?thesis unfolding a by (auto simp: Let_def)
  next
    case False
    let ?d = "init_value s b j (loop * 8 + a) (default_value (the_section s b j)) AND 1"
    have step: "pack_bits s b j loop (a # [Suc a ..< 8]) val
        = pack_bits s b j loop [Suc a ..< 8] (if ?d \<noteq> 0 then val OR BIT_MASK ! a else val)"
      using False by (simp add: Let_def)
    have "a \<le> m \<longleftrightarrow> m = a \<or> Suc a \<le> m" by auto
    then show ?thesis unfolding a step IH using bit_mask False by (cases "?d = 0") auto
  qed
next
  case 0
  then show ?case using \<open>m < 8\<close> by simp
qed

lemma mask_bit_eq: "type_mask TBit v = of_bool (v AND 1 \<noteq> 0)"
  by (simp add: type_mask_def type_bits_def and_one_eq take_bit_Suc mod_2_eq_odd)

lemma pack_value_bit:
  assumes "parameter_type (the_section s b j) = TBit" "i < number_of_parameters (the_section s b j)" "i div 8 = loop"
  shows "unpack TBit i [pack_value s b j loop] = type_mask TBit (param_default s (b, j, i))"
proof -
  have "loop * 8 + i mod 8 = i" using assms(3) by auto
  then show ?thesis
    using assms pack_bits_bit [of "i mod 8" 0 s b j loop 0]
    by (simp add: pack_value_def param_default_def packed_def mask_bit_eq Let_def)
qed

lemma pack_value_nibble:
  assumes "parameter_type (the_section s b j) = THalfByte" "i < number_of_parameters (the_section s b j)" "i div 2 = loop"
  shows "unpack THalfByte i [pack_value s b j loop] = type_mask THalfByte (param_default s (b, j, i))"
proof -
  have up: "[0 ..< 2] = [0, 1 :: nat]" by (simp add: upt_conv_Cons)
  let ?f = "\<lambda>i. init_value s b j i (default_value (the_section s b j))"
  have pv: "pack_value s b j loop =
      (if number_of_parameters (the_section s b j) \<le> loop * 2 then 0
       else if number_of_parameters (the_section s b j) \<le> loop * 2 + 1 then ucast (take_bit 4 (?f (loop * 2)))
       else ucast (take_bit 4 (?f (loop * 2))) OR ucast (push_bit 4 (take_bit 4 (?f (loop * 2 + 1)))))"
    using assms(1) by (simp add: pack_value_def up mask_values Let_def)
  have d: "param_default s (b, j, i) = ?f i" using assms(1) by (simp add: param_default_def packed_def Let_def)
  show ?thesis
  proof (cases "i mod 2 = 0")
    case True
    then have "i = loop * 2" using assms(3) by auto
    then show ?thesis using assms(2) unfolding pv d
      by (intro bit_word_eqI) (auto simp: type_mask_def type_bits_def bit_simps)
  next
    case False
    then have "i = loop * 2 + 1" using assms(3) by presburger
    moreover have "Suc (loop * 2) mod 2 = 1" by presburger
    ultimately show ?thesis using assms(2) unfolding pv d
      by (intro bit_word_eqI) (auto simp: type_mask_def type_bits_def bit_simps)
  qed
qed

section \<open>The loops\<close>

context ldb_storage
begin

text \<open>The parameters in \<open>S\<close> hold their defaults, the others their old values.\<close>

definition initialised :: "(nat \<times> nat \<times> nat) set \<Rightarrow> 'h lessdb \<Rightarrow> 'h lessdb \<Rightarrow> bool" where
  "initialised S s s' \<longleftrightarrow> steady s' \<and> same_config s s' \<and>
     (\<forall>q. has_param (ldb_layout s) q \<longrightarrow>
        pvalue s' q = (if q \<in> S then type_mask (param_type s q) (param_default s q) else pvalue s q))"

lemma initialised_refl: "steady s \<Longrightarrow> initialised {} s s"
  by (simp add: initialised_def)

lemma initialised_value:
  "initialised S s s' \<Longrightarrow> has_param (ldb_layout s) q \<Longrightarrow>
    pvalue s' q = (if q \<in> S then type_mask (param_type s q) (param_default s q) else pvalue s q)"
  unfolding initialised_def by blast

lemma initialised_trans:
  assumes "initialised S s s'" "initialised T s' s''"
  shows "initialised (S \<union> T) s s''"
proof -
  have c: "same_config s s'" using assms(1) by (simp add: initialised_def)
  note eqs = same_config_simps [OF c] same_config_defaults [OF c]
  have "pvalue s'' q = (if q \<in> S \<union> T then type_mask (param_type s q) (param_default s q) else pvalue s q)"
    if "has_param (ldb_layout s) q" for q
    using initialised_value [OF assms(1) that] initialised_value [OF assms(2), of q] that by (simp add: eqs)
  then show ?thesis using assms same_config_trans [of s s' s''] unfolding initialised_def by blast
qed

lemma initialised_cong:
  "initialised S s s' \<Longrightarrow> (\<And>q. has_param (ldb_layout s) q \<Longrightarrow> q \<in> S \<longleftrightarrow> q \<in> T) \<Longrightarrow> initialised T s s'"
  unfolding initialised_def by auto

lemma initialisedD:
  assumes "initialised S s s'"
  shows "steady s'" "same_config s s'"
  using assms by (simp_all add: initialised_def)

lemma init_whole_ok:
  assumes "steady s" "has_section (ldb_layout s) b j" "\<not> packed (sec_type s b j)"
    "defaults_fit type s" "\<not> reset_skips type s b j"
    and "k \<le> number_of_parameters (sec_at (ldb_layout s) b j)"
  shows "\<exists>s'. init_whole E b j [k ..< number_of_parameters (sec_at (ldb_layout s) b j)]
        (of_nat (sec_base s b j + unit_of (sec_type s b j) k)) s = (True, s') \<and>
      initialised {(b, j, i) |i. k \<le> i} s s'"
  using assms
proof (induction "number_of_parameters (sec_at (ldb_layout s) b j) - k" arbitrary: k s)
  case 0
  then have "k = number_of_parameters (sec_at (ldb_layout s) b j)" by simp
  then have "initialised {(b, j, i) |i. k \<le> i} s s"
    by (intro initialised_cong [OF initialised_refl [OF 0(2)]]) (auto simp: has_param_def)
  then show ?case using \<open>k = _\<close> by simp
next
  case (Suc m)
  let ?n = "number_of_parameters (sec_at (ldb_layout s) b j)" and ?p = "(b, j, k)" and ?t = "sec_type s b j"
  have k: "[k ..< ?n] = k # [Suc k ..< ?n]" using Suc(2) by (intro upt_conv_Cons) simp
  have p: "has_param (ldb_layout s) ?p" using Suc(2,4) by (simp add: has_param_def)
  have pt: "param_type s ?p = ?t" by (simp add: param_type_def)
  have ty: "parameter_type (the_section s b j) = ?t" by (simp add: the_section_eq sec_type_def)
  have fit: "type_mask ?t (param_default s ?p) = param_default s ?p"
    using defaults_fitD [OF Suc(6) p] Suc(5,7) pt by simp
  obtain s1 where s1: "ldb_write_verify E (of_nat (param_address s ?p)) (param_default s ?p) ?t s = (True, s1)"
      "updated s ?p (param_default s ?p) s1"
    using update_whole [OF Suc(3) p, of "param_default s ?p"] Suc(5) fit pt by auto
  then have c: "same_config s s1" by blast
  note eqs = same_config_simps [OF c] same_config_defaults [OF c]
  have i1: "initialised {?p} s s1" using s1(2) unfolding initialised_def by simp
  have addr: "of_nat (sec_base s b j + unit_of ?t k) + value_step ?t = (of_nat (sec_base s b j + unit_of ?t (Suc k)) :: u32)"
    using Suc(5) by (cases ?t) (auto simp: value_step_def packed_def)
  have "m = number_of_parameters (sec_at (ldb_layout s1) b j) - Suc k" "Suc k \<le> number_of_parameters (sec_at (ldb_layout s1) b j)"
    using Suc(2) by (simp_all add: eqs)
  then obtain s2 where s2: "init_whole E b j [Suc k ..< ?n] (of_nat (sec_base s b j + unit_of ?t (Suc k))) s1 = (True, s2)"
      "initialised {(b, j, i) |i. Suc k \<le> i} s1 s2"
    using Suc(1) [of s1 "Suc k"] s1(2) Suc(4-7) by (auto simp: eqs)
  have "init_whole E b j [k ..< ?n] (of_nat (sec_base s b j + unit_of ?t k)) s = (True, s2)"
  proof -
    have d: "(if auto_increment (the_section s b j) = IncrementEnable
        then init_value s b j k (default_value (the_section s b j) + of_nat k)
        else init_value s b j k (default_value (the_section s b j))) = param_default s ?p"
      using Suc(5) by (simp add: param_default_def ty Let_def)
    have a: "of_nat (sec_base s b j + unit_of ?t k) = (of_nat (param_address s ?p) :: u32)"
      by (simp add: param_address_def)
    show ?thesis unfolding k init_whole.simps Let_def d ty addr
      unfolding a s1(1) and_then_True by (rule s2(1))
  qed
  moreover have "initialised {(b, j, i) |i. k \<le> i} s s2"
    by (rule initialised_cong [OF initialised_trans [OF i1 s2(2)]]) (auto simp: Suc_le_eq le_less)
  ultimately show ?case by blast
qed

definition per_unit :: "parameter_type \<Rightarrow> nat" where
  "per_unit t = (if t = TBit then 8 else 2)"

lemma packed_unit: "packed t \<Longrightarrow> unit_of t i = i div per_unit t"
  by (auto simp: packed_def per_unit_def)

lemma pack_value_unpack:
  assumes "packed (sec_type s b j)" "i < number_of_parameters (sec_at (ldb_layout s) b j)" "unit_of (sec_type s b j) i = k"
  shows "unpack (sec_type s b j) i [pack_value s b j k] = type_mask (sec_type s b j) (param_default s (b, j, i))"
  using assms pack_value_bit [of s b j i k] pack_value_nibble [of s b j i k]
  by (auto simp: packed_def the_section_eq sec_type_def simp del: unpack.simps)

lemma init_packed_ok:
  assumes "steady s" "has_section (ldb_layout s) b j" "packed (sec_type s b j)"
    and "k \<le> sec_bytes (sec_at (ldb_layout s) b j)"
  shows "\<exists>s'. init_packed E b j [k ..< sec_bytes (sec_at (ldb_layout s) b j)] (of_nat (sec_base s b j + k)) s = (True, s') \<and>
      initialised {(b, j, i) |i. k \<le> unit_of (sec_type s b j) i} s s'"
  using assms
proof (induction "sec_bytes (sec_at (ldb_layout s) b j) - k" arbitrary: k s)
  case 0
  then have "k = sec_bytes (sec_at (ldb_layout s) b j)" by simp
  moreover have "unit_of (sec_type s b j) i < sec_bytes (sec_at (ldb_layout s) b j)" if "has_param (ldb_layout s) (b, j, i)" for i
    using that unit_in_section [of i "number_of_parameters (sec_at (ldb_layout s) b j)" "sec_type s b j"]
      type_width_pos [of "sec_type s b j"]
    by (simp add: has_param_def sec_bytes_def sec_type_def del: type_width_pos)
  ultimately have "initialised {(b, j, i) |i. k \<le> unit_of (sec_type s b j) i} s s"
    by (intro initialised_cong [OF initialised_refl [OF 0(2)]]) (auto simp: not_le)
  then show ?case using \<open>k = _\<close> by auto
next
  case (Suc m)
  let ?sec = "sec_at (ldb_layout s) b j" and ?t = "sec_type s b j"
  let ?n = "number_of_parameters ?sec" and ?p = "(b, j, k * per_unit ?t)"
  have k: "[k ..< sec_bytes ?sec] = k # [Suc k ..< sec_bytes ?sec]" using Suc(2) by (intro upt_conv_Cons) simp
  have "k < sec_bytes ?sec" using Suc(2) by simp
  then have "k * per_unit ?t < ?n"
    using Suc(5) by (auto simp: packed_def per_unit_def sec_bytes_def sec_type_def)
  then have p: "has_param (ldb_layout s) ?p" using Suc(4) by (simp add: has_param_def)
  have pt: "param_type s ?p = ?t" by (simp add: param_type_def)
  have pos: "0 < per_unit ?t" by (simp add: per_unit_def)
  have u: "unit_of ?t (k * per_unit ?t) = k" using Suc(5) pos by (simp add: packed_unit)
  have a: "param_address s ?p = sec_base s b j + k" by (simp add: param_address_def u)
  let ?x = "pack_value s b j k"
  have w: "type_width TByte = type_width (param_type s ?p)" using Suc(5) by (auto simp: packed_def pt)
  have fits: "take_bit (8 * type_width TByte) (ucast ?x) = (ucast ?x :: u32)"
    by (rule bit_word_eqI) (auto simp: bit_simps dest: bit_imp_le_length)
  obtain s1 where s1: "ldb_write_verify E (of_nat (sec_base s b j + k)) (ucast ?x) TByte s = (True, s1)" "steady s1"
      "same_config s s1" "unit_written cells s ?p [?x] s1"
    using write_unit [OF Suc(3) p w fits] a by auto
  note eqs = same_config_simps [OF s1(3)] same_config_defaults [OF s1(3)]
  have i1: "initialised {(b, j, i) |i. unit_of ?t i = k} s s1"
    unfolding initialised_def
  proof (intro conjI allI impI s1(2,3))
    fix q assume q: "has_param (ldb_layout s) q"
    obtain b' j' i where q': "q = (b', j', i)" by (cases q)
    have same: "same_unit s ?p q \<longleftrightarrow> q \<in> {(b, j, i) |i. unit_of ?t i = k}"
      using u q' by (auto simp: same_unit_def)
    show "pvalue s1 q = (if q \<in> {(b, j, i) |i. unit_of ?t i = k} then type_mask (param_type s q) (param_default s q) else pvalue s q)"
    proof (cases "same_unit s ?p q")
      case True
      then have "b' = b" "j' = j" "unit_of ?t i = k" "i < ?n" using same q' q by (auto simp: has_param_def)
      then show ?thesis using unit_writtenD [OF s1(4) q] True same pack_value_unpack [OF Suc(5), of i k] q'
        by (simp add: pt param_type_def del: unpack.simps)
    next
      case False
      then have "q \<notin> {(b, j, i) |i. unit_of ?t i = k}" using same by blast
      then show ?thesis using unit_writtenD [OF s1(4) q] False by (simp only: if_False)
    qed
  qed
  have "m = sec_bytes (sec_at (ldb_layout s1) b j) - Suc k" "Suc k \<le> sec_bytes (sec_at (ldb_layout s1) b j)"
    using Suc(2) by (simp_all add: eqs)
  then obtain s2 where s2: "init_packed E b j [Suc k ..< sec_bytes ?sec] (of_nat (sec_base s b j + Suc k)) s1 = (True, s2)"
      "initialised {(b, j, i) |i. Suc k \<le> unit_of ?t i} s1 s2"
    using Suc(1) [of s1 "Suc k"] s1(2) Suc(4,5) by (auto simp: eqs)
  have "init_packed E b j [k ..< sec_bytes ?sec] (of_nat (sec_base s b j + k)) s = (True, s2)"
    using s2(1) unfolding k init_packed.simps s1(1) and_then_True by (simp add: add.commute add.left_commute)
  moreover have "initialised {(b, j, i) |i. k \<le> unit_of ?t i} s s2"
    by (rule initialised_cong [OF initialised_trans [OF i1 s2(2)]]) (auto simp: Suc_le_eq le_less)
  ultimately show ?case by blast
qed

definition section_params :: "nat \<Rightarrow> nat \<Rightarrow> (nat \<times> nat \<times> nat) set" where
  "section_params b j = {p. fst p = b \<and> fst (snd p) = j}"

lemma init_section_packed:
  assumes s: "steady s" and sec: "has_section (ldb_layout s) b j" and True: "packed (sec_type s b j)"
    and noskip: "\<not> reset_skips type s b j"
  shows "\<exists>s'. init_section E type b j s = (True, s') \<and> initialised (section_params b j) s s'"
proof -
  let ?sec = "sec_at (ldb_layout s) b j"
  have "init_section E type b j s = init_packed E b j [0 ..< sec_bytes ?sec] (of_nat (sec_base s b j + 0)) s"
    using round_up [of 8 "number_of_parameters ?sec"] round_up [of 2 "number_of_parameters ?sec"] True
    unfolding init_section_def Let_def if_not_P [OF noskip [unfolded reset_skips_def]] section_address_eq [OF s sec]
    by (auto simp: packed_def sec_bytes_def sec_type_def the_section_eq)
  then show ?thesis using init_packed_ok [OF s sec True le0]
    by (auto simp: section_params_def elim!: initialised_cong)
qed

lemma init_section_whole:
  assumes s: "steady s" and sec: "has_section (ldb_layout s) b j" and np: "\<not> packed (sec_type s b j)"
    and noskip: "\<not> reset_skips type s b j"
  shows "init_section E type b j s = init_whole E b j [0 ..< number_of_parameters (sec_at (ldb_layout s) b j)]
      (of_nat (sec_base s b j + unit_of (sec_type s b j) 0)) s"
  using np unfolding init_section_def Let_def if_not_P [OF noskip [unfolded reset_skips_def]] section_address_eq [OF s sec]
  by (cases "sec_type s b j") (auto simp: packed_def the_section_eq sec_type_def)

lemma init_section_ok:
  assumes s: "steady s" and sec: "has_section (ldb_layout s) b j" and fit: "defaults_fit type s"
  shows "\<exists>s'. init_section E type b j s = (True, s') \<and>
    initialised (if reset_skips type s b j then {} else section_params b j) s s'"
proof (cases "reset_skips type s b j")
  case True
  then show ?thesis using initialised_refl [OF s] by (simp add: init_section_def reset_skips_def Let_def)
next
  case False
  show ?thesis
  proof (cases "packed (sec_type s b j)")
    case True
    then show ?thesis using init_section_packed [OF s sec True False] False by simp
  next
    case np: False
    then show ?thesis using init_whole_ok [OF s sec np fit False le0] False
      unfolding init_section_whole [OF s sec np False]
      by (auto simp: section_params_def elim!: initialised_cong)
  qed
qed

lemma init_sections_ok:
  assumes "steady s" "\<forall>j \<in> set js. has_section (ldb_layout s) b j" "defaults_fit type s"
  shows "\<exists>s'. init_sections E type b js s = (True, s') \<and>
    initialised (\<Union>j \<in> {j \<in> set js. \<not> reset_skips type s b j}. section_params b j) s s'"
  using assms
proof (induction js arbitrary: s)
  case Nil
  then show ?case using initialised_refl by simp
next
  case (Cons j js)
  then obtain s1 where s1: "init_section E type b j s = (True, s1)"
      "initialised (if reset_skips type s b j then {} else section_params b j) s s1"
    using init_section_ok [of s b j type] by auto
  note eqs = same_config_simps [OF initialisedD(2) [OF s1(2)]] same_config_defaults [OF initialisedD(2) [OF s1(2)]]
  obtain s2 where s2: "init_sections E type b js s1 = (True, s2)"
      "initialised (\<Union>j \<in> {j \<in> set js. \<not> reset_skips type s b j}. section_params b j) s1 s2"
    using Cons(1) [OF initialisedD(1) [OF s1(2)]] Cons(3,4) by (auto simp: eqs)
  then show ?case using s1 by (auto elim!: initialised_cong dest: initialised_trans split: if_splits)
qed

lemma init_blocks_ok:
  assumes "steady s" "\<forall>b \<in> set bs. b < length (ldb_layout s)" "defaults_fit type s"
  shows "\<exists>s'. init_blocks E type bs s = (True, s') \<and>
    initialised {p. fst p \<in> set bs \<and> \<not> reset_skips type s (fst p) (fst (snd p))} s s'"
  using assms
proof (induction bs arbitrary: s)
  case Nil
  then show ?case using initialised_refl by simp
next
  case (Cons b bs)
  let ?js = "[0 ..< length (sections (ldb_layout s ! b))]"
  have "\<forall>j \<in> set ?js. has_section (ldb_layout s) b j" using Cons(3) by (simp add: has_section_def)
  from init_sections_ok [OF Cons(2) this Cons(4)] obtain s1 where s1: "init_sections E type b ?js s = (True, s1)"
      "initialised (\<Union>j \<in> {j \<in> set ?js. \<not> reset_skips type s b j}. section_params b j) s s1" by blast
  note eqs = same_config_simps [OF initialisedD(2) [OF s1(2)]] same_config_defaults [OF initialisedD(2) [OF s1(2)]]
  obtain s2 where s2: "init_blocks E type bs s1 = (True, s2)"
      "initialised {p. fst p \<in> set bs \<and> \<not> reset_skips type s (fst p) (fst (snd p))} s1 s2"
    using Cons(1) [OF initialisedD(1) [OF s1(2)]] Cons(3,4) by (auto simp: eqs)
  have "initialised {p. fst p \<in> set (b # bs) \<and> \<not> reset_skips type s (fst p) (fst (snd p))} s s2"
    by (rule initialised_cong [OF initialised_trans [OF s1(2) s2(2)]])
      (auto simp: section_params_def has_param_def has_section_def)
  then show ?case using s1(1) s2(1) by auto
qed

theorem init_data_ok:
  assumes "steady s" "defaults_fit type s"
  shows "\<exists>s'. init_data E type s = (True, s') \<and>
    initialised {p. \<not> reset_skips type s (fst p) (fst (snd p))} s s'"
proof -
  obtain s' where s': "init_data E type s = (True, s')"
      "initialised {p. fst p \<in> set [0 ..< length (ldb_layout s)] \<and> \<not> reset_skips type s (fst p) (fst (snd p))} s s'"
    using init_blocks_ok [OF assms(1) _ assms(2), of "[0 ..< length (ldb_layout s)]"] by (auto simp: init_data_def)
  have "initialised {p. \<not> reset_skips type s (fst p) (fst (snd p))} s s'"
    by (rule initialised_cong [OF s'(2)]) (auto simp: has_param_def has_section_def)
  then show ?thesis using s'(1) by blast
qed

section \<open>A reset that reports success\<close>

text \<open>The converse: when a default does not fit, the reset fails.\<close>

abbreviation "succeeds_fit type s s' ps \<equiv> steady s' \<and> same_config s s' \<and>
  (\<forall>p. has_param (ldb_layout s) p \<longrightarrow> p \<in> ps \<longrightarrow> default_fits type s p)"

lemma whole_write_fits:
  assumes s: "steady s" and p: "has_param (ldb_layout s) p" and t: "\<not> packed (param_type s p)"
    and w: "ldb_write_verify E (of_nat (param_address s p)) v (param_type s p) s = (True, s')"
  shows "type_mask (param_type s p) v = v" and "updated s p v s'"
proof -
  have bits: "type_bits (param_type s p) = 8 * type_width (param_type s p)"
    using t by (cases "param_type s p") (auto simp: packed_def type_bits_def)
  show fits: "type_mask (param_type s p) v = v"
    using write_verify_ok [OF steady_ok [OF s] param_bound [OF s p], of v] w by (auto simp: type_mask_def bits)
  show "updated s p v s'"
    using update_whole [OF s p t, of v] w unfolding fits by auto
qed

lemma init_whole_True:
  assumes "steady s" "has_section (ldb_layout s) b j" "\<not> packed (sec_type s b j)"
    and "k \<le> number_of_parameters (sec_at (ldb_layout s) b j)"
    and "init_whole E b j [k ..< number_of_parameters (sec_at (ldb_layout s) b j)]
        (of_nat (sec_base s b j + unit_of (sec_type s b j) k)) s = (True, s')"
  shows "succeeds_fit type s s' {(b, j, i) |i. k \<le> i}"
  using assms
proof (induction "number_of_parameters (sec_at (ldb_layout s) b j) - k" arbitrary: k s)
  case 0
  then have "k = number_of_parameters (sec_at (ldb_layout s) b j)" by simp
  then show ?case using 0 by (auto simp: has_param_def)
next
  case (Suc m)
  let ?n = "number_of_parameters (sec_at (ldb_layout s) b j)" and ?p = "(b, j, k)" and ?t = "sec_type s b j"
  have k: "[k ..< ?n] = k # [Suc k ..< ?n]" using Suc(2) by (intro upt_conv_Cons) simp
  have p: "has_param (ldb_layout s) ?p" using Suc(2,4) by (simp add: has_param_def)
  have pt: "param_type s ?p = ?t" by (simp add: param_type_def)
  have ty: "parameter_type (the_section s b j) = ?t" by (simp add: the_section_eq sec_type_def)
  have d: "(if auto_increment (the_section s b j) = IncrementEnable
      then init_value s b j k (default_value (the_section s b j) + of_nat k)
      else init_value s b j k (default_value (the_section s b j))) = param_default s ?p"
    using Suc(5) by (simp add: param_default_def ty Let_def)
  have a: "of_nat (sec_base s b j + unit_of ?t k) = (of_nat (param_address s ?p) :: u32)"
    by (simp add: param_address_def)
  have addr: "of_nat (sec_base s b j + unit_of ?t k) + value_step ?t = (of_nat (sec_base s b j + unit_of ?t (Suc k)) :: u32)"
    using Suc(5) by (cases ?t) (auto simp: value_step_def packed_def)
  obtain s1 where s1: "ldb_write_verify E (of_nat (param_address s ?p)) (param_default s ?p) ?t s = (True, s1)"
      "init_whole E b j [Suc k ..< ?n] (of_nat (sec_base s b j + unit_of ?t (Suc k))) s1 = (True, s')"
    using Suc(7) unfolding k init_whole.simps Let_def d ty addr a [symmetric] by (auto simp: and_then_eq_True)
  note fits = whole_write_fits [OF Suc(3) p _ s1(1) [folded pt], unfolded pt, OF Suc(5)]
  then have c: "same_config s s1" and st1: "steady s1" by blast+
  note eqs = same_config_simps [OF c] same_config_defaults [OF c]
  have rest: "succeeds_fit type s1 s' {(b, j, i) |i. Suc k \<le> i}"
    by (rule Suc(1)) (use Suc(2,4,5) st1 s1(2) in \<open>simp_all add: eqs\<close>)
  show ?case
  proof (intro conjI allI impI)
    show "steady s'" using rest by blast
    show "same_config s s'" using rest same_config_trans [OF c] by blast
    fix q assume q: "has_param (ldb_layout s) q" "q \<in> {(b, j, i) |i. k \<le> i}"
    show "default_fits type s q"
    proof (cases "q = ?p")
      case True
      then show ?thesis using fits(1) pt by (simp add: default_fits_def)
    next
      case False
      then have "q \<in> {(b, j, i) |i. Suc k \<le> i}" using q(2) by (auto simp: le_less Suc_le_eq)
      then show ?thesis using rest q(1) by (simp only: eqs)
    qed
  qed
qed

lemma init_section_True:
  assumes s: "steady s" and sec: "has_section (ldb_layout s) b j" and run: "init_section E type b j s = (True, s')"
  shows "succeeds_fit type s s' (section_params b j)"
proof (cases "reset_skips type s b j \<or> packed (sec_type s b j)")
  case True
  then have "default_fits type s p" if "p \<in> section_params b j" for p
    using that by (auto simp: default_fits_def section_params_def param_type_def split: prod.splits)
  moreover have "steady s' \<and> same_config s s'"
  proof (cases "reset_skips type s b j")
    case True
    then show ?thesis using run s by (auto simp: init_section_def reset_skips_def Let_def)
  next
    case False
    then have "packed (sec_type s b j)" using True by simp
    then have "\<exists>S s''. init_section E type b j s = (True, s'') \<and> initialised S s s''"
      using init_section_packed [OF s sec _ False] by blast
    then show ?thesis using run initialisedD by auto
  qed
  ultimately show ?thesis by blast
next
  case False
  then have "init_section E type b j s = init_whole E b j [0 ..< number_of_parameters (sec_at (ldb_layout s) b j)]
      (of_nat (sec_base s b j + unit_of (sec_type s b j) 0)) s"
    using init_section_whole [OF s sec] by simp
  then show ?thesis using init_whole_True [OF s sec, of 0 s' type] run False
    by (simp add: section_params_def)
qed

lemma succeeds_fit_trans:
  assumes "succeeds_fit type s s1 A" "succeeds_fit type s1 s2 B"
  shows "succeeds_fit type s s2 (A \<union> B)"
proof -
  have c: "same_config s s1" using assms(1) by blast
  note eqs = same_config_simps(1) [OF c] same_config_defaults(4) [OF c]
  have "default_fits type s p" if "has_param (ldb_layout s) p" "p \<in> A \<union> B" for p
    using assms that unfolding eqs by blast
  then show ?thesis using assms same_config_trans [OF c] by blast
qed

lemma init_sections_True:
  assumes "steady s" "\<forall>j \<in> set js. has_section (ldb_layout s) b j" "init_sections E type b js s = (True, s')"
  shows "succeeds_fit type s s' (\<Union>j \<in> set js. section_params b j)"
  using assms
proof (induction js arbitrary: s)
  case (Cons j js)
  obtain s1 where s1: "init_section E type b j s = (True, s1)" "init_sections E type b js s1 = (True, s')"
    using Cons(4) by (auto simp: and_then_eq_True)
  have one: "succeeds_fit type s s1 (section_params b j)"
    using init_section_True [OF Cons(2) _ s1(1)] Cons(3) by simp
  then have c: "same_config s s1" by blast
  have "succeeds_fit type s1 s' (\<Union>j \<in> set js. section_params b j)"
    by (rule Cons(1)) (use one s1(2) Cons(3) in \<open>simp_all add: same_config_simps(1) [OF c]\<close>)
  from succeeds_fit_trans [OF one this] show ?case by simp
qed simp

lemma init_blocks_True:
  assumes "steady s" "\<forall>b \<in> set bs. b < length (ldb_layout s)" "init_blocks E type bs s = (True, s')"
  shows "succeeds_fit type s s' {p. fst p \<in> set bs}"
  using assms
proof (induction bs arbitrary: s)
  case (Cons b bs)
  let ?js = "[0 ..< length (sections (ldb_layout s ! b))]"
  obtain s1 where s1: "init_sections E type b ?js s = (True, s1)" "init_blocks E type bs s1 = (True, s')"
    using Cons(4) by (auto simp: and_then_eq_True)
  have "\<forall>j \<in> set ?js. has_section (ldb_layout s) b j" using Cons(3) by (simp add: has_section_def)
  from init_sections_True [OF Cons(2) this s1(1)]
  have one: "succeeds_fit type s s1 (\<Union>j \<in> set ?js. section_params b j)" .
  then have c: "same_config s s1" by blast
  have "succeeds_fit type s1 s' {p. fst p \<in> set bs}"
    by (rule Cons(1)) (use one s1(2) Cons(3) in \<open>simp_all add: same_config_simps(1) [OF c]\<close>)
  from succeeds_fit_trans [OF one this]
  have both: "succeeds_fit type s s' ((\<Union>j \<in> set ?js. section_params b j) \<union> {p. fst p \<in> set bs})" .
  have "default_fits type s p" if p: "has_param (ldb_layout s) p" "p \<in> {p. fst p \<in> set (b # bs)}" for p
  proof -
    have "p \<in> (\<Union>j \<in> set ?js. section_params b j) \<union> {p. fst p \<in> set bs}"
      using p by (cases p) (auto simp: section_params_def has_param_def has_section_def)
    then show ?thesis using both p(1) by blast
  qed
  then show ?case using both by blast
qed simp

theorem init_data_True_iff:
  assumes "steady s"
  shows "fst (init_data E type s) \<longleftrightarrow> defaults_fit type s"
proof
  assume "fst (init_data E type s)"
  then obtain s' where "init_data E type s = (True, s')" by (cases "init_data E type s") auto
  then have "succeeds_fit type s s' {p. fst p \<in> set [0 ..< length (ldb_layout s)]}"
    using init_blocks_True [OF assms, of "[0 ..< length (ldb_layout s)]"] by (simp add: init_data_def)
  then have fit: "default_fits type s p" if "has_param (ldb_layout s) p" "p \<in> {p. fst p \<in> set [0 ..< length (ldb_layout s)]}" for p
    using that by blast
  show "defaults_fit type s"
    unfolding defaults_fit_iff
  proof (intro allI impI)
    fix p assume p: "has_param (ldb_layout s) p"
    then have "p \<in> {p. fst p \<in> set [0 ..< length (ldb_layout s)]}"
      by (cases p) (auto simp: has_param_def has_section_def)
    then show "default_fits type s p" using fit p by blast
  qed
next
  assume fit: "defaults_fit type s"
  show "fst (init_data E type s)" using init_data_ok [OF assms fit] by auto
qed

end

end
