(* ===== verification/Less_Db_Test_Storage.thy ===== *)
theory Less_Db_Test_Storage
  imports Less_Db_Reset
begin

text \<open>
  The memory backend of the database tests, \<open>RawBufferBackend\<close> in \<open>lessdb_test.cpp\<close>: an array
  of 1021 bytes, multi-byte values little endian. It satisfies the storage contract. The tests
  replace its callbacks to inject failures; the defaults are modelled. The array is read and
  written without a bounds check, an access outside it is undefined and never happens under
  the contract.
\<close>

definition LESSDB_ADDRESS_COUNT :: nat where [simp]: "LESSDB_ADDRESS_COUNT = 1021"

record raw_buffer = memory_array :: "u8 list"

definition raw_buffer_new :: raw_buffer where
  "raw_buffer_new = \<lparr>memory_array = replicate LESSDB_ADDRESS_COUNT 0\<rparr>"

definition memory_read :: "u32 \<Rightarrow> parameter_type \<Rightarrow> raw_buffer \<Rightarrow> u32 option \<times> raw_buffer" where
  "memory_read address type h =
     (let at = \<lambda>k. ucast (memory_array h ! unat (address + k)) :: u32 in
      (Some (case type of
         TBit \<Rightarrow> ucast (memory_array h ! unat address)
       | TByte \<Rightarrow> ucast (memory_array h ! unat address)
       | THalfByte \<Rightarrow> ucast (memory_array h ! unat address)
       | TWord \<Rightarrow> push_bit 8 (at 1) OR at 0
       | TDword \<Rightarrow> push_bit 8 (push_bit 8 (push_bit 8 (at 3) OR at 2) OR at 1) OR at 0), h))"

definition memory_write :: "u32 \<Rightarrow> u32 \<Rightarrow> parameter_type \<Rightarrow> raw_buffer \<Rightarrow> bool \<times> raw_buffer" where
  "memory_write address val type h =
     (let set = \<lambda>k b m. m[unat (address + k) := b];
          m = memory_array h
      in (True, h\<lparr>memory_array := (case type of
            TBit \<Rightarrow> m[unat address := ucast val]
          | TByte \<Rightarrow> m[unat address := ucast val]
          | THalfByte \<Rightarrow> m[unat address := ucast val]
          | TWord \<Rightarrow> set 1 (ucast (drop_bit 8 val AND 0xFF)) (set 0 (ucast (drop_bit 0 val AND 0xFF)) m)
          | TDword \<Rightarrow>
              set 3 (ucast (drop_bit 24 val AND 0xFF)) (set 2 (ucast (drop_bit 16 val AND 0xFF))
                (set 1 (ucast (drop_bit 8 val AND 0xFF)) (set 0 (ucast (drop_bit 0 val AND 0xFF)) m))))\<rparr>))"

definition raw_env :: "raw_buffer ldb_env" where
  "raw_env =
     \<lparr>ldb_init = \<lambda>h. (True, h), ldb_address_count = \<lambda>_. of_nat LESSDB_ADDRESS_COUNT,
      ldb_clear = \<lambda>h. (True, h\<lparr>memory_array := replicate LESSDB_ADDRESS_COUNT 0\<rparr>),
      ldb_read = memory_read, ldb_write = memory_write\<rparr>"

definition raw_ok :: "raw_buffer \<Rightarrow> bool" where
  "raw_ok h \<longleftrightarrow> length (memory_array h) = LESSDB_ADDRESS_COUNT"

lemma raw_new_ok [simp]: "raw_ok raw_buffer_new"
  by (simp add: raw_ok_def raw_buffer_new_def)

lemma unat_address_plus: "unat a + k < 2 ^ 32 \<Longrightarrow> unat (a + of_nat k :: u32) = unat a + k"
  using unat_of_nat32 [of "unat a + k"] by simp

lemma take_bit_ucast_byte: "ucast (w AND 0xFF :: u32) = (ucast w :: u8)"
proof -
  have "(0xFF :: u32) = mask 8" by (simp add: mask_eq_exp_minus_1)
  show ?thesis unfolding \<open>(0xFF :: u32) = mask 8\<close> by (rule bit_word_eqI) (simp add: bit_simps)
qed

lemma slice_nth:
  "off + 1 \<le> length xs \<Longrightarrow> slice off 1 xs = [xs ! off]"
  "off + 2 \<le> length xs \<Longrightarrow> slice off 2 xs = [xs ! off, xs ! (off + 1)]"
  "off + 4 \<le> length xs \<Longrightarrow> slice off 4 xs = [xs ! off, xs ! (off + 1), xs ! (off + 2), xs ! (off + 3)]"
  by (rule nth_equalityI, auto simp: nth_slice nth_Cons less_Suc_eq numeral_eq_Suc split: nat.splits)+

lemma overwrite_nth:
  "off + 1 \<le> length xs \<Longrightarrow> overwrite off [x] xs = xs[off := x]"
  "off + 2 \<le> length xs \<Longrightarrow> overwrite off [x, y] xs = xs[off := x, off + 1 := y]"
  "off + 4 \<le> length xs \<Longrightarrow> overwrite off [x, y, z, u] xs = xs[off := x, off + 1 := y, off + 2 := z, off + 3 := u]"
  by (rule nth_equalityI,
      auto simp: nth_overwrite nth_list_update nth_Cons less_Suc_eq numeral_eq_Suc split: nat.splits)+

lemma raw_storage: "ldb_storage raw_env memory_array raw_ok LESSDB_ADDRESS_COUNT"
proof
  show "LESSDB_ADDRESS_COUNT < 2 ^ 32" by simp
  show "ldb_address_count raw_env h = of_nat LESSDB_ADDRESS_COUNT" for h by (simp add: raw_env_def)
  show "raw_ok h \<Longrightarrow> length (memory_array h) = LESSDB_ADDRESS_COUNT" for h by (simp add: raw_ok_def)
  show "\<exists>h'. ldb_read raw_env a t h = (Some (le_value (slice (unat a) (type_width t) (memory_array h))), h') \<and>
      raw_ok h' \<and> memory_array h' = memory_array h"
    if "raw_ok h" "unat a + type_width t \<le> LESSDB_ADDRESS_COUNT" for h a t
  proof -
    have plus: "unat (a + of_nat k) = unat a + k" if "k < type_width t" for k
      using that \<open>unat a + type_width t \<le> LESSDB_ADDRESS_COUNT\<close> by (intro unat_address_plus) simp
    show ?thesis
      using that plus [of 0] plus [of 1] plus [of 2] plus [of 3]
      by (cases t) (simp_all add: raw_env_def memory_read_def raw_ok_def slice_nth [simplified] push_bit_or ac_simps Let_def)
  qed
  show "\<exists>h'. ldb_write raw_env a v t h = (True, h') \<and> raw_ok h' \<and>
      memory_array h' = overwrite (unat a) (le_bytes (type_width t) v) (memory_array h)"
    if "raw_ok h" "unat a + type_width t \<le> LESSDB_ADDRESS_COUNT" for h a t v
  proof -
    have plus: "unat (a + of_nat k) = unat a + k" if "k < type_width t" for k
      using that \<open>unat a + type_width t \<le> LESSDB_ADDRESS_COUNT\<close> by (intro unat_address_plus) simp
    show ?thesis
      using that plus [of 0] plus [of 1] plus [of 2] plus [of 3]
      by (cases t) (simp_all add: raw_env_def memory_write_def raw_ok_def overwrite_nth [simplified]
          take_bit_ucast_byte drop_bit_drop_bit numeral_eq_Suc Let_def)
  qed
qed

interpretation raw: ldb_storage raw_env memory_array raw_ok LESSDB_ADDRESS_COUNT
  by (rule raw_storage)

end
