(* ===== verification/Less_Db_Properties.thy ===== *)
theory Less_Db_Properties
  imports Less_Db_Test_Storage
begin

text \<open>
  The properties of the database: the session refinement to a map from parameters to values,
  the placement of parameters by an accepted layout, exactly when a reset succeeds, and two
  behaviours of the code its documentation does not tell: the stale read cache after
  \<open>clear\<close> and the aliasing of bit parameters 2048 apart.
\<close>

section \<open>Sessions\<close>

datatype ldb_op = OpRead nat nat nat | OpUpdate nat nat nat u32 | OpReset factory_reset_type

datatype ldb_result = RValue "u32 option" | RDone bool

fun ldb_step :: "'h ldb_env \<Rightarrow> ldb_op \<Rightarrow> 'h lessdb \<Rightarrow> ldb_result \<times> 'h lessdb" where
  "ldb_step E (OpRead b j i) s = (case lessdb_read E b j i s of (r, s') \<Rightarrow> (RValue r, s'))"
| "ldb_step E (OpUpdate b j i v) s = (case lessdb_update E b j i v s of (r, s') \<Rightarrow> (RDone r, s'))"
| "ldb_step E (OpReset type) s = (case init_data E type s of (r, s') \<Rightarrow> (RDone r, s'))"

fun ldb_run :: "'h ldb_env \<Rightarrow> ldb_op list \<Rightarrow> 'h lessdb \<Rightarrow> ldb_result list \<times> 'h lessdb" where
  "ldb_run E [] s = ([], s)"
| "ldb_run E (x # xs) s =
     (case ldb_step E x s of (r, s') \<Rightarrow> (case ldb_run E xs s' of (rs, s'') \<Rightarrow> (r # rs, s'')))"

text \<open>
  The specification: a function from parameters to values. The layout and the defaults come
  from a configuration that never changes during a session.
\<close>

fun spec_step :: "'h lessdb \<Rightarrow> ldb_op \<Rightarrow> (nat \<times> nat \<times> nat \<Rightarrow> u32) \<Rightarrow> ldb_result \<times> (nat \<times> nat \<times> nat \<Rightarrow> u32)" where
  "spec_step cfg (OpRead b j i) m =
     (RValue (if has_param (ldb_layout cfg) (b, j, i) then Some (m (b, j, i)) else None), m)"
| "spec_step cfg (OpUpdate b j i v) m =
     (if has_param (ldb_layout cfg) (b, j, i)
      then (RDone True, m((b, j, i) := type_mask (param_type cfg (b, j, i)) v))
      else (RDone False, m))"
| "spec_step cfg (OpReset type) m =
     (RDone True, \<lambda>p. if reset_skips type cfg (fst p) (fst (snd p)) then m p
                      else type_mask (param_type cfg p) (param_default cfg p))"

fun spec_run :: "'h lessdb \<Rightarrow> ldb_op list \<Rightarrow> (nat \<times> nat \<times> nat \<Rightarrow> u32) \<Rightarrow> ldb_result list \<times> (nat \<times> nat \<times> nat \<Rightarrow> u32)" where
  "spec_run cfg [] m = ([], m)"
| "spec_run cfg (x # xs) m =
     (case spec_step cfg x m of (r, m') \<Rightarrow> (case spec_run cfg xs m' of (rs, m'') \<Rightarrow> (r # rs, m'')))"

lemma read_out_of_range: "\<not> has_param (ldb_layout s) (b, j, i) \<Longrightarrow> lessdb_read E b j i s = (None, s)"
  by (simp add: lessdb_read_def check_parameters_eq)

lemma update_out_of_range: "\<not> has_param (ldb_layout s) (b, j, i) \<Longrightarrow> lessdb_update E b j i v s = (False, s)"
  by (simp add: lessdb_update_def check_parameters_eq)

context ldb_storage
begin

text \<open>The state represents the map \<open>m\<close>.\<close>

definition represents :: "'h lessdb \<Rightarrow> (nat \<times> nat \<times> nat \<Rightarrow> u32) \<Rightarrow> 'h lessdb \<Rightarrow> bool" where
  "represents cfg m s \<longleftrightarrow> steady s \<and> same_config cfg s \<and>
     (\<forall>p. has_param (ldb_layout cfg) p \<longrightarrow> pvalue s p = m p)"

lemma representsD: "represents cfg m s \<Longrightarrow> has_param (ldb_layout cfg) p \<Longrightarrow> pvalue s p = m p"
  unfolding represents_def by blast

lemma step_refines:
  assumes r: "represents cfg m s" and fit: "defaults_fit ResetFull cfg"
  shows "\<exists>s'. ldb_step E x s = (fst (spec_step cfg x m), s') \<and> represents cfg (snd (spec_step cfg x m)) s'"
proof -
  have s: "steady s" and c: "same_config cfg s" using r by (simp_all add: represents_def)
  note eqs = same_config_simps [OF c] same_config_defaults [OF c]
  show ?thesis
  proof (cases x)
    case (OpRead b j i)
    show ?thesis
    proof (cases "has_param (ldb_layout cfg) (b, j, i)")
      case True
      obtain s' where s': "lessdb_read E b j i s = (Some (pvalue s (b, j, i)), s')" "unchanged s s'"
        using read_ok [OF s, of b j i] True by (auto simp: eqs)
      then have "represents cfg m s'"
        using representsD [OF r] same_config_trans [OF c] unfolding represents_def by metis
      then show ?thesis using s'(1) representsD [OF r True] True by (simp add: OpRead)
    next
      case False
      then show ?thesis using r read_out_of_range [of s b j i E] by (simp add: OpRead eqs)
    qed
  next
    case (OpUpdate b j i v)
    show ?thesis
    proof (cases "has_param (ldb_layout cfg) (b, j, i)")
      case True
      obtain s' where s': "lessdb_update E b j i v s = (True, s')" "updated s (b, j, i) v s'"
        using update_ok [OF s, of b j i v] True by (auto simp: eqs)
      have "pvalue s' p = (m((b, j, i) := type_mask (param_type cfg (b, j, i)) v)) p" if "has_param (ldb_layout cfg) p" for p
        using s'(2) representsD [OF r that] that unfolding eqs by (simp del: split_paired_All)
      then have "represents cfg (m((b, j, i) := type_mask (param_type cfg (b, j, i)) v)) s'"
        using s'(2) same_config_trans [OF c] unfolding represents_def by blast
      then show ?thesis using s'(1) True by (simp add: OpUpdate)
    next
      case False
      then show ?thesis using r update_out_of_range [of s b j i E v] by (simp add: OpUpdate eqs)
    qed
  next
    case (OpReset type)
    let ?m = "\<lambda>p. if reset_skips type cfg (fst p) (fst (snd p)) then m p else type_mask (param_type cfg p) (param_default cfg p)"
    have "defaults_fit type s" using defaults_fit_full [OF fit, of type] by (simp add: eqs)
    then obtain s' where s': "init_data E type s = (True, s')"
        "initialised {p. \<not> reset_skips type s (fst p) (fst (snd p))} s s'"
      using init_data_ok [OF s] by blast
    have "pvalue s' p = ?m p" if "has_param (ldb_layout cfg) p" for p
      using initialised_value [OF s'(2), of p] representsD [OF r that] that by (simp add: eqs)
    then have "represents cfg ?m s'"
      using initialisedD [OF s'(2)] same_config_trans [OF c] unfolding represents_def by blast
    then show ?thesis using s'(1) by (simp add: OpReset)
  qed
qed

lemma run_refines:
  assumes "represents cfg m s" "defaults_fit ResetFull cfg"
  shows "\<exists>s'. ldb_run E xs s = (fst (spec_run cfg xs m), s') \<and> represents cfg (snd (spec_run cfg xs m)) s'"
  using assms(1)
proof (induction xs arbitrary: m s)
  case (Cons x xs)
  obtain s1 where s1: "ldb_step E x s = (fst (spec_step cfg x m), s1)" "represents cfg (snd (spec_step cfg x m)) s1"
    using step_refines [OF Cons(2) assms(2)] by blast
  obtain s2 where "ldb_run E xs s1 = (fst (spec_run cfg xs (snd (spec_step cfg x m))), s2)"
      "represents cfg (snd (spec_run cfg xs (snd (spec_step cfg x m)))) s2"
    using Cons(1) [OF s1(2)] by blast
  then show ?case using s1(1) by (auto split: prod.splits)
qed simp

lemma set_layout_steady:
  assumes "ok (ldb_hwa s)" "last_read_address s = INVALID_ADDRESS" "bits_addressable (built_layout bss)"
    and "layout_bytes (built_layout bss) < 2 ^ 32"
    and "set_layout_uid E (built_layout bss) start uid s = (True, s')"
  shows "steady s'" "s' = s\<lparr>initial_address := start, layout_uid_member := uid, ldb_layout := built_layout bss\<rparr>"
proof -
  have cnt: "lessdb_address_count E s = of_nat count" "unat (of_nat count :: u32) = count"
    using storage_count [OF assms(1)] count_less by (simp_all add: lessdb_address_count_def unat_of_nat32)
  have ls: "layout_size (built_layout bss) = of_nat (layout_bytes (built_layout bss))"
    by (rule layout_size_eq [OF wf_built_layout])
  have acc: "\<not> start \<ge> of_nat count" "\<not> of_nat (layout_bytes (built_layout bss)) > of_nat count - start"
    and s': "s' = s\<lparr>initial_address := start, layout_uid_member := uid, ldb_layout := built_layout bss\<rparr>"
    using assms(5) by (auto simp: set_layout_uid_def cnt(1) ls Let_def split: if_splits)
  show "s' = s\<lparr>initial_address := start, layout_uid_member := uid, ldb_layout := built_layout bss\<rparr>" by (rule s')
  have "unat start < count" using acc(1) cnt(2) by (simp add: not_le word_less_nat_alt)
  moreover from this have "unat (of_nat count - start) = count - unat start"
    using cnt(2) by (simp add: unat_sub word_le_nat_alt)
  ultimately have "unat start + layout_bytes (built_layout bss) \<le> count"
    using acc(2) assms(4) by (simp add: not_less word_le_nat_alt unat_of_nat32)
  moreover have "cache_coherent cells s'"
  proof -
    have "(of_nat (param_address s' p) :: u32) \<noteq> INVALID_ADDRESS" if "has_param (ldb_layout s') p" for p
    proof
      assume eq: "(of_nat (param_address s' p) :: u32) = INVALID_ADDRESS"
      have "param_address s' p + 1 \<le> count"
        using param_in_layout [OF that] type_width_pos [of "param_type s' p"] s'
          \<open>unat start + layout_bytes (built_layout bss) \<le> count\<close> by (simp del: type_width_pos)
      moreover from this have "unat (of_nat (param_address s' p) :: u32) = param_address s' p"
        using count_less by (intro unat_of_nat32) simp
      then have "param_address s' p = 2 ^ 32 - 1" by (simp add: eq INVALID_ADDRESS_def)
      ultimately show False using count_less by simp
    qed
    then show ?thesis using assms(2) by (simp add: cache_coherent_def s') metis
  qed
  ultimately show "steady s'"
    using assms(1,3) by (simp add: ldb_steady_def s' wf_built_layout)
qed

end

section \<open>The properties\<close>




















definition wide_sections :: "db_section list list" where
  "wide_sections = [[new_section 1 TByte PreserveDisable IncrementDisable 256]]"

definition wide_db :: "raw_buffer lessdb" where
  "wide_db = (lessdb_new raw_buffer_new)\<lparr>initial_address := 0, layout_uid_member := 0x22E4D7B1, ldb_layout := built_layout wide_sections\<rparr>"

lemma wide_layout:
  "built_layout wide_sections = [\<lparr>sections = [new_section 1 TByte PreserveDisable IncrementDisable 256], block_offset = 0\<rparr>]"
  by (simp add: built_layout_def wide_sections_def make_layout_def make_block_def new_block_def new_section_def)

lemma wide_accepted:
  "set_layout raw_env (built_layout wide_sections) 0 (lessdb_new raw_buffer_new) =
     (True, wide_db\<lparr>layout_uid_member := layout_uid (built_layout wide_sections)\<rparr>)"
  by (simp add: set_layout_def set_layout_uid_def lessdb_address_count_def raw_env_def wide_layout layout_size_def
      block_size_def new_section_def section_size_def lessdb_new_def wide_db_def Let_def)

lemma wide_addressable: "bits_addressable (built_layout wide_sections)" "layout_bytes (built_layout wide_sections) = 1"
  by (simp_all add: wide_layout bits_addressable_def new_section_def layout_bytes_def block_bytes_def sec_bytes_def)


lemma wide_steady:
  "ldb_steady memory_array raw_ok LESSDB_ADDRESS_COUNT
     (wide_db\<lparr>layout_uid_member := layout_uid (built_layout wide_sections)\<rparr>)"
  by (rule raw.set_layout_steady(1) [OF _ _ wide_addressable(1) _ wide_accepted [unfolded set_layout_def]])
    (simp_all add: wide_addressable lessdb_new_def)

text \<open>C30. A factory reset reports success exactly when every default it writes to a byte, word or
  double word parameter (the section's default, with the index added when it increments, or the
  provider's value) fits the parameter: these values are written without the mask that
  \<open>update\<close> applies, and the read-back of a wider value never matches.\<close>
theorem ldb_reset_succeeds_iff_defaults_fit:
  assumes "ldb_storage E cells ok count" "ldb_steady cells ok count s"
  shows "fst (init_data E type s) \<longleftrightarrow> defaults_fit type s"
  by (rule ldb_storage.init_data_True_iff [OF assms])

theorem ldb_reset_succeeds_iff_defaults_fit_witness:
  "\<not> fst (init_data raw_env ResetFull (wide_db\<lparr>layout_uid_member := layout_uid (built_layout wide_sections)\<rparr>))"
  unfolding ldb_reset_succeeds_iff_defaults_fit [OF raw_storage wide_steady]
  by (simp add: defaults_fit_def all_params_def default_fits_def reset_skips_def wide_db_def wide_layout lessdb_new_def
      sec_at_def param_type_def sec_type_def packed_def type_mask_def type_bits_def param_default_def the_section_def
      init_value_def new_section_def Let_def)

lemma bit_index_eq: "bit_index_of i = of_nat (i mod 8)"
proof -
  have z: "(2048 :: u8) = 0" by simp
  have k: "i div 8 = unat (array_index_of i) + i div 8 div 256 * 256"
    using div_mult_mod_eq [of "i div 8" 256] by (simp add: array_index_of_def unat_of_nat take_bit_eq_mod)
  have "i = i div 8 * 8 + i mod 8" by simp
  with k have "i - unat (array_index_of i) * 8 = i div 8 div 256 * 2048 + i mod 8" by linarith
  then show ?thesis by (simp add: bit_index_of_def z del: of_nat_diff)
qed

lemma bit_index_less: "bit_index_of i < 8"
  using mod_less_divisor [of 8 i]
  by (simp add: bit_index_eq word_less_nat_alt unat_of_nat take_bit_nat_eq_self del: mod_less_divisor)

lemma alias_indexes:
  "array_index_of (i + 2048) = array_index_of i" "bit_index_of (i + 2048) = bit_index_of i"
proof -
  have "(i + 2048) div 8 = i div 8 + 256" by simp
  then show "array_index_of (i + 2048) = array_index_of i" by (simp add: array_index_of_def)
  have "(i + 2048) mod 8 = i mod 8" using mod_mult_self2 [of i 8 256] by simp
  then show "bit_index_of (i + 2048) = bit_index_of i" by (simp add: bit_index_eq)
qed

text \<open>Bit parameters 2048 apart share a storage bit: with \<open>array_index\<close> kept in one byte,
  reading and updating parameter \<open>i + 2048\<close> of a bit section is reading and updating
  parameter \<open>i\<close>, on any backend.\<close>
theorem ldb_bit_parameters_alias:
  assumes "sec_type s b j = TBit" "has_param (ldb_layout s) (b, j, i + 2048)"
  shows "lessdb_read E b j (i + 2048) s = lessdb_read E b j i s \<and>
    lessdb_update E b j (i + 2048) v s = lessdb_update E b j i v s"
proof -
  have "parameter_type (the_section s b j) = TBit" using assms(1) by (simp add: the_section_eq sec_type_def)
  moreover have "check_parameters s b j (i + 2048)" "check_parameters s b j i"
    using assms(2) by (auto simp: check_parameters_eq has_param_def)
  ultimately show ?thesis by (simp add: lessdb_read_def lessdb_update_def alias_indexes)
qed

theorem ldb_bit_parameters_alias_witness:
  "let s = (lessdb_new raw_buffer_new)\<lparr>ldb_layout := [new_block [new_section 2100 TBit PreserveDisable IncrementDisable 0]]\<rparr>
   in lessdb_update raw_env 0 0 2050 1 s = lessdb_update raw_env 0 0 2 1 s"
proof -
  let ?s = "(lessdb_new raw_buffer_new)\<lparr>ldb_layout := [new_block [new_section 2100 TBit PreserveDisable IncrementDisable 0]]\<rparr>"
  have "sec_type ?s 0 0 = TBit" "has_param (ldb_layout ?s) (0, 0, 2 + 2048)"
    by (simp_all add: sec_type_def has_param_def has_section_def sec_at_def new_block_def new_section_def)
  from ldb_bit_parameters_alias [OF this, of raw_env 1] show ?thesis by (simp add: Let_def)
qed

lemma cached_bit: "k < 8 \<Longrightarrow> test_bit_mask (ucast (ucast v :: u8)) k = test_bit_mask v k"
proof -
  assume "k < 8"
  then have "unat k < 8" by (simp add: word_less_nat_alt)
  then have "(ucast (ucast v :: u8) AND ucast (BIT_MASK ! unat k :: u8) :: u32) = v AND ucast (BIT_MASK ! unat k)"
    by (intro bit_word_eqI) (auto simp: BIT_MASK_nth bit_simps)
  then show ?thesis by (simp add: test_bit_mask_def)
qed

lemma cached_nibble: "read_nibble (ucast (ucast v :: u8)) i = read_nibble v i"
  by (rule bit_word_eqI) (auto simp: read_nibble_def mask_values bit_simps)

text \<open>\<open>clear\<close> does not drop the read cache: after a bit or half-byte parameter was read and the
  storage cleared, reading it again still gives the old value, whatever the storage holds now.\<close>
theorem ldb_clear_keeps_read_cache:
  assumes "packed (sec_type s b j)" "lessdb_read E b j i s = (Some v, s1)" "lessdb_clear E s1 = (True, s2)"
  shows "lessdb_read E b j i s2 = (Some v, s2)"
proof -
  have chk: "check_parameters s b j i" using assms(2) by (auto simp: lessdb_read_def split: if_splits)
  have ty: "parameter_type (the_section s b j) = sec_type s b j" by (simp add: the_section_eq sec_type_def)
  define a where "a = section_address s b j +
    (if sec_type s b j = TBit then ucast (array_index_of i) else of_nat (i div BYTE_NIBBLE_COUNT))"
  define f where "f w = (if sec_type s b j = TBit then test_bit_mask w (bit_index_of i) else read_nibble w i)" for w
  have eq: "lessdb_read E b j i t = finish_read a
      (if a = last_read_address t then (Some (f (ucast (last_read_value t))), t)
       else case hwa_read_call E a (sec_type s b j) t of
         (Some w, t) \<Rightarrow> (Some (f w), t\<lparr>last_read_value := ucast w\<rparr>) | (None, t) \<Rightarrow> (None, t))"
    if c: "same_config s t" for t
    using assms(1) chk ty unfolding lessdb_read_def
    by (auto simp: packed_def f_def a_def check_parameters_eq same_config_simps [OF c] Let_def split: option.splits prod.splits)
  have cached: "f (ucast (ucast w :: u8)) = f w" for w
    by (simp add: f_def cached_bit bit_index_less cached_nibble)
  have s1: "same_config s s1 \<and> last_read_address s1 = a \<and> v = f (ucast (last_read_value s1))"
    using assms(2) unfolding eq [OF same_config_refl]
    by (auto simp: finish_read_def hwa_read_call_def same_config_def cached split: if_splits option.splits prod.splits)
  then have s2: "same_config s s2 \<and> last_read_address s2 = a \<and> v = f (ucast (last_read_value s2))"
    using assms(3) by (auto simp: lessdb_clear_def same_config_def split: prod.splits)
  then have "s2\<lparr>last_read_address := a\<rparr> = s2" by simp
  then show ?thesis using s2 by (simp add: eq finish_read_def)
qed

definition half_db :: "raw_buffer lessdb" where
  "half_db = (lessdb_new (raw_buffer_new\<lparr>memory_array := replicate LESSDB_ADDRESS_COUNT 0x5A\<rparr>))
     \<lparr>ldb_layout := [new_block [new_section 2 THalfByte PreserveDisable IncrementDisable 0]]\<rparr>"

theorem ldb_clear_keeps_read_cache_witness:
  "\<exists>s1 s2. lessdb_read raw_env 0 0 0 half_db = (Some 10, s1) \<and> lessdb_clear raw_env s1 = (True, s2) \<and>
     lessdb_read raw_env 0 0 0 s2 = (Some 10, s2) \<and> memory_array (ldb_hwa s2) = replicate LESSDB_ADDRESS_COUNT 0"
proof -
  obtain s1 where r: "lessdb_read raw_env 0 0 0 half_db = (Some 10, s1)"
    by (simp add: lessdb_read_def half_db_def check_parameters_def section_address_def new_block_def new_section_def
        the_section_def lessdb_new_def raw_env_def memory_read_def read_nibble_def hwa_read_call_def finish_read_def
        raw_buffer_new_def model_defs Let_def)
  obtain s2 where c: "lessdb_clear raw_env s1 = (True, s2)" "memory_array (ldb_hwa s2) = replicate LESSDB_ADDRESS_COUNT 0"
    by (simp add: lessdb_clear_def raw_env_def)
  have "packed (sec_type half_db 0 0)"
    by (simp add: packed_def sec_type_def sec_at_def half_db_def new_block_def new_section_def lessdb_new_def)
  from ldb_clear_keeps_read_cache [OF this r c(1)] show ?thesis using r c by blast
qed

end
