(* ===== verification/Less_Db_On_Eeprom.thy ===== *)
theory Less_Db_On_Eeprom
  imports Less_Db_Properties Emu_Properties
begin

text \<open>
  The parameter database stored in the emulated EEPROM: the backend \<open>EmuEepromFlashBackend\<close> of
  \<open>lessdb_test.cpp\<close>, which keeps one byte per EEPROM address. The contract of the flash gives the
  contract of the database storage, so that the results about both components compose: a database
  on flash keeps its values through power losses.
\<close>

section \<open>The backend\<close>









section \<open>The bytes of the backend\<close>







section \<open>One contract gives the other\<close>







section \<open>Sessions with power losses\<close>










section \<open>Properties\<close>





end
