(* ===== verification/Midi_Common.thy ===== *)
theory Midi_Common
  imports Less_Db
begin

text \<open>
  The shared MIDI helpers of \<open>midi_common.h\<close>: constants, message types, 14-bit values, the
  conversion between MIDI 1 byte streams and Universal MIDI Packets (UMP), and the stream
  parser. Enumerations over \<open>uint8_t\<close> that the code fills by casts are their bytes, with a
  constant per enumerator. The packet accessors \<open>UMP_MT\<close>, \<open>UMP_GROUP\<close> and so on are Zephyr
  macros: they are the record \<open>ump_api\<close>, an argument of the definitions that use them, and
  the locale \<open>ump_macros\<close> states the field positions the UMP format documents.
\<close>

section \<open>Constants and enumerations\<close>

definition MIDI_DATA_BYTE_MASK :: u8 where [simp]: "MIDI_DATA_BYTE_MASK = 0x7F"
definition MIDI_STATUS_MIN :: u8 where [simp]: "MIDI_STATUS_MIN = 0x80"
definition MIDI_STATUS_UNDEFINED_0 :: u8 where [simp]: "MIDI_STATUS_UNDEFINED_0 = 0xF4"
definition MIDI_STATUS_UNDEFINED_1 :: u8 where [simp]: "MIDI_STATUS_UNDEFINED_1 = 0xF5"
definition MIDI_STATUS_UNDEFINED_2 :: u8 where [simp]: "MIDI_STATUS_UNDEFINED_2 = 0xF9"
definition MIDI_STATUS_UNDEFINED_3 :: u8 where [simp]: "MIDI_STATUS_UNDEFINED_3 = 0xFD"
definition MIDI_SYSTEM_MESSAGE_MIN :: u8 where [simp]: "MIDI_SYSTEM_MESSAGE_MIN = 0xF0"
definition MAX_VALUE_7BIT :: u8 where [simp]: "MAX_VALUE_7BIT = 127"
definition MAX_VALUE_14BIT :: u16 where [simp]: "MAX_VALUE_14BIT = 16383"
definition DEFAULT_RX_GROUP :: u8 where [simp]: "DEFAULT_RX_GROUP = 0"
definition SYS_EX_START :: u8 where [simp]: "SYS_EX_START = 0xF0"
definition SYS_EX_END :: u8 where [simp]: "SYS_EX_END = 0xF7"
definition DATA_MSB_SHIFT :: nat where [simp]: "DATA_MSB_SHIFT = 7"
definition MTC_TYPE_MASK :: u8 where [simp]: "MTC_TYPE_MASK = 0x07"
definition MTC_DATA_MASK :: u8 where [simp]: "MTC_DATA_MASK = 0x0F"
definition MMC_MESSAGE_LENGTH :: nat where [simp]: "MMC_MESSAGE_LENGTH = 6"
definition MMC_ALL_CALL_DEVICE_ID :: u8 where [simp]: "MMC_ALL_CALL_DEVICE_ID = 0x7F"
definition MMC_SUB_ID :: u8 where [simp]: "MMC_SUB_ID = 0x06"
definition MMC_COMMAND_DEFAULT :: u8 where [simp]: "MMC_COMMAND_DEFAULT = 0x00"
definition NRPN_MSB_CONTROLLER :: u8 where [simp]: "NRPN_MSB_CONTROLLER = 99"
definition NRPN_LSB_CONTROLLER :: u8 where [simp]: "NRPN_LSB_CONTROLLER = 98"
definition DATA_ENTRY_MSB_CONTROLLER :: u8 where [simp]: "DATA_ENTRY_MSB_CONTROLLER = 6"
definition DATA_ENTRY_LSB_CONTROLLER :: u8 where [simp]: "DATA_ENTRY_LSB_CONTROLLER = 38"
definition CONTROL_CHANGE_LSB_OFFSET :: u8 where [simp]: "CONTROL_CHANGE_LSB_OFFSET = 32"
definition SYSEX7_DATA64_MAX_PAYLOAD_SIZE :: nat where [simp]: "SYSEX7_DATA64_MAX_PAYLOAD_SIZE = 6"
definition UMP_MESSAGE_TYPE_SHIFT :: nat where [simp]: "UMP_MESSAGE_TYPE_SHIFT = 28"
definition UMP_GROUP_SHIFT :: nat where [simp]: "UMP_GROUP_SHIFT = 24"
definition UMP_STATUS_NIBBLE_SHIFT :: nat where [simp]: "UMP_STATUS_NIBBLE_SHIFT = 20"
definition UMP_STATUS_BYTE_SHIFT :: nat where [simp]: "UMP_STATUS_BYTE_SHIFT = 16"
definition UMP_PAYLOAD_BYTE_1_SHIFT :: nat where [simp]: "UMP_PAYLOAD_BYTE_1_SHIFT = 8"
definition MIDI_STATUS_TYPE_SHIFT :: nat where [simp]: "MIDI_STATUS_TYPE_SHIFT = 4"
definition SYSEX7_DATA64_FIRST_WORD_PAYLOAD_SIZE :: nat where [simp]: "SYSEX7_DATA64_FIRST_WORD_PAYLOAD_SIZE = 2"
definition SYSEX7_DATA64_SECOND_WORD_LAST_PAYLOAD_INDEX :: nat where
  [simp]: "SYSEX7_DATA64_SECOND_WORD_LAST_PAYLOAD_INDEX = SYSEX7_DATA64_MAX_PAYLOAD_SIZE - 1"

type_synonym message_type = u8

definition NoteOff :: message_type where [simp]: "NoteOff = 0x80"
definition NoteOn :: message_type where [simp]: "NoteOn = 0x90"
definition ControlChange :: message_type where [simp]: "ControlChange = 0xB0"
definition ProgramChange :: message_type where [simp]: "ProgramChange = 0xC0"
definition AfterTouchChannel :: message_type where [simp]: "AfterTouchChannel = 0xD0"
definition AfterTouchPoly :: message_type where [simp]: "AfterTouchPoly = 0xA0"
definition PitchBend :: message_type where [simp]: "PitchBend = 0xE0"
definition SysEx :: message_type where [simp]: "SysEx = 0xF0"
definition SysCommonTimeCodeQuarterFrame :: message_type where [simp]: "SysCommonTimeCodeQuarterFrame = 0xF1"
definition SysCommonSongPosition :: message_type where [simp]: "SysCommonSongPosition = 0xF2"
definition SysCommonSongSelect :: message_type where [simp]: "SysCommonSongSelect = 0xF3"
definition SysCommonTuneRequest :: message_type where [simp]: "SysCommonTuneRequest = 0xF6"
definition SysRealTimeClock :: message_type where [simp]: "SysRealTimeClock = 0xF8"
definition SysRealTimeStart :: message_type where [simp]: "SysRealTimeStart = 0xFA"
definition SysRealTimeContinue :: message_type where [simp]: "SysRealTimeContinue = 0xFB"
definition SysRealTimeStop :: message_type where [simp]: "SysRealTimeStop = 0xFC"
definition SysRealTimeActiveSensing :: message_type where [simp]: "SysRealTimeActiveSensing = 0xFE"
definition SysRealTimeSystemReset :: message_type where [simp]: "SysRealTimeSystemReset = 0xFF"
definition MmcPlay :: message_type where [simp]: "MmcPlay = 0x02"
definition MmcStop :: message_type where [simp]: "MmcStop = 0x01"
definition MmcPause :: message_type where [simp]: "MmcPause = 0x09"
definition MmcRecordStart :: message_type where [simp]: "MmcRecordStart = 0x06"
definition MmcRecordStop :: message_type where [simp]: "MmcRecordStop = 0x07"
definition InvalidMessage :: message_type where [simp]: "InvalidMessage = 0x00"

type_synonym sysex7_status = u8

definition SysEx7Complete :: sysex7_status where [simp]: "SysEx7Complete = 0"
definition SysEx7Start :: sysex7_status where [simp]: "SysEx7Start = 1"
definition SysEx7Continue :: sysex7_status where [simp]: "SysEx7Continue = 2"
definition SysEx7End :: sysex7_status where [simp]: "SysEx7End = 3"

datatype midi_note = NoteC | NoteCSharp | NoteD | NoteDSharp | NoteE | NoteF | NoteFSharp | NoteG | NoteGSharp | NoteA
  | NoteASharp | NoteB

definition NOTE_COUNT :: nat where [simp]: "NOTE_COUNT = 12"

definition note_of_nat :: "nat \<Rightarrow> midi_note" where
  "note_of_nat n = [NoteC, NoteCSharp, NoteD, NoteDSharp, NoteE, NoteF, NoteFSharp, NoteG, NoteGSharp, NoteA,
     NoteASharp, NoteB] ! n"

section \<open>14-bit values\<close>

definition merge14 :: "u8 \<Rightarrow> u8 \<Rightarrow> u16" where
  "merge14 high low =
     (let low = (if high AND 0x01 \<noteq> 0 then low OR push_bit (BYTE_BIT_COUNT - 1) 1
                 else low AND NOT (push_bit (BYTE_BIT_COUNT - 1) 1));
          high = drop_bit 1 high;
          joined = ucast high :: u16;
          joined = push_bit BYTE_BIT_COUNT joined
      in joined OR ucast low)"

definition split14 :: "u16 \<Rightarrow> u8 \<times> u8" where
  "split14 val =
     (let new_high = ucast (drop_bit BYTE_BIT_COUNT val AND ucast BYTE_MASK) :: u8;
          new_low = ucast (val AND ucast BYTE_MASK) :: u8;
          new_high = push_bit 1 new_high AND MIDI_DATA_BYTE_MASK;
          new_high = (if drop_bit (BYTE_BIT_COUNT - 1) new_low AND 0x01 \<noteq> 0 then new_high OR 0x01
                      else new_high AND NOT 0x01);
          new_low = new_low AND MIDI_DATA_BYTE_MASK
      in (new_high, new_low))"

section \<open>Notes, channels and message types\<close>

definition note_to_octave :: "u8 \<Rightarrow> u8" where
  "note_to_octave n = (n AND MIDI_DATA_BYTE_MASK) div of_nat NOTE_COUNT"

definition note_to_tonic :: "u8 \<Rightarrow> midi_note" where
  "note_to_tonic n = note_of_nat (unat (n AND MIDI_DATA_BYTE_MASK) mod NOTE_COUNT)"

definition channel_from_status_byte :: "u8 \<Rightarrow> u8" where
  "channel_from_status_byte status = (status AND LOW_NIBBLE_MASK) + 1"

definition is_channel_message :: "message_type \<Rightarrow> bool" where
  "is_channel_message t \<longleftrightarrow>
     t = NoteOff \<or> t = NoteOn \<or> t = ControlChange \<or> t = AfterTouchPoly \<or> t = AfterTouchChannel \<or>
     t = PitchBend \<or> t = ProgramChange"

definition is_system_real_time :: "message_type \<Rightarrow> bool" where
  "is_system_real_time t \<longleftrightarrow>
     t = SysRealTimeClock \<or> t = SysRealTimeStart \<or> t = SysRealTimeContinue \<or> t = SysRealTimeStop \<or>
     t = SysRealTimeActiveSensing \<or> t = SysRealTimeSystemReset"

definition is_system_common :: "message_type \<Rightarrow> bool" where
  "is_system_common t \<longleftrightarrow>
     t = SysCommonTimeCodeQuarterFrame \<or> t = SysCommonSongPosition \<or> t = SysCommonSongSelect \<or>
     t = SysCommonTuneRequest"

definition type_from_status_byte :: "u8 \<Rightarrow> message_type" where
  "type_from_status_byte status =
     (if status < MIDI_STATUS_MIN \<or> status = MIDI_STATUS_UNDEFINED_0 \<or> status = MIDI_STATUS_UNDEFINED_1 \<or>
         status = MIDI_STATUS_UNDEFINED_2 \<or> status = MIDI_STATUS_UNDEFINED_3
      then InvalidMessage
      else if status < MIDI_SYSTEM_MESSAGE_MIN then status AND HIGH_NIBBLE_MASK
      else if status \<in> {SysEx, SysCommonTimeCodeQuarterFrame, SysCommonSongPosition, SysCommonSongSelect,
             SysCommonTuneRequest, SysRealTimeClock, SysRealTimeStart, SysRealTimeContinue, SysRealTimeStop,
             SysRealTimeActiveSensing, SysRealTimeSystemReset}
      then status
      else InvalidMessage)"

section \<open>Packets\<close>

record midi_ump =
  data0 :: u32
  data1 :: u32
  data2 :: u32
  data3 :: u32

definition empty_ump :: midi_ump where
  "empty_ump = \<lparr>data0 = 0, data1 = 0, data2 = 0, data3 = 0\<rparr>"

record ump_api =
  UMP_MT :: "midi_ump \<Rightarrow> u8"
  UMP_GROUP :: "midi_ump \<Rightarrow> u8"
  UMP_MIDI_STATUS :: "midi_ump \<Rightarrow> u8"
  UMP_MIDI_COMMAND :: "midi_ump \<Rightarrow> u8"
  UMP_MIDI1_P1 :: "midi_ump \<Rightarrow> u8"
  UMP_MIDI1_P2 :: "midi_ump \<Rightarrow> u8"
  UMP_MT_SYS_RT_COMMON :: u8
  UMP_MT_MIDI1_CHANNEL_VOICE :: u8
  UMP_MT_DATA_64 :: u8

definition sysex7_header :: "ump_api \<Rightarrow> u8 \<Rightarrow> sysex7_status \<Rightarrow> nat \<Rightarrow> u32" where
  "sysex7_header A grp status n =
     push_bit UMP_MESSAGE_TYPE_SHIFT (ucast (UMP_MT_DATA_64 A)) OR
     push_bit UMP_GROUP_SHIFT (ucast (grp AND LOW_NIBBLE_MASK)) OR
     push_bit UMP_STATUS_NIBBLE_SHIFT (ucast (status AND LOW_NIBBLE_MASK)) OR
     push_bit UMP_STATUS_BYTE_SHIFT (of_nat n AND ucast LOW_NIBBLE_MASK)"

definition sysex7_status :: "midi_ump \<Rightarrow> sysex7_status" where
  "sysex7_status packet = ucast (drop_bit UMP_STATUS_NIBBLE_SHIFT (data0 packet) AND ucast LOW_NIBBLE_MASK)"

definition sysex7_payload_size :: "midi_ump \<Rightarrow> u8" where
  "sysex7_payload_size packet = ucast (drop_bit UMP_STATUS_BYTE_SHIFT (data0 packet) AND ucast LOW_NIBBLE_MASK)"

definition sysex7_starts_message :: "sysex7_status \<Rightarrow> bool" where
  "sysex7_starts_message status \<longleftrightarrow> status = SysEx7Complete \<or> status = SysEx7Start"

definition sysex7_ends_message :: "sysex7_status \<Rightarrow> bool" where
  "sysex7_ends_message status \<longleftrightarrow> status = SysEx7Complete \<or> status = SysEx7End"

definition is_sysex7_packet :: "ump_api \<Rightarrow> midi_ump \<Rightarrow> bool" where
  "is_sysex7_packet A packet \<longleftrightarrow>
     UMP_MT A packet = UMP_MT_DATA_64 A \<and> sysex7_payload_size packet \<le> of_nat SYSEX7_DATA64_MAX_PAYLOAD_SIZE \<and>
     sysex7_status packet \<le> SysEx7End"

definition ump_type :: "ump_api \<Rightarrow> midi_ump \<Rightarrow> message_type" where
  "ump_type A packet =
     (if UMP_MT A packet = UMP_MT_MIDI1_CHANNEL_VOICE A then push_bit MIDI_STATUS_TYPE_SHIFT (UMP_MIDI_COMMAND A packet)
      else if UMP_MT A packet = UMP_MT_SYS_RT_COMMON A then type_from_status_byte (UMP_MIDI_STATUS A packet)
      else if is_sysex7_packet A packet then SysEx
      else InvalidMessage)"

definition write_sysex7_payload_byte :: "nat \<Rightarrow> u8 \<Rightarrow> midi_ump \<Rightarrow> midi_ump" where
  "write_sysex7_payload_byte index d packet =
     (let byte = d AND MIDI_DATA_BYTE_MASK in
      if index < SYSEX7_DATA64_FIRST_WORD_PAYLOAD_SIZE
      then packet\<lparr>data0 := data0 packet OR
             push_bit (BYTE_BIT_COUNT * ((SYSEX7_DATA64_FIRST_WORD_PAYLOAD_SIZE - 1) - index)) (ucast byte)\<rparr>
      else packet\<lparr>data1 := data1 packet OR
             push_bit (BYTE_BIT_COUNT * (SYSEX7_DATA64_SECOND_WORD_LAST_PAYLOAD_INDEX - index)) (ucast byte)\<rparr>)"

definition read_sysex7_payload_byte :: "midi_ump \<Rightarrow> nat \<Rightarrow> u8" where
  "read_sysex7_payload_byte packet index =
     (if index < SYSEX7_DATA64_FIRST_WORD_PAYLOAD_SIZE
      then ucast (drop_bit (BYTE_BIT_COUNT * ((SYSEX7_DATA64_FIRST_WORD_PAYLOAD_SIZE - 1) - index)) (data0 packet)
             AND ucast MIDI_DATA_BYTE_MASK)
      else ucast (drop_bit (BYTE_BIT_COUNT * (SYSEX7_DATA64_SECOND_WORD_LAST_PAYLOAD_INDEX - index)) (data1 packet)
             AND ucast MIDI_DATA_BYTE_MASK))"

text \<open>The loop \<open>for (i = 0; i < n; i++) write_sysex7_payload_byte(packet, i, bytes[i])\<close>.\<close>

definition write_payload :: "u8 list \<Rightarrow> midi_ump \<Rightarrow> midi_ump" where
  "write_payload bytes packet =
     foldl (\<lambda>p i. write_sysex7_payload_byte i (bytes ! i) p) packet [0 ..< length bytes]"

definition sysex7_packet :: "ump_api \<Rightarrow> u8 \<Rightarrow> sysex7_status \<Rightarrow> u8 list \<Rightarrow> midi_ump" where
  "sysex7_packet A grp status bytes =
     write_payload bytes (empty_ump\<lparr>data0 := sysex7_header A grp status (length bytes)\<rparr>)"

definition sysex7_complete_ump :: "ump_api \<Rightarrow> u8 \<Rightarrow> u8 list \<Rightarrow> midi_ump option" where
  "sysex7_complete_ump A grp payload =
     (if length payload > SYSEX7_DATA64_MAX_PAYLOAD_SIZE then None
      else Some (sysex7_packet A grp SysEx7Complete payload))"

definition midi1_channel_voice_ump :: "ump_api \<Rightarrow> u8 \<Rightarrow> u8 \<Rightarrow> u8 \<Rightarrow> u8 \<Rightarrow> midi_ump" where
  "midi1_channel_voice_ump A grp status d1 d2 =
     empty_ump\<lparr>data0 :=
       push_bit UMP_MESSAGE_TYPE_SHIFT (ucast (UMP_MT_MIDI1_CHANNEL_VOICE A)) OR
       push_bit UMP_GROUP_SHIFT (ucast (grp AND LOW_NIBBLE_MASK)) OR
       push_bit UMP_STATUS_NIBBLE_SHIFT (ucast (drop_bit MIDI_STATUS_TYPE_SHIFT (status AND HIGH_NIBBLE_MASK))) OR
       push_bit UMP_STATUS_BYTE_SHIFT (ucast (status AND LOW_NIBBLE_MASK)) OR
       push_bit UMP_PAYLOAD_BYTE_1_SHIFT (ucast (d1 AND MIDI_DATA_BYTE_MASK)) OR
       ucast (d2 AND MIDI_DATA_BYTE_MASK)\<rparr>"

definition system_ump :: "ump_api \<Rightarrow> u8 \<Rightarrow> u8 \<Rightarrow> u8 \<Rightarrow> u8 \<Rightarrow> midi_ump" where
  "system_ump A grp status d1 d2 =
     empty_ump\<lparr>data0 :=
       push_bit UMP_MESSAGE_TYPE_SHIFT (ucast (UMP_MT_SYS_RT_COMMON A)) OR
       push_bit UMP_GROUP_SHIFT (ucast (grp AND LOW_NIBBLE_MASK)) OR
       push_bit UMP_STATUS_BYTE_SHIFT (ucast status) OR
       push_bit UMP_PAYLOAD_BYTE_1_SHIFT (ucast (d1 AND MIDI_DATA_BYTE_MASK)) OR
       ucast (d2 AND MIDI_DATA_BYTE_MASK)\<rparr>"

section \<open>Packets to bytes\<close>

text \<open>
  The callbacks \<open>write_byte\<close>, \<open>write_packet\<close> and \<open>read_byte\<close> are functions over a state of
  their own. \<open>write_all\<close> is a chain of calls that stops at the first failure.
\<close>

type_synonym ('a, 'w) writer = "'a \<Rightarrow> 'w \<Rightarrow> bool \<times> 'w"

fun write_all :: "('a, 'w) writer \<Rightarrow> 'a list \<Rightarrow> 'w \<Rightarrow> bool \<times> 'w" where
  "write_all W [] w = (True, w)"
| "write_all W (x # xs) w = and_then (W x w) (write_all W xs)"

definition write_ump_as_midi1_bytes :: "ump_api \<Rightarrow> midi_ump \<Rightarrow> u8 \<Rightarrow> (u8, 'w) writer \<Rightarrow> 'w \<Rightarrow> bool \<times> 'w" where
  "write_ump_as_midi1_bytes A packet grp write_byte w =
     (if UMP_GROUP A packet \<noteq> grp then (False, w)
      else if UMP_MT A packet = UMP_MT_MIDI1_CHANNEL_VOICE A then
        let status = UMP_MIDI_STATUS A packet in
        and_then (write_byte status w) (\<lambda>w.
        and_then (write_byte (UMP_MIDI1_P1 A packet) w) (\<lambda>w.
        let type = type_from_status_byte status in
        if type \<noteq> ProgramChange \<and> type \<noteq> AfterTouchChannel then write_byte (UMP_MIDI1_P2 A packet) w
        else (True, w)))
      else if UMP_MT A packet = UMP_MT_SYS_RT_COMMON A then
        let status = UMP_MIDI_STATUS A packet in
        and_then (write_byte status w) (\<lambda>w.
        let type = type_from_status_byte status in
        if type = SysCommonTimeCodeQuarterFrame \<or> type = SysCommonSongSelect then write_byte (UMP_MIDI1_P1 A packet) w
        else if type = SysCommonSongPosition
        then and_then (write_byte (UMP_MIDI1_P1 A packet) w) (write_byte (UMP_MIDI1_P2 A packet))
        else (True, w))
      else if UMP_MT A packet = UMP_MT_DATA_64 A then
        if \<not> is_sysex7_packet A packet then (False, w)
        else let status = sysex7_status packet; n = unat (sysex7_payload_size packet) in
        and_then (if sysex7_starts_message status then write_byte SYS_EX_START w else (True, w)) (\<lambda>w.
        and_then (write_all write_byte (map (read_sysex7_payload_byte packet) [0 ..< n]) w) (\<lambda>w.
        if sysex7_ends_message status then write_byte SYS_EX_END w else (True, w)))
      else (False, w))"

text \<open>
  The \<open>do .. while\<close> loop that cuts a payload into packets. It does not end for an empty payload
  unless the writer fails, so it runs on fuel and running out of it is \<open>None\<close>.
\<close>

definition chunk_status :: "nat \<Rightarrow> nat \<Rightarrow> nat \<Rightarrow> sysex7_status" where
  "chunk_status offset chunk_size payload_size =
     (let first_chunk = (offset = 0); last_chunk = (offset + chunk_size = payload_size)
      in if first_chunk \<and> last_chunk then SysEx7Complete
         else if first_chunk then SysEx7Start
         else if last_chunk then SysEx7End
         else SysEx7Continue)"

primrec packets_loop :: "nat \<Rightarrow> ump_api \<Rightarrow> u8 \<Rightarrow> u8 list \<Rightarrow> (midi_ump, 'w) writer \<Rightarrow> nat \<Rightarrow> 'w \<Rightarrow> (bool \<times> 'w) option" where
  "packets_loop 0 A grp payload write_packet offset w = None"
| "packets_loop (Suc fuel) A grp payload write_packet offset w =
     (let remaining_payload = length payload - offset;
          chunk_size = min remaining_payload SYSEX7_DATA64_MAX_PAYLOAD_SIZE;
          status = chunk_status offset chunk_size (length payload);
          packet = sysex7_packet A grp status (slice offset chunk_size payload)
      in case write_packet packet w of
           (False, w) \<Rightarrow> Some (False, w)
         | (True, w) \<Rightarrow>
             let offset = offset + chunk_size in
             if offset < length payload \<or> payload = []
             then packets_loop fuel A grp payload write_packet offset w
             else Some (True, w))"

definition write_sysex7_payload_as_ump_packets ::
    "nat \<Rightarrow> ump_api \<Rightarrow> u8 \<Rightarrow> u8 list \<Rightarrow> (midi_ump, 'w) writer \<Rightarrow> 'w \<Rightarrow> (bool \<times> 'w) option" where
  "write_sysex7_payload_as_ump_packets fuel A grp payload write_packet w =
     packets_loop fuel A grp payload write_packet 0 w"

section \<open>The byte-stream parser\<close>

record midi1_parser =
  parser_pending :: "u8 list"
  running_status :: u8
  pending_index :: nat
  expected_size :: nat
  sysex_buffer :: "u8 list"
  sysex_size :: nat
  sysex_active :: bool
  sysex_multi_packet :: bool

definition parser_reset :: midi1_parser where
  "parser_reset =
     \<lparr>parser_pending = [0, 0, 0], running_status = 0, pending_index = 0, expected_size = 0,
      sysex_buffer = replicate SYSEX7_DATA64_MAX_PAYLOAD_SIZE 0, sysex_size = 0, sysex_active = False,
      sysex_multi_packet = False\<rparr>"

definition flush_sysex :: "ump_api \<Rightarrow> u8 \<Rightarrow> sysex7_status \<Rightarrow> midi1_parser \<Rightarrow> midi_ump \<times> midi1_parser" where
  "flush_sysex A grp status p =
     (sysex7_packet A grp status (take (sysex_size p) (sysex_buffer p)), p\<lparr>sysex_size := 0\<rparr>)"

definition complete_message :: "ump_api \<Rightarrow> u8 \<Rightarrow> midi1_parser \<Rightarrow> midi_ump \<times> midi1_parser" where
  "complete_message A grp p =
     (let status = parser_pending p ! 0;
          data_1 = (if expected_size p > 1 then parser_pending p ! 1 else 0);
          data_2 = (if expected_size p > 2 then parser_pending p ! 2 else 0);
          p = p\<lparr>pending_index := 0, expected_size := 0\<rparr>
      in if status < MIDI_SYSTEM_MESSAGE_MIN
         then (midi1_channel_voice_ump A grp status data_1 data_2, p\<lparr>running_status := status\<rparr>)
         else (system_ump A grp status data_1 data_2, p\<lparr>running_status := 0\<rparr>))"

definition store_sysex_byte :: "u8 \<Rightarrow> midi1_parser \<Rightarrow> midi1_parser" where
  "store_sysex_byte d p =
     p\<lparr>sysex_buffer := (sysex_buffer p)[sysex_size p := d AND MIDI_DATA_BYTE_MASK], sysex_size := sysex_size p + 1\<rparr>"

text \<open>The branch of \<open>parse\<close> for the first byte of a message.\<close>

definition parse_first :: "ump_api \<Rightarrow> u8 \<Rightarrow> u8 \<Rightarrow> midi1_parser \<Rightarrow> midi_ump option \<times> midi1_parser" where
  "parse_first A d grp p =
     (let p = (if d < MIDI_STATUS_MIN \<and> is_channel_message (type_from_status_byte (running_status p))
               then p\<lparr>parser_pending := (parser_pending p)[0 := running_status p, 1 := d], pending_index := 2\<rparr>
               else p\<lparr>parser_pending := (parser_pending p)[0 := d], pending_index := 1\<rparr>);
          type = type_from_status_byte (parser_pending p ! 0)
      in if type \<in> {SysRealTimeStart, SysRealTimeContinue, SysRealTimeStop, SysRealTimeClock, SysRealTimeActiveSensing,
              SysRealTimeSystemReset, SysCommonTuneRequest}
         then (Some (system_ump A grp type 0 0), p\<lparr>pending_index := 0, expected_size := 0\<rparr>)
         else if type \<in> {ProgramChange, AfterTouchChannel, SysCommonTimeCodeQuarterFrame, SysCommonSongSelect,
              NoteOn, NoteOff, ControlChange, PitchBend, AfterTouchPoly, SysCommonSongPosition}
         then let p = p\<lparr>expected_size :=
                (if type \<in> {ProgramChange, AfterTouchChannel, SysCommonTimeCodeQuarterFrame, SysCommonSongSelect} then 2 else 3)\<rparr>
              in if pending_index p \<ge> expected_size p
                 then (case complete_message A grp p of (packet, p) \<Rightarrow> (Some packet, p))
                 else (None, p)
         else (None, parser_reset))"

text \<open>
  A status byte inside a SysEx resets the parser and parses the byte again; \<open>again\<close> is the result
  of that call, which \<open>parse\<close> below makes.
\<close>

definition parse_sysex_byte ::
    "ump_api \<Rightarrow> u8 \<Rightarrow> u8 \<Rightarrow> midi_ump option \<times> midi1_parser \<Rightarrow> midi1_parser \<Rightarrow> midi_ump option \<times> midi1_parser" where
  "parse_sysex_byte A d grp again p =
     (if d = SYS_EX_END
      then let status = (if sysex_multi_packet p then SysEx7End else SysEx7Complete)
           in case flush_sysex A grp status (p\<lparr>sysex_active := False\<rparr>) of (packet, p) \<Rightarrow> (Some packet, p)
      else if d \<ge> MIDI_STATUS_MIN then again
      else if sysex_size p = SYSEX7_DATA64_MAX_PAYLOAD_SIZE
      then case flush_sysex A grp (if sysex_multi_packet p then SysEx7Continue else SysEx7Start) p of
             (packet, p) \<Rightarrow> (Some packet, store_sysex_byte d (p\<lparr>sysex_multi_packet := True\<rparr>))
      else (None, store_sysex_byte d p))"

function parse :: "ump_api \<Rightarrow> u8 \<Rightarrow> u8 \<Rightarrow> midi1_parser \<Rightarrow> midi_ump option \<times> midi1_parser" where
  "parse A d grp p =
     (if d = SYS_EX_START
      then (None, p\<lparr>pending_index := 0, expected_size := 0, running_status := 0, sysex_size := 0,
                    sysex_active := True, sysex_multi_packet := False\<rparr>)
      else if sysex_active p then parse_sysex_byte A d grp (parse A d grp parser_reset) p
      else if pending_index p = 0 then parse_first A d grp p
      else if d \<ge> MIDI_STATUS_MIN then parse A d grp parser_reset
      else let p = p\<lparr>parser_pending := (parser_pending p)[pending_index p := d], pending_index := pending_index p + 1\<rparr>
           in if pending_index p \<ge> expected_size p
              then (case complete_message A grp p of (packet, p) \<Rightarrow> (Some packet, p))
              else (None, p))"
  by pat_completeness auto

termination
  by (relation "measure (\<lambda>(A, d, g, p). if sysex_active p \<or> pending_index p \<noteq> 0 then 1 else 0)")
    (auto simp: parser_reset_def)

declare parse.simps [simp del]

text \<open>
  \<open>read_midi1_bytes_as_ump\<close> reads until a packet is complete or no byte is available; a reader
  that never runs dry may keep it busy forever. A reader may itself not return, which is \<open>None\<close>.
\<close>

partial_function (option) read_midi1_bytes_as_ump ::
    "ump_api \<Rightarrow> u8 \<Rightarrow> ('r \<Rightarrow> (u8 option \<times> 'r) option) \<Rightarrow> midi1_parser \<Rightarrow> 'r \<Rightarrow> (midi_ump option \<times> midi1_parser \<times> 'r) option" where
  "read_midi1_bytes_as_ump A grp read_byte p r =
     (case read_byte r of
        None \<Rightarrow> None
      | Some (None, r) \<Rightarrow> Some (None, p, r)
      | Some (Some d, r) \<Rightarrow>
          (case parse A d grp p of
             (Some packet, p) \<Rightarrow> Some (Some packet, p, r)
           | (None, p) \<Rightarrow> read_midi1_bytes_as_ump A grp read_byte p r))"

end
