(* ===== verification/Midi_Packets.thy ===== *)
theory Midi_Packets
  imports Midi_Common
begin

text \<open>
  The fields of the packets the code builds, read with the accessors of the UMP format. The
  locale \<open>ump_macros\<close> states what Zephyr documents of its macros; the packets built by
  \<open>midi1_channel_voice_ump\<close>, \<open>system_ump\<close> and the SysEx7 helpers carry the message they were
  built from.
\<close>

section \<open>Masks\<close>

lemma and_mask_u8 [simp]:
  "(x :: u8) AND 0x7F = take_bit 7 x" "(x :: u8) AND LOW_NIBBLE_MASK = take_bit 4 x"
  by (simp_all add: take_bit_eq_mask mask_eq_exp_minus_1 model_defs)

lemma and_mask_u32:
  "(x :: u32) AND 0x7F = take_bit 7 x" "(x :: u32) AND ucast LOW_NIBBLE_MASK = take_bit 4 x"
  "(x :: u32) AND ucast (0x7F :: u8) = take_bit 7 x"
  by (simp_all add: take_bit_eq_mask mask_eq_exp_minus_1 model_defs)

lemma high_nibble_shift: "drop_bit 4 (x AND HIGH_NIBBLE_MASK) = drop_bit 4 (x :: u8)"
proof -
  have h: "HIGH_NIBBLE_MASK = push_bit 4 (mask 4)" by (simp add: model_defs mask_eq_exp_minus_1)
  show ?thesis unfolding h by (rule bit_word_eqI) (auto simp: bit_simps dest: bit_imp_le_length)
qed

lemmas high_nibble_shifts = high_nibble_shift high_nibble_shift [unfolded drop_bit_and]

lemma take_bit_u8_eq: "n < 8 \<Longrightarrow> take_bit n (x :: u8) = x \<longleftrightarrow> x < 2 ^ n"
proof -
  assume n: "n < 8"
  then have p: "unat (2 ^ n :: u8) = 2 ^ n" proof -
    have "(2 :: nat) ^ n < 2 ^ 8" using n by (intro power_strict_increasing) auto
    then have "unat (of_nat (2 ^ n) :: u8) = 2 ^ n" by (simp only: unat_of_nat) (simp add: take_bit_nat_eq_self)
    then show ?thesis by simp
  qed
  have "take_bit n x = x \<longleftrightarrow> take_bit n (unat x) = unat x"
    by (metis unsigned_take_bit_eq unsigned_word_eqI)
  also have "\<dots> \<longleftrightarrow> unat x < 2 ^ n" by (rule take_bit_nat_eq_self_iff)
  also have "\<dots> \<longleftrightarrow> x < 2 ^ n" by (simp add: word_less_nat_alt p)
  finally show ?thesis .
qed

lemma take_bit_7_eq: "take_bit 7 (x :: u8) = x \<longleftrightarrow> x < 0x80"
  using take_bit_u8_eq [of 7 x] by simp

lemma odd_drop_bit: "drop_bit k (x :: 'a :: len word) AND 1 \<noteq> 0 \<longleftrightarrow> bit x k"
  by (simp add: and_one_eq mod_2_eq_odd bit_iff_odd_drop_bit)

section \<open>14-bit values\<close>

lemma split14_bits: "split14 v = (ucast (take_bit 7 (drop_bit 7 v)), ucast (take_bit 7 v))"
proof -
  have m: "(ucast BYTE_MASK :: u16) = mask 8" by (simp add: model_defs mask_eq_exp_minus_1)
  have b: "ucast (x AND mask 8 :: u16) = (ucast x :: u8)" for x
    by (rule bit_word_eqI) (simp add: bit_simps)
  have c: "drop_bit 7 (ucast v :: u8) AND 1 \<noteq> 0 \<longleftrightarrow> bit v 7"
    by (simp only: odd_drop_bit) (simp add: bit_simps)
  let ?h = "take_bit 7 (push_bit 1 (ucast (drop_bit 8 v))) :: u8"
  have high: "(if bit v 7 then ?h OR 1 else ?h AND NOT 1) = ucast (take_bit 7 (drop_bit 7 v))"
  proof (rule bit_word_eqI)
    fix n assume "n < LENGTH(8)"
    then show "bit (if bit v 7 then ?h OR 1 else ?h AND NOT 1) n = bit (ucast (take_bit 7 (drop_bit 7 v)) :: u8) n"
      by (cases n) (auto simp: bit_simps bit_double_iff mult.commute [of _ "2 :: u8"])
  qed
  have low: "take_bit 7 (ucast v :: u8) = ucast (take_bit 7 v)"
    by (rule bit_word_eqI) (auto simp: bit_simps)
  have "split14 v = (if bit v 7 then ?h OR 1 else ?h AND NOT 1, take_bit 7 (ucast v))"
    unfolding split14_def Let_def by (simp add: m b c del: One_nat_def)
  then show ?thesis unfolding high low .
qed

lemma merge14_bits: "merge14 h l = push_bit 7 (ucast h) OR ucast (take_bit 7 l)"
proof -
  define m :: u8 where "m = push_bit 7 1"
  have bm: "bit m n \<longleftrightarrow> n = 7" for n unfolding m_def bit_push_bit_iff bit_1_iff by auto
  have c: "h AND 1 \<noteq> 0 \<longleftrightarrow> bit h 0" using odd_drop_bit [of 0 h] by simp
  have "merge14 h l = push_bit 8 (ucast (drop_bit 1 h)) OR ucast (if bit h 0 then l OR m else l AND NOT m)"
    unfolding merge14_def Let_def c by (simp add: m_def del: bit_0)
  also have "\<dots> = push_bit 7 (ucast h) OR ucast (take_bit 7 l)"
  proof (rule bit_word_eqI)
    fix n assume n: "n < LENGTH(16)"
    show "bit (push_bit 8 (ucast (drop_bit 1 h)) OR ucast (if bit h 0 then l OR m else l AND NOT m) :: u16) n =
      bit (push_bit 7 (ucast h) OR ucast (take_bit 7 l) :: u16) n"
    proof (cases "n < 8")
      case True
      then show ?thesis by (cases "n = 7") (auto simp: bit_simps bm simp del: bit_0)
    next
      case False
      then obtain k where "n = 8 + k" using le_Suc_ex not_less by blast
      then show ?thesis using n by (auto simp: bit_simps bm simp del: bit_0 dest: bit_imp_le_length)
    qed
  qed
  finally show ?thesis .
qed

lemma merge_split: "merge14 (fst (split14 v)) (snd (split14 v)) = take_bit 14 v"
  unfolding split14_bits fst_conv snd_conv merge14_bits by (rule bit_word_eqI) (auto simp: bit_simps)

section \<open>SysEx7 payload bytes\<close>

text \<open>The byte of the packet that holds payload byte \<open>i\<close>.\<close>

definition payload_field :: "midi_ump \<Rightarrow> nat \<Rightarrow> u32" where
  "payload_field p i = (if i < 2 then take_bit 8 (drop_bit (8 * (1 - i)) (data0 p))
     else take_bit 8 (drop_bit (8 * (5 - i)) (data1 p)))"

lemma less_6_cases: "(i :: nat) < 6 \<longleftrightarrow> i = 0 \<or> i = 1 \<or> i = 2 \<or> i = 3 \<or> i = 4 \<or> i = 5"
  by auto

lemma payload_field_write:
  assumes "i < 6" "j < 6" "payload_field p j = 0"
  shows "payload_field (write_sysex7_payload_byte j x p) i = (if i = j then ucast (take_bit 7 x) else payload_field p i)"
proof -
  have shift: "take_bit 8 (drop_bit s (w OR push_bit t (ucast (take_bit 7 x)) :: u32)) = take_bit 8 (drop_bit s w)"
    if "s + 8 \<le> t \<or> t + 8 \<le> s" for s t w
  proof (rule bit_word_eqI)
    fix n
    have "\<not> (t \<le> s + n \<and> n < 8 \<and> s + n - t < 7)" using that by linarith
    then show "bit (take_bit 8 (drop_bit s (w OR push_bit t (ucast (take_bit 7 x)) :: u32))) n = bit (take_bit 8 (drop_bit s w)) n"
      by (auto simp: bit_simps)
  qed
  have same: "take_bit 8 (drop_bit s (w OR push_bit s (ucast (take_bit 7 x)) :: u32)) = ucast (take_bit 7 x)"
    if "take_bit 8 (drop_bit s w) = 0" "s \<le> 24" for s w
  proof (rule bit_word_eqI)
    fix n assume "n < LENGTH(32)"
    have "\<not> (n < 8 \<and> bit w (s + n))" using arg_cong [OF that(1), of "\<lambda>w. bit w n"] by (simp add: bit_simps)
    then show "bit (take_bit 8 (drop_bit s (w OR push_bit s (ucast (take_bit 7 x)) :: u32))) n = bit (ucast (take_bit 7 x) :: u32) n"
      using that(2) by (auto simp: bit_simps dest: bit_imp_le_length)
  qed
  have ar: "8 * (1 - i) + 8 \<le> 8 * (1 - j) \<or> 8 * (1 - j) + 8 \<le> 8 * (1 - i)" if "i < 2" "j < 2" "i \<noteq> j" for i j :: nat
    using that by auto
  have ar': "8 * (5 - i) + 8 \<le> 8 * (5 - j) \<or> 8 * (5 - j) + 8 \<le> 8 * (5 - i)" if "\<not> i < 2" "\<not> j < 2" "i < 6" "j < 6" "i \<noteq> j" for i j :: nat
    using that by auto
  show ?thesis
  proof (cases "j < 2")
    case j: True
    then have w: "write_sysex7_payload_byte j x p = p\<lparr>data0 := data0 p OR push_bit (8 * (1 - j)) (ucast (take_bit 7 x))\<rparr>"
      by (simp add: write_sysex7_payload_byte_def Let_def)
    show ?thesis
    proof (cases "i < 2")
      case True
      then show ?thesis using j ar [of i j] shift [of "8 * (1 - i)" "8 * (1 - j)" "data0 p"]
          same [of "8 * (1 - j)" "data0 p"] assms(3)
        unfolding w payload_field_def by (cases "i = j") auto
    qed (use j in \<open>auto simp: w payload_field_def\<close>)
  next
    case j: False
    then have w: "write_sysex7_payload_byte j x p = p\<lparr>data1 := data1 p OR push_bit (8 * (5 - j)) (ucast (take_bit 7 x))\<rparr>"
      by (simp add: write_sysex7_payload_byte_def Let_def)
    show ?thesis
    proof (cases "i < 2")
      case True
      then show ?thesis using j by (auto simp: w payload_field_def)
    next
      case False
      then show ?thesis using j ar' [of i j] shift [of "8 * (5 - i)" "8 * (5 - j)" "data1 p"]
          same [of "8 * (5 - j)" "data1 p"] assms
        unfolding w payload_field_def by (cases "i = j") auto
    qed
  qed
qed

lemma write_payload_snoc: "write_payload (bs @ [x]) p = write_sysex7_payload_byte (length bs) x (write_payload bs p)"
proof -
  have "foldl (\<lambda>p i. write_sysex7_payload_byte i ((bs @ [x]) ! i) p) p [0 ..< length bs]
      = foldl (\<lambda>p i. write_sysex7_payload_byte i (bs ! i) p) p [0 ..< length bs]"
    by (rule foldl_cong) (auto simp: nth_append)
  then show ?thesis by (simp add: write_payload_def)
qed

lemma write_payload_fields:
  assumes "length bs \<le> 6" "\<And>i. i < 6 \<Longrightarrow> payload_field p i = 0"
  shows "i < 6 \<Longrightarrow> payload_field (write_payload bs p) i = (if i < length bs then ucast (take_bit 7 (bs ! i)) else 0)"
    and "drop_bit 16 (data0 (write_payload bs p)) = drop_bit 16 (data0 p)"
  using assms(1)
proof (induction bs arbitrary: i rule: rev_induct)
  case (snoc x bs)
  { case 1
    then show ?case using snoc(1) by (simp add: write_payload_snoc payload_field_write nth_append)
  next
    case 2
    have "drop_bit 16 (w OR push_bit t (ucast (take_bit 7 x)) :: u32) = drop_bit 16 w" if "t \<le> 8" for t w
      using that by (intro bit_word_eqI) (auto simp: bit_simps dest: bit_imp_le_length)
    then show ?case using 2 snoc(2)
      by (simp add: write_payload_snoc write_sysex7_payload_byte_def Let_def)
  }
qed (use assms(2) in \<open>simp_all add: write_payload_def\<close>)

lemma read_payload_field: "read_sysex7_payload_byte p i = ucast (take_bit 7 (payload_field p i))"
  by (rule bit_word_eqI) (auto simp: read_sysex7_payload_byte_def payload_field_def and_mask_u32 bit_simps)

section \<open>The documented packet fields\<close>

locale ump_macros =
  fixes A :: ump_api
  assumes mt_field: "UMP_MT A p = ucast (drop_bit 28 (data0 p))"
    and group_field: "UMP_GROUP A p = ucast (take_bit 4 (drop_bit 24 (data0 p)))"
    and status_field: "UMP_MIDI_STATUS A p = ucast (take_bit 8 (drop_bit 16 (data0 p)))"
    and command_field: "UMP_MIDI_COMMAND A p = ucast (take_bit 4 (drop_bit 20 (data0 p)))"
    and p1_field: "UMP_MIDI1_P1 A p = ucast (take_bit 7 (drop_bit 8 (data0 p)))"
    and p2_field: "UMP_MIDI1_P2 A p = ucast (take_bit 7 (data0 p))"
    and mt_system: "UMP_MT_SYS_RT_COMMON A = 1"
    and mt_voice: "UMP_MT_MIDI1_CHANNEL_VOICE A = 2"
    and mt_data: "UMP_MT_DATA_64 A = 3"
begin

lemmas fields = mt_field group_field status_field command_field p1_field p2_field

lemma mt_nibbles:
  "take_bit 4 (UMP_MT_SYS_RT_COMMON A) = UMP_MT_SYS_RT_COMMON A"
  "take_bit 4 (UMP_MT_MIDI1_CHANNEL_VOICE A) = UMP_MT_MIDI1_CHANNEL_VOICE A"
  "take_bit 4 (UMP_MT_DATA_64 A) = UMP_MT_DATA_64 A"
  by (simp_all add: mt_system mt_voice mt_data take_bit_u8_eq)

lemma bit_nibble: "take_bit 4 (c :: u8) = c \<Longrightarrow> bit c n \<Longrightarrow> n < 4"
  by (metis bit_take_bit_iff)

lemma voice_fields:
  fixes g st d1 d2
  defines "p \<equiv> midi1_channel_voice_ump A g st d1 d2"
  shows "UMP_MT A p = UMP_MT_MIDI1_CHANNEL_VOICE A" "UMP_GROUP A p = take_bit 4 g" "UMP_MIDI_STATUS A p = st"
    "UMP_MIDI_COMMAND A p = drop_bit 4 st" "UMP_MIDI1_P1 A p = take_bit 7 d1" "UMP_MIDI1_P2 A p = take_bit 7 d2"
proof -
  note c = bit_nibble [OF mt_nibbles(2)]
  have d: "data0 p = push_bit 28 (ucast (UMP_MT_MIDI1_CHANNEL_VOICE A)) OR push_bit 24 (ucast (take_bit 4 g)) OR
      push_bit 20 (ucast (drop_bit 4 st)) OR push_bit 16 (ucast (take_bit 4 st)) OR
      push_bit 8 (ucast (take_bit 7 d1)) OR ucast (take_bit 7 d2)"
    by (simp add: p_def midi1_channel_voice_ump_def high_nibble_shifts)
  show "UMP_MT A p = UMP_MT_MIDI1_CHANNEL_VOICE A"
    unfolding mt_field d by (rule bit_word_eqI) (auto simp: bit_simps dest: c bit_imp_le_length)
  show "UMP_GROUP A p = take_bit 4 g"
    unfolding group_field d by (rule bit_word_eqI) (auto simp: bit_simps dest: bit_imp_le_length)
  show "UMP_MIDI_STATUS A p = st"
    unfolding status_field d by (rule bit_word_eqI) (auto simp: bit_simps not_less dest: bit_imp_le_length)
  show "UMP_MIDI_COMMAND A p = drop_bit 4 st"
    unfolding command_field d by (rule bit_word_eqI) (auto simp: bit_simps dest: bit_imp_le_length)
  show "UMP_MIDI1_P1 A p = take_bit 7 d1"
    unfolding p1_field d by (rule bit_word_eqI) (auto simp: bit_simps dest: bit_imp_le_length)
  show "UMP_MIDI1_P2 A p = take_bit 7 d2"
    unfolding p2_field d by (rule bit_word_eqI) (auto simp: bit_simps dest: bit_imp_le_length)
qed

lemma system_fields:
  fixes g st d1 d2
  defines "p \<equiv> system_ump A g st d1 d2"
  shows "UMP_MT A p = UMP_MT_SYS_RT_COMMON A" "UMP_GROUP A p = take_bit 4 g" "UMP_MIDI_STATUS A p = st"
    "UMP_MIDI1_P1 A p = take_bit 7 d1" "UMP_MIDI1_P2 A p = take_bit 7 d2"
proof -
  note c = bit_nibble [OF mt_nibbles(1)]
  have d: "data0 p = push_bit 28 (ucast (UMP_MT_SYS_RT_COMMON A)) OR push_bit 24 (ucast (take_bit 4 g)) OR
      push_bit 16 (ucast st) OR push_bit 8 (ucast (take_bit 7 d1)) OR ucast (take_bit 7 d2)"
    by (simp add: p_def system_ump_def)
  show "UMP_MT A p = UMP_MT_SYS_RT_COMMON A"
    unfolding mt_field d by (rule bit_word_eqI) (auto simp: bit_simps dest: c bit_imp_le_length)
  show "UMP_GROUP A p = take_bit 4 g"
    unfolding group_field d by (rule bit_word_eqI) (auto simp: bit_simps dest: bit_imp_le_length)
  show "UMP_MIDI_STATUS A p = st"
    unfolding status_field d by (rule bit_word_eqI) (auto simp: bit_simps dest: bit_imp_le_length)
  show "UMP_MIDI1_P1 A p = take_bit 7 d1"
    unfolding p1_field d by (rule bit_word_eqI) (auto simp: bit_simps dest: bit_imp_le_length)
  show "UMP_MIDI1_P2 A p = take_bit 7 d2"
    unfolding p2_field d by (rule bit_word_eqI) (auto simp: bit_simps dest: bit_imp_le_length)
qed

lemma header_bits:
  "drop_bit 16 (sysex7_header A g st n) = push_bit 12 (ucast (UMP_MT_DATA_64 A)) OR push_bit 8 (ucast (take_bit 4 g)) OR
     push_bit 4 (ucast (take_bit 4 st)) OR take_bit 4 (of_nat n)"
  "take_bit 16 (sysex7_header A g st n) = 0"
proof -
  note c = bit_nibble [OF mt_nibbles(3)]
  have d: "sysex7_header A g st n = push_bit 28 (ucast (UMP_MT_DATA_64 A)) OR push_bit 24 (ucast (take_bit 4 g)) OR
      push_bit 20 (ucast (take_bit 4 st)) OR push_bit 16 (take_bit 4 (of_nat n))"
    by (simp add: sysex7_header_def and_mask_u32)
  show "drop_bit 16 (sysex7_header A g st n) = push_bit 12 (ucast (UMP_MT_DATA_64 A)) OR push_bit 8 (ucast (take_bit 4 g)) OR
     push_bit 4 (ucast (take_bit 4 st)) OR take_bit 4 (of_nat n)"
    unfolding d by (rule bit_word_eqI) (auto simp: bit_simps dest: c bit_imp_le_length)
  show "take_bit 16 (sysex7_header A g st n) = 0"
    unfolding d by (rule bit_word_eqI) (auto simp: bit_simps)
qed

lemma sysex_fields:
  fixes g st bs
  defines "p \<equiv> sysex7_packet A g st bs"
  assumes len: "length bs \<le> 6"
  shows "UMP_MT A p = UMP_MT_DATA_64 A" "UMP_GROUP A p = take_bit 4 g" "sysex7_status p = take_bit 4 st"
    "sysex7_payload_size p = of_nat (length bs)"
    "i < length bs \<Longrightarrow> read_sysex7_payload_byte p i = take_bit 7 (bs ! i)"
proof -
  let ?p0 = "empty_ump\<lparr>data0 := sysex7_header A g st (length bs)\<rparr>"
  have zero: "payload_field ?p0 i = 0" if "i < 6" for i
  proof (cases "i < 2")
    case True
    have "\<not> bit (sysex7_header A g st (length bs)) n" if "n < 16" for n
      using arg_cong [OF header_bits(2) [of g st "length bs"], of "\<lambda>w. bit w n"] that by (simp add: bit_simps)
    then show ?thesis using True by (intro bit_word_eqI) (auto simp: payload_field_def bit_simps)
  next
    case False
    then show ?thesis by (simp add: payload_field_def empty_ump_def)
  qed
  note c = bit_nibble [OF mt_nibbles(3)]
  have d: "drop_bit 16 (data0 p) = push_bit 12 (ucast (UMP_MT_DATA_64 A)) OR push_bit 8 (ucast (take_bit 4 g)) OR
     push_bit 4 (ucast (take_bit 4 st)) OR take_bit 4 (of_nat (length bs))"
    using write_payload_fields(2) [OF len zero] header_bits(1) [of g st "length bs"]
    by (simp add: p_def sysex7_packet_def)
  have dd: "drop_bit (16 + k) (data0 p) = drop_bit k (drop_bit 16 (data0 p))" for k
    by (simp add: drop_bit_drop_bit add.commute)
  have "UMP_MT A p = ucast (drop_bit 12 (drop_bit 16 (data0 p)))" using dd [of 12] by (simp add: mt_field)
  then show "UMP_MT A p = UMP_MT_DATA_64 A"
    unfolding d by (intro bit_word_eqI) (auto simp: bit_simps dest: c bit_imp_le_length)
  have "UMP_GROUP A p = ucast (take_bit 4 (drop_bit 8 (drop_bit 16 (data0 p))))" using dd [of 8] by (simp add: group_field)
  then show "UMP_GROUP A p = take_bit 4 g"
    unfolding d by (intro bit_word_eqI) (auto simp: bit_simps dest: bit_imp_le_length)
  have "sysex7_status p = ucast (take_bit 4 (drop_bit 4 (drop_bit 16 (data0 p))))"
    using dd [of 4] by (simp add: sysex7_status_def and_mask_u32)
  then show "sysex7_status p = take_bit 4 st"
    unfolding d by (intro bit_word_eqI) (auto simp: bit_simps dest: bit_imp_le_length)
  have "sysex7_payload_size p = ucast (take_bit 4 (drop_bit 16 (data0 p)))"
    by (simp add: sysex7_payload_size_def and_mask_u32)
  also have "\<dots> = ucast (take_bit 4 (of_nat (length bs) :: u32))"
    unfolding d by (intro bit_word_eqI) (auto simp: bit_simps dest: bit_imp_le_length)
  also have "\<dots> = of_nat (length bs)"
    using len by (auto simp: less_6_cases le_less)
  finally show "sysex7_payload_size p = of_nat (length bs)" .
  assume "i < length bs"
  then show "read_sysex7_payload_byte p i = take_bit 7 (bs ! i)"
    using write_payload_fields(1) [OF len zero, of i] len
    by (intro bit_word_eqI) (simp add: read_payload_field p_def sysex7_packet_def bit_simps)
qed

end

end
