(* ===== verification/Midi_Stream.thy ===== *)
theory Midi_Stream
  imports Midi_Packets
begin

text \<open>
  MIDI 1 messages as data: their byte encoding, their packets, and the proofs that the code
  translates one into the other. Packets are written as the bytes of their message, and the
  stream parser turns the bytes back into the packets, also when channel messages leave out
  a repeated status byte.
\<close>

section \<open>Messages\<close>

datatype midi_msg = Voice u8 u8 u8 | System u8 u8 u8 | SysExMsg "u8 list"

definition one_data :: "u8 \<Rightarrow> bool" where
  "one_data t \<longleftrightarrow> t = ProgramChange \<or> t = AfterTouchChannel"

fun valid_msg :: "midi_msg \<Rightarrow> bool" where
  "valid_msg (Voice st d1 d2) \<longleftrightarrow> 0x80 \<le> st \<and> st < 0xF0 \<and> d1 < 0x80 \<and> d2 < 0x80 \<and>
     (one_data (type_from_status_byte st) \<longrightarrow> d2 = 0)"
| "valid_msg (System st d1 d2) \<longleftrightarrow> d1 < 0x80 \<and> d2 < 0x80 \<and>
     (st = SysCommonSongPosition \<or>
      d2 = 0 \<and> (st = SysCommonTimeCodeQuarterFrame \<or> st = SysCommonSongSelect \<or>
        d1 = 0 \<and> (st = SysCommonTuneRequest \<or> is_system_real_time st)))"
| "valid_msg (SysExMsg bs) \<longleftrightarrow> list_all (\<lambda>d. d < 0x80) bs"

text \<open>The data bytes after the status byte of a channel or system message.\<close>

definition data_bytes :: "u8 \<Rightarrow> u8 \<Rightarrow> u8 \<Rightarrow> u8 list" where
  "data_bytes st d1 d2 =
     (let t = type_from_status_byte st in
      if t = SysCommonSongPosition \<or> (st < 0xF0 \<and> \<not> one_data t) then [d1, d2]
      else if t = SysCommonTimeCodeQuarterFrame \<or> t = SysCommonSongSelect \<or> st < 0xF0 then [d1]
      else [])"

fun msg_bytes :: "midi_msg \<Rightarrow> u8 list" where
  "msg_bytes (Voice st d1 d2) = st # data_bytes st d1 d2"
| "msg_bytes (System st d1 d2) = st # data_bytes st d1 d2"
| "msg_bytes (SysExMsg bs) = SYS_EX_START # bs @ [SYS_EX_END]"

text \<open>A payload in chunks of six; the last chunk has one to six bytes, or none when the payload is empty.\<close>

fun chunks :: "u8 list \<Rightarrow> u8 list list" where
  "chunks bs = (if length bs \<le> 6 then [bs] else take 6 bs # chunks (drop 6 bs))"

declare chunks.simps [simp del]

lemma chunks_short: "length bs \<le> 6 \<Longrightarrow> chunks bs = [bs]"
  and chunks_long: "6 < length bs \<Longrightarrow> chunks bs = take 6 bs # chunks (drop 6 bs)"
  by (simp_all add: chunks.simps)

lemma concat_chunks: "concat (chunks bs) = bs"
proof (induction bs rule: chunks.induct)
  case (1 bs)
  then show ?case by (cases "length bs \<le> 6") (simp_all add: chunks_short chunks_long)
qed

lemma chunks_length: "c \<in> set (chunks bs) \<Longrightarrow> length c \<le> 6"
proof (induction bs rule: chunks.induct)
  case (1 bs)
  then show ?case by (cases "length bs \<le> 6") (auto simp: chunks_short chunks_long)
qed

lemma chunks_nonempty: "chunks bs \<noteq> []"
  by (cases "length bs \<le> 6") (simp_all add: chunks_short chunks_long)

text \<open>The packets of the chunks that follow the first one.\<close>

fun tail_packets :: "ump_api \<Rightarrow> u8 \<Rightarrow> u8 list list \<Rightarrow> midi_ump list" where
  "tail_packets A g [] = []"
| "tail_packets A g [c] = [sysex7_packet A g SysEx7End c]"
| "tail_packets A g (c # d # cs) = sysex7_packet A g SysEx7Continue c # tail_packets A g (d # cs)"

fun chunk_packets :: "ump_api \<Rightarrow> u8 \<Rightarrow> u8 list list \<Rightarrow> midi_ump list" where
  "chunk_packets A g [] = []"
| "chunk_packets A g [c] = [sysex7_packet A g SysEx7Complete c]"
| "chunk_packets A g (c # d # cs) = sysex7_packet A g SysEx7Start c # tail_packets A g (d # cs)"

fun msg_packets :: "ump_api \<Rightarrow> u8 \<Rightarrow> midi_msg \<Rightarrow> midi_ump list" where
  "msg_packets A g (Voice st d1 d2) = [midi1_channel_voice_ump A g st d1 d2]"
| "msg_packets A g (System st d1 d2) = [system_ump A g st d1 d2]"
| "msg_packets A g (SysExMsg bs) = chunk_packets A g (chunks bs)"

section \<open>Packets to bytes\<close>

text \<open>The bytes the code writes for a packet, when it accepts it.\<close>

definition ump_bytes :: "ump_api \<Rightarrow> midi_ump \<Rightarrow> u8 list option" where
  "ump_bytes A p =
     (if UMP_MT A p = UMP_MT_MIDI1_CHANNEL_VOICE A then
        Some ([UMP_MIDI_STATUS A p, UMP_MIDI1_P1 A p] @
              (if one_data (type_from_status_byte (UMP_MIDI_STATUS A p)) then [] else [UMP_MIDI1_P2 A p]))
      else if UMP_MT A p = UMP_MT_SYS_RT_COMMON A then
        Some (UMP_MIDI_STATUS A p #
          (let t = type_from_status_byte (UMP_MIDI_STATUS A p) in
           if t = SysCommonTimeCodeQuarterFrame \<or> t = SysCommonSongSelect then [UMP_MIDI1_P1 A p]
           else if t = SysCommonSongPosition then [UMP_MIDI1_P1 A p, UMP_MIDI1_P2 A p] else []))
      else if is_sysex7_packet A p then
        Some ((if sysex7_starts_message (sysex7_status p) then [SYS_EX_START] else []) @
              map (read_sysex7_payload_byte p) [0 ..< unat (sysex7_payload_size p)] @
              (if sysex7_ends_message (sysex7_status p) then [SYS_EX_END] else []))
      else None)"

lemma write_all_append: "write_all W (xs @ ys) = (\<lambda>w. and_then (write_all W xs w) (write_all W ys))"
proof
  show "write_all W (xs @ ys) w = and_then (write_all W xs w) (write_all W ys)" for w
    by (induction xs arbitrary: w) (simp_all add: and_then_def split: prod.splits)
qed

lemma and_then_True_right: "and_then r (\<lambda>w. (True, w)) = r"
  by (simp add: and_then_def split: prod.splits)

lemma write_all_nil: "write_all W [] = (\<lambda>w. (True, w))"
  by (rule ext) simp

lemma write_all_one: "write_all W [x] = W x"
  by (rule ext) (simp add: and_then_def split: prod.splits)

lemma write_all_two: "write_all W [x, y] = (\<lambda>w. and_then (W x w) (W y))"
  by (rule ext) (simp add: and_then_True_right write_all_one del: write_all.simps(2) add: write_all.simps(2) [of W x "[y]"])

lemma and_then_assoc: "and_then (and_then r f) g = and_then r (\<lambda>w. and_then (f w) g)"
  by (simp add: and_then_def split: prod.splits)

lemma write_ump_eq_write_all:
  assumes "UMP_GROUP A p = g"
  shows "write_ump_as_midi1_bytes A p g W w = (case ump_bytes A p of None \<Rightarrow> (False, w) | Some bs \<Rightarrow> write_all W bs w)"
proof -
  consider "UMP_MT A p = UMP_MT_MIDI1_CHANNEL_VOICE A"
    | "UMP_MT A p \<noteq> UMP_MT_MIDI1_CHANNEL_VOICE A" "UMP_MT A p = UMP_MT_SYS_RT_COMMON A"
    | "UMP_MT A p \<noteq> UMP_MT_MIDI1_CHANNEL_VOICE A" "UMP_MT A p \<noteq> UMP_MT_SYS_RT_COMMON A" by blast
  then show ?thesis
  proof cases
    case 1
    then show ?thesis using assms
      by (simp add: write_ump_as_midi1_bytes_def ump_bytes_def one_data_def and_then_True_right write_all_nil write_all_one write_all_two Let_def)
  next
    case 2
    then show ?thesis using assms
      by (simp add: write_ump_as_midi1_bytes_def ump_bytes_def and_then_True_right write_all_nil write_all_one write_all_two Let_def)
  next
    case 3
    then show ?thesis using assms
      by (auto simp: write_ump_as_midi1_bytes_def ump_bytes_def write_all_append write_all_nil write_all_one and_then_assoc
          and_then_True_right is_sysex7_packet_def Let_def simp del: write_all.simps(2))
  qed
qed

section \<open>A payload as packets\<close>

lemma packets_loop_chunks:
  assumes "offset < length payload" "length payload - offset \<le> fuel"
    and "cs = chunks (drop offset payload)"
  shows "packets_loop fuel A g payload W offset w =
    Some (write_all W (if offset = 0 then chunk_packets A g cs else tail_packets A g cs) w)"
  using assms
proof (induction fuel arbitrary: offset w cs)
  case (Suc fuel)
  let ?n = "min (length payload - offset) 6"
  have sl: "slice offset ?n payload = take 6 (drop offset payload)" by (simp add: slice_def min_def)
  show ?case
  proof (cases "length payload - offset \<le> 6")
    case True
    then have "cs = [drop offset payload]" "?n = length payload - offset" using Suc(4) by (simp_all add: chunks_short)
    then show ?thesis using Suc(2) sl True
      by (auto simp: chunk_status_def write_all_one and_then_True_right Let_def split: prod.splits bool.splits)
  next
    case False
    let ?rest = "chunks (drop (offset + 6) payload)"
    have cs: "cs = take 6 (drop offset payload) # ?rest" using Suc(4) False by (simp add: chunks_long add.commute)
    obtain d ds where ds: "?rest = d # ds" using chunks_nonempty by (cases ?rest) auto
    have IH: "packets_loop fuel A g payload W (offset + 6) w' = Some (write_all W (tail_packets A g ?rest) w')" for w'
      using Suc(1) [of "offset + 6" ?rest w'] Suc(2,3) False by simp
    have st: "chunk_status offset 6 (length payload) = (if offset = 0 then SysEx7Start else SysEx7Continue)"
      using False by (auto simp: chunk_status_def Let_def)
    let ?P = "sysex7_packet A g (chunk_status offset 6 (length payload)) (take 6 (drop offset payload))"
    have "?n = 6" "offset + 6 < length payload" using False by simp_all
    then have step: "packets_loop (Suc fuel) A g payload W offset w =
        (case W ?P w of (False, w') \<Rightarrow> Some (False, w') | (True, w') \<Rightarrow> packets_loop fuel A g payload W (offset + 6) w')"
      using sl by (simp only: packets_loop.simps Let_def SYSEX7_DATA64_MAX_PAYLOAD_SIZE_def if_True simp_thms)
    have all: "(if offset = 0 then chunk_packets A g cs else tail_packets A g cs) = ?P # tail_packets A g ?rest"
      using ds st by (cases "offset = 0") (simp_all add: cs)
    show ?thesis unfolding step all IH by (cases "W ?P w") (simp add: and_then_def split: bool.splits)
  qed
qed simp

lemma packets_loop_empty:
  assumes "\<And>p w. fst (W p w)"
  shows "packets_loop fuel A g [] W offset w = None"
proof (induction fuel arbitrary: offset w)
  case (Suc fuel)
  show ?case using Suc assms by (auto simp: Let_def slice_def split: prod.splits bool.splits dest!: arg_cong [of _ _ fst])
qed simp

section \<open>The parser\<close>

text \<open>Feeding bytes one by one and collecting the packets.\<close>

fun parse_all :: "ump_api \<Rightarrow> u8 \<Rightarrow> u8 list \<Rightarrow> midi1_parser \<Rightarrow> midi_ump list \<times> midi1_parser" where
  "parse_all A g [] p = ([], p)"
| "parse_all A g (d # ds) p =
     (case parse A d g p of (out, p) \<Rightarrow>
        (case parse_all A g ds p of (outs, p) \<Rightarrow> ((case out of None \<Rightarrow> outs | Some x \<Rightarrow> x # outs), p)))"

lemma parse_all_append:
  "parse_all A g (xs @ ys) p =
     (case parse_all A g xs p of (out1, p1) \<Rightarrow> (case parse_all A g ys p1 of (out2, p2) \<Rightarrow> (out1 @ out2, p2)))"
  by (induction xs arbitrary: p) (auto split: prod.splits option.splits)

text \<open>The parser's invariant: its buffers have their size and every index used is inside them.\<close>

definition parser_ok :: "midi1_parser \<Rightarrow> bool" where
  "parser_ok p \<longleftrightarrow>
     length (parser_pending p) = 3 \<and> length (sysex_buffer p) = 6 \<and> sysex_size p \<le> 6 \<and>
     (pending_index p \<noteq> 0 \<longrightarrow> pending_index p < expected_size p \<and> 0x80 \<le> parser_pending p ! 0) \<and> expected_size p \<le> 3 \<and>
     (running_status p = 0 \<or> 0x80 \<le> running_status p \<and> running_status p < 0xF0)"

lemma parser_reset_ok [simp]: "parser_ok parser_reset"
  by (simp add: parser_ok_def parser_reset_def)

lemma complete_message_ok:
  "parser_ok (p\<lparr>pending_index := 0, expected_size := 0\<rparr>) \<Longrightarrow> 0x80 \<le> parser_pending p ! 0 \<Longrightarrow>
    parser_ok (snd (complete_message A g p))"
  by (simp add: complete_message_def parser_ok_def Let_def)

lemma type_status_ge: "type_from_status_byte st \<noteq> 0 \<Longrightarrow> 0x80 \<le> st"
  by (auto simp: type_from_status_byte_def split: if_splits)

lemma voice_types:
  assumes "0x80 \<le> st" "st < 0xF0"
  shows "type_from_status_byte st \<in> {0x80, 0x90, 0xA0, 0xB0, 0xC0, 0xD0, 0xE0}"
proof -
  let ?k = "drop_bit 4 st"
  have h: "HIGH_NIBBLE_MASK = push_bit 4 (mask 4)" by (simp add: model_defs mask_eq_exp_minus_1)
  have "st AND HIGH_NIBBLE_MASK = push_bit 4 ?k"
    unfolding h by (rule bit_word_eqI) (auto simp: bit_simps)
  moreover have "?k \<in> {8, 9, 10, 11, 12, 13, 14}"
  proof -
    have "unat ?k = unat st div 16" by (simp add: drop_bit_eq_div unat_div_distrib)
    moreover have "128 \<le> unat st" "unat st < 240" using assms by (simp_all add: word_le_nat_alt word_less_nat_alt)
    ultimately have "unat ?k = 8 \<or> unat ?k = 9 \<or> unat ?k = 10 \<or> unat ?k = 11 \<or> unat ?k = 12 \<or> unat ?k = 13 \<or> unat ?k = 14"
      by linarith
    then show ?thesis by (auto simp: word_unat_eq_iff)
  qed
  moreover have "type_from_status_byte st = st AND HIGH_NIBBLE_MASK"
    using assms by (auto simp: type_from_status_byte_def)
  ultimately show ?thesis by auto
qed

definition idle :: "midi1_parser \<Rightarrow> bool" where
  "idle p \<longleftrightarrow> parser_ok p \<and> pending_index p = 0 \<and> \<not> sysex_active p"

lemma idle_reset [simp]: "idle parser_reset"
  by (simp add: idle_def) (simp add: parser_reset_def)

lemma parse_idle: "idle p \<Longrightarrow> d \<noteq> SYS_EX_START \<Longrightarrow> parse A d g p = parse_first A d g p"
  by (simp add: idle_def parse.simps)

lemma parse_data:
  assumes "\<not> sysex_active p" "pending_index p \<noteq> 0" "d < 0x80"
  shows "parse A d g p =
    (let p = p\<lparr>parser_pending := (parser_pending p)[pending_index p := d], pending_index := pending_index p + 1\<rparr>
     in if pending_index p \<ge> expected_size p
        then (case complete_message A g p of (packet, p) \<Rightarrow> (Some packet, p)) else (None, p))"
proof -
  have "d \<noteq> 0xF0" "\<not> 0x80 \<le> d" using assms(3) by auto
  then show ?thesis using assms by (subst parse.simps) simp
qed

lemma running_ok: "idle p \<Longrightarrow> running_status p = st \<Longrightarrow> 0x80 \<le> st \<Longrightarrow> st < 0xF0 \<Longrightarrow>
    is_channel_message (type_from_status_byte (running_status p))"
  using voice_types [of st] by (auto simp: is_channel_message_def)

lemma pending3: "length xs = 3 \<Longrightarrow> \<exists>a b c. xs = [a, b, c]"
  by (auto simp: numeral_eq_Suc length_Suc_conv)

lemma parse_voice:
  assumes p: "idle p" and v: "valid_msg (Voice st d1 d2)"
  shows "\<exists>p'. parse_all A g (st # data_bytes st d1 d2) p = ([midi1_channel_voice_ump A g st d1 d2], p') \<and>
    idle p' \<and> running_status p' = st"
proof -
  have st: "0x80 \<le> st" "st < 0xF0" "st \<noteq> 0xF0" "\<not> st < 0x80" using v by auto
  let ?t = "type_from_status_byte st"
  note t = voice_types [OF st(1,2)]
  obtain a b c where abc: "parser_pending p = [a, b, c]" using p pending3 [of "parser_pending p"] by (auto simp: idle_def parser_ok_def)
  let ?n = "if one_data ?t then 2 else 3 :: nat"
  let ?p1 = "p\<lparr>parser_pending := [st, b, c], pending_index := 1, expected_size := ?n\<rparr>"
  have one: "parse A st g p = (None, ?p1)"
    using t st abc unfolding parse_idle [OF p st(3) [folded SYS_EX_START_def]]
    by (auto simp: parse_first_def one_data_def Let_def)
  have d: "d1 < 0x80" "d2 < 0x80" using v by auto
  show ?thesis
  proof (cases "one_data ?t")
    case True
    then have "d2 = 0" using v by simp
    have "parse A d1 g ?p1 = (Some (midi1_channel_voice_ump A g st d1 d2),
        p\<lparr>parser_pending := [st, d1, c], pending_index := 0, expected_size := 0, running_status := st\<rparr>)"
      using p d st True \<open>d2 = 0\<close> by (subst parse_data) (auto simp: idle_def complete_message_def Let_def)
    moreover have "data_bytes st d1 d2 = [d1]" using True t st by (auto simp: data_bytes_def one_data_def Let_def)
    ultimately show ?thesis using one p st by (auto simp: idle_def parser_ok_def)
  next
    case False
    have "parse A d1 g ?p1 = (None, ?p1\<lparr>parser_pending := [st, d1, c], pending_index := 2\<rparr>)"
      using p d False by (subst parse_data) (auto simp: idle_def Let_def)
    moreover have "parse A d2 g (?p1\<lparr>parser_pending := [st, d1, c], pending_index := 2\<rparr>) = (Some (midi1_channel_voice_ump A g st d1 d2),
        p\<lparr>parser_pending := [st, d1, d2], pending_index := 0, expected_size := 0, running_status := st\<rparr>)"
      using p d st False by (subst parse_data) (auto simp: idle_def complete_message_def Let_def)
    moreover have "data_bytes st d1 d2 = [d1, d2]" using False t st by (auto simp: data_bytes_def one_data_def Let_def)
    ultimately show ?thesis using one p st by (auto simp: idle_def parser_ok_def)
  qed
qed

end
