(* ===== verification/Midi_Parser.thy ===== *)
theory Midi_Parser
  imports Midi_Stream
begin

text \<open>
  The stream parser decodes whole streams: running status, system messages, system exclusive
  messages of any length, and the invariant that keeps its array accesses in range.
\<close>

section \<open>One message\<close>

lemma voice_data_types:
  assumes "0x80 \<le> st" "st < 0xF0"
  shows "data_bytes st d1 d2 = (if one_data (type_from_status_byte st) then [d1] else [d1, d2])"
  using voice_types [OF assms] assms by (auto simp: data_bytes_def one_data_def Let_def)

lemma parse_running:
  assumes p: "idle p" and v: "valid_msg (Voice st d1 d2)" and r: "running_status p = st"
  shows "\<exists>p'. parse_all A g (data_bytes st d1 d2) p = ([midi1_channel_voice_ump A g st d1 d2], p') \<and>
    idle p' \<and> running_status p' = st"
proof -
  have st: "0x80 \<le> st" "st < 0xF0" "\<not> st < 0x80" using v by auto
  let ?t = "type_from_status_byte st"
  note t = voice_types [OF st(1,2)]
  obtain a b c where abc: "parser_pending p = [a, b, c]"
    using p pending3 [of "parser_pending p"] by (auto simp: idle_def parser_ok_def)
  have ch: "is_channel_message ?t" using running_ok [OF p r st(1,2)] r by simp
  have d: "d1 < 0x80" "d2 < 0x80" "d1 \<noteq> 0xF0" using v by auto
  show ?thesis
  proof (cases "one_data ?t")
    case True
    then have "d2 = 0" using v by simp
    have "parse A d1 g p = (Some (midi1_channel_voice_ump A g st d1 d2),
        p\<lparr>parser_pending := [st, d1, c], pending_index := 0, expected_size := 0, running_status := st\<rparr>)"
      unfolding parse_idle [OF p d(3) [folded SYS_EX_START_def]]
      using t st abc ch d True \<open>d2 = 0\<close> r
      by (auto simp: parse_first_def one_data_def complete_message_def Let_def)
    then show ?thesis using p st True by (auto simp: voice_data_types idle_def parser_ok_def)
  next
    case False
    let ?p1 = "p\<lparr>parser_pending := [st, d1, c], pending_index := 2, expected_size := 3\<rparr>"
    have "parse A d1 g p = (None, ?p1)"
      unfolding parse_idle [OF p d(3) [folded SYS_EX_START_def]]
      using t st abc ch d False r by (auto simp: parse_first_def one_data_def Let_def)
    moreover have "parse A d2 g ?p1 = (Some (midi1_channel_voice_ump A g st d1 d2),
        p\<lparr>parser_pending := [st, d1, d2], pending_index := 0, expected_size := 0, running_status := st\<rparr>)"
      using p d st False by (subst parse_data) (auto simp: idle_def complete_message_def Let_def)
    ultimately show ?thesis using p st False by (auto simp: voice_data_types idle_def parser_ok_def)
  qed
qed

definition keeps_running :: "u8 \<Rightarrow> bool" where
  "keeps_running st \<longleftrightarrow> st = SysCommonTuneRequest \<or> is_system_real_time st"

lemma parse_immediate:
  assumes p: "idle p" and st: "keeps_running st"
  shows "\<exists>p'. parse A st g p = (Some (system_ump A g st 0 0), p') \<and> idle p' \<and> running_status p' = running_status p"
proof -
  obtain a b c where abc: "parser_pending p = [a, b, c]"
    using p pending3 [of "parser_pending p"] by (auto simp: idle_def parser_ok_def)
  have "parse A st g p = (Some (system_ump A g st 0 0), p\<lparr>parser_pending := [st, b, c], pending_index := 0, expected_size := 0\<rparr>)"
    using p st abc
    by (auto simp: parse_idle parse_first_def keeps_running_def is_system_real_time_def type_from_status_byte_def Let_def)
  then show ?thesis using p by (auto simp: idle_def parser_ok_def)
qed

lemma parse_system:
  assumes p: "idle p" and v: "valid_msg (System st d1 d2)"
  shows "\<exists>p'. parse_all A g (st # data_bytes st d1 d2) p = ([system_ump A g st d1 d2], p') \<and>
    idle p' \<and> running_status p' = (if keeps_running st then running_status p else 0)"
proof (cases "keeps_running st")
  case True
  then have "data_bytes st d1 d2 = []" "d1 = 0" "d2 = 0"
    using v by (auto simp: data_bytes_def keeps_running_def is_system_real_time_def type_from_status_byte_def Let_def)
  then show ?thesis using parse_immediate [OF p True, of A g] True by auto
next
  case False
  obtain a b c where abc: "parser_pending p = [a, b, c]"
    using p pending3 [of "parser_pending p"] by (auto simp: idle_def parser_ok_def)
  have d: "d1 < 0x80" "d2 < 0x80" using v by auto
  have st: "st = SysCommonSongPosition \<or> (st = SysCommonTimeCodeQuarterFrame \<or> st = SysCommonSongSelect) \<and> d2 = 0"
    using v False by (auto simp: keeps_running_def)
  let ?n = "if st = SysCommonSongPosition then 3 else 2 :: nat"
  let ?p1 = "p\<lparr>parser_pending := [st, b, c], pending_index := 1, expected_size := ?n\<rparr>"
  have one: "parse A st g p = (None, ?p1)"
    using p st abc by (auto simp: parse_idle parse_first_def type_from_status_byte_def Let_def)
  show ?thesis
  proof (cases "st = SysCommonSongPosition")
    case True
    have "parse A d1 g ?p1 = (None, ?p1\<lparr>parser_pending := [st, d1, c], pending_index := 2\<rparr>)"
      using p d True by (subst parse_data) (auto simp: idle_def Let_def)
    moreover have "parse A d2 g (?p1\<lparr>parser_pending := [st, d1, c], pending_index := 2\<rparr>) = (Some (system_ump A g st d1 d2),
        p\<lparr>parser_pending := [st, d1, d2], pending_index := 0, expected_size := 0, running_status := 0\<rparr>)"
      using p d True by (subst parse_data) (auto simp: idle_def complete_message_def Let_def)
    moreover have "data_bytes st d1 d2 = [d1, d2]" using True by (simp add: data_bytes_def type_from_status_byte_def Let_def)
    ultimately show ?thesis using one p \<open>\<not> keeps_running st\<close> by (auto simp: idle_def parser_ok_def)
  next
    case no: False
    have "parse A d1 g ?p1 = (Some (system_ump A g st d1 d2),
        p\<lparr>parser_pending := [st, d1, c], pending_index := 0, expected_size := 0, running_status := 0\<rparr>)"
      using p d no st by (subst parse_data) (auto simp: idle_def complete_message_def Let_def)
    moreover have "data_bytes st d1 d2 = [d1]" using no st by (auto simp: data_bytes_def type_from_status_byte_def Let_def)
    ultimately show ?thesis using one p no \<open>\<not> keeps_running st\<close> by (auto simp: idle_def parser_ok_def)
  qed
qed

section \<open>System exclusive messages\<close>

lemma chunk_packets_cons: "chunk_packets A g (c # chunks ds) = sysex7_packet A g SysEx7Start c # tail_packets A g (chunks ds)"
  and tail_packets_cons: "tail_packets A g (c # chunks ds) = sysex7_packet A g SysEx7Continue c # tail_packets A g (chunks ds)"
  using chunks_nonempty [of ds] by (cases "chunks ds"; simp)+

lemma parse_sysex_data:
  assumes "parser_ok p" "sysex_active p" "running_status p = 0" "pending_index p = 0" "take (sysex_size p) (sysex_buffer p) = c"
    and "list_all (\<lambda>d. d < 0x80) ds"
  shows "\<exists>p'. parse_all A g (ds @ [SYS_EX_END]) p =
      ((if sysex_multi_packet p then tail_packets A g (chunks (c @ ds)) else chunk_packets A g (chunks (c @ ds))), p') \<and>
    idle p' \<and> running_status p' = 0"
  using assms
proof (induction ds arbitrary: p c)
  case Nil
  have len: "length c \<le> 6" using Nil(1,5) by (auto simp: parser_ok_def)
  have "parse A 0xF7 g p = (Some (sysex7_packet A g (if sysex_multi_packet p then SysEx7End else SysEx7Complete) c),
      p\<lparr>sysex_active := False, sysex_size := 0\<rparr>)"
    using Nil by (simp add: parse.simps [of A _ g p] parse_sysex_byte_def flush_sysex_def)
  then show ?case using Nil len by (auto simp: chunks_short idle_def parser_ok_def)
next
  case (Cons d ds)
  have d: "d < 0x80" "list_all (\<lambda>d. d < 0x80) ds" "d \<noteq> 0xF0" "d \<noteq> 0xF7" "\<not> 0x80 \<le> d" "take_bit 7 d = d"
    using Cons(7) take_bit_7_eq [of d] by auto
  have ok: "length (sysex_buffer p) = 6" "sysex_size p \<le> 6" using Cons(2) by (simp_all add: parser_ok_def)
  show ?case
  proof (cases "sysex_size p = 6")
    case True
    then have c: "length c = 6" using Cons(6) ok by auto
    let ?p' = "store_sysex_byte d (p\<lparr>sysex_size := 0, sysex_multi_packet := True\<rparr>)"
    have step: "parse A d g p = (Some (sysex7_packet A g (if sysex_multi_packet p then SysEx7Continue else SysEx7Start) c), ?p')"
      using Cons(3,6) True d by (simp add: parse.simps [of A d g p] parse_sysex_byte_def flush_sysex_def)
    have buf: "take (sysex_size ?p') (sysex_buffer ?p') = [d]"
      using ok d(6) by (cases "sysex_buffer p") (simp_all add: store_sysex_byte_def)
    have "\<exists>p'. parse_all A g (ds @ [SYS_EX_END]) ?p' =
        ((if sysex_multi_packet ?p' then tail_packets A g (chunks ([d] @ ds)) else chunk_packets A g (chunks ([d] @ ds))), p') \<and>
        idle p' \<and> running_status p' = 0"
      by (rule Cons(1)) (use Cons(2-5) d(2) buf in \<open>simp_all add: parser_ok_def store_sysex_byte_def\<close>)
    moreover have "chunks (c @ d # ds) = c # chunks (d # ds)" using c by (simp add: chunks_long)
    ultimately show ?thesis using step
      by (auto simp: chunk_packets_cons tail_packets_cons store_sysex_byte_def)
  next
    case False
    then have lt: "sysex_size p < 6" using ok by simp
    let ?p' = "store_sysex_byte d p"
    have step: "parse A d g p = (None, ?p')"
      using Cons(3) False d by (simp add: parse.simps [of A d g p] parse_sysex_byte_def)
    have buf: "take (sysex_size ?p') (sysex_buffer ?p') = c @ [d]"
      using ok lt d(6) Cons(6) by (simp add: store_sysex_byte_def take_Suc_conv_app_nth)
    have "\<exists>p'. parse_all A g (ds @ [SYS_EX_END]) ?p' =
        ((if sysex_multi_packet ?p' then tail_packets A g (chunks ((c @ [d]) @ ds)) else chunk_packets A g (chunks ((c @ [d]) @ ds))), p') \<and>
        idle p' \<and> running_status p' = 0"
      by (rule Cons(1)) (use Cons(2-5) d(2) buf lt in \<open>simp_all add: parser_ok_def store_sysex_byte_def\<close>)
    then show ?thesis using step by (auto simp: store_sysex_byte_def)
  qed
qed

lemma parse_sysex:
  assumes p: "idle p" and v: "valid_msg (SysExMsg bs)"
  shows "\<exists>p'. parse_all A g (msg_bytes (SysExMsg bs)) p = (msg_packets A g (SysExMsg bs), p') \<and> idle p' \<and> running_status p' = 0"
proof -
  let ?p = "p\<lparr>pending_index := 0, expected_size := 0, running_status := 0, sysex_size := 0, sysex_active := True,
      sysex_multi_packet := False\<rparr>"
  have "parse A SYS_EX_START g p = (None, ?p)" by (subst parse.simps) simp
  moreover have "\<exists>p'. parse_all A g (bs @ [SYS_EX_END]) ?p =
      ((if sysex_multi_packet ?p then tail_packets A g (chunks ([] @ bs)) else chunk_packets A g (chunks ([] @ bs))), p') \<and>
      idle p' \<and> running_status p' = 0"
    by (rule parse_sysex_data) (use p v in \<open>simp_all add: idle_def parser_ok_def\<close>)
  ultimately show ?thesis by auto
qed

end
