(* ===== verification/Midi_Properties.thy ===== *)
theory Midi_Properties
  imports Midi_Parser
begin

text \<open>
  The properties of the MIDI helpers: 14-bit values, packets to bytes, bytes to packets,
  payloads to packets, and what the parser does with a message that is cut short. The locale
  of the packet accessors is interpreted on the UMP field layout.
\<close>

section \<open>The accessors of the UMP format\<close>

definition ump_layout :: ump_api where
  "ump_layout =
     \<lparr>UMP_MT = \<lambda>p. ucast (drop_bit 28 (data0 p)), UMP_GROUP = \<lambda>p. ucast (take_bit 4 (drop_bit 24 (data0 p))),
      UMP_MIDI_STATUS = \<lambda>p. ucast (take_bit 8 (drop_bit 16 (data0 p))),
      UMP_MIDI_COMMAND = \<lambda>p. ucast (take_bit 4 (drop_bit 20 (data0 p))),
      UMP_MIDI1_P1 = \<lambda>p. ucast (take_bit 7 (drop_bit 8 (data0 p))), UMP_MIDI1_P2 = \<lambda>p. ucast (take_bit 7 (data0 p)),
      UMP_MT_SYS_RT_COMMON = 1, UMP_MT_MIDI1_CHANNEL_VOICE = 2, UMP_MT_DATA_64 = 3\<rparr>"

interpretation ump: ump_macros ump_layout
  by unfold_locales (simp_all add: ump_layout_def)

lemma ump_layout_macros: "ump_macros ump_layout"
  by (rule ump.ump_macros_axioms)

section \<open>Streams of messages\<close>

text \<open>
  A stream is a list of messages, each with a flag that says whether the sender leaves out a
  status byte that repeats the running status.
\<close>

fun next_running :: "u8 \<Rightarrow> midi_msg \<Rightarrow> u8" where
  "next_running rs (Voice st d1 d2) = st"
| "next_running rs (System st d1 d2) = (if keeps_running st then rs else 0)"
| "next_running rs (SysExMsg bs) = 0"

fun item_bytes :: "u8 \<Rightarrow> bool \<times> midi_msg \<Rightarrow> u8 list" where
  "item_bytes rs (omit, Voice st d1 d2) = (if omit \<and> st = rs then data_bytes st d1 d2 else msg_bytes (Voice st d1 d2))"
| "item_bytes rs (omit, m) = msg_bytes m"

fun stream_bytes :: "u8 \<Rightarrow> (bool \<times> midi_msg) list \<Rightarrow> u8 list" where
  "stream_bytes rs [] = []"
| "stream_bytes rs (x # xs) = item_bytes rs x @ stream_bytes (next_running rs (snd x)) xs"

lemma parse_item:
  assumes "idle p" "valid_msg m" "running_status p = rs"
  shows "\<exists>p'. parse_all A g (item_bytes rs (omit, m)) p = (msg_packets A g m, p') \<and> idle p' \<and> running_status p' = next_running rs m"
proof (cases m)
  case (Voice st d1 d2)
  then show ?thesis
    using parse_voice [of p st d1 d2 A g] parse_running [of p st d1 d2 A g] assms by auto
next
  case (System st d1 d2)
  then show ?thesis using parse_system [of p st d1 d2 A g] assms by auto
next
  case (SysExMsg bs)
  then show ?thesis using parse_sysex [of p bs A g] assms by auto
qed

lemma parse_stream:
  assumes "idle p" "list_all (\<lambda>x. valid_msg (snd x)) ms" "running_status p = rs"
  shows "\<exists>p'. parse_all A g (stream_bytes rs ms) p = (concat (map (\<lambda>x. msg_packets A g (snd x)) ms), p') \<and> idle p'"
  using assms
proof (induction ms arbitrary: p rs)
  case (Cons x ms)
  obtain omit m where x: "x = (omit, m)" by (cases x)
  obtain p1 where p1: "parse_all A g (item_bytes rs (omit, m)) p = (msg_packets A g m, p1)" "idle p1"
      "running_status p1 = next_running rs m"
    using parse_item [OF Cons(2) _ Cons(4), of m A g omit] Cons(3) x by auto
  obtain p2 where "parse_all A g (stream_bytes (next_running rs m) ms) p1 = (concat (map (\<lambda>x. msg_packets A g (snd x)) ms), p2)" "idle p2"
    using Cons(1) [OF p1(2) _ p1(3)] Cons(3) by auto
  then show ?case using p1(1) by (simp add: x parse_all_append)
qed simp

lemma stream_bytes_full: "stream_bytes rs (map (\<lambda>m. (False, m)) ms) = concat (map msg_bytes ms)"
proof (induction ms arbitrary: rs)
  case (Cons m ms)
  have "item_bytes rs (False, m) = msg_bytes m" by (cases m) auto
  then show ?case using Cons by simp
qed simp

lemma fst_parse_msgs:
  assumes "list_all valid_msg ms"
  shows "fst (parse_all A g (concat (map msg_bytes ms)) parser_reset) = concat (map (msg_packets A g) ms)"
proof -
  have "list_all (\<lambda>x. valid_msg (snd x)) (map (\<lambda>m. (False, m)) ms)" using assms by (simp add: list_all_iff)
  moreover have "running_status parser_reset = 0" by (simp add: parser_reset_def)
  ultimately obtain p' where "parse_all A g (stream_bytes 0 (map (\<lambda>m. (False, m)) ms)) parser_reset =
      (concat (map (\<lambda>x. msg_packets A g (snd x)) (map (\<lambda>m. (False, m)) ms)), p')"
    using parse_stream [of parser_reset "map (\<lambda>m. (False, m)) ms" 0 A g] by auto
  then show ?thesis by (simp add: stream_bytes_full comp_def)
qed

text \<open>Writing a list of packets, one \<open>write_ump_as_midi1_bytes\<close> after the other.\<close>

fun write_packets :: "ump_api \<Rightarrow> u8 \<Rightarrow> (u8, 'w) writer \<Rightarrow> midi_ump list \<Rightarrow> 'w \<Rightarrow> bool \<times> 'w" where
  "write_packets A g W [] w = (True, w)"
| "write_packets A g W (p # ps) w = and_then (write_ump_as_midi1_bytes A p g W w) (write_packets A g W ps)"

lemma write_packets_nil: "write_packets A g W [] = (\<lambda>w. (True, w))"
  by (rule ext) simp

lemma write_packets_append:
  "write_packets A g W (ps @ qs) = (\<lambda>w. and_then (write_packets A g W ps w) (write_packets A g W qs))"
proof
  show "write_packets A g W (ps @ qs) w = and_then (write_packets A g W ps w) (write_packets A g W qs)" for w
    by (induction ps arbitrary: w) (simp_all add: and_then_def split: prod.splits)
qed

context ump_macros
begin

lemma mt_distinct: "UMP_MT_SYS_RT_COMMON A \<noteq> UMP_MT_MIDI1_CHANNEL_VOICE A" "UMP_MT_DATA_64 A \<noteq> UMP_MT_MIDI1_CHANNEL_VOICE A"
  "UMP_MT_DATA_64 A \<noteq> UMP_MT_SYS_RT_COMMON A"
  by (simp_all add: mt_system mt_voice mt_data)

lemma data_eq: "d < 0x80 \<Longrightarrow> take_bit 7 (d :: u8) = d"
  by (simp add: take_bit_7_eq)

lemma voice_bytes:
  "valid_msg (Voice st d1 d2) \<Longrightarrow> ump_bytes A (midi1_channel_voice_ump A g st d1 d2) = Some (msg_bytes (Voice st d1 d2))"
  by (simp add: ump_bytes_def voice_fields data_eq voice_data_types)

lemma system_bytes:
  "valid_msg (System st d1 d2) \<Longrightarrow> ump_bytes A (system_ump A g st d1 d2) = Some (msg_bytes (System st d1 d2))"
  by (auto simp: ump_bytes_def system_fields mt_distinct data_eq data_bytes_def type_from_status_byte_def
      is_system_real_time_def Let_def)

lemma sysex_read:
  assumes "length c \<le> 6" "list_all (\<lambda>d. d < 0x80) c" "st \<le> 3"
  shows "is_sysex7_packet A (sysex7_packet A g st c)" "sysex7_status (sysex7_packet A g st c) = st"
    "unat (sysex7_payload_size (sysex7_packet A g st c)) = length c"
    "map (read_sysex7_payload_byte (sysex7_packet A g st c)) [0 ..< length c] = c"
proof -
  note f = sysex_fields [OF assms(1), where g = g and st = st]
  have "st < 2 ^ 4" using assms(3) by (simp add: order_le_less_trans)
  then show st: "sysex7_status (sysex7_packet A g st c) = st" using f(3) take_bit_u8_eq [of 4 st] by simp
  have n: "unat (of_nat (length c) :: u8) = length c" using assms(1) by (simp add: unat_of_nat take_bit_nat_eq_self)
  then show "unat (sysex7_payload_size (sysex7_packet A g st c)) = length c" using f(4) by simp
  show "map (read_sysex7_payload_byte (sysex7_packet A g st c)) [0 ..< length c] = c"
    using f(5) assms(2) by (intro nth_equalityI) (auto simp: data_eq list_all_length)
  show "is_sysex7_packet A (sysex7_packet A g st c)"
    using f(1,4) st assms by (simp add: is_sysex7_packet_def word_le_nat_alt n)
qed

lemma sysex_bytes:
  assumes "length c \<le> 6" "list_all (\<lambda>d. d < 0x80) c" "st \<le> 3"
  shows "ump_bytes A (sysex7_packet A g st c) =
    Some ((if sysex7_starts_message st then [SYS_EX_START] else []) @ c @ (if sysex7_ends_message st then [SYS_EX_END] else []))"
  using sysex_read [OF assms, of g] sysex_fields(1) [OF assms(1), of g st] mt_distinct by (simp add: ump_bytes_def)

lemma write_one:
  assumes "g < 16" "UMP_GROUP A p = take_bit 4 g" "ump_bytes A p = Some bs"
  shows "write_packets A g W (p # ps) w = and_then (write_all W bs w) (write_packets A g W ps)"
proof -
  have "take_bit 4 g = g" using assms(1) take_bit_u8_eq [of 4 g] by simp
  then show ?thesis using write_ump_eq_write_all [of A p g W w] assms(2,3) by simp
qed

lemma write_sysex_packet:
  assumes "g < 16" "length c \<le> 6 \<and> list_all (\<lambda>d. d < 0x80) c" "st \<le> 3"
  shows "write_packets A g W (sysex7_packet A g st c # ps) w = and_then (write_all W
    ((if sysex7_starts_message st then [SYS_EX_START] else []) @ c @ (if sysex7_ends_message st then [SYS_EX_END] else [])) w)
    (write_packets A g W ps)"
  using assms by (intro write_one) (simp_all add: sysex_fields(2) sysex_bytes)

lemma write_tail:
  assumes "g < 16" "\<forall>c \<in> set cs. length c \<le> 6 \<and> list_all (\<lambda>d. d < 0x80) c" "cs \<noteq> []"
  shows "write_packets A g W (tail_packets A g cs) w = write_all W (concat cs @ [SYS_EX_END]) w"
  using assms(2,3)
proof (induction cs arbitrary: w)
  case (Cons c cs)
  show ?case
  proof (cases cs)
    case Nil
    then show ?thesis using Cons(2) write_sysex_packet [OF assms(1), of c 3 W "[]" w]
      by (simp add: sysex7_starts_message_def sysex7_ends_message_def and_then_True_right write_packets_nil and_then_assoc)
  next
    case (Cons d ds)
    have "write_packets A g W (tail_packets A g (c # cs)) w =
        and_then (write_all W c w) (write_packets A g W (tail_packets A g cs))"
      using Cons Cons.prems write_sysex_packet [OF assms(1), of c 2 W "tail_packets A g cs" w]
      by (simp add: sysex7_starts_message_def sysex7_ends_message_def)
    also have "write_packets A g W (tail_packets A g cs) = write_all W (concat cs @ [SYS_EX_END])"
      using Cons.IH Cons.prems Cons by (intro ext) simp
    finally show ?thesis by (simp add: write_all_append and_then_assoc)
  qed
qed simp

lemma write_chunks:
  assumes "g < 16" "\<forall>c \<in> set cs. length c \<le> 6 \<and> list_all (\<lambda>d. d < 0x80) c" "cs \<noteq> []"
  shows "write_packets A g W (chunk_packets A g cs) w = write_all W (SYS_EX_START # concat cs @ [SYS_EX_END]) w"
proof (cases cs)
  case (Cons c ds)
  show ?thesis
  proof (cases ds)
    case Nil
    then show ?thesis using Cons assms write_sysex_packet [OF assms(1), of c 0 W "[]" w]
      by (simp add: sysex7_starts_message_def sysex7_ends_message_def and_then_True_right write_packets_nil and_then_assoc)
  next
    case (Cons d es)
    have "write_packets A g W (chunk_packets A g cs) w =
        and_then (write_all W (SYS_EX_START # c) w) (write_packets A g W (tail_packets A g ds))"
      using Cons \<open>cs = c # ds\<close> assms write_sysex_packet [OF assms(1), of c 1 W "tail_packets A g ds" w]
      by (simp add: sysex7_starts_message_def sysex7_ends_message_def)
    also have "write_packets A g W (tail_packets A g ds) = write_all W (concat ds @ [SYS_EX_END])"
      using assms(2) Cons \<open>cs = c # ds\<close> by (intro ext write_tail [OF assms(1)]) simp_all
    finally show ?thesis using \<open>cs = c # ds\<close> by (simp add: write_all_append and_then_assoc)
  qed
qed (use assms(3) in simp)

lemma write_msg:
  assumes "g < 16" "valid_msg m"
  shows "write_packets A g W (msg_packets A g m) w = write_all W (msg_bytes m) w"
proof (cases m)
  case (Voice st d1 d2)
  then show ?thesis using assms voice_bytes [of st d1 d2 g]
      write_one [OF assms(1) voice_fields(2) voice_bytes, of st d1 d2 W "[]" w]
    by (simp add: and_then_True_right write_packets_nil and_then_assoc)
next
  case (System st d1 d2)
  then show ?thesis using assms write_one [OF assms(1) system_fields(2) system_bytes, of st d1 d2 W "[]" w]
    by (simp add: and_then_True_right write_packets_nil and_then_assoc)
next
  case (SysExMsg bs)
  have "\<forall>c \<in> set (chunks bs). length c \<le> 6 \<and> list_all (\<lambda>d. d < 0x80) c"
  proof
    fix c assume c: "c \<in> set (chunks bs)"
    have "set c \<subseteq> set bs" using c concat_chunks [of bs] by (metis UN_upper set_concat)
    then show "length c \<le> 6 \<and> list_all (\<lambda>d. d < 0x80) c"
      using chunks_length [OF c] assms(2) SysExMsg by (auto simp: list_all_iff)
  qed
  then show ?thesis using write_chunks [OF assms(1) _ chunks_nonempty] SysExMsg by (simp add: concat_chunks)
qed

lemma write_msgs:
  assumes "g < 16" "list_all valid_msg ms"
  shows "write_packets A g W (concat (map (msg_packets A g) ms)) w = write_all W (concat (map msg_bytes ms)) w"
  using assms(2)
proof (induction ms arbitrary: w)
  case (Cons m ms)
  have "write_packets A g W (concat (map (msg_packets A g) ms)) = write_all W (concat (map msg_bytes ms))"
    using Cons by (intro ext) simp
  moreover have "write_packets A g W (msg_packets A g m) w = write_all W (msg_bytes m) w"
    using Cons.prems by (intro write_msg [OF assms(1)]) simp
  ultimately show ?case by (simp add: write_packets_append write_all_append)
qed simp

end

section \<open>Properties\<close>

text \<open>Splitting a 14-bit value and merging the two 7-bit bytes gives the value back, and merging
  two bytes and splitting again gives their low seven bits.\<close>
theorem split_merge_roundtrip:
  "(case split14 v of (h, l) \<Rightarrow> h < 0x80 \<and> l < 0x80 \<and> merge14 h l = take_bit 14 v) \<and>
   split14 (merge14 h l) = (take_bit 7 h, take_bit 7 l)"
proof -
  have small: "ucast (take_bit 7 x) < (0x80 :: u8)" for x :: u16
  proof -
    have "take_bit 7 (ucast (take_bit 7 x) :: u8) = ucast (take_bit 7 x)" by (rule bit_word_eqI) (auto simp: bit_simps)
    then show ?thesis by (simp add: take_bit_7_eq)
  qed
  have "merge14 (ucast (take_bit 7 (drop_bit 7 v))) (ucast (take_bit 7 v)) = take_bit 14 v"
    using merge_split [of v] by (simp add: split14_bits)
  moreover have "split14 (merge14 h l) = (take_bit 7 h, take_bit 7 l)"
    unfolding merge14_bits split14_bits by (auto intro!: bit_word_eqI simp: bit_simps dest: bit_imp_le_length)
  ultimately show ?thesis by (simp add: split14_bits small)
qed

text \<open>C7. The packets of any sequence of valid messages are written as the bytes of those messages,
  and the stream parser turns these bytes back into exactly the same packets.\<close>
theorem midi_packets_bytes_packets:
  assumes "ump_macros A" "g < 16" "list_all valid_msg ms"
  shows "write_packets A g W (concat (map (msg_packets A g) ms)) w = write_all W (concat (map msg_bytes ms)) w \<and>
    fst (parse_all A g (concat (map msg_bytes ms)) parser_reset) = concat (map (msg_packets A g) ms)"
  using ump_macros.write_msgs [OF assms] fst_parse_msgs [OF assms(3)] by simp

definition example_msgs :: "midi_msg list" where
  "example_msgs = [Voice 0x93 60 100, Voice 0x93 60 0, System 0xF8 0 0, SysExMsg [1, 2, 3, 4, 5, 6, 7], Voice 0xC1 5 0]"

definition append_writer :: "('a, 'a list) writer" where
  "append_writer x w = (True, w @ [x])"

lemma write_all_append_writer: "write_all append_writer xs w = (True, w @ xs)"
  by (induction xs arbitrary: w) (simp_all add: append_writer_def)

lemma example_msgs_valid: "list_all valid_msg example_msgs"
  by (simp add: example_msgs_def one_data_def type_from_status_byte_def is_system_real_time_def model_defs)

lemma example_msgs_bytes:
  "concat (map msg_bytes example_msgs) =
     [0x93, 60, 100, 0x93, 60, 0, 0xF8, 0xF0, 1, 2, 3, 4, 5, 6, 7, 0xF7, 0xC1, 5]"
  by (simp add: example_msgs_def data_bytes_def one_data_def type_from_status_byte_def model_defs Let_def)

theorem midi_packets_bytes_packets_witness:
  "write_packets ump_layout 3 append_writer (concat (map (msg_packets ump_layout 3) example_msgs)) [] =
     (True, [0x93, 60, 100, 0x93, 60, 0, 0xF8, 0xF0, 1, 2, 3, 4, 5, 6, 7, 0xF7, 0xC1, 5])"
proof -
  have "(3 :: u8) < 16" by simp
  from conjunct1 [OF midi_packets_bytes_packets [OF ump_layout_macros this example_msgs_valid, of append_writer "[]"]]
  show ?thesis unfolding example_msgs_bytes write_all_append_writer by simp
qed

text \<open>From an idle parser any stream of valid messages, with or without the status bytes that
  repeat the running status, is parsed into the packets of its messages.\<close>
theorem midi_running_status_parsed:
  assumes "list_all (\<lambda>x. valid_msg (snd x)) ms"
  shows "fst (parse_all A g (stream_bytes 0 ms) parser_reset) = concat (map (\<lambda>x. msg_packets A g (snd x)) ms)"
proof -
  have "running_status parser_reset = 0" by (simp add: parser_reset_def)
  then show ?thesis using parse_stream [OF idle_reset assms, of 0 A g] by auto
qed

theorem midi_running_status_parsed_witness:
  "fst (parse_all ump_layout 0 [0x90, 60, 100, 0xF8, 60, 0] parser_reset) =
     [midi1_channel_voice_ump ump_layout 0 0x90 60 100, system_ump ump_layout 0 0xF8 0 0,
      midi1_channel_voice_ump ump_layout 0 0x90 60 0]"
  using midi_running_status_parsed [of "[(False, Voice 0x90 60 100), (False, System 0xF8 0 0), (True, Voice 0x90 60 0)]" ump_layout 0]
  by (simp add: one_data_def type_from_status_byte_def is_system_real_time_def keeps_running_def data_bytes_def model_defs Let_def)

text \<open>C31. A non-empty SysEx payload is handed to the packet writer as the Start, Continue and End
  packets of its six-byte chunks, or one Complete packet, and the loop ends; for an empty
  payload and a writer that never fails it does not end.\<close>
theorem sysex_payload_packets:
  "(payload \<noteq> [] \<and> length payload \<le> fuel \<longrightarrow>
      write_sysex7_payload_as_ump_packets fuel A g payload W w = Some (write_all W (msg_packets A g (SysExMsg payload)) w)) \<and>
   ((\<forall>p w. fst (W p w)) \<longrightarrow> write_sysex7_payload_as_ump_packets fuel A g [] W w = None)"
  using packets_loop_chunks [of 0 payload fuel "chunks payload" A g W w] packets_loop_empty [of W fuel A g 0 w]
  by (auto simp: write_sysex7_payload_as_ump_packets_def)

theorem sysex_payload_packets_witness:
  "write_sysex7_payload_as_ump_packets 7 ump_layout 0 [1, 2, 3, 4, 5, 6, 7] append_writer [] =
     Some (True, [sysex7_packet ump_layout 0 SysEx7Start [1, 2, 3, 4, 5, 6], sysex7_packet ump_layout 0 SysEx7End [7]])"
  using conjunct1 [OF sysex_payload_packets [of "[1, 2, 3, 4, 5, 6, 7]" 7 ump_layout 0 append_writer "[]"]]
  unfolding write_all_append_writer by (simp add: chunks_long chunks_short)

lemma parse_first_ok:
  assumes "parser_ok p" "pending_index p = 0"
  shows "parser_ok (snd (parse_first A d g p))"
proof -
  obtain a b c where abc: "parser_pending p = [a, b, c]"
    using assms pending3 [of "parser_pending p"] by (auto simp: parser_ok_def)
  define run where "run \<longleftrightarrow> d < MIDI_STATUS_MIN \<and> is_channel_message (type_from_status_byte (running_status p))"
  define st where "st = (if run then running_status p else d)"
  let ?p = "p\<lparr>parser_pending := (if run then [st, d, c] else [st, b, c]), pending_index := (if run then 2 else 1)\<rparr>"
  have ge: "type_from_status_byte st \<noteq> 0 \<Longrightarrow> 0x80 \<le> st" by (rule type_status_ge)
  have "parse_first A d g p =
      (let p = ?p; type = type_from_status_byte st
       in if type \<in> {SysRealTimeStart, SysRealTimeContinue, SysRealTimeStop, SysRealTimeClock, SysRealTimeActiveSensing,
              SysRealTimeSystemReset, SysCommonTuneRequest}
         then (Some (system_ump A g type 0 0), p\<lparr>pending_index := 0, expected_size := 0\<rparr>)
         else if type \<in> {ProgramChange, AfterTouchChannel, SysCommonTimeCodeQuarterFrame, SysCommonSongSelect,
              NoteOn, NoteOff, ControlChange, PitchBend, AfterTouchPoly, SysCommonSongPosition}
         then let p = p\<lparr>expected_size :=
                (if type \<in> {ProgramChange, AfterTouchChannel, SysCommonTimeCodeQuarterFrame, SysCommonSongSelect} then 2 else 3)\<rparr>
              in if pending_index p \<ge> expected_size p
                 then (case complete_message A g p of (packet, p) \<Rightarrow> (Some packet, p))
                 else (None, p)
         else (None, parser_reset))"
    by (simp add: parse_first_def abc run_def st_def)
  then show ?thesis
    using assms ge by (auto simp: parser_ok_def parser_reset_def complete_message_def Let_def split: prod.splits)
qed

lemma parse_sysex_byte_ok:
  "parser_ok p \<Longrightarrow> parser_ok (snd again) \<Longrightarrow> parser_ok (snd (parse_sysex_byte A d g again p))"
  by (auto simp: parse_sysex_byte_def parser_ok_def flush_sysex_def store_sysex_byte_def Let_def)

lemma parse_ok: "parser_ok p \<Longrightarrow> parser_ok (snd (parse A d g p))"
proof (induction A d g p rule: parse.induct)
  case (1 A d g p)
  show ?case
  proof (cases "d = SYS_EX_START \<or> sysex_active p \<or> pending_index p = 0 \<or> d \<ge> MIDI_STATUS_MIN")
    case True
    then show ?thesis using 1 parse_first_ok [of p A d g] parse_sysex_byte_ok [of p "parse A d g parser_reset" A d g]
      by (auto simp: parse.simps [of A d g p] parser_ok_def [of "p\<lparr>pending_index := 0, expected_size := 0,
        running_status := 0, sysex_size := 0, sysex_active := True, sysex_multi_packet := False\<rparr>"] parser_ok_def [of p])
  next
    case False
    then show ?thesis using 1(3)
      by (auto simp: parse.simps [of A d g p] parser_ok_def complete_message_def Let_def split: prod.splits)
  qed
qed

lemma parse_all_ok: "parser_ok p \<Longrightarrow> parser_ok (snd (parse_all A g ds p))"
proof (induction ds arbitrary: p)
  case (Cons d ds)
  then show ?case using parse_ok [of p A d g] by (auto split: prod.splits) (metis snd_conv)
qed simp

text \<open>Whatever bytes arrive, the parser keeps its invariant: the arrays keep their length, the
  next index of the pending message and of the SysEx buffer stays inside them (a full SysEx
  buffer is flushed before the next byte), a pending message starts with a status byte and
  is shorter than its length, and the running status is a channel status or none.\<close>
theorem parser_stays_in_range:
  "let p = snd (parse_all A g ds parser_reset) in
     parser_ok p \<and> pending_index p < length (parser_pending p) \<and> sysex_size p \<le> length (sysex_buffer p)"
  using parse_all_ok [OF parser_reset_ok, of A g ds] by (auto simp: parser_ok_def Let_def)



text \<open>A reader over the bytes that are available now.\<close>

fun list_reader :: "u8 list \<Rightarrow> (u8 option \<times> u8 list) option" where
  "list_reader [] = Some (None, [])"
| "list_reader (d # ds) = Some (Some d, ds)"

text \<open>Reading a packet from a reader with finitely many bytes returns: with the first packet the
  parser makes of them and the bytes after it, or with none when they are used up without one.\<close>
theorem read_midi1_bytes_returns:
  "\<exists>out p' rest. read_midi1_bytes_as_ump A g list_reader p ds = Some (out, p', rest) \<and>
     (case out of
        None \<Rightarrow> parse_all A g ds p = ([], p') \<and> rest = []
      | Some x \<Rightarrow> \<exists>used. ds = used @ rest \<and> parse_all A g used p = ([x], p'))"
proof (induction ds arbitrary: p)
  case Nil
  then show ?case by (simp add: read_midi1_bytes_as_ump.simps)
next
  case (Cons d ds)
  obtain out1 p1 where p1: "parse A d g p = (out1, p1)" by (cases "parse A d g p")
  show ?case
  proof (cases out1)
    case None
    obtain out p' rest where r: "read_midi1_bytes_as_ump A g list_reader p1 ds = Some (out, p', rest)"
        "case out of None \<Rightarrow> parse_all A g ds p1 = ([], p') \<and> rest = []
         | Some x \<Rightarrow> \<exists>used. ds = used @ rest \<and> parse_all A g used p1 = ([x], p')"
      using Cons [of p1] by blast
    then have "read_midi1_bytes_as_ump A g list_reader p (d # ds) = Some (out, p', rest)"
      using p1 None by (subst read_midi1_bytes_as_ump.simps) simp
    moreover have "case out of None \<Rightarrow> parse_all A g (d # ds) p = ([], p') \<and> rest = []
         | Some x \<Rightarrow> \<exists>used. d # ds = used @ rest \<and> parse_all A g used p = ([x], p')"
    proof (cases out)
      case (Some x)
      then obtain used where "ds = used @ rest" "parse_all A g used p1 = ([x], p')" using r(2) by auto
      then show ?thesis using Some p1 None by (auto intro!: exI [of _ "d # used"])
    qed (use r(2) p1 None in simp)
    ultimately show ?thesis by blast
  next
    case (Some x)
    then have "read_midi1_bytes_as_ump A g list_reader p (d # ds) = Some (Some x, p1, ds)"
      using p1 by (subst read_midi1_bytes_as_ump.simps) simp
    moreover have "\<exists>used. d # ds = used @ ds \<and> parse_all A g used p = ([x], p1)"
      using p1 Some by (intro exI [of _ "[d]"]) simp
    ultimately show ?thesis by (intro exI [of _ "Some x"] exI [of _ p1] exI [of _ ds]) simp
  qed
qed

end
