(* ===== verification/Midi_Transport.thy ===== *)
theory Midi_Transport
  imports Midi_Common
begin

text \<open>
  The MIDI transports (\<open>midi/transport/\<close>): the interface \<open>Transport\<close> of \<open>midi::Base\<close> and its
  implementations over a byte stream (serial), BLE-MIDI packets, UMP packets (USB), and the one
  that does nothing (null). A hardware adapter is a record of functions over the state \<open>'w\<close> of the
  hardware. The classes hold a reference to their owner only to reach the adapter, which is an
  argument here.
\<close>

section \<open>The interface\<close>

text \<open>A transport with state \<open>'s\<close>. A read may wait for ever, which is \<open>None\<close>.\<close>

record 's transport =
  tr_supported :: "'s \<Rightarrow> bool \<times> 's"
  tr_init :: "'s \<Rightarrow> bool \<times> 's"
  tr_deinit :: "'s \<Rightarrow> bool \<times> 's"
  tr_write :: "midi_ump \<Rightarrow> 's \<Rightarrow> bool \<times> 's"
  tr_read :: "'s \<Rightarrow> (midi_ump option \<times> 's) option"

text \<open>A call of the adapter from a transport with members of its own.\<close>

definition on_hwa :: "('w \<Rightarrow> 'r \<times> 'w) \<Rightarrow> 'm \<times> 'w \<Rightarrow> 'r \<times> 'm \<times> 'w" where
  "on_hwa f s = (case s of (t, w) \<Rightarrow> (case f w of (r, w) \<Rightarrow> (r, t, w)))"

section \<open>Null\<close>

definition null_transport :: "'s transport" where
  "null_transport = \<lparr>tr_supported = \<lambda>s. (False, s), tr_init = \<lambda>s. (True, s), tr_deinit = \<lambda>s. (True, s),
     tr_write = \<lambda>packet s. (False, s), tr_read = \<lambda>s. Some (None, s)\<rparr>"

section \<open>USB\<close>

record 'w usb_hwa =
  uh_supported :: "'w \<Rightarrow> bool \<times> 'w"
  uh_init :: "'w \<Rightarrow> bool \<times> 'w"
  uh_deinit :: "'w \<Rightarrow> bool \<times> 'w"
  uh_write :: "midi_ump \<Rightarrow> 'w \<Rightarrow> bool \<times> 'w"
  uh_read :: "'w \<Rightarrow> midi_ump option \<times> 'w"

definition usb_transport :: "'w usb_hwa \<Rightarrow> 'w transport" where
  "usb_transport H = \<lparr>tr_supported = uh_supported H, tr_init = uh_init H, tr_deinit = uh_deinit H,
     tr_write = uh_write H, tr_read = (\<lambda>w. Some (uh_read H w))\<rparr>"

section \<open>Serial\<close>

record 'w serial_hwa =
  sh_supported :: "'w \<Rightarrow> bool \<times> 'w"
  sh_init :: "'w \<Rightarrow> bool \<times> 'w"
  sh_deinit :: "'w \<Rightarrow> bool \<times> 'w"
  sh_write :: "u8 \<Rightarrow> 'w \<Rightarrow> bool \<times> 'w"
  sh_read :: "'w \<Rightarrow> u8 option \<times> 'w"

text \<open>The only member is the parser; \<open>init\<close> does not reset it.\<close>

definition serial_write :: "ump_api \<Rightarrow> 'w serial_hwa \<Rightarrow> midi_ump \<Rightarrow> midi1_parser \<times> 'w \<Rightarrow> bool \<times> midi1_parser \<times> 'w" where
  "serial_write A H packet s = on_hwa (write_ump_as_midi1_bytes A packet (UMP_GROUP A packet) (sh_write H)) s"

definition serial_read :: "ump_api \<Rightarrow> 'w serial_hwa \<Rightarrow> midi1_parser \<times> 'w \<Rightarrow> (midi_ump option \<times> midi1_parser \<times> 'w) option" where
  "serial_read A H s = (case s of (p, w) \<Rightarrow>
     read_midi1_bytes_as_ump A DEFAULT_RX_GROUP (\<lambda>w. Some (sh_read H w)) p w)"

definition serial_transport :: "ump_api \<Rightarrow> 'w serial_hwa \<Rightarrow> (midi1_parser \<times> 'w) transport" where
  "serial_transport A H = \<lparr>tr_supported = on_hwa (sh_supported H), tr_init = on_hwa (sh_init H),
     tr_deinit = on_hwa (sh_deinit H), tr_write = serial_write A H, tr_read = serial_read A H\<rparr>"

section \<open>BLE\<close>

text \<open>
  A BLE-MIDI packet is an array of \<open>CONFIG_ZLIBS_UTILS_MIDI_BLE_MAX_PACKET_SIZE\<close> bytes, the
  parameter \<open>N\<close> below, and the number of bytes in use. The two bytes of \<open>start_packet\<close> have to
  fit into the array.
\<close>

record ble_packet =
  pk_data :: "u8 list"
  pk_size :: nat

definition ble_packet_new :: "nat \<Rightarrow> ble_packet" where
  "ble_packet_new N = \<lparr>pk_data = replicate N 0, pk_size = 0\<rparr>"

text \<open>\<open>write\<close> takes the packet by reference and may change it. \<open>bh_uptime\<close> is \<open>k_uptime_get\<close>, in milliseconds.\<close>

record 'w ble_hwa =
  bh_supported :: "'w \<Rightarrow> bool \<times> 'w"
  bh_init :: "'w \<Rightarrow> bool \<times> 'w"
  bh_deinit :: "'w \<Rightarrow> bool \<times> 'w"
  bh_write :: "ble_packet \<Rightarrow> 'w \<Rightarrow> bool \<times> ble_packet \<times> 'w"
  bh_read :: "'w \<Rightarrow> ble_packet option \<times> 'w"
  bh_uptime :: "'w \<Rightarrow> 64 word"

record ble_members =
  tx_buffer :: ble_packet
  rx_packet :: ble_packet
  rx_packet_index :: nat
  rx_packet_active :: bool
  rx_search_timestamp :: bool
  rx_sysex_active :: bool
  ble_parser :: midi1_parser

definition ble_new :: "nat \<Rightarrow> ble_members" where
  "ble_new N = \<lparr>tx_buffer = ble_packet_new N, rx_packet = ble_packet_new N, rx_packet_index = 0, rx_packet_active = False,
     rx_search_timestamp = True, rx_sysex_active = False, ble_parser = parser_reset\<rparr>"

definition BLE_TIMESTAMP_MASK :: "64 word" where [simp]: "BLE_TIMESTAMP_MASK = 0x1FFF"
definition BLE_TIMESTAMP_HIGH_SHIFT :: nat where [simp]: "BLE_TIMESTAMP_HIGH_SHIFT = 7"
definition BLE_DATA_MASK :: "64 word" where [simp]: "BLE_DATA_MASK = 0x7F"

definition ble_init :: "'w ble_hwa \<Rightarrow> ble_members \<times> 'w \<Rightarrow> bool \<times> ble_members \<times> 'w" where
  "ble_init H s = (case s of (t, w) \<Rightarrow>
     on_hwa (bh_init H) (t\<lparr>ble_parser := parser_reset, rx_packet_active := False, rx_packet_index := 0,
       rx_search_timestamp := True, rx_sysex_active := False\<rparr>, w))"

subsection \<open>Writing\<close>

definition pk_put :: "u8 \<Rightarrow> ble_packet \<Rightarrow> ble_packet" where
  "pk_put d p = p\<lparr>pk_data := (pk_data p)[pk_size p := d], pk_size := pk_size p + 1\<rparr>"

definition ble_start_packet :: "'w ble_hwa \<Rightarrow> ble_members \<times> 'w \<Rightarrow> ble_members \<times> 'w" where
  "ble_start_packet H s = (case s of (t, w) \<Rightarrow>
     let time = bh_uptime H w AND BLE_TIMESTAMP_MASK;
         p = (tx_buffer t)\<lparr>pk_size := 0\<rparr>;
         p = pk_put (ucast (drop_bit BLE_TIMESTAMP_HIGH_SHIFT time) OR MIDI_STATUS_MIN) p;
         p = pk_put (ucast (time AND BLE_DATA_MASK) OR MIDI_STATUS_MIN) p
     in (t\<lparr>tx_buffer := p\<rparr>, w))"

definition ble_flush_packet :: "'w ble_hwa \<Rightarrow> ble_members \<times> 'w \<Rightarrow> bool \<times> ble_members \<times> 'w" where
  "ble_flush_packet H s = (case s of (t, w) \<Rightarrow>
     if pk_size (tx_buffer t) \<le> 2 then (True, t, w)
     else case bh_write H (tx_buffer t) w of (ok, p, w) \<Rightarrow> (ok, t\<lparr>tx_buffer := p\<rparr>, w))"

definition ble_write_midi_byte :: "nat \<Rightarrow> 'w ble_hwa \<Rightarrow> (u8, ble_members \<times> 'w) writer" where
  "ble_write_midi_byte N H d s =
     and_then (if pk_size (tx_buffer (fst s)) \<ge> N
               then and_then (ble_flush_packet H s) (\<lambda>s. (True, ble_start_packet H s))
               else (True, s))
       (\<lambda>(t, w). (True, t\<lparr>tx_buffer := pk_put d (tx_buffer t)\<rparr>, w))"

definition ble_write :: "nat \<Rightarrow> ump_api \<Rightarrow> 'w ble_hwa \<Rightarrow> midi_ump \<Rightarrow> ble_members \<times> 'w \<Rightarrow> bool \<times> ble_members \<times> 'w" where
  "ble_write N A H packet s =
     and_then (write_ump_as_midi1_bytes A packet (UMP_GROUP A packet) (ble_write_midi_byte N H) (ble_start_packet H s))
       (ble_flush_packet H)"

subsection \<open>Reading\<close>

text \<open>
  The inner loop of \<open>read_midi_byte\<close>: the next byte of the received packet that is not a
  timestamp, or \<open>None\<close> when the loop ends without one.
\<close>

function ble_scan :: "ble_members \<Rightarrow> u8 option \<times> ble_members" where
  "ble_scan t =
     (if rx_packet_index t < pk_size (rx_packet t)
      then let index = rx_packet_index t;
               d = pk_data (rx_packet t) ! index;
               t = t\<lparr>rx_packet_index := index + 1\<rparr>
           in if rx_search_timestamp t
              then if d AND MIDI_STATUS_MIN = 0
                   then if index = 1 then (Some d, t\<lparr>rx_search_timestamp := False\<rparr>) else (None, t)
                   else ble_scan (t\<lparr>rx_search_timestamp := False\<rparr>)
              else let t = (if d = SYS_EX_START then t\<lparr>rx_sysex_active := True\<rparr>
                            else if d = SYS_EX_END then t\<lparr>rx_sysex_active := False\<rparr> else t);
                       t = (if \<not> rx_sysex_active t \<and> index < pk_size (rx_packet t) - 1 \<and>
                               pk_data (rx_packet t) ! (index + 1) AND MIDI_STATUS_MIN \<noteq> 0
                            then t\<lparr>rx_search_timestamp := True\<rparr> else t)
                   in (Some d, t)
      else (None, t))"
  by pat_completeness auto

termination
  by (relation "measure (\<lambda>t. pk_size (rx_packet t) - rx_packet_index t)") auto

declare ble_scan.simps [simp del]

text \<open>The start of the outer loop: a packet is at hand, or the adapter has none.\<close>

definition ble_receive :: "'w ble_hwa \<Rightarrow> ble_members \<Rightarrow> 'w \<Rightarrow> bool \<times> ble_members \<times> 'w" where
  "ble_receive H t w =
     (if rx_packet_active t then (True, t, w)
      else case bh_read H w of
             (None, w) \<Rightarrow> (False, t, w)
           | (Some p, w) \<Rightarrow> (True, t\<lparr>rx_packet := p, rx_packet_index := 1, rx_packet_active := True,
               rx_search_timestamp := True\<rparr>, w))"

text \<open>The outer loop; it does not end while the adapter has packets and none of them holds a byte.\<close>

partial_function (option) ble_read_midi_byte ::
    "nat \<Rightarrow> 'w ble_hwa \<Rightarrow> ble_members \<Rightarrow> 'w \<Rightarrow> (u8 option \<times> ble_members \<times> 'w) option" where
  "ble_read_midi_byte N H t w =
     (case ble_receive H t w of (available, t, w) \<Rightarrow>
        if \<not> available then Some (None, t, w)
        else if pk_size (rx_packet t) > N then ble_read_midi_byte N H (t\<lparr>rx_packet_active := False\<rparr>) w
        else case ble_scan t of
               (Some d, t) \<Rightarrow> Some (Some d, t, w)
             | (None, t) \<Rightarrow> ble_read_midi_byte N H (t\<lparr>rx_packet_active := False\<rparr>) w)"

text \<open>\<open>read\<close> hands the parser of the members to the byte loop and stores it back.\<close>

definition ble_read :: "nat \<Rightarrow> ump_api \<Rightarrow> 'w ble_hwa \<Rightarrow> ble_members \<times> 'w \<Rightarrow> (midi_ump option \<times> ble_members \<times> 'w) option" where
  "ble_read N A H s = (case s of (t, w) \<Rightarrow>
     map_option (\<lambda>(out, p, t, w). (out, t\<lparr>ble_parser := p\<rparr>, w))
       (read_midi1_bytes_as_ump A DEFAULT_RX_GROUP (\<lambda>(t, w). ble_read_midi_byte N H t w) (ble_parser t) (t, w)))"

definition ble_transport :: "nat \<Rightarrow> ump_api \<Rightarrow> 'w ble_hwa \<Rightarrow> (ble_members \<times> 'w) transport" where
  "ble_transport N A H = \<lparr>tr_supported = on_hwa (bh_supported H), tr_init = ble_init H,
     tr_deinit = on_hwa (bh_deinit H), tr_write = ble_write N A H, tr_read = ble_read N A H\<rparr>"

end
