(* ===== verification/Midi_Reading.thy ===== *)
theory Midi_Reading
  imports Midi_Transport Midi_Properties
begin

text \<open>
  Reading UMPs from a byte source, and writing lists of UMPs. The locale \<open>byte_source\<close> is what the
  transports promise the parser loop: the bytes still to come, one after the other, then none. It
  is interpreted on the serial adapter and on the BLE reader by the theories of the links.
\<close>

section \<open>Reading until nothing is left\<close>

fun read_until_none :: "('s \<Rightarrow> (midi_ump option \<times> 's) option) \<Rightarrow> nat \<Rightarrow> 's \<Rightarrow> (midi_ump list \<times> 's) option" where
  "read_until_none R 0 s = None"
| "read_until_none R (Suc n) s =
     (case R s of
        None \<Rightarrow> None
      | Some (None, s) \<Rightarrow> Some ([], s)
      | Some (Some p, s) \<Rightarrow> map_option (\<lambda>(ps, s). (p # ps, s)) (read_until_none R n s))"

locale byte_source =
  fixes R :: "'r \<Rightarrow> (u8 option \<times> 'r) option" and ahead :: "u8 list \<Rightarrow> 'r \<Rightarrow> bool"
  assumes source_next: "ahead (d # ds) r \<Longrightarrow> \<exists>r'. R r = Some (Some d, r') \<and> ahead ds r'"
    and source_done: "ahead [] r \<Longrightarrow> \<exists>r'. R r = Some (None, r') \<and> ahead [] r'"
begin

lemma read_one:
  assumes "ahead ds r" "parse_all A g ds p = (outs, p')"
  shows "outs = [] \<and> (\<exists>r'. read_midi1_bytes_as_ump A g R p r = Some (None, p', r') \<and> ahead [] r') \<or>
    (\<exists>x outs' ds' p1 r1. outs = x # outs' \<and> read_midi1_bytes_as_ump A g R p r = Some (Some x, p1, r1) \<and> ahead ds' r1 \<and>
      parse_all A g ds' p1 = (outs', p'))"
  using assms
proof (induction ds arbitrary: p r)
  case Nil
  obtain r' where "R r = Some (None, r')" "ahead [] r'" using source_done [OF Nil(1)] by blast
  then have "read_midi1_bytes_as_ump A g R p r = Some (None, p, r')" by (simp add: read_midi1_bytes_as_ump.simps [of A g R p r])
  then show ?case using Nil(2) \<open>ahead [] r'\<close> by auto
next
  case (Cons d ds)
  obtain r1 where r1: "R r = Some (Some d, r1)" "ahead ds r1" using source_next [OF Cons(2)] by blast
  obtain out p1 where p1: "parse A d g p = (out, p1)" by (cases "parse A d g p")
  note step = read_midi1_bytes_as_ump.simps [of A g R p r]
  show ?case
  proof (cases out)
    case None
    have "parse_all A g ds p1 = (outs, p')" using Cons.prems(2) p1 None by (auto split: prod.splits)
    from Cons.IH [OF r1(2) this] show ?thesis using r1(1) p1 None by (simp add: step)
  next
    case (Some x)
    obtain outs' where "outs = x # outs'" "parse_all A g ds p1 = (outs', p')"
      using Cons.prems(2) p1 Some by (auto split: prod.splits)
    then show ?thesis using r1 p1 Some by (auto simp: step)
  qed
qed

text \<open>A transport that keeps the parser in its state \<open>'s\<close> reads all the packets of the bytes ahead.\<close>

lemma reads_all:
  assumes RD: "\<And>s. RD s = (case get s of (p, r) \<Rightarrow> map_option (\<lambda>(out, p, r). (out, put p r)) (read_midi1_bytes_as_ump A g R p r))"
    and parser: "\<And>p r. fst (get (put p r)) = p" and source: "\<And>bs p r. ahead bs r \<Longrightarrow> ahead bs (snd (get (put p r)))"
    and "get s = (p, r)" "ahead ds r" "fst (parse_all A g ds p) = outs" "length outs < n"
  shows "\<exists>s'. read_until_none RD n s = Some (outs, s')"
  using assms(4-)
proof (induction outs arbitrary: n s p r ds)
  case Nil
  then obtain m p' where n: "n = Suc m" "parse_all A g ds p = ([], p')" by (metis list.size(3) not0_implies_Suc not_less0 prod.collapse)
  from read_one [OF Nil(2) n(2)] obtain r' where "read_midi1_bytes_as_ump A g R p r = Some (None, p', r')" by blast
  then have "RD s = Some (None, put p' r')" using RD [of s] Nil(1) by simp
  then show ?case using n(1) by simp
next
  case (Cons x outs)
  then obtain m p' where n: "n = Suc m" "parse_all A g ds p = (x # outs, p')"
    by (metis less_zeroE not0_implies_Suc prod.collapse)
  from read_one [OF Cons(3) n(2)] obtain p1 r1 ds' where *: "read_midi1_bytes_as_ump A g R p r = Some (Some x, p1, r1)"
    "ahead ds' r1" "parse_all A g ds' p1 = (outs, p')" by auto
  have "get (put p1 r1) = (p1, snd (get (put p1 r1)))" using parser [of p1 r1] by (metis prod.collapse)
  from Cons.IH [OF this source [OF *(2)], of m] obtain s' where "read_until_none RD m (put p1 r1) = Some (outs, s')"
    using *(3) n(1) Cons.prems(4) by auto
  moreover have "RD s = Some (Some x, put p1 r1)" using RD [of s] Cons.prems(1) *(1) by simp
  ultimately show ?case using n(1) by simp
qed

end

section \<open>The bytes of a list of packets\<close>

definition bytes_of :: "ump_api \<Rightarrow> midi_ump \<Rightarrow> u8 list" where
  "bytes_of A p = the (ump_bytes A p)"

lemma written_bytes:
  assumes "write_packets A g append_writer ps w = (True, w')"
  shows "list_all (\<lambda>p. UMP_GROUP A p = g \<and> ump_bytes A p = Some (bytes_of A p)) ps \<and> w' = w @ concat (map (bytes_of A) ps)"
  using assms
proof (induction ps arbitrary: w)
  case (Cons p ps)
  have g: "UMP_GROUP A p = g" using Cons.prems by (auto simp: write_ump_as_midi1_bytes_def and_then_def split: if_splits)
  with Cons.prems obtain bs where bs: "ump_bytes A p = Some bs"
    by (auto simp: write_ump_eq_write_all [OF g] and_then_def split: option.splits)
  then have "write_packets A g append_writer ps (w @ bs) = (True, w')"
    using Cons.prems by (simp add: write_ump_eq_write_all [OF g] write_all_append_writer)
  from Cons.IH [OF this] show ?case using g bs by (simp add: bytes_of_def)
qed simp

lemma msgs_bytes:
  assumes "ump_macros A" "g < 16" "list_all valid_msg ms"
  shows "list_all (\<lambda>p. UMP_GROUP A p = g \<and> ump_bytes A p = Some (bytes_of A p)) (concat (map (msg_packets A g) ms))"
    "concat (map (bytes_of A) (concat (map (msg_packets A g) ms))) = concat (map msg_bytes ms)"
proof -
  have "write_packets A g append_writer (concat (map (msg_packets A g) ms)) [] = (True, concat (map msg_bytes ms))"
    by (simp add: ump_macros.write_msgs [OF assms] write_all_append_writer)
  from written_bytes [OF this]
  show "list_all (\<lambda>p. UMP_GROUP A p = g \<and> ump_bytes A p = Some (bytes_of A p)) (concat (map (msg_packets A g) ms))"
    "concat (map (bytes_of A) (concat (map (msg_packets A g) ms))) = concat (map msg_bytes ms)" by simp_all
qed


end
