(* ===== verification/Midi_Ble.thy ===== *)
theory Midi_Ble
  imports Midi_Reading
begin

text \<open>
  The BLE transport writes the bytes of a UMP into packets of at most \<open>N\<close> bytes, and reads them
  back without the header and the timestamps. The locale \<open>ble_air\<close> is what the code expects of
  the adapter.
\<close>

section \<open>Packets and the streams they may carry\<close>

definition payload :: "ble_packet \<Rightarrow> u8 list" where
  "payload p = drop 2 (take (pk_size p) (pk_data p))"

definition packet_ok :: "nat \<Rightarrow> ble_packet \<Rightarrow> bool" where
  "packet_ok N p \<longleftrightarrow> length (pk_data p) = N \<and> 2 < pk_size p \<and> pk_size p \<le> N \<and> 0x80 \<le> pk_data p ! 1"

definition next_sysex :: "bool \<Rightarrow> u8 \<Rightarrow> bool" where
  "next_sysex sx d = (if d = SYS_EX_START then True else if d = SYS_EX_END then False else sx)"

text \<open>
  The reader takes a status byte after a byte outside of a SysEx for a timestamp, so inside of a
  packet these are only allowed in a SysEx.
\<close>

fun clean :: "bool \<Rightarrow> u8 list \<Rightarrow> bool" where
  "clean sx [] \<longleftrightarrow> True"
| "clean sx (d # ds) \<longleftrightarrow> (\<not> next_sysex sx d \<and> ds \<noteq> [] \<longrightarrow> hd ds < 0x80) \<and> clean (next_sysex sx d) ds"

fun clean_packets :: "bool \<Rightarrow> u8 list list \<Rightarrow> bool" where
  "clean_packets sx [] \<longleftrightarrow> True"
| "clean_packets sx (b # bs) \<longleftrightarrow> clean sx b \<and> clean_packets (foldl next_sysex sx b) bs"

lemma clean_append: "clean sx (xs @ ys) \<Longrightarrow> clean sx xs \<and> clean (foldl next_sysex sx xs) ys"
  by (induction xs arbitrary: sx) auto

lemma clean_packets_append:
  "clean_packets sx (as @ bs) \<longleftrightarrow> clean_packets sx as \<and> clean_packets (foldl next_sysex sx (concat as)) bs"
  by (induction as arbitrary: sx) auto

lemma clean_split: "clean sx (concat bs) \<Longrightarrow> clean_packets sx bs"
  by (induction bs arbitrary: sx) (auto dest: clean_append)

lemma and_status: "d AND (0x80 :: u8) = 0 \<longleftrightarrow> d < 0x80"
proof -
  have "d AND 0x80 = 0 \<longleftrightarrow> \<not> bit d 7"
    using and_exp_eq_0_iff_not_bit [of d 7] by simp
  also have "\<dots> \<longleftrightarrow> take_bit 7 d = d"
  proof
    assume b: "\<not> bit d 7"
    show "take_bit 7 d = d"
    proof (rule bit_word_eqI)
      fix n :: nat assume "n < LENGTH(8)"
      then have "n < 7 \<or> n = 7" by auto
      then show "bit (take_bit 7 d) n = bit d n" using b by (auto simp: bit_take_bit_iff)
    qed
  next
    assume "take_bit 7 d = d"
    then show "\<not> bit d 7" by (metis bit_take_bit_iff less_irrefl)
  qed
  finally show ?thesis by (simp add: take_bit_7_eq)
qed

lemma or_status: "(0x80 :: u8) \<le> d OR 0x80"
proof -
  have "(d OR 0x80) AND 0x80 = (0x80 :: u8)" by (rule bit_word_eqI) (auto simp: bit_simps)
  then show ?thesis using and_status [of "d OR 0x80"] by (simp add: not_less [symmetric])
qed

section \<open>Messages are clean\<close>

lemma next_data: "d < 0x80 \<Longrightarrow> next_sysex sx d = sx"
  by (auto simp: next_sysex_def)

lemma clean_data: "list_all (\<lambda>d. d < 0x80) ds \<Longrightarrow> clean sx ds \<and> foldl next_sysex sx ds = sx"
proof (induction ds)
  case (Cons d ds)
  then show ?case by (cases ds) (simp_all add: next_data)
qed simp

lemma clean_data_end:
  "list_all (\<lambda>d. d < 0x80) ds \<Longrightarrow> clean True (ds @ [SYS_EX_END]) \<and> foldl next_sysex True (ds @ [SYS_EX_END]) = False"
  by (induction ds) (simp_all add: next_data, simp_all add: next_sysex_def)

lemma clean_status:
  "st \<noteq> SYS_EX_START \<Longrightarrow> list_all (\<lambda>d. d < 0x80) ds \<Longrightarrow> clean False (st # ds) \<and> foldl next_sysex False (st # ds) = False"
  using clean_data [of ds False] by (cases ds) (simp_all add: next_sysex_def)

definition keeps_clean :: "ump_api \<Rightarrow> bool \<Rightarrow> midi_ump list \<Rightarrow> bool" where
  "keeps_clean A sx ps \<longleftrightarrow>
     clean_packets sx (map (bytes_of A) ps) \<and> foldl next_sysex sx (concat (map (bytes_of A) ps)) = False"

lemma keeps_clean_append: "keeps_clean A sx ps \<Longrightarrow> keeps_clean A False qs \<Longrightarrow> keeps_clean A sx (ps @ qs)"
  by (simp add: keeps_clean_def clean_packets_append)

context ump_macros
begin

lemma sysex_bytes_of:
  assumes "length c \<le> 6" "list_all (\<lambda>d. d < 0x80) c" "st \<le> 3"
  shows "bytes_of A (sysex7_packet A g st c) =
    (if sysex7_starts_message st then [SYS_EX_START] else []) @ c @ (if sysex7_ends_message st then [SYS_EX_END] else [])"
  by (simp add: bytes_of_def sysex_bytes [OF assms])

lemma clean_tail:
  assumes "\<forall>c \<in> set cs. length c \<le> 6 \<and> list_all (\<lambda>d. d < 0x80) c" "cs \<noteq> []"
  shows "keeps_clean A True (tail_packets A g cs)"
  using assms
proof (induction cs rule: induct_list012)
  case (2 c)
  then show ?case using clean_data_end [of c]
    by (simp add: keeps_clean_def sysex_bytes_of sysex7_starts_message_def sysex7_ends_message_def)
next
  case (3 c d cs)
  then have "keeps_clean A True (tail_packets A g (d # cs))" by simp
  moreover have "length c \<le> 6" "list_all (\<lambda>d. d < 0x80) c" using 3(3) by simp_all
  ultimately show ?case using clean_data [of c True]
    by (simp add: keeps_clean_def sysex_bytes_of sysex7_starts_message_def sysex7_ends_message_def)
qed simp

lemma clean_chunks:
  assumes "\<forall>c \<in> set cs. length c \<le> 6 \<and> list_all (\<lambda>d. d < 0x80) c" "cs \<noteq> []"
  shows "keeps_clean A False (chunk_packets A g cs)"
proof -
  obtain c ds where cs: "cs = c # ds" using assms(2) by (cases cs) auto
  have c: "length c \<le> 6" "list_all (\<lambda>d. d < 0x80) c" using assms(1) cs by simp_all
  have start: "next_sysex False SYS_EX_START = True" by (simp add: next_sysex_def)
  show ?thesis
  proof (cases ds)
    case Nil
    then show ?thesis using cs c clean_data_end [of c] start
      by (simp add: keeps_clean_def sysex_bytes_of sysex7_starts_message_def sysex7_ends_message_def del: SYS_EX_START_def)
  next
    case (Cons d es)
    then have "keeps_clean A True (tail_packets A g ds)" using assms(1) cs by (intro clean_tail) simp_all
    then show ?thesis using cs c clean_data [of c True] start Cons
      by (simp add: keeps_clean_def sysex_bytes_of sysex7_starts_message_def sysex7_ends_message_def del: SYS_EX_START_def)
  qed
qed

lemma clean_msg:
  assumes "valid_msg m"
  shows "keeps_clean A False (msg_packets A g m)"
proof (cases m)
  case (Voice st d1 d2)
  have "list_all (\<lambda>d. d < 0x80) (data_bytes st d1 d2)" "st \<noteq> SYS_EX_START"
    using assms Voice by (auto simp: data_bytes_def Let_def)
  then show ?thesis using clean_status [of st "data_bytes st d1 d2"] voice_bytes [of st d1 d2 g] assms Voice
    by (simp add: keeps_clean_def bytes_of_def)
next
  case (System st d1 d2)
  have "list_all (\<lambda>d. d < 0x80) (data_bytes st d1 d2)" "st \<noteq> SYS_EX_START"
    using assms System by (auto simp: data_bytes_def Let_def is_system_real_time_def)
  then show ?thesis using clean_status [of st "data_bytes st d1 d2"] system_bytes [of st d1 d2 g] assms System
    by (simp add: keeps_clean_def bytes_of_def)
next
  case (SysExMsg bs)
  have "\<forall>c \<in> set (chunks bs). length c \<le> 6 \<and> list_all (\<lambda>d. d < 0x80) c"
  proof -
    have "list_all (\<lambda>d. d < 0x80) (concat (chunks bs))" using assms SysExMsg by (simp add: concat_chunks)
    then show ?thesis by (auto simp: list_all_iff chunks_length)
  qed
  then show ?thesis using clean_chunks [OF _ chunks_nonempty] SysExMsg by simp
qed

lemma clean_msgs: "list_all valid_msg ms \<Longrightarrow> keeps_clean A False (concat (map (msg_packets A g) ms))"
proof (induction ms)
  case (Cons m ms)
  then show ?case using keeps_clean_append [OF clean_msg] by simp
qed (simp add: keeps_clean_def)

end

section \<open>The adapter\<close>

text \<open>
  \<open>sent\<close> are the packets given to the adapter and \<open>received\<close> the packets it will hand out. It
  accepts every packet and leaves it as it is.
\<close>

locale ble_air =
  fixes H :: "'w ble_hwa" and sent :: "'w \<Rightarrow> ble_packet list" and received :: "'w \<Rightarrow> ble_packet list"
  assumes air_write: "\<exists>w'. bh_write H p w = (True, p, w') \<and> sent w' = sent w @ [p] \<and> received w' = received w"
    and air_read: "received w = p # ps \<Longrightarrow> \<exists>w'. bh_read H w = (Some p, w') \<and> received w' = ps \<and> sent w' = sent w"
    and air_empty: "received w = [] \<Longrightarrow> \<exists>w'. bh_read H w = (None, w') \<and> received w' = [] \<and> sent w' = sent w"

section \<open>Writing\<close>

definition tx_started :: "nat \<Rightarrow> ble_packet \<Rightarrow> bool" where
  "tx_started N p \<longleftrightarrow> length (pk_data p) = N \<and> 2 \<le> pk_size p \<and> pk_size p \<le> N \<and> 0x80 \<le> pk_data p ! 1"

lemma tx_put:
  assumes "tx_started N p" "pk_size p < N"
  shows "tx_started N (pk_put d p)" "payload (pk_put d p) = payload p @ [d]"
proof -
  show "tx_started N (pk_put d p)" using assms by (auto simp: tx_started_def pk_put_def)
  have "take (Suc (pk_size p)) ((pk_data p)[pk_size p := d]) = take (pk_size p) (pk_data p) @ [d]"
    using assms by (simp add: tx_started_def take_Suc_conv_app_nth)
  then show "payload (pk_put d p) = payload p @ [d]" using assms by (simp add: payload_def pk_put_def tx_started_def)
qed

lemma start_packet:
  assumes "length (pk_data (tx_buffer t)) = N" "2 < N"
  shows "\<exists>p. ble_start_packet H (t, w) = (t\<lparr>tx_buffer := p\<rparr>, w) \<and> tx_started N p \<and> payload p = [] \<and> pk_size p = 2"
proof -
  let ?p = "\<lambda>a b. pk_put (b OR 0x80) (pk_put a ((tx_buffer t)\<lparr>pk_size := 0\<rparr>))"
  have "tx_started N (?p a b)" "payload (?p a b) = []" "pk_size (?p a b) = 2" for a b
    using assms by (simp_all add: pk_put_def tx_started_def payload_def or_status)
  then show ?thesis by (simp only: ble_start_packet_def split_conv Let_def MIDI_STATUS_MIN_def) blast
qed

text \<open>\<open>bs\<close> are the bytes of the UMP written so far, the last of them in the packet that is being filled.\<close>

context ble_air
begin

definition filling :: "nat \<Rightarrow> ble_packet list \<Rightarrow> u8 list \<Rightarrow> ble_members \<times> 'w \<Rightarrow> bool" where
  "filling N qs bs s \<longleftrightarrow> (\<exists>ps. sent (snd s) = qs @ ps \<and> list_all (packet_ok N) ps \<and>
     concat (map payload ps) @ payload (tx_buffer (fst s)) = bs \<and> tx_started N (tx_buffer (fst s)))"

lemma flush:
  assumes "filling N qs bs (t, w)"
  shows "\<exists>ps w'. ble_flush_packet H (t, w) = (True, t, w') \<and> sent w' = qs @ ps \<and> list_all (packet_ok N) ps \<and>
    concat (map payload ps) = bs"
proof -
  obtain ps where ps: "sent w = qs @ ps" "list_all (packet_ok N) ps" "concat (map payload ps) @ payload (tx_buffer t) = bs"
    "tx_started N (tx_buffer t)" using assms by (auto simp: filling_def)
  show ?thesis
  proof (cases "pk_size (tx_buffer t) \<le> 2")
    case True
    then have "payload (tx_buffer t) = []" by (simp add: payload_def)
    then show ?thesis using True ps by (auto simp: ble_flush_packet_def)
  next
    case False
    obtain w' where "bh_write H (tx_buffer t) w = (True, tx_buffer t, w')" "sent w' = sent w @ [tx_buffer t]"
      using air_write by blast
    moreover have "packet_ok N (tx_buffer t)" using ps(4) False by (simp add: packet_ok_def tx_started_def)
    ultimately show ?thesis using False ps by (auto simp: ble_flush_packet_def intro!: exI [of _ "ps @ [tx_buffer t]"])
  qed
qed

lemma put_byte:
  assumes "filling N qs bs s" "2 < N"
  shows "\<exists>s'. ble_write_midi_byte N H d s = (True, s') \<and> filling N qs (bs @ [d]) s'"
proof (cases s)
  case (Pair t w)
  obtain ps where ps: "sent w = qs @ ps" "list_all (packet_ok N) ps" "concat (map payload ps) @ payload (tx_buffer t) = bs"
    "tx_started N (tx_buffer t)" using assms(1) Pair by (auto simp: filling_def)
  show ?thesis
  proof (cases "pk_size (tx_buffer t) \<ge> N")
    case True
    obtain ps' w' where f: "ble_flush_packet H (t, w) = (True, t, w')" "sent w' = qs @ ps'" "list_all (packet_ok N) ps'"
      "concat (map payload ps') = bs" using flush assms(1) Pair by blast
    obtain p where p: "ble_start_packet H (t, w') = (t\<lparr>tx_buffer := p\<rparr>, w')" "tx_started N p" "payload p = []" "pk_size p = 2"
      using start_packet [of t N H w'] ps(4) assms(2) by (auto simp: tx_started_def)
    show ?thesis using True Pair f p tx_put [OF p(2)] assms(2)
      by (auto simp: ble_write_midi_byte_def filling_def and_then_def)
  next
    case False
    then show ?thesis using Pair ps tx_put [OF ps(4)] by (auto simp: ble_write_midi_byte_def filling_def and_then_def)
  qed
qed

lemma put_bytes:
  assumes "filling N qs bs s" "2 < N"
  shows "\<exists>s'. write_all (ble_write_midi_byte N H) xs s = (True, s') \<and> filling N qs (bs @ xs) s'"
  using assms(1)
proof (induction xs arbitrary: bs s)
  case (Cons x xs)
  obtain s1 where "ble_write_midi_byte N H x s = (True, s1)" "filling N qs (bs @ [x]) s1"
    using put_byte [OF Cons(2) assms(2)] by blast
  moreover from Cons.IH [OF this(2)] obtain s2 where "write_all (ble_write_midi_byte N H) xs s1 = (True, s2)"
    "filling N qs (bs @ x # xs) s2" by auto
  ultimately show ?case by (simp add: and_then_def)
qed simp

lemma write_ump:
  assumes "ump_bytes A p = Some bs" "length (pk_data (tx_buffer t)) = N" "2 < N"
  shows "\<exists>t' w' ps. ble_write N A H p (t, w) = (True, t', w') \<and> length (pk_data (tx_buffer t')) = N \<and>
    sent w' = sent w @ ps \<and> list_all (packet_ok N) ps \<and> concat (map payload ps) = bs"
proof -
  obtain q where q: "ble_start_packet H (t, w) = (t\<lparr>tx_buffer := q\<rparr>, w)" "tx_started N q" "payload q = []"
    using start_packet [OF assms(2,3), of H w] by blast
  have "filling N (sent w) [] (t\<lparr>tx_buffer := q\<rparr>, w)"
    unfolding filling_def using q(2,3) by (intro exI [of _ "[]"]) simp
  from put_bytes [OF this assms(3), of bs] obtain s1 where
    s1: "write_all (ble_write_midi_byte N H) bs (t\<lparr>tx_buffer := q\<rparr>, w) = (True, s1)" "filling N (sent w) bs s1"
    unfolding append_Nil by blast
  obtain t1 w1 where "s1 = (t1, w1)" by (cases s1)
  note 1 = s1 [unfolded this]
  from flush [OF 1(2)] obtain ps w' where "ble_flush_packet H (t1, w1) = (True, t1, w')" "sent w' = sent w @ ps"
    "list_all (packet_ok N) ps" "concat (map payload ps) = bs" by blast
  moreover have "length (pk_data (tx_buffer t1)) = N" using 1(2) by (auto simp: filling_def tx_started_def)
  ultimately show ?thesis using q(1) 1(1) assms(1)
    by (simp add: ble_write_def write_ump_eq_write_all [OF refl] and_then_def)
qed

lemma write_umps:
  assumes "list_all (\<lambda>p. UMP_GROUP A p = g \<and> ump_bytes A p = Some (bytes_of A p)) us" "length (pk_data (tx_buffer t)) = N" "2 < N"
    "clean_packets sx (map (bytes_of A) us)"
  shows "\<exists>t' w' ps. write_all (ble_write N A H) us (t, w) = (True, t', w') \<and> sent w' = sent w @ ps \<and> list_all (packet_ok N) ps \<and>
    concat (map payload ps) = concat (map (bytes_of A) us) \<and> clean_packets sx (map payload ps)"
  using assms
proof (induction us arbitrary: t w sx)
  case (Cons u us)
  have "ump_bytes A u = Some (bytes_of A u)" using Cons.prems(1) by simp
  from write_ump [OF this Cons.prems(2,3)] obtain t1 w1 ps where
    1: "ble_write N A H u (t, w) = (True, t1, w1)" "length (pk_data (tx_buffer t1)) = N" "sent w1 = sent w @ ps"
      "list_all (packet_ok N) ps" "concat (map payload ps) = bytes_of A u" by blast
  have us: "list_all (\<lambda>p. UMP_GROUP A p = g \<and> ump_bytes A p = Some (bytes_of A p)) us" using Cons.prems(1) by simp
  have c: "clean_packets sx (map payload ps)" "clean_packets (foldl next_sysex sx (bytes_of A u)) (map (bytes_of A) us)"
    using Cons.prems(4) 1(5) by (auto intro: clean_split)
  obtain t2 w2 qs where 2: "write_all (ble_write N A H) us (t1, w1) = (True, t2, w2)" "sent w2 = sent w1 @ qs"
      "list_all (packet_ok N) qs" "concat (map payload qs) = concat (map (bytes_of A) us)"
      "clean_packets (foldl next_sysex sx (bytes_of A u)) (map payload qs)"
    using Cons.IH [OF us 1(2) Cons.prems(3) c(2), of w1] by blast
  show ?case using 1 2 c(1) by (auto simp: and_then_def clean_packets_append intro!: exI [of _ "ps @ qs"])
qed simp

end

end
