(* ===== verification/Midi_Links.thy ===== *)
theory Midi_Links
  imports Midi_Ble
begin

text \<open>
  Messages sent over a serial or a BLE link arrive: the receiver reads the packets of exactly the
  messages sent. The locales of the readers are interpreted on the transports, the one of the BLE
  adapter on the adapter of \<open>midi_transport_ble_test.cpp\<close>.
\<close>

section \<open>The BLE reader\<close>

definition loaded :: "nat \<Rightarrow> ble_members \<Rightarrow> u8 list \<Rightarrow> bool" where
  "loaded N t rest \<longleftrightarrow> \<not> rx_search_timestamp t \<and> length (pk_data (rx_packet t)) = N \<and> pk_size (rx_packet t) \<le> N \<and>
     rx_packet_index t \<le> pk_size (rx_packet t) \<and> rest = drop (rx_packet_index t) (take (pk_size (rx_packet t)) (pk_data (rx_packet t)))"

lemma scan_data:
  assumes "loaded N t (d # ds)" "clean (rx_sysex_active t) (d # ds)"
  shows "\<exists>t'. ble_scan t = (Some d, t') \<and> loaded N t' ds \<and> rx_sysex_active t' = next_sysex (rx_sysex_active t) d \<and>
    rx_packet_active t' = rx_packet_active t"
proof -
  let ?i = "rx_packet_index t" and ?n = "pk_size (rx_packet t)" and ?xs = "pk_data (rx_packet t)"
  have l: "\<not> rx_search_timestamp t" "length ?xs = N" "?n \<le> N" "d # ds = drop ?i (take ?n ?xs)" using assms(1) by (simp_all add: loaded_def)
  have "drop ?i (take ?n ?xs) \<noteq> []" using l(4) by (metis list.discI)
  then have i: "?i < ?n" using l(2,3) by simp
  have "take ?n ?xs ! ?i # drop (Suc ?i) (take ?n ?xs) = drop ?i (take ?n ?xs)" by (rule Cons_nth_drop_Suc) (use l i in simp)
  then have "d = take ?n ?xs ! ?i" "ds = drop (Suc ?i) (take ?n ?xs)" unfolding l(4) [symmetric] by simp_all
  then have d: "?xs ! ?i = d" "ds = drop (Suc ?i) (take ?n ?xs)" using i by simp_all
  have follow: "next_sysex (rx_sysex_active t) d \<or> ?xs ! Suc ?i < 0x80" if "Suc ?i < ?n"
  proof -
    have "ds \<noteq> []" "hd ds = ?xs ! Suc ?i" using that d(2) l(2,3) by (simp_all add: hd_drop_conv_nth)
    then show ?thesis using assms(2) by auto
  qed
  define u where "u = (let t = t\<lparr>rx_packet_index := ?i + 1\<rparr> in
    if d = SYS_EX_START then t\<lparr>rx_sysex_active := True\<rparr> else if d = SYS_EX_END then t\<lparr>rx_sysex_active := False\<rparr> else t)"
  have u: "rx_packet u = rx_packet t" "rx_packet_index u = ?i + 1" "rx_sysex_active u = next_sysex (rx_sysex_active t) d"
    "rx_search_timestamp u = rx_search_timestamp t" "rx_packet_active u = rx_packet_active t"
    by (simp_all add: u_def next_sysex_def Let_def)
  have "ble_scan t = (Some d, if \<not> rx_sysex_active u \<and> ?i < ?n - 1 \<and> \<not> ?xs ! (?i + 1) < 0x80 then u\<lparr>rx_search_timestamp := True\<rparr> else u)"
  proof (cases "d = SYS_EX_START \<or> d = SYS_EX_END")
    case True
    then show ?thesis
    proof
      assume s: "d = SYS_EX_START"
      then have "u = t\<lparr>rx_packet_index := ?i + 1, rx_sysex_active := True\<rparr>" by (simp add: u_def)
      then show ?thesis using i l(1) d(1) s by (subst ble_scan.simps) (simp add: and_status Let_def)
    next
      assume s: "d = SYS_EX_END"
      then have "u = t\<lparr>rx_packet_index := ?i + 1, rx_sysex_active := False\<rparr>" by (simp add: u_def)
      then show ?thesis using i l(1) d(1) s by (subst ble_scan.simps) (simp add: and_status Let_def)
    qed
  next
    case False
    then have u': "u = t\<lparr>rx_packet_index := ?i + 1\<rparr>" by (simp add: u_def)
    have *: "rx_packet_index t < pk_size (rx_packet t) \<longleftrightarrow> True" "rx_search_timestamp t \<longleftrightarrow> False" "?xs ! ?i = d"
      "d = SYS_EX_START \<longleftrightarrow> False" "d = SYS_EX_END \<longleftrightarrow> False" using i l(1) d(1) False by simp_all
    have sel: "rx_packet (t\<lparr>rx_packet_index := k\<rparr>) = rx_packet t"
      "rx_search_timestamp (t\<lparr>rx_packet_index := k\<rparr>) = rx_search_timestamp t" for k by simp_all
    show ?thesis unfolding u'
      by (subst ble_scan.simps) (simp only: * sel Let_def if_True if_False ble_members.simps and_status MIDI_STATUS_MIN_def)
  qed
  moreover have "\<not> (\<not> rx_sysex_active u \<and> ?i < ?n - 1 \<and> \<not> ?xs ! (?i + 1) < 0x80)"
  proof (cases "Suc ?i < ?n")
    case True
    then show ?thesis using follow u(3) by simp
  next
    case False
    then have "\<not> ?i < ?n - 1" by linarith
    then show ?thesis by blast
  qed
  ultimately have "ble_scan t = (Some d, u)" by (simp only: if_False)
  moreover have "loaded N u ds" using l i d(2) u by (simp add: loaded_def)
  ultimately show ?thesis using u by auto
qed

lemma scan_end: "loaded N t [] \<Longrightarrow> ble_scan t = (None, t)"
  by (subst ble_scan.simps) (auto simp: loaded_def)

lemma scan_start:
  assumes "rx_packet t = p" "packet_ok N p" "rx_packet_index t = 1" "rx_search_timestamp t"
  shows "ble_scan t = ble_scan (t\<lparr>rx_packet_index := 2, rx_search_timestamp := False\<rparr>)"
    "loaded N (t\<lparr>rx_packet_index := 2, rx_search_timestamp := False\<rparr>) (payload p)"
proof -
  have p: "length (pk_data p) = N" "2 < pk_size p" "pk_size p \<le> N" "\<not> pk_data p ! 1 < 0x80" using assms(2) by (simp_all add: packet_ok_def not_less)
  show "ble_scan t = ble_scan (t\<lparr>rx_packet_index := 2, rx_search_timestamp := False\<rparr>)"
    using assms(1,3,4) p by (subst ble_scan.simps) (simp add: and_status Let_def numeral_2_eq_2)
  show "loaded N (t\<lparr>rx_packet_index := 2, rx_search_timestamp := False\<rparr>) (payload p)"
    using assms(1) p by (simp add: loaded_def payload_def)
qed

lemma payload_nonempty: "packet_ok N p \<Longrightarrow> payload p \<noteq> []"
  by (simp add: packet_ok_def payload_def)

context ble_air
begin

definition ble_ahead :: "nat \<Rightarrow> u8 list \<Rightarrow> ble_members \<times> 'w \<Rightarrow> bool" where
  "ble_ahead N bs s = (case s of (t, w) \<Rightarrow>
     \<exists>rest. bs = rest @ concat (map payload (received w)) \<and> list_all (packet_ok N) (received w) \<and>
       clean (rx_sysex_active t) rest \<and> clean_packets (foldl next_sysex (rx_sysex_active t) rest) (map payload (received w)) \<and>
       (if rx_packet_active t then loaded N t rest else rest = []))"

lemma read_loaded:
  assumes "ble_receive H t w = (True, t1, w1)" "ble_scan t1 = ble_scan t2" "loaded N t2 (d # rest)" "clean (rx_sysex_active t2) (d # rest)"
    "rx_packet t1 = rx_packet t2" "rx_packet_active t2" "list_all (packet_ok N) (received w1)"
    "clean_packets (foldl next_sysex (rx_sysex_active t2) (d # rest)) (map payload (received w1))"
  shows "\<exists>s'. ble_read_midi_byte N H t w = Some (Some d, s') \<and> ble_ahead N (rest @ concat (map payload (received w1))) s'"
proof -
  obtain t' where "ble_scan t2 = (Some d, t')" "loaded N t' rest" "rx_sysex_active t' = next_sysex (rx_sysex_active t2) d"
    "rx_packet_active t'" using scan_data [OF assms(3,4)] assms(6) by auto
  moreover have "pk_size (rx_packet t1) \<le> N" using assms(3,5) by (simp add: loaded_def)
  ultimately show ?thesis using assms
    by (subst ble_read_midi_byte.simps) (auto simp: ble_ahead_def intro!: exI [of _ rest])
qed

lemma read_next_packet:
  assumes "\<not> rx_packet_active t" "ble_ahead N (d # ds) (t, w)"
  shows "\<exists>s'. ble_read_midi_byte N H t w = Some (Some d, s') \<and> ble_ahead N ds s'"
proof -
  have a: "d # ds = concat (map payload (received w))" "list_all (packet_ok N) (received w)"
    "clean_packets (rx_sysex_active t) (map payload (received w))" using assms by (auto simp: ble_ahead_def)
  then obtain p ps where p: "received w = p # ps" by (cases "received w") auto
  then obtain rest where rest: "payload p = d # rest" using a payload_nonempty [of N p] by (cases "payload p") auto
  obtain w' where w': "bh_read H w = (Some p, w')" "received w' = ps" using air_read [OF p] by blast
  let ?t = "t\<lparr>rx_packet := p, rx_packet_index := 1, rx_packet_active := True, rx_search_timestamp := True\<rparr>"
  have ok: "packet_ok N p" using a(2) p by simp
  have "ble_receive H t w = (True, ?t, w')" using assms(1) w' by (simp add: ble_receive_def)
  note read = read_loaded [OF this, of "?t\<lparr>rx_packet_index := 2, rx_search_timestamp := False\<rparr>" N d rest]
  have "ds = rest @ concat (map payload ps)" using a(1) p rest by simp
  then show ?thesis using read scan_start [OF _ ok, of ?t] a p rest w'(2) by simp
qed

lemma read_inactive:
  assumes "loaded N t []" "rx_packet_active t"
  shows "ble_read_midi_byte N H t w = ble_read_midi_byte N H (t\<lparr>rx_packet_active := False\<rparr>) w"
  using assms scan_end [OF assms(1)]
  by (subst ble_read_midi_byte.simps) (simp add: ble_receive_def loaded_def)

lemma ahead_unload:
  assumes "ble_ahead N ds (t, w)" "\<not> (rx_packet_active t \<and> (\<exists>d rest. loaded N t (d # rest)))"
  shows "ble_read_midi_byte N H t w = ble_read_midi_byte N H (t\<lparr>rx_packet_active := False\<rparr>) w"
    "ble_ahead N ds (t\<lparr>rx_packet_active := False\<rparr>, w)"
proof -
  obtain rest where rest: "ds = rest @ concat (map payload (received w))" "list_all (packet_ok N) (received w)"
    "clean_packets (foldl next_sysex (rx_sysex_active t) rest) (map payload (received w))"
    "if rx_packet_active t then loaded N t rest else rest = []" using assms(1) by (auto simp: ble_ahead_def)
  have e: "rest = []" using rest(4) assms(2) by (cases rest) (auto split: if_splits)
  show "ble_ahead N ds (t\<lparr>rx_packet_active := False\<rparr>, w)" using rest e by (simp add: ble_ahead_def)
  show "ble_read_midi_byte N H t w = ble_read_midi_byte N H (t\<lparr>rx_packet_active := False\<rparr>) w"
  proof (cases "rx_packet_active t")
    case True
    then show ?thesis using read_inactive [of N t w] rest(4) e by simp
  next
    case False
    then have "t\<lparr>rx_packet_active := False\<rparr> = t" by (cases t) simp
    then show ?thesis by simp
  qed
qed

lemma ble_next:
  assumes "ble_ahead N (d # ds) (t, w)"
  shows "\<exists>s'. ble_read_midi_byte N H t w = Some (Some d, s') \<and> ble_ahead N ds s'"
proof (cases "rx_packet_active t \<and> (\<exists>d rest. loaded N t (d # rest))")
  case True
  then obtain c cs where l: "loaded N t (c # cs)" "rx_packet_active t" by blast
  obtain rest where r: "d # ds = rest @ concat (map payload (received w))" "list_all (packet_ok N) (received w)"
    "clean (rx_sysex_active t) rest" "clean_packets (foldl next_sysex (rx_sysex_active t) rest) (map payload (received w))"
    "loaded N t rest" using assms l(2) by (auto simp: ble_ahead_def)
  have "rest = c # cs" using r(5) l(1) by (simp add: loaded_def)
  then have c: "rest = d # cs" "ds = cs @ concat (map payload (received w))" using r(1) by simp_all
  have "ble_receive H t w = (True, t, w)" using l(2) by (simp add: ble_receive_def)
  from read_loaded [OF this refl r(5,3) [unfolded c(1)] refl l(2) r(2) r(4) [unfolded c(1)]] c(2) show ?thesis by simp
next
  case False
  from read_next_packet [OF _ ahead_unload(2) [OF assms False]] ahead_unload(1) [OF assms False] show ?thesis by simp
qed

lemma ble_done:
  assumes "ble_ahead N [] (t, w)"
  shows "\<exists>s'. ble_read_midi_byte N H t w = Some (None, s') \<and> ble_ahead N [] s'"
proof -
  let ?t = "t\<lparr>rx_packet_active := False\<rparr>"
  have n: "\<not> (rx_packet_active t \<and> (\<exists>d rest. loaded N t (d # rest)))"
    using assms by (auto simp: ble_ahead_def loaded_def)
  have a: "ble_ahead N [] (?t, w)" by (rule ahead_unload(2) [OF assms n])
  then have "received w = []" using payload_nonempty [of N "hd (received w)"] by (cases "received w") (auto simp: ble_ahead_def)
  then obtain w' where w': "bh_read H w = (None, w')" "received w' = []" using air_empty by blast
  then have "ble_receive H ?t w = (False, ?t, w')" by (simp add: ble_receive_def)
  then have "ble_read_midi_byte N H ?t w = Some (None, ?t, w')" by (subst ble_read_midi_byte.simps) simp
  moreover have "ble_ahead N [] (?t, w')" using w'(2) by (simp add: ble_ahead_def)
  ultimately show ?thesis unfolding ahead_unload(1) [OF assms n] by blast
qed

lemma ble_source: "byte_source (\<lambda>(t, w). ble_read_midi_byte N H t w) (ble_ahead N)"
  by unfold_locales (use ble_next ble_done in \<open>auto simp: split_paired_all\<close>)

lemma ble_read_eq:
  "ble_read N A H s = (case (case s of (t, w) \<Rightarrow> (ble_parser t, (t, w))) of (p, r) \<Rightarrow>
     map_option (\<lambda>(out, p, r). (out, case r of (t, w) \<Rightarrow> (t\<lparr>ble_parser := p\<rparr>, w)))
       (read_midi1_bytes_as_ump A DEFAULT_RX_GROUP (\<lambda>(t, w). ble_read_midi_byte N H t w) p r))"
proof -
  have "(\<lambda>(out :: midi_ump option, p, t :: ble_members, w :: 'w). (out, t\<lparr>ble_parser := p\<rparr>, w)) =
    (\<lambda>(out, p, r). (out, case r of (t, w) \<Rightarrow> (t\<lparr>ble_parser := p\<rparr>, w)))" by auto
  then show ?thesis by (cases s) (simp only: ble_read_def split_conv)
qed

lemma ahead_parser: "ble_ahead N bs (t\<lparr>ble_parser := p\<rparr>, w) = ble_ahead N bs (t, w)"
  by (simp add: ble_ahead_def loaded_def)

text \<open>A receiver that has just been initialised reads the packets of the bytes in the air.\<close>

lemma ble_reads:
  assumes "list_all (packet_ok N) (received w)" "clean_packets False (map payload (received w))"
    "concat (map payload (received w)) = bs" "fst (parse_all A DEFAULT_RX_GROUP bs parser_reset) = us" "length us < n"
    "ble_parser t = parser_reset" "\<not> rx_packet_active t" "\<not> rx_sysex_active t"
  shows "\<exists>s'. read_until_none (ble_read N A H) n (t, w) = Some (us, s')"
proof -
  have "ble_ahead N bs (t, w)" using assms(1,2,3,7,8) by (simp add: ble_ahead_def)
  then show ?thesis
    using byte_source.reads_all [OF ble_source [of N], where RD = "ble_read N A H" and get = "\<lambda>(t, w). (ble_parser t, (t, w))" and
        put = "\<lambda>p r. case r of (t, w) \<Rightarrow> (t\<lparr>ble_parser := p\<rparr>, w)" and A = A and g = DEFAULT_RX_GROUP and s = "(t, w)" and
        p = "ble_parser t" and r = "(t, w)" and ds = bs and outs = us and n = n, OF ble_read_eq]
      assms(4-6) by (simp add: ahead_parser split_paired_all)
qed

end

end
