(* ===== verification/Midi_Transport_Properties.thy ===== *)
theory Midi_Transport_Properties
  imports Midi_Links
begin

text \<open>
  The adapters of the transport tests, the serial link, and the properties of both links. The
  locales \<open>ble_air\<close> and \<open>serial_wire\<close> are interpreted on the adapters.
\<close>

section \<open>The serial link\<close>

text \<open>\<open>sent\<close> are the bytes given to the adapter and \<open>received\<close> the bytes it will hand out.\<close>

locale serial_wire =
  fixes H :: "'w serial_hwa" and sent :: "'w \<Rightarrow> u8 list" and received :: "'w \<Rightarrow> u8 list"
  assumes wire_write: "\<exists>w'. sh_write H d w = (True, w') \<and> sent w' = sent w @ [d] \<and> received w' = received w"
    and wire_read: "received w = d # ds \<Longrightarrow> \<exists>w'. sh_read H w = (Some d, w') \<and> received w' = ds \<and> sent w' = sent w"
    and wire_empty: "received w = [] \<Longrightarrow> \<exists>w'. sh_read H w = (None, w') \<and> received w' = [] \<and> sent w' = sent w"
begin

lemma wire_source: "byte_source (\<lambda>w. Some (sh_read H w)) (\<lambda>bs w. received w = bs)"
  by unfold_locales (use wire_read wire_empty in fastforce)+

lemma wire_bytes: "\<exists>w'. write_all (sh_write H) bs w = (True, w') \<and> sent w' = sent w @ bs"
proof (induction bs arbitrary: w)
  case (Cons b bs)
  obtain w1 where "sh_write H b w = (True, w1)" "sent w1 = sent w @ [b]" using wire_write by blast
  moreover obtain w2 where "write_all (sh_write H) bs w1 = (True, w2)" "sent w2 = sent w1 @ bs" using Cons.IH by blast
  ultimately show ?case by (simp add: and_then_def)
qed simp

lemma wire_umps:
  assumes "list_all (\<lambda>u. UMP_GROUP A u = g \<and> ump_bytes A u = Some (bytes_of A u)) us"
  shows "\<exists>w'. write_all (serial_write A H) us (p, w) = (True, p, w') \<and> sent w' = sent w @ concat (map (bytes_of A) us)"
  using assms
proof (induction us arbitrary: w)
  case (Cons u us)
  have u: "ump_bytes A u = Some (bytes_of A u)" using Cons.prems by simp
  obtain w1 where w1: "write_all (sh_write H) (bytes_of A u) w = (True, w1)" "sent w1 = sent w @ bytes_of A u"
    using wire_bytes by blast
  then have "serial_write A H u (p, w) = (True, p, w1)"
    by (simp add: serial_write_def on_hwa_def write_ump_eq_write_all [OF refl] u)
  moreover obtain w2 where "write_all (serial_write A H) us (p, w1) = (True, p, w2)"
    "sent w2 = sent w1 @ concat (map (bytes_of A) us)" using Cons.IH [of w1] Cons.prems by auto
  ultimately show ?case using w1(2) by (simp add: and_then_def)
qed simp

lemma serial_reads:
  assumes "list_all valid_msg ms" "us = concat (map (msg_packets A DEFAULT_RX_GROUP) ms)" "length us < n"
    "received w = concat (map msg_bytes ms)"
  shows "\<exists>s'. read_until_none (serial_read A H) n (parser_reset, w) = Some (us, s')"
proof -
  have "serial_read A H s = (case id s of (p, r) \<Rightarrow> map_option (\<lambda>(out, p, r). (out, Pair p r))
      (read_midi1_bytes_as_ump A DEFAULT_RX_GROUP (\<lambda>w. Some (sh_read H w)) p r))" for s
    by (cases s) (simp add: serial_read_def option.map_ident split_def)
  from byte_source.reads_all [OF wire_source, where RD = "serial_read A H" and get = id and put = Pair, OF this]
  show ?thesis using assms fst_parse_msgs [OF assms(1), of A DEFAULT_RX_GROUP] by simp
qed

end

section \<open>The adapters of the tests\<close>

record 'a test_adapter =
  test_written :: "'a list"
  test_readable :: "'a list"

definition adapter_write :: "'a \<Rightarrow> 'a test_adapter \<Rightarrow> bool \<times> 'a test_adapter" where
  "adapter_write x w = (True, w\<lparr>test_written := test_written w @ [x]\<rparr>)"

definition adapter_read :: "'a test_adapter \<Rightarrow> 'a option \<times> 'a test_adapter" where
  "adapter_read w = (case test_readable w of [] \<Rightarrow> (None, w) | x # xs \<Rightarrow> (Some x, w\<lparr>test_readable := xs\<rparr>))"

definition test_serial_hwa :: "u8 test_adapter serial_hwa" where
  "test_serial_hwa = \<lparr>sh_supported = Pair True, sh_init = Pair True, sh_deinit = Pair True, sh_write = adapter_write, sh_read = adapter_read\<rparr>"

text \<open>The uptime is the time of the system; here it is the number of packets written.\<close>

definition test_ble_hwa :: "ble_packet test_adapter ble_hwa" where
  "test_ble_hwa = \<lparr>bh_supported = Pair True, bh_init = Pair True, bh_deinit = Pair True,
     bh_write = (\<lambda>p w. (True, p, snd (adapter_write p w))), bh_read = adapter_read,
     bh_uptime = (\<lambda>w. of_nat (length (test_written w)))\<rparr>"

interpretation test_wire: serial_wire test_serial_hwa test_written test_readable
  by unfold_locales (simp_all add: test_serial_hwa_def adapter_write_def adapter_read_def)

interpretation test_air: ble_air test_ble_hwa test_written test_readable
  by unfold_locales (simp_all add: test_ble_hwa_def adapter_write_def adapter_read_def)

section \<open>Properties\<close>

text \<open>C9. What a serial transport sends of valid messages another one receives: the adapter is given the
  bytes of the messages, and a receiver that gets these bytes reads the packets of the messages, in
  the receiver's group, and then nothing more.\<close>

theorem serial_link_delivers:
  assumes "ump_macros A" "serial_wire H sent received" "serial_wire H' sent' received'" "g < 16" "list_all valid_msg ms"
  shows "\<exists>w'. write_all (serial_write A H) (concat (map (msg_packets A g) ms)) (p, w) = (True, p, w') \<and>
    sent w' = sent w @ concat (map msg_bytes ms) \<and>
    (\<forall>v n. received' v = concat (map msg_bytes ms) \<and> length (concat (map (msg_packets A DEFAULT_RX_GROUP) ms)) < n \<longrightarrow>
      (\<exists>s. read_until_none (serial_read A H') n (parser_reset, v) = Some (concat (map (msg_packets A DEFAULT_RX_GROUP) ms), s)))"
proof -
  note bytes = msgs_bytes [OF assms(1,4,5)]
  from serial_wire.wire_umps [OF assms(2) bytes(1), of p w] obtain w' where
    "write_all (serial_write A H) (concat (map (msg_packets A g) ms)) (p, w) = (True, p, w')"
    "sent w' = sent w @ concat (map msg_bytes ms)" unfolding bytes(2) by blast
  then show ?thesis using serial_wire.serial_reads [OF assms(3,5) refl] by blast
qed

lemma example_packets: "length (concat (map (msg_packets ump_layout g) example_msgs)) = 6"
  by (simp add: example_msgs_def chunks_long chunks_short)

theorem serial_link_delivers_witness:
  "\<exists>w' s. write_all (serial_write ump_layout test_serial_hwa) (concat (map (msg_packets ump_layout 3) example_msgs))
      (parser_reset, \<lparr>test_written = [], test_readable = []\<rparr>) = (True, parser_reset, w') \<and>
    test_written w' = [0x93, 60, 100, 0x93, 60, 0, 0xF8, 0xF0, 1, 2, 3, 4, 5, 6, 7, 0xF7, 0xC1, 5] \<and>
    read_until_none (serial_read ump_layout test_serial_hwa) 7
      (parser_reset, \<lparr>test_written = [], test_readable = test_written w'\<rparr>) =
      Some (concat (map (msg_packets ump_layout 0) example_msgs), s)"
proof -
  have g: "(3 :: u8) < 16" by simp
  from serial_link_delivers [OF ump_layout_macros test_wire.serial_wire_axioms test_wire.serial_wire_axioms g example_msgs_valid,
      of parser_reset "\<lparr>test_written = [], test_readable = []\<rparr>"]
  obtain w' where w': "write_all (serial_write ump_layout test_serial_hwa) (concat (map (msg_packets ump_layout 3) example_msgs))
      (parser_reset, \<lparr>test_written = [], test_readable = []\<rparr>) = (True, parser_reset, w')"
    "test_written w' = concat (map msg_bytes example_msgs)"
    "\<And>v n. test_readable v = concat (map msg_bytes example_msgs) \<and>
        length (concat (map (msg_packets ump_layout DEFAULT_RX_GROUP) example_msgs)) < n \<Longrightarrow>
      \<exists>s. read_until_none (serial_read ump_layout test_serial_hwa) n (parser_reset, v) =
        Some (concat (map (msg_packets ump_layout DEFAULT_RX_GROUP) example_msgs), s)" by auto
  from w'(3) [of "\<lparr>test_written = [], test_readable = test_written w'\<rparr>" 7] w'(1,2)
  show ?thesis by (simp add: example_packets example_msgs_bytes)
qed

text \<open>C8. What a BLE transport sends of valid messages another one receives, for any packet size of at least
  three bytes: the packets given to the adapter, handed to a receiver that has just been initialised,
  are read as the packets of the messages, in the receiver's group, and then nothing more.\<close>

theorem ble_link_delivers:
  assumes "ump_macros A" "ble_air H sent received" "ble_air H' sent' received'" "g < 16" "list_all valid_msg ms"
    "2 < N" "length (pk_data (tx_buffer t)) = N"
  shows "\<exists>t' w' ps. write_all (ble_write N A H) (concat (map (msg_packets A g) ms)) (t, w) = (True, t', w') \<and>
    sent w' = sent w @ ps \<and>
    (\<forall>r r' v v' n. ble_init H' (r, v) = (True, r', v') \<and> received' v' = ps \<and>
        length (concat (map (msg_packets A DEFAULT_RX_GROUP) ms)) < n \<longrightarrow>
      (\<exists>s. read_until_none (ble_read N A H') n (r', v') = Some (concat (map (msg_packets A DEFAULT_RX_GROUP) ms), s)))"
proof -
  note bytes = msgs_bytes [OF assms(1,4,5)]
  have "clean_packets False (map (bytes_of A) (concat (map (msg_packets A g) ms)))"
    using ump_macros.clean_msgs [OF assms(1,5)] by (simp add: keeps_clean_def)
  from ble_air.write_umps [OF assms(2) bytes(1) assms(7,6) this, of w] obtain t' w' ps where
    sent: "write_all (ble_write N A H) (concat (map (msg_packets A g) ms)) (t, w) = (True, t', w')" "sent w' = sent w @ ps"
    "list_all (packet_ok N) ps" "concat (map payload ps) = concat (map msg_bytes ms)" "clean_packets False (map payload ps)"
    unfolding bytes(2) by blast
  have "\<exists>s. read_until_none (ble_read N A H') n (r', v') = Some (concat (map (msg_packets A DEFAULT_RX_GROUP) ms), s)"
    if "ble_init H' (r, v) = (True, r', v')" "received' v' = ps" "length (concat (map (msg_packets A DEFAULT_RX_GROUP) ms)) < n"
    for r r' v v' n
  proof -
    have "ble_parser r' = parser_reset" "\<not> rx_packet_active r'" "\<not> rx_sysex_active r'"
      using that(1) by (auto simp: ble_init_def on_hwa_def split: prod.splits)
    then show ?thesis using that(2,3) sent(3-5)
      by (intro ble_air.ble_reads [OF assms(3) _ _ _ fst_parse_msgs [OF assms(5)] that(3)]) simp_all
  qed
  then show ?thesis using sent(1,2) by blast
qed

theorem ble_link_delivers_witness:
  "\<exists>t' w' s. write_all (ble_write 5 ump_layout test_ble_hwa) (concat (map (msg_packets ump_layout 3) example_msgs))
      (ble_new 5, \<lparr>test_written = [], test_readable = []\<rparr>) = (True, t', w') \<and>
    read_until_none (ble_read 5 ump_layout test_ble_hwa) 7
      (snd (ble_init test_ble_hwa (ble_new 5, \<lparr>test_written = [], test_readable = test_written w'\<rparr>))) =
      Some (concat (map (msg_packets ump_layout 0) example_msgs), s)"
proof -
  have g: "(3 :: u8) < 16" "2 < (5 :: nat)" "length (pk_data (tx_buffer (ble_new 5))) = 5"
    by (simp_all add: ble_new_def ble_packet_new_def)
  from ble_link_delivers [OF ump_layout_macros test_air.ble_air_axioms test_air.ble_air_axioms g(1) example_msgs_valid g(2,3),
      of "\<lparr>test_written = [], test_readable = []\<rparr>"]
  obtain t' w' ps where w': "write_all (ble_write 5 ump_layout test_ble_hwa) (concat (map (msg_packets ump_layout 3) example_msgs))
      (ble_new 5, \<lparr>test_written = [], test_readable = []\<rparr>) = (True, t', w')"
    "test_written w' = ps"
    "\<And>r r' v v' n. ble_init test_ble_hwa (r, v) = (True, r', v') \<and> test_readable v' = ps \<and>
        length (concat (map (msg_packets ump_layout DEFAULT_RX_GROUP) example_msgs)) < n \<Longrightarrow>
      \<exists>s. read_until_none (ble_read 5 ump_layout test_ble_hwa) n (r', v') =
        Some (concat (map (msg_packets ump_layout DEFAULT_RX_GROUP) example_msgs), s)" by auto
  let ?v = "\<lparr>test_written = [], test_readable = test_written w'\<rparr>"
  let ?r = "snd (ble_init test_ble_hwa (ble_new 5, ?v))"
  have r: "ble_init test_ble_hwa (ble_new 5, ?v) = (True, fst ?r, snd ?r)" "test_readable (snd ?r) = ps"
    by (simp_all add: ble_init_def on_hwa_def test_ble_hwa_def w'(2))
  then have "\<exists>s. read_until_none (ble_read 5 ump_layout test_ble_hwa) 7 (fst ?r, snd ?r) =
      Some (concat (map (msg_packets ump_layout DEFAULT_RX_GROUP) example_msgs), s)"
    by (intro w'(3)) (simp add: example_packets)
  then show ?thesis using w'(1) by simp
qed

section \<open>A SysEx of another sender\<close>







end
