(* ===== verification/Midi_Base.thy ===== *)
theory Midi_Base
  imports Midi_Transport
begin

text \<open>
  The class \<open>Base\<close> of \<open>midi/midi.h\<close> and \<open>midi.cpp\<close>: it initialises a transport, sends and reads
  packets, and forwards what it reads to the registered thru interfaces. The virtual hooks and the
  \<open>write\<close> of the interfaces are functions over the state \<open>'w\<close> of everything outside; an interface
  is identified by a value of \<open>'i\<close>, as by its address in the code. The mutexes make every member
  function but \<open>read\<close> one indivisible step, and the forwarding works on a copy of the table.
\<close>

section \<open>State\<close>

record ('i, 'w) base_hooks =
  hk_enable_thru_route :: "'i \<Rightarrow> 'w \<Rightarrow> bool \<times> 'w"
  hk_disable_thru_route :: "'i \<Rightarrow> 'w \<Rightarrow> 'w"
  hk_has_thru_bypass :: "'i \<Rightarrow> 'w \<Rightarrow> bool \<times> 'w"
  thru_write :: "'i \<Rightarrow> midi_ump \<Rightarrow> 'w \<Rightarrow> bool \<times> 'w"

text \<open>The hooks of \<open>Base\<close> itself.\<close>

definition default_hooks :: "('i \<Rightarrow> midi_ump \<Rightarrow> 'w \<Rightarrow> bool \<times> 'w) \<Rightarrow> ('i, 'w) base_hooks" where
  "default_hooks W = \<lparr>hk_enable_thru_route = \<lambda>i w. (True, w), hk_disable_thru_route = \<lambda>i w. w,
     hk_has_thru_bypass = \<lambda>i w. (False, w), thru_write = W\<rparr>"

record ('i, 'w) midi_base =
  mb_transport :: "'w transport option"
  thru_interfaces :: "'i option list"
  mb_initialized :: bool

definition base_new :: "nat \<Rightarrow> ('i, 'w) midi_base" where
  "base_new MAX_THRU = \<lparr>mb_transport = None, thru_interfaces = replicate MAX_THRU None, mb_initialized = False\<rparr>"

definition bind_transport :: "'w transport \<Rightarrow> ('i, 'w) midi_base \<Rightarrow> ('i, 'w) midi_base" where
  "bind_transport T b = b\<lparr>mb_transport := Some T\<rparr>"

text \<open>\<open>(_transport != nullptr) && f()\<close>.\<close>

definition if_bound :: "('w transport \<Rightarrow> 'w \<Rightarrow> bool \<times> 'w) \<Rightarrow> ('i, 'w) midi_base \<Rightarrow> 'w \<Rightarrow> bool \<times> 'w" where
  "if_bound f b w = (case mb_transport b of None \<Rightarrow> (False, w) | Some T \<Rightarrow> f T w)"

section \<open>Member functions\<close>

definition base_init :: "('i, 'w) midi_base \<Rightarrow> 'w \<Rightarrow> bool \<times> ('i, 'w) midi_base \<times> 'w" where
  "base_init b w =
     (if mb_initialized b then (True, b, w)
      else case if_bound tr_init b w of
             (True, w) \<Rightarrow> (True, b\<lparr>mb_initialized := True\<rparr>, w)
           | (False, w) \<Rightarrow> (False, b, w))"

definition clear_interfaces :: "('i, 'w) base_hooks \<Rightarrow> 'i option list \<Rightarrow> 'w \<Rightarrow> 'w" where
  "clear_interfaces H ts w =
     foldl (\<lambda>w t. case t of None \<Rightarrow> w | Some i \<Rightarrow> hk_disable_thru_route H i w) w ts"

definition base_deinit :: "('i, 'w) base_hooks \<Rightarrow> ('i, 'w) midi_base \<Rightarrow> 'w \<Rightarrow> bool \<times> ('i, 'w) midi_base \<times> 'w" where
  "base_deinit H b w =
     (if \<not> mb_initialized b then (True, b, w)
      else let b = b\<lparr>mb_initialized := False\<rparr>;
               w = clear_interfaces H (thru_interfaces b) w;
               b = b\<lparr>thru_interfaces := map (\<lambda>t. None) (thru_interfaces b)\<rparr>
           in case if_bound tr_deinit b w of (ok, w) \<Rightarrow> (ok, b, w))"

definition base_supported :: "('i, 'w) midi_base \<Rightarrow> 'w \<Rightarrow> bool \<times> 'w" where
  "base_supported b w = if_bound tr_supported b w"

definition base_send :: "midi_ump \<Rightarrow> ('i, 'w) midi_base \<Rightarrow> 'w \<Rightarrow> bool \<times> 'w" where
  "base_send packet b w = if_bound (\<lambda>T. tr_write T packet) b w"

definition forward :: "('i, 'w) base_hooks \<Rightarrow> midi_ump \<Rightarrow> 'i \<Rightarrow> 'w \<Rightarrow> 'w" where
  "forward H packet i w =
     (case hk_has_thru_bypass H i w of
        (True, w) \<Rightarrow> w
      | (False, w) \<Rightarrow> snd (thru_write H i packet w))"

definition base_thru :: "('i, 'w) base_hooks \<Rightarrow> midi_ump \<Rightarrow> ('i, 'w) midi_base \<Rightarrow> 'w \<Rightarrow> 'w" where
  "base_thru H packet b w =
     foldl (\<lambda>w t. case t of None \<Rightarrow> w | Some i \<Rightarrow> forward H packet i w) w (thru_interfaces b)"

definition base_read :: "('i, 'w) base_hooks \<Rightarrow> ('i, 'w) midi_base \<Rightarrow> 'w \<Rightarrow> (midi_ump option \<times> 'w) option" where
  "base_read H b w =
     (case mb_transport b of
        None \<Rightarrow> Some (None, w)
      | Some T \<Rightarrow>
          (case tr_read T w of
             None \<Rightarrow> None
           | Some (None, w) \<Rightarrow> Some (None, w)
           | Some (Some packet, w) \<Rightarrow> Some (Some packet, base_thru H packet b w)))"

text \<open>The loop that stores the interface in the first free place.\<close>

fun store_interface :: "'i \<Rightarrow> 'i option list \<Rightarrow> 'i option list option" where
  "store_interface i [] = None"
| "store_interface i (t # ts) =
     (if t = None then Some (Some i # ts) else map_option (\<lambda>ts. t # ts) (store_interface i ts))"

definition register_thru_interface ::
    "('i, 'w) base_hooks \<Rightarrow> 'i \<Rightarrow> ('i, 'w) midi_base \<Rightarrow> 'w \<Rightarrow> bool \<times> ('i, 'w) midi_base \<times> 'w" where
  "register_thru_interface H i b w =
     (if Some i \<in> set (thru_interfaces b) then (True, b, w)
      else case hk_enable_thru_route H i w of
             (False, w) \<Rightarrow> (False, b, w)
           | (True, w) \<Rightarrow>
               (case store_interface i (thru_interfaces b) of
                  Some ts \<Rightarrow> (True, b\<lparr>thru_interfaces := ts\<rparr>, w)
                | None \<Rightarrow> (False, b, hk_disable_thru_route H i w)))"

definition unregister_thru_interface ::
    "('i, 'w) base_hooks \<Rightarrow> 'i \<Rightarrow> ('i, 'w) midi_base \<Rightarrow> 'w \<Rightarrow> ('i, 'w) midi_base \<times> 'w" where
  "unregister_thru_interface H i b w =
     (let w = hk_disable_thru_route H i w
      in (b\<lparr>thru_interfaces := map (\<lambda>t. if t = Some i then None else t) (thru_interfaces b)\<rparr>, w))"

section \<open>Sessions\<close>

datatype 'i base_op = Init | Deinit | Register 'i | Unregister 'i | Send midi_ump | Read

datatype base_result = RBool bool | RUnit | RPacket "midi_ump option"

fun base_step :: "('i, 'w) base_hooks \<Rightarrow> 'i base_op \<Rightarrow> ('i, 'w) midi_base \<times> 'w \<Rightarrow> (base_result \<times> ('i, 'w) midi_base \<times> 'w) option" where
  "base_step H Init (b, w) = Some (case base_init b w of (ok, s) \<Rightarrow> (RBool ok, s))"
| "base_step H Deinit (b, w) = Some (case base_deinit H b w of (ok, s) \<Rightarrow> (RBool ok, s))"
| "base_step H (Register i) (b, w) = Some (case register_thru_interface H i b w of (ok, s) \<Rightarrow> (RBool ok, s))"
| "base_step H (Unregister i) (b, w) = Some (RUnit, unregister_thru_interface H i b w)"
| "base_step H (Send p) (b, w) = Some (case base_send p b w of (ok, w) \<Rightarrow> (RBool ok, b, w))"
| "base_step H Read (b, w) = map_option (\<lambda>(out, w). (RPacket out, b, w)) (base_read H b w)"

fun base_run :: "('i, 'w) base_hooks \<Rightarrow> 'i base_op list \<Rightarrow> ('i, 'w) midi_base \<times> 'w \<Rightarrow> (base_result list \<times> ('i, 'w) midi_base \<times> 'w) option" where
  "base_run H [] s = Some ([], s)"
| "base_run H (x # xs) s =
     (case base_step H x s of
        None \<Rightarrow> None
      | Some (r, s) \<Rightarrow> map_option (\<lambda>(rs, s). (r # rs, s)) (base_run H xs s))"

section \<open>A set of routes\<close>

text \<open>
  What the class promises: the routes are a set of at most \<open>N\<close> interfaces, and what is read is
  forwarded to each of them once, in some order. \<open>T\<close> is the bound transport.
\<close>

type_synonym ('i, 'w) routes = "bool \<times> 'i set \<times> 'w"

inductive route_step :: "nat \<Rightarrow> 'w transport \<Rightarrow> ('i, 'w) base_hooks \<Rightarrow> 'i base_op \<Rightarrow> ('i, 'w) routes \<Rightarrow> base_result \<Rightarrow> ('i, 'w) routes \<Rightarrow> bool"
  for N T H where
  route_init: "tr_init T w = (ok, w') \<Longrightarrow> route_step N T H Init (False, R, w) (RBool ok) (ok, R, w')"
| route_init_again: "route_step N T H Init (True, R, w) (RBool True) (True, R, w)"
| route_deinit: "set xs = R \<Longrightarrow> distinct xs \<Longrightarrow> tr_deinit T (fold (hk_disable_thru_route H) xs w) = (ok, w') \<Longrightarrow>
    route_step N T H Deinit (True, R, w) (RBool ok) (False, {}, w')"
| route_deinit_again: "route_step N T H Deinit (False, R, w) (RBool True) (False, R, w)"
| route_known: "i \<in> R \<Longrightarrow> route_step N T H (Register i) (st, R, w) (RBool True) (st, R, w)"
| route_refused: "i \<notin> R \<Longrightarrow> hk_enable_thru_route H i w = (False, w') \<Longrightarrow>
    route_step N T H (Register i) (st, R, w) (RBool False) (st, R, w')"
| route_add: "i \<notin> R \<Longrightarrow> hk_enable_thru_route H i w = (True, w') \<Longrightarrow> card R < N \<Longrightarrow>
    route_step N T H (Register i) (st, R, w) (RBool True) (st, insert i R, w')"
| route_full: "i \<notin> R \<Longrightarrow> hk_enable_thru_route H i w = (True, w') \<Longrightarrow> card R = N \<Longrightarrow>
    route_step N T H (Register i) (st, R, w) (RBool False) (st, R, hk_disable_thru_route H i w')"
| route_remove: "route_step N T H (Unregister i) (st, R, w) RUnit (st, R - {i}, hk_disable_thru_route H i w)"
| route_send: "tr_write T p w = (ok, w') \<Longrightarrow> route_step N T H (Send p) (st, R, w) (RBool ok) (st, R, w')"
| route_nothing: "tr_read T w = Some (None, w') \<Longrightarrow> route_step N T H Read (st, R, w) (RPacket None) (st, R, w')"
| route_read: "tr_read T w = Some (Some p, w') \<Longrightarrow> set xs = R \<Longrightarrow> distinct xs \<Longrightarrow>
    route_step N T H Read (st, R, w) (RPacket (Some p)) (st, R, fold (forward H p) xs w')"

inductive route_run :: "nat \<Rightarrow> 'w transport \<Rightarrow> ('i, 'w) base_hooks \<Rightarrow> 'i base_op list \<Rightarrow> ('i, 'w) routes \<Rightarrow> base_result list \<Rightarrow> ('i, 'w) routes \<Rightarrow> bool"
  for N T H where
  route_run_nil: "route_run N T H [] s [] s"
| route_run_cons: "route_step N T H x s r s' \<Longrightarrow> route_run N T H xs s' rs s'' \<Longrightarrow> route_run N T H (x # xs) s (r # rs) s''"

section \<open>The table implements the set\<close>

definition registered :: "'i option list \<Rightarrow> 'i list" where
  "registered ts = map the (filter (\<lambda>t. t \<noteq> None) ts)"

lemma registered_simps [simp]:
  "registered [] = []" "registered (None # ts) = registered ts" "registered (Some i # ts) = i # registered ts"
  by (simp_all add: registered_def)

lemma set_registered: "set (registered ts) = {i. Some i \<in> set ts}"
  by (induction ts rule: list.induct) (auto simp: registered_def image_iff)

lemma registered_length: "length (registered ts) \<le> length ts"
  by (simp add: registered_def)

lemma fold_registered: "foldl (\<lambda>w t. case t of None \<Rightarrow> w | Some i \<Rightarrow> f i w) w ts = fold f (registered ts) w"
proof (induction ts arbitrary: w)
  case (Cons t ts)
  then show ?case by (cases t) simp_all
qed simp

lemma store_Some:
  "store_interface i ts = Some ts' \<Longrightarrow> length ts' = length ts \<and> set (registered ts') = insert i (set (registered ts)) \<and>
    (distinct (registered ts) \<and> i \<notin> set (registered ts) \<longrightarrow> distinct (registered ts')) \<and> length (registered ts) < length ts"
proof (induction ts arbitrary: ts')
  case (Cons t ts)
  show ?case
  proof (cases t)
    case None
    then show ?thesis using Cons.prems registered_length [of ts] by auto
  next
    case (Some j)
    then show ?thesis using Cons.prems Cons.IH by auto
  qed
qed simp

lemma store_None: "store_interface i ts = None \<Longrightarrow> length (registered ts) = length ts"
proof (induction ts)
  case (Cons t ts)
  then show ?case by (cases t) auto
qed simp

lemma registered_clear: "registered (map (\<lambda>t. None) ts) = []"
  by (induction ts) simp_all

lemma registered_remove: "registered (map (\<lambda>t. if t = Some i then None else t) ts) = filter (\<lambda>j. j \<noteq> i) (registered ts)"
proof (induction ts)
  case (Cons t ts)
  then show ?case by (cases t) auto
qed simp

definition base_ok :: "nat \<Rightarrow> 'w transport \<Rightarrow> ('i, 'w) midi_base \<Rightarrow> bool" where
  "base_ok N T b \<longleftrightarrow> mb_transport b = Some T \<and> length (thru_interfaces b) = N \<and> distinct (registered (thru_interfaces b))"

definition base_routes :: "('i, 'w) midi_base \<times> 'w \<Rightarrow> ('i, 'w) routes" where
  "base_routes s = (mb_initialized (fst s), set (registered (thru_interfaces (fst s))), snd s)"

lemma base_step_routes:
  assumes "base_step H x (b, w) = Some (r, b', w')" "base_ok N T b"
  shows "route_step N T H x (base_routes (b, w)) r (base_routes (b', w')) \<and> base_ok N T b'"
proof -
  have ok: "mb_transport b = Some T" "length (thru_interfaces b) = N" "distinct (registered (thru_interfaces b))"
    using assms(2) by (simp_all add: base_ok_def)
  show ?thesis
  proof (cases x)
    case Init
    then show ?thesis using assms(1) ok
      by (cases "mb_initialized b") (auto simp: base_init_def if_bound_def base_routes_def base_ok_def
          intro: route_init route_init_again split: prod.splits bool.splits)
  next
    case Deinit
    then show ?thesis using assms(1) ok
      by (cases "mb_initialized b") (auto simp: base_deinit_def if_bound_def base_routes_def base_ok_def clear_interfaces_def
          fold_registered registered_clear Let_def intro: route_deinit [OF refl] route_deinit_again split: prod.splits)
  next
    case (Register i)
    show ?thesis
    proof (cases "Some i \<in> set (thru_interfaces b)")
      case True
      then show ?thesis using assms Register
        by (auto simp: register_thru_interface_def base_routes_def set_registered intro: route_known)
    next
      case False
      then have i: "i \<notin> set (registered (thru_interfaces b))" by (simp add: set_registered)
      obtain ok1 w1 where e: "hk_enable_thru_route H i w = (ok1, w1)" by (cases "hk_enable_thru_route H i w")
      show ?thesis
      proof (cases ok1)
        case False': False
        then show ?thesis using assms Register False e i
          by (auto simp: register_thru_interface_def base_routes_def intro: route_refused)
      next
        case True
        show ?thesis
        proof (cases "store_interface i (thru_interfaces b)")
          case None
          then have "card (set (registered (thru_interfaces b))) = N"
            using store_None [OF None] ok(2,3) by (simp add: distinct_card)
          then show ?thesis using assms Register False e i True None
            by (auto simp: register_thru_interface_def base_routes_def intro: route_full)
        next
          case (Some ts)
          have "card (set (registered (thru_interfaces b))) < N"
            using store_Some [OF Some] ok(2,3) by (simp add: distinct_card)
          then show ?thesis using assms(1) Register False e i True Some store_Some [OF Some] ok
            by (auto simp: register_thru_interface_def base_routes_def base_ok_def intro: route_add)
        qed
      qed
    qed
  next
    case (Unregister i)
    have r: "r = RUnit" "b' = b\<lparr>thru_interfaces := map (\<lambda>t. if t = Some i then None else t) (thru_interfaces b)\<rparr>"
      "w' = hk_disable_thru_route H i w" using assms(1) Unregister by (simp_all add: unregister_thru_interface_def Let_def)
    have "set (filter (\<lambda>j. j \<noteq> i) (registered (thru_interfaces b))) = set (registered (thru_interfaces b)) - {i}" by auto
    then have "base_routes (b', w') = (mb_initialized b, set (registered (thru_interfaces b)) - {i}, hk_disable_thru_route H i w)"
      by (simp add: base_routes_def r registered_remove)
    moreover have "base_ok N T b'" using ok by (simp add: base_ok_def r registered_remove)
    ultimately show ?thesis using route_remove [of N T H i] unfolding Unregister r(1) by (simp add: base_routes_def)
  next
    case (Send p)
    then show ?thesis using assms ok
      by (auto simp: base_send_def if_bound_def base_routes_def intro: route_send split: prod.splits)
  next
    case Read
    then show ?thesis using assms ok
      by (auto simp: base_read_def base_routes_def base_thru_def fold_registered intro: route_nothing route_read split: option.splits)
  qed
qed

lemma base_run_routes:
  assumes "base_run H xs (b, w) = Some (rs, b', w')" "base_ok N T b"
  shows "route_run N T H xs (base_routes (b, w)) rs (base_routes (b', w')) \<and> base_ok N T b'"
  using assms
proof (induction xs arbitrary: b w rs)
  case Nil
  then show ?case by (auto intro: route_run_nil)
next
  case (Cons x xs)
  obtain r b1 w1 rs1 where 1: "base_step H x (b, w) = Some (r, b1, w1)" "base_run H xs (b1, w1) = Some (rs1, b', w')" "rs = r # rs1"
    using Cons.prems(1) by (auto split: option.splits)
  note step = base_step_routes [OF 1(1) Cons.prems(2)]
  from Cons.IH [OF 1(2)] step show ?case unfolding 1(3) by (blast intro: route_run_cons)
qed

section \<open>Properties\<close>

text \<open>C22. From a new instance bound to a transport, every sequence of calls behaves as the set of routes
  does: at most \<open>N\<close> interfaces, no interface twice, and each packet read is forwarded once to each
  registered interface that is not bypassed.\<close>

theorem thru_routes_refine_set:
  assumes "base_run H ops (bind_transport T (base_new N), w) = Some (rs, b, w')"
  shows "route_run N T H ops (False, {}, w) rs (mb_initialized b, set (registered (thru_interfaces b)), w') \<and>
    length (registered (thru_interfaces b)) = card (set (registered (thru_interfaces b))) \<and> card (set (registered (thru_interfaces b))) \<le> N"
proof -
  have r: "registered (replicate N None) = []" for N by (induction N) simp_all
  have "base_ok N T (bind_transport T (base_new N))" by (simp add: base_ok_def bind_transport_def base_new_def r)
  note run = base_run_routes [OF assms this]
  then have "distinct (registered (thru_interfaces b))" "length (thru_interfaces b) = N" by (simp_all add: base_ok_def)
  then have "length (registered (thru_interfaces b)) = card (set (registered (thru_interfaces b)))"
    "card (set (registered (thru_interfaces b))) \<le> N"
    using registered_length [of "thru_interfaces b"] by (simp_all add: distinct_card)
  then show ?thesis using run by (simp add: base_routes_def bind_transport_def base_new_def r)
qed

text \<open>The transport and the interfaces of \<open>midi_base_test.cpp\<close>: packets to receive, and what the interfaces were given.\<close>

record fake_world =
  rx_packets :: "midi_ump list"
  thru_packets :: "(nat \<times> midi_ump) list"

definition fake_transport :: "fake_world transport" where
  "fake_transport = null_transport\<lparr>tr_supported := Pair True, tr_write := (\<lambda>packet. Pair True),
     tr_read := (\<lambda>w. Some (case rx_packets w of [] \<Rightarrow> (None, w) | p # ps \<Rightarrow> (Some p, w\<lparr>rx_packets := ps\<rparr>)))\<rparr>"

definition fake_hooks :: "(nat, fake_world) base_hooks" where
  "fake_hooks = default_hooks (\<lambda>i packet w. (True, w\<lparr>thru_packets := thru_packets w @ [(i, packet)]\<rparr>))"

theorem thru_routes_refine_set_witness:
  "route_run 2 fake_transport fake_hooks [Init, Register 1, Register 2, Register 3, Unregister 1, Register 2, Read]
     (False, {}, \<lparr>rx_packets = [empty_ump], thru_packets = []\<rparr>)
     [RBool True, RBool True, RBool True, RBool False, RUnit, RBool True, RPacket (Some empty_ump)]
     (True, {2}, \<lparr>rx_packets = [], thru_packets = [(2, empty_ump)]\<rparr>)"
proof -
  have "base_run fake_hooks [Init, Register 1, Register 2, Register 3, Unregister 1, Register 2, Read]
      (bind_transport fake_transport (base_new 2), \<lparr>rx_packets = [empty_ump], thru_packets = []\<rparr>) =
    Some ([RBool True, RBool True, RBool True, RBool False, RUnit, RBool True, RPacket (Some empty_ump)],
      \<lparr>mb_transport = Some fake_transport, thru_interfaces = [None, Some 2], mb_initialized = True\<rparr>,
      \<lparr>rx_packets = [], thru_packets = [(2, empty_ump)]\<rparr>)"
    by (simp add: bind_transport_def base_new_def base_init_def if_bound_def fake_transport_def null_transport_def fake_hooks_def
        default_hooks_def register_thru_interface_def unregister_thru_interface_def base_read_def base_thru_def forward_def
        numeral_2_eq_2)
  from thru_routes_refine_set [OF this] show ?thesis by simp
qed

end
