(* ===== verification/Midi1.thy ===== *)
theory Midi1
  imports Midi_Properties
begin

text \<open>
  The builders of MIDI 1 packets (\<open>midi/midi1.h\<close>): channel voice messages, system messages, SysEx and
  MMC, and the sequences of packets for 14-bit controllers and NRPN parameters. The message type of
  a template is an argument; its \<open>requires\<close> clause is a predicate.
\<close>

section \<open>Message types\<close>


definition SystemMessageType :: "message_type \<Rightarrow> bool" where
  "SystemMessageType t \<longleftrightarrow> t = SysCommonTimeCodeQuarterFrame \<or> t = SysCommonSongPosition \<or> t = SysCommonSongSelect \<or>
     t = SysCommonTuneRequest \<or> t = SysRealTimeClock \<or> t = SysRealTimeStart \<or> t = SysRealTimeContinue \<or> t = SysRealTimeStop \<or>
     t = SysRealTimeActiveSensing \<or> t = SysRealTimeSystemReset"

definition MmcMessageType :: "message_type \<Rightarrow> bool" where
  "MmcMessageType t \<longleftrightarrow> t = MmcPlay \<or> t = MmcStop \<or> t = MmcPause \<or> t = MmcRecordStart \<or> t = MmcRecordStop"

section \<open>Channel voice messages\<close>

definition channel_voice :: "ump_api \<Rightarrow> message_type \<Rightarrow> u8 \<Rightarrow> u8 \<Rightarrow> u8 \<Rightarrow> u8 \<Rightarrow> midi_ump" where
  "channel_voice A t grp channel d1 d2 =
     (let status = t OR (channel AND LOW_NIBBLE_MASK) in midi1_channel_voice_ump A grp status d1 d2)"




definition control_change :: "ump_api \<Rightarrow> u8 \<Rightarrow> u8 \<Rightarrow> u8 \<Rightarrow> u8 \<Rightarrow> midi_ump" where
  "control_change A grp channel control_number control_value = channel_voice A ControlChange grp channel control_number control_value"

text \<open>The controller number is 16 bits wide and is cut to eight by the call.\<close>

definition control_change_14bit :: "ump_api \<Rightarrow> u8 \<Rightarrow> u8 \<Rightarrow> u16 \<Rightarrow> u16 \<Rightarrow> midi_ump list" where
  "control_change_14bit A grp channel control_number control_value =
     (case split14 control_value of (high, low) \<Rightarrow>
        [control_change A grp channel (ucast control_number) high,
         control_change A grp channel (ucast (control_number + ucast CONTROL_CHANGE_LSB_OFFSET)) low])"



definition pitch_bend :: "ump_api \<Rightarrow> u8 \<Rightarrow> u8 \<Rightarrow> u16 \<Rightarrow> midi_ump" where
  "pitch_bend A grp channel pitch_value =
     (case split14 (pitch_value AND MAX_VALUE_14BIT) of (high, low) \<Rightarrow> channel_voice A PitchBend grp channel low high)"

section \<open>System messages\<close>













section \<open>SysEx and NRPN\<close>

definition sysex7_complete :: "ump_api \<Rightarrow> u8 \<Rightarrow> u8 list \<Rightarrow> midi_ump option" where
  "sysex7_complete A grp payload = sysex7_complete_ump A grp payload"

definition mmc :: "ump_api \<Rightarrow> message_type \<Rightarrow> u8 \<Rightarrow> u8 \<Rightarrow> midi_ump option" where
  "mmc A t grp device_id = sysex7_complete A grp [MMC_ALL_CALL_DEVICE_ID, device_id, MMC_SUB_ID, t]"

definition nrpn_7bit :: "ump_api \<Rightarrow> u8 \<Rightarrow> u8 \<Rightarrow> u16 \<Rightarrow> u8 \<Rightarrow> midi_ump list" where
  "nrpn_7bit A grp channel parameter_number val =
     (case split14 parameter_number of (high, low) \<Rightarrow>
        [control_change A grp channel NRPN_MSB_CONTROLLER high,
         control_change A grp channel NRPN_LSB_CONTROLLER low,
         control_change A grp channel DATA_ENTRY_MSB_CONTROLLER val])"

definition nrpn_14bit :: "ump_api \<Rightarrow> u8 \<Rightarrow> u8 \<Rightarrow> u16 \<Rightarrow> u16 \<Rightarrow> midi_ump list" where
  "nrpn_14bit A grp channel parameter_number val =
     (case split14 parameter_number of (high, low) \<Rightarrow> case split14 val of (value_high, value_low) \<Rightarrow>
        [control_change A grp channel NRPN_MSB_CONTROLLER high,
         control_change A grp channel NRPN_LSB_CONTROLLER low,
         control_change A grp channel DATA_ENTRY_MSB_CONTROLLER value_high,
         control_change A grp channel DATA_ENTRY_LSB_CONTROLLER value_low])"

section \<open>Builders make messages\<close>














lemma split14_parts: "split14 v = (take_bit 7 (ucast (drop_bit 7 v)), take_bit 7 (ucast v))"
  unfolding split14_bits by (auto intro!: bit_word_eqI simp: bit_simps)





text \<open>The controller numbers and data bytes of a list of control changes.\<close>

definition controls :: "ump_api \<Rightarrow> midi_ump list \<Rightarrow> (u8 \<times> u8) list" where
  "controls A ps = map (\<lambda>p. (UMP_MIDI1_P1 A p, UMP_MIDI1_P2 A p)) ps"

lemma control_fields:
  assumes "ump_macros A"
  shows "UMP_MIDI1_P1 A (control_change A g ch n v) = take_bit 7 n" "UMP_MIDI1_P2 A (control_change A g ch n v) = take_bit 7 v"
  by (simp_all add: control_change_def channel_voice_def Let_def ump_macros.voice_fields [OF assms])

lemma split14_merge: "split14 v = (h, l) \<Longrightarrow> take_bit 7 h = h \<and> take_bit 7 l = l \<and> merge14 h l = take_bit 14 v"
  using merge_split [of v] by (auto simp: split14_parts)

text \<open>The 14-bit values of NRPN parameters, of coarse and fine controllers and of pitch bends are in the packets: the
  two data bytes of a value merge to its low fourteen bits, under the controllers of the sequence.\<close>

theorem midi1_14bit_values:
  assumes "ump_macros A" "controller < 32"
  shows "(\<exists>ph pl vh vl. controls A (nrpn_14bit A g ch parameter v) =
        [(NRPN_MSB_CONTROLLER, ph), (NRPN_LSB_CONTROLLER, pl), (DATA_ENTRY_MSB_CONTROLLER, vh), (DATA_ENTRY_LSB_CONTROLLER, vl)] \<and>
      merge14 ph pl = take_bit 14 parameter \<and> merge14 vh vl = take_bit 14 v) \<and>
    (\<exists>ph pl. controls A (nrpn_7bit A g ch parameter d) =
        [(NRPN_MSB_CONTROLLER, ph), (NRPN_LSB_CONTROLLER, pl), (DATA_ENTRY_MSB_CONTROLLER, take_bit 7 d)] \<and>
      merge14 ph pl = take_bit 14 parameter) \<and>
    (\<exists>vh vl. controls A (control_change_14bit A g ch (ucast controller) v) = [(controller, vh), (controller + 32, vl)] \<and>
      merge14 vh vl = take_bit 14 v) \<and>
    merge14 (UMP_MIDI1_P2 A (pitch_bend A g ch v)) (UMP_MIDI1_P1 A (pitch_bend A g ch v)) = take_bit 14 v"
proof -
  obtain ph pl where p: "split14 parameter = (ph, pl)" by (cases "split14 parameter")
  obtain vh vl where v: "split14 v = (vh, vl)" by (cases "split14 v")
  note f = control_fields [OF assms(1)] and pm = split14_merge [OF p] and vm = split14_merge [OF v]
  have "unat controller < 32" using assms(2) by (simp add: word_less_nat_alt)
  then have "unat (controller + 32) = unat controller + 32" by (simp add: unat_word_ariths)
  then have "controller + 32 < 0x80" "controller < 0x80" using \<open>unat controller < 32\<close> by (simp_all add: word_less_nat_alt)
  moreover have "ucast (ucast controller + 32 :: u16) = controller + 32"
    by transfer (simp add: take_bit_eq_mod mod_simps mod_mod_cancel)
  ultimately have c: "take_bit 7 controller = controller" "take_bit 7 (ucast (ucast controller + 32 :: u16)) = controller + 32"
    by (simp_all add: take_bit_7_eq)
  have cc: "ucast (ucast controller :: u16) = controller" by (rule bit_word_eqI) (auto simp: bit_simps)
  have "take_bit 14 (v AND MAX_VALUE_14BIT) = take_bit 14 v" by (simp add: take_bit_eq_mask mask_eq_exp_minus_1)
  moreover obtain bh bl where b: "split14 (v AND MAX_VALUE_14BIT) = (bh, bl)" by (cases "split14 (v AND MAX_VALUE_14BIT)")
  ultimately have "merge14 bh bl = take_bit 14 v" "take_bit 7 bh = bh" "take_bit 7 bl = bl" using split14_merge [OF b] by simp_all
  then have "merge14 (UMP_MIDI1_P2 A (pitch_bend A g ch v)) (UMP_MIDI1_P1 A (pitch_bend A g ch v)) = take_bit 14 v"
    using b by (simp add: pitch_bend_def channel_voice_def Let_def ump_macros.voice_fields [OF assms(1)])
  then show ?thesis using p v pm vm c cc f by (simp add: controls_def nrpn_14bit_def nrpn_7bit_def control_change_14bit_def)
qed

theorem midi1_14bit_values_witness:
  "\<exists>ph pl vh vl. controls ump_layout (nrpn_14bit ump_layout 0 3 1000 16000) = [(99, ph), (98, pl), (6, vh), (38, vl)] \<and>
    merge14 ph pl = 1000 \<and> merge14 vh vl = 16000"
proof -
  have "(7 :: u8) < 32" by simp
  from midi1_14bit_values [OF ump_layout_macros this, of 0 3 1000 16000] show ?thesis by auto
qed

end
