(* ===== verification/Uart_Hw.thy ===== *)
theory Uart_Hw
  imports Ring_Buffer
begin

text \<open>
  The interrupt driven UART driver (\<open>drivers/uart/uart_common.h\<close>, \<open>uart_hw.cpp\<close>). The Zephyr device
  is a record of functions over its state \<open>'w\<close>, with the results of the Zephyr UART API, and the
  buffers are used through the interface \<open>RingBufferBase\<close>. The last section has \<open>write\<close> and \<open>read\<close>
  access by access, with the interrupt routine between any two accesses.
\<close>

section \<open>The buffers\<close>

record 'q ring_buffer_base =
  rbb_insert :: "u8 \<Rightarrow> 'q \<Rightarrow> bool \<times> 'q"
  rbb_peek :: "'q \<Rightarrow> u8 option"
  rbb_remove :: "'q \<Rightarrow> u8 option \<times> 'q"

text \<open>The class template \<open>uart::RingBuffer\<close>.\<close>

definition uart_ring_buffer :: "nat \<Rightarrow> bool \<Rightarrow> u8 ring_buffer ring_buffer_base" where
  "uart_ring_buffer MaxSize OverwriteOldest =
     \<lparr>rbb_insert = rb_insert MaxSize OverwriteOldest, rbb_peek = rb_peek MaxSize, rbb_remove = rb_remove MaxSize\<rparr>"

section \<open>The device and the state\<close>

record uart_settings =
  baudrate :: u32
  stop_bits :: nat

record 'w uart_device =
  device_is_ready :: "'w \<Rightarrow> bool"
  uart_configure :: "uart_settings \<Rightarrow> 'w \<Rightarrow> int \<times> 'w"
  uart_irq_callback_user_data_set :: "bool \<Rightarrow> 'w \<Rightarrow> int \<times> 'w"
  uart_irq_rx_enable :: "'w \<Rightarrow> 'w"
  uart_irq_rx_disable :: "'w \<Rightarrow> 'w"
  uart_irq_tx_enable :: "'w \<Rightarrow> 'w"
  uart_irq_tx_disable :: "'w \<Rightarrow> 'w"
  uart_irq_update :: "'w \<Rightarrow> 'w"
  uart_irq_is_pending :: "'w \<Rightarrow> int \<times> 'w"
  uart_irq_rx_ready :: "'w \<Rightarrow> int \<times> 'w"
  uart_irq_tx_ready :: "'w \<Rightarrow> int \<times> 'w"
  uart_fifo_read :: "'w \<Rightarrow> int \<times> u8 \<times> 'w"
  uart_fifo_fill :: "u8 \<Rightarrow> 'w \<Rightarrow> int \<times> 'w"

record 'q uart_config =
  cfg_settings :: uart_settings
  cfg_rx_buffer :: 'q
  cfg_tx_buffer :: 'q
  cfg_loopback :: bool

text \<open>The buffers of the configuration belong to the driver from \<open>init\<close> to \<open>deinit\<close>; \<open>None\<close> is a null pointer.\<close>

record ('q, 'w) uart_hw =
  uart_device :: "'w uart_device option"
  uart_initialized :: bool
  uart_loopback :: bool
  rx_buffer :: "'q option"
  tx_buffer :: "'q option"

definition uart_new :: "'w uart_device option \<Rightarrow> ('q, 'w) uart_hw" where
  "uart_new device =
     \<lparr>uart_device = device, uart_initialized = False, uart_loopback = False, rx_buffer = None, tx_buffer = None\<rparr>"

section \<open>Member functions\<close>

definition uart_apply_config :: "'w uart_device \<Rightarrow> 'q uart_config \<Rightarrow> ('q, 'w) uart_hw \<Rightarrow> 'w \<Rightarrow> bool \<times> ('q, 'w) uart_hw \<times> 'w" where
  "uart_apply_config D config u w =
     (case uart_configure D (cfg_settings config) w of (ret, w) \<Rightarrow>
        if ret \<noteq> 0 then (False, u, w)
        else case uart_irq_callback_user_data_set D True w of (ret, w) \<Rightarrow>
          if ret \<noteq> 0 then (False, u, w)
          else (True, u\<lparr>uart_loopback := cfg_loopback config, rx_buffer := Some (cfg_rx_buffer config),
            tx_buffer := Some (cfg_tx_buffer config)\<rparr>, w))"

definition uart_init :: "'q uart_config \<Rightarrow> ('q, 'w) uart_hw \<Rightarrow> 'w \<Rightarrow> bool \<times> ('q, 'w) uart_hw \<times> 'w" where
  "uart_init config u w =
     (case uart_device u of
        None \<Rightarrow> (False, u, w)
      | Some D \<Rightarrow>
          if \<not> device_is_ready D w then (False, u, w)
          else if uart_initialized u then (False, u, w)
          else case uart_apply_config D config u w of
                 (False, u, w) \<Rightarrow> (False, u, w)
               | (True, u, w) \<Rightarrow> (True, u\<lparr>uart_initialized := True\<rparr>, uart_irq_rx_enable D w))"

definition uart_shutdown :: "('q, 'w) uart_hw \<Rightarrow> 'w \<Rightarrow> bool \<times> ('q, 'w) uart_hw \<times> 'w" where
  "uart_shutdown u w =
     (if \<not> uart_initialized u then (True, u, w)
      else let w = (case uart_device u of
                      None \<Rightarrow> w
                    | Some D \<Rightarrow>
                        if device_is_ready D w
                        then let w = uart_irq_rx_disable D w;
                                 w = uart_irq_tx_disable D w
                             in snd (uart_irq_callback_user_data_set D False w)
                        else w)
           in (True, u\<lparr>uart_initialized := False, uart_loopback := False, rx_buffer := None, tx_buffer := None\<rparr>, w))"

definition uart_deinit :: "('q, 'w) uart_hw \<Rightarrow> 'w \<Rightarrow> bool \<times> ('q, 'w) uart_hw \<times> 'w" where
  "uart_deinit u w = uart_shutdown u w"

text \<open>An initialised driver has a device.\<close>

definition uart_write :: "'q ring_buffer_base \<Rightarrow> u8 \<Rightarrow> ('q, 'w) uart_hw \<Rightarrow> 'w \<Rightarrow> bool \<times> ('q, 'w) uart_hw \<times> 'w" where
  "uart_write B d u w =
     (case (uart_initialized u, tx_buffer u, uart_device u) of
        (True, Some q, Some D) \<Rightarrow>
          (case rbb_insert B d q of
             (False, q) \<Rightarrow> (False, u\<lparr>tx_buffer := Some q\<rparr>, w)
           | (True, q) \<Rightarrow> (True, u\<lparr>tx_buffer := Some q\<rparr>, uart_irq_tx_enable D w))
      | _ \<Rightarrow> (False, u, w))"

definition uart_read :: "'q ring_buffer_base \<Rightarrow> ('q, 'w) uart_hw \<Rightarrow> u8 option \<times> ('q, 'w) uart_hw" where
  "uart_read B u =
     (case (uart_initialized u, rx_buffer u) of
        (True, Some q) \<Rightarrow> (case rbb_remove B q of (d, q) \<Rightarrow> (d, u\<lparr>rx_buffer := Some q\<rparr>))
      | _ \<Rightarrow> (None, u))"

section \<open>The interrupt routine\<close>

text \<open>
  The loops run as long as the device has something for them, so they may not end. The state is
  the receive buffer, the transmit buffer and the device.
\<close>

definition uart_receive ::
    "'q ring_buffer_base \<Rightarrow> 'q ring_buffer_base \<Rightarrow> 'w uart_device \<Rightarrow> bool \<Rightarrow> u8 \<Rightarrow> 'q \<times> 'q \<times> 'w \<Rightarrow> 'q \<times> 'q \<times> 'w" where
  "uart_receive BR BT D loopback d s =
     (case s of (rx, tx, w) \<Rightarrow>
        let rx = snd (rbb_insert BR d rx)
        in if loopback
           then (case rbb_insert BT d tx of
                   (True, tx) \<Rightarrow> (rx, tx, uart_irq_tx_enable D w)
                 | (False, tx) \<Rightarrow> (rx, tx, w))
           else (rx, tx, w))"

partial_function (option) uart_rx_loop ::
    "'q ring_buffer_base \<Rightarrow> 'q ring_buffer_base \<Rightarrow> 'w uart_device \<Rightarrow> bool \<Rightarrow> 'q \<times> 'q \<times> 'w \<Rightarrow> ('q \<times> 'q \<times> 'w) option" where
  "uart_rx_loop BR BT D loopback s =
     (case s of (rx, tx, w) \<Rightarrow>
        case uart_fifo_read D w of (bytes_received, d, w) \<Rightarrow>
          if bytes_received \<le> 0 then Some (rx, tx, w)
          else uart_rx_loop BR BT D loopback (uart_receive BR BT D loopback d (rx, tx, w)))"

partial_function (option) uart_isr_loop ::
    "'q ring_buffer_base \<Rightarrow> 'q ring_buffer_base \<Rightarrow> 'w uart_device \<Rightarrow> bool \<Rightarrow> 'q \<times> 'q \<times> 'w \<Rightarrow> ('q \<times> 'q \<times> 'w) option" where
  "uart_isr_loop BR BT D loopback s =
     (case s of (rx, tx, w) \<Rightarrow>
      case uart_irq_is_pending D (uart_irq_update D w) of (pending_result, w) \<Rightarrow>
        if pending_result \<le> 0 then Some (rx, tx, w)
        else case uart_irq_rx_ready D w of (rx_ready, w) \<Rightarrow>
          if rx_ready < 0 then Some (rx, tx, w)
          else Option.bind (if rx_ready > 0 then uart_rx_loop BR BT D loopback (rx, tx, w) else Some (rx, tx, w)) (\<lambda>(rx, tx, w).
            case uart_irq_tx_ready D w of (tx_ready, w) \<Rightarrow>
              if tx_ready < 0 then Some (rx, tx, w)
              else if tx_ready > 0
              then (case rbb_peek BT tx of
                      None \<Rightarrow> uart_isr_loop BR BT D loopback (rx, tx, uart_irq_tx_disable D w)
                    | Some d \<Rightarrow>
                        (case uart_fifo_fill D d w of (bytes_written, w) \<Rightarrow>
                           if bytes_written < 0 then Some (rx, tx, uart_irq_tx_disable D w)
                           else if bytes_written = 0 then Some (rx, tx, w)
                           else uart_isr_loop BR BT D loopback (rx, snd (rbb_remove BT tx), w)))
              else uart_isr_loop BR BT D loopback (rx, tx, w)))"

definition uart_isr ::
    "'q ring_buffer_base \<Rightarrow> 'q ring_buffer_base \<Rightarrow> ('q, 'w) uart_hw \<Rightarrow> 'w \<Rightarrow> (('q, 'w) uart_hw \<times> 'w) option" where
  "uart_isr BR BT u w =
     (case (uart_initialized u, rx_buffer u, tx_buffer u, uart_device u) of
        (True, Some rx, Some tx, Some D) \<Rightarrow>
          map_option (\<lambda>(rx, tx, w). (u\<lparr>rx_buffer := Some rx, tx_buffer := Some tx\<rparr>, w))
            (uart_isr_loop BR BT D (uart_loopback u) (rx, tx, w))
      | _ \<Rightarrow> Some (u, w))"

section \<open>The calls, access by access\<close>

text \<open>
  \<open>write\<close> and \<open>read\<close> hold the mutex, so one of them runs at a time, but the interrupt routine is not
  kept out. With the buffers of \<open>uart::RingBuffer\<close> (the transmit buffer without \<open>OverwriteOldest\<close>), a
  call is a sequence of loads and stores, and \<open>uart_call\<close> is where it stands: the index \<open>next\<close> or the
  values it has loaded so far. The routine runs to its end between two accesses, as on one core.
\<close>

datatype uart_call =
    UIdle
  | UTxTail u8 nat
  | UTxStore u8 nat
  | UTxHead u8 nat
  | UTxEnable u8
  | URxTail nat
  | URxValue nat
  | URxStoreTail nat u8

datatype uart_event = UWrite u8 | URead | UAccess | UIsr

datatype uart_result = UWrote u8 bool | UGot "u8 option" | URunning

text \<open>The checks of the call and the first load of the buffer.\<close>

definition uart_write_begin :: "nat \<Rightarrow> u8 \<Rightarrow> (u8 ring_buffer, 'w) uart_hw \<Rightarrow> uart_result \<times> uart_call" where
  "uart_write_begin M d u =
     (case (uart_initialized u, tx_buffer u, uart_device u) of
        (True, Some q, Some D) \<Rightarrow> (URunning, UTxTail d (rb_next M (rb_head q)))
      | _ \<Rightarrow> (UWrote d False, UIdle))"

definition uart_read_begin :: "(u8 ring_buffer, 'w) uart_hw \<Rightarrow> uart_result \<times> uart_call" where
  "uart_read_begin u =
     (case (uart_initialized u, rx_buffer u) of
        (True, Some q) \<Rightarrow> (URunning, URxTail (rb_head q))
      | _ \<Rightarrow> (UGot None, UIdle))"

text \<open>The accesses of \<open>insert\<close> after the load of the head, and the transmit interrupt.\<close>

fun uart_write_access :: "'w uart_device \<Rightarrow> uart_call \<Rightarrow> u8 ring_buffer \<Rightarrow> 'w \<Rightarrow> uart_result \<times> uart_call \<times> u8 ring_buffer \<times> 'w" where
  "uart_write_access D (UTxTail d next) q w =
     (if rb_tail q = next then (UWrote d False, UIdle, q, w) else (URunning, UTxStore d next, q, w))"
| "uart_write_access D (UTxStore d next) q w = (URunning, UTxHead d next, q\<lparr>rb_buffer := (rb_buffer q)[next := d]\<rparr>, w)"
| "uart_write_access D (UTxHead d next) q w = (URunning, UTxEnable d, q\<lparr>rb_head := next\<rparr>, w)"
| "uart_write_access D (UTxEnable d) q w = (UWrote d True, UIdle, q, uart_irq_tx_enable D w)"
| "uart_write_access D c q w = (URunning, c, q, w)"

text \<open>The accesses of \<open>remove\<close> after the load of the head.\<close>

fun uart_read_access :: "nat \<Rightarrow> uart_call \<Rightarrow> u8 ring_buffer \<Rightarrow> uart_result \<times> uart_call \<times> u8 ring_buffer" where
  "uart_read_access K (URxTail head) q =
     (if head = rb_tail q then (UGot None, UIdle, q) else (URunning, URxValue (rb_next K (rb_tail q)), q))"
| "uart_read_access K (URxValue next) q = (URunning, URxStoreTail next (rb_buffer q ! next), q)"
| "uart_read_access K (URxStoreTail next v) q = (UGot (Some v), UIdle, q\<lparr>rb_tail := next\<rparr>)"
| "uart_read_access K c q = (URunning, c, q)"

fun uart_writing :: "uart_call \<Rightarrow> bool" where
  "uart_writing (UTxTail d n) = True"
| "uart_writing (UTxStore d n) = True"
| "uart_writing (UTxHead d n) = True"
| "uart_writing (UTxEnable d) = True"
| "uart_writing c = False"

text \<open>A call that finds the mutex taken waits; the buffers are those of an initialised driver.\<close>

fun uart_step :: "nat \<Rightarrow> bool \<Rightarrow> nat \<Rightarrow> uart_event \<Rightarrow> uart_call \<times> (u8 ring_buffer, 'w) uart_hw \<times> 'w \<Rightarrow>
    (uart_result \<times> uart_call \<times> (u8 ring_buffer, 'w) uart_hw \<times> 'w) option" where
  "uart_step K ow M (UWrite d) (c, u, w) =
     Some (if c = UIdle then (case uart_write_begin M d u of (r, c) \<Rightarrow> (r, c, u, w)) else (URunning, c, u, w))"
| "uart_step K ow M URead (c, u, w) =
     Some (if c = UIdle then (case uart_read_begin u of (r, c) \<Rightarrow> (r, c, u, w)) else (URunning, c, u, w))"
| "uart_step K ow M UAccess (c, u, w) =
     Some (case (rx_buffer u, tx_buffer u, uart_device u) of
        (Some rx, Some tx, Some D) \<Rightarrow>
          if uart_writing c
          then (case uart_write_access D c tx w of (r, c, tx, w) \<Rightarrow> (r, c, u\<lparr>tx_buffer := Some tx\<rparr>, w))
          else (case uart_read_access K c rx of (r, c, rx) \<Rightarrow> (r, c, u\<lparr>rx_buffer := Some rx\<rparr>, w))
      | _ \<Rightarrow> (URunning, c, u, w))"
| "uart_step K ow M UIsr (c, u, w) =
     map_option (\<lambda>(u, w). (URunning, c, u, w)) (uart_isr (uart_ring_buffer K ow) (uart_ring_buffer M False) u w)"

fun uart_run :: "nat \<Rightarrow> bool \<Rightarrow> nat \<Rightarrow> uart_event list \<Rightarrow> uart_call \<times> (u8 ring_buffer, 'w) uart_hw \<times> 'w \<Rightarrow>
    (uart_result list \<times> uart_call \<times> (u8 ring_buffer, 'w) uart_hw \<times> 'w) option" where
  "uart_run K ow M [] s = Some ([], s)"
| "uart_run K ow M (e # es) s =
     (case uart_step K ow M e s of
        None \<Rightarrow> None
      | Some (r, s) \<Rightarrow> map_option (\<lambda>(rs, s). (r # rs, s)) (uart_run K ow M es s))"

text \<open>No interrupt comes while a \<open>write\<close> is in progress.\<close>

fun uart_writes_undisturbed :: "nat \<Rightarrow> bool \<Rightarrow> nat \<Rightarrow> uart_event list \<Rightarrow> uart_call \<times> (u8 ring_buffer, 'w) uart_hw \<times> 'w \<Rightarrow> bool" where
  "uart_writes_undisturbed K ow M [] s = True"
| "uart_writes_undisturbed K ow M (e # es) s =
     (\<not> (e = UIsr \<and> uart_writing (fst s)) \<and>
      (case uart_step K ow M e s of None \<Rightarrow> True | Some (r, s) \<Rightarrow> uart_writes_undisturbed K ow M es s))"

end
