(* ===== verification/Uart_Isr.thy ===== *)
theory Uart_Isr
  imports Uart_Hw "HOL-Library.Sublist"
begin

text \<open>
  What a run of the interrupt routine of the UART driver does to the line and to the two buffers. The
  locale \<open>uart_buffers\<close> is what the routine needs of the transmit buffer, and is interpreted on the
  ring buffers; \<open>wires_ok\<close> states what the device does to the line.
\<close>

section \<open>The line\<close>

text \<open>\<open>wires w\<close> are the bytes put on the line and the bytes taken from it so far.\<close>

definition wires_ok :: "'w uart_device \<Rightarrow> ('w \<Rightarrow> u8 list \<times> u8 list) \<Rightarrow> bool" where
  "wires_ok D wires \<longleftrightarrow>
     (\<forall>w. wires (uart_irq_tx_enable D w) = wires w \<and> wires (uart_irq_tx_disable D w) = wires w \<and>
       wires (uart_irq_update D w) = wires w \<and> wires (snd (uart_irq_is_pending D w)) = wires w \<and>
       wires (snd (uart_irq_rx_ready D w)) = wires w \<and> wires (snd (uart_irq_tx_ready D w)) = wires w) \<and>
     (\<forall>w. case uart_fifo_read D w of (n, d, w') \<Rightarrow>
        wires w' = (fst (wires w), snd (wires w) @ (if 0 < n then [d] else []))) \<and>
     (\<forall>d w. case uart_fifo_fill D d w of (n, w') \<Rightarrow>
        wires w' = (fst (wires w) @ (if 0 < n then [d] else []), snd (wires w)))"

lemma wires_simps:
  assumes "wires_ok D wires"
  shows "wires (uart_irq_tx_enable D w) = wires w" "wires (uart_irq_tx_disable D w) = wires w" "wires (uart_irq_update D w) = wires w"
    "uart_irq_is_pending D w = (n, w') \<Longrightarrow> wires w' = wires w" "uart_irq_rx_ready D w = (n, w') \<Longrightarrow> wires w' = wires w"
    "uart_irq_tx_ready D w = (n, w') \<Longrightarrow> wires w' = wires w"
    "uart_fifo_read D w = (n, d, w') \<Longrightarrow> wires w' = (fst (wires w), snd (wires w) @ (if 0 < n then [d] else []))"
    "uart_fifo_fill D d w = (n, w') \<Longrightarrow> wires w' = (fst (wires w) @ (if 0 < n then [d] else []), snd (wires w))"
proof -
  from assms have s: "\<And>w. wires (snd (uart_irq_is_pending D w)) = wires w" "\<And>w. wires (snd (uart_irq_rx_ready D w)) = wires w"
    "\<And>w. wires (snd (uart_irq_tx_ready D w)) = wires w"
    "\<And>w. case uart_fifo_read D w of (n, d, w') \<Rightarrow> wires w' = (fst (wires w), snd (wires w) @ (if 0 < n then [d] else []))"
    "\<And>d w. case uart_fifo_fill D d w of (n, w') \<Rightarrow> wires w' = (fst (wires w) @ (if 0 < n then [d] else []), snd (wires w))"
    "\<And>w. wires (uart_irq_tx_enable D w) = wires w" "\<And>w. wires (uart_irq_tx_disable D w) = wires w" "\<And>w. wires (uart_irq_update D w) = wires w"
    unfolding wires_ok_def by simp_all
  show "wires (uart_irq_tx_enable D w) = wires w" "wires (uart_irq_tx_disable D w) = wires w" "wires (uart_irq_update D w) = wires w"
    by (rule s)+
  show "uart_irq_is_pending D w = (n, w') \<Longrightarrow> wires w' = wires w" using s(1) [of w] by simp
  show "uart_irq_rx_ready D w = (n, w') \<Longrightarrow> wires w' = wires w" using s(2) [of w] by simp
  show "uart_irq_tx_ready D w = (n, w') \<Longrightarrow> wires w' = wires w" using s(3) [of w] by simp
  show "uart_fifo_read D w = (n, d, w') \<Longrightarrow> wires w' = (fst (wires w), snd (wires w) @ (if 0 < n then [d] else []))"
    using s(4) [of w] by simp
  show "uart_fifo_fill D d w = (n, w') \<Longrightarrow> wires w' = (fst (wires w) @ (if 0 < n then [d] else []), snd (wires w))"
    using s(5) [where w = w and d = d] by simp
qed

lemma insert_all_append: "insert_all ins (xs @ ys) q = insert_all ins ys (insert_all ins xs q)"
  by (induction xs arbitrary: q) simp_all

section \<open>The buffers\<close>

text \<open>What the interrupt routine needs of the buffer it also removes from.\<close>

locale uart_buffers =
  fixes BR BT :: "'q ring_buffer_base" and tx_list :: "'q \<Rightarrow> u8 list" and tx_inv :: "'q \<Rightarrow> bool"
  assumes tx_insert: "tx_inv q \<Longrightarrow> rbb_insert BT d q = (ok, q') \<Longrightarrow> tx_inv q' \<and> tx_list q' = tx_list q @ (if ok then [d] else [])"
    and tx_remove: "tx_inv q \<Longrightarrow> rbb_remove BT q = (x, q') \<Longrightarrow> tx_inv q' \<and> tx_list q = (case x of None \<Rightarrow> [] | Some d \<Rightarrow> [d]) @ tx_list q'"
    and tx_peek: "tx_inv q \<Longrightarrow> rbb_peek BT q = fst (rbb_remove BT q)"
begin

definition tx_drop :: "'q \<Rightarrow> 'q" where
  "tx_drop q = snd (rbb_remove BT q)"

text \<open>What the interrupt routine does: bytes \<open>bs\<close> are taken from the line and inserted into the
  receive buffer, and \<open>es\<close> of them echoed; without loopback the transmit buffer is only removed from.\<close>

definition serves :: "('w \<Rightarrow> u8 list \<times> u8 list) \<Rightarrow> bool \<Rightarrow> 'q \<times> 'q \<times> 'w \<Rightarrow> 'q \<times> 'q \<times> 'w \<Rightarrow> bool" where
  "serves wires lb s s' \<longleftrightarrow> (case s of (rx, tx, w) \<Rightarrow> case s' of (rx', tx', w') \<Rightarrow>
     tx_inv tx \<longrightarrow> tx_inv tx' \<and> (\<exists>bs es.
       snd (wires w') = snd (wires w) @ bs \<and> rx' = insert_all (rbb_insert BR) bs rx \<and>
       fst (wires w') @ tx_list tx' = fst (wires w) @ tx_list tx @ es \<and> subseq es bs \<and>
       (\<not> lb \<longrightarrow> es = [] \<and> (\<exists>k. tx' = (tx_drop ^^ k) tx))))"

lemma serves_refl: "wires w' = wires w \<Longrightarrow> serves wires lb (rx, tx, w) (rx, tx, w')"
  by (auto simp: serves_def intro!: exI [of _ "[]"] exI [of _ "0 :: nat"])

lemma serves_trans:
  assumes "serves wires lb s1 s2" "serves wires lb s2 s3"
  shows "serves wires lb s1 s3"
proof -
  obtain rx1 tx1 w1 rx2 tx2 w2 rx3 tx3 w3 where s: "s1 = (rx1, tx1, w1)" "s2 = (rx2, tx2, w2)" "s3 = (rx3, tx3, w3)"
    by (metis prod_cases3)
  show ?thesis unfolding s serves_def split_conv
  proof
    assume inv: "tx_inv tx1"
    obtain bs es where 1: "tx_inv tx2" "snd (wires w2) = snd (wires w1) @ bs" "rx2 = insert_all (rbb_insert BR) bs rx1"
        "fst (wires w2) @ tx_list tx2 = fst (wires w1) @ tx_list tx1 @ es" "subseq es bs" "\<not> lb \<longrightarrow> es = [] \<and> (\<exists>k. tx2 = (tx_drop ^^ k) tx1)"
      using assms(1) inv unfolding s serves_def split_conv by blast
    obtain cs fs where 2: "tx_inv tx3" "snd (wires w3) = snd (wires w2) @ cs" "rx3 = insert_all (rbb_insert BR) cs rx2"
        "fst (wires w3) @ tx_list tx3 = fst (wires w2) @ tx_list tx2 @ fs" "subseq fs cs" "\<not> lb \<longrightarrow> fs = [] \<and> (\<exists>k. tx3 = (tx_drop ^^ k) tx2)"
      using assms(2) 1(1) unfolding s serves_def split_conv by blast
    have "rx3 = insert_all (rbb_insert BR) (bs @ cs) rx1" using 1(3) 2(3) by (simp add: insert_all_append)
    moreover have "fst (wires w3) @ tx_list tx3 = fst (wires w1) @ tx_list tx1 @ es @ fs"
      using 1(4) 2(4) by (metis append.assoc)
    moreover have "subseq (es @ fs) (bs @ cs)" using 1(5) 2(5) by (rule list_emb_append_mono)
    moreover have "\<not> lb \<longrightarrow> es @ fs = [] \<and> (\<exists>k. tx3 = (tx_drop ^^ k) tx1)"
      using 1(6) 2(6) by (metis append_Nil comp_apply funpow_add)
    ultimately show "tx_inv tx3 \<and> (\<exists>bs es. snd (wires w3) = snd (wires w1) @ bs \<and> rx3 = insert_all (rbb_insert BR) bs rx1 \<and>
       fst (wires w3) @ tx_list tx3 = fst (wires w1) @ tx_list tx1 @ es \<and> subseq es bs \<and>
       (\<not> lb \<longrightarrow> es = [] \<and> (\<exists>k. tx3 = (tx_drop ^^ k) tx1)))"
      using 1(2) 2(1,2) by (intro conjI exI [of _ "bs @ cs"] exI [of _ "es @ fs"]) simp_all
  qed
qed

lemma serves_receive:
  assumes "wires_ok D wires" "uart_fifo_read D w = (n, d, w')" "0 < n"
  shows "serves wires lb (rx, tx, w) (uart_receive BR BT D lb d (rx, tx, w'))"
proof -
  obtain ok tx' where ins: "rbb_insert BT d tx = (ok, tx')" by (cases "rbb_insert BT d tx")
  have w': "wires w' = (fst (wires w), snd (wires w) @ [d])" using wires_simps(7) [OF assms(1,2)] assms(3) by simp
  show ?thesis
    unfolding serves_def split_conv
    using ins w' tx_insert [of tx d ok tx'] wires_simps(1) [OF assms(1)]
    by (cases ok; cases lb) (auto simp: uart_receive_def Let_def intro!: exI [of _ "[d]"] exI [of _ "0 :: nat"])
qed

lemma rx_loop_serves:
  assumes ok: "wires_ok D wires" and ret: "uart_rx_loop BR BT D lb s = Some s'"
  shows "serves wires lb s s'"
proof -
  have "BR = BR \<and> BT = BT \<and> D = D \<and> lb = lb \<longrightarrow> serves wires lb s s'"
  proof (rule uart_rx_loop.raw_induct [where P = "\<lambda>BR' BT' D' lb' s s'. BR' = BR \<and> BT' = BT \<and> D' = D \<and> lb' = lb \<longrightarrow> serves wires lb s s'",
      OF _ ret], intro impI, elim conjE)
    fix f BR' BT' D' lb' s s'
    assume IH: "\<And>BR' BT' D' lb' s s'. f BR' BT' D' lb' s = Some s' \<Longrightarrow>
        BR' = BR \<and> BT' = BT \<and> D' = D \<and> lb' = lb \<longrightarrow> serves wires lb s s'"
      and step: "(case s of (rx, tx, w) \<Rightarrow> case uart_fifo_read D' w of (n, d, w) \<Rightarrow>
          if n \<le> 0 then Some (rx, tx, w) else f BR' BT' D' lb' (uart_receive BR' BT' D' lb' d (rx, tx, w))) = Some s'"
      and eqs: "BR' = BR" "BT' = BT" "D' = D" "lb' = lb"
    obtain rx tx w where s: "s = (rx, tx, w)" by (cases s)
    obtain n d w1 where r: "uart_fifo_read D w = (n, d, w1)" by (cases "uart_fifo_read D w")
    show "serves wires lb s s'"
    proof (cases "n \<le> 0")
      case True
      then show ?thesis using step wires_simps(7) [OF ok r] by (auto simp: s r eqs intro: serves_refl)
    next
      case False
      then have "serves wires lb s (uart_receive BR BT D lb d (rx, tx, w1))" using serves_receive [OF ok r] s by simp
      moreover have "serves wires lb (uart_receive BR BT D lb d (rx, tx, w1)) s'" using step False IH by (simp add: s r eqs)
      ultimately show ?thesis by (rule serves_trans)
    qed
  qed
  then show ?thesis by simp
qed

text \<open>A byte that the device accepts leaves the transmit buffer.\<close>

lemma serves_transmit:
  assumes ok: "wires_ok D wires" and peek: "rbb_peek BT tx = Some d" and fill: "uart_fifo_fill D d w = (n, w')" "0 < n"
  shows "serves wires lb (rx, tx, w) (rx, snd (rbb_remove BT tx), w')"
proof -
  obtain x tx' where r: "rbb_remove BT tx = (x, tx')" by (cases "rbb_remove BT tx")
  have w': "wires w' = (fst (wires w) @ [d], snd (wires w))" using wires_simps(8) [OF ok fill(1)] fill(2) by simp
  have "x = Some d \<and> tx_inv tx' \<and> tx_list tx = [d] @ tx_list tx'" if "tx_inv tx"
    using tx_remove [OF that r] tx_peek [OF that] peek r by (cases x) simp_all
  then show ?thesis unfolding serves_def split_conv using w' r
    by (auto simp: tx_drop_def intro!: exI [of _ "[]"] exI [of _ "1 :: nat"])
qed

text \<open>The second half of an iteration, before the loop goes on with \<open>f\<close>.\<close>

lemma serve_tail:
  assumes ok: "wires_ok D wires" and w4: "wires w4 = wires w3"
    and rest: "(if tr < (0 :: int) then Some (rx, tx, w4)
          else if tr > 0
          then (case rbb_peek BT tx of
                  None \<Rightarrow> f (rx, tx, uart_irq_tx_disable D w4)
                | Some d \<Rightarrow>
                    (case uart_fifo_fill D d w4 of (bytes_written, w) \<Rightarrow>
                       if bytes_written < 0 then Some (rx, tx, uart_irq_tx_disable D w)
                       else if bytes_written = 0 then Some (rx, tx, w)
                       else f (rx, snd (rbb_remove BT tx), w)))
          else f (rx, tx, w4)) = Some s'"
    and IH: "\<And>s. f s = Some s' \<Longrightarrow> serves wires lb s s'"
  shows "serves wires lb (rx, tx, w3) s'"
proof (cases "tr > 0")
  case False
  then have "s' = (rx, tx, w4) \<or> f (rx, tx, w4) = Some s'" using rest by (auto split: if_splits)
  then show ?thesis using serves_refl [of wires w4 w3, OF w4] IH serves_trans by blast
next
  case True
  show ?thesis
  proof (cases "rbb_peek BT tx")
    case None
    have "serves wires lb (rx, tx, w3) (rx, tx, uart_irq_tx_disable D w4)"
      by (rule serves_refl) (simp add: wires_simps [OF ok] w4)
    moreover have "f (rx, tx, uart_irq_tx_disable D w4) = Some s'" using rest True None by simp
    ultimately show ?thesis using IH serves_trans by blast
  next
    case (Some d)
    obtain n w5 where n: "uart_fifo_fill D d w4 = (n, w5)" by (cases "uart_fifo_fill D d w4")
    show ?thesis
    proof (cases "n > 0")
      case False
      then have "wires w5 = wires w3" using wires_simps(8) [OF ok n] w4 by simp
      moreover have "s' = (rx, tx, w5) \<or> s' = (rx, tx, uart_irq_tx_disable D w5)" using rest True Some n False by (auto split: if_splits)
      ultimately show ?thesis using wires_simps(2) [OF ok] by (auto intro!: serves_refl)
    next
      case True': True
      have "serves wires lb (rx, tx, w3) (rx, tx, w4)" by (rule serves_refl [of wires w4 w3, OF w4])
      moreover have "serves wires lb (rx, tx, w4) (rx, snd (rbb_remove BT tx), w5)" by (rule serves_transmit [OF ok Some n True'])
      moreover have "f (rx, snd (rbb_remove BT tx), w5) = Some s'" using rest True Some n True' by simp
      ultimately show ?thesis using IH serves_trans by blast
    qed
  qed
qed

lemma isr_loop_serves:
  assumes ok: "wires_ok D wires" and ret: "uart_isr_loop BR BT D lb s = Some s'"
  shows "serves wires lb s s'"
proof -
  have "BR = BR \<and> BT = BT \<and> D = D \<and> lb = lb \<longrightarrow> serves wires lb s s'"
  proof (rule uart_isr_loop.raw_induct [where P = "\<lambda>BR' BT' D' lb' s s'. BR' = BR \<and> BT' = BT \<and> D' = D \<and> lb' = lb \<longrightarrow> serves wires lb s s'",
      OF _ ret], intro impI, elim conjE)
    fix f BR' BT' D' lb' s s'
    assume IH: "\<And>BR' BT' D' lb' s s'. f BR' BT' D' lb' s = Some s' \<Longrightarrow>
        BR' = BR \<and> BT' = BT \<and> D' = D \<and> lb' = lb \<longrightarrow> serves wires lb s s'"
      and step: "(case s of (rx, tx, w) \<Rightarrow>
      case uart_irq_is_pending D' (uart_irq_update D' w) of (pending_result, w) \<Rightarrow>
        if pending_result \<le> 0 then Some (rx, tx, w)
        else case uart_irq_rx_ready D' w of (rx_ready, w) \<Rightarrow>
          if rx_ready < 0 then Some (rx, tx, w)
          else Option.bind (if rx_ready > 0 then uart_rx_loop BR' BT' D' lb' (rx, tx, w) else Some (rx, tx, w)) (\<lambda>(rx, tx, w).
            case uart_irq_tx_ready D' w of (tx_ready, w) \<Rightarrow>
              if tx_ready < 0 then Some (rx, tx, w)
              else if tx_ready > 0
              then (case rbb_peek BT' tx of
                      None \<Rightarrow> f BR' BT' D' lb' (rx, tx, uart_irq_tx_disable D' w)
                    | Some d \<Rightarrow>
                        (case uart_fifo_fill D' d w of (bytes_written, w) \<Rightarrow>
                           if bytes_written < 0 then Some (rx, tx, uart_irq_tx_disable D' w)
                           else if bytes_written = 0 then Some (rx, tx, w)
                           else f BR' BT' D' lb' (rx, snd (rbb_remove BT' tx), w)))
              else f BR' BT' D' lb' (rx, tx, w))) = Some s'"
      and eqs: "BR' = BR" "BT' = BT" "D' = D" "lb' = lb"
    note step = step [unfolded eqs]
    have IH: "f BR BT D lb s = Some s' \<Longrightarrow> serves wires lb s s'" for s s' using IH by blast
    obtain rx tx w where s: "s = (rx, tx, w)" by (cases s)
    obtain p w1 where p: "uart_irq_is_pending D (uart_irq_update D w) = (p, w1)" by (cases "uart_irq_is_pending D (uart_irq_update D w)")
    have w1: "wires w1 = wires w" using wires_simps(4) [OF ok p] wires_simps(3) [OF ok] by simp
    obtain rr w2 where rr: "uart_irq_rx_ready D w1 = (rr, w2)" by (cases "uart_irq_rx_ready D w1")
    have w2: "wires w2 = wires w" using wires_simps(5) [OF ok rr] w1 by simp
    show "serves wires lb s s'"
    proof (cases "p \<le> 0 \<or> rr < 0")
      case True
      then have "s' = (rx, tx, w1) \<or> s' = (rx, tx, w2)" using step by (auto simp: s p rr eqs split: if_splits)
      then show ?thesis using w1 w2 s by (auto intro: serves_refl)
    next
      case False
      then obtain rx3 tx3 w3 where m: "(if rr > 0 then uart_rx_loop BR BT D lb (rx, tx, w2) else Some (rx, tx, w2)) = Some (rx3, tx3, w3)"
        using step by (auto simp: s p rr eqs bind_eq_Some_conv simp del: split_paired_Ex)
      have s3: "serves wires lb s (rx3, tx3, w3)"
      proof (cases "rr > 0")
        case True
        then have "serves wires lb (rx, tx, w2) (rx3, tx3, w3)" using m rx_loop_serves [OF ok] by simp
        moreover have "serves wires lb s (rx, tx, w2)" unfolding s by (rule serves_refl [of wires w2 w, OF w2])
        ultimately show ?thesis by (rule serves_trans [rotated])
      next
        case False
        then show ?thesis using m w2 s by (auto intro: serves_refl)
      qed
      obtain tr w4 where tr: "uart_irq_tx_ready D w3 = (tr, w4)" by (cases "uart_irq_tx_ready D w3")
      have w4: "wires w4 = wires w3" by (rule wires_simps(6) [OF ok tr])
      have rest: "(if tr < 0 then Some (rx3, tx3, w4)
          else if tr > 0
          then (case rbb_peek BT tx3 of
                  None \<Rightarrow> f BR BT D lb (rx3, tx3, uart_irq_tx_disable D w4)
                | Some d \<Rightarrow>
                    (case uart_fifo_fill D d w4 of (bytes_written, w) \<Rightarrow>
                       if bytes_written < 0 then Some (rx3, tx3, uart_irq_tx_disable D w)
                       else if bytes_written = 0 then Some (rx3, tx3, w)
                       else f BR BT D lb (rx3, snd (rbb_remove BT tx3), w)))
          else f BR BT D lb (rx3, tx3, w4)) = Some s'"
        using step False m by (simp add: s p rr tr)
      have "serves wires lb (rx3, tx3, w3) s'"
        by (rule serve_tail [OF ok w4 rest]) (rule IH)
      with s3 show ?thesis by (rule serves_trans)
    qed
  qed
  then show ?thesis by simp
qed

end

section \<open>The ring buffers\<close>

lemma rb_insert_reject:
  assumes "rb_inv M q" "rb_insert M False d q = (ok, q')"
  shows "rb_inv M q' \<and> rb_list M q' = rb_list M q @ (if ok then [d] else [])"
proof (cases "rb_size M q < M")
  case True
  then show ?thesis using rb_insert_room [OF assms(1) True, of False d] rb_insert_inv [OF assms(1), of False d] assms(2) by simp
next
  case False
  then have "rb_size M q = M" using rb_size_le [OF assms(1)] by simp
  then show ?thesis using rb_insert_full_reject [OF assms(1), of d] assms by simp
qed

lemma rb_remove_list:
  assumes "rb_inv M q" "rb_remove M q = (x, q')"
  shows "rb_inv M q' \<and> rb_list M q = (case x of None \<Rightarrow> [] | Some d \<Rightarrow> [d]) @ rb_list M q'"
  using rb_remove_cases [OF assms(1)] rb_remove_inv [OF assms(1)] assms by (auto split: list.splits)

interpretation uart_rings: uart_buffers "uart_ring_buffer K ow" "uart_ring_buffer M False" "rb_list M" "rb_inv M"
  for K ow M
proof unfold_locales
  show "rb_inv M q' \<and> rb_list M q' = rb_list M q @ (if ok then [d] else [])"
    if "rb_inv M q" "rbb_insert (uart_ring_buffer M False) d q = (ok, q')" for q d ok q'
    using that unfolding uart_ring_buffer_def ring_buffer_base.simps by (rule rb_insert_reject)
  show "rb_inv M q' \<and> rb_list M q = (case x of None \<Rightarrow> [] | Some d \<Rightarrow> [d]) @ rb_list M q'"
    if "rb_inv M q" "rbb_remove (uart_ring_buffer M False) q = (x, q')" for q x q'
    using that unfolding uart_ring_buffer_def ring_buffer_base.simps by (rule rb_remove_list)
  show "rbb_peek (uart_ring_buffer M False) q = fst (rbb_remove (uart_ring_buffer M False) q)" for q
    unfolding uart_ring_buffer_def ring_buffer_base.simps by (rule rb_peek_remove)
qed

end
