(* ===== verification/Uart_Calls.thy ===== *)
theory Uart_Calls
  imports Uart_Isr
begin

text \<open>
  The calls of the UART driver in progress: where \<open>write\<close> and \<open>read\<close> stand, what the interrupt routine
  may have done to the buffers since, and the invariant of both. The receive buffer is related to the
  history of the bytes inserted into it, which says what a slot holds after it has been overwritten.
\<close>

section \<open>The history of a ring buffer\<close>

text \<open>The slots from the head backwards hold the newest bytes of the history.\<close>

definition rb_history :: "nat \<Rightarrow> 'a list \<Rightarrow> 'a ring_buffer \<Rightarrow> bool" where
  "rb_history M hist b \<longleftrightarrow> rb_inv M b \<and> rb_size M b \<le> length hist \<and>
     (\<forall>k < min (length hist) (STORAGE_SIZE M).
        rb_buffer b ! ((rb_head b + STORAGE_SIZE M - k) mod STORAGE_SIZE M) = hist ! (length hist - 1 - k))"

text \<open>The elements after slot \<open>p\<close>, up to the head.\<close>

definition rb_dist :: "nat \<Rightarrow> nat \<Rightarrow> 'a ring_buffer \<Rightarrow> nat" where
  "rb_dist M p b = (if rb_head b \<ge> p then rb_head b - p else STORAGE_SIZE M + rb_head b - p)"

lemma rb_size_dist: "rb_size M b = rb_dist M (rb_tail b) b"
  by (simp add: rb_size_def rb_dist_def)

lemma rb_history_new: "0 < M \<Longrightarrow> rb_history M [] (rb_new M z)"
  by (simp add: rb_history_def rb_inv_new) (simp add: rb_size_def rb_new_def)

lemma rb_dist_less: "rb_inv M b \<Longrightarrow> p < STORAGE_SIZE M \<Longrightarrow> rb_dist M p b < STORAGE_SIZE M"
  by (auto simp: rb_dist_def rb_inv_def)

lemma rb_dist_slot:
  assumes "rb_inv M b" "p < STORAGE_SIZE M"
  shows "(rb_head b + STORAGE_SIZE M - rb_dist M p b) mod STORAGE_SIZE M = p"
  using assms by (auto simp: rb_dist_def rb_inv_def)

lemma rb_history_slot:
  assumes "rb_history M hist b" "p < STORAGE_SIZE M" "rb_dist M p b < length hist"
  shows "rb_buffer b ! p = hist ! (length hist - 1 - rb_dist M p b)"
  using assms rb_dist_slot [of M b p] rb_dist_less [of M b p] unfolding rb_history_def by (metis min_less_iff_conj)

lemma rb_history_list:
  assumes h: "rb_history M hist b"
  shows "rb_list M b = drop (length hist - rb_size M b) hist"
proof (rule nth_equalityI)
  have inv: "rb_inv M b" and s: "rb_size M b \<le> length hist" using h by (auto simp: rb_history_def)
  show "length (rb_list M b) = length (drop (length hist - rb_size M b) hist)" using s by simp
  fix i assume "i < length (rb_list M b)"
  then have i: "i < rb_size M b" by simp
  let ?p = "(rb_tail b + 1 + i) mod STORAGE_SIZE M"
  have "?p < STORAGE_SIZE M" by (simp add: STORAGE_SIZE_def)
  moreover have d: "rb_dist M ?p b = rb_size M b - 1 - i"
  proof -
    have b: "rb_head b \<le> M" "rb_tail b \<le> M" using inv by (simp_all add: rb_inv_def STORAGE_SIZE_def)
    show ?thesis
    proof (cases "rb_tail b + 1 + i < STORAGE_SIZE M")
      case True
      then have "?p = rb_tail b + 1 + i" by simp
      then show ?thesis using True b i unfolding rb_dist_def rb_size_def STORAGE_SIZE_def by (cases "rb_tail b \<le> rb_head b") simp_all
    next
      case False
      then have "?p = rb_tail b + 1 + i - STORAGE_SIZE M" using b i rb_size_le [OF inv] by (simp add: mod_if STORAGE_SIZE_def)
      then show ?thesis using False b i unfolding rb_dist_def rb_size_def STORAGE_SIZE_def
        by (cases "rb_tail b \<le> rb_head b") (simp_all, arith+)
    qed
  qed
  ultimately have "rb_buffer b ! ?p = hist ! (length hist - 1 - (rb_size M b - 1 - i))"
    using rb_history_slot [OF h, of ?p] i s by simp
  then show "rb_list M b ! i = drop (length hist - rb_size M b) hist ! i" using i s by (simp add: rb_list_def)
qed

lemma rb_history_insert:
  assumes h: "rb_history M hist b" and ins: "rb_insert M ow x b = (True, b')"
  shows "rb_history M (hist @ [x]) b'" "rb_head b' \<noteq> rb_tail b'" "p < STORAGE_SIZE M \<Longrightarrow> rb_dist M p b' \<le> Suc (rb_dist M p b)"
    "rb_size M b' \<le> Suc (rb_size M b)"
proof -
  let ?S = "STORAGE_SIZE M" and ?h = "rb_next M (rb_head b)"
  have inv: "rb_inv M b" and s: "rb_size M b \<le> length hist"
    and slots: "k < length hist \<Longrightarrow> k < ?S \<Longrightarrow> rb_buffer b ! ((rb_head b + ?S - k) mod ?S) = hist ! (length hist - 1 - k)" for k
    using h by (auto simp: rb_history_def)
  have inv': "rb_inv M b'" using rb_insert_inv [OF inv, of ow x] ins by simp
  have b': "rb_head b' = ?h" "rb_buffer b' = (rb_buffer b)[?h := x]" "rb_tail b' = rb_tail b \<and> rb_tail b \<noteq> ?h \<or> rb_tail b = ?h \<and> rb_tail b' = rb_next M ?h"
  proof -
    have "b' = (if rb_tail b = ?h then b\<lparr>rb_tail := rb_next M ?h\<rparr> else b)\<lparr>rb_buffer := (rb_buffer b)[?h := x], rb_head := ?h\<rparr>"
      using ins unfolding rb_insert_def Let_def by (cases "rb_tail b = ?h"; cases ow) (simp_all add: eq_commute [of _ b'])
    then show "rb_head b' = ?h" "rb_buffer b' = (rb_buffer b)[?h := x]"
      "rb_tail b' = rb_tail b \<and> rb_tail b \<noteq> ?h \<or> rb_tail b = ?h \<and> rb_tail b' = rb_next M ?h"
      by (cases "rb_tail b = ?h"; simp)+
  qed
  have le: "rb_head b \<le> M" "rb_tail b \<le> M" using inv by (simp_all add: rb_inv_def STORAGE_SIZE_def)
  have M: "0 < M" using inv by (simp add: rb_inv_def)
  have nxt: "?h = (if rb_head b = M then 0 else rb_head b + 1)" "rb_next M ?h = (if ?h = M then 0 else ?h + 1)"
    using le by (simp_all add: rb_next_def STORAGE_SIZE_def)
  show "rb_head b' \<noteq> rb_tail b'" using b'(1,3) nxt(2) M by (metis Suc_eq_plus1 n_not_Suc_n neq0_conv)
  have dist: "rb_dist M p b' \<le> Suc (rb_dist M p b)" if "p < ?S" for p
    using that le b'(1) nxt(1) unfolding rb_dist_def STORAGE_SIZE_def by (cases "rb_head b = M") auto
  then show "p < ?S \<Longrightarrow> rb_dist M p b' \<le> Suc (rb_dist M p b)" .
  have size: "rb_size M b' \<le> Suc (rb_size M b)"
  proof (cases "rb_tail b' = rb_tail b")
    case True
    then show ?thesis using dist [of "rb_tail b"] inv unfolding rb_size_dist by (simp add: rb_inv_def)
  next
    case False
    then have "rb_size M b = M" using b'(3) rb_full_iff [OF inv] by simp
    then show ?thesis using rb_size_le [OF inv'] by simp
  qed
  then show "rb_size M b' \<le> Suc (rb_size M b)" .
  have "rb_buffer b' ! ((rb_head b' + ?S - k) mod ?S) = (hist @ [x]) ! (length hist - k)" if k: "k < Suc (length hist)" "k < ?S" for k
  proof (cases k)
    case 0
    then show ?thesis using b' inv by (simp add: rb_inv_def)
  next
    case (Suc j)
    have "(?h + ?S - k) mod ?S = (rb_head b + ?S - j) mod ?S"
    proof (cases "rb_head b = M")
      case True
      have "rb_head b + ?S - j = (M - j) + ?S" using True Suc k(2) by (simp add: STORAGE_SIZE_def)
      then have "(rb_head b + ?S - j) mod ?S = (M - j) mod ?S" by (metis mod_add_self2)
      then have "(rb_head b + ?S - j) mod ?S = M - j" by (simp add: STORAGE_SIZE_def)
      then show ?thesis using True Suc k(2) nxt(1) by (simp add: STORAGE_SIZE_def)
    next
      case False
      then have "?h + ?S - k = rb_head b + ?S - j" using nxt(1) Suc k(2) by (simp add: STORAGE_SIZE_def)
      then show ?thesis by (simp only:)
    qed
    moreover have "(?h + ?S - k) mod ?S \<noteq> ?h"
    proof (cases "?h < k")
      case True
      then show ?thesis using k(2) by simp
    next
      case False
      then have "?h + ?S - k = ?S + (?h - k)" by simp
      then have "(?h + ?S - k) mod ?S = ?h - k" using rb_next_less [of M "rb_head b"] by (simp add: less_imp_diff_less)
      then show ?thesis using False Suc by simp
    qed
    ultimately show ?thesis using slots [of j] k Suc b' by (auto simp: nth_append)
  qed
  then show "rb_history M (hist @ [x]) b'" using inv' size s by (simp add: rb_history_def)
qed

section \<open>A read in progress\<close>

text \<open>\<open>dl\<close> are the bytes returned so far: they come before every byte that is still to be returned.\<close>

definition reads_ok :: "nat \<Rightarrow> uart_call \<Rightarrow> u8 ring_buffer \<Rightarrow> u8 list \<Rightarrow> u8 list \<Rightarrow> bool" where
  "reads_ok K c rx hist dl \<longleftrightarrow> rb_history K hist rx \<and>
     (\<exists>n. subseq dl (take n hist) \<and> n + rb_size K rx \<le> length hist \<and>
       (case c of
          URxTail h \<Rightarrow> h = rb_tail rx \<or> rb_head rx \<noteq> rb_tail rx
        | URxValue p \<Rightarrow> p < STORAGE_SIZE K \<and> n + rb_dist K p rx < length hist
        | URxStoreTail p v \<Rightarrow> p < STORAGE_SIZE K \<and> (\<exists>m. subseq (dl @ [v]) (take m hist) \<and> m + rb_dist K p rx \<le> length hist)
        | _ \<Rightarrow> True))"

lemma subseq_take_append: "subseq xs (take n hist) \<Longrightarrow> n \<le> length hist \<Longrightarrow> subseq xs (take n (hist @ ys))"
  by simp

lemma reads_ok_insert:
  assumes ok: "reads_ok K c rx hist dl" and ins: "rb_insert K ow x rx = (acc, rx')"
  shows "reads_ok K c rx' (hist @ (if acc then [x] else [])) dl"
proof (cases acc)
  case False
  then have "rx' = rx" using ins by (auto simp: rb_insert_def Let_def split: if_splits)
  then show ?thesis using ok False by simp
next
  case True
  have h: "rb_history K hist rx" using ok by (simp add: reads_ok_def)
  note ins' = rb_history_insert [OF h ins [unfolded True [THEN eq_True [THEN iffD2]]]]
  obtain n where n: "subseq dl (take n hist)" "n + rb_size K rx \<le> length hist"
    and c: "case c of URxTail h \<Rightarrow> h = rb_tail rx \<or> rb_head rx \<noteq> rb_tail rx
        | URxValue p \<Rightarrow> p < STORAGE_SIZE K \<and> n + rb_dist K p rx < length hist
        | URxStoreTail p v \<Rightarrow> p < STORAGE_SIZE K \<and> (\<exists>m. subseq (dl @ [v]) (take m hist) \<and> m + rb_dist K p rx \<le> length hist)
        | _ \<Rightarrow> True"
    using ok unfolding reads_ok_def by blast
  have "subseq dl (take n (hist @ [x]))" "n + rb_size K rx' \<le> length (hist @ [x])" using n ins'(4) by simp_all
  moreover have "case c of URxTail h \<Rightarrow> h = rb_tail rx' \<or> rb_head rx' \<noteq> rb_tail rx'
        | URxValue p \<Rightarrow> p < STORAGE_SIZE K \<and> n + rb_dist K p rx' < length (hist @ [x])
        | URxStoreTail p v \<Rightarrow> p < STORAGE_SIZE K \<and> (\<exists>m. subseq (dl @ [v]) (take m (hist @ [x])) \<and> m + rb_dist K p rx' \<le> length (hist @ [x]))
        | _ \<Rightarrow> True"
  proof (cases c)
    case (URxStoreTail p v)
    then obtain m where m: "p < STORAGE_SIZE K" "subseq (dl @ [v]) (take m hist)" "m + rb_dist K p rx \<le> length hist" using c by auto
    then have "subseq (dl @ [v]) (take m (hist @ [x]))" "m + rb_dist K p rx' \<le> length (hist @ [x])"
      using ins'(3) [OF m(1)] by simp_all
    then show ?thesis using URxStoreTail m(1) by auto
  next
    case (URxValue p)
    then show ?thesis using c ins'(3) [of p] by simp
  qed (use c ins'(2) in simp_all)
  ultimately show ?thesis using ins'(1) True unfolding reads_ok_def by auto
qed

text \<open>An interrupt routine that receives \<open>bs\<close> extends the history by the bytes that found room.\<close>

lemma reads_ok_insert_all:
  "reads_ok K c rx hist dl \<Longrightarrow>
   \<exists>new. subseq new bs \<and> reads_ok K c (insert_all (rbb_insert (uart_ring_buffer K ow)) bs rx) (hist @ new) dl"
proof (induction bs arbitrary: rx hist)
  case (Cons x bs)
  obtain acc rx' where ins: "rb_insert K ow x rx = (acc, rx')" by (cases "rb_insert K ow x rx")
  from Cons.IH [OF reads_ok_insert [OF Cons.prems ins]] obtain new where
    new: "subseq new bs" "reads_ok K c (insert_all (rbb_insert (uart_ring_buffer K ow)) bs rx') (hist @ (if acc then [x] else []) @ new) dl"
    by auto
  have "subseq ((if acc then [x] else []) @ new) (x # bs)" using new(1) by (cases acc) (simp_all add: list_emb_Cons)
  then show ?case using new(2) ins by (auto simp: uart_ring_buffer_def)
qed (auto intro!: exI [of _ "[]"])

lemma reads_ok_contents:
  assumes "reads_ok K c rx hist dl"
  shows "subseq (dl @ rb_list K rx) hist"
proof -
  obtain n where n: "subseq dl (take n hist)" "n + rb_size K rx \<le> length hist" and h: "rb_history K hist rx"
    using assms by (auto simp: reads_ok_def)
  have "subseq dl (take (length hist - rb_size K rx) hist)"
  proof -
    have "take n hist = take n (take (length hist - rb_size K rx) hist)" using n(2) by (simp add: min_def)
    then show ?thesis using n(1) by (metis append_take_drop_id list_emb_append2 subseq_order.trans subseq_rev_drop_many)
  qed
  then have "subseq (dl @ drop (length hist - rb_size K rx) hist) (take (length hist - rb_size K rx) hist @ drop (length hist - rb_size K rx) hist)"
    by (rule list_emb_append_mono) simp
  then show ?thesis by (simp add: rb_history_list [OF h])
qed

section \<open>A write in progress\<close>

definition writes_ok :: "nat \<Rightarrow> uart_call \<Rightarrow> u8 ring_buffer \<Rightarrow> bool" where
  "writes_ok M c tx \<longleftrightarrow> rb_inv M tx \<and>
     (case c of
        UTxTail d next' \<Rightarrow> next' = rb_next M (rb_head tx)
      | UTxStore d next' \<Rightarrow> next' = rb_next M (rb_head tx) \<and> rb_size M tx < M
      | UTxHead d next' \<Rightarrow> next' = rb_next M (rb_head tx) \<and> rb_size M tx < M \<and> rb_buffer tx ! next' = d
      | _ \<Rightarrow> True)"

text \<open>The byte that is in the buffer already but not yet accepted.\<close>

fun in_flight :: "uart_call \<Rightarrow> u8 list" where
  "in_flight (UTxEnable d) = [d]"
| "in_flight c = []"

lemma rb_list_store:
  assumes inv: "rb_inv M q" and room: "rb_size M q < M"
  shows "rb_list M (q\<lparr>rb_buffer := (rb_buffer q)[rb_next M (rb_head q) := d]\<rparr>) = rb_list M q"
proof -
  let ?h = "rb_next M (rb_head q)" and ?q = "q\<lparr>rb_buffer := (rb_buffer q)[rb_next M (rb_head q) := d]\<rparr>"
  have "rb_inv M ?q" "rb_size M ?q < M" using inv room by (simp add: rb_inv_def, simp add: rb_size_def split: if_splits)
  from rb_publish_head [OF this, of d] rb_publish_head [OF inv room, of d] show ?thesis by simp
qed

lemma rb_list_publish:
  assumes inv: "rb_inv M q" and room: "rb_size M q < M" and "rb_buffer q ! rb_next M (rb_head q) = d"
  shows "rb_list M (q\<lparr>rb_head := rb_next M (rb_head q)\<rparr>) = rb_list M q @ [d]"
  using rb_publish_head [OF inv room, of d] assms(3) list_update_id [of "rb_buffer q" "rb_next M (rb_head q)"] by simp

text \<open>The routine without loopback only removes, which a write in progress does not notice.\<close>

lemma tx_drop_writes_ok:
  assumes "writes_ok M c tx"
  shows "writes_ok M c ((uart_buffers.tx_drop (uart_ring_buffer M False) ^^ k) tx)"
proof (induction k)
  case (Suc k)
  let ?q = "(uart_rings.tx_drop M ^^ k) tx"
  have inv: "rb_inv M ?q" using Suc by (simp add: writes_ok_def)
  let ?r = "snd (rb_remove M ?q)"
  have "rb_inv M ?r" by (rule rb_remove_inv [OF inv])
  moreover have "rb_head ?r = rb_head ?q" "rb_buffer ?r = rb_buffer ?q" by (simp_all add: rb_remove_def Let_def)
  moreover have "rb_size M ?r \<le> rb_size M ?q"
    using rb_remove_cases [OF inv] length_rb_list [of M ?r] length_rb_list [of M ?q]
    by (cases "rb_list M ?q") (auto simp del: length_rb_list)
  ultimately have "writes_ok M c ?r" using Suc by (auto simp: writes_ok_def split: uart_call.splits)
  moreover have "rbb_remove (uart_ring_buffer M False) = rb_remove M" by (simp add: uart_ring_buffer_def)
  ultimately have "writes_ok M c (uart_rings.tx_drop M ?q)" by (simp only: uart_rings.tx_drop_def)
  then show ?case by simp
qed (use assms in simp)

section \<open>The driver\<close>

text \<open>
  The state after a session that began with the lines \<open>start\<close>: \<open>wr\<close> are the accepted writes and \<open>dl\<close>
  the bytes returned by the reads.
\<close>

definition uart_ok ::
    "nat \<Rightarrow> nat \<Rightarrow> bool \<Rightarrow> 'w uart_device \<Rightarrow> ('w \<Rightarrow> u8 list \<times> u8 list) \<Rightarrow> u8 list \<times> u8 list \<Rightarrow> u8 list \<Rightarrow> u8 list \<Rightarrow>
     uart_call \<times> (u8 ring_buffer, 'w) uart_hw \<times> 'w \<Rightarrow> bool" where
  "uart_ok K M lb D wires start wr dl s \<longleftrightarrow> (case s of (c, u, w) \<Rightarrow>
     uart_initialized u \<and> uart_device u = Some D \<and> uart_loopback u = lb \<and>
     (\<exists>rx tx bs es echo hist. rx_buffer u = Some rx \<and> tx_buffer u = Some tx \<and>
        fst (wires w) @ rb_list M tx = fst start @ es \<and> es \<in> shuffles (wr @ in_flight c) echo \<and> subseq echo bs \<and>
        (\<not> lb \<longrightarrow> echo = []) \<and> snd (wires w) = snd start @ bs \<and> subseq hist bs \<and>
        reads_ok K c rx hist dl \<and> writes_ok M c tx))"

text \<open>The bytes whose \<open>write\<close> returned true, and the bytes returned by \<open>read\<close>.\<close>

fun accepted_writes :: "uart_result list \<Rightarrow> u8 list" where
  "accepted_writes (UWrote d True # rs) = d # accepted_writes rs"
| "accepted_writes (r # rs) = accepted_writes rs"
| "accepted_writes [] = []"

fun read_bytes :: "uart_result list \<Rightarrow> u8 list" where
  "read_bytes (UGot (Some d) # rs) = d # read_bytes rs"
| "read_bytes (r # rs) = read_bytes rs"
| "read_bytes [] = []"

lemma accepted_writes_Cons: "accepted_writes (r # rs) = accepted_writes [r] @ accepted_writes rs"
proof (cases r)
  case (UWrote d ok)
  then show ?thesis by (cases ok) simp_all
qed simp_all

lemma read_bytes_Cons: "read_bytes (r # rs) = read_bytes [r] @ read_bytes rs"
proof (cases r)
  case (UGot b)
  then show ?thesis by (cases b) simp_all
qed simp_all

text \<open>A prefix goes to either side of an interleaving, and interleavings follow each other.\<close>

lemma shuffles_left: "cs \<in> shuffles as bs \<Longrightarrow> xs @ cs \<in> shuffles (xs @ as) bs"
  by (induction xs) (auto intro: Cons_in_shuffles_leftI)

lemma shuffles_right: "cs \<in> shuffles as bs \<Longrightarrow> xs @ cs \<in> shuffles as (xs @ bs)"
  by (induction xs) (auto intro: Cons_in_shuffles_rightI)

lemma shuffles_append:
  "cs \<in> shuffles as bs \<Longrightarrow> ds \<in> shuffles xs ys \<Longrightarrow> cs @ ds \<in> shuffles (as @ xs) (bs @ ys)"
proof (induction as bs arbitrary: cs rule: shuffles.induct)
  case (3 a as b bs)
  then show ?case by (auto simp: Cons_in_shuffles_iff)
qed (auto intro: shuffles_left shuffles_right)

lemma uart_okE:
  assumes "uart_ok K M lb D wires start wr dl (c, u, w)"
  obtains rx tx bs es echo hist where "uart_initialized u" "uart_device u = Some D" "uart_loopback u = lb" "rx_buffer u = Some rx"
    "tx_buffer u = Some tx" "fst (wires w) @ rb_list M tx = fst start @ es" "es \<in> shuffles (wr @ in_flight c) echo" "subseq echo bs"
    "\<not> lb \<longrightarrow> echo = []" "snd (wires w) = snd start @ bs" "subseq hist bs" "reads_ok K c rx hist dl" "writes_ok M c tx"
  using assms unfolding uart_ok_def split_conv by blast

lemma uart_okI:
  assumes "uart_initialized u" "uart_device u = Some D" "uart_loopback u = lb" "rx_buffer u = Some rx"
    "tx_buffer u = Some tx" "fst (wires w) @ rb_list M tx = fst start @ es" "es \<in> shuffles (wr @ in_flight c) echo" "subseq echo bs"
    "\<not> lb \<longrightarrow> echo = []" "snd (wires w) = snd start @ bs" "subseq hist bs" "reads_ok K c rx hist dl" "writes_ok M c tx"
  shows "uart_ok K M lb D wires start wr dl (c, u, w)"
  unfolding uart_ok_def split_conv using assms by blast

text \<open>One event.\<close>

lemma uart_step_begin:
  assumes ok: "uart_ok K M lb D wires start wr dl (UIdle, u, w)"
  shows "uart_write_begin M d u = (r, c) \<Longrightarrow> uart_ok K M lb D wires start (wr @ accepted_writes [r]) (dl @ read_bytes [r]) (c, u, w)"
    and "uart_read_begin u = (r, c) \<Longrightarrow> uart_ok K M lb D wires start (wr @ accepted_writes [r]) (dl @ read_bytes [r]) (c, u, w)"
proof -
  obtain rx tx bs es echo hist where o: "uart_initialized u" "uart_device u = Some D" "uart_loopback u = lb" "rx_buffer u = Some rx" "tx_buffer u = Some tx"
    "fst (wires w) @ rb_list M tx = fst start @ es" "es \<in> shuffles (wr @ in_flight UIdle) echo" "subseq echo bs"
    "\<not> lb \<longrightarrow> echo = []" "snd (wires w) = snd start @ bs" "subseq hist bs" "reads_ok K UIdle rx hist dl" "writes_ok M UIdle tx"
    using ok by (rule uart_okE)
  show "uart_ok K M lb D wires start (wr @ accepted_writes [r]) (dl @ read_bytes [r]) (c, u, w)" if "uart_write_begin M d u = (r, c)"
  proof -
    have c: "r = URunning" "c = UTxTail d (rb_next M (rb_head tx))" using that o(1,2,5) by (auto simp: uart_write_begin_def)
    have "reads_ok K c rx hist dl" "writes_ok M c tx" using o(12,13) by (auto simp: c reads_ok_def writes_ok_def)
    then show ?thesis using o c
      by - (rule uart_okI [where rx = rx and tx = tx and es = es and echo = echo and bs = bs and hist = hist], simp_all)
  qed
  show "uart_ok K M lb D wires start (wr @ accepted_writes [r]) (dl @ read_bytes [r]) (c, u, w)" if "uart_read_begin u = (r, c)"
  proof -
    have c: "r = URunning" "c = URxTail (rb_head rx)" using that o(1,4) by (auto simp: uart_read_begin_def)
    have "reads_ok K c rx hist dl" "writes_ok M c tx" using o(12,13) by (auto simp: c reads_ok_def writes_ok_def)
    then show ?thesis using o c
      by - (rule uart_okI [where rx = rx and tx = tx and es = es and echo = echo and bs = bs and hist = hist], simp_all)
  qed
qed

lemma write_access_ok:
  assumes "uart_writing c" "writes_ok M c tx" "uart_write_access D c tx w = (r, c', tx', w')"
  shows "writes_ok M c' tx' \<and> (\<exists>x. rb_list M tx' = rb_list M tx @ x \<and> accepted_writes [r] @ in_flight c' = in_flight c @ x) \<and>
    read_bytes [r] = [] \<and> (w' = w \<or> w' = uart_irq_tx_enable D w)"
proof (cases c)
  case (UTxTail d p)
  then show ?thesis using assms rb_full_iff [of M tx] rb_size_le [of M tx] by (auto simp: writes_ok_def le_less split: if_splits)
next
  case (UTxStore d p)
  then have "rb_inv M tx" "p = rb_next M (rb_head tx)" "rb_size M tx < M" using assms(2) by (simp_all add: writes_ok_def)
  then show ?thesis using assms(3) UTxStore rb_list_store [of M tx d]
    by (auto simp: writes_ok_def rb_inv_def rb_size_def)
next
  case (UTxHead d p)
  then have "rb_inv M tx" "p = rb_next M (rb_head tx)" "rb_size M tx < M" "rb_buffer tx ! rb_next M (rb_head tx) = d"
    using assms(2) unfolding UTxHead writes_ok_def by auto
  then show ?thesis using assms(3) UTxHead rb_list_publish [of M tx d] by (auto simp: writes_ok_def rb_inv_def)
qed (use assms in \<open>auto simp: writes_ok_def\<close>)

lemma read_access_ok:
  assumes ok: "reads_ok K c rx hist dl" and "\<not> uart_writing c" and acc: "uart_read_access K c rx = (r, c', rx')"
  shows "reads_ok K c' rx' hist (dl @ read_bytes [r]) \<and> accepted_writes [r] = [] \<and> in_flight c' = [] \<and> \<not> uart_writing c'"
proof -
  have h: "rb_history K hist rx" and inv: "rb_inv K rx" using ok by (auto simp: reads_ok_def rb_history_def)
  obtain n where n: "subseq dl (take n hist)" "n + rb_size K rx \<le> length hist"
    and c: "case c of URxTail h \<Rightarrow> h = rb_tail rx \<or> rb_head rx \<noteq> rb_tail rx
        | URxValue p \<Rightarrow> p < STORAGE_SIZE K \<and> n + rb_dist K p rx < length hist
        | URxStoreTail p v \<Rightarrow> p < STORAGE_SIZE K \<and> (\<exists>m. subseq (dl @ [v]) (take m hist) \<and> m + rb_dist K p rx \<le> length hist)
        | _ \<Rightarrow> True"
    using ok unfolding reads_ok_def by blast
  show ?thesis
  proof (cases c)
    case (URxTail h')
    show ?thesis
    proof (cases "h' = rb_tail rx")
      case True
      then show ?thesis using acc URxTail n h by (auto simp: reads_ok_def)
    next
      case False
      then have ne: "rb_head rx \<noteq> rb_tail rx" using c URxTail by simp
      have "rb_size K rx = Suc (rb_dist K (rb_next K (rb_tail rx)) rx)"
        using ne inv by (auto simp: rb_size_def rb_dist_def rb_next_def rb_inv_def STORAGE_SIZE_def)
      then show ?thesis using acc URxTail False n h by (auto simp: reads_ok_def)
    qed
  next
    case (URxValue p)
    then have p: "p < STORAGE_SIZE K" "n + rb_dist K p rx < length hist" using c by auto
    have v: "rb_buffer rx ! p = hist ! (length hist - 1 - rb_dist K p rx)" using rb_history_slot [OF h p(1)] p(2) by simp
    let ?m = "length hist - rb_dist K p rx"
    have m: "?m = Suc (?m - 1)" "?m - 1 < length hist" "length hist - 1 - rb_dist K p rx = ?m - 1" using p(2) by simp_all
    have "take ?m hist = take (?m - 1) hist @ [rb_buffer rx ! p]"
      using take_Suc_conv_app_nth [OF m(2)] m(1) v unfolding m(3) by simp
    moreover have "subseq dl (take (?m - 1) hist)"
    proof -
      have "take n hist = take n (take (?m - 1) hist)" using p(2) by (simp add: min_def)
      then show ?thesis using n(1) by (metis append_take_drop_id list_emb_append2 subseq_order.trans subseq_rev_drop_many)
    qed
    ultimately have "subseq (dl @ [rb_buffer rx ! p]) (take ?m hist)" "?m + rb_dist K p rx \<le> length hist"
      using p(2) by (simp_all add: list_emb_append_mono)
    then have "reads_ok K (URxStoreTail p (rb_buffer rx ! p)) rx hist dl"
      unfolding reads_ok_def uart_call.case using n h p(1) by blast
    then show ?thesis using acc URxValue by auto
  next
    case (URxStoreTail p v)
    then obtain m where "p < STORAGE_SIZE K" "subseq (dl @ [v]) (take m hist)" "m + rb_dist K p rx \<le> length hist" using c by auto
    then show ?thesis using acc URxStoreTail h by (auto simp: reads_ok_def rb_history_def rb_inv_def rb_size_dist rb_dist_def)
  qed (use acc ok assms(2) in auto)
qed

lemma uart_access_ok:
  assumes ok: "uart_ok K M lb D wires start wr dl (c, u, w)" and w: "wires_ok D wires"
    and step: "uart_step K ow M UAccess (c, u, w) = Some (r, c', u', w')"
  shows "uart_ok K M lb D wires start (wr @ accepted_writes [r]) (dl @ read_bytes [r]) (c', u', w')"
proof -
  obtain rx tx bs es echo hist where o: "uart_initialized u" "uart_device u = Some D" "uart_loopback u = lb" "rx_buffer u = Some rx" "tx_buffer u = Some tx"
    "fst (wires w) @ rb_list M tx = fst start @ es" "es \<in> shuffles (wr @ in_flight c) echo" "subseq echo bs"
    "\<not> lb \<longrightarrow> echo = []" "snd (wires w) = snd start @ bs" "subseq hist bs" "reads_ok K c rx hist dl" "writes_ok M c tx"
    using ok by (rule uart_okE)
  show ?thesis
  proof (cases "uart_writing c")
    case True
    obtain tx' where a: "uart_write_access D c tx w = (r, c', tx', w')" "u' = u\<lparr>tx_buffer := Some tx'\<rparr>"
      using step o(2,4,5) True by (auto split: prod.splits)
    from write_access_ok [OF True o(13) a(1)] obtain x where b: "writes_ok M c' tx'" "rb_list M tx' = rb_list M tx @ x"
      "accepted_writes [r] @ in_flight c' = in_flight c @ x" "read_bytes [r] = []" "wires w' = wires w" using wires_simps(1) [OF w] by auto
    have "reads_ok K c' rx hist dl" using o(12) True a(1) by (cases c) (auto simp: reads_ok_def split: if_splits)
    moreover have "fst (wires w') @ rb_list M tx' = fst start @ (es @ x)" using o(6) b(2,5) by (metis append.assoc)
    moreover have "es @ x \<in> shuffles ((wr @ accepted_writes [r]) @ in_flight c') echo"
      using shuffles_append [OF o(7), of x x "[]"] b(3) by simp
    ultimately show ?thesis using o b(1,4,5) a(2)
      by - (rule uart_okI [where rx = rx and tx = tx' and es = "es @ x" and echo = echo and bs = bs and hist = hist], simp_all)
  next
    case False
    obtain rx' where a: "uart_read_access K c rx = (r, c', rx')" "u' = u\<lparr>rx_buffer := Some rx'\<rparr>" "w' = w"
      using step o(2,4,5) False by (auto split: prod.splits)
    from read_access_ok [OF o(12) False a(1)] have b: "reads_ok K c' rx' hist (dl @ read_bytes [r])" "accepted_writes [r] = []"
      "in_flight c' = []" "\<not> uart_writing c'" by simp_all
    have "writes_ok M c' tx" using o(13) b(4) by (cases c') (auto simp: writes_ok_def)
    moreover have "in_flight c = []" using False by (cases c) simp_all
    ultimately show ?thesis using o a b(1,2,3)
      by - (rule uart_okI [where rx = rx' and tx = tx and es = es and echo = echo and bs = bs and hist = hist], simp_all)
  qed
qed

lemma uart_isr_ok:
  assumes ok: "uart_ok K M lb D wires start wr dl (c, u, w)" and w: "wires_ok D wires" and lb: "lb \<Longrightarrow> \<not> uart_writing c"
    and step: "uart_step K ow M UIsr (c, u, w) = Some (r, c', u', w')"
  shows "uart_ok K M lb D wires start (wr @ accepted_writes [r]) (dl @ read_bytes [r]) (c', u', w')"
proof -
  obtain rx tx bs es echo hist where o: "uart_initialized u" "uart_device u = Some D" "uart_loopback u = lb" "rx_buffer u = Some rx" "tx_buffer u = Some tx"
    "fst (wires w) @ rb_list M tx = fst start @ es" "es \<in> shuffles (wr @ in_flight c) echo" "subseq echo bs"
    "\<not> lb \<longrightarrow> echo = []" "snd (wires w) = snd start @ bs" "subseq hist bs" "reads_ok K c rx hist dl" "writes_ok M c tx"
    using ok by (rule uart_okE)
  obtain rx' tx' where l: "uart_isr_loop (uart_ring_buffer K ow) (uart_ring_buffer M False) D lb (rx, tx, w) = Some (rx', tx', w')"
    "u' = u\<lparr>rx_buffer := Some rx', tx_buffer := Some tx'\<rparr>" "r = URunning" "c' = c"
    using step o by (auto simp: uart_isr_def)
  have inv: "rb_inv M tx" using o(13) by (simp add: writes_ok_def)
  from uart_rings.isr_loop_serves [OF w l(1)] inv obtain cs fs where s: "rb_inv M tx'" "snd (wires w') = snd (wires w) @ cs"
    "rx' = insert_all (rbb_insert (uart_ring_buffer K ow)) cs rx" "fst (wires w') @ rb_list M tx' = fst (wires w) @ rb_list M tx @ fs"
    "subseq fs cs" "\<not> lb \<longrightarrow> fs = [] \<and> (\<exists>k. tx' = (uart_rings.tx_drop M ^^ k) tx)"
    unfolding uart_rings.serves_def split_conv by blast
  from reads_ok_insert_all [OF o(12)] obtain new where new: "subseq new cs" "reads_ok K c rx' (hist @ new) dl" unfolding s(3) by blast
  have tx': "writes_ok M c tx'"
  proof (cases lb)
    case True
    then show ?thesis using lb s(1) by (cases c) (simp_all add: writes_ok_def)
  next
    case False
    then show ?thesis using s(6) tx_drop_writes_ok [OF o(13)] by blast
  qed
  have "fst (wires w') @ rb_list M tx' = fst start @ (es @ fs)" using o(6) s(4) by (metis append.assoc)
  moreover have "es @ fs \<in> shuffles (wr @ in_flight c) (echo @ fs)" using shuffles_append [OF o(7), of fs "[]" fs] by simp
  moreover have "subseq (echo @ fs) (bs @ cs)" "subseq (hist @ new) (bs @ cs)" using o(8,11) s(5) new(1) by (simp_all add: list_emb_append_mono)
  ultimately show ?thesis using o new(2) tx' l(2-4) s(2,6)
      by - (rule uart_okI [where rx = rx' and tx = tx' and es = "es @ fs" and echo = "echo @ fs" and bs = "bs @ cs" and hist = "hist @ new"], simp_all)
qed

lemma uart_run_ok:
  assumes "wires_ok D wires" "uart_run K ow M evs s = Some (rs, s')" "uart_ok K M lb D wires start wr dl s"
    and "lb \<Longrightarrow> uart_writes_undisturbed K ow M evs s"
  shows "uart_ok K M lb D wires start (wr @ accepted_writes rs) (dl @ read_bytes rs) s'"
  using assms(2-4)
proof (induction evs arbitrary: s rs wr dl)
  case (Cons e evs)
  obtain c u w where s: "s = (c, u, w)" by (cases s)
  obtain r c1 u1 w1 rs1 where 1: "uart_step K ow M e (c, u, w) = Some (r, c1, u1, w1)" "uart_run K ow M evs (c1, u1, w1) = Some (rs1, s')" "rs = r # rs1"
    using Cons.prems(1) by (auto simp: s split: option.splits)
  have "uart_ok K M lb D wires start (wr @ accepted_writes [r]) (dl @ read_bytes [r]) (c1, u1, w1)"
  proof (cases e)
    case (UWrite d)
    then show ?thesis using 1(1) Cons.prems(2) uart_step_begin(1) [of K M lb D wires start wr dl u w d r c1] unfolding s
      by (cases "c = UIdle") (auto split: prod.splits)
  next
    case URead
    then show ?thesis using 1(1) Cons.prems(2) uart_step_begin(2) [of K M lb D wires start wr dl u w r c1] unfolding s
      by (cases "c = UIdle") (auto split: prod.splits)
  next
    case UAccess
    show ?thesis by (rule uart_access_ok [OF Cons.prems(2) [unfolded s] assms(1) 1(1) [unfolded UAccess]])
  next
    case UIsr
    show ?thesis by (rule uart_isr_ok [OF Cons.prems(2) [unfolded s] assms(1) _ 1(1) [unfolded UIsr]]) (use Cons.prems(3) s UIsr in auto)
  qed
  from Cons.IH [OF 1(2) this] Cons.prems(3) 1(1) show ?case
    unfolding 1(3) by (subst accepted_writes_Cons, subst read_bytes_Cons) (simp add: s)
qed simp

end
