(* ===== verification/Uart_Properties.thy ===== *)
theory Uart_Properties
  imports Uart_Calls
begin

text \<open>
  The UART driver keeps the order of the bytes: what goes out on the line is what was written,
  merged with the echo of the loopback, and what is read are received bytes in their order, with the
  interrupt routine between any two accesses of a call. Then the interleaving that loopback breaks.
\<close>

section \<open>Properties\<close>

text \<open>C15. From a successful \<open>init\<close> with empty buffers, for any sequence of calls of \<open>write\<close> and \<open>read\<close> with the interrupt
  routine between any two of their accesses (with loopback: not inside of a \<open>write\<close>, where it may lose the
  byte written, see below), and a transmit buffer without \<open>OverwriteOldest\<close>: the bytes on the line
  followed by those in the transmit buffer are the bytes whose \<open>write\<close> returned true, and the byte of a \<open>write\<close> that has
  stored it but not returned yet, in their order, merged with the echo of received bytes (none without
  loopback); and the bytes returned by the reads followed by those in the receive buffer are received bytes in their
  order, also where the receive buffer overwrites its oldest bytes during a \<open>read\<close>.\<close>

theorem uart_bytes_in_order:
  assumes "wires_ok D wires" "0 < K" "0 < M"
    and "uart_init \<lparr>cfg_settings = c, cfg_rx_buffer = rb_new K 0, cfg_tx_buffer = rb_new M 0, cfg_loopback = lb\<rparr> (uart_new (Some D)) w0 = (True, u, w)"
    and "uart_run K ow M evs (UIdle, u, w) = Some (rs, call, u', w')"
    and "\<not> lb \<or> uart_writes_undisturbed K ow M evs (UIdle, u, w)"
  shows "\<exists>rx tx bs es echo. rx_buffer u' = Some rx \<and> tx_buffer u' = Some tx \<and>
    fst (wires w') @ rb_list M tx = fst (wires w) @ es \<and> es \<in> shuffles (accepted_writes rs @ in_flight call) echo \<and>
    subseq echo bs \<and> (\<not> lb \<longrightarrow> echo = []) \<and>
    snd (wires w') = snd (wires w) @ bs \<and> subseq (read_bytes rs @ rb_list K rx) bs"
proof -
  have u: "uart_initialized u" "uart_device u = Some D" "uart_loopback u = lb" "rx_buffer u = Some (rb_new K 0)" "tx_buffer u = Some (rb_new M 0)"
    using assms(4) by (auto simp: uart_init_def uart_new_def uart_apply_config_def split: if_splits prod.splits bool.splits)
  have "reads_ok K UIdle (rb_new K 0) [] []" using rb_history_new [OF assms(2)]
    by (auto simp: reads_ok_def rb_size_def rb_new_def)
  moreover have "writes_ok M UIdle (rb_new M 0)" using rb_inv_new [OF assms(3)] by (simp add: writes_ok_def)
  ultimately have "uart_ok K M lb D wires (wires w) [] [] (UIdle, u, w)" using u
    by - (rule uart_okI [where rx = "rb_new K 0" and tx = "rb_new M 0" and es = "[]" and echo = "[]" and bs = "[]" and hist = "[]"],
      simp_all add: rb_list_new)
  from uart_run_ok [OF assms(1,5) this] assms(6)
  have "uart_ok K M lb D wires (wires w) (accepted_writes rs) (read_bytes rs) (call, u', w')" by auto
  then obtain rx tx bs es echo hist where r: "rx_buffer u' = Some rx" "tx_buffer u' = Some tx"
    "fst (wires w') @ rb_list M tx = fst (wires w) @ es" "es \<in> shuffles (accepted_writes rs @ in_flight call) echo" "subseq echo bs"
    "\<not> lb \<longrightarrow> echo = []" "snd (wires w') = snd (wires w) @ bs" "subseq hist bs" "reads_ok K call rx hist (read_bytes rs)"
    by (rule uart_okE)
  have "subseq (read_bytes rs @ rb_list K rx) bs" by (rule subseq_order.trans [OF reads_ok_contents [OF r(9)] r(8)])
  then show ?thesis using r(1-7) by blast
qed

text \<open>A device with bytes to receive and an interrupt that transmits while it is enabled.\<close>

record line_world =
  line_out :: "u8 list"
  line_in :: "u8 list"
  line_waiting :: "u8 list"
  line_tx_irq :: bool

definition line_device :: "line_world uart_device" where
  "line_device =
     \<lparr>device_is_ready = (\<lambda>w. True), uart_configure = (\<lambda>c w. (0, w)), uart_irq_callback_user_data_set = (\<lambda>b w. (0, w)),
      uart_irq_rx_enable = (\<lambda>w. w), uart_irq_rx_disable = (\<lambda>w. w),
      uart_irq_tx_enable = line_tx_irq_update (\<lambda>_. True), uart_irq_tx_disable = line_tx_irq_update (\<lambda>_. False),
      uart_irq_update = (\<lambda>w. w), uart_irq_is_pending = (\<lambda>w. (if line_waiting w \<noteq> [] \<or> line_tx_irq w then 1 else 0, w)),
      uart_irq_rx_ready = (\<lambda>w. (if line_waiting w \<noteq> [] then 1 else 0, w)), uart_irq_tx_ready = (\<lambda>w. (if line_tx_irq w then 1 else 0, w)),
      uart_fifo_read = (\<lambda>w. case line_waiting w of [] \<Rightarrow> (0, 0, w) | d # ds \<Rightarrow> (1, d, w\<lparr>line_waiting := ds, line_in := line_in w @ [d]\<rparr>)),
      uart_fifo_fill = (\<lambda>d w. (1, w\<lparr>line_out := line_out w @ [d]\<rparr>))\<rparr>"

lemma line_wires_ok: "wires_ok line_device (\<lambda>w. (line_out w, line_in w))"
  by (simp add: wires_ok_def line_device_def split: list.splits)

text \<open>Byte 65 is written and sent; the interrupt comes before its \<open>write\<close> returns, and receives byte 7 during a \<open>read\<close>.\<close>

definition example_config :: "bool \<Rightarrow> u8 ring_buffer uart_config" where
  "example_config lb = \<lparr>cfg_settings = \<lparr>baudrate = 115200, stop_bits = 1\<rparr>, cfg_rx_buffer = rb_new 2 0, cfg_tx_buffer = rb_new 2 0, cfg_loopback = lb\<rparr>"

definition example_line :: line_world where
  "example_line = \<lparr>line_out = [], line_in = [], line_waiting = [7], line_tx_irq = True\<rparr>"

definition example_events :: "uart_event list" where
  "example_events = [UWrite 65, UAccess, UAccess, UAccess, UIsr, UAccess, URead, UAccess, UIsr, UAccess, UAccess]"

lemma uart_example_run:
  "\<exists>u' w' rs. uart_run 2 True 2 example_events (UIdle, snd (uart_init (example_config False) (uart_new (Some line_device)) example_line)) =
    Some (rs, UIdle, u', w') \<and> accepted_writes rs = [65] \<and> read_bytes rs = [7] \<and> line_out w' = [65]"
  by (simp add: example_config_def example_line_def example_events_def uart_init_def uart_new_def uart_apply_config_def uart_write_begin_def
      uart_read_begin_def uart_isr_def uart_ring_buffer_def rb_new_def rb_insert_def rb_peek_def rb_remove_def rb_next_def STORAGE_SIZE_def
      line_device_def Let_def uart_isr_loop.simps uart_rx_loop.simps uart_receive_def numeral_2_eq_2 numeral_3_eq_3)

theorem uart_bytes_in_order_witness:
  "\<exists>u' w' rs tx rx. uart_run 2 True 2 example_events
      (UIdle, snd (uart_init (example_config False) (uart_new (Some line_device)) example_line)) = Some (rs, UIdle, u', w') \<and>
    accepted_writes rs = [65] \<and> tx_buffer u' = Some tx \<and> rx_buffer u' = Some rx \<and> line_out w' @ rb_list 2 tx = [65] \<and>
    read_bytes rs = [7] \<and> subseq (7 # rb_list 2 rx) (line_in w')"
proof -
  let ?i = "uart_init (example_config False) (uart_new (Some line_device)) example_line"
  obtain u' w' rs where run: "uart_run 2 True 2 example_events (UIdle, fst (snd ?i), snd (snd ?i)) = Some (rs, UIdle, u', w')"
    "accepted_writes rs = [65]" "read_bytes rs = [7]" "line_out w' = [65]" using uart_example_run by auto
  have i: "?i = (True, fst (snd ?i), snd (snd ?i))" "snd (snd ?i) = example_line"
    by (simp_all add: uart_init_def uart_new_def uart_apply_config_def line_device_def)
  have "(0 :: nat) < 2" by simp
  from uart_bytes_in_order [OF line_wires_ok this this i(1) [unfolded example_config_def] run(1) [unfolded example_config_def]]
  obtain rx tx bs es echo where "rx_buffer u' = Some rx" "tx_buffer u' = Some tx" "line_out w' @ rb_list 2 tx = es" "es \<in> shuffles [65] []"
    "subseq (7 # rb_list 2 rx) (line_in w')"
    using i(2) run(2,3) by (auto simp: example_line_def example_config_def)
  then show ?thesis using run by auto
qed

text \<open>Without an interrupt in between, the accesses are the member function.\<close>

lemma uart_write_accesses:
  assumes "uart_initialized u" "rx_buffer u = Some rx" "tx_buffer u = Some tx" "uart_device u = Some D" "rb_inv M tx"
  shows "(case uart_write (uart_ring_buffer M False) d u w of (ok, u', w') \<Rightarrow>
    \<exists>rs. uart_run K ow M ([UWrite d, UAccess] @ (if ok then [UAccess, UAccess, UAccess] else [])) (UIdle, u, w) = Some (rs, UIdle, u', w') \<and>
      last rs = UWrote d ok)"
proof (cases "rb_tail tx = rb_next M (rb_head tx)")
  case True
  then have "rb_insert M False d tx = (False, tx)" by (simp add: rb_insert_def Let_def)
  then show ?thesis using assms True by (simp add: uart_write_def uart_write_begin_def uart_ring_buffer_def)
next
  case False
  then have "rb_insert M False d tx = (True, tx\<lparr>rb_buffer := (rb_buffer tx)[rb_next M (rb_head tx) := d], rb_head := rb_next M (rb_head tx)\<rparr>)"
    by (simp add: rb_insert_def Let_def)
  then show ?thesis using assms False by (simp add: uart_write_def uart_write_begin_def uart_ring_buffer_def)
qed

lemma uart_read_accesses:
  assumes "uart_initialized u" "rx_buffer u = Some rx" "tx_buffer u = Some tx" "uart_device u = Some D"
  shows "(case uart_read (uart_ring_buffer K ow) u of (d, u') \<Rightarrow>
    \<exists>rs. uart_run K ow M ([URead, UAccess] @ (if d = None then [] else [UAccess, UAccess])) (UIdle, u, w) = Some (rs, UIdle, u', w) \<and>
      last rs = UGot d)"
proof (cases "rb_head rx = rb_tail rx")
  case True
  then show ?thesis using assms by (simp add: uart_read_def uart_read_begin_def uart_ring_buffer_def rb_remove_def)
next
  case False
  then show ?thesis using assms by (simp add: uart_read_def uart_read_begin_def uart_ring_buffer_def rb_remove_def Let_def)
qed

section \<open>Loopback inside of a write\<close>

text \<open>
  The mutex of \<open>write\<close> does not keep the interrupt out, which with loopback inserts into the same
  buffer. A byte received while \<open>write\<close> is between the store and the new head takes the place of the byte
  written: both insertions succeed, and only the received byte is in the transmit buffer.
\<close>

theorem uart_loopback_loses_write:
  assumes "writes_ok M (UTxHead d p) tx"
    and "uart_receive BR (uart_ring_buffer M False) D True e (rx, tx, w) = (rx', tx1, w1)"
    and "uart_write_access D (UTxHead d p) tx1 w1 = (r, call, tx2, w2)"
  shows "call = UTxEnable d \<and> w2 = uart_irq_tx_enable D w \<and> rb_list M tx2 = rb_list M tx @ [e]"
proof -
  have t: "rb_inv M tx" "p = rb_next M (rb_head tx)" "rb_size M tx < M" using assms(1) by (simp_all add: writes_ok_def)
  have "rb_tail tx \<noteq> rb_next M (rb_head tx)" using t(3) rb_full_iff [OF t(1)] by simp
  then have "rb_insert M False e tx = (True, tx\<lparr>rb_buffer := (rb_buffer tx)[p := e], rb_head := p\<rparr>)" by (simp add: rb_insert_def Let_def t(2))
  then show ?thesis using assms(2,3) rb_publish_head [OF t(1,3), of e]
    by (auto simp: uart_receive_def uart_ring_buffer_def Let_def t(2))
qed

theorem uart_loopback_loses_write_witness:
  "rb_list 2 (fst (snd (snd (uart_write_access line_device (UTxHead 65 1) (fst (snd (uart_receive (uart_ring_buffer 2 False)
     (uart_ring_buffer 2 False) line_device True 7 (rb_new 2 0, (rb_new 2 0)\<lparr>rb_buffer := [0, 65, 0]\<rparr>, example_line)))) example_line)))) = [7]"
proof -
  have b: "writes_ok 2 (UTxHead 65 1) ((rb_new 2 0)\<lparr>rb_buffer := [0, 65, 0]\<rparr>)"
    by (simp add: writes_ok_def rb_new_def rb_inv_def rb_size_def rb_next_def STORAGE_SIZE_def numeral_3_eq_3)
  obtain rx tx w where r: "uart_receive (uart_ring_buffer 2 False) (uart_ring_buffer 2 False) line_device True 7
     (rb_new 2 0, (rb_new 2 0)\<lparr>rb_buffer := [0, 65, 0]\<rparr>, example_line) = (rx, tx, w)" by (metis prod_cases3)
  have "rb_list 2 ((rb_new 2 0)\<lparr>rb_buffer := [0, 65, 0 :: u8]\<rparr>) = []" by (simp add: rb_list_def rb_new_def rb_size_def)
  with uart_loopback_loses_write [OF b r, of URunning "UTxEnable 65" "tx\<lparr>rb_head := 1\<rparr>" w] show ?thesis by (simp add: r)
qed

end
