(* ===== verification/Sysex_Conf.thy ===== *)
theory Sysex_Conf
  imports Midi_Parser
begin

text \<open>
  The SysEx configuration protocol of \<open>sysex_conf.cpp\<close>, \<open>sysex_conf.h\<close>, \<open>sysex_conf_common.h\<close> and
  \<open>sysex_conf_deps.h\<close>. The user's \<open>DataHandler\<close> is the record \<open>sx_handler\<close> over a state of its
  own. Requests are assembled in the response array and answered from it; a write outside the
  array (undefined in C++) sets the flag \<open>array_overrun\<close>, and a packet loop that would not end
  sets \<open>send_hangs\<close>, so that their absence can be proved. The mutex is left out.
\<close>

section \<open>Constants and enumerations\<close>

type_synonym sx_wish = u8

definition WishGet :: sx_wish where [simp]: "WishGet = 0"
definition WishSet :: sx_wish where [simp]: "WishSet = 1"
definition WishBackup :: sx_wish where [simp]: "WishBackup = 2"
definition WishInvalid :: sx_wish where [simp]: "WishInvalid = 3"

type_synonym sx_amount = u8

definition AmountSingle :: sx_amount where [simp]: "AmountSingle = 0"
definition AmountAll :: sx_amount where [simp]: "AmountAll = 1"
definition AmountInvalid :: sx_amount where [simp]: "AmountInvalid = 2"

datatype sx_status = StRequest | StAck | ErrorStatus | ErrorConnection | ErrorWish | ErrorAmount | ErrorBlock
  | ErrorSection | ErrorPart | ErrorIndex | ErrorNewValue | ErrorMessageLength | ErrorWrite | ErrorNotSupported | ErrorRead

fun status_code :: "sx_status \<Rightarrow> u8" where
  "status_code StRequest = 0" | "status_code StAck = 1" | "status_code ErrorStatus = 2"
| "status_code ErrorConnection = 3" | "status_code ErrorWish = 4" | "status_code ErrorAmount = 5"
| "status_code ErrorBlock = 6" | "status_code ErrorSection = 7" | "status_code ErrorPart = 8"
| "status_code ErrorIndex = 9" | "status_code ErrorNewValue = 10" | "status_code ErrorMessageLength = 11"
| "status_code ErrorWrite = 12" | "status_code ErrorNotSupported = 13" | "status_code ErrorRead = 14"

definition ConnClose :: u8 where [simp]: "ConnClose = 0"
definition ConnOpen :: u8 where [simp]: "ConnOpen = 1"
definition BytesPerValue :: u8 where [simp]: "BytesPerValue = 2"
definition ParamsPerMessage :: u8 where [simp]: "ParamsPerMessage = 3"
definition SpecialRequestCount :: u16 where [simp]: "SpecialRequestCount = 4"

definition IdByte1 :: nat where [simp]: "IdByte1 = 1"
definition IdByte2 :: nat where [simp]: "IdByte2 = 2"
definition IdByte3 :: nat where [simp]: "IdByte3 = 3"
definition StatusByte :: nat where [simp]: "StatusByte = 4"
definition PartByte :: nat where [simp]: "PartByte = 5"
definition WishByte :: nat where [simp]: "WishByte = 6"
definition AmountByte :: nat where [simp]: "AmountByte = 7"
definition BlockByte :: nat where [simp]: "BlockByte = 8"
definition SectionByte :: nat where [simp]: "SectionByte = 9"
definition IndexByte :: nat where [simp]: "IndexByte = 10"

definition PART_ALL_MESSAGES :: u8 where [simp]: "PART_ALL_MESSAGES = 127"
definition PART_ALL_MESSAGES_WITH_ACK :: u8 where [simp]: "PART_ALL_MESSAGES_WITH_ACK = 126"
definition PART_ALL_MESSAGES_ACK_PART :: u8 where [simp]: "PART_ALL_MESSAGES_ACK_PART = 0x7E"
definition PARAMS_PER_MESSAGE :: nat where [simp]: "PARAMS_PER_MESSAGE = 32"
definition BYTES_PER_VALUE :: nat where [simp]: "BYTES_PER_VALUE = 2"
definition VALUE_14BIT_MASK :: u16 where [simp]: "VALUE_14BIT_MASK = 0x3FFF"
definition SPECIAL_REQ_MSG_SIZE :: nat where [simp]: "SPECIAL_REQ_MSG_SIZE = (WishByte + 1) + 1"
definition STD_REQ_MIN_MSG_SIZE :: nat where [simp]: "STD_REQ_MIN_MSG_SIZE = IndexByte + BYTES_PER_VALUE * 2 + 1"
definition MAX_MESSAGE_SIZE :: nat where
  [simp]: "MAX_MESSAGE_SIZE = STD_REQ_MIN_MSG_SIZE + PARAMS_PER_MESSAGE * BYTES_PER_VALUE"

section \<open>Layout, handler and state\<close>

record manufacturer_id =
  id1 :: u8
  id2 :: u8
  id3 :: u8

record custom_request_entry =
  request_id :: u16
  conn_open_check :: bool

record decoded_request =
  dr_status :: sx_status
  dr_wish :: sx_wish
  dr_amount :: sx_amount
  dr_block :: u8
  dr_section :: u8
  dr_part :: u8
  dr_index :: u16
  dr_new_value :: u16

record sx_section =
  sx_number_of_parameters :: u16
  sx_new_value_min :: u16
  sx_new_value_max :: u16
  sx_parts :: u8

definition new_sx_section :: "u16 \<Rightarrow> u16 \<Rightarrow> u16 \<Rightarrow> sx_section" where
  "new_sx_section n mn mx =
     \<lparr>sx_number_of_parameters = n, sx_new_value_min = mn, sx_new_value_max = mx,
      sx_parts = of_nat (unat n div PARAMS_PER_MESSAGE + (if unat n mod PARAMS_PER_MESSAGE \<noteq> 0 then 1 else 0))\<rparr>"

type_synonym sx_layout = "sx_section list list"

text \<open>
  A custom request handler sees the response object only through \<open>append\<close>: it gets the number of
  values that still fit and gives the values it tries to append.
\<close>

record 'd sx_handler =
  dh_get :: "u8 \<Rightarrow> u8 \<Rightarrow> u16 \<Rightarrow> 'd \<Rightarrow> (sx_status \<times> u16) \<times> 'd"
  dh_set :: "u8 \<Rightarrow> u8 \<Rightarrow> u16 \<Rightarrow> u16 \<Rightarrow> 'd \<Rightarrow> sx_status \<times> 'd"
  dh_custom_request :: "u16 \<Rightarrow> nat \<Rightarrow> 'd \<Rightarrow> (sx_status \<times> u16 list) \<times> 'd"
  dh_send_response :: "(midi_ump, 'd) writer"

record 'd sysex_conf =
  sx_data :: 'd
  sx_manufacturer_id :: manufacturer_id
  response_array :: "u8 list"
  response_counter :: nat
  configuration_enabled :: bool
  user_error_ignore_mode_enabled :: bool
  ump_message_active :: bool
  sx_layout :: sx_layout
  custom_requests :: "custom_request_entry list"
  decoded_request :: decoded_request
  array_overrun :: bool
  send_hangs :: bool

definition empty_request :: decoded_request where
  "empty_request =
     \<lparr>dr_status = StRequest, dr_wish = WishGet, dr_amount = AmountSingle, dr_block = 0, dr_section = 0,
      dr_part = 0, dr_index = 0, dr_new_value = 0\<rparr>"

definition sysex_conf_new :: "'d \<Rightarrow> manufacturer_id \<Rightarrow> 'd sysex_conf" where
  "sysex_conf_new d mid =
     \<lparr>sx_data = d, sx_manufacturer_id = mid, response_array = replicate MAX_MESSAGE_SIZE 0, response_counter = 0,
      configuration_enabled = False, user_error_ignore_mode_enabled = False, ump_message_active = False,
      sx_layout = [], custom_requests = [], decoded_request = empty_request, array_overrun = False, send_hangs = False\<rparr>"

section \<open>Response buffer\<close>

definition put_byte :: "u8 \<Rightarrow> 'd sysex_conf \<Rightarrow> 'd sysex_conf" where
  "put_byte b s =
     (if response_counter s < MAX_MESSAGE_SIZE
      then s\<lparr>response_array := (response_array s)[response_counter s := b], response_counter := response_counter s + 1\<rparr>
      else s\<lparr>array_overrun := True, response_counter := response_counter s + 1\<rparr>)"

definition put_bytes :: "u8 list \<Rightarrow> 'd sysex_conf \<Rightarrow> 'd sysex_conf" where
  "put_bytes bs s = fold put_byte bs s"

definition set_byte :: "nat \<Rightarrow> u8 \<Rightarrow> 'd sysex_conf \<Rightarrow> 'd sysex_conf" where
  "set_byte i b s = s\<lparr>response_array := (response_array s)[i := b]\<rparr>"

definition set_status :: "sx_status \<Rightarrow> 'd sysex_conf \<Rightarrow> 'd sysex_conf" where
  "set_status status s = set_byte StatusByte (status_code status AND MIDI_DATA_BYTE_MASK) s"

definition add_to_response :: "u16 \<Rightarrow> 'd sysex_conf \<Rightarrow> bool \<times> 'd sysex_conf" where
  "add_to_response val s =
     (case split14 val of (high, low) \<Rightarrow>
        if response_counter s \<ge> MAX_MESSAGE_SIZE - 1 then (False, s)
        else (True, put_bytes [high, low] s))"

definition send_response :: "ump_api \<Rightarrow> 'd sx_handler \<Rightarrow> 'd sysex_conf \<Rightarrow> 'd sysex_conf" where
  "send_response A H s =
     (let s = put_byte SYS_EX_END s;
          response = take (response_counter s) (response_array s)
      in if length response < 2 \<or> hd response \<noteq> SYS_EX_START \<or> last response \<noteq> SYS_EX_END then s
         else let payload = slice 1 (length response - 2) response in
           case write_sysex7_payload_as_ump_packets MAX_MESSAGE_SIZE A 0 payload (dh_send_response H) (sx_data s) of
             Some (_, d) \<Rightarrow> s\<lparr>sx_data := d\<rparr>
           | None \<Rightarrow> s\<lparr>send_hangs := True\<rparr>)"

text \<open>\<open>CustomResponse::append\<close>, over the values a handler gives.\<close>

definition response_room :: "'d sysex_conf \<Rightarrow> nat" where
  "response_room s = (MAX_MESSAGE_SIZE - 1 - response_counter s) div BYTES_PER_VALUE"

fun custom_append :: "u16 list \<Rightarrow> bool \<times> 'd sysex_conf \<Rightarrow> bool \<times> 'd sysex_conf" where
  "custom_append [] r = r"
| "custom_append (val # vals) (overflowed, s) =
     (let val = val AND VALUE_14BIT_MASK in
      if response_counter s + BYTES_PER_VALUE \<ge> MAX_MESSAGE_SIZE then custom_append vals (True, s)
      else custom_append vals (overflowed, case split14 val of (high, low) \<Rightarrow> put_bytes [high, low] s))"

section \<open>Configuration operations\<close>

definition reset_ump_message :: "'d sysex_conf \<Rightarrow> 'd sysex_conf" where
  "reset_ump_message s = s\<lparr>response_counter := 0, ump_message_active := False\<rparr>"

definition sx_reset :: "'d sysex_conf \<Rightarrow> 'd sysex_conf" where
  "sx_reset s = reset_ump_message
     (s\<lparr>configuration_enabled := False, user_error_ignore_mode_enabled := False, decoded_request := empty_request,
        response_counter := 0, sx_layout := [], custom_requests := []\<rparr>)"

definition sx_set_layout :: "sx_layout \<Rightarrow> 'd sysex_conf \<Rightarrow> bool \<times> 'd sysex_conf" where
  "sx_set_layout layout s =
     (let s = s\<lparr>configuration_enabled := False\<rparr> in
      if layout \<noteq> [] then (True, s\<lparr>sx_layout := layout\<rparr>) else (False, s))"

definition setup_custom_requests :: "custom_request_entry list \<Rightarrow> 'd sysex_conf \<Rightarrow> bool \<times> 'd sysex_conf" where
  "setup_custom_requests requests s =
     (if requests \<noteq> [] then
        if list_ex (\<lambda>r. request_id r < SpecialRequestCount) requests then (False, s\<lparr>custom_requests := []\<rparr>)
        else (True, s\<lparr>custom_requests := requests\<rparr>)
      else (False, s))"

definition is_configuration_enabled :: "'d sysex_conf \<Rightarrow> bool" where
  "is_configuration_enabled s = configuration_enabled s"

definition close_connection :: "'d sysex_conf \<Rightarrow> 'd sysex_conf" where
  "close_connection s = s\<lparr>configuration_enabled := False\<rparr>"

definition set_user_error_ignore_mode :: "bool \<Rightarrow> 'd sysex_conf \<Rightarrow> 'd sysex_conf" where
  "set_user_error_ignore_mode state s = s\<lparr>user_error_ignore_mode_enabled := state\<rparr>"

definition reset_decoded_request :: "'d sysex_conf \<Rightarrow> 'd sysex_conf" where
  "reset_decoded_request s = s\<lparr>decoded_request :=
     \<lparr>dr_status = StAck, dr_wish = WishInvalid, dr_amount = AmountInvalid, dr_block = 0, dr_section = 0, dr_part = 0,
      dr_index = 0, dr_new_value = 0\<rparr>\<rparr>"

section \<open>Request checks\<close>

definition request_section :: "'d sysex_conf \<Rightarrow> sx_section" where
  "request_section s = sx_layout s ! unat (dr_block (decoded_request s)) ! unat (dr_section (decoded_request s))"

definition check_manufacturer_id :: "'d sysex_conf \<Rightarrow> bool" where
  "check_manufacturer_id s \<longleftrightarrow>
     response_array s ! IdByte1 = id1 (sx_manufacturer_id s) \<and> response_array s ! IdByte2 = id2 (sx_manufacturer_id s) \<and>
     response_array s ! IdByte3 = id3 (sx_manufacturer_id s)"

definition check_status :: "'d sysex_conf \<Rightarrow> bool" where
  "check_status s \<longleftrightarrow> response_array s ! StatusByte = status_code StRequest"

definition check_wish :: "'d sysex_conf \<Rightarrow> bool" where
  "check_wish s \<longleftrightarrow> dr_wish (decoded_request s) \<le> WishBackup"

definition check_amount :: "'d sysex_conf \<Rightarrow> bool" where
  "check_amount s \<longleftrightarrow> dr_amount (decoded_request s) \<le> AmountAll"

definition check_block :: "'d sysex_conf \<Rightarrow> bool" where
  "check_block s \<longleftrightarrow> unat (dr_block (decoded_request s)) < length (sx_layout s)"

definition check_section :: "'d sysex_conf \<Rightarrow> bool" where
  "check_section s \<longleftrightarrow>
     unat (dr_section (decoded_request s)) < length (sx_layout s ! unat (dr_block (decoded_request s)))"

definition check_part :: "'d sysex_conf \<Rightarrow> bool" where
  "check_part s =
     (let r = decoded_request s in
      if dr_part r = PART_ALL_MESSAGES \<or> dr_part r = PART_ALL_MESSAGES_WITH_ACK
      then dr_wish r = WishGet \<or> dr_wish r = WishBackup
      else if dr_amount r = AmountAll then \<not> dr_part r \<ge> sx_parts (request_section s)
      else dr_part r = 0)"

definition check_parameter_index :: "'d sysex_conf \<Rightarrow> bool" where
  "check_parameter_index s \<longleftrightarrow> dr_index (decoded_request s) < sx_number_of_parameters (request_section s)"

definition check_new_value :: "'d sysex_conf \<Rightarrow> bool" where
  "check_new_value s =
     (let min_value = sx_new_value_min (request_section s);
          max_value = sx_new_value_max (request_section s)
      in if min_value \<noteq> max_value
         then dr_new_value (decoded_request s) \<ge> min_value \<and> dr_new_value (decoded_request s) \<le> max_value
         else True)"

definition generate_message_length :: "'d sysex_conf \<Rightarrow> u16" where
  "generate_message_length s =
     (let r = decoded_request s in
      if dr_amount r = AmountSingle then of_nat STD_REQ_MIN_MSG_SIZE
      else if dr_wish r = WishGet \<or> dr_wish r = WishBackup then of_nat STD_REQ_MIN_MSG_SIZE
      else let sec = request_section s; n = sx_number_of_parameters sec;
               n = (if n > of_nat PARAMS_PER_MESSAGE
                    then if unat (dr_part r) + 1 = unat (sx_parts sec)
                         then n - (ucast (sx_parts sec) - 1) * of_nat PARAMS_PER_MESSAGE
                         else of_nat PARAMS_PER_MESSAGE
                    else n)
           in n * of_nat BYTES_PER_VALUE + (of_nat IndexByte + 1))"

definition decode_standard_request :: "u8 list \<Rightarrow> 'd sysex_conf \<Rightarrow> bool \<times> 'd sysex_conf" where
  "decode_standard_request message s =
     (if length message = SPECIAL_REQ_MSG_SIZE then (True, s)
      else if length message < STD_REQ_MIN_MSG_SIZE - BYTES_PER_VALUE then (False, set_status ErrorMessageLength s)
      else if \<not> configuration_enabled s then (False, set_status ErrorConnection s)
      else let s = s\<lparr>decoded_request := (decoded_request s)\<lparr>dr_part := message ! PartByte, dr_wish := message ! WishByte,
                 dr_amount := message ! AmountByte, dr_block := message ! BlockByte, dr_section := message ! SectionByte\<rparr>\<rparr>
      in if \<not> check_wish s then (False, set_status ErrorWish s)
         else if \<not> check_block s then (False, set_status ErrorBlock s)
         else if \<not> check_section s then (False, set_status ErrorSection s)
         else if \<not> check_amount s then (False, set_status ErrorAmount s)
         else if \<not> check_part s then (False, set_status ErrorPart s)
         else if length message \<noteq> unat (generate_message_length s) then (False, set_status ErrorMessageLength s)
         else let s = set_status StAck s in
           if dr_amount (decoded_request s) = AmountSingle then
             let s = s\<lparr>decoded_request := (decoded_request s)\<lparr>dr_index := merge14 (message ! IndexByte) (message ! (IndexByte + 1))\<rparr>\<rparr>
             in if dr_wish (decoded_request s) = WishSet
                then (True, s\<lparr>decoded_request := (decoded_request s)\<lparr>dr_new_value :=
                       merge14 (message ! (IndexByte + BYTES_PER_VALUE)) (message ! (IndexByte + BYTES_PER_VALUE + 1))\<rparr>\<rparr>)
                else (True, s)
           else (True, s))"

section \<open>Standard requests\<close>

definition get_value :: "'d sx_handler \<Rightarrow> u16 \<Rightarrow> 'd sysex_conf \<Rightarrow> bool \<times> 'd sysex_conf" where
  "get_value H index s =
     (case dh_get H (dr_block (decoded_request s)) (dr_section (decoded_request s)) index (sx_data s) of
        ((result, val), d) \<Rightarrow>
          let s = s\<lparr>sx_data := d\<rparr> in
          if result = StAck then (True, snd (add_to_response val s))
          else if user_error_ignore_mode_enabled s then (True, snd (add_to_response 0 s))
          else (False, set_status result s))"

definition set_value :: "'d sx_handler \<Rightarrow> u16 \<Rightarrow> 'd sysex_conf \<Rightarrow> bool \<times> 'd sysex_conf" where
  "set_value H index s =
     (if \<not> check_new_value s then (False, set_status ErrorNewValue s)
      else case dh_set H (dr_block (decoded_request s)) (dr_section (decoded_request s)) index
                  (dr_new_value (decoded_request s)) (sx_data s) of
        (result, d) \<Rightarrow>
          let s = s\<lparr>sx_data := d\<rparr> in
          if result = StAck then (True, s)
          else if \<not> user_error_ignore_mode_enabled s then (False, set_status result s)
          else (True, s))"

text \<open>One round of the inner loop, for parameter \<open>i\<close>.\<close>

definition process_param :: "'d sx_handler \<Rightarrow> nat \<Rightarrow> nat \<Rightarrow> 'd sysex_conf \<Rightarrow> bool \<times> 'd sysex_conf" where
  "process_param H start_index i s =
     (let r = decoded_request s in
      if dr_amount r = AmountSingle \<and> \<not> check_parameter_index s then (False, set_status ErrorIndex s)
      else if dr_wish r = WishGet then get_value H (if dr_amount r = AmountSingle then dr_index r else of_nat i) s
      else if dr_amount r = AmountSingle then set_value H (dr_index r) s
      else let array_index = (i - start_index) * BYTES_PER_VALUE + IndexByte
           in set_value H (of_nat i) (s\<lparr>decoded_request := r\<lparr>dr_new_value :=
                merge14 (response_array s ! array_index) (response_array s ! (array_index + 1))\<rparr>\<rparr>))"

fun process_params :: "'d sx_handler \<Rightarrow> nat \<Rightarrow> nat list \<Rightarrow> 'd sysex_conf \<Rightarrow> bool \<times> 'd sysex_conf" where
  "process_params H start_index [] s = (True, s)"
| "process_params H start_index (i # is) s = and_then (process_param H start_index i s) (process_params H start_index is)"

definition part_range :: "'d sysex_conf \<Rightarrow> nat \<times> nat" where
  "part_range s =
     (if dr_amount (decoded_request s) = AmountAll
      then let start_index = PARAMS_PER_MESSAGE * unat (dr_part (decoded_request s))
           in (start_index, min (start_index + PARAMS_PER_MESSAGE) (unat (sx_number_of_parameters (request_section s))))
      else (0, 1))"

fun process_parts :: "ump_api \<Rightarrow> 'd sx_handler \<Rightarrow> bool \<Rightarrow> nat \<Rightarrow> nat list \<Rightarrow> 'd sysex_conf \<Rightarrow> bool \<times> 'd sysex_conf" where
  "process_parts A H all_parts_loop counter_local [] s = (True, s)"
| "process_parts A H all_parts_loop counter_local (j # js) s =
     (let s = s\<lparr>response_counter := counter_local\<rparr>;
          s = (if all_parts_loop
               then set_byte PartByte (of_nat j) (s\<lparr>decoded_request := (decoded_request s)\<lparr>dr_part := of_nat j\<rparr>\<rparr>)
               else s)
      in case part_range s of (start_index, end_index) \<Rightarrow>
         and_then (process_params H start_index [start_index ..< end_index] s)
           (\<lambda>s. process_parts A H all_parts_loop counter_local js (send_response A H s)))"

definition all_parts_ack_message :: "'d sysex_conf \<Rightarrow> u8 list" where
  "all_parts_ack_message s =
     [SYS_EX_START, id1 (sx_manufacturer_id s), id2 (sx_manufacturer_id s), id3 (sx_manufacturer_id s), status_code StAck,
      PART_ALL_MESSAGES_ACK_PART, dr_wish (decoded_request s), dr_amount (decoded_request s), dr_block (decoded_request s),
      dr_section (decoded_request s), 0, 0, 0, 0]"

definition process_standard_request :: "ump_api \<Rightarrow> 'd sx_handler \<Rightarrow> nat \<Rightarrow> 'd sysex_conf \<Rightarrow> bool \<times> 'd sysex_conf" where
  "process_standard_request A H received_array_size s =
     (let r = decoded_request s;
          reads = (dr_wish r = WishBackup \<or> dr_wish r = WishGet);
          all_parts_loop = (reads \<and> (dr_part r = PART_ALL_MESSAGES \<or> dr_part r = PART_ALL_MESSAGES_WITH_ACK));
          all_parts_ack = (reads \<and> dr_part r = PART_ALL_MESSAGES_WITH_ACK);
          msg_parts_loop = (if all_parts_loop then unat (sx_parts (request_section s)) else 1);
          counter_local = (if dr_wish r = WishBackup then received_array_size - 1 - 2 * BYTES_PER_VALUE else response_counter s);
          s = (if dr_wish r = WishBackup
               then (set_byte WishByte WishSet (set_byte StatusByte (status_code StRequest) s))\<lparr>decoded_request := r\<lparr>dr_wish := WishGet\<rparr>\<rparr>
               else s)
      in and_then (process_parts A H all_parts_loop counter_local [0 ..< msg_parts_loop] s) (\<lambda>s.
         if all_parts_ack
         then (True, send_response A H (put_bytes (all_parts_ack_message s) (s\<lparr>response_counter := 0\<rparr>)))
         else (True, s)))"

section \<open>Special requests\<close>

definition process_custom_request :: "'d sx_handler \<Rightarrow> custom_request_entry \<Rightarrow> 'd sysex_conf \<Rightarrow> 'd sysex_conf" where
  "process_custom_request H request s =
     (if configuration_enabled s \<or> \<not> conn_open_check request then
        let s = set_status StAck s in
        case dh_custom_request H (request_id request) (response_room s) (sx_data s) of
          ((result, vals), d) \<Rightarrow>
            (case custom_append vals (False, s\<lparr>sx_data := d\<rparr>) of
               (True, s) \<Rightarrow> set_status ErrorRead s
             | (False, s) \<Rightarrow>
                 (if result = StAck then s else if result = StRequest then set_status ErrorStatus s else set_status result s))
      else set_status ErrorConnection s)"

definition process_special_request :: "'d sx_handler \<Rightarrow> 'd sysex_conf \<Rightarrow> 'd sysex_conf" where
  "process_special_request H s =
     (let w = response_array s ! WishByte in
      if w = ConnClose then
        if \<not> configuration_enabled s then set_status ErrorConnection s
        else set_status StAck (s\<lparr>configuration_enabled := False\<rparr>)
      else if w = ConnOpen then set_status StAck (s\<lparr>configuration_enabled := True\<rparr>)
      else if w = BytesPerValue then
        if configuration_enabled s then put_bytes [0, of_nat BYTES_PER_VALUE] (set_status StAck s)
        else set_status ErrorConnection s
      else if w = ParamsPerMessage then
        if configuration_enabled s then put_bytes [0, of_nat PARAMS_PER_MESSAGE] (set_status StAck s)
        else set_status ErrorConnection s
      else case find (\<lambda>r. request_id r = ucast w) (custom_requests s) of
          Some request \<Rightarrow> process_custom_request H request s
        | None \<Rightarrow> set_status ErrorWish s)"

section \<open>Messages\<close>

definition handle_request :: "ump_api \<Rightarrow> 'd sx_handler \<Rightarrow> u8 list \<Rightarrow> 'd sysex_conf \<Rightarrow> 'd sysex_conf" where
  "handle_request A H message s =
     (if sx_layout s = [] then s
      else if length message < SPECIAL_REQ_MSG_SIZE then s
      else if message ! 0 \<noteq> SYS_EX_START then s
      else if message ! (length message - 1) \<noteq> SYS_EX_END then s
      else if length message > MAX_MESSAGE_SIZE then s
      else let s = reset_decoded_request s;
               s = s\<lparr>response_array := overwrite 0 message (response_array s), response_counter := length message - 1\<rparr>
      in if \<not> check_manufacturer_id s then s
         else if \<not> check_status s then send_response A H (set_status ErrorStatus s)
         else case decode_standard_request message s of
             (True, s) \<Rightarrow>
               if length message = SPECIAL_REQ_MSG_SIZE then send_response A H (process_special_request H s)
               else (case process_standard_request A H (length message) s of
                       (True, s) \<Rightarrow> s
                     | (False, s) \<Rightarrow> send_response A H (reset_decoded_request s))
           | (False, s) \<Rightarrow> send_response A H (reset_decoded_request s))"

definition handle_packet :: "ump_api \<Rightarrow> 'd sx_handler \<Rightarrow> midi_ump \<Rightarrow> 'd sysex_conf \<Rightarrow> 'd sysex_conf" where
  "handle_packet A H packet s =
     (if \<not> is_sysex7_packet A packet then reset_ump_message s
      else let status = sysex7_status packet; n = unat (sysex7_payload_size packet);
               starts_frame = sysex7_starts_message status; ends_frame = sysex7_ends_message status
      in if \<not> starts_frame \<and> \<not> ump_message_active s then s
         else let s = (if starts_frame then (put_byte SYS_EX_START (reset_ump_message s))\<lparr>ump_message_active := True\<rparr> else s);
                  required_size = response_counter s + n + (if ends_frame then 1 else 0)
         in if required_size > MAX_MESSAGE_SIZE then reset_ump_message s
            else let s = put_bytes (map (read_sysex7_payload_byte packet) [0 ..< n]) s
            in if \<not> ends_frame then s
               else let s = (put_byte SYS_EX_END s)\<lparr>ump_message_active := False\<rparr>
               in reset_ump_message (handle_request A H (take (response_counter s) (response_array s)) s))"

definition send_custom_message :: "ump_api \<Rightarrow> 'd sx_handler \<Rightarrow> u16 list \<Rightarrow> bool \<Rightarrow> 'd sysex_conf \<Rightarrow> 'd sysex_conf" where
  "send_custom_message A H vals ack s =
     (let s = s\<lparr>response_counter := 0\<rparr>;
          s = put_bytes [SYS_EX_START, id1 (sx_manufacturer_id s), id2 (sx_manufacturer_id s), id3 (sx_manufacturer_id s),
                (if ack then status_code StAck else status_code StRequest), 0] s;
          s = put_bytes (map ucast vals) s
      in send_response A H s)"

end
