(* ===== verification/Sysex_Conf_Buffer.thy ===== *)
theory Sysex_Conf_Buffer
  imports Sysex_Conf Midi_Stream
begin

text \<open>
  The response buffer: what appending and sending do while the array has room, and which parts
  of the state no operation on the buffer touches. \<open>sent\<close> is the handler state after the packets
  of a payload went out.
\<close>

section \<open>Configuration and buffer\<close>

definition cfg :: "'d sysex_conf \<Rightarrow> manufacturer_id \<times> bool \<times> bool \<times> bool \<times> sx_layout \<times> custom_request_entry list" where
  "cfg s = (sx_manufacturer_id s, configuration_enabled s, user_error_ignore_mode_enabled s, ump_message_active s,
     sx_layout s, custom_requests s)"

lemma cfg_eqD:
  assumes "cfg s = cfg t"
  shows "sx_manufacturer_id s = sx_manufacturer_id t" "configuration_enabled s = configuration_enabled t"
    "user_error_ignore_mode_enabled s = user_error_ignore_mode_enabled t" "ump_message_active s = ump_message_active t"
    "sx_layout s = sx_layout t" "custom_requests s = custom_requests t"
  using assms by (simp_all add: cfg_def)

definition sx_ok :: "'d sysex_conf \<Rightarrow> bool" where
  "sx_ok s \<longleftrightarrow> length (response_array s) = MAX_MESSAGE_SIZE \<and> \<not> array_overrun s \<and> \<not> send_hangs s"

text \<open>A response under construction: it starts with the SysEx byte and its end byte still fits.\<close>

definition sx_building :: "'d sysex_conf \<Rightarrow> bool" where
  "sx_building s \<longleftrightarrow> sx_ok s \<and> response_array s ! 0 = SYS_EX_START \<and> 2 \<le> response_counter s \<and>
     response_counter s < MAX_MESSAGE_SIZE"

lemma put_byte_eq:
  "response_counter s < MAX_MESSAGE_SIZE \<Longrightarrow> put_byte b s =
     s\<lparr>response_array := (response_array s)[response_counter s := b], response_counter := response_counter s + 1\<rparr>"
  by (simp add: put_byte_def)

lemma overwrite_cons: "i < length xs \<Longrightarrow> overwrite (Suc i) bs (xs[i := b]) = overwrite i (b # bs) xs"
  by (simp add: overwrite_def take_Suc_conv_app_nth)

lemma put_bytes_eq:
  "length (response_array s) = MAX_MESSAGE_SIZE \<Longrightarrow> response_counter s + length bs \<le> MAX_MESSAGE_SIZE \<Longrightarrow>
   put_bytes bs s = s\<lparr>response_array := overwrite (response_counter s) bs (response_array s),
     response_counter := response_counter s + length bs\<rparr>"
proof (induction bs arbitrary: s)
  case Nil
  then show ?case by (simp add: put_bytes_def overwrite_def)
next
  case (Cons b bs)
  then show ?case
    by (simp add: put_bytes_def put_byte_eq overwrite_cons del: MAX_MESSAGE_SIZE_def)
qed

lemma cfg_put_byte [simp]: "cfg (put_byte b s) = cfg s"
  by (simp add: put_byte_def cfg_def)

lemma cfg_put_bytes [simp]: "cfg (put_bytes bs s) = cfg s"
  by (induction bs arbitrary: s) (simp_all add: put_bytes_def)

lemma put_byte_fields [simp]:
  "decoded_request (put_byte b s) = decoded_request s" "sx_data (put_byte b s) = sx_data s"
  by (simp_all add: put_byte_def)

lemma put_bytes_fields [simp]:
  "decoded_request (put_bytes bs s) = decoded_request s" "sx_data (put_bytes bs s) = sx_data s"
  by (induction bs arbitrary: s) (simp_all add: put_bytes_def)

lemma set_byte_fields [simp]:
  "cfg (set_byte i b s) = cfg s" "decoded_request (set_byte i b s) = decoded_request s"
  "sx_data (set_byte i b s) = sx_data s" "response_counter (set_byte i b s) = response_counter s"
  "sx_ok (set_byte i b s) = sx_ok s" "0 < i \<Longrightarrow> sx_building (set_byte i b s) = sx_building s"
  by (simp_all add: set_byte_def cfg_def sx_ok_def sx_building_def)

lemma set_status_fields [simp]:
  "cfg (set_status st s) = cfg s" "decoded_request (set_status st s) = decoded_request s"
  "sx_data (set_status st s) = sx_data s" "response_counter (set_status st s) = response_counter s"
  "sx_ok (set_status st s) = sx_ok s" "sx_building (set_status st s) = sx_building s"
  by (simp_all add: set_status_def)

lemma sx_request_update_fields [simp]:
  "cfg (s\<lparr>decoded_request := r\<rparr>) = cfg s" "sx_ok (s\<lparr>decoded_request := r\<rparr>) = sx_ok s"
  "sx_building (s\<lparr>decoded_request := r\<rparr>) = sx_building s"
  "cfg (s\<lparr>sx_data := d\<rparr>) = cfg s" "sx_ok (s\<lparr>sx_data := d\<rparr>) = sx_ok s" "sx_building (s\<lparr>sx_data := d\<rparr>) = sx_building s"
  "cfg (s\<lparr>response_counter := n\<rparr>) = cfg s" "sx_ok (s\<lparr>response_counter := n\<rparr>) = sx_ok s"
  "cfg (s\<lparr>response_array := a\<rparr>) = cfg s" "cfg (s\<lparr>send_hangs := h\<rparr>) = cfg s"
  "sx_ok (s\<lparr>ump_message_active := u\<rparr>) = sx_ok s" "sx_ok (s\<lparr>configuration_enabled := c\<rparr>) = sx_ok s"
  "sx_building (s\<lparr>configuration_enabled := c\<rparr>) = sx_building s"
  by (simp_all add: cfg_def sx_ok_def sx_building_def)

lemma status_code_masked: "status_code st AND MIDI_DATA_BYTE_MASK = status_code st"
  by (cases st) (simp_all add: model_defs)

lemma set_status_eq: "set_status st s = s\<lparr>response_array := (response_array s)[StatusByte := status_code st]\<rparr>"
  by (simp only: set_status_def set_byte_def status_code_masked)

section \<open>Sending\<close>

definition sent :: "ump_api \<Rightarrow> 'd sx_handler \<Rightarrow> u8 list \<Rightarrow> 'd \<Rightarrow> 'd" where
  "sent A H payload d = snd (write_all (dh_send_response H) (msg_packets A 0 (SysExMsg payload)) d)"

lemma send_response_eq:
  assumes "sx_building s"
  shows "send_response A H s =
    s\<lparr>response_array := (response_array s)[response_counter s := SYS_EX_END], response_counter := response_counter s + 1,
      sx_data := sent A H (slice 1 (response_counter s - 1) (response_array s)) (sx_data s)\<rparr>"
proof -
  let ?c = "response_counter s" and ?a = "response_array s"
  have c: "2 \<le> ?c" "?c < length ?a" "length ?a = MAX_MESSAGE_SIZE" "?a ! 0 = SYS_EX_START"
    using assms by (simp_all add: sx_building_def sx_ok_def)
  let ?p = "slice 1 (?c - 1) ?a"
  have "0 < length ?p" "length ?p - 0 \<le> MAX_MESSAGE_SIZE" "chunks ?p = chunks (drop 0 ?p)" using c by simp_all
  from packets_loop_chunks [OF this, of A 0 "dh_send_response H" "sx_data s"]
  have loop: "write_sysex7_payload_as_ump_packets MAX_MESSAGE_SIZE A 0 ?p (dh_send_response H) (sx_data s) =
      Some (write_all (dh_send_response H) (msg_packets A 0 (SysExMsg ?p)) (sx_data s))"
    by (simp only: write_sysex7_payload_as_ump_packets_def msg_packets.simps if_True simp_thms)
  define r where "r = take (Suc ?c) (?a[?c := SYS_EX_END])"
  have r: "r = take ?c ?a @ [SYS_EX_END]" using c(2) by (simp add: r_def take_Suc_conv_app_nth)
  have "length r = ?c + 1" using c(2) by (simp add: r)
  moreover have "hd r = SYS_EX_START" using c by (cases ?a) (auto simp: r take_Cons')
  moreover have "last r = SYS_EX_END" unfolding r by (rule last_snoc)
  moreover have "slice 1 (?c - 1) r = ?p" using c(1,2) unfolding r slice_def by (simp add: drop_take)
  moreover have "put_byte SYS_EX_END s = s\<lparr>response_array := ?a[?c := SYS_EX_END], response_counter := ?c + 1\<rparr>"
    using c(2,3) by (simp add: put_byte_def del: MAX_MESSAGE_SIZE_def)
  ultimately show ?thesis
    using loop c(1) unfolding send_response_def Let_def
    by (simp add: r_def [symmetric] sent_def del: take_update_swap SYS_EX_START_def SYS_EX_END_def split: prod.splits)
qed

lemma sx_ok_put_bytes:
  "sx_ok s \<Longrightarrow> response_counter s + length bs \<le> MAX_MESSAGE_SIZE \<Longrightarrow> sx_ok (put_bytes bs s)"
  by (simp add: sx_ok_def put_bytes_eq)

lemma sx_building_put_bytes:
  "sx_building s \<Longrightarrow> response_counter s + length bs < MAX_MESSAGE_SIZE \<Longrightarrow> sx_building (put_bytes bs s)"
  by (auto simp: sx_building_def sx_ok_def put_bytes_eq nth_overwrite)

lemma put_bytes_counter:
  "length (response_array s) = MAX_MESSAGE_SIZE \<Longrightarrow> response_counter s + length bs \<le> MAX_MESSAGE_SIZE \<Longrightarrow>
    response_counter (put_bytes bs s) = response_counter s + length bs"
  by (simp add: put_bytes_eq)

lemma cfg_send_response [simp]: "cfg (send_response A H s) = cfg s"
  by (auto simp: send_response_def Let_def split: option.splits)

lemma send_response_request [simp]: "decoded_request (send_response A H s) = decoded_request s"
  by (auto simp: send_response_def Let_def split: option.splits)

lemma send_response_ok:
  assumes "sx_building s"
  shows "sx_ok (send_response A H s)" "response_array (send_response A H s) ! 0 = SYS_EX_START"
    "0 < i \<Longrightarrow> i < response_counter s \<Longrightarrow> response_array (send_response A H s) ! i = response_array s ! i"
proof -
  have "0 < response_counter s" "0 < length (response_array s)" using assms by (auto simp: sx_building_def sx_ok_def)
  then show "sx_ok (send_response A H s)" "response_array (send_response A H s) ! 0 = SYS_EX_START"
    "0 < i \<Longrightarrow> i < response_counter s \<Longrightarrow> response_array (send_response A H s) ! i = response_array s ! i"
    using assms unfolding send_response_eq [OF assms] by (simp_all add: sx_building_def sx_ok_def)
qed

end
