(* ===== verification/Sysex_Conf_Safety.thy ===== *)
theory Sysex_Conf_Safety
  imports Sysex_Conf_Buffer
begin

text \<open>
  Every way through a request keeps the response inside the array and sends with a payload, and
  touches the configuration only through the connection requests. The proofs follow the code:
  values, parts, standard and special requests, messages, packets.
\<close>

section \<open>Values\<close>

lemma add_to_response_eq:
  "add_to_response v s =
     (if response_counter s \<ge> MAX_MESSAGE_SIZE - 1 then (False, s)
      else (True, put_bytes [fst (split14 v), snd (split14 v)] s))"
  by (simp add: add_to_response_def split: prod.splits)

lemma add_to_response_fields [simp]:
  "cfg (snd (add_to_response v s)) = cfg s" "decoded_request (snd (add_to_response v s)) = decoded_request s"
  "sx_data (snd (add_to_response v s)) = sx_data s"
  by (simp_all add: add_to_response_eq)

definition std_building :: "'d sysex_conf \<Rightarrow> bool" where
  "std_building s \<longleftrightarrow> sx_building s \<and> (dr_wish (decoded_request s) = WishGet \<longrightarrow> even (response_counter s))"

lemma add_to_response_building:
  assumes "sx_building s" "even (response_counter s)"
  shows "sx_building (snd (add_to_response v s)) \<and> even (response_counter (snd (add_to_response v s)))"
proof (cases "response_counter s \<ge> MAX_MESSAGE_SIZE - 1")
  case False
  then have "response_counter s + 2 < MAX_MESSAGE_SIZE" using assms(2) by (auto elim!: evenE)
  moreover have "length (response_array s) = MAX_MESSAGE_SIZE" using assms by (simp add: sx_building_def sx_ok_def)
  ultimately show ?thesis
    using assms sx_building_put_bytes [of s "[fst (split14 v), snd (split14 v)]"]
      put_bytes_counter [of s "[fst (split14 v), snd (split14 v)]"] False
    by (simp add: add_to_response_eq)
qed (use assms in \<open>simp add: add_to_response_eq\<close>)

lemma get_value_fields [simp]:
  "cfg (snd (get_value H i s)) = cfg s" "decoded_request (snd (get_value H i s)) = decoded_request s"
  by (simp_all add: get_value_def Let_def split: prod.splits)

lemma set_value_fields [simp]:
  "cfg (snd (set_value H i s)) = cfg s" "decoded_request (snd (set_value H i s)) = decoded_request s"
  "response_counter (snd (set_value H i s)) = response_counter s"
  "sx_building (snd (set_value H i s)) = sx_building s"
  by (simp_all add: set_value_def Let_def split: prod.splits)

lemma get_value_building:
  assumes "sx_building s" "even (response_counter s)"
  shows "sx_building (snd (get_value H i s)) \<and> even (response_counter (snd (get_value H i s)))"
  using assms add_to_response_building [of "s\<lparr>sx_data := d\<rparr>" v for d v]
  by (simp add: get_value_def Let_def split: prod.splits)

section \<open>Parameters and parts\<close>

text \<open>The fields of a request that no step of a standard request changes.\<close>

definition req :: "'d sysex_conf \<Rightarrow> u8 \<times> u8 \<times> u8 \<times> u8 \<times> u16" where
  "req s = (case decoded_request s of r \<Rightarrow> (dr_wish r, dr_amount r, dr_block r, dr_section r, dr_index r))"

lemma process_param_fields [simp]:
  "cfg (snd (process_param H si i s)) = cfg s" "req (snd (process_param H si i s)) = req s"
  "dr_part (decoded_request (snd (process_param H si i s))) = dr_part (decoded_request s)"
  by (simp_all add: process_param_def Let_def req_def)

lemma process_param_building:
  "std_building s \<Longrightarrow> std_building (snd (process_param H si i s))"
  using get_value_building [of s H "if dr_amount (decoded_request s) = AmountSingle then dr_index (decoded_request s) else of_nat i"]
  by (auto simp: process_param_def Let_def std_building_def)

lemma and_then_induct:
  "P (snd r) \<Longrightarrow> (\<And>s. r = (True, s) \<Longrightarrow> P s \<Longrightarrow> P (snd (k s))) \<Longrightarrow> P (snd (and_then r k))"
  by (cases r) (auto simp: and_then_def)

lemma process_params_fields [simp]:
  "cfg (snd (process_params H si is s)) = cfg s" "req (snd (process_params H si is s)) = req s"
proof -
  have "cfg (snd (process_params H si is s)) = cfg s \<and> req (snd (process_params H si is s)) = req s"
  proof (induction "is" arbitrary: s)
    case (Cons i "is")
    show ?case unfolding process_params.simps
      by (rule and_then_induct) (use Cons process_param_fields [of H si i s] in simp_all)
  qed simp
  then show "cfg (snd (process_params H si is s)) = cfg s" "req (snd (process_params H si is s)) = req s" by simp_all
qed

lemma process_params_building:
  "std_building s \<Longrightarrow> std_building (snd (process_params H si is s))"
proof (induction "is" arbitrary: s)
  case (Cons i "is")
  show ?case unfolding process_params.simps
    by (rule and_then_induct) (use Cons process_param_building in blast)+
qed simp

text \<open>The state at the start of a part.\<close>

definition part_start :: "bool \<Rightarrow> nat \<Rightarrow> nat \<Rightarrow> 'd sysex_conf \<Rightarrow> 'd sysex_conf" where
  "part_start all_parts_loop c j s =
     (if all_parts_loop
      then set_byte PartByte (of_nat j) (s\<lparr>response_counter := c, decoded_request := (decoded_request s)\<lparr>dr_part := of_nat j\<rparr>\<rparr>)
      else s\<lparr>response_counter := c\<rparr>)"

lemma process_parts_step:
  "process_parts A H all_parts_loop c (j # js) s =
     (let u = part_start all_parts_loop c j s
      in and_then (process_params H (fst (part_range u)) [fst (part_range u) ..< snd (part_range u)] u)
           (\<lambda>s. process_parts A H all_parts_loop c js (send_response A H s)))"
  by (simp add: part_start_def Let_def split: prod.splits)

declare process_parts.simps(2) [simp del]

lemma part_start_fields [simp]:
  "cfg (part_start al c j s) = cfg s" "req (part_start al c j s) = req s" "sx_data (part_start al c j s) = sx_data s"
  "response_counter (part_start al c j s) = c"
  by (simp_all add: part_start_def req_def)

lemma send_response_req [simp]: "req (send_response A H s) = req s"
  by (simp add: req_def)

lemma std_building_next:
  assumes "sx_ok s" "response_array s ! 0 = SYS_EX_START" "2 \<le> c" "c < MAX_MESSAGE_SIZE"
    "dr_wish (decoded_request s) = WishGet \<longrightarrow> even c"
  shows "std_building (part_start al c j s)"
  using assms by (simp add: std_building_def sx_building_def sx_ok_def part_start_def set_byte_def)

lemma process_parts_fields [simp]:
  "cfg (snd (process_parts A H al c js s)) = cfg s" "req (snd (process_parts A H al c js s)) = req s"
proof -
  have "cfg (snd (process_parts A H al c js s)) = cfg s \<and> req (snd (process_parts A H al c js s)) = req s"
  proof (induction js arbitrary: s)
    case (Cons j js)
    let ?u = "part_start al c j s"
    let ?si = "fst (part_range ?u)" and ?ei = "snd (part_range ?u)"
    show ?case unfolding process_parts_step Let_def
      by (rule and_then_induct) (use Cons process_params_fields [of H ?si "[?si ..< ?ei]" ?u] in simp_all)
  qed simp
  then show "cfg (snd (process_parts A H al c js s)) = cfg s" "req (snd (process_parts A H al c js s)) = req s" by simp_all
qed

lemma process_parts_ok:
  assumes "sx_ok s" "response_array s ! 0 = SYS_EX_START" "2 \<le> c" "c < MAX_MESSAGE_SIZE"
    "dr_wish (decoded_request s) = WishGet \<longrightarrow> even c" "process_parts A H al c js s = (b, t)"
  shows "if b then sx_ok t \<and> response_array t ! 0 = SYS_EX_START else sx_building t"
  using assms(1,2,5,6)
proof (induction js arbitrary: s)
  case (Cons j js)
  let ?u = "part_start al c j s"
  let ?si = "fst (part_range ?u)" and ?ei = "snd (part_range ?u)"
  obtain ok v where v: "process_params H ?si [?si ..< ?ei] ?u = (ok, v)" by (cases "process_params H ?si [?si ..< ?ei] ?u")
  have v': "std_building v"
    using process_params_building [of ?u H ?si "[?si ..< ?ei]"] std_building_next [OF Cons(2,3) assms(3,4) Cons(4), where al = al and j = j] v by simp
  then have b: "sx_building v" by (simp add: std_building_def)
  have "req v = req s" using process_params_fields(2) [of H ?si "[?si ..< ?ei]" ?u] v by simp
  then have w: "dr_wish (decoded_request v) = dr_wish (decoded_request s)" by (simp add: req_def)
  note sr = send_response_ok [OF b, where A = A and H = H]
  show ?case
    using Cons(1) [OF sr(1,2)] Cons(4,5) w b v by (cases ok) (auto simp: process_parts_step Let_def)
qed simp

section \<open>Requests\<close>

text \<open>What decoding a standard request has checked when it succeeds.\<close>

definition valid_request :: "nat \<Rightarrow> 'd sysex_conf \<Rightarrow> bool" where
  "valid_request len s \<longleftrightarrow> configuration_enabled s \<and> check_wish s \<and> check_block s \<and> check_section s \<and> check_amount s \<and>
     check_part s \<and> len = unat (generate_message_length s)"

lemmas request_checks = check_wish_def check_block_def check_section_def check_amount_def check_part_def
  generate_message_length_def request_section_def

text \<open>The checks read the configuration and the request's fields without index and value.\<close>

lemma valid_request_cong:
  assumes "cfg s = cfg t" "dr_wish (decoded_request s) = dr_wish (decoded_request t)"
    "dr_amount (decoded_request s) = dr_amount (decoded_request t)" "dr_block (decoded_request s) = dr_block (decoded_request t)"
    "dr_section (decoded_request s) = dr_section (decoded_request t)" "dr_part (decoded_request s) = dr_part (decoded_request t)"
  shows "valid_request n s \<longleftrightarrow> valid_request n t"
  using assms cfg_eqD [OF assms(1)] by (simp add: valid_request_def request_checks Let_def)

lemma decode_fields [simp]:
  "cfg (snd (decode_standard_request m s)) = cfg s" "sx_data (snd (decode_standard_request m s)) = sx_data s"
  "response_counter (snd (decode_standard_request m s)) = response_counter s"
  "sx_building (snd (decode_standard_request m s)) = sx_building s" "sx_ok (snd (decode_standard_request m s)) = sx_ok s"
  by (simp_all add: decode_standard_request_def Let_def)

lemma decode_valid:
  assumes "decode_standard_request m s = (True, t)" "length m \<noteq> SPECIAL_REQ_MSG_SIZE"
  shows "valid_request (length m) t"
proof -
  let ?s = "s\<lparr>decoded_request := (decoded_request s)\<lparr>dr_part := m ! PartByte, dr_wish := m ! WishByte,
    dr_amount := m ! AmountByte, dr_block := m ! BlockByte, dr_section := m ! SectionByte\<rparr>\<rparr>"
  have v: "valid_request (length m) ?s"
    using assms unfolding valid_request_def decode_standard_request_def Let_def
    by (auto split: if_splits simp del: SPECIAL_REQ_MSG_SIZE_def STD_REQ_MIN_MSG_SIZE_def)
  have "dr_wish (decoded_request t) = m ! WishByte \<and> dr_amount (decoded_request t) = m ! AmountByte \<and>
      dr_block (decoded_request t) = m ! BlockByte \<and> dr_section (decoded_request t) = m ! SectionByte \<and>
      dr_part (decoded_request t) = m ! PartByte"
    using assms unfolding decode_standard_request_def Let_def set_status_eq
    by (auto split: if_splits simp del: SPECIAL_REQ_MSG_SIZE_def STD_REQ_MIN_MSG_SIZE_def)
  moreover have "cfg t = cfg s" using decode_fields(1) [of m s] assms(1) by simp
  ultimately show ?thesis using v by (subst valid_request_cong [of t ?s]) simp_all
qed

lemma u8_le_2: "(x :: u8) \<le> 2 \<Longrightarrow> x = 0 \<or> x = 1 \<or> x = 2"
proof -
  assume "x \<le> 2"
  then have "unat x = 0 \<or> unat x = 1 \<or> unat x = 2" by (simp add: word_le_nat_alt) arith
  then show ?thesis by (auto simp: word_unat_eq_iff)
qed

lemma valid_read_length:
  "valid_request len s \<Longrightarrow> dr_wish (decoded_request s) \<noteq> WishSet \<Longrightarrow> len = STD_REQ_MIN_MSG_SIZE"
  using u8_le_2 [of "dr_wish (decoded_request s)"]
  by (auto simp: valid_request_def generate_message_length_def check_wish_def Let_def split: if_splits)

text \<open>The request as its parts are processed: a backup has become a read of a request message.\<close>

definition std_start :: "'d sysex_conf \<Rightarrow> 'd sysex_conf" where
  "std_start s =
     (if dr_wish (decoded_request s) = WishBackup
      then (set_byte WishByte WishSet (set_byte StatusByte (status_code StRequest) s))
             \<lparr>decoded_request := (decoded_request s)\<lparr>dr_wish := WishGet\<rparr>\<rparr>
      else s)"

definition all_parts_wanted :: "'d sysex_conf \<Rightarrow> bool" where
  "all_parts_wanted s \<longleftrightarrow> (dr_wish (decoded_request s) = WishBackup \<or> dr_wish (decoded_request s) = WishGet) \<and>
     (dr_part (decoded_request s) = PART_ALL_MESSAGES \<or> dr_part (decoded_request s) = PART_ALL_MESSAGES_WITH_ACK)"

definition wanted_parts :: "'d sysex_conf \<Rightarrow> nat list" where
  "wanted_parts s = [0 ..< (if all_parts_wanted s then unat (sx_parts (request_section s)) else 1)]"

definition std_counter :: "nat \<Rightarrow> 'd sysex_conf \<Rightarrow> nat" where
  "std_counter len s =
     (if dr_wish (decoded_request s) = WishBackup then len - 1 - 2 * BYTES_PER_VALUE else response_counter s)"

lemma process_standard_request_eq:
  "process_standard_request A H len s =
     and_then (process_parts A H (all_parts_wanted s) (std_counter len s) (wanted_parts s) (std_start s)) (\<lambda>t.
       (True, if all_parts_wanted s \<and> dr_part (decoded_request s) = PART_ALL_MESSAGES_WITH_ACK
              then send_response A H (put_bytes (all_parts_ack_message t) (t\<lparr>response_counter := 0\<rparr>)) else t))"
  unfolding process_standard_request_def Let_def std_start_def all_parts_wanted_def wanted_parts_def std_counter_def
  by (rule arg_cong2 [of _ _ _ _ and_then]) auto

lemma std_start_fields [simp]:
  "cfg (std_start s) = cfg s" "sx_ok (std_start s) = sx_ok s" "sx_data (std_start s) = sx_data s"
  "response_counter (std_start s) = response_counter s"
  by (simp_all add: std_start_def)

lemma process_standard_request_fields [simp]:
  "cfg (snd (process_standard_request A H n s)) = cfg s"
  unfolding process_standard_request_eq by (rule and_then_induct) auto

lemma process_standard_request_ok:
  assumes "sx_building s" "valid_request len s" "response_counter s = len - 1"
    "process_standard_request A H len s = (b, t)"
  shows "if b then sx_ok t else sx_building t"
proof -
  let ?c = "std_counter len s"
  have len: "dr_wish (decoded_request s) \<noteq> WishSet \<Longrightarrow> len = STD_REQ_MIN_MSG_SIZE"
    using valid_read_length [OF assms(2)] .
  have "sx_ok s" "response_array s ! 0 = SYS_EX_START" using assms(1) by (simp_all add: sx_building_def)
  then have a0: "response_array (std_start s) ! 0 = SYS_EX_START" "sx_ok (std_start s)"
    by (simp_all add: std_start_def set_byte_def del: SYS_EX_START_def) (simp_all add: sx_ok_def)
  have c: "2 \<le> ?c" "?c < MAX_MESSAGE_SIZE" "dr_wish (decoded_request (std_start s)) = WishGet \<longrightarrow> even ?c"
    using assms(1,3) len by (auto simp: std_counter_def std_start_def sx_building_def)
  obtain ok u where u: "process_parts A H (all_parts_wanted s) ?c (wanted_parts s) (std_start s) = (ok, u)"
    by (cases "process_parts A H (all_parts_wanted s) ?c (wanted_parts s) (std_start s)")
  note pp = process_parts_ok [OF a0(2,1) c u]
  have ack: "sx_ok (send_response A H (put_bytes (all_parts_ack_message u) (u\<lparr>response_counter := 0\<rparr>)))" if "sx_ok u"
  proof -
    have "length (response_array u) = MAX_MESSAGE_SIZE" using that by (simp add: sx_ok_def)
    then have "sx_building (put_bytes (all_parts_ack_message u) (u\<lparr>response_counter := 0\<rparr>))"
      using that by (simp add: put_bytes_eq sx_building_def sx_ok_def all_parts_ack_message_def nth_overwrite)
    then show ?thesis by (rule send_response_ok)
  qed
  show ?thesis using assms(4) u pp ack by (cases ok) (auto simp: process_standard_request_eq)
qed

section \<open>Special requests\<close>

lemma custom_append_keeps:
  assumes "sx_building s"
  shows "sx_building (snd (custom_append vals (b, s))) \<and> cfg (snd (custom_append vals (b, s))) = cfg s \<and>
    sx_data (snd (custom_append vals (b, s))) = sx_data s \<and> decoded_request (snd (custom_append vals (b, s))) = decoded_request s"
  using assms
proof (induction vals arbitrary: b s)
  case (Cons v vals)
  let ?v = "v AND VALUE_14BIT_MASK"
  let ?p = "put_bytes [fst (split14 ?v), snd (split14 ?v)] s"
  have "sx_building ?p" if "\<not> response_counter s + BYTES_PER_VALUE \<ge> MAX_MESSAGE_SIZE"
    using that sx_building_put_bytes [OF Cons(2), of "[fst (split14 ?v), snd (split14 ?v)]"] by simp
  then show ?case
    using Cons(1) [of s True] Cons(1) [of ?p b] Cons(2) by (simp add: Let_def split_def del: VALUE_14BIT_MASK_def)
qed simp

lemma process_custom_request_keeps:
  assumes "sx_building s"
  shows "sx_building (process_custom_request H r s) \<and> cfg (process_custom_request H r s) = cfg s"
proof (cases "configuration_enabled s \<or> \<not> conn_open_check r")
  case True
  obtain res vals d where h: "dh_custom_request H (request_id r) (response_room (set_status StAck s)) (sx_data s) = ((res, vals), d)"
    by (metis surj_pair)
  let ?s = "(set_status StAck s)\<lparr>sx_data := d\<rparr>"
  obtain ov t where t: "custom_append vals (False, ?s) = (ov, t)" by fastforce
  have "sx_building t \<and> cfg t = cfg s" using custom_append_keeps [of ?s vals False] assms t by simp
  then show ?thesis using True h t by (simp add: process_custom_request_def Let_def split: bool.splits)
qed (use assms in \<open>simp add: process_custom_request_def\<close>)

text \<open>Only the two connection requests change the configuration, and only the open flag.\<close>

definition opens :: "u8 \<Rightarrow> bool \<Rightarrow> bool" where
  "opens w conn = (if w = ConnClose then False else if w = ConnOpen then True else conn)"

lemma process_special_request_keeps:
  assumes "sx_building s" "response_counter s + 2 < MAX_MESSAGE_SIZE"
  shows "sx_building (process_special_request H s) \<and>
    cfg (process_special_request H s) = cfg (s\<lparr>configuration_enabled := opens (response_array s ! WishByte) (configuration_enabled s)\<rparr>)"
proof -
  have two: "sx_building (put_bytes [a, b] (set_status st s))" for a b st
    using sx_building_put_bytes [of "set_status st s" "[a, b]"] assms by simp
  have upd: "set_status st (s\<lparr>configuration_enabled := c\<rparr>) = (set_status st s)\<lparr>configuration_enabled := c\<rparr>"
    "cfg ((set_status st s)\<lparr>configuration_enabled := c\<rparr>) = cfg (s\<lparr>configuration_enabled := c\<rparr>)" for c st
    by (simp_all add: set_status_eq cfg_def)
  have same: "cfg (s\<lparr>configuration_enabled := configuration_enabled s\<rparr>) = cfg s"
    "\<not> configuration_enabled s \<Longrightarrow> cfg (s\<lparr>configuration_enabled := False\<rparr>) = cfg s"
    by (simp_all add: cfg_def)
  let ?w = "response_array s ! WishByte"
  consider "?w = ConnClose" | "?w = ConnOpen" | "?w = BytesPerValue" | "?w = ParamsPerMessage"
    | "?w \<noteq> ConnClose" "?w \<noteq> ConnOpen" "?w \<noteq> BytesPerValue" "?w \<noteq> ParamsPerMessage" by blast
  then show ?thesis
  proof cases
    case 5
    then have "process_special_request H s =
        (case find (\<lambda>r. request_id r = ucast ?w) (custom_requests s) of
          Some request \<Rightarrow> process_custom_request H request s | None \<Rightarrow> set_status ErrorWish s)"
      unfolding process_special_request_def Let_def by (simp only: if_False)
    then show ?thesis
      using assms(1) process_custom_request_keeps [OF assms(1), of H] same(1) 5
      by (simp add: opens_def split: option.splits)
  qed (use assms(1) in \<open>simp_all add: process_special_request_def opens_def two upd same\<close>)
qed

end
