(* ===== verification/Sysex_Conf_Session.thy ===== *)
theory Sysex_Conf_Session
  imports Sysex_Conf_Safety
begin

text \<open>
  Whole messages and packets: the state a request is handled in, the case distinction the code
  makes on it, the invariant of the object under every public operation, and how the packets of
  a message are put together.
\<close>

section \<open>Handling a message\<close>

definition well_framed :: "u8 list \<Rightarrow> 'd sysex_conf \<Rightarrow> bool" where
  "well_framed m s \<longleftrightarrow> sx_layout s \<noteq> [] \<and> SPECIAL_REQ_MSG_SIZE \<le> length m \<and> m ! 0 = SYS_EX_START \<and>
     m ! (length m - 1) = SYS_EX_END \<and> length m \<le> MAX_MESSAGE_SIZE"

definition own_id :: "u8 list \<Rightarrow> 'd sysex_conf \<Rightarrow> bool" where
  "own_id m s \<longleftrightarrow> m ! IdByte1 = id1 (sx_manufacturer_id s) \<and> m ! IdByte2 = id2 (sx_manufacturer_id s) \<and>
     m ! IdByte3 = id3 (sx_manufacturer_id s)"

text \<open>The request is in the response array and the response continues before its last byte.\<close>

definition loaded :: "u8 list \<Rightarrow> 'd sysex_conf \<Rightarrow> 'd sysex_conf" where
  "loaded m s = (reset_decoded_request s)\<lparr>response_array := overwrite 0 m (response_array s), response_counter := length m - 1\<rparr>"

lemma loaded_fields [simp]:
  "cfg (loaded m s) = cfg s" "sx_data (loaded m s) = sx_data s" "response_counter (loaded m s) = length m - 1"
  by (simp_all add: loaded_def reset_decoded_request_def cfg_def)

lemma loaded_nth:
  "length (response_array s) = MAX_MESSAGE_SIZE \<Longrightarrow> length m \<le> MAX_MESSAGE_SIZE \<Longrightarrow> i < length m \<Longrightarrow>
    response_array (loaded m s) ! i = m ! i"
  by (simp add: loaded_def nth_overwrite)

lemma loaded_building:
  assumes "sx_ok s" "well_framed m s"
  shows "sx_building (loaded m s)"
proof -
  have "response_array (loaded m s) ! 0 = SYS_EX_START"
    using loaded_nth [of s m 0] assms by (cases m) (simp_all add: sx_ok_def well_framed_def)
  then show ?thesis
    using assms by (auto simp: sx_building_def sx_ok_def loaded_def reset_decoded_request_def well_framed_def)
qed

definition answer_standard :: "ump_api \<Rightarrow> 'd sx_handler \<Rightarrow> nat \<Rightarrow> 'd sysex_conf \<Rightarrow> 'd sysex_conf" where
  "answer_standard A H len s =
     (case process_standard_request A H len s of (True, s) \<Rightarrow> s | (False, s) \<Rightarrow> send_response A H (reset_decoded_request s))"

lemma handle_request_eq:
  assumes "sx_ok s"
  shows "handle_request A H m s =
    (if \<not> well_framed m s then s
     else if \<not> own_id m s then loaded m s
     else if m ! StatusByte \<noteq> status_code StRequest then send_response A H (set_status ErrorStatus (loaded m s))
     else if length m = SPECIAL_REQ_MSG_SIZE then send_response A H (process_special_request H (loaded m s))
     else case decode_standard_request m (loaded m s) of
         (True, t) \<Rightarrow> answer_standard A H (length m) t
       | (False, t) \<Rightarrow> send_response A H (reset_decoded_request t))"
proof (cases "well_framed m s")
  case False
  then show ?thesis by (auto simp: handle_request_def well_framed_def simp del: SYS_EX_START_def SYS_EX_END_def)
next
  case True
  have len: "length (response_array s) = MAX_MESSAGE_SIZE" "SPECIAL_REQ_MSG_SIZE \<le> length m" "length m \<le> MAX_MESSAGE_SIZE"
    using assms True by (simp_all add: sx_ok_def well_framed_def)
  have nth: "i < 8 \<Longrightarrow> response_array (loaded m s) ! i = m ! i" for i
    using loaded_nth [of s m i] len by simp
  have id: "check_manufacturer_id (loaded m s) \<longleftrightarrow> own_id m s"
    using cfg_eqD(1) [of "loaded m s" s] by (simp add: check_manufacturer_id_def own_id_def nth)
  have st: "check_status (loaded m s) \<longleftrightarrow> m ! StatusByte = status_code StRequest"
    by (simp add: check_status_def nth)
  have dec: "decode_standard_request m t = (True, t)" if "length m = SPECIAL_REQ_MSG_SIZE" for t :: "'a sysex_conf"
    using that by (simp add: decode_standard_request_def)
  have ld: "(reset_decoded_request s)\<lparr>response_array := overwrite 0 m (response_array (reset_decoded_request s)),
      response_counter := length m - 1\<rparr> = loaded m s"
    by (simp add: loaded_def reset_decoded_request_def)
  have "handle_request A H m s =
     (if \<not> check_manufacturer_id (loaded m s) then loaded m s
      else if \<not> check_status (loaded m s) then send_response A H (set_status ErrorStatus (loaded m s))
      else case decode_standard_request m (loaded m s) of
             (True, s) \<Rightarrow>
               if length m = SPECIAL_REQ_MSG_SIZE then send_response A H (process_special_request H s)
               else answer_standard A H (length m) s
           | (False, s) \<Rightarrow> send_response A H (reset_decoded_request s))"
    using True unfolding handle_request_def well_framed_def answer_standard_def Let_def ld
    by (simp del: SYS_EX_START_def SYS_EX_END_def)
  then show ?thesis using True id st dec by (simp split: prod.splits bool.splits)
qed

lemma reset_decoded_request_fields [simp]:
  "cfg (reset_decoded_request s) = cfg s" "sx_building (reset_decoded_request s) = sx_building s"
  "sx_ok (reset_decoded_request s) = sx_ok s" "sx_data (reset_decoded_request s) = sx_data s"
  "response_array (reset_decoded_request s) = response_array s" "response_counter (reset_decoded_request s) = response_counter s"
  by (simp_all add: reset_decoded_request_def)

definition is_special :: "u8 list \<Rightarrow> 'd sysex_conf \<Rightarrow> bool" where
  "is_special m s \<longleftrightarrow> well_framed m s \<and> own_id m s \<and> m ! StatusByte = status_code StRequest \<and> length m = SPECIAL_REQ_MSG_SIZE"

lemma handle_request_keeps:
  assumes "sx_ok s"
  shows "sx_ok (handle_request A H m s) \<and>
    cfg (handle_request A H m s) =
      cfg (s\<lparr>configuration_enabled := (if is_special m s then opens (m ! WishByte) (configuration_enabled s) else configuration_enabled s)\<rparr>)"
proof -
  have same: "cfg (s\<lparr>configuration_enabled := configuration_enabled s\<rparr>) = cfg s" by (simp add: cfg_def)
  show ?thesis
  proof (cases "well_framed m s \<and> own_id m s \<and> m ! StatusByte = status_code StRequest")
    case False
    then show ?thesis using assms same loaded_building [OF assms, of m]
      by (auto simp: handle_request_eq [OF assms] is_special_def send_response_ok) (simp_all add: sx_building_def)
  next
    case True
    then have b: "sx_building (loaded m s)" using loaded_building [OF assms] by simp
    show ?thesis
    proof (cases "length m = SPECIAL_REQ_MSG_SIZE")
      case special: True
      have w: "response_array (loaded m s) ! WishByte = m ! WishByte"
        using loaded_nth [of s m WishByte] assms special True by (simp add: sx_ok_def well_framed_def)
      have e: "configuration_enabled (loaded m s) = configuration_enabled s" using cfg_eqD(2) [of "loaded m s" s] by simp
      have "cfg ((loaded m s)\<lparr>configuration_enabled := c\<rparr>) = cfg (s\<lparr>configuration_enabled := c\<rparr>)" for c
        by (simp add: loaded_def reset_decoded_request_def cfg_def)
      then show ?thesis
        using process_special_request_keeps [OF b, of H] special True w e
        by (simp add: handle_request_eq [OF assms] is_special_def send_response_ok(1) del: SPECIAL_REQ_MSG_SIZE_def WishByte_def)
          (simp add: send_response_ok(1))
    next
      case standard: False
      obtain ok t where d: "decode_standard_request m (loaded m s) = (ok, t)" by fastforce
      have t: "sx_building t" "cfg t = cfg s" "response_counter t = length m - 1"
        using decode_fields [of m "loaded m s"] b d by simp_all
      have "sx_ok (answer_standard A H (length m) t) \<and> cfg (answer_standard A H (length m) t) = cfg s" if ok
      proof -
        have v: "valid_request (length m) t" using decode_valid [of m "loaded m s" t] d that standard by simp
        obtain b' u where u: "process_standard_request A H (length m) t = (b', u)" by fastforce
        have "cfg u = cfg s" using process_standard_request_fields [of A H "length m" t] u t(2) by simp
        then show ?thesis
          using process_standard_request_ok [OF t(1) v t(3) u] u
          by (cases b') (simp_all add: answer_standard_def send_response_ok)
      qed
      then show ?thesis
        using True standard d same t(1,2)
        by (simp add: handle_request_eq [OF assms] is_special_def send_response_ok split: bool.splits)
    qed
  qed
qed

section \<open>The object's invariant\<close>

definition sx_inv :: "'d sysex_conf \<Rightarrow> bool" where
  "sx_inv s \<longleftrightarrow> sx_ok s \<and>
     (ump_message_active s \<longrightarrow> response_array s ! 0 = SYS_EX_START \<and> 1 \<le> response_counter s \<and> response_counter s \<le> MAX_MESSAGE_SIZE)"

text \<open>The state in which \<open>handle_packet\<close> appends a packet's payload, and the finished message.\<close>

definition frame_start :: "u8 \<Rightarrow> 'd sysex_conf \<Rightarrow> 'd sysex_conf" where
  "frame_start status s =
     (if sysex7_starts_message status then (put_byte SYS_EX_START (reset_ump_message s))\<lparr>ump_message_active := True\<rparr> else s)"

definition finish_message :: "ump_api \<Rightarrow> 'd sx_handler \<Rightarrow> 'd sysex_conf \<Rightarrow> 'd sysex_conf" where
  "finish_message A H s =
     (let s = (put_byte SYS_EX_END s)\<lparr>ump_message_active := False\<rparr>
      in reset_ump_message (handle_request A H (take (response_counter s) (response_array s)) s))"

lemma handle_packet_eq:
  "handle_packet A H packet s =
     (let status = sysex7_status packet; n = unat (sysex7_payload_size packet); ends = sysex7_ends_message status;
          u = frame_start status s
      in if \<not> is_sysex7_packet A packet then reset_ump_message s
         else if \<not> sysex7_starts_message status \<and> \<not> ump_message_active s then s
         else if response_counter u + n + (if ends then 1 else 0) > MAX_MESSAGE_SIZE then reset_ump_message u
         else let u = put_bytes (map (read_sysex7_payload_byte packet) [0 ..< n]) u
              in if ends then finish_message A H u else u)"
  by (simp add: handle_packet_def frame_start_def finish_message_def Let_def)

lemma reset_ump_fields [simp]:
  "sx_ok (reset_ump_message s) = sx_ok s" "sx_inv (reset_ump_message s) = sx_ok s" "sx_data (reset_ump_message s) = sx_data s"
  "configuration_enabled (reset_ump_message s) = configuration_enabled s" "sx_layout (reset_ump_message s) = sx_layout s"
  by (simp_all add: reset_ump_message_def sx_ok_def sx_inv_def)

lemma frame_start_inv:
  assumes "sx_inv s" "sysex7_starts_message st \<or> ump_message_active s"
  shows "sx_inv (frame_start st s)" "ump_message_active (frame_start st s)"
  using assms by (auto simp: frame_start_def sx_inv_def sx_ok_def put_byte_def reset_ump_message_def)

lemma put_bytes_inv:
  assumes "sx_inv s" "ump_message_active s" "response_counter s + length bs \<le> MAX_MESSAGE_SIZE"
  shows "sx_inv (put_bytes bs s)" "ump_message_active (put_bytes bs s)"
proof -
  have "length (response_array s) = MAX_MESSAGE_SIZE" "1 \<le> response_counter s" "0 < length (response_array s)"
    using assms(1,2) by (simp_all add: sx_inv_def sx_ok_def)
  then show "sx_inv (put_bytes bs s)" "ump_message_active (put_bytes bs s)"
    using assms by (simp_all add: put_bytes_eq sx_inv_def sx_ok_def nth_overwrite)
qed

lemma finish_message_inv:
  assumes "sx_inv s" "response_counter s < MAX_MESSAGE_SIZE"
  shows "sx_inv (finish_message A H s)"
proof -
  have "sx_ok ((put_byte SYS_EX_END s)\<lparr>ump_message_active := False\<rparr>)"
    using assms by (simp add: put_byte_eq sx_inv_def sx_ok_def)
  then show ?thesis by (simp add: finish_message_def Let_def handle_request_keeps)
qed

lemma handle_packet_inv: "sx_inv s \<Longrightarrow> sx_inv (handle_packet A H packet s)"
proof -
  assume inv: "sx_inv s"
  let ?st = "sysex7_status packet" and ?n = "unat (sysex7_payload_size packet)"
  let ?u = "frame_start ?st s" and ?bs = "map (read_sysex7_payload_byte packet) [0 ..< unat (sysex7_payload_size packet)]"
  have ok: "sx_ok s" using inv by (simp add: sx_inv_def)
  show ?thesis
  proof (cases "is_sysex7_packet A packet \<and> (sysex7_starts_message ?st \<or> ump_message_active s)")
    case True
    then have u: "sx_inv ?u" "ump_message_active ?u" using frame_start_inv [OF inv] by simp_all
    have uok: "sx_ok ?u" using u by (simp add: sx_inv_def)
    show ?thesis
    proof (cases "response_counter ?u + ?n + (if sysex7_ends_message ?st then 1 else 0) > MAX_MESSAGE_SIZE")
      case True
      then show ?thesis using inv ok uok by (simp add: handle_packet_eq Let_def)
    next
      case False
      then have fits: "response_counter ?u + length ?bs \<le> MAX_MESSAGE_SIZE" by (simp split: if_splits)
      note v = put_bytes_inv [OF u fits]
      have "length (response_array ?u) = MAX_MESSAGE_SIZE" using uok by (simp add: sx_ok_def)
      then have "response_counter (put_bytes ?bs ?u) = response_counter ?u + ?n" using put_bytes_counter [OF _ fits] by simp
      then have "sysex7_ends_message ?st \<Longrightarrow> sx_inv (finish_message A H (put_bytes ?bs ?u))"
        using finish_message_inv [OF v(1)] False by simp
      then show ?thesis using True False v(1) unfolding handle_packet_eq Let_def by (auto simp del: MAX_MESSAGE_SIZE_def)
    qed
  qed (use inv ok in \<open>auto simp: handle_packet_eq Let_def\<close>)
qed

section \<open>Sessions\<close>

datatype sx_op = Packet midi_ump | Reset | SetLayout sx_layout | SetupCustomRequests "custom_request_entry list"
  | CloseConnection | IgnoreUserErrors bool | SendCustom "u16 list" bool

fun sx_run :: "ump_api \<Rightarrow> 'd sx_handler \<Rightarrow> sx_op \<Rightarrow> 'd sysex_conf \<Rightarrow> 'd sysex_conf" where
  "sx_run A H (Packet p) s = handle_packet A H p s"
| "sx_run A H Reset s = sx_reset s"
| "sx_run A H (SetLayout l) s = snd (sx_set_layout l s)"
| "sx_run A H (SetupCustomRequests rs) s = snd (setup_custom_requests rs s)"
| "sx_run A H CloseConnection s = close_connection s"
| "sx_run A H (IgnoreUserErrors b) s = set_user_error_ignore_mode b s"
| "sx_run A H (SendCustom vals ack) s = send_custom_message A H vals ack s"

definition sx_session :: "ump_api \<Rightarrow> 'd sx_handler \<Rightarrow> sx_op list \<Rightarrow> 'd sysex_conf \<Rightarrow> 'd sysex_conf" where
  "sx_session A H ops s = fold (sx_run A H) ops s"

definition custom_max :: nat where "custom_max = MAX_MESSAGE_SIZE - 7"

fun custom_fits :: "sx_op \<Rightarrow> bool" where
  "custom_fits (SendCustom vals ack) = (length vals \<le> custom_max)"
| "custom_fits _ = True"

definition custom_header :: "bool \<Rightarrow> 'd sysex_conf \<Rightarrow> u8 list" where
  "custom_header ack s = [SYS_EX_START, id1 (sx_manufacturer_id s), id2 (sx_manufacturer_id s), id3 (sx_manufacturer_id s),
     (if ack then status_code StAck else status_code StRequest), 0]"

lemma put_bytes_append: "put_bytes (xs @ ys) s = put_bytes ys (put_bytes xs s)"
  by (simp add: put_bytes_def)

lemma send_custom_message_eq:
  "send_custom_message A H vals ack s = send_response A H (put_bytes (custom_header ack s @ map ucast vals) (s\<lparr>response_counter := 0\<rparr>))"
  unfolding put_bytes_append by (simp add: send_custom_message_def custom_header_def Let_def)

lemma send_custom_building:
  assumes "sx_ok s" "length vals \<le> custom_max"
  shows "sx_building (put_bytes (custom_header ack s @ map ucast vals) (s\<lparr>response_counter := 0\<rparr>))"
proof -
  let ?bs = "custom_header ack s @ map ucast vals"
  have "length (response_array s) = MAX_MESSAGE_SIZE" "length ?bs = length vals + 6" "?bs ! 0 = SYS_EX_START"
    using assms(1) by (simp_all add: sx_ok_def custom_header_def)
  then show ?thesis
    using assms by (simp add: put_bytes_eq sx_building_def sx_ok_def nth_overwrite custom_max_def)
qed

lemma sx_run_inv: "sx_inv s \<Longrightarrow> custom_fits x \<Longrightarrow> sx_inv (sx_run A H x s)"
proof (cases x)
  case (Packet p)
  assume "sx_inv s"
  then show ?thesis using Packet by (simp add: handle_packet_inv)
next
  case (SendCustom vals ack)
  assume "sx_inv s" "custom_fits x"
  then have b: "sx_building (put_bytes (custom_header ack s @ map ucast vals) (s\<lparr>response_counter := 0\<rparr>))"
    (is "sx_building ?s") using send_custom_building [of s vals ack] SendCustom by (simp add: sx_inv_def)
  have "response_counter (send_response A H ?s) \<le> MAX_MESSAGE_SIZE" "1 \<le> response_counter (send_response A H ?s)"
    using b unfolding send_response_eq [OF b] by (simp_all add: sx_building_def)
  then show ?thesis using send_response_ok(1,2) [OF b, of A H] SendCustom
    by (simp add: send_custom_message_eq sx_inv_def)
qed (auto simp: sx_reset_def reset_ump_message_def sx_set_layout_def setup_custom_requests_def close_connection_def
    set_user_error_ignore_mode_def sx_inv_def sx_ok_def Let_def)

lemma sx_session_inv: "sx_inv s \<Longrightarrow> list_all custom_fits ops \<Longrightarrow> sx_inv (sx_session A H ops s)"
  unfolding sx_session_def by (induction ops arbitrary: s) (simp_all add: sx_run_inv)

lemma sx_new_inv: "sx_inv (sysex_conf_new d mid)"
  by (simp add: sx_inv_def sx_ok_def sysex_conf_new_def)

end
