(* ===== verification/Sysex_Conf_Guard.thy ===== *)
theory Sysex_Conf_Guard
  imports Sysex_Conf_Session
begin

text \<open>
  The checks in front of the user's \<open>DataHandler\<close>: two handlers that agree on the parameters and
  values of the layout, or on nothing while no connection is open, are handled alike. So the
  handler is never asked for a parameter outside the layout and never given a value outside the
  section's range.
\<close>

definition in_layout :: "sx_layout \<Rightarrow> u8 \<Rightarrow> u8 \<Rightarrow> u16 \<Rightarrow> bool" where
  "in_layout L b sec i \<longleftrightarrow> unat b < length L \<and> unat sec < length (L ! unat b) \<and>
     i < sx_number_of_parameters (L ! unat b ! unat sec)"

definition accepts :: "sx_layout \<Rightarrow> u8 \<Rightarrow> u8 \<Rightarrow> u16 \<Rightarrow> bool" where
  "accepts L b sec v \<longleftrightarrow> (let x = L ! unat b ! unat sec in sx_new_value_min x \<noteq> sx_new_value_max x \<longrightarrow>
     sx_new_value_min x \<le> v \<and> v \<le> sx_new_value_max x)"

definition agree :: "sx_layout \<Rightarrow> 'd sx_handler \<Rightarrow> 'd sx_handler \<Rightarrow> bool" where
  "agree L H H' \<longleftrightarrow> dh_send_response H = dh_send_response H' \<and> dh_custom_request H = dh_custom_request H' \<and>
     (\<forall>b sec i. in_layout L b sec i \<longrightarrow> dh_get H b sec i = dh_get H' b sec i \<and>
        (\<forall>v. accepts L b sec v \<longrightarrow> dh_set H b sec i v = dh_set H' b sec i v))"

text \<open>The part of the layout a request may reach.\<close>

definition reachable_layout :: "'d sysex_conf \<Rightarrow> sx_layout" where
  "reachable_layout s = (if configuration_enabled s then sx_layout s else [])"

definition may_access :: "'d sysex_conf \<Rightarrow> u16 \<Rightarrow> bool" where
  "may_access s i \<longleftrightarrow> in_layout (reachable_layout s) (dr_block (decoded_request s)) (dr_section (decoded_request s)) i"

lemma may_access_cong: "cfg s = cfg t \<Longrightarrow> req s = req t \<Longrightarrow> may_access s i = may_access t i"
  using cfg_eqD [of s t] by (simp add: may_access_def reachable_layout_def req_def)

lemma reachable_layout_cong: "cfg s = cfg t \<Longrightarrow> reachable_layout s = reachable_layout t"
  using cfg_eqD [of s t] by (simp add: reachable_layout_def)

lemma reachable_layout_request [simp]: "reachable_layout (s\<lparr>decoded_request := r\<rparr>) = reachable_layout s"
  by (rule reachable_layout_cong) simp

lemma may_access_open: "may_access s i \<Longrightarrow> reachable_layout s = sx_layout s"
  by (auto simp: may_access_def reachable_layout_def in_layout_def split: if_splits)

lemma agree_get: "agree (reachable_layout s) H H' \<Longrightarrow> may_access s i \<Longrightarrow> get_value H i s = get_value H' i s"
  by (simp add: get_value_def agree_def may_access_def)

lemma agree_set: "agree (reachable_layout s) H H' \<Longrightarrow> may_access s i \<Longrightarrow> set_value H i s = set_value H' i s"
proof -
  assume a: "agree (reachable_layout s) H H'" "may_access s i"
  have "check_new_value s \<longrightarrow> accepts (reachable_layout s) (dr_block (decoded_request s)) (dr_section (decoded_request s)) (dr_new_value (decoded_request s))"
    using may_access_open [OF a(2)] by (simp add: check_new_value_def accepts_def request_section_def Let_def)
  then show ?thesis using a by (simp add: set_value_def agree_def may_access_def)
qed

lemma agree_process_param:
  assumes "agree (reachable_layout s) H H'" "dr_amount (decoded_request s) \<noteq> AmountSingle \<longrightarrow> may_access s (of_nat i)"
    "unat (dr_block (decoded_request s)) < length (reachable_layout s)"
    "unat (dr_section (decoded_request s)) < length (reachable_layout s ! unat (dr_block (decoded_request s)))"
  shows "process_param H si i s = process_param H' si i s"
proof -
  have c: "check_parameter_index s \<Longrightarrow> may_access s (dr_index (decoded_request s))"
    using assms(3,4) by (auto simp: check_parameter_index_def may_access_def in_layout_def request_section_def reachable_layout_def split: if_splits)
  have u: "set_value H (of_nat i) (s\<lparr>decoded_request := (decoded_request s)\<lparr>dr_new_value := v\<rparr>\<rparr>) =
      set_value H' (of_nat i) (s\<lparr>decoded_request := (decoded_request s)\<lparr>dr_new_value := v\<rparr>\<rparr>)"
    if "may_access s (of_nat i)" for v
    using assms(1) that by (intro agree_set) (simp_all add: may_access_def)
  show ?thesis
    using assms(1,2) c agree_get [of s H H'] agree_set [of s H H'] u
    by (auto simp: process_param_def Let_def)
qed

definition block_section_ok :: "'d sysex_conf \<Rightarrow> bool" where
  "block_section_ok s \<longleftrightarrow> configuration_enabled s \<and> check_block s \<and> check_section s"

lemma block_section_ok_cong: "cfg s = cfg t \<Longrightarrow> req s = req t \<Longrightarrow> block_section_ok s = block_section_ok t"
  using cfg_eqD [of s t] by (simp add: block_section_ok_def check_block_def check_section_def req_def)

lemma agree_process_params:
  assumes "agree (reachable_layout s) H H'" "block_section_ok s"
    "dr_amount (decoded_request s) \<noteq> AmountSingle \<longrightarrow> (\<forall>i \<in> set is. i < unat (sx_number_of_parameters (request_section s)))"
  shows "process_params H si is s = process_params H' si is s"
  using assms
proof (induction "is" arbitrary: s)
  case (Cons i "is")
  have acc: "dr_amount (decoded_request s) \<noteq> AmountSingle \<longrightarrow> may_access s (of_nat i)"
  proof
    assume "dr_amount (decoded_request s) \<noteq> AmountSingle"
    then have i: "i < unat (sx_number_of_parameters (request_section s))" using Cons(4) by simp
    have "unat (sx_number_of_parameters (request_section s)) < 2 ^ LENGTH(16)" by (rule unsigned_less)
    then have "of_nat i < sx_number_of_parameters (request_section s)" using i by (simp add: word_less_nat_alt unat_of_nat take_bit_nat_eq_self)
    then show "may_access s (of_nat i)"
      using Cons(3) by (simp add: may_access_def in_layout_def reachable_layout_def block_section_ok_def check_block_def
          check_section_def request_section_def)
  qed
  have one: "process_param H si i s = process_param H' si i s"
    by (rule agree_process_param [OF Cons(2) acc])
      (use Cons(3) in \<open>simp_all add: block_section_ok_def reachable_layout_def check_block_def check_section_def\<close>)
  have "process_params H si is t = process_params H' si is t" if "process_param H' si i s = (True, t)" for t
  proof -
    have t: "cfg t = cfg s" "req t = req s" using process_param_fields [of H' si i s] that by simp_all
    then have "request_section t = request_section s" "dr_amount (decoded_request t) = dr_amount (decoded_request s)"
      using cfg_eqD [OF t(1)] by (simp_all add: request_section_def req_def)
    then show ?thesis
      using Cons(1) [of t] Cons(2-4) reachable_layout_cong [OF t(1)] block_section_ok_cong [OF t] by simp
  qed
  then show ?case unfolding process_params.simps one by (rule and_then_cong [OF refl])
qed simp

lemma agree_send: "agree L H H' \<Longrightarrow> send_response A H s = send_response A H' s"
  by (simp add: send_response_def agree_def Let_def)

lemma amount_all: "check_amount s \<Longrightarrow> dr_amount (decoded_request s) \<noteq> AmountSingle \<Longrightarrow> dr_amount (decoded_request s) = AmountAll"
proof -
  assume "check_amount s" and n: "dr_amount (decoded_request s) \<noteq> AmountSingle"
  then have "unat (dr_amount (decoded_request s)) \<le> 1" by (simp add: check_amount_def word_le_nat_alt)
  then show ?thesis using n by (auto simp: word_unat_eq_iff)
qed

lemma agree_process_parts:
  assumes "agree (reachable_layout s) H H'" "block_section_ok s" "check_amount s"
  shows "process_parts A H al c js s = process_parts A H' al c js s"
  using assms
proof (induction js arbitrary: s)
  case (Cons j js)
  let ?u = "part_start al c j s"
  let ?si = "fst (part_range ?u)" and ?ei = "snd (part_range ?u)"
  have u: "cfg ?u = cfg s" "req ?u = req s" by simp_all
  have am: "dr_amount (decoded_request ?u) = dr_amount (decoded_request s)" using u(2) by (simp add: req_def)
  have L: "agree (reachable_layout ?u) H H'" using Cons(2) reachable_layout_cong [OF u(1)] by simp
  have "check_amount ?u" using Cons(4) am by (simp add: check_amount_def)
  then have rng: "dr_amount (decoded_request ?u) \<noteq> AmountSingle \<longrightarrow>
      (\<forall>i \<in> set [?si ..< ?ei]. i < unat (sx_number_of_parameters (request_section ?u)))"
    using amount_all [of ?u] by (auto simp: part_range_def Let_def)
  have one: "process_params H ?si [?si ..< ?ei] ?u = process_params H' ?si [?si ..< ?ei] ?u"
    using agree_process_params [OF L _ rng] block_section_ok_cong [OF u] Cons(3) by simp
  have "process_parts A H al c js (send_response A H t) = process_parts A H' al c js (send_response A H' t)"
    if "process_params H' ?si [?si ..< ?ei] ?u = (True, t)" for t
  proof -
    have t: "cfg (send_response A H' t) = cfg s" "req (send_response A H' t) = req s"
      using process_params_fields [of H' ?si "[?si ..< ?ei]" ?u] that by simp_all
    then have "check_amount (send_response A H' t)" using Cons(4) by (simp add: check_amount_def req_def)
    then show ?thesis
      using Cons(1) [of "send_response A H' t"] Cons(2,3) agree_send [OF Cons(2), of A t]
        reachable_layout_cong [OF t(1)] block_section_ok_cong [OF t] by simp
  qed
  then show ?case unfolding process_parts_step Let_def one by (rule and_then_cong [OF refl])
qed simp

lemma agree_standard:
  assumes "agree (reachable_layout s) H H'" "valid_request len s"
  shows "process_standard_request A H len s = process_standard_request A H' len s"
proof -
  have "reachable_layout (std_start s) = reachable_layout s" by (rule reachable_layout_cong) simp
  moreover have "block_section_ok (std_start s)" "check_amount (std_start s)"
    using assms(2) by (auto simp: valid_request_def block_section_ok_def check_block_def check_section_def check_amount_def
        std_start_def set_byte_def)
  ultimately show ?thesis
    using agree_process_parts [of "std_start s" H H'] assms(1) agree_send [OF assms(1)]
    by (simp add: process_standard_request_eq cong: if_cong)
qed

lemma agree_handle_request:
  assumes "sx_ok s" "agree (reachable_layout s) H H'"
  shows "handle_request A H m s = handle_request A H' m s"
proof -
  have send: "send_response A H t = send_response A H' t" for t by (rule agree_send [OF assms(2)])
  have special: "process_special_request H t = process_special_request H' t" for t
  proof -
    have "process_custom_request H r t = process_custom_request H' r t" for r and t :: "'a sysex_conf"
      using assms(2) by (simp add: process_custom_request_def agree_def)
    then have "process_custom_request H = process_custom_request H'" by (intro ext)
    then show ?thesis unfolding process_special_request_def by (rule ssubst) (rule refl)
  qed
  have "answer_standard A H (length m) t = answer_standard A H' (length m) t"
    if d: "decode_standard_request m (loaded m s) = (True, t)" and "length m \<noteq> SPECIAL_REQ_MSG_SIZE" for t
  proof -
    have "reachable_layout t = reachable_layout s"
      by (rule reachable_layout_cong) (use decode_fields(1) [of m "loaded m s"] d in simp)
    then show ?thesis
      using agree_standard [of t H H' "length m" A] decode_valid [OF d that(2)] assms(2) by (simp add: answer_standard_def send split: prod.splits bool.splits)
  qed
  then show ?thesis
    unfolding handle_request_eq [OF assms(1)] by (simp add: send special cong: if_cong split: prod.splits bool.splits)
qed

lemma agree_handle_packet:
  assumes "sx_inv s" "agree (reachable_layout s) H H'"
  shows "handle_packet A H p s = handle_packet A H' p s"
proof -
  let ?st = "sysex7_status p" and ?n = "unat (sysex7_payload_size p)"
  let ?u = "frame_start ?st s" and ?bs = "map (read_sysex7_payload_byte p) [0 ..< unat (sysex7_payload_size p)]"
  let ?v = "put_bytes ?bs ?u"
  have "finish_message A H ?v = finish_message A H' ?v"
    if "sysex7_starts_message ?st \<or> ump_message_active s" "response_counter ?u + ?n + 1 \<le> MAX_MESSAGE_SIZE"
  proof -
    note u = frame_start_inv [OF assms(1) that(1)]
    have v: "sx_inv ?v" using put_bytes_inv [OF u] that(2) by simp
    have "length (response_array ?u) = MAX_MESSAGE_SIZE" using u(1) by (simp add: sx_inv_def sx_ok_def)
    then have c: "response_counter ?v < MAX_MESSAGE_SIZE" using put_bytes_counter [of ?u ?bs] that(2) by simp
    let ?w = "(put_byte SYS_EX_END ?v)\<lparr>ump_message_active := False\<rparr>"
    have ok: "sx_ok ?w" using v c by (simp add: put_byte_eq sx_inv_def sx_ok_def)
    have "configuration_enabled ?v = configuration_enabled ?u \<and> sx_layout ?v = sx_layout ?u"
      using cfg_eqD [of ?v ?u] by simp
    then have "reachable_layout ?w = reachable_layout s"
      using cfg_eqD [of "put_byte SYS_EX_END ?v" ?v] by (simp add: reachable_layout_def frame_start_def put_byte_def reset_ump_message_def)
    then show ?thesis
      using agree_handle_request [OF ok, of H H'] assms(2) by (simp add: finish_message_def Let_def)
  qed
  then show ?thesis unfolding handle_packet_eq Let_def by (auto simp del: MAX_MESSAGE_SIZE_def split: if_splits)
qed

end
