(* ===== verification/Sysex_Conf_Requests.thy ===== *)
theory Sysex_Conf_Requests
  imports Sysex_Conf_Guard
begin

text \<open>
  What the answers to standard requests are. The error of a request that is not decoded and the
  answer to a request for one parameter are given as reference functions on the bytes of the
  message; the answers to requests for all parameters are the values of a handler that acts as a
  parameter store.
\<close>

section \<open>Messages\<close>

definition enc :: "u16 \<Rightarrow> u8 list" where
  "enc v = [fst (split14 v), snd (split14 v)]"

definition encs :: "u16 list \<Rightarrow> u8 list" where
  "encs vs = concat (map enc vs)"

lemma length_enc [simp]: "length (enc v) = 2"
  by (simp add: enc_def)

lemma length_encs [simp]: "length (encs vs) = 2 * length vs"
  by (induction vs) (simp_all add: encs_def)

lemma encs_simps [simp]: "encs [] = []" "encs (v # vs) = enc v @ encs vs" "encs (vs @ ws) = encs vs @ encs ws"
  by (simp_all add: encs_def)

lemma nth_encs: "i < length vs \<Longrightarrow> encs vs ! (2 * i) = fst (split14 (vs ! i)) \<and> encs vs ! (2 * i + 1) = snd (split14 (vs ! i))"
proof (induction vs arbitrary: i)
  case (Cons v vs)
  then show ?case by (cases i) (auto simp: enc_def nth_append)
qed simp

text \<open>The payload of a message is what lies between its start and end bytes.\<close>

definition payload_of :: "u8 list \<Rightarrow> u8 list" where
  "payload_of m = slice 1 (length m - 2) m"

definition sx_header :: "manufacturer_id \<Rightarrow> u8 \<Rightarrow> u8 \<Rightarrow> u8 \<Rightarrow> u8 \<Rightarrow> u8 \<Rightarrow> u8 \<Rightarrow> u8 list" where
  "sx_header mid st part wish amount b sec = [id1 mid, id2 mid, id3 mid, st, part, wish, amount, b, sec]"

definition sx_message :: "u8 list \<Rightarrow> u8 list" where
  "sx_message p = SYS_EX_START # p @ [SYS_EX_END]"

lemma payload_of_message [simp]: "payload_of (sx_message p) = p"
  by (simp add: payload_of_def sx_message_def slice_def)

text \<open>The reply to a message: the message with another status, and values behind it.\<close>

definition reply :: "sx_status \<Rightarrow> u8 list \<Rightarrow> u8 list" where
  "reply st m = payload_of (m[StatusByte := status_code st])"

lemma send_response_data:
  "sx_building s \<Longrightarrow> sx_data (send_response A H s) =
     sent A H (slice 1 (response_counter s - 1) (response_array s)) (sx_data s)"
  by (simp add: send_response_eq)

lemma slice_loaded:
  assumes "length (response_array s) = MAX_MESSAGE_SIZE" "length m \<le> MAX_MESSAGE_SIZE" "2 \<le> length m"
  shows "slice 1 (length m - 2) ((overwrite 0 m (response_array s))[i := b]) = slice 1 (length m - 2) (m[i := b])"
proof (rule nth_equalityI)
  fix j assume "j < length (slice 1 (length m - 2) ((overwrite 0 m (response_array s))[i := b]))"
  then have "j < length m - 2" by simp
  then have j: "j < length m - 2" "Suc j < length m" by linarith+
  show "slice 1 (length m - 2) ((overwrite 0 m (response_array s))[i := b]) ! j = slice 1 (length m - 2) (m[i := b]) ! j"
    using assms j by (cases "i = Suc j") (simp_all add: nth_slice nth_overwrite)
qed (use assms in simp)

lemma slice_put:
  assumes "length (response_array s) = MAX_MESSAGE_SIZE" "response_counter s + length bs \<le> MAX_MESSAGE_SIZE" "1 \<le> response_counter s"
  shows "slice 1 (response_counter s + length bs - 1) (overwrite (response_counter s) bs (response_array s)) =
    slice 1 (response_counter s - 1) (response_array s) @ bs"
  using assms by (intro nth_equalityI) (auto simp: nth_slice nth_overwrite nth_append)

section \<open>Requests that are not decoded\<close>

definition section_ok :: "sx_section \<Rightarrow> bool" where
  "section_ok x \<longleftrightarrow> unat (sx_parts x) = (unat (sx_number_of_parameters x) + 31) div 32"

definition layout_ok :: "sx_layout \<Rightarrow> bool" where
  "layout_ok L \<longleftrightarrow> list_all (list_all section_ok) L"

text \<open>The parameters of a part of a section.\<close>

definition part_indexes :: "sx_section \<Rightarrow> nat \<Rightarrow> nat list" where
  "part_indexes x p = [32 * p ..< min (32 * p + 32) (unat (sx_number_of_parameters x))]"

definition request_length :: "u8 \<Rightarrow> u8 \<Rightarrow> u8 \<Rightarrow> sx_section \<Rightarrow> nat" where
  "request_length w am p x = (if am = AmountSingle \<or> w \<noteq> WishSet then 15 else 11 + 2 * length (part_indexes x (unat p)))"

definition part_allowed :: "u8 \<Rightarrow> u8 \<Rightarrow> u8 \<Rightarrow> sx_section \<Rightarrow> bool" where
  "part_allowed w am p x \<longleftrightarrow> (if p = 126 \<or> p = 127 then w \<noteq> WishSet else if am = AmountAll then p < sx_parts x else p = 0)"

definition decode_error :: "u8 list \<Rightarrow> 'd sysex_conf \<Rightarrow> sx_status option" where
  "decode_error m s =
     (let w = m ! WishByte; am = m ! AmountByte; p = m ! PartByte; L = sx_layout s;
          b = unat (m ! BlockByte); sec = unat (m ! SectionByte); x = L ! b ! sec
      in if length m < 13 then Some ErrorMessageLength
         else if \<not> configuration_enabled s then Some ErrorConnection
         else if w > WishBackup then Some ErrorWish
         else if length L \<le> b then Some ErrorBlock
         else if length (L ! b) \<le> sec then Some ErrorSection
         else if am > AmountAll then Some ErrorAmount
         else if \<not> part_allowed w am p x then Some ErrorPart
         else if length m \<noteq> request_length w am p x then Some ErrorMessageLength
         else None)"

lemma section_ok_parts:
  assumes "section_ok x" "p < unat (sx_parts x)"
  shows "32 * p < unat (sx_number_of_parameters x)" "unat (sx_number_of_parameters x) \<le> 32 * unat (sx_parts x)"
proof -
  let ?n = "unat (sx_number_of_parameters x)"
  have k: "unat (sx_parts x) = (?n + 31) div 32" using assms(1) by (simp add: section_ok_def)
  have "?n + 31 = (?n + 31) div 32 * 32 + (?n + 31) mod 32" "(?n + 31) mod 32 < 32" by simp_all
  then show "32 * p < ?n" "?n \<le> 32 * unat (sx_parts x)" using assms(2) k by linarith+
qed

lemma u16_of_nat: "n < 2 ^ 16 \<Longrightarrow> unat (of_nat n :: u16) = n"
  by (simp add: unat_of_nat take_bit_nat_eq_self)

lemma generate_message_length_eq:
  assumes "section_ok (request_section s)" "check_part s" "check_amount s" "check_wish s"
  shows "unat (generate_message_length s) =
    request_length (dr_wish (decoded_request s)) (dr_amount (decoded_request s)) (dr_part (decoded_request s)) (request_section s)"
proof (cases "dr_amount (decoded_request s) = AmountSingle \<or> dr_wish (decoded_request s) \<noteq> WishSet")
  case True
  then show ?thesis using u8_le_2 [of "dr_wish (decoded_request s)"] assms(4)
    by (auto simp: generate_message_length_def request_length_def check_wish_def Let_def)
next
  case False
  let ?x = "request_section s" and ?p = "dr_part (decoded_request s)"
  let ?n = "unat (sx_number_of_parameters ?x)"
  have am: "dr_amount (decoded_request s) = AmountAll" "dr_wish (decoded_request s) = WishSet"
    using False amount_all [OF assms(3)] by auto
  then have p: "unat ?p < unat (sx_parts ?x)"
    using assms(2) by (auto simp: check_part_def Let_def not_le word_less_nat_alt split: if_splits)
  note n = section_ok_parts [OF assms(1) p]
  have k: "unat (sx_parts ?x) < 2 ^ LENGTH(8)" by (rule unsigned_less)
  have len: "length (part_indexes ?x (unat ?p)) = min 32 (?n - 32 * unat ?p)" using n(1) by (simp add: part_indexes_def)
  define c :: u16 where "c = (if sx_number_of_parameters ?x > of_nat PARAMS_PER_MESSAGE
    then if unat ?p + 1 = unat (sx_parts ?x)
         then sx_number_of_parameters ?x - (ucast (sx_parts ?x) - 1) * of_nat PARAMS_PER_MESSAGE
         else of_nat PARAMS_PER_MESSAGE
    else sx_number_of_parameters ?x)"
  have c: "unat c = min 32 (?n - 32 * unat ?p)"
  proof (cases "?n > 32")
    case big: True
    then have b: "sx_number_of_parameters ?x > of_nat PARAMS_PER_MESSAGE" by (simp add: word_less_nat_alt)
    show ?thesis
    proof (cases "unat ?p + 1 = unat (sx_parts ?x)")
      case True
      have "(ucast (sx_parts ?x) :: u16) = of_nat (unat ?p + 1)" unfolding True by simp
      then have "(ucast (sx_parts ?x) - 1 :: u16) = of_nat (unat ?p)" by simp
      then have "c = of_nat ?n - of_nat (unat ?p * 32)" using b True by (simp add: c_def)
      also have "\<dots> = of_nat (?n - unat ?p * 32)" using n(1) by (simp add: of_nat_diff)
      finally have "c = of_nat (?n - unat ?p * 32)" .
      moreover have "?n - unat ?p * 32 \<le> 32" using n(2) True by simp
      ultimately show ?thesis by (simp add: u16_of_nat mult.commute)
    next
      case False
      then have "32 * (unat ?p + 1) < ?n" using section_ok_parts(1) [OF assms(1), of "unat ?p + 1"] p by simp
      then show ?thesis using b False by (simp add: c_def)
    qed
  next
    case small: False
    then have "unat (sx_parts ?x) \<le> 1" using assms(1) by (simp add: section_ok_def) 
    then have "unat ?p = 0" using p by simp
    moreover have "\<not> sx_number_of_parameters ?x > of_nat PARAMS_PER_MESSAGE" using small by (simp add: word_less_nat_alt)
    ultimately show ?thesis using small by (simp add: c_def)
  qed
  have "generate_message_length s = c * of_nat BYTES_PER_VALUE + (of_nat IndexByte + 1)"
    using am by (simp add: generate_message_length_def c_def Let_def)
  also have "\<dots> = of_nat (unat c * 2 + 11)" by simp
  finally have "generate_message_length s = of_nat (unat c * 2 + 11)" .
  moreover have "unat c * 2 + 11 < 2 ^ 16" using c by simp
  ultimately have "unat (generate_message_length s) = unat c * 2 + 11" by (simp only: u16_of_nat)
  then show ?thesis using am c len by (simp add: request_length_def)
qed

text \<open>The request as decoded from the bytes of its message.\<close>

definition decoded_fields :: "u8 list \<Rightarrow> decoded_request" where
  "decoded_fields m =
     \<lparr>dr_status = StAck, dr_wish = m ! WishByte, dr_amount = m ! AmountByte, dr_block = m ! BlockByte,
      dr_section = m ! SectionByte, dr_part = m ! PartByte, dr_index = 0, dr_new_value = 0\<rparr>"

definition decoded_of :: "u8 list \<Rightarrow> decoded_request" where
  "decoded_of m = (decoded_fields m)
     \<lparr>dr_index := (if m ! AmountByte = AmountSingle then merge14 (m ! 10) (m ! 11) else 0),
      dr_new_value := (if m ! AmountByte = AmountSingle \<and> m ! WishByte = WishSet then merge14 (m ! 12) (m ! 13) else 0)\<rparr>"

lemma check_part_allowed:
  "check_wish s \<Longrightarrow> check_part s \<longleftrightarrow>
    part_allowed (dr_wish (decoded_request s)) (dr_amount (decoded_request s)) (dr_part (decoded_request s)) (request_section s)"
  using u8_le_2 [of "dr_wish (decoded_request s)"] by (auto simp: check_part_def check_wish_def part_allowed_def Let_def)

lemma layout_ok_section:
  "layout_ok L \<Longrightarrow> b < length L \<Longrightarrow> sec < length (L ! b) \<Longrightarrow> section_ok (L ! b ! sec)"
  by (simp add: layout_ok_def list_all_length)

lemma decode_eq:
  assumes ok: "layout_ok (sx_layout s)" and len: "length m \<noteq> SPECIAL_REQ_MSG_SIZE"
    and r: "decoded_request s = \<lparr>dr_status = StAck, dr_wish = WishInvalid, dr_amount = AmountInvalid, dr_block = 0,
      dr_section = 0, dr_part = 0, dr_index = 0, dr_new_value = 0\<rparr>"
  shows "decode_error m s = Some e \<Longrightarrow>
      \<exists>r. decode_standard_request m s = (False, (set_status e s)\<lparr>decoded_request := r\<rparr>)"
    and "decode_error m s = None \<Longrightarrow>
      decode_standard_request m s = (True, (set_status StAck s)\<lparr>decoded_request := decoded_of m\<rparr>)"
proof -
  let ?u = "s\<lparr>decoded_request := decoded_fields m\<rparr>"
  let ?w = "m ! WishByte" and ?am = "m ! AmountByte" and ?p = "m ! PartByte" and ?L = "sx_layout s"
  let ?b = "unat (m ! BlockByte)" and ?sec = "unat (m ! SectionByte)"
  let ?x = "?L ! ?b ! ?sec"
  have fields: "(decoded_request s)\<lparr>dr_part := ?p, dr_wish := ?w, dr_amount := ?am, dr_block := m ! BlockByte,
      dr_section := m ! SectionByte\<rparr> = decoded_fields m"
    by (simp add: r decoded_fields_def)
  have u: "decoded_request ?u = decoded_fields m" "request_section ?u = ?x"
    by (simp_all add: request_section_def decoded_fields_def)
  have cw: "check_wish ?u \<longleftrightarrow> \<not> ?w > WishBackup" by (simp add: check_wish_def decoded_fields_def not_less)
  have cb: "check_block ?u \<longleftrightarrow> \<not> length ?L \<le> ?b" by (simp add: check_block_def decoded_fields_def not_le)
  have cs: "check_section ?u \<longleftrightarrow> \<not> length (?L ! ?b) \<le> ?sec" by (simp add: check_section_def decoded_fields_def not_le)
  have ca: "check_amount ?u \<longleftrightarrow> \<not> ?am > AmountAll" by (simp add: check_amount_def decoded_fields_def not_less)
  have cp: "check_wish ?u \<Longrightarrow> check_part ?u \<longleftrightarrow> part_allowed ?w ?am ?p ?x"
    using check_part_allowed [of ?u] u by (simp add: decoded_fields_def)
  have gl: "unat (generate_message_length ?u) = request_length ?w ?am ?p ?x"
    if "check_wish ?u" "check_block ?u" "check_section ?u" "check_amount ?u" "check_part ?u"
    using generate_message_length_eq [of ?u] that layout_ok_section [OF ok, of ?b ?sec] cb cs u by (simp add: decoded_fields_def)
  have st: "set_status e (s\<lparr>decoded_request := r\<rparr>) = (set_status e s)\<lparr>decoded_request := r\<rparr>" for e r
    by (simp add: set_status_eq)
  have same: "set_status e s = (set_status e s)\<lparr>decoded_request := decoded_request s\<rparr>" for e by simp
  have dec: "decode_standard_request m s =
    (if length m < 13 then (False, set_status ErrorMessageLength s)
      else if \<not> configuration_enabled s then (False, set_status ErrorConnection s)
      else if \<not> check_wish ?u then (False, set_status ErrorWish ?u)
      else if \<not> check_block ?u then (False, set_status ErrorBlock ?u)
      else if \<not> check_section ?u then (False, set_status ErrorSection ?u)
      else if \<not> check_amount ?u then (False, set_status ErrorAmount ?u)
      else if \<not> check_part ?u then (False, set_status ErrorPart ?u)
      else if length m \<noteq> unat (generate_message_length ?u) then (False, set_status ErrorMessageLength ?u)
      else (True, (set_status StAck s)\<lparr>decoded_request := decoded_of m\<rparr>))"
    using len unfolding decode_standard_request_def Let_def fields
    by (simp add: decoded_of_def decoded_fields_def set_status_eq)
  have dec': "decode_standard_request m s =
    (if length m < 13 then (False, set_status ErrorMessageLength s)
      else if \<not> configuration_enabled s then (False, set_status ErrorConnection s)
      else if ?w > WishBackup then (False, set_status ErrorWish ?u)
      else if length ?L \<le> ?b then (False, set_status ErrorBlock ?u)
      else if length (?L ! ?b) \<le> ?sec then (False, set_status ErrorSection ?u)
      else if ?am > AmountAll then (False, set_status ErrorAmount ?u)
      else if \<not> part_allowed ?w ?am ?p ?x then (False, set_status ErrorPart ?u)
      else if length m \<noteq> request_length ?w ?am ?p ?x then (False, set_status ErrorMessageLength ?u)
      else (True, (set_status StAck s)\<lparr>decoded_request := decoded_of m\<rparr>))"
  proof -
    have cp': "\<not> ?w > WishBackup \<Longrightarrow> check_part ?u \<longleftrightarrow> part_allowed ?w ?am ?p ?x" using cp cw by blast
    have gl': "\<not> ?w > WishBackup \<Longrightarrow> \<not> length ?L \<le> ?b \<Longrightarrow> \<not> length (?L ! ?b) \<le> ?sec \<Longrightarrow> \<not> ?am > AmountAll \<Longrightarrow>
        part_allowed ?w ?am ?p ?x \<Longrightarrow> unat (generate_message_length ?u) = request_length ?w ?am ?p ?x"
      using gl cw cb cs ca cp' by blast
    show ?thesis unfolding dec by (intro if_cong refl) (simp_all only: cw cb cs ca cp' gl' not_not simp_thms)
  qed
  have ex: "\<exists>r. (False, set_status e s) = (False, (set_status e s)\<lparr>decoded_request := r\<rparr>)"
    "\<exists>r. (False, set_status e ?u) = (False, (set_status e s)\<lparr>decoded_request := r\<rparr>)" for e
    using same st by blast+
  show "decode_error m s = Some e \<Longrightarrow> \<exists>r. decode_standard_request m s = (False, (set_status e s)\<lparr>decoded_request := r\<rparr>)"
    unfolding dec' decode_error_def Let_def
    by (simp only: ex option.inject option.simps if_True if_False simp_thms split: if_split_asm)
  show "decode_error m s = None \<Longrightarrow>
      decode_standard_request m s = (True, (set_status StAck s)\<lparr>decoded_request := decoded_of m\<rparr>)"
    unfolding dec' decode_error_def Let_def
    by (simp only: option.simps if_True if_False simp_thms split: if_split_asm)
qed

lemma set_status_same [simp]: "(set_status st s)\<lparr>decoded_request := decoded_request s\<rparr> = set_status st s"
  by (simp add: set_status_eq)

lemma loaded_request: "decoded_request (loaded m s) = \<lparr>dr_status = StAck, dr_wish = WishInvalid, dr_amount = AmountInvalid,
    dr_block = 0, dr_section = 0, dr_part = 0, dr_index = 0, dr_new_value = 0\<rparr>"
  by (simp add: loaded_def reset_decoded_request_def)

lemma loaded_decode_error: "decode_error m (loaded m s) = decode_error m s"
  using cfg_eqD [of "loaded m s" s] by (simp add: decode_error_def Let_def)

lemma reply_data:
  assumes "sx_ok s" "well_framed m s"
  shows "sx_data (send_response A H ((set_status st (loaded m s))\<lparr>decoded_request := r\<rparr>)) = sent A H (reply st m) (sx_data s)"
proof -
  have b: "sx_building ((set_status st (loaded m s))\<lparr>decoded_request := r\<rparr>)" using loaded_building [OF assms] by simp
  have len: "length (response_array s) = MAX_MESSAGE_SIZE" "length m \<le> MAX_MESSAGE_SIZE" "2 \<le> length m"
    using assms by (simp_all add: sx_ok_def well_framed_def)
  have "response_array ((set_status st (loaded m s))\<lparr>decoded_request := r\<rparr>) = (overwrite 0 m (response_array s))[StatusByte := status_code st]"
    by (simp add: set_status_eq loaded_def)
  moreover have "slice 1 (length m - 1 - 1) ((overwrite 0 m (response_array s))[StatusByte := status_code st]) = reply st m"
    using slice_loaded [OF len, of StatusByte "status_code st"] by (simp add: reply_def payload_of_def numeral_2_eq_2)
  ultimately show ?thesis by (simp add: send_response_data [OF b] del: StatusByte_def)
qed

text \<open>The status of a request the code does not process.\<close>

definition request_error :: "u8 list \<Rightarrow> 'd sysex_conf \<Rightarrow> sx_status option" where
  "request_error m s =
     (if m ! StatusByte \<noteq> 0 then Some ErrorStatus
      else if length m = SPECIAL_REQ_MSG_SIZE then None
      else decode_error m s)"

lemma handle_request_error:
  assumes "sx_ok s" "layout_ok (sx_layout s)" "well_framed m s" "own_id m s" "request_error m s = Some e"
  shows "sx_data (handle_request A H m s) = sent A H (reply e m) (sx_data s)"
proof (cases "m ! StatusByte = 0")
  case False
  then have "e = ErrorStatus" using assms(5) by (simp add: request_error_def)
  then show ?thesis
    using False assms reply_data [OF assms(1,3), where A = A and H = H and st = ErrorStatus and r = "decoded_request (loaded m s)"]
    by (simp add: handle_request_eq)
next
  case True
  then have e: "length m \<noteq> SPECIAL_REQ_MSG_SIZE" "decode_error m s = Some e"
    using assms(5) by (auto simp: request_error_def split: if_splits)
  have "layout_ok (sx_layout (loaded m s))" using assms(2) cfg_eqD(5) [of "loaded m s" s] by simp
  from decode_eq(1) [OF this e(1) loaded_request] obtain r where
    "decode_standard_request m (loaded m s) = (False, (set_status e (loaded m s))\<lparr>decoded_request := r\<rparr>)"
    using e(2) by (auto simp: loaded_decode_error)
  then show ?thesis
    using True assms e(1) by (simp add: handle_request_eq reset_decoded_request_def reply_data del: SPECIAL_REQ_MSG_SIZE_def)
qed

section \<open>Requests for one part\<close>

text \<open>
  The part of a request that stays in its answer: all of it, or, for a backup, the header with the
  wish turned into \<open>Set\<close>.
\<close>

definition answer_head :: "sx_status \<Rightarrow> u8 list \<Rightarrow> u8 list" where
  "answer_head st m = (if m ! WishByte = WishBackup then take 9 (reply st (m[WishByte := WishSet])) else reply st m)"

definition answer_status :: "u8 list \<Rightarrow> sx_status" where
  "answer_status m = (if m ! WishByte = WishBackup then StRequest else StAck)"

text \<open>The state in which the only part of a decoded request is processed.\<close>

definition part_state :: "u8 list \<Rightarrow> 'd sysex_conf \<Rightarrow> 'd sysex_conf" where
  "part_state m s =
     (loaded m s)\<lparr>response_array := (if m ! WishByte = WishBackup
          then (overwrite 0 m (response_array s))[StatusByte := 0, WishByte := WishSet]
          else (overwrite 0 m (response_array s))[StatusByte := 1]),
       response_counter := (if m ! WishByte = WishBackup then length m - 5 else length m - 1),
       decoded_request := (decoded_of m)\<lparr>dr_wish := (if m ! WishByte = WishBackup then WishGet else m ! WishByte)\<rparr>\<rparr>"

lemma part_state_fields [simp]:
  "cfg (part_state m s) = cfg s" "sx_data (part_state m s) = sx_data s"
  "response_counter (part_state m s) = (if m ! WishByte = WishBackup then length m - 5 else length m - 1)"
  "dr_block (decoded_request (part_state m s)) = m ! BlockByte" "dr_section (decoded_request (part_state m s)) = m ! SectionByte"
  "dr_amount (decoded_request (part_state m s)) = m ! AmountByte" "dr_part (decoded_request (part_state m s)) = m ! PartByte"
  "dr_wish (decoded_request (part_state m s)) = (if m ! WishByte = WishBackup then WishGet else m ! WishByte)"
proof -
  have "cfg (loaded m s) = cfg s" by simp
  then show "cfg (part_state m s) = cfg s" by (simp add: part_state_def cfg_def)
qed (simp_all add: part_state_def decoded_of_def decoded_fields_def)

lemma part_state_building:
  assumes "sx_ok s" "well_framed m s" "m ! WishByte = WishBackup \<Longrightarrow> 7 \<le> length m"
  shows "sx_building (part_state m s)"
proof -
  have "sx_building (loaded m s)" by (rule loaded_building [OF assms(1,2)])
  then have "length (overwrite 0 m (response_array s)) = MAX_MESSAGE_SIZE" "overwrite 0 m (response_array s) ! 0 = SYS_EX_START"
    "\<not> array_overrun (loaded m s)" "\<not> send_hangs (loaded m s)" "2 \<le> length m - 1" "length m - 1 < MAX_MESSAGE_SIZE"
    by (simp_all add: sx_building_def sx_ok_def loaded_def)
  then show ?thesis using assms(3) by (auto simp: part_state_def sx_building_def sx_ok_def)
qed

text \<open>The head of the answer, as it stands in the array, with any status.\<close>

lemma part_state_head:
  assumes "sx_ok s" "well_framed m s" "m ! WishByte = WishBackup \<Longrightarrow> length m = 15"
  shows "slice 1 (response_counter (part_state m s) - 1) ((response_array (part_state m s))[StatusByte := status_code st]) = answer_head st m"
    and "slice 1 (response_counter (part_state m s) - 1) (response_array (part_state m s)) = answer_head (answer_status m) m"
proof -
  have len: "length (response_array s) = MAX_MESSAGE_SIZE" "length m \<le> MAX_MESSAGE_SIZE" "2 \<le> length m"
    using assms by (simp_all add: sx_ok_def well_framed_def)
  have head: "slice 1 (response_counter (part_state m s) - 1) ((response_array (part_state m s))[StatusByte := status_code st]) = answer_head st m" for st
  proof (cases "m ! WishByte = WishBackup")
    case True
    let ?o = "overwrite 0 m (response_array s)"
    have "slice 1 9 (?o[4 := status_code st, 6 := 1]) = slice 1 9 (m[6 := 1, 4 := status_code st])"
      by (intro nth_equalityI) (use assms(3) True len in \<open>auto simp: nth_slice nth_overwrite nth_list_update\<close>)
    moreover have "?o[4 := 0, 6 := 1, 4 := status_code st] = ?o[4 := status_code st, 6 := 1]"
      by (simp add: list_update_swap [of 6 4])
    moreover have "take 9 (slice 1 13 xs) = slice 1 9 xs" for xs :: "u8 list" by (simp add: slice_def)
    ultimately show ?thesis using True assms(3)
      by (simp add: part_state_def answer_head_def reply_def payload_of_def)
  next
    case False
    have "slice 1 (length m - 1 - 1) ((overwrite 0 m (response_array s))[4 := status_code st]) = reply st m"
      using slice_loaded [OF len, of 4 "status_code st"] by (simp add: reply_def payload_of_def numeral_2_eq_2)
    then show ?thesis using False by (simp add: part_state_def answer_head_def)
  qed
  show "slice 1 (response_counter (part_state m s) - 1) ((response_array (part_state m s))[StatusByte := status_code st]) = answer_head st m"
    by (rule head)
  have "(response_array (part_state m s))[StatusByte := status_code (answer_status m)] = response_array (part_state m s)"
    by (simp add: part_state_def answer_status_def list_update_swap)
  then show "slice 1 (response_counter (part_state m s) - 1) (response_array (part_state m s)) = answer_head (answer_status m) m"
    using head [of "answer_status m"] by simp
qed

lemma handle_one_part:
  assumes "sx_ok s" "layout_ok (sx_layout s)" "well_framed m s" "own_id m s" "request_error m s = None"
    "length m \<noteq> SPECIAL_REQ_MSG_SIZE" "m ! PartByte \<noteq> 126" "m ! PartByte \<noteq> 127"
    and u: "u = part_state m s" and range: "part_range u = (si, ei)" and v: "v = snd (process_params H si [si ..< ei] u)"
    and b: "sx_building v"
  shows "sx_data (handle_request A H m s) = sent A H (slice 1 (response_counter v - 1) (response_array v)) (sx_data v)"
proof -
  have e: "m ! StatusByte = 0" "decode_error m s = None" using assms(5,6) by (auto simp: request_error_def split: if_splits)
  let ?t = "(set_status StAck (loaded m s))\<lparr>decoded_request := decoded_of m\<rparr>"
  have "layout_ok (sx_layout (loaded m s))" using assms(2) cfg_eqD(5) [of "loaded m s" s] by simp
  from decode_eq(2) [OF this assms(6) loaded_request] have dec: "decode_standard_request m (loaded m s) = (True, ?t)"
    using e(2) by (simp add: loaded_decode_error)
  have h: "handle_request A H m s = answer_standard A H (length m) ?t"
    using assms(1,3,4,6) e(1) dec by (simp add: handle_request_eq del: SPECIAL_REQ_MSG_SIZE_def)
  have parts: "\<not> all_parts_wanted ?t"
    using assms(7,8) by (simp add: all_parts_wanted_def decoded_of_def decoded_fields_def)
  have start: "part_start False (std_counter (length m) ?t) 0 (std_start ?t) = u"
    by (auto simp: part_start_def std_counter_def std_start_def u part_state_def set_status_eq set_byte_def decoded_of_def
        decoded_fields_def loaded_def reset_decoded_request_def)
  obtain ok w where w: "process_params H si [si ..< ei] u = (ok, w)" by fastforce
  then have vw: "v = w" using v by simp
  have "process_parts A H False (std_counter (length m) ?t) [0] (std_start ?t) =
      and_then (process_params H si [si ..< ei] u) (\<lambda>s. (True, send_response A H s))"
    unfolding process_parts_step Let_def start by (simp add: range)
  then have "process_standard_request A H (length m) ?t = and_then (ok, w) (\<lambda>s. (True, send_response A H s))"
    using parts w by (cases ok) (simp_all add: process_standard_request_eq wanted_parts_def)
  then have "answer_standard A H (length m) ?t = send_response A H (if ok then v else reset_decoded_request v)"
    using vw by (cases ok) (simp_all add: answer_standard_def)
  then show ?thesis using h b by (cases ok) (simp_all add: send_response_data)
qed

end
