(* ===== verification/Sysex_Conf_Answers.thy ===== *)
theory Sysex_Conf_Answers
  imports Sysex_Conf_Requests
begin

text \<open>
  The answers to decoded requests: one parameter read or written through any handler, and all
  parameters of a part read from, or written to, a handler that keeps the laws of the locale
  \<open>sx_store\<close>. A backup of a part is itself the request that writes its values back.
\<close>

section \<open>One parameter\<close>

definition single_reply :: "'d sx_handler \<Rightarrow> u8 list \<Rightarrow> 'd sysex_conf \<Rightarrow> u8 list \<times> 'd" where
  "single_reply H m s =
     (let b = m ! BlockByte; sec = m ! SectionByte; i = merge14 (m ! 10) (m ! 11); v = merge14 (m ! 12) (m ! 13);
          L = sx_layout s; d = sx_data s
      in if \<not> in_layout L b sec i then (answer_head ErrorIndex m, d)
         else if m ! WishByte = WishSet then
           if \<not> accepts L b sec v then (answer_head ErrorNewValue m, d)
           else (case dh_set H b sec i v d of (st, d) \<Rightarrow>
             (answer_head (if st = StAck \<or> user_error_ignore_mode_enabled s then StAck else st) m, d))
         else (case dh_get H b sec i d of ((st, val), d) \<Rightarrow>
             if st = StAck then (answer_head (answer_status m) m @ enc val, d)
             else if user_error_ignore_mode_enabled s then (answer_head (answer_status m) m @ enc 0, d)
             else (answer_head st m, d)))"

lemma decode_error_NoneD:
  assumes "decode_error m s = None"
  shows "configuration_enabled s" "m ! WishByte \<le> WishBackup" "unat (m ! BlockByte) < length (sx_layout s)"
    "unat (m ! SectionByte) < length (sx_layout s ! unat (m ! BlockByte))" "m ! AmountByte \<le> AmountAll"
    "part_allowed (m ! WishByte) (m ! AmountByte) (m ! PartByte) (sx_layout s ! unat (m ! BlockByte) ! unat (m ! SectionByte))"
    "length m = request_length (m ! WishByte) (m ! AmountByte) (m ! PartByte) (sx_layout s ! unat (m ! BlockByte) ! unat (m ! SectionByte))"
  using assms unfolding decode_error_def Let_def
  by (simp_all add: not_less not_le split: if_split_asm)

lemma request_error_NoneD:
  "request_error m s = None \<Longrightarrow> length m \<noteq> SPECIAL_REQ_MSG_SIZE \<Longrightarrow> decode_error m s = None"
  by (simp add: request_error_def split: if_splits)

lemma put_data:
  assumes "sx_building s" "response_counter s + length bs < MAX_MESSAGE_SIZE"
  shows "slice 1 (response_counter (put_bytes bs s) - 1) (response_array (put_bytes bs s)) =
    slice 1 (response_counter s - 1) (response_array s) @ bs"
proof -
  have "length (response_array s) = MAX_MESSAGE_SIZE" "1 \<le> response_counter s"
    using assms by (simp_all add: sx_building_def sx_ok_def)
  then show ?thesis using slice_put [of s bs] assms(2) by (simp add: put_bytes_eq)
qed

lemma add_to_response_fits:
  "response_counter s + 2 < MAX_MESSAGE_SIZE \<Longrightarrow> add_to_response v s = (True, put_bytes (enc v) s)"
  by (simp add: add_to_response_eq enc_def)

lemma handle_single:
  assumes "sx_ok s" "layout_ok (sx_layout s)" "well_framed m s" "own_id m s" "request_error m s = None"
    "length m \<noteq> SPECIAL_REQ_MSG_SIZE" "m ! AmountByte = AmountSingle" "m ! PartByte = 0"
  shows "sx_data (handle_request A H m s) = (case single_reply H m s of (p, d) \<Rightarrow> sent A H p d)"
proof -
  note ok = decode_error_NoneD [OF request_error_NoneD [OF assms(5,6)]]
  have len: "length m = 15" using ok(7) assms(7) by (simp add: request_length_def)
  let ?u = "part_state m s"
  have bu: "sx_building ?u" using part_state_building [OF assms(1,3)] len by simp
  note head = part_state_head [OF assms(1,3), unfolded len, OF refl]
  have cfgu: "configuration_enabled ?u = configuration_enabled s" "sx_layout ?u = sx_layout s"
    "user_error_ignore_mode_enabled ?u = user_error_ignore_mode_enabled s"
    using cfg_eqD [of ?u s] by simp_all
  have idx: "dr_index (decoded_request ?u) = merge14 (m ! 10) (m ! 11)"
    and val: "m ! WishByte = WishSet \<Longrightarrow> dr_new_value (decoded_request ?u) = merge14 (m ! 12) (m ! 13)"
    using assms(7) by (simp_all add: part_state_def decoded_of_def)
  let ?b = "m ! BlockByte" and ?sec = "m ! SectionByte" and ?i = "merge14 (m ! 10) (m ! 11)" and ?v = "merge14 (m ! 12) (m ! 13)"
  have ci: "check_parameter_index ?u \<longleftrightarrow> in_layout (sx_layout s) ?b ?sec ?i"
    using ok(3,4) idx cfgu by (simp add: check_parameter_index_def in_layout_def request_section_def)
  have cv: "m ! WishByte = WishSet \<Longrightarrow> check_new_value ?u \<longleftrightarrow> accepts (sx_layout s) ?b ?sec ?v"
    using val cfgu by (auto simp: check_new_value_def accepts_def request_section_def Let_def)
  define v where "v = snd (process_param H 0 0 ?u)"
  have v': "v = snd (process_params H 0 [0 ..< 1] ?u)" by (cases "process_param H 0 0 ?u") (simp add: v_def and_then_def)
  have room: "response_counter (?u\<lparr>sx_data := d\<rparr>) + 2 < MAX_MESSAGE_SIZE" for d using len by simp
  have stat: "sx_building (set_status st (?u\<lparr>sx_data := d\<rparr>)) \<and>
      sent A H (slice 1 (response_counter (set_status st (?u\<lparr>sx_data := d\<rparr>)) - 1) (response_array (set_status st (?u\<lparr>sx_data := d\<rparr>)))) d'
        = sent A H (answer_head st m) d'" for st d d'
  proof
    show "sx_building (set_status st (?u\<lparr>sx_data := d\<rparr>))" using bu by simp
  qed (use head(1) [of st] in \<open>simp add: set_status_eq del: part_state_fields(3) StatusByte_def\<close>)
  have vals: "sx_building (put_bytes (enc w) (?u\<lparr>sx_data := d\<rparr>)) \<and>
      sent A H (slice 1 (response_counter (put_bytes (enc w) (?u\<lparr>sx_data := d\<rparr>)) - 1) (response_array (put_bytes (enc w) (?u\<lparr>sx_data := d\<rparr>)))) d'
        = sent A H (answer_head (answer_status m) m @ enc w) d'" for w d d'
    using put_data [of "?u\<lparr>sx_data := d\<rparr>" "enc w"] sx_building_put_bytes [of "?u\<lparr>sx_data := d\<rparr>" "enc w"] bu room head(2)
    by (simp del: part_state_fields(3))
  have ack: "m ! WishByte = WishSet \<Longrightarrow> answer_head (answer_status m) m = answer_head StAck m" by (simp add: answer_status_def)
  have same: "?u\<lparr>sx_data := sx_data s\<rparr> = ?u" by (simp add: part_state_def)
  have "sx_building v \<and> (case single_reply H m s of (p, d) \<Rightarrow> sent A H p d) =
      sent A H (slice 1 (response_counter v - 1) (response_array v)) (sx_data v)"
  proof (cases "in_layout (sx_layout s) ?b ?sec ?i")
    case False
    then have "v = set_status ErrorIndex ?u" using ci assms(7) by (simp add: v_def process_param_def)
    then show ?thesis using False stat [of ErrorIndex "sx_data s" "sx_data s"] unfolding same by (simp add: single_reply_def Let_def)
  next
    case inl: True
    show ?thesis
    proof (cases "m ! WishByte = WishSet")
      case set: True
      have pv: "v = snd (set_value H ?i ?u)" using set ci inl assms(7) idx by (simp add: v_def process_param_def)
      show ?thesis
      proof (cases "accepts (sx_layout s) ?b ?sec ?v")
        case False
        then have "v = set_status ErrorNewValue ?u" using pv cv set by (simp add: set_value_def)
        then show ?thesis using False inl set stat [of ErrorNewValue "sx_data s" "sx_data s"] unfolding same
          by (simp add: single_reply_def Let_def)
      next
        case True
        obtain st d where h: "dh_set H ?b ?sec ?i ?v (sx_data s) = (st, d)" by fastforce
        have "sx_building (?u\<lparr>sx_data := d\<rparr>)" using bu by simp
        moreover have "slice 1 (response_counter (?u\<lparr>sx_data := d\<rparr>) - 1) (response_array (?u\<lparr>sx_data := d\<rparr>)) = answer_head StAck m"
          using head(2) ack set by simp
        moreover have "v = (if st = StAck \<or> user_error_ignore_mode_enabled s then ?u\<lparr>sx_data := d\<rparr> else set_status st (?u\<lparr>sx_data := d\<rparr>))"
          using pv cv set True h val cfgu(3) by (auto simp: set_value_def Let_def)
        ultimately show ?thesis using inl set True h stat [of st d d]
          by (auto simp: single_reply_def Let_def simp del: part_state_fields(3) WishSet_def)
      qed
    next
      case get: False
      obtain st w d where h: "dh_get H ?b ?sec ?i (sx_data s) = ((st, w), d)" by (metis surj_pair)
      have "dr_wish (decoded_request ?u) = WishGet" using get ok(2) u8_le_2 [of "m ! WishByte"] by auto
      then have "v = snd (get_value H ?i ?u)" using ci inl assms(7) idx by (simp add: v_def process_param_def)
      then have "v = (if st = StAck then put_bytes (enc w) (?u\<lparr>sx_data := d\<rparr>)
          else if user_error_ignore_mode_enabled s then put_bytes (enc 0) (?u\<lparr>sx_data := d\<rparr>)
          else set_status st (?u\<lparr>sx_data := d\<rparr>))"
        using h cfgu(3) add_to_response_fits [OF room] by (simp add: get_value_def Let_def)
      then show ?thesis using inl get h stat [of st d d] vals [of w d d] vals [of 0 d d]
        by (simp add: single_reply_def Let_def split del: if_split) (simp split: if_split)
    qed
  qed
  moreover have "part_range ?u = (0, 1)" using assms(7) by (simp add: part_range_def)
  ultimately show ?thesis
    using handle_one_part [OF assms(1-6) _ _ refl _ v', of A] assms(8) by simp
qed

section \<open>A handler that stores parameters\<close>

text \<open>
  What the protocol needs of a \<open>DataHandler\<close> that acts as a store: in its normal states every
  parameter can be read, without a change, and written, and a response can be sent.
\<close>

locale sx_store =
  fixes H :: "'d sx_handler"
    and val :: "'d \<Rightarrow> u8 \<Rightarrow> u8 \<Rightarrow> u16 \<Rightarrow> u16"
    and inv :: "'d \<Rightarrow> bool"
  assumes get_acks: "inv d \<Longrightarrow> dh_get H b sec i d = ((StAck, val d b sec i), d)"
    and set_acks: "inv d \<Longrightarrow> fst (dh_set H b sec i v d) = StAck \<and> inv (snd (dh_set H b sec i v d))"
    and send_keeps: "inv d \<Longrightarrow> inv (snd (dh_send_response H p d)) \<and> val (snd (dh_send_response H p d)) = val d"
begin

lemma write_all_keeps: "inv d \<Longrightarrow> inv (snd (write_all (dh_send_response H) ps d)) \<and>
    val (snd (write_all (dh_send_response H) ps d)) = val d"
proof (induction ps arbitrary: d)
  case (Cons p ps)
  obtain ok d' where d': "dh_send_response H p d = (ok, d')" by fastforce
  then show ?case using Cons(1) [of d'] send_keeps [OF Cons(2), of p] by (cases ok) simp_all
qed simp

lemma sent_keeps: "inv d \<Longrightarrow> inv (sent A H p d) \<and> val (sent A H p d) = val d"
  by (simp add: sent_def write_all_keeps del: msg_packets.simps)

lemma read_params:
  assumes "inv (sx_data s)" "dr_wish (decoded_request s) = WishGet" "dr_amount (decoded_request s) \<noteq> AmountSingle"
    "length (response_array s) = MAX_MESSAGE_SIZE" "response_counter s + 2 * length is < MAX_MESSAGE_SIZE"
  shows "process_params H si is s = (True, put_bytes (encs (map (\<lambda>i.
    val (sx_data s) (dr_block (decoded_request s)) (dr_section (decoded_request s)) (of_nat i)) is)) s)"
  using assms
proof (induction "is" arbitrary: s)
  case Nil
  then show ?case by (simp add: put_bytes_def)
next
  case (Cons i "is")
  let ?v = "val (sx_data s) (dr_block (decoded_request s)) (dr_section (decoded_request s)) (of_nat i)"
  have "add_to_response ?v s = (True, put_bytes (enc ?v) s)" using add_to_response_fits [of s ?v] Cons(6) by simp
  moreover have "s\<lparr>sx_data := sx_data s\<rparr> = s" by simp
  ultimately have "process_param H si i s = (True, put_bytes (enc ?v) s)"
    using Cons(3,4) get_acks [OF Cons(2)] by (simp add: process_param_def get_value_def Let_def)
  moreover have "response_counter (put_bytes (enc ?v) s) = response_counter s + 2"
    "length (response_array (put_bytes (enc ?v) s)) = MAX_MESSAGE_SIZE"
    using Cons(5,6) by (simp_all add: put_bytes_eq)
  ultimately show ?case
    using Cons(1) [of "put_bytes (enc ?v) s"] Cons(2-6) by (simp add: put_bytes_append)
qed

lemma write_params:
  assumes "inv (sx_data s)" "dr_wish (decoded_request s) = WishSet" "dr_amount (decoded_request s) \<noteq> AmountSingle"
    "\<forall>(i, v) \<in> set ivs. merge14 (response_array s ! (2 * (i - si) + 10)) (response_array s ! (2 * (i - si) + 11)) = v \<and>
       accepts (sx_layout s) (dr_block (decoded_request s)) (dr_section (decoded_request s)) v"
  shows "\<exists>r. process_params H si (map fst ivs) s = (True, s\<lparr>decoded_request := r, sx_data :=
    fold (\<lambda>(i, v) d. snd (dh_set H (dr_block (decoded_request s)) (dr_section (decoded_request s)) (of_nat i) v d)) ivs (sx_data s)\<rparr>)"
  using assms
proof (induction ivs arbitrary: s)
  case Nil
  show ?case by (rule exI [of _ "decoded_request s"]) simp
next
  case (Cons iv ivs)
  obtain i v where iv: "iv = (i, v)" by fastforce
  let ?r = "(decoded_request s)\<lparr>dr_new_value := v\<rparr>"
  let ?b = "dr_block (decoded_request s)" and ?sec = "dr_section (decoded_request s)"
  let ?d = "snd (dh_set H ?b ?sec (of_nat i) v (sx_data s))"
  let ?t = "s\<lparr>decoded_request := ?r, sx_data := ?d\<rparr>"
  have m: "merge14 (response_array s ! (2 * (i - si) + 10)) (response_array s ! (2 * (i - si) + 11)) = v"
    and a: "accepts (sx_layout s) ?b ?sec v" using Cons(5) iv by auto
  have m': "merge14 (response_array s ! ((i - si) * BYTES_PER_VALUE + IndexByte)) (response_array s ! ((i - si) * BYTES_PER_VALUE + IndexByte + 1)) = v"
    using m by (simp add: mult.commute add.commute)
  obtain d where d: "dh_set H ?b ?sec (of_nat i) v (sx_data s) = (StAck, d)"
    using set_acks [OF Cons(2), of ?b ?sec "of_nat i" v] by (cases "dh_set H ?b ?sec (of_nat i) v (sx_data s)") simp
  have "check_new_value (s\<lparr>decoded_request := ?r\<rparr>)"
    using a by (simp add: check_new_value_def accepts_def request_section_def Let_def)
  then have one: "process_param H si i s = (True, ?t)"
    using Cons(3,4) m' d by (simp add: process_param_def set_value_def Let_def)
  have "inv ?d" using set_acks [OF Cons(2)] by simp
  then obtain r where "process_params H si (map fst ivs) ?t = (True, ?t\<lparr>decoded_request := r, sx_data :=
      fold (\<lambda>(i, v) d. snd (dh_set H ?b ?sec (of_nat i) v d)) ivs ?d\<rparr>)"
    using Cons(1) [of ?t] Cons(3-5) by auto
  then show ?case using one iv by auto
qed

end

section \<open>All parameters of a part\<close>

text \<open>The values of a part in a store, and the writes of a list of values to the parameters of a part.\<close>

definition part_values :: "('d \<Rightarrow> u8 \<Rightarrow> u8 \<Rightarrow> u16 \<Rightarrow> u16) \<Rightarrow> 'd \<Rightarrow> sx_layout \<Rightarrow> u8 \<Rightarrow> u8 \<Rightarrow> nat \<Rightarrow> u16 list" where
  "part_values val d L b sec p = map (\<lambda>i. val d b sec (of_nat i)) (part_indexes (L ! unat b ! unat sec) p)"

definition write_part :: "'d sx_handler \<Rightarrow> sx_layout \<Rightarrow> u8 \<Rightarrow> u8 \<Rightarrow> nat \<Rightarrow> u16 list \<Rightarrow> 'd \<Rightarrow> 'd" where
  "write_part H L b sec p vs d =
     fold (\<lambda>(i, v) d. snd (dh_set H b sec (of_nat i) v d)) (zip (part_indexes (L ! unat b ! unat sec) p) vs) d"

lemma part_range_all:
  "dr_amount (decoded_request s) = AmountAll \<Longrightarrow> part_range s =
     (32 * unat (dr_part (decoded_request s)),
      min (32 * unat (dr_part (decoded_request s)) + 32) (unat (sx_number_of_parameters (request_section s))))"
  by (simp add: part_range_def Let_def)

context sx_store
begin

lemma handle_read_part:
  assumes "sx_ok s" "layout_ok (sx_layout s)" "well_framed m s" "own_id m s" "request_error m s = None"
    "length m \<noteq> SPECIAL_REQ_MSG_SIZE" "m ! AmountByte = AmountAll" "m ! WishByte \<noteq> WishSet"
    "m ! PartByte \<noteq> 126" "m ! PartByte \<noteq> 127" "inv (sx_data s)"
  shows "sx_data (handle_request A H m s) = sent A H (answer_head (answer_status m) m @
    encs (part_values val (sx_data s) (sx_layout s) (m ! BlockByte) (m ! SectionByte) (unat (m ! PartByte)))) (sx_data s)"
proof -
  note ok = decode_error_NoneD [OF request_error_NoneD [OF assms(5,6)]]
  have len: "length m = 15" using ok(7) assms(8) by (simp add: request_length_def)
  let ?u = "part_state m s"
  let ?x = "sx_layout s ! unat (m ! BlockByte) ! unat (m ! SectionByte)"
  have bu: "sx_building ?u" using part_state_building [OF assms(1,3)] len by simp
  have lu: "sx_layout ?u = sx_layout s" using cfg_eqD [of ?u s] by simp
  then have rs: "request_section ?u = ?x" by (simp add: request_section_def)
  have w: "dr_wish (decoded_request ?u) = WishGet" using assms(8) ok(2) u8_le_2 [of "m ! WishByte"] by auto
  let ?is = "part_indexes ?x (unat (m ! PartByte))"
  let ?vs = "part_values val (sx_data s) (sx_layout s) (m ! BlockByte) (m ! SectionByte) (unat (m ! PartByte))"
  have il: "length ?is \<le> 32" by (simp add: part_indexes_def)
  have room: "response_counter ?u + 2 * length ?is < MAX_MESSAGE_SIZE" using len il by simp
  have "length (response_array ?u) = MAX_MESSAGE_SIZE" using bu by (simp add: sx_building_def sx_ok_def)
  from read_params [OF _ w _ this room, of "32 * unat (m ! PartByte)"]
  have pp: "process_params H (32 * unat (m ! PartByte)) ?is ?u = (True, put_bytes (encs ?vs) ?u)"
    using assms(7,11) by (simp add: part_values_def)
  have lv: "length ?vs = length ?is" by (simp add: part_values_def)
  have rng: "part_range ?u = (32 * unat (m ! PartByte), min (32 * unat (m ! PartByte) + 32) (unat (sx_number_of_parameters ?x)))"
    using part_range_all [of ?u] assms(7) rs by simp
  have v: "put_bytes (encs ?vs) ?u =
      snd (process_params H (32 * unat (m ! PartByte))
        [32 * unat (m ! PartByte) ..< min (32 * unat (m ! PartByte) + 32) (unat (sx_number_of_parameters ?x))] ?u)"
    using pp by (simp add: part_indexes_def)
  have bv: "sx_building (put_bytes (encs ?vs) ?u)" using sx_building_put_bytes [OF bu] room lv by simp
  show ?thesis
    unfolding handle_one_part [OF assms(1-6,9,10) refl rng v bv]
    using put_data [OF bu, of "encs ?vs"] room lv part_state_head(2) [OF assms(1,3) len] by simp
qed

lemma handle_write_part:
  assumes "sx_ok s" "layout_ok (sx_layout s)" "well_framed m s" "own_id m s" "request_error m s = None"
    "length m \<noteq> SPECIAL_REQ_MSG_SIZE" "m ! AmountByte = AmountAll" "m ! WishByte = WishSet" "inv (sx_data s)"
    and vs: "\<forall>k < length vs. merge14 (m ! (2 * k + 10)) (m ! (2 * k + 11)) = vs ! k \<and>
      accepts (sx_layout s) (m ! BlockByte) (m ! SectionByte) (vs ! k)"
    and lvs: "2 * length vs + 11 = length m"
  shows "sx_data (handle_request A H m s) = sent A H (reply StAck m)
    (write_part H (sx_layout s) (m ! BlockByte) (m ! SectionByte) (unat (m ! PartByte)) vs (sx_data s))"
proof -
  note ok = decode_error_NoneD [OF request_error_NoneD [OF assms(5,6)]]
  let ?u = "part_state m s" and ?p = "unat (m ! PartByte)"
  let ?x = "sx_layout s ! unat (m ! BlockByte) ! unat (m ! SectionByte)"
  let ?is = "part_indexes ?x ?p"
  have p: "m ! PartByte \<noteq> 126" "m ! PartByte \<noteq> 127" using ok(6) assms(8) by (auto simp: part_allowed_def)
  have len: "length ?is = length vs" using ok(7) assms(7,8) lvs by (simp add: request_length_def)
  have bu: "sx_building ?u" using part_state_building [OF assms(1,3)] assms(8) by simp
  have lu: "sx_layout ?u = sx_layout s" using cfg_eqD [of ?u s] by simp
  then have rs: "request_section ?u = ?x" by (simp add: request_section_def)
  have ml: "length (response_array s) = MAX_MESSAGE_SIZE" "length m \<le> MAX_MESSAGE_SIZE"
    using assms(1,3) by (simp_all add: sx_ok_def well_framed_def)
  have arr: "response_array ?u ! k = m ! k" if "10 \<le> k" "k < length m" for k
    using that ml assms(8) by (simp add: part_state_def nth_overwrite)
  have "\<forall>(i, v) \<in> set (zip ?is vs). merge14 (response_array ?u ! (2 * (i - 32 * ?p) + 10)) (response_array ?u ! (2 * (i - 32 * ?p) + 11)) = v \<and>
      accepts (sx_layout ?u) (dr_block (decoded_request ?u)) (dr_section (decoded_request ?u)) v"
  proof
    fix x assume "x \<in> set (zip ?is vs)"
    then obtain k where k: "k < length ?is" "k < length vs" "x = (?is ! k, vs ! k)" by (auto simp: in_set_conv_nth)
    have "?is ! k = 32 * ?p + k" using k(1) by (simp add: part_indexes_def less_diff_conv add.commute)
    then show "case x of (i, v) \<Rightarrow> merge14 (response_array ?u ! (2 * (i - 32 * ?p) + 10)) (response_array ?u ! (2 * (i - 32 * ?p) + 11)) = v \<and>
        accepts (sx_layout ?u) (dr_block (decoded_request ?u)) (dr_section (decoded_request ?u)) v"
      using vs k arr [of "2 * k + 10"] arr [of "2 * k + 11"] lvs lu by simp
  qed
  from write_params [OF _ _ _ this]
  obtain r where pp: "process_params H (32 * ?p) (map fst (zip ?is vs)) ?u = (True, ?u\<lparr>decoded_request := r,
      sx_data := write_part H (sx_layout s) (m ! BlockByte) (m ! SectionByte) ?p vs (sx_data s)\<rparr>)"
    using assms(7,8,9) by (auto simp: write_part_def)
  let ?v = "?u\<lparr>decoded_request := r, sx_data := write_part H (sx_layout s) (m ! BlockByte) (m ! SectionByte) ?p vs (sx_data s)\<rparr>"
  have rng: "part_range ?u = (32 * ?p, min (32 * ?p + 32) (unat (sx_number_of_parameters ?x)))"
    using part_range_all [of ?u] assms(7) rs by simp
  have v: "?v = snd (process_params H (32 * ?p) [32 * ?p ..< min (32 * ?p + 32) (unat (sx_number_of_parameters ?x))] ?u)"
    using pp len by (simp add: part_indexes_def map_fst_zip)
  have bv: "sx_building ?v" using bu by simp
  have ah: "answer_head (answer_status m) m = reply StAck m" using assms(8) by (simp add: answer_head_def answer_status_def)
  have "slice 1 (response_counter ?v - 1) (response_array ?v) = reply StAck m"
    using part_state_head(2) [OF assms(1,3)] assms(8) ah by simp
  then show ?thesis unfolding handle_one_part [OF assms(1-6) p refl rng v bv] by simp
qed

end

end
