(* ===== verification/Sysex_Conf_Test_Handler.thy ===== *)
theory Sysex_Conf_Test_Handler
  imports Sysex_Conf_Answers Midi_Properties
begin

text \<open>
  The \<open>TestDataHandler\<close> and the layout of the repository's own tests
  (\<open>tests/src/utils/sysex_conf/sysex_conf_test.cpp\<close>). While no result is forced it keeps the laws
  of \<open>sx_store\<close>, with the test value behind every parameter. The semaphores of its blocking mode
  are left out.
\<close>

record test_handler =
  get_results :: "sx_status list"
  set_results :: "sx_status list"
  custom_append_results :: "bool list"
  force_custom_request_overflow :: bool
  responses :: "u8 list list"
  response_active :: "u8 list"
  response_ump :: "midi_ump list"

definition TEST_VALUE_GET :: u16 where [simp]: "TEST_VALUE_GET = 3"
definition CUSTOM_REQUEST_ID_VALID :: u16 where [simp]: "CUSTOM_REQUEST_ID_VALID = 54"
definition CUSTOM_REQUEST_ID_ERROR_READ :: u16 where [simp]: "CUSTOM_REQUEST_ID_ERROR_READ = 56"
definition CUSTOM_REQUEST_ID_NO_CONN_CHECK :: u16 where [simp]: "CUSTOM_REQUEST_ID_NO_CONN_CHECK = 57"

definition test_handler_new :: test_handler where
  "test_handler_new = \<lparr>get_results = [], set_results = [], custom_append_results = [], force_custom_request_overflow = False,
     responses = [], response_active = [], response_ump = []\<rparr>"

definition test_get :: "u8 \<Rightarrow> u8 \<Rightarrow> u16 \<Rightarrow> test_handler \<Rightarrow> (sx_status \<times> u16) \<times> test_handler" where
  "test_get b sec i d =
     (case get_results d of [] \<Rightarrow> ((StAck, TEST_VALUE_GET), d) | r # rs \<Rightarrow> ((r, TEST_VALUE_GET), d\<lparr>get_results := rs\<rparr>))"

definition test_set :: "u8 \<Rightarrow> u8 \<Rightarrow> u16 \<Rightarrow> u16 \<Rightarrow> test_handler \<Rightarrow> sx_status \<times> test_handler" where
  "test_set b sec i v d = (case set_results d of [] \<Rightarrow> (StAck, d) | r # rs \<Rightarrow> (r, d\<lparr>set_results := rs\<rparr>))"

definition test_custom_request :: "u16 \<Rightarrow> nat \<Rightarrow> test_handler \<Rightarrow> (sx_status \<times> u16 list) \<times> test_handler" where
  "test_custom_request request room d =
     (if request = CUSTOM_REQUEST_ID_VALID \<or> request = CUSTOM_REQUEST_ID_NO_CONN_CHECK
      then let vals = (if force_custom_request_overflow d then replicate MAX_MESSAGE_SIZE 1 else [1])
           in ((StAck, vals), d\<lparr>custom_append_results := custom_append_results d @ map (\<lambda>k. k < room) [0 ..< length vals]\<rparr>)
      else ((ErrorRead, []), d))"

definition test_send_response :: "(midi_ump, test_handler) writer" where
  "test_send_response packet d =
     (let d = d\<lparr>response_ump := response_ump d @ [packet]\<rparr>; status = sysex7_status packet;
          d = (if sysex7_starts_message status then d\<lparr>response_active := [SYS_EX_START]\<rparr> else d);
          d = d\<lparr>response_active := response_active d @ map (read_sysex7_payload_byte packet) [0 ..< unat (sysex7_payload_size packet)]\<rparr>;
          d = (if sysex7_ends_message status
               then d\<lparr>responses := responses d @ [response_active d @ [SYS_EX_END]], response_active := []\<rparr> else d)
      in (True, d))"

definition test_data_handler :: "test_handler sx_handler" where
  "test_data_handler = \<lparr>dh_get = test_get, dh_set = test_set, dh_custom_request = test_custom_request,
     dh_send_response = test_send_response\<rparr>"

definition test_m_id :: manufacturer_id where
  "test_m_id = \<lparr>id1 = 0x00, id2 = 0x53, id3 = 0x43\<rparr>"

definition TEST_LAYOUT :: sx_layout where
  "TEST_LAYOUT = [[new_sx_section 10 0 50, new_sx_section 6 0 0, new_sx_section 33 0 0]]"

definition test_custom_requests :: "custom_request_entry list" where
  "test_custom_requests =
     [\<lparr>request_id = CUSTOM_REQUEST_ID_VALID, conn_open_check = True\<rparr>,
      \<lparr>request_id = CUSTOM_REQUEST_ID_NO_CONN_CHECK, conn_open_check = False\<rparr>,
      \<lparr>request_id = CUSTOM_REQUEST_ID_ERROR_READ, conn_open_check = True\<rparr>]"

text \<open>The handler while no result is forced.\<close>

definition test_inv :: "test_handler \<Rightarrow> bool" where
  "test_inv d \<longleftrightarrow> get_results d = [] \<and> set_results d = []"

interpretation test_store: sx_store test_data_handler "\<lambda>d b sec i. TEST_VALUE_GET" test_inv
  by unfold_locales
    (simp_all add: test_data_handler_def test_get_def test_set_def test_send_response_def test_inv_def Let_def)

lemma test_store_laws: "sx_store test_data_handler (\<lambda>d b sec i. TEST_VALUE_GET) test_inv"
  by (rule test_store.sx_store_axioms)

lemma TEST_LAYOUT_sections:
  "TEST_LAYOUT = [[
     \<lparr>sx_number_of_parameters = 10, sx_new_value_min = 0, sx_new_value_max = 50, sx_parts = 1\<rparr>,
     \<lparr>sx_number_of_parameters = 6, sx_new_value_min = 0, sx_new_value_max = 0, sx_parts = 1\<rparr>,
     \<lparr>sx_number_of_parameters = 33, sx_new_value_min = 0, sx_new_value_max = 0, sx_parts = 2\<rparr>]]"
  by (simp add: TEST_LAYOUT_def new_sx_section_def)

lemma TEST_LAYOUT_ok: "layout_ok TEST_LAYOUT"
  by (simp add: TEST_LAYOUT_sections layout_ok_def section_ok_def)

text \<open>The protocol of the tests after \<open>SetUp\<close>, with the connection open.\<close>

definition test_open :: "test_handler sysex_conf" where
  "test_open = (sysex_conf_new test_handler_new test_m_id)
     \<lparr>sx_layout := TEST_LAYOUT, custom_requests := test_custom_requests, configuration_enabled := True\<rparr>"

lemma test_open_fields [simp]:
  "sx_ok test_open" "sx_inv test_open" "sx_layout test_open = TEST_LAYOUT" "configuration_enabled test_open"
  "sx_manufacturer_id test_open = test_m_id" "sx_data test_open = test_handler_new" "\<not> user_error_ignore_mode_enabled test_open"
  "\<not> ump_message_active test_open" "custom_requests test_open = test_custom_requests"
  by (simp_all add: test_open_def sysex_conf_new_def sx_ok_def sx_inv_def)

lemma test_handler_new_inv [simp]: "test_inv test_handler_new"
  by (simp add: test_inv_def test_handler_new_def)

end
