(* ===== verification/Sysex_Conf_Assembly.thy ===== *)
theory Sysex_Conf_Assembly
  imports Sysex_Conf_Session Midi_Properties
begin

text \<open>
  The packets of a SysEx message, fed one by one to \<open>handle_packet\<close>, are the message handled at
  once, when it fits the response array, and nothing when it does not.
\<close>

text \<open>The object after the start byte and the payload bytes \<open>bs\<close> of a message.\<close>

definition assembling :: "u8 list \<Rightarrow> 'd sysex_conf \<Rightarrow> 'd sysex_conf" where
  "assembling bs s = s\<lparr>response_array := overwrite 0 (SYS_EX_START # bs) (response_array s),
     response_counter := length bs + 1, ump_message_active := True\<rparr>"

definition assembled :: "u8 list \<Rightarrow> 'd sysex_conf \<Rightarrow> 'd sysex_conf" where
  "assembled bs s = s\<lparr>response_array := overwrite 0 (SYS_EX_START # bs @ [SYS_EX_END]) (response_array s),
     response_counter := length bs + 2, ump_message_active := False\<rparr>"

lemma overwrite_append: "length as + length bs \<le> length xs \<Longrightarrow> overwrite (length as) bs (overwrite 0 as xs) = overwrite 0 (as @ bs) xs"
  by (simp add: overwrite_def add.commute)

lemma assembling_start: "length (response_array s) = MAX_MESSAGE_SIZE \<Longrightarrow>
    (put_byte SYS_EX_START (reset_ump_message s))\<lparr>ump_message_active := True\<rparr> = assembling [] s"
  by (cases "response_array s") (simp_all add: put_byte_def reset_ump_message_def assembling_def overwrite_def)

lemma assembling_put:
  assumes "length (response_array s) = MAX_MESSAGE_SIZE" "length bs + length cs + 1 \<le> MAX_MESSAGE_SIZE"
  shows "put_bytes cs (assembling bs s) = assembling (bs @ cs) s"
proof -
  have "overwrite (length (SYS_EX_START # bs)) cs (overwrite 0 (SYS_EX_START # bs) (response_array s)) =
      overwrite 0 ((SYS_EX_START # bs) @ cs) (response_array s)"
    by (rule overwrite_append) (use assms in simp)
  moreover have "length (response_array (assembling bs s)) = MAX_MESSAGE_SIZE"
    using assms by (simp add: assembling_def)
  ultimately show ?thesis using assms(2) by (subst put_bytes_eq) (simp_all add: assembling_def)
qed

lemma assembling_end:
  assumes "length (response_array s) = MAX_MESSAGE_SIZE" "length bs + 2 \<le> MAX_MESSAGE_SIZE"
  shows "finish_message A H (assembling bs s) = reset_ump_message (handle_request A H (SYS_EX_START # bs @ [SYS_EX_END]) (assembled bs s))"
proof -
  have "put_byte SYS_EX_END (assembling bs s) = put_bytes [SYS_EX_END] (assembling bs s)" by (simp add: put_bytes_def)
  also have "\<dots> = assembling (bs @ [SYS_EX_END]) s" by (rule assembling_put) (use assms in simp_all)
  finally have "(put_byte SYS_EX_END (assembling bs s))\<lparr>ump_message_active := False\<rparr> = assembled bs s"
    by (simp add: assembling_def assembled_def)
  moreover have "take (length bs + 2) (response_array (assembled bs s)) = SYS_EX_START # bs @ [SYS_EX_END]"
    using assms by (simp add: assembled_def overwrite_def)
  ultimately show ?thesis by (simp add: finish_message_def assembled_def Let_def)
qed

context ump_macros
begin

lemma handle_chunk:
  assumes "length c \<le> 6" "list_all (\<lambda>d. d < 0x80) c" "st \<le> 3" "length (response_array s) = MAX_MESSAGE_SIZE"
  shows "\<not> sysex7_starts_message st \<Longrightarrow> \<not> ump_message_active s \<Longrightarrow> handle_packet A H (sysex7_packet A g st c) s = s"
    and "\<not> sysex7_starts_message st \<Longrightarrow> handle_packet A H (sysex7_packet A g st c) (assembling bs s) =
      (if length bs + 1 + length c + (if sysex7_ends_message st then 1 else 0) > MAX_MESSAGE_SIZE
       then reset_ump_message (assembling bs s)
       else if sysex7_ends_message st then finish_message A H (assembling (bs @ c) s) else assembling (bs @ c) s)"
    and "sysex7_starts_message st \<Longrightarrow> handle_packet A H (sysex7_packet A g st c) s =
      (if sysex7_ends_message st then finish_message A H (assembling c s) else assembling c s)"
proof -
  note r = sysex_read [OF assms(1-3), of g]
  show "\<not> sysex7_starts_message st \<Longrightarrow> \<not> ump_message_active s \<Longrightarrow> handle_packet A H (sysex7_packet A g st c) s = s"
    by (simp add: handle_packet_eq r Let_def)
  have put: "length bs + length c + 1 \<le> MAX_MESSAGE_SIZE \<Longrightarrow> put_bytes c (assembling bs s) = assembling (bs @ c) s" for bs
    by (rule assembling_put [OF assms(4)])
  have cnt: "response_counter (assembling bs s) = length bs + 1" "ump_message_active (assembling bs s)" for bs
    by (simp_all add: assembling_def)
  show "\<not> sysex7_starts_message st \<Longrightarrow> handle_packet A H (sysex7_packet A g st c) (assembling bs s) =
      (if length bs + 1 + length c + (if sysex7_ends_message st then 1 else 0) > MAX_MESSAGE_SIZE
       then reset_ump_message (assembling bs s)
       else if sysex7_ends_message st then finish_message A H (assembling (bs @ c) s) else assembling (bs @ c) s)"
    using put [of bs] by (simp add: handle_packet_eq r Let_def frame_start_def cnt del: MAX_MESSAGE_SIZE_def)
  have "sysex7_starts_message st \<Longrightarrow> frame_start st s = assembling [] s"
    using assembling_start [OF assms(4)] by (simp add: frame_start_def)
  then show "sysex7_starts_message st \<Longrightarrow> handle_packet A H (sysex7_packet A g st c) s =
      (if sysex7_ends_message st then finish_message A H (assembling c s) else assembling c s)"
    using put [of "[]"] assms(1) by (simp add: handle_packet_eq r Let_def cnt)
qed

lemma handle_tail_ignored:
  assumes "list_all (\<lambda>c. length c \<le> 6 \<and> list_all (\<lambda>d. d < 0x80) c) cs" "length (response_array s) = MAX_MESSAGE_SIZE" "\<not> ump_message_active s"
  shows "fold (handle_packet A H) (tail_packets A g cs) s = s"
  using assms(1)
  by (induction cs rule: induct_list012)
    (simp_all add: handle_chunk(1) [OF _ _ _ assms(2) _ assms(3)] sysex7_starts_message_def)

lemma handle_tail:
  assumes "list_all (\<lambda>c. length c \<le> 6 \<and> list_all (\<lambda>d. d < 0x80) c) cs" "cs \<noteq> []" "length (response_array s) = MAX_MESSAGE_SIZE"
    "length bs + 1 \<le> MAX_MESSAGE_SIZE"
  shows "length (bs @ concat cs) + 2 \<le> MAX_MESSAGE_SIZE \<Longrightarrow>
      fold (handle_packet A H) (tail_packets A g cs) (assembling bs s) = finish_message A H (assembling (bs @ concat cs) s)"
    and "length (bs @ concat cs) + 2 > MAX_MESSAGE_SIZE \<Longrightarrow>
      \<exists>bs'. length bs' + 1 \<le> MAX_MESSAGE_SIZE \<and> fold (handle_packet A H) (tail_packets A g cs) (assembling bs s) = reset_ump_message (assembling bs' s)"
proof -
  have "(length (bs @ concat cs) + 2 \<le> MAX_MESSAGE_SIZE \<longrightarrow>
      fold (handle_packet A H) (tail_packets A g cs) (assembling bs s) = finish_message A H (assembling (bs @ concat cs) s)) \<and>
    (length (bs @ concat cs) + 2 > MAX_MESSAGE_SIZE \<longrightarrow> (\<exists>bs'. length bs' + 1 \<le> MAX_MESSAGE_SIZE \<and>
      fold (handle_packet A H) (tail_packets A g cs) (assembling bs s) = reset_ump_message (assembling bs' s)))"
    using assms(1,2,4)
  proof (induction cs arbitrary: bs)
    case (Cons c cs)
    have c: "length c \<le> 6" "list_all (\<lambda>d. d < 0x80) c" using Cons(2) by simp_all
    note step = handle_chunk(2) [OF c _ assms(3), where bs = bs and g = g and H = H]
    show ?case
    proof (cases cs)
      case Nil
      then show ?thesis using step [of SysEx7End] Cons(4)
        by (auto simp: sysex7_starts_message_def sysex7_ends_message_def simp del: MAX_MESSAGE_SIZE_def)
    next
      case (Cons d ds)
      have tl: "tail_packets A g (c # cs) = sysex7_packet A g SysEx7Continue c # tail_packets A g cs" using Cons by simp
      show ?thesis
      proof (cases "length bs + 1 + length c > MAX_MESSAGE_SIZE")
        case True
        let ?r = "reset_ump_message (assembling bs s)"
        have "length (response_array ?r) = MAX_MESSAGE_SIZE" "\<not> ump_message_active ?r"
          using assms(3) Cons.prems(3) by (simp_all add: reset_ump_message_def assembling_def)
        from handle_tail_ignored [OF _ this, of cs H g] Cons.prems(1)
        have "fold (handle_packet A H) (tail_packets A g cs) ?r = ?r" by simp
        then show ?thesis using step [of SysEx7Continue] True Cons.prems(3) tl
          by (auto simp: sysex7_starts_message_def sysex7_ends_message_def simp del: MAX_MESSAGE_SIZE_def)
      next
        case False
        then show ?thesis using step [of SysEx7Continue] tl Cons.IH [of "bs @ c"] Cons.prems(1) Cons
          by (simp add: sysex7_starts_message_def sysex7_ends_message_def del: MAX_MESSAGE_SIZE_def)
      qed
    qed
  qed simp
  then show "length (bs @ concat cs) + 2 \<le> MAX_MESSAGE_SIZE \<Longrightarrow>
      fold (handle_packet A H) (tail_packets A g cs) (assembling bs s) = finish_message A H (assembling (bs @ concat cs) s)"
    "length (bs @ concat cs) + 2 > MAX_MESSAGE_SIZE \<Longrightarrow>
      \<exists>bs'. length bs' + 1 \<le> MAX_MESSAGE_SIZE \<and> fold (handle_packet A H) (tail_packets A g cs) (assembling bs s) = reset_ump_message (assembling bs' s)"
    by blast+
qed

lemma chunks_ok: "list_all (\<lambda>d. d < 0x80) bs \<Longrightarrow> list_all (\<lambda>c. length c \<le> 6 \<and> list_all (\<lambda>d. d < 0x80) c) (chunks bs)"
proof (induction bs rule: chunks.induct)
  case (1 bs)
  have "list_all (\<lambda>d. d < 0x80) (take 6 bs)" "list_all (\<lambda>d. d < 0x80) (drop 6 bs)"
    using 1(2) append_take_drop_id [of 6 bs] by (metis list_all_append)+
  then show ?case using 1 by (cases "length bs \<le> 6") (simp_all add: chunks_short chunks_long)
qed

lemma handle_message_packets:
  assumes "list_all (\<lambda>d. d < 0x80) bs" "length (response_array s) = MAX_MESSAGE_SIZE"
  shows "length bs + 2 \<le> MAX_MESSAGE_SIZE \<Longrightarrow> fold (handle_packet A H) (msg_packets A g (SysExMsg bs)) s =
      reset_ump_message (handle_request A H (SYS_EX_START # bs @ [SYS_EX_END]) (assembled bs s))"
    and "length bs + 2 > MAX_MESSAGE_SIZE \<Longrightarrow> \<exists>a. length a = MAX_MESSAGE_SIZE \<and>
      fold (handle_packet A H) (msg_packets A g (SysExMsg bs)) s = (reset_ump_message s)\<lparr>response_array := a\<rparr>"
proof -
  obtain c cs where cs: "chunks bs = c # cs" using chunks_nonempty by (cases "chunks bs") auto
  then have ok: "length c \<le> 6" "list_all (\<lambda>d. d < 0x80) c" "list_all (\<lambda>c. length c \<le> 6 \<and> list_all (\<lambda>d. d < 0x80) c) cs"
    using chunks_ok [OF assms(1)] by simp_all
  have bs: "bs = c @ concat cs" using concat_chunks [of bs] cs by simp
  have one: "fold (handle_packet A H) (msg_packets A g (SysExMsg bs)) s = finish_message A H (assembling bs s)" if "cs = []"
    using that cs bs handle_chunk(3) [OF ok(1,2) _ assms(2), of SysEx7Complete H g]
    by (simp add: sysex7_starts_message_def sysex7_ends_message_def)
  have more: "fold (handle_packet A H) (msg_packets A g (SysExMsg bs)) s = fold (handle_packet A H) (tail_packets A g cs) (assembling c s)"
    if ne: "cs \<noteq> []"
  proof -
    obtain d ds where "cs = d # ds" using ne by (cases cs) auto
    then show ?thesis using cs handle_chunk(3) [OF ok(1,2) _ assms(2), of SysEx7Start H g]
      by (simp add: sysex7_starts_message_def sysex7_ends_message_def)
  qed
  have c1: "length c + 1 \<le> MAX_MESSAGE_SIZE" using ok(1) by simp
  { assume fits: "length bs + 2 \<le> MAX_MESSAGE_SIZE"
    have "fold (handle_packet A H) (msg_packets A g (SysExMsg bs)) s = finish_message A H (assembling bs s)"
      using one more handle_tail(1) [OF ok(3) _ assms(2) c1, of H g] fits bs by (cases "cs = []") simp_all
    then show "fold (handle_packet A H) (msg_packets A g (SysExMsg bs)) s =
      reset_ump_message (handle_request A H (SYS_EX_START # bs @ [SYS_EX_END]) (assembled bs s))"
      using assembling_end [OF assms(2) fits, of A H] by simp
  next
    assume long: "length bs + 2 > MAX_MESSAGE_SIZE"
    then have "cs \<noteq> []" using bs ok(1) by auto
    then obtain bs' where b: "length bs' + 1 \<le> MAX_MESSAGE_SIZE"
      "fold (handle_packet A H) (msg_packets A g (SysExMsg bs)) s = reset_ump_message (assembling bs' s)"
      using more handle_tail(2) [OF ok(3) _ assms(2) c1, of H g] long bs by auto
    have "reset_ump_message (assembling bs' s) = (reset_ump_message s)\<lparr>response_array := overwrite 0 (SYS_EX_START # bs') (response_array s)\<rparr>"
      by (simp add: reset_ump_message_def assembling_def)
    moreover have "length (overwrite 0 (SYS_EX_START # bs') (response_array s)) = MAX_MESSAGE_SIZE" using b(1) assms(2) by simp
    ultimately show "\<exists>a. length a = MAX_MESSAGE_SIZE \<and>
      fold (handle_packet A H) (msg_packets A g (SysExMsg bs)) s = (reset_ump_message s)\<lparr>response_array := a\<rparr>"
      using b(2) by metis
  }
qed

end

end
