(* ===== verification/Sysex_Conf_Properties.thy ===== *)
theory Sysex_Conf_Properties
  imports Sysex_Conf_Test_Handler Sysex_Conf_Assembly
begin

text \<open>
  The properties of the SysEx configuration protocol, each with a witness on the repository's own
  test handler and test layout.
\<close>

section \<open>The buffer\<close>

text \<open>C10. In any session from a new object, whatever packets arrive, whatever the layout and the user's
  handler are, the response array is never written outside its bounds and no send loops
  forever, as long as custom messages have at most 72 values.\<close>
theorem sysex_session_never_overruns:
  assumes "list_all custom_fits ops"
  shows "let s = sx_session A H ops (sysex_conf_new d mid) in
    \<not> array_overrun s \<and> \<not> send_hangs s \<and> length (response_array s) = MAX_MESSAGE_SIZE"
  using sx_session_inv [OF sx_new_inv assms, of A H d mid] by (simp add: Let_def sx_inv_def sx_ok_def)

theorem sysex_session_never_overruns_witness:
  "\<not> array_overrun (sx_session ump_layout test_data_handler
     [SetLayout TEST_LAYOUT, Packet (sysex7_packet ump_layout 0 SysEx7Start [0, 0x53, 0x43, 0, 0, 1]), SendCustom [1, 2] True]
     (sysex_conf_new test_handler_new test_m_id))"
  using sysex_session_never_overruns
    [of "[SetLayout TEST_LAYOUT, Packet (sysex7_packet ump_layout 0 SysEx7Start [0, 0x53, 0x43, 0, 0, 1]), SendCustom [1, 2] True]"
      ump_layout test_data_handler test_handler_new test_m_id]
  by (simp add: Let_def custom_max_def)

lemma overrun_put_bytes:
  "response_counter s \<le> MAX_MESSAGE_SIZE \<Longrightarrow> array_overrun (put_bytes bs s) \<longleftrightarrow>
    array_overrun s \<or> response_counter s + length bs > MAX_MESSAGE_SIZE"
proof (induction bs arbitrary: s)
  case (Cons b bs)
  have over: "array_overrun (fold put_byte bs t)" if "array_overrun t" for bs and t :: "'a sysex_conf"
    using that by (induction bs arbitrary: t) (simp_all add: put_byte_def)
  show ?case
  proof (cases "response_counter s < MAX_MESSAGE_SIZE")
    case True
    then show ?thesis using Cons(1) [of "put_byte b s"] by (simp add: put_bytes_def put_byte_eq del: MAX_MESSAGE_SIZE_def)
  next
    case False
    then show ?thesis using over [of "put_byte b s" bs] Cons(2) by (simp add: put_bytes_def put_byte_def)
  qed
qed (simp add: put_bytes_def)

lemma overrun_send: "array_overrun (send_response A H s) \<longleftrightarrow> array_overrun (put_byte SYS_EX_END s)"
  by (simp add: send_response_def Let_def split: option.splits)

lemma counter_put_bytes: "response_counter (put_bytes bs s) = response_counter s + length bs"
  by (induction bs arbitrary: s) (simp_all add: put_bytes_def put_byte_def)

text \<open>A custom message goes out with its header and values exactly when it has at most 72 values; with
  more, the code writes behind the end of the response array.\<close>
theorem sysex_custom_message_fits:
  assumes "sx_inv s"
  shows "(array_overrun (send_custom_message A H vals ack s) \<longleftrightarrow> 72 < length vals) \<and>
    (length vals \<le> 72 \<longrightarrow> sx_data (send_custom_message A H vals ack s) =
      sent A H (tl (custom_header ack s) @ map ucast vals) (sx_data s))"
proof -
  let ?bs = "custom_header ack s @ map ucast vals"
  let ?u = "put_bytes ?bs (s\<lparr>response_counter := 0\<rparr>)"
  have len: "length ?bs = length vals + 6" "?bs = SYS_EX_START # tl (custom_header ack s) @ map ucast vals"
    by (simp_all add: custom_header_def)
  have ok: "\<not> array_overrun s" "length (response_array s) = MAX_MESSAGE_SIZE" "sx_ok s"
    using assms by (simp_all add: sx_inv_def sx_ok_def)
  have "array_overrun (put_byte SYS_EX_END ?u) \<longleftrightarrow> array_overrun ?u \<or> response_counter ?u \<ge> MAX_MESSAGE_SIZE"
    by (simp add: put_byte_def)
  also have "\<dots> \<longleftrightarrow> 72 < length vals"
    using overrun_put_bytes [of "s\<lparr>response_counter := 0\<rparr>" ?bs] counter_put_bytes [of ?bs "s\<lparr>response_counter := 0\<rparr>"] ok(1) len(1)
    by (simp del: append_assoc) arith
  finally have over: "array_overrun (send_custom_message A H vals ack s) \<longleftrightarrow> 72 < length vals"
    by (simp add: send_custom_message_eq overrun_send)
  have "sx_data (send_custom_message A H vals ack s) = sent A H (tl (custom_header ack s) @ map ucast vals) (sx_data s)"
    if "length vals \<le> 72"
  proof -
    have b: "sx_building ?u" using send_custom_building [OF ok(3), of vals ack] that by (simp add: custom_max_def)
    have u: "response_counter ?u = length ?bs" "response_array ?u = overwrite 0 ?bs (response_array s)" "sx_data ?u = sx_data s"
      using that len(1) ok(2) by (simp_all add: put_bytes_eq del: append_assoc)
    have "slice 1 (length ?bs - 1) (overwrite 0 ?bs (response_array s)) = tl (custom_header ack s) @ map ucast vals"
      unfolding len(2) by (simp add: slice_def overwrite_def)
    then show ?thesis unfolding send_custom_message_eq send_response_data [OF b] u by simp
  qed
  then show ?thesis using over by blast
qed

theorem sysex_custom_message_fits_witness:
  "array_overrun (send_custom_message ump_layout test_data_handler (replicate 73 0) True (sysex_conf_new test_handler_new test_m_id)) \<and>
   \<not> array_overrun (send_custom_message ump_layout test_data_handler (replicate 72 0) True (sysex_conf_new test_handler_new test_m_id))"
  using sysex_custom_message_fits [OF sx_new_inv, of ump_layout test_data_handler "replicate 73 0" True test_handler_new test_m_id]
    sysex_custom_message_fits [OF sx_new_inv, of ump_layout test_data_handler "replicate 72 0" True test_handler_new test_m_id]
  by simp

section \<open>Access to the user's handler\<close>

text \<open>C11. While no connection is open a packet never makes the code read or write a parameter, and
  otherwise only parameters of the layout are read or written, and only with values in the range
  of their section: two handlers that agree on these calls, on custom requests and on sending
  lead to the same result.\<close>
theorem sysex_handler_access_guarded:
  assumes "sx_inv s" "agree (if configuration_enabled s then sx_layout s else []) H H'"
  shows "handle_packet A H p s = handle_packet A H' p s"
  by (rule agree_handle_packet [OF assms(1)]) (use assms(2) in \<open>simp add: reachable_layout_def\<close>)

theorem sysex_handler_access_guarded_witness:
  "\<forall>p. handle_packet ump_layout test_data_handler p test_open =
     handle_packet ump_layout (test_data_handler\<lparr>dh_get := \<lambda>b sec i d.
       if in_layout TEST_LAYOUT b sec i then test_get b sec i d else ((ErrorRead, 0), d)\<rparr>) p test_open"
  by (intro allI sysex_handler_access_guarded) (simp_all add: agree_def test_data_handler_def)

text \<open>Handling a message changes nothing of the configuration but the open flag, and that only for the
  special requests addressed to this device: open, and close.\<close>
theorem sysex_connection_changes_by_special_requests:
  assumes "sx_ok s"
  shows "cfg (handle_request A H m s) = cfg (s\<lparr>configuration_enabled :=
    (if is_special m s then opens (m ! WishByte) (configuration_enabled s) else configuration_enabled s)\<rparr>)"
  using handle_request_keeps [OF assms] by blast

theorem sysex_connection_changes_by_special_requests_witness:
  "cfg (handle_request ump_layout test_data_handler [0xF0, 0, 0x53, 0x43, 0, 0, 0, 0xF7] test_open) =
     (test_m_id, False, False, False, TEST_LAYOUT, test_custom_requests)"
proof -
  have "is_special [0xF0, 0, 0x53, 0x43, 0, 0, 0, 0xF7] test_open"
    by (simp add: is_special_def well_framed_def own_id_def test_m_id_def TEST_LAYOUT_sections)
  then show ?thesis
    using sysex_connection_changes_by_special_requests
      [OF test_open_fields(1), of ump_layout test_data_handler "[0xF0, 0, 0x53, 0x43, 0, 0, 0, 0xF7]"]
    by (simp add: opens_def) (simp add: cfg_def)
qed

section \<open>Packets and messages\<close>

text \<open>C12. Fed packet by packet, a SysEx message that fits the response array is handled as the whole
  message with its start and end bytes, and a longer one leaves everything but the array and an
  unfinished message as it was.\<close>
theorem sysex_packets_are_one_message:
  assumes "ump_macros A" "list_all (\<lambda>d. d < 0x80) bs" "sx_ok s"
  shows "(length bs \<le> 77 \<longrightarrow> fold (handle_packet A H) (msg_packets A g (SysExMsg bs)) s =
      reset_ump_message (handle_request A H (sx_message bs) (assembled bs s))) \<and>
    (length bs > 77 \<longrightarrow> (\<exists>a. fold (handle_packet A H) (msg_packets A g (SysExMsg bs)) s =
      (reset_ump_message s)\<lparr>response_array := a\<rparr>))"
  using ump_macros.handle_message_packets [OF assms(1,2), of s H g] assms(3) by (auto simp: sx_ok_def sx_message_def)

theorem sysex_packets_are_one_message_witness:
  "fold (handle_packet ump_layout test_data_handler) (msg_packets ump_layout 0 (SysExMsg [0, 0x53, 0x43, 0, 0, 1])) test_open =
     reset_ump_message (handle_request ump_layout test_data_handler [0xF0, 0, 0x53, 0x43, 0, 0, 1, 0xF7]
       (assembled [0, 0x53, 0x43, 0, 0, 1] test_open))"
  using sysex_packets_are_one_message [OF ump_layout_macros _ test_open_fields(1), of "[0, 0x53, 0x43, 0, 0, 1]" test_data_handler 0]
  by (simp add: sx_message_def del: msg_packets.simps)

section \<open>Answers\<close>

text \<open>A request that fails a check is answered exactly once, by its own bytes with the status of the
  first failing check in the order status, length, connection, wish, block, section, amount,
  part, length; the user's handler only sends the answer.\<close>
theorem sysex_request_error_answer:
  assumes "sx_ok s" "layout_ok (sx_layout s)" "well_framed m s" "own_id m s" "request_error m s = Some e"
  shows "sx_data (handle_request A H m s) = sent A H (reply e m) (sx_data s)"
  by (rule handle_request_error [OF assms])

definition get_request :: "u8 \<Rightarrow> u8 list" where
  "get_request b = [0xF0, 0, 0x53, 0x43, 0, 0, 0, 0, b, 0, 0, 5, 0, 0, 0xF7]"

lemma get_request_framed [simp]:
  "well_framed (get_request b) test_open" "own_id (get_request b) test_open"
  by (simp_all add: get_request_def well_framed_def own_id_def test_m_id_def TEST_LAYOUT_sections)

lemma test_open_layout_ok [simp]: "layout_ok (sx_layout test_open)"
  by (simp add: TEST_LAYOUT_ok)

theorem sysex_request_error_answer_witness:
  "sx_data (handle_request ump_layout test_data_handler (get_request 1) test_open) =
     sent ump_layout test_data_handler [0, 0x53, 0x43, 6, 0, 0, 0, 1, 0, 0, 5, 0, 0] test_handler_new"
proof -
  have "request_error (get_request 1) test_open = Some ErrorBlock"
    by (simp add: request_error_def decode_error_def get_request_def TEST_LAYOUT_sections Let_def)
  moreover have "reply ErrorBlock (get_request 1) = [0, 0x53, 0x43, 6, 0, 0, 0, 1, 0, 0, 5, 0, 0]"
    by (simp add: reply_def payload_of_def get_request_def slice_def)
  ultimately show ?thesis
    using sysex_request_error_answer [OF test_open_fields(1) test_open_layout_ok get_request_framed, of 1 ErrorBlock ump_layout test_data_handler]
    by simp
qed





section \<open>Backup\<close>

definition part_message :: "manufacturer_id \<Rightarrow> u8 \<Rightarrow> u8 \<Rightarrow> u8 \<Rightarrow> u8 \<Rightarrow> u8 list \<Rightarrow> u8 list" where
  "part_message mid p wish b sec rest = sx_message (sx_header mid (status_code StRequest) p wish AmountAll b sec @ rest)"

lemma part_message_nth:
  "part_message mid p wish b sec rest ! 0 = SYS_EX_START" "part_message mid p wish b sec rest ! 1 = id1 mid"
  "part_message mid p wish b sec rest ! 2 = id2 mid" "part_message mid p wish b sec rest ! 3 = id3 mid"
  "part_message mid p wish b sec rest ! StatusByte = 0" "part_message mid p wish b sec rest ! PartByte = p"
  "part_message mid p wish b sec rest ! WishByte = wish" "part_message mid p wish b sec rest ! AmountByte = AmountAll"
  "part_message mid p wish b sec rest ! BlockByte = b" "part_message mid p wish b sec rest ! SectionByte = sec"
  "length (part_message mid p wish b sec rest) = length rest + 11"
  "part_message mid p wish b sec rest ! (length rest + 10) = SYS_EX_END"
  "k < length rest \<Longrightarrow> part_message mid p wish b sec rest ! (k + 10) = rest ! k"
  by (simp_all add: part_message_def sx_message_def sx_header_def nth_append)

lemma take_bit_14_eq: "x < 2 ^ 14 \<Longrightarrow> take_bit 14 x = (x :: u16)"
  by (rule word_unat_eq_iff [THEN iffD2]) (simp add: unsigned_take_bit_eq take_bit_nat_eq_self word_less_nat_alt)

text \<open>A request for a part of the layout, on an open connection.\<close>

definition part_exists :: "u8 \<Rightarrow> u8 \<Rightarrow> u8 \<Rightarrow> 'd sysex_conf \<Rightarrow> bool" where
  "part_exists p b sec s \<longleftrightarrow> configuration_enabled s \<and> unat b < length (sx_layout s) \<and> unat sec < length (sx_layout s ! unat b) \<and>
     p < sx_parts (sx_layout s ! unat b ! unat sec) \<and> p < 126"

lemma part_message_ok:
  assumes "part_exists p b sec s" "layout_ok (sx_layout s)" "length rest \<le> 68" "wish = WishSet \<or> wish = WishBackup"
    "length rest = (if wish = WishSet then 2 * length (part_indexes (sx_layout s ! unat b ! unat sec) (unat p)) else 4)"
  shows "well_framed (part_message (sx_manufacturer_id s) p wish b sec rest) s"
    "own_id (part_message (sx_manufacturer_id s) p wish b sec rest) s"
    "request_error (part_message (sx_manufacturer_id s) p wish b sec rest) s = None"
    "length (part_message (sx_manufacturer_id s) p wish b sec rest) \<noteq> SPECIAL_REQ_MSG_SIZE"
proof -
  let ?m = "part_message (sx_manufacturer_id s) p wish b sec rest"
  have ne: "sx_layout s \<noteq> []" using assms(1) by (auto simp: part_exists_def)
  have last: "?m ! (length ?m - 1) = SYS_EX_END" using part_message_nth(12) [of "sx_manufacturer_id s" p wish b sec rest] by (simp add: part_message_nth(11) add.commute)
  show "well_framed ?m s"
    unfolding well_framed_def using last ne assms(3) by (simp add: part_message_nth del: SYS_EX_START_def SYS_EX_END_def)
  show "own_id ?m s"
    using part_message_nth(2-4) [of "sx_manufacturer_id s" p wish b sec rest] by (simp add: own_id_def)
  show "length ?m \<noteq> SPECIAL_REQ_MSG_SIZE" by (simp add: part_message_nth)
  let ?x = "sx_layout s ! unat b ! unat sec"
  have pe: "configuration_enabled s" "unat b < length (sx_layout s)" "unat sec < length (sx_layout s ! unat b)"
    "p < sx_parts ?x" "p \<noteq> 126" "p \<noteq> 127"
    using assms(1) by (auto simp: part_exists_def)
  have "section_ok ?x" using layout_ok_section [OF assms(2)] pe(2,3) by simp
  from section_ok_parts(1) [OF this, of "unat p"] pe(4)
  have ne: "1 \<le> length (part_indexes ?x (unat p))" by (simp add: part_indexes_def word_less_nat_alt)
  have len: "length ?m = request_length wish AmountAll p ?x" "13 \<le> length ?m"
    using assms(4,5) ne by (auto simp: part_message_nth(11) request_length_def)
  have "part_allowed wish AmountAll p ?x" using pe by (simp add: part_allowed_def)
  moreover have "wish \<le> WishBackup" using assms(4) by auto
  ultimately show "request_error ?m s = None"
    using pe(1-3) len unfolding request_error_def decode_error_def Let_def part_message_nth(5-10)
    by (simp add: not_less not_le)
qed

text \<open>C14. The answer to a backup of a part, fed back as a request, writes the values that were read to the
  same parameters: for a handler that acts as a store, with values of 14 bits in the section's
  range, the backup is a valid \<open>Set\<close> message that holds the values of the part, and handling it
  writes exactly these values, in order, and acknowledges them.\<close>
theorem sysex_backup_restores_part:
  assumes "sx_store H val I" "sx_ok s" "I (sx_data s)" "part_exists p b sec s" "layout_ok (sx_layout s)"
    and "sx_store H' val' I'" "sx_ok s'" "I' (sx_data s')" "sx_layout s' = sx_layout s" "configuration_enabled s'"
      "sx_manufacturer_id s' = sx_manufacturer_id s"
    and "list_all (\<lambda>v. v < 2 ^ 14 \<and> accepts (sx_layout s) b sec v) (part_values val (sx_data s) (sx_layout s) b sec (unat p))"
  shows "let vs = part_values val (sx_data s) (sx_layout s) b sec (unat p); mid = sx_manufacturer_id s;
      backup = part_message mid p WishSet b sec (encs vs)
    in sx_data (handle_request A H (part_message mid p WishBackup b sec [0, 0, 0, 0]) s) = sent A H (payload_of backup) (sx_data s) \<and>
       sx_data (handle_request A H' backup s') =
         sent A H' (reply StAck backup) (write_part H' (sx_layout s) b sec (unat p) vs (sx_data s'))"
proof -
  let ?vs = "part_values val (sx_data s) (sx_layout s) b sec (unat p)" and ?mid = "sx_manufacturer_id s"
  let ?x = "sx_layout s ! unat b ! unat sec"
  let ?req = "part_message ?mid p WishBackup b sec [0, 0, 0, 0]" and ?bak = "part_message ?mid p WishSet b sec (encs ?vs)"
  have p: "p \<noteq> 126" "p \<noteq> 127" using assms(4) by (auto simp: part_exists_def)
  have lv: "length ?vs = length (part_indexes ?x (unat p))" "length ?vs \<le> 32" by (simp_all add: part_values_def part_indexes_def)
  note n = part_message_nth part_message_nth [simplified]
  have "length [0, 0, 0, 0 :: u8] \<le> 68" "WishBackup = WishSet \<or> WishBackup = WishBackup"
    "length [0, 0, 0, 0 :: u8] = (if WishBackup = WishSet then 2 * length (part_indexes ?x (unat p)) else 4)" by simp_all
  note rq = part_message_ok [OF assms(4,5) this]
  have "sx_data (handle_request A H ?req s) = sent A H (answer_head (answer_status ?req) ?req @ encs ?vs) (sx_data s)"
    using sx_store.handle_read_part [OF assms(1,2,5) rq _ _ _ _ assms(3), of A] p by (simp add: n)
  moreover have "answer_head (answer_status ?req) ?req @ encs ?vs = payload_of ?bak"
    by (simp add: answer_head_def answer_status_def reply_def n(7) payload_of_def)
      (simp add: part_message_def sx_message_def sx_header_def slice_def)
  moreover have "sx_data (handle_request A H' ?bak s') =
      sent A H' (reply StAck ?bak) (write_part H' (sx_layout s) b sec (unat p) ?vs (sx_data s'))"
  proof -
    have pe: "part_exists p b sec s'" using assms(4,9,10) by (simp add: part_exists_def)
    have "length (encs ?vs) \<le> 68" "WishSet = WishSet \<or> WishSet = WishBackup"
      "length (encs ?vs) = (if WishSet = WishSet then 2 * length (part_indexes (sx_layout s' ! unat b ! unat sec) (unat p)) else 4)"
      using lv assms(9) by simp_all
    from part_message_ok [OF pe _ this] have rq': "well_framed ?bak s'" "own_id ?bak s'" "request_error ?bak s' = None"
      "length ?bak \<noteq> SPECIAL_REQ_MSG_SIZE" using assms(5,9,11) by simp_all
    have "merge14 (?bak ! (2 * k + 10)) (?bak ! (2 * k + 11)) = ?vs ! k \<and>
        accepts (sx_layout s') (?bak ! BlockByte) (?bak ! SectionByte) (?vs ! k)" if k: "k < length ?vs" for k
    proof -
      have ac: "?vs ! k < 2 ^ 14" "accepts (sx_layout s) b sec (?vs ! k)" using assms(12) k by (simp_all add: list_all_length)
      have "take_bit 14 (?vs ! k) = ?vs ! k" using ac(1) by (simp add: take_bit_14_eq)
      moreover have "?bak ! (2 * k + 10) = fst (split14 (?vs ! k))"
        using n(13) [of "2 * k" "encs ?vs" ?mid p WishSet b sec] nth_encs [OF k] k by simp
      moreover have "?bak ! (2 * k + 1 + 10) = snd (split14 (?vs ! k))"
        using n(13) [of "2 * k + 1" "encs ?vs" ?mid p WishSet b sec] nth_encs [OF k] k by simp
      then have "?bak ! (2 * k + 11) = snd (split14 (?vs ! k))" by (simp add: add.commute)
      ultimately show ?thesis using merge_split [of "?vs ! k"] ac(2) assms(9) by (simp add: n)
    qed
    then show ?thesis
      using sx_store.handle_write_part [OF assms(6,7) _ rq' _ _ assms(8), of ?vs A] assms(5,9) by (simp add: n)
  qed
  ultimately show ?thesis by (simp add: Let_def)
qed

lemma test_part_values: "part_values (\<lambda>d b sec i. 3) d TEST_LAYOUT 0 1 0 = replicate 6 3"
  by (simp add: part_values_def part_indexes_def TEST_LAYOUT_sections map_replicate_const)

lemma test_accepts: "accepts TEST_LAYOUT 0 1 3"
  by (simp add: accepts_def TEST_LAYOUT_sections)

theorem sysex_backup_restores_part_witness:
  "sx_data (handle_request ump_layout test_data_handler (part_message test_m_id 0 WishBackup 0 1 [0, 0, 0, 0]) test_open) =
     sent ump_layout test_data_handler (payload_of (part_message test_m_id 0 WishSet 0 1 (encs (replicate 6 3)))) test_handler_new"
proof -
  have pe: "part_exists 0 0 1 test_open" by (simp add: part_exists_def TEST_LAYOUT_sections)
  have vs: "list_all (\<lambda>v. v < 2 ^ 14 \<and> accepts (sx_layout test_open) 0 1 v)
      (part_values (\<lambda>d b sec i. TEST_VALUE_GET) (sx_data test_open) (sx_layout test_open) 0 1 (unat (0 :: u8)))"
    using test_accepts by (simp add: test_part_values list_all_iff)
  have inv: "test_inv (sx_data test_open)" by simp
  from sysex_backup_restores_part [OF test_store_laws test_open_fields(1) inv pe test_open_layout_ok test_store_laws
      test_open_fields(1) inv refl test_open_fields(4) refl vs, of ump_layout]
  show ?thesis unfolding Let_def by (simp add: test_part_values)
qed

text \<open>The answer to a backup of one parameter has the value but not the index of the parameter: it is
  the header of a \<open>Set\<close> request and two bytes, and any open device with this layout answers it with
  a message length error.\<close>
theorem sysex_single_backup_is_no_request:
  assumes "sx_ok s" "layout_ok (sx_layout s)" "configuration_enabled s" "in_layout (sx_layout s) b sec (merge14 ih il)"
    and "dh_get H b sec (merge14 ih il) (sx_data s) = ((StAck, v), d)"
    and "configuration_enabled s'" "sx_layout s' = sx_layout s"
  shows "let mid = sx_manufacturer_id s;
      request = sx_message (sx_header mid 0 0 WishBackup AmountSingle b sec @ [ih, il, 0, 0]);
      backup = sx_header mid 0 0 WishSet AmountSingle b sec @ enc v
    in sx_data (handle_request A H request s) = sent A H backup d \<and>
       request_error (sx_message backup) s' = Some ErrorMessageLength"
proof -
  let ?mid = "sx_manufacturer_id s"
  let ?m = "sx_message (sx_header ?mid 0 0 WishBackup AmountSingle b sec @ [ih, il, 0, 0])"
  have L: "unat b < length (sx_layout s)" "unat sec < length (sx_layout s ! unat b)" "sx_layout s \<noteq> []"
    using assms(4) by (auto simp: in_layout_def)
  have f: "well_framed ?m s" "own_id ?m s" "length ?m \<noteq> SPECIAL_REQ_MSG_SIZE" "?m ! AmountByte = AmountSingle" "?m ! PartByte = 0"
    using L(3) by (simp_all add: well_framed_def own_id_def sx_message_def sx_header_def)
  have e: "request_error ?m s = None"
    using L assms(3) by (simp add: request_error_def decode_error_def sx_message_def sx_header_def part_allowed_def request_length_def Let_def)
  have "single_reply H ?m s = (sx_header ?mid 0 0 WishSet AmountSingle b sec @ enc v, d)"
    using assms(4,5) by (simp add: single_reply_def answer_head_def answer_status_def reply_def payload_of_def slice_def
        sx_message_def sx_header_def Let_def)
  moreover have "request_error (sx_message (sx_header ?mid 0 0 WishSet AmountSingle b sec @ enc v)) s' = Some ErrorMessageLength"
    using L assms(6,7) by (simp add: request_error_def decode_error_def sx_message_def sx_header_def part_allowed_def
        request_length_def enc_def Let_def)
  ultimately show ?thesis using handle_single [OF assms(1,2) f(1,2) e f(3-5), of A H] by (simp add: Let_def)
qed

theorem sysex_single_backup_is_no_request_witness:
  "request_error (sx_message (sx_header test_m_id 0 0 WishSet AmountSingle 0 0 @ enc 3)) test_open = Some ErrorMessageLength"
proof -
  have "in_layout (sx_layout test_open) 0 0 (merge14 0 5)" by (simp add: in_layout_def TEST_LAYOUT_sections merge14_def)
  moreover have "dh_get test_data_handler 0 0 (merge14 0 5) (sx_data test_open) = ((StAck, 3), test_handler_new)"
    by (simp add: test_data_handler_def test_get_def test_handler_new_def)
  ultimately show ?thesis
    using sysex_single_backup_is_no_request [OF test_open_fields(1) test_open_layout_ok test_open_fields(4) _ _ test_open_fields(4) refl, of 0 0 0 5]
    by (simp add: Let_def)
qed

lemma overwrite_snoc: "length as < length xs \<Longrightarrow> (overwrite 0 as xs)[length as := x] = overwrite 0 (as @ [x]) xs"
  using overwrite_cons [of 0 xs] by (simp add: overwrite_def list_update_append Cons_nth_drop_Suc [symmetric])

text \<open>A custom message sent while the packets of a request are coming in replaces the bytes of the
  request that arrived: the next packet is appended to the custom message instead.\<close>
theorem sysex_custom_message_replaces_request:
  assumes "sx_ok s" "length bs < MAX_MESSAGE_SIZE" "length vals + length c \<le> 72"
  shows "let t = put_bytes c (send_custom_message A H vals ack (assembling bs s)) in
    ump_message_active t \<and> take (response_counter t) (response_array t) = custom_header ack s @ map ucast vals @ SYS_EX_END # c"
proof -
  let ?s = "assembling bs s"
  let ?bs = "custom_header ack s @ map ucast vals"
  let ?u = "put_bytes ?bs (?s\<lparr>response_counter := 0\<rparr>)" and ?t = "send_custom_message A H vals ack (assembling bs s)"
  have ok: "sx_ok ?s" "length (response_array ?s) = MAX_MESSAGE_SIZE" "custom_header ack ?s = custom_header ack s"
    using assms(1,2) by (simp_all add: sx_ok_def assembling_def custom_header_def)
  have lb: "length ?bs = length vals + 6" by (simp add: custom_header_def)
  have b: "sx_building ?u" using send_custom_building [OF ok(1), of vals ack] assms(3) ok(3) by (simp add: custom_max_def)
  have u: "response_counter ?u = length ?bs" "response_array ?u = overwrite 0 ?bs (response_array ?s)"
    using assms(3) lb ok(2) by (simp_all add: put_bytes_eq del: append_assoc)
  have t: "?t = send_response A H ?u" by (simp add: send_custom_message_eq ok(3))
  have "response_array ?t = overwrite 0 (?bs @ [SYS_EX_END]) (response_array ?s)" "response_counter ?t = length (?bs @ [SYS_EX_END])"
    unfolding t send_response_eq [OF b] using u overwrite_snoc [of ?bs "response_array ?s" SYS_EX_END] ok(2) lb assms(3) by simp_all
  moreover have "length (?bs @ [SYS_EX_END]) + length c \<le> length (response_array ?s)" using ok(2) lb assms(3) by simp
  moreover have "cfg ?t = cfg ?s" unfolding t by simp
  then have "ump_message_active ?t" using cfg_eqD(4) [of ?t ?s] by (simp add: assembling_def)
  ultimately show ?thesis
    using overwrite_append [of "?bs @ [SYS_EX_END]" c "response_array ?s"] ok(2) cfg_eqD(4) [of "put_bytes c ?t" ?t]
    by (simp add: put_bytes_eq Let_def) (simp add: overwrite_def)
qed

theorem sysex_custom_message_replaces_request_witness:
  "let t = put_bytes [1, 2] (send_custom_message ump_layout test_data_handler [5, 6] True (assembling [7] test_open)) in
     take (response_counter t) (response_array t) = [0xF0, 0, 0x53, 0x43, 1, 0, 5, 6, 0xF7, 1, 2]"
proof -
  have "custom_header True test_open = [0xF0, 0, 0x53, 0x43, 1, 0]" by (simp add: custom_header_def test_m_id_def)
  then show ?thesis
    using sysex_custom_message_replaces_request [OF test_open_fields(1), of "[7]" "[5, 6]" "[1, 2]" ump_layout test_data_handler True]
    by (simp add: Let_def)
qed

end
