(* ===== verification/Date_Time.thy ===== *)
theory Date_Time
  imports Zlibs_Prelude "HOL-Library.Signed_Division" "HOL-Library.Monad_Syntax"
begin

text \<open>
  The calendar of \<open>misc/datetime.h\<close>. The \<open>int\<close> and \<open>int32_t\<close> fields are integers, and every sum and
  difference that the code stores in one is checked against 32 bits: \<open>None\<close> is a signed overflow,
  which is undefined. Division and remainder are those of C, which truncate towards zero. A month
  outside the table makes \<open>days_in_month\<close> fail as well (the assertion, or the exception of \<open>at\<close>), and a
  loop over months is a partial function. \<open>Date_Time_Ints\<close> has the same without the checks.
\<close>

section \<open>Constants and records\<close>

definition SECONDS_PER_HOUR :: int where [simp]: "SECONDS_PER_HOUR = 3600"
definition SECONDS_PER_MINUTE :: int where [simp]: "SECONDS_PER_MINUTE = 60"
definition MINUTES_PER_HOUR :: int where [simp]: "MINUTES_PER_HOUR = 60"
definition HOURS_PER_DAY :: int where [simp]: "HOURS_PER_DAY = 24"
definition MONTHS_PER_YEAR :: int where [simp]: "MONTHS_PER_YEAR = 12"
definition DAYS_PER_YEAR :: int where [simp]: "DAYS_PER_YEAR = 365"
definition DAYS_PER_LEAP_YEAR :: int where [simp]: "DAYS_PER_LEAP_YEAR = 366"
definition DAYS_PER_WEEK :: int where [simp]: "DAYS_PER_WEEK = 7"
definition JANUARY :: int where [simp]: "JANUARY = 1"
definition FEBRUARY :: int where [simp]: "FEBRUARY = 2"
definition DECEMBER :: int where [simp]: "DECEMBER = 12"
definition FIRST_DAY_OF_MONTH :: int where [simp]: "FIRST_DAY_OF_MONTH = 1"
definition MONDAY :: int where [simp]: "MONDAY = 1"
definition TUESDAY :: int where [simp]: "TUESDAY = 2"
definition WEDNESDAY :: int where [simp]: "WEDNESDAY = 3"
definition THURSDAY :: int where [simp]: "THURSDAY = 4"
definition FRIDAY :: int where [simp]: "FRIDAY = 5"
definition SATURDAY :: int where [simp]: "SATURDAY = 6"
definition SUNDAY :: int where [simp]: "SUNDAY = 7"
definition DAYS_IN_LEAP_FEBRUARY :: int where [simp]: "DAYS_IN_LEAP_FEBRUARY = 29"
definition LEAP_YEAR_FACTOR :: int where [simp]: "LEAP_YEAR_FACTOR = 4"
definition CENTURY_YEARS :: int where [simp]: "CENTURY_YEARS = 100"
definition GREGORIAN_YEARS :: int where [simp]: "GREGORIAN_YEARS = 400"
definition ZELLER_FACTOR :: int where [simp]: "ZELLER_FACTOR = 13"
definition ZELLER_DIVISOR :: int where [simp]: "ZELLER_DIVISOR = 5"
definition ZELLER_CENTURY_FACTOR :: int where [simp]: "ZELLER_CENTURY_FACTOR = 2"

record time =
  hours :: int
  minutes :: int
  seconds :: int

record date_time = time +
  year :: int
  month :: int
  mday :: int
  wday :: int

section \<open>Years and months\<close>

definition is_leap_year :: "int \<Rightarrow> bool" where
  "is_leap_year y =
     (if y smod LEAP_YEAR_FACTOR = 0
      then if y smod CENTURY_YEARS = 0
           then if y smod GREGORIAN_YEARS = 0 then True else False
           else True
      else False)"

definition days_in_year :: "int \<Rightarrow> int" where
  "days_in_year y = (if is_leap_year y then DAYS_PER_LEAP_YEAR else DAYS_PER_YEAR)"

definition DAYS_PER_MONTH :: "int list" where
  "DAYS_PER_MONTH = [31, 28, 31, 30, 31, 30, 31, 31, 30, 31, 30, 31]"

definition days_in_month :: "int \<Rightarrow> int \<Rightarrow> int option" where
  "days_in_month y m =
     (if m \<le> MONTHS_PER_YEAR \<and> m > 0
      then Some (if m = FEBRUARY \<and> is_leap_year y then DAYS_IN_LEAP_FEBRUARY else DAYS_PER_MONTH ! nat (m - 1))
      else None)"

definition seconds_to_time :: "int \<Rightarrow> time" where
  "seconds_to_time s =
     \<lparr>hours = s sdiv SECONDS_PER_HOUR, minutes = (s smod SECONDS_PER_HOUR) sdiv SECONDS_PER_MINUTE,
      seconds = s smod SECONDS_PER_MINUTE\<rparr>"

definition is_date_time_valid :: "date_time \<Rightarrow> bool option" where
  "is_date_time_valid d =
     (if seconds d \<ge> SECONDS_PER_MINUTE then Some False
      else if seconds d < 0 then Some False
      else if minutes d \<ge> MINUTES_PER_HOUR then Some False
      else if minutes d < 0 then Some False
      else if hours d \<ge> HOURS_PER_DAY then Some False
      else if hours d < 0 then Some False
      else if year d < 0 then Some False
      else if month d > MONTHS_PER_YEAR then Some False
      else if month d < JANUARY then Some False
      else if mday d < FIRST_DAY_OF_MONTH then Some False
      else case days_in_month (year d) (month d) of
             None \<Rightarrow> None
           | Some n \<Rightarrow>
               Some (if mday d > n then False
                     else if wday d > DAYS_PER_WEEK then False
                     else if wday d < MONDAY then False
                     else True))"

section \<open>Normalisation\<close>

text \<open>A result of arithmetic on \<open>int32_t\<close> operands.\<close>

definition fits_i32 :: "int \<Rightarrow> bool" where
  "fits_i32 x \<longleftrightarrow> -2147483648 \<le> x \<and> x \<le> 2147483647"

definition i32 :: "int \<Rightarrow> int option" where
  "i32 x = (if fits_i32 x then Some x else None)"

definition date_fits :: "date_time \<Rightarrow> bool" where
  "date_fits d \<longleftrightarrow> fits_i32 (hours d) \<and> fits_i32 (minutes d) \<and> fits_i32 (seconds d) \<and>
     fits_i32 (year d) \<and> fits_i32 (month d) \<and> fits_i32 (mday d) \<and> fits_i32 (wday d)"

lemma i32_Some: "i32 x = Some y \<longleftrightarrow> fits_i32 x \<and> y = x"
  by (auto simp: i32_def)

text \<open>The loops that carry seconds into minutes, minutes into hours and hours into days.\<close>

function carry_down :: "int \<Rightarrow> int \<Rightarrow> int \<Rightarrow> (int \<times> int) option" where
  "carry_down n lo hi =
     (if 0 < n \<and> lo \<ge> n
      then do { lo \<leftarrow> i32 (lo - n); hi \<leftarrow> i32 (hi + 1); carry_down n lo hi }
      else Some (lo, hi))"
  by pat_completeness auto
termination by (relation "measure (\<lambda>(n, lo, hi). nat lo)") (auto simp: i32_Some)

function carry_up :: "int \<Rightarrow> int \<Rightarrow> int \<Rightarrow> (int \<times> int) option" where
  "carry_up n lo hi =
     (if 0 < n \<and> lo < 0
      then do { lo \<leftarrow> i32 (lo + n); hi \<leftarrow> i32 (hi - 1); carry_up n lo hi }
      else Some (lo, hi))"
  by pat_completeness auto
termination by (relation "measure (\<lambda>(n, lo, hi). nat (- lo))") (auto simp: i32_Some)

declare carry_down.simps [simp del] carry_up.simps [simp del]

definition carry :: "int \<Rightarrow> int \<Rightarrow> int \<Rightarrow> (int \<times> int) option" where
  "carry n lo hi = do { (lo, hi) \<leftarrow> carry_down n lo hi; carry_up n lo hi }"

definition normalize_time :: "date_time \<Rightarrow> date_time option" where
  "normalize_time d = do {
     (s, mi) \<leftarrow> carry SECONDS_PER_MINUTE (seconds d) (minutes d);
     (mi, h) \<leftarrow> carry MINUTES_PER_HOUR mi (hours d);
     (h, md) \<leftarrow> carry HOURS_PER_DAY h (mday d);
     Some (d\<lparr>seconds := s, minutes := mi, hours := h, mday := md\<rparr>) }"

definition clamp_to_minimum :: "date_time \<Rightarrow> date_time" where
  "clamp_to_minimum d =
     d\<lparr>year := 0, month := JANUARY, mday := FIRST_DAY_OF_MONTH, hours := 0, minutes := 0, seconds := 0\<rparr>"

definition fix_month :: "date_time \<Rightarrow> date_time option" where
  "fix_month d =
     (if month d > MONTHS_PER_YEAR then do { y \<leftarrow> i32 (year d + 1); Some (d\<lparr>month := JANUARY, year := y\<rparr>) }
      else if month d < JANUARY then
        if year d = 0 then Some (clamp_to_minimum d)
        else do { y \<leftarrow> i32 (year d - 1); Some (d\<lparr>month := DECEMBER, year := y\<rparr>) }
      else Some d)"

partial_function (option) months_forward :: "date_time \<Rightarrow> date_time option" where
  "months_forward d =
     (case days_in_month (year d) (month d) of
        None \<Rightarrow> None
      | Some n \<Rightarrow>
          if mday d > n then do {
            md \<leftarrow> i32 (mday d - n);
            mo \<leftarrow> i32 (month d + 1);
            d \<leftarrow> fix_month (d\<lparr>mday := md, month := mo\<rparr>);
            months_forward d }
          else Some d)"

partial_function (option) months_back :: "date_time \<Rightarrow> date_time option" where
  "months_back d =
     (if mday d < FIRST_DAY_OF_MONTH then
        if year d = 0 \<and> month d = JANUARY then Some (clamp_to_minimum d)
        else do {
          mo \<leftarrow> i32 (month d - 1);
          d \<leftarrow> fix_month (d\<lparr>month := mo\<rparr>);
          n \<leftarrow> days_in_month (year d) (month d);
          md \<leftarrow> i32 (mday d + n);
          months_back (d\<lparr>mday := md\<rparr>) }
      else Some d)"

definition weekday_from_date :: "int \<Rightarrow> int \<Rightarrow> int \<Rightarrow> int option" where
  "weekday_from_date day_of_month m y = do {
     (m, y) \<leftarrow> (if m = JANUARY \<or> m = FEBRUARY
                then do { m \<leftarrow> i32 (m + MONTHS_PER_YEAR); y \<leftarrow> i32 (y - 1); Some (m, y) } else Some (m, y));
     let year_of_century = y smod CENTURY_YEARS;
     let zero_based_century = y sdiv CENTURY_YEARS;
     m1 \<leftarrow> i32 (m + JANUARY);
     product \<leftarrow> i32 (ZELLER_FACTOR * m1);
     z \<leftarrow> i32 (day_of_month + product sdiv ZELLER_DIVISOR);
     z \<leftarrow> i32 (z + year_of_century);
     z \<leftarrow> i32 (z + year_of_century sdiv LEAP_YEAR_FACTOR);
     z \<leftarrow> i32 (z + zero_based_century sdiv LEAP_YEAR_FACTOR);
     centuries \<leftarrow> i32 (ZELLER_CENTURY_FACTOR * zero_based_century);
     zeller_weekday \<leftarrow> i32 (z - centuries);
     Some ([SATURDAY, SUNDAY, MONDAY, TUESDAY, WEDNESDAY, THURSDAY, FRIDAY] !
           nat ((zeller_weekday smod DAYS_PER_WEEK + DAYS_PER_WEEK) smod DAYS_PER_WEEK)) }"

definition normalize_date_time :: "date_time \<Rightarrow> date_time option" where
  "normalize_date_time d = do {
     d \<leftarrow> normalize_time d;
     let d = (if year d < 0 then clamp_to_minimum d else d);
     d \<leftarrow> fix_month d;
     d \<leftarrow> months_forward d;
     d \<leftarrow> months_back d;
     w \<leftarrow> weekday_from_date (mday d) (month d) (year d);
     Some (d\<lparr>wday := w\<rparr>) }"

end
