(* ===== verification/Date_Time_Ints.thy ===== *)
theory Date_Time_Ints
  imports Date_Time
begin

text \<open>
  The normalisation of \<open>Date_Time\<close> over unbounded integers, without the checks that no field leaves its
  32 bits: the reference that the calendar arithmetic is proved for. The names have the prefix \<open>int_\<close>.
\<close>

section \<open>Normalisation\<close>

text \<open>The loops that int_carry seconds into minutes, minutes into hours and hours into days.\<close>

function int_carry_down :: "int \<Rightarrow> int \<Rightarrow> int \<Rightarrow> int \<times> int" where
  "int_carry_down n lo hi = (if 0 < n \<and> lo \<ge> n then int_carry_down n (lo - n) (hi + 1) else (lo, hi))"
  by pat_completeness auto
termination by (relation "measure (\<lambda>(n, lo, hi). nat lo)") auto

function int_carry_up :: "int \<Rightarrow> int \<Rightarrow> int \<Rightarrow> int \<times> int" where
  "int_carry_up n lo hi = (if 0 < n \<and> lo < 0 then int_carry_up n (lo + n) (hi - 1) else (lo, hi))"
  by pat_completeness auto
termination by (relation "measure (\<lambda>(n, lo, hi). nat (- lo))") auto

declare int_carry_down.simps [simp del] int_carry_up.simps [simp del]

definition int_carry :: "int \<Rightarrow> int \<Rightarrow> int \<Rightarrow> int \<times> int" where
  "int_carry n lo hi = (case int_carry_down n lo hi of (lo, hi) \<Rightarrow> int_carry_up n lo hi)"

definition int_normalize_time :: "date_time \<Rightarrow> date_time" where
  "int_normalize_time d =
     (case int_carry SECONDS_PER_MINUTE (seconds d) (minutes d) of (s, mi) \<Rightarrow>
      case int_carry MINUTES_PER_HOUR mi (hours d) of (mi, h) \<Rightarrow>
      case int_carry HOURS_PER_DAY h (mday d) of (h, md) \<Rightarrow>
        d\<lparr>seconds := s, minutes := mi, hours := h, mday := md\<rparr>)"

definition int_fix_month :: "date_time \<Rightarrow> date_time" where
  "int_fix_month d =
     (if month d > MONTHS_PER_YEAR then d\<lparr>month := JANUARY, year := year d + 1\<rparr>
      else if month d < JANUARY then
        if year d = 0 then clamp_to_minimum d
        else d\<lparr>month := DECEMBER, year := year d - 1\<rparr>
      else d)"

partial_function (option) int_months_forward :: "date_time \<Rightarrow> date_time option" where
  "int_months_forward d =
     (case days_in_month (year d) (month d) of
        None \<Rightarrow> None
      | Some n \<Rightarrow>
          if mday d > n then int_months_forward (int_fix_month (d\<lparr>mday := mday d - n, month := month d + 1\<rparr>))
          else Some d)"

partial_function (option) int_months_back :: "date_time \<Rightarrow> date_time option" where
  "int_months_back d =
     (if mday d < FIRST_DAY_OF_MONTH then
        if year d = 0 \<and> month d = JANUARY then Some (clamp_to_minimum d)
        else let d = int_fix_month (d\<lparr>month := month d - 1\<rparr>)
             in case days_in_month (year d) (month d) of
                  None \<Rightarrow> None
                | Some n \<Rightarrow> int_months_back (d\<lparr>mday := mday d + n\<rparr>)
      else Some d)"

definition int_weekday_from_date :: "int \<Rightarrow> int \<Rightarrow> int \<Rightarrow> int" where
  "int_weekday_from_date day_of_month m y =
     (let (m, y) = (if m = JANUARY \<or> m = FEBRUARY then (m + MONTHS_PER_YEAR, y - 1) else (m, y));
          year_of_century = y smod CENTURY_YEARS;
          zero_based_century = y sdiv CENTURY_YEARS;
          zeller_weekday = day_of_month + (ZELLER_FACTOR * (m + JANUARY)) sdiv ZELLER_DIVISOR + year_of_century +
            year_of_century sdiv LEAP_YEAR_FACTOR + zero_based_century sdiv LEAP_YEAR_FACTOR -
            ZELLER_CENTURY_FACTOR * zero_based_century
      in [SATURDAY, SUNDAY, MONDAY, TUESDAY, WEDNESDAY, THURSDAY, FRIDAY] !
           nat ((zeller_weekday smod DAYS_PER_WEEK + DAYS_PER_WEEK) smod DAYS_PER_WEEK))"

definition int_normalize_date_time :: "date_time \<Rightarrow> date_time option" where
  "int_normalize_date_time d =
     (let d = int_normalize_time d;
          d = (if year d < 0 then clamp_to_minimum d else d);
          d = int_fix_month d
      in Option.bind (int_months_forward d) (\<lambda>d.
         Option.bind (int_months_back d) (\<lambda>d.
           Some (d\<lparr>wday := int_weekday_from_date (mday d) (month d) (year d)\<rparr>))))"

end
