(* ===== verification/Date_Time_Correct.thy ===== *)
theory Date_Time_Correct
  imports Date_Time_Ints
begin

text \<open>
  The calendar as a count of days: years and months are summed up day by day, which is the
  specification of the normalisation, and the closed form of the count is what Zeller's formula
  for the weekday is compared with.
\<close>

section \<open>Division\<close>

lemma sdiv_nonneg: "0 \<le> a \<Longrightarrow> 0 < b \<Longrightarrow> a sdiv b = a div (b :: int)"
  by (cases "a = 0") (simp_all add: signed_divide_int_def)

lemma smod_nonneg: "0 \<le> a \<Longrightarrow> 0 < b \<Longrightarrow> a smod b = a mod (b :: int)"
  by (cases "a = 0") (simp_all add: signed_modulo_int_def)

lemma smod_eq_0: "0 < b \<Longrightarrow> a smod b = 0 \<longleftrightarrow> b dvd (a :: int)"
  by (auto simp: signed_modulo_int_def sgn_if mod_eq_0_iff_dvd)

lemma is_leap_year_eq: "is_leap_year y \<longleftrightarrow> 4 dvd y \<and> (100 dvd y \<longrightarrow> 400 dvd y)"
  by (simp add: is_leap_year_def smod_eq_0)

section \<open>Counting days\<close>

primrec days_before_year :: "nat \<Rightarrow> int" where
  "days_before_year 0 = 0"
| "days_before_year (Suc n) = days_before_year n + days_in_year (int n)"

definition month_days :: "int \<Rightarrow> int \<Rightarrow> int" where
  "month_days y m = the (days_in_month y m)"

definition days_before_month :: "int \<Rightarrow> int \<Rightarrow> int" where
  "days_before_month y m = (\<Sum>k \<leftarrow> [1 .. m - 1]. month_days y k)"

definition day_number :: "date_time \<Rightarrow> int" where
  "day_number d = days_before_year (nat (year d)) + days_before_month (year d) (month d) + mday d - 1"

definition day_seconds :: "date_time \<Rightarrow> int" where
  "day_seconds d = 3600 * hours d + 60 * minutes d + seconds d"

definition instant :: "date_time \<Rightarrow> int" where
  "instant d = 86400 * day_number d + day_seconds d"

lemma month_cases:
  assumes "1 \<le> m" "m \<le> (12 :: int)"
  obtains "m = 1" | "m = 2" | "m = 3" | "m = 4" | "m = 5" | "m = 6" | "m = 7" | "m = 8" | "m = 9" | "m = 10" | "m = 11" | "m = 12"
  using assms by (atomize_elim) presburger

lemma month_days_table:
  "month_days y 1 = 31" "month_days y 2 = (if is_leap_year y then 29 else 28)" "month_days y 3 = 31" "month_days y 4 = 30"
  "month_days y 5 = 31" "month_days y 6 = 30" "month_days y 7 = 31" "month_days y 8 = 31" "month_days y 9 = 30"
  "month_days y 10 = 31" "month_days y 11 = 30" "month_days y 12 = 31"
  by (simp_all add: month_days_def days_in_month_def DAYS_PER_MONTH_def)

lemma month_days_bounds: "1 \<le> m \<Longrightarrow> m \<le> 12 \<Longrightarrow> 28 \<le> month_days y m \<and> month_days y m \<le> 31"
  by (erule (1) month_cases) (simp_all add: month_days_table)

lemma days_in_month_Some: "1 \<le> m \<Longrightarrow> m \<le> 12 \<Longrightarrow> days_in_month y m = Some (month_days y m)"
  by (simp add: month_days_def days_in_month_def)

lemma days_before_month_1 [simp]: "days_before_month y 1 = 0"
  by (simp add: days_before_month_def)

lemma days_before_month_step: "1 \<le> m \<Longrightarrow> days_before_month y (m + 1) = days_before_month y m + month_days y m"
proof -
  assume "1 \<le> m"
  then have "[1 .. m] = [1 .. m - 1] @ [m]" using upto_rec2 [of 1 m] by simp
  then show ?thesis by (simp add: days_before_month_def)
qed

lemma days_before_month_table:
  "days_before_month y 2 = 31" "days_before_month y 3 = 31 + month_days y 2" "days_before_month y 4 = 62 + month_days y 2"
  "days_before_month y 5 = 92 + month_days y 2" "days_before_month y 6 = 123 + month_days y 2"
  "days_before_month y 7 = 153 + month_days y 2" "days_before_month y 8 = 184 + month_days y 2"
  "days_before_month y 9 = 215 + month_days y 2" "days_before_month y 10 = 245 + month_days y 2"
  "days_before_month y 11 = 276 + month_days y 2" "days_before_month y 12 = 306 + month_days y 2"
  using days_before_month_step [of 1 y] days_before_month_step [of 2 y] days_before_month_step [of 3 y] days_before_month_step [of 4 y]
    days_before_month_step [of 5 y] days_before_month_step [of 6 y] days_before_month_step [of 7 y] days_before_month_step [of 8 y]
    days_before_month_step [of 9 y] days_before_month_step [of 10 y] days_before_month_step [of 11 y]
  by (simp_all add: month_days_table del: days_before_month_1) (simp_all add: days_before_month_def)

lemma days_in_year_months: "days_before_month y 12 + month_days y 12 = days_in_year y"
  by (simp add: days_before_month_table month_days_table days_in_year_def)

lemma days_before_month_nonneg: "1 \<le> m \<Longrightarrow> m \<le> 12 \<Longrightarrow> 0 \<le> days_before_month y m"
  by (erule (1) month_cases) (simp_all add: days_before_month_table month_days_table)

lemma days_before_year_nonneg: "0 \<le> days_before_year n"
  by (induction n) (simp_all add: days_in_year_def)

section \<open>Moving by months\<close>

definition date_ok :: "date_time \<Rightarrow> bool" where
  "date_ok d \<longleftrightarrow> 0 \<le> year d \<and> 1 \<le> month d \<and> month d \<le> 12"

lemma days_before_year_Suc: "0 \<le> y \<Longrightarrow> days_before_year (nat (y + 1)) = days_before_year (nat y) + days_in_year y"
  by (simp add: nat_add_distrib)

lemma fix_month_ok [simp]: "date_ok d \<Longrightarrow> int_fix_month d = d"
  by (simp add: int_fix_month_def date_ok_def)

lemma day_number_parts:
  "day_number (d\<lparr>year := y, month := m, mday := k\<rparr>) = days_before_year (nat y) + days_before_month y m + k - 1"
  "day_number (d\<lparr>mday := k\<rparr>) = day_number d - mday d + k" "day_number (d\<lparr>wday := w\<rparr>) = day_number d"
  by (simp_all add: day_number_def)

lemma step_forward:
  assumes "date_ok d"
  shows "date_ok (int_fix_month (d\<lparr>mday := k, month := month d + 1\<rparr>))"
    "day_number (int_fix_month (d\<lparr>mday := k, month := month d + 1\<rparr>)) = day_number d - mday d + month_days (year d) (month d) + k"
    "mday (int_fix_month (d\<lparr>mday := k, month := month d + 1\<rparr>)) = k"
proof -
  have y: "0 \<le> year d" "1 \<le> month d" "month d \<le> 12" using assms by (simp_all add: date_ok_def)
  show "date_ok (int_fix_month (d\<lparr>mday := k, month := month d + 1\<rparr>))" "mday (int_fix_month (d\<lparr>mday := k, month := month d + 1\<rparr>)) = k"
    using y by (auto simp: date_ok_def int_fix_month_def)
  show "day_number (int_fix_month (d\<lparr>mday := k, month := month d + 1\<rparr>)) = day_number d - mday d + month_days (year d) (month d) + k"
  proof (cases "month d = 12")
    case True
    then show ?thesis using y days_before_year_Suc [OF y(1)] days_in_year_months [of "year d"]
      by (simp add: int_fix_month_def day_number_def)
  next
    case False
    then show ?thesis using y days_before_month_step [of "month d" "year d"] by (simp add: int_fix_month_def day_number_def)
  qed
qed

lemma step_back:
  assumes "date_ok d" "\<not> (year d = 0 \<and> month d = 1)"
  defines "e \<equiv> int_fix_month (d\<lparr>month := month d - 1\<rparr>)"
  shows "date_ok e" "mday e = mday d" "day_number e = day_number d - month_days (year e) (month e)"
proof -
  have y: "0 \<le> year d" "1 \<le> month d" "month d \<le> 12" using assms(1) by (simp_all add: date_ok_def)
  show "date_ok e" "mday e = mday d" using y assms(2) by (auto simp: e_def date_ok_def int_fix_month_def)
  show "day_number e = day_number d - month_days (year e) (month e)"
  proof (cases "month d = 1")
    case True
    then have "0 \<le> year d - 1" using y assms(2) by auto
    from days_before_year_Suc [OF this] show ?thesis using True assms(2) days_in_year_months [of "year d - 1"]
      by (simp add: e_def int_fix_month_def day_number_def)
  next
    case False
    then show ?thesis using y days_before_month_step [of "month d - 1" "year d"] by (simp add: e_def int_fix_month_def day_number_def)
  qed
qed

text \<open>The loops keep the time of day and, apart from the clamp, the day.\<close>

definition same_time :: "date_time \<Rightarrow> date_time \<Rightarrow> bool" where
  "same_time d e \<longleftrightarrow> hours d = hours e \<and> minutes d = minutes e \<and> seconds d = seconds e"

lemma same_time_fix [simp]: "date_ok d \<Longrightarrow> same_time (int_fix_month (d\<lparr>mday := k, month := month d + 1\<rparr>)) d"
  "date_ok d \<Longrightarrow> \<not> (year d = 0 \<and> month d = 1) \<Longrightarrow> same_time (int_fix_month (d\<lparr>month := month d - 1\<rparr>)) d"
  by (auto simp: same_time_def int_fix_month_def date_ok_def)

lemma same_time_trans: "same_time a b \<Longrightarrow> same_time b c \<Longrightarrow> same_time a c"
  by (simp add: same_time_def)

lemma months_forward_total:
  "date_ok d \<Longrightarrow> \<exists>e. int_months_forward d = Some e \<and> date_ok e \<and> same_time e d \<and> day_number e = day_number d \<and>
     mday e \<le> month_days (year e) (month e) \<and> (1 \<le> mday d \<longrightarrow> 1 \<le> mday e) \<and> (mday d \<le> month_days (year d) (month d) \<longrightarrow> e = d)"
proof (induction "nat (mday d)" arbitrary: d rule: less_induct)
  case less
  have n: "days_in_month (year d) (month d) = Some (month_days (year d) (month d))" "28 \<le> month_days (year d) (month d)"
    using less(2) days_in_month_Some month_days_bounds by (simp_all add: date_ok_def)
  show ?case
  proof (cases "mday d > month_days (year d) (month d)")
    case True
    let ?k = "mday d - month_days (year d) (month d)"
    let ?e = "int_fix_month (d\<lparr>mday := ?k, month := month d + 1\<rparr>)"
    note s = step_forward [OF less(2), of ?k]
    have "nat (mday ?e) < nat (mday d)" using True n(2) s(3) by simp
    from less(1) [OF this s(1)] obtain e where e: "int_months_forward ?e = Some e" "date_ok e" "same_time e ?e"
      "day_number e = day_number ?e" "mday e \<le> month_days (year e) (month e)" "1 \<le> mday ?e \<longrightarrow> 1 \<le> mday e" by blast
    have "int_months_forward d = int_months_forward ?e" using True n(1) by (subst int_months_forward.simps) simp
    then show ?thesis using e True s(2,3) same_time_trans [OF e(3) same_time_fix(1) [OF less(2)]] by auto
  next
    case False
    then have "int_months_forward d = Some d" using n(1) by (subst int_months_forward.simps) simp
    then show ?thesis using False less(2) by (simp add: same_time_def)
  qed
qed

lemma day_number_mday: "date_ok d \<Longrightarrow> mday d - 1 \<le> day_number d"
  using days_before_month_nonneg [of "month d" "year d"] days_before_year_nonneg [of "nat (year d)"]
  by (simp add: day_number_def date_ok_def)

lemma months_back_total:
  "date_ok d \<Longrightarrow> mday d \<le> month_days (year d) (month d) \<Longrightarrow> \<exists>e. int_months_back d = Some e \<and> date_ok e \<and>
     (if 0 \<le> day_number d
      then same_time e d \<and> day_number e = day_number d \<and> 1 \<le> mday e \<and> mday e \<le> month_days (year e) (month e)
      else \<exists>f. e = clamp_to_minimum f) \<and> (1 \<le> mday d \<longrightarrow> e = d)"
proof (induction "nat (1 - mday d)" arbitrary: d rule: less_induct)
  case less
  show ?case
  proof (cases "mday d < 1")
    case True
    show ?thesis
    proof (cases "year d = 0 \<and> month d = 1")
      case first: True
      then have "int_months_back d = Some (clamp_to_minimum d)" using True by (subst int_months_back.simps) simp
      moreover have "day_number d < 0" using True first by (simp add: day_number_def)
      ultimately show ?thesis using True by (auto simp: date_ok_def clamp_to_minimum_def)
    next
      case False
      let ?e = "int_fix_month (d\<lparr>month := month d - 1\<rparr>)"
      let ?n = "month_days (year ?e) (month ?e)"
      let ?f = "?e\<lparr>mday := mday ?e + ?n\<rparr>"
      note s = step_back [OF less(2) False]
      have n: "days_in_month (year ?e) (month ?e) = Some ?n" "28 \<le> ?n"
        using s(1) days_in_month_Some month_days_bounds by (simp_all add: date_ok_def)
      have f: "date_ok ?f" "mday ?f \<le> month_days (year ?f) (month ?f)" "day_number ?f = day_number d" "same_time ?f d"
        using s True same_time_fix(2) [OF less(2) False] by (simp_all add: date_ok_def day_number_parts same_time_def)
      have "nat (1 - mday ?f) < nat (1 - mday d)" using True n(2) s(2) by simp
      from less(1) [OF this f(1,2)] obtain e where e: "int_months_back ?f = Some e" "date_ok e"
        "if 0 \<le> day_number ?f then same_time e ?f \<and> day_number e = day_number ?f \<and> 1 \<le> mday e \<and> mday e \<le> month_days (year e) (month e)
         else \<exists>f. e = clamp_to_minimum f" by blast
      have "int_months_back d = int_months_back ?f" using True False n(1) by (subst int_months_back.simps) (auto simp: Let_def)
      then show ?thesis using e True f(3,4) same_time_trans [of e ?f d] by (auto split: if_splits)
    qed
  next
    case False
    then have "int_months_back d = Some d" by (subst int_months_back.simps) simp
    moreover have "0 \<le> day_number d" using day_number_mday [OF less(2)] False by simp
    ultimately show ?thesis using False less(2,3) by (simp add: same_time_def)
  qed
qed

section \<open>Carrying the time of day\<close>

lemma carry_down_eq: "0 < n \<Longrightarrow> \<exists>q. int_carry_down n lo hi = (lo - n * q, hi + q) \<and> lo - n * q < n \<and> (0 \<le> lo \<longrightarrow> 0 \<le> lo - n * q) \<and> (lo < n \<longrightarrow> q = 0)"
proof (induction n lo hi rule: int_carry_down.induct)
  case (1 n lo hi)
  show ?case
  proof (cases "lo \<ge> n")
    case True
    then obtain q where q: "int_carry_down n (lo - n) (hi + 1) = (lo - n - n * q, hi + 1 + q)" "lo - n - n * q < n" "0 \<le> lo - n - n * q"
      using 1 by auto
    then show ?thesis using True 1(2) by (intro exI [of _ "q + 1"]) (simp add: int_carry_down.simps [of n lo hi] algebra_simps)
  qed (simp add: int_carry_down.simps [of n lo hi])
qed

lemma carry_up_eq: "0 < n \<Longrightarrow> lo < n \<Longrightarrow> \<exists>q. int_carry_up n lo hi = (lo - n * q, hi + q) \<and> 0 \<le> lo - n * q \<and> lo - n * q < n"
proof (induction n lo hi rule: int_carry_up.induct)
  case (1 n lo hi)
  show ?case
  proof (cases "lo < 0")
    case True
    then obtain q where q: "int_carry_up n (lo + n) (hi - 1) = (lo + n - n * q, hi - 1 + q)" "0 \<le> lo + n - n * q" "lo + n - n * q < n"
      using 1 by auto
    then show ?thesis using True 1(2) by (intro exI [of _ "q - 1"]) (simp add: int_carry_up.simps [of n lo hi] algebra_simps)
  next
    case False
    then show ?thesis using 1(3) by (intro exI [of _ 0]) (simp add: int_carry_up.simps [of n lo hi])
  qed
qed

lemma carry_eq: "0 < n \<Longrightarrow> int_carry n lo hi = (lo mod n, hi + lo div n)"
proof -
  assume n: "0 < n"
  obtain q where q: "int_carry_down n lo hi = (lo - n * q, hi + q)" "lo - n * q < n" using carry_down_eq [OF n, of lo hi] by auto
  obtain r where r: "int_carry_up n (lo - n * q) (hi + q) = (lo - n * q - n * r, hi + q + r)" "0 \<le> lo - n * q - n * r" "lo - n * q - n * r < n"
    using carry_up_eq [OF n q(2), of "hi + q"] by auto
  have e: "lo = (lo - n * q - n * r) + (q + r) * n" by (simp add: algebra_simps)
  have "lo mod n = lo - n * q - n * r" "lo div n = q + r"
    using r(2,3) n by (subst e, simp add: mod_pos_pos_trivial div_pos_pos_trivial)+
  then show ?thesis using q r by (simp add: int_carry_def)
qed

lemma normalize_time_eq:
  defines "e d \<equiv> int_normalize_time d"
  shows "year (e d) = year d" "month (e d) = month d"
    "0 \<le> seconds (e d)" "seconds (e d) < 60" "0 \<le> minutes (e d)" "minutes (e d) < 60" "0 \<le> hours (e d)" "hours (e d) < 24"
    "86400 * mday (e d) + day_seconds (e d) = 86400 * mday d + day_seconds d"
    "0 \<le> seconds d \<Longrightarrow> seconds d < 60 \<Longrightarrow> 0 \<le> minutes d \<Longrightarrow> minutes d < 60 \<Longrightarrow> 0 \<le> hours d \<Longrightarrow> hours d < 24 \<Longrightarrow> e d = d"
proof -
  define mi h where "mi = minutes d + seconds d div 60" and "h = hours d + mi div 60"
  have e: "e d = d\<lparr>seconds := seconds d mod 60, minutes := mi mod 60, hours := h mod 24, mday := mday d + h div 24\<rparr>"
    by (simp add: e_def int_normalize_time_def carry_eq mi_def h_def)
  show "year (e d) = year d" "month (e d) = month d"
    "0 \<le> seconds (e d)" "seconds (e d) < 60" "0 \<le> minutes (e d)" "minutes (e d) < 60" "0 \<le> hours (e d)" "hours (e d) < 24"
    by (simp_all add: e)
  have "seconds d = seconds d div 60 * 60 + seconds d mod 60" "mi = mi div 60 * 60 + mi mod 60" "h = h div 24 * 24 + h mod 24"
    by simp_all
  moreover have "86400 * (md + h1) + (3600 * h2 + 60 * m2 + s2) = 86400 * md + (3600 * h0 + 60 * m0 + s0)"
    if "s0 = s1 * 60 + s2" "m = m1 * 60 + m2" "k = h1 * 24 + h2" "m = m0 + s1" "k = h0 + m1"
    for md h0 h1 h2 k m0 m1 m2 m s0 s1 s2 :: int using that by simp
  ultimately have "86400 * (mday d + h div 24) + (3600 * (h mod 24) + 60 * (mi mod 60) + seconds d mod 60) =
      86400 * mday d + (3600 * hours d + 60 * minutes d + seconds d)"
    using mi_def h_def by blast
  then show "86400 * mday (e d) + day_seconds (e d) = 86400 * mday d + day_seconds d"
    by (simp add: e day_seconds_def)
  assume "0 \<le> seconds d" "seconds d < 60" "0 \<le> minutes d" "minutes d < 60" "0 \<le> hours d" "hours d < 24"
  then show "e d = d" unfolding e by (simp add: mi_def h_def)
qed

section \<open>Normalisation\<close>

text \<open>What a normal date and time is, but for the weekday.\<close>

definition normal :: "date_time \<Rightarrow> bool" where
  "normal d \<longleftrightarrow> date_ok d \<and> 1 \<le> mday d \<and> mday d \<le> month_days (year d) (month d) \<and> 0 \<le> hours d \<and> hours d < 24 \<and>
     0 \<le> minutes d \<and> minutes d < 60 \<and> 0 \<le> seconds d \<and> seconds d < 60"

lemma clamp_normal: "normal (clamp_to_minimum d)"
  by (simp add: normal_def date_ok_def clamp_to_minimum_def month_days_table)

lemma normalize_from:
  assumes "int_fix_month (if year (int_normalize_time d) < 0 then clamp_to_minimum (int_normalize_time d) else int_normalize_time d) = e" "date_ok e"
    "0 \<le> hours e" "hours e < 24" "0 \<le> minutes e" "minutes e < 60" "0 \<le> seconds e" "seconds e < 60"
  shows "\<exists>r. int_normalize_date_time d = Some (r\<lparr>wday := int_weekday_from_date (mday r) (month r) (year r)\<rparr>) \<and> normal r \<and>
    (if 0 \<le> day_number e then same_time r e \<and> day_number r = day_number e else \<exists>f. r = clamp_to_minimum f) \<and>
    (normal e \<longrightarrow> r = e)"
proof -
  obtain f where f: "int_months_forward e = Some f" "date_ok f" "same_time f e" "day_number f = day_number e"
    "mday f \<le> month_days (year f) (month f)" "1 \<le> mday e \<longrightarrow> 1 \<le> mday f" "mday e \<le> month_days (year e) (month e) \<longrightarrow> f = e"
    using months_forward_total [OF assms(2)] by blast
  obtain r where r: "int_months_back f = Some r" "date_ok r"
    "if 0 \<le> day_number f then same_time r f \<and> day_number r = day_number f \<and> 1 \<le> mday r \<and> mday r \<le> month_days (year r) (month r)
     else \<exists>g. r = clamp_to_minimum g" "1 \<le> mday f \<longrightarrow> r = f"
    using months_back_total [OF f(2,5)] by blast
  have "int_normalize_date_time d = Some (r\<lparr>wday := int_weekday_from_date (mday r) (month r) (year r)\<rparr>)"
    using assms(1) f(1) r(1) by (simp add: int_normalize_date_time_def Let_def)
  moreover have "normal r"
  proof (cases "0 \<le> day_number f")
    case True
    then show ?thesis using r(2,3) f(3) assms(3-8) by (simp add: normal_def same_time_def)
  next
    case False
    then show ?thesis using r(3) clamp_normal by auto
  qed
  moreover have "if 0 \<le> day_number e then same_time r e \<and> day_number r = day_number e else \<exists>f. r = clamp_to_minimum f"
    using r(3) f(3,4) same_time_trans by (auto split: if_splits)
  moreover have "normal e \<longrightarrow> r = e" using f(7) r(4) by (auto simp: normal_def)
  ultimately show ?thesis by blast
qed

lemma valid_normal: "normal d \<Longrightarrow> 1 \<le> wday d \<Longrightarrow> wday d \<le> 7 \<Longrightarrow> is_date_time_valid d = Some True"
  by (simp add: is_date_time_valid_def normal_def date_ok_def days_in_month_Some)

lemma valid_normalD: "is_date_time_valid d = Some True \<Longrightarrow> normal d \<and> 1 \<le> wday d \<and> wday d \<le> 7"
  unfolding is_date_time_valid_def normal_def date_ok_def
  by (auto simp: days_in_month_Some split: if_splits)

section \<open>Weekdays\<close>

lemma leap_step: "0 < k \<Longrightarrow> (y + 1 + (k - 1)) div k = (y + (k - 1)) div k + (if k dvd y then 1 else 0)" for k y :: int
proof -
  assume k: "0 < k"
  show ?thesis
  proof (cases "k dvd y")
    case True
    then obtain c where "y = k * c" by blast
    moreover have "(k * c + (k - 1)) div k = c" using k by simp
    ultimately show ?thesis using k by simp
  next
    case False
    then have "y mod k \<noteq> 0" "0 \<le> y mod k" "y mod k < k" using k by (simp_all add: dvd_eq_mod_eq_0)
    then have m: "0 < y mod k" "y mod k < k" by linarith+
    have y: "y = y div k * k + y mod k" by simp
    have "(y + j) div k = y div k + 1" if "k \<le> y mod k + j" "y mod k + j < 2 * k" for j
    proof -
      have "y + j = (y mod k + j - k) + (y div k + 1) * k" using y by (simp add: algebra_simps)
      then have "(y + j) div k = ((y mod k + j - k) + (y div k + 1) * k) div k" by (rule arg_cong)
      also have "\<dots> = y div k + 1" using that k by (simp only: div_mult_self1) (simp add: div_pos_pos_trivial)
      finally show ?thesis .
    qed
    from this [of "1 + (k - 1)"] this [of "k - 1"] show ?thesis using False m k by (simp add: add.assoc)
  qed
qed

lemma leap_next: "(y + 4) div 4 = (y + 3) div 4 + (if 4 dvd y then 1 else 0)"
  "(y + 100) div 100 = (y + 99) div 100 + (if 100 dvd y then 1 else 0)"
  "(y + 400) div 400 = (y + 399) div 400 + (if 400 dvd y then 1 else 0)" for y :: int
proof -
  have step: "(y + k) div k = (y + j) div k + (if k dvd y then 1 else 0)" if "0 < k" "k = j + 1" for j k
    using leap_step [OF that(1), of y] that(2) by (simp add: ac_simps)
  show "(y + 4) div 4 = (y + 3) div 4 + (if 4 dvd y then 1 else 0)"
    "(y + 100) div 100 = (y + 99) div 100 + (if 100 dvd y then 1 else 0)"
    "(y + 400) div 400 = (y + 399) div 400 + (if 400 dvd y then 1 else 0)" by (rule step; simp)+
qed

lemma days_before_year_eq:
  "days_before_year n = 365 * int n + (int n + 3) div 4 - (int n + 99) div 100 + (int n + 399) div 400"
proof (induction n)
  case (Suc n)
  have d: "100 dvd int n \<Longrightarrow> 4 dvd int n" "400 dvd int n \<Longrightarrow> 100 dvd int n"
    using dvd_trans [of 4 100 "int n"] dvd_trans [of 100 400 "int n"] by simp_all
  obtain a b c where abc: "(int n + 3) div 4 = a" "(int n + 99) div 100 = b" "(int n + 399) div 400 = c" by simp
  have l: "(int n + 4) div 4 = a + (if 4 dvd int n then 1 else 0)" "(int n + 100) div 100 = b + (if 100 dvd int n then 1 else 0)"
    "(int n + 400) div 400 = c + (if 400 dvd int n then 1 else 0)"
    using leap_next [of "int n"] abc by (simp_all only:)
  have s: "int (Suc n) + 3 = int n + 4" "int (Suc n) + 99 = int n + 100" "int (Suc n) + 399 = int n + 400" by simp_all
  obtain p q r where pqr: "(4 dvd int n) = p" "(100 dvd int n) = q" "(400 dvd int n) = r" by simp
  have "q \<Longrightarrow> p" "r \<Longrightarrow> q" using d pqr by simp_all
  then have "(365 * int n + a - b + c) + (if p \<and> (q \<longrightarrow> r) then DAYS_PER_LEAP_YEAR else DAYS_PER_YEAR) =
      365 * int (Suc n) + (a + (if p then 1 else 0)) - (b + (if q then 1 else 0)) + (c + (if r then 1 else 0))"
    by (cases p; cases q; cases r) simp_all
  then show ?case unfolding days_before_year.simps Suc.IH s l abc days_in_year_def is_leap_year_eq pqr .
qed simp

text \<open>The days before the first of March, in the year's century and year of the century.\<close>

lemma days_to_march:
  assumes "y = 100 * j + k" "0 \<le> j" "0 \<le> k" "k < 100"
  shows "days_before_year (nat (y + 1)) = 36524 * j + 365 * k + k div 4 + j div 4 + 366"
proof -
  have y: "0 \<le> y" using assms by simp
  have "int (nat (y + 1)) = y + 1" using y by simp
  then have "days_before_year (nat (y + 1)) = 365 * (y + 1) + (y + 4) div 4 - (y + 100) div 100 + (y + 400) div 400"
    unfolding days_before_year_eq by (simp only: add.assoc) simp
  also have "(y + 4) div 4 = y div 4 + 1" by simp
  also have "(y + 100) div 100 = y div 100 + 1" by simp
  also have "(y + 400) div 400 = y div 400 + 1" by simp
  also have "y div 4 = 25 * j + k div 4"
  proof -
    have "y = k + 25 * j * 4" using assms(1) by simp
    then have "y div 4 = (k + 25 * j * 4) div 4" by (rule arg_cong)
    then show ?thesis by simp
  qed
  also have d100: "y div 100 = j"
  proof -
    have "y = k + j * 100" using assms(1) by simp
    then have "y div 100 = (k + j * 100) div 100" by (rule arg_cong)
    then show ?thesis using assms(3,4) by (simp add: div_pos_pos_trivial)
  qed
  also have "y div 400 = j div 4" using d100 zdiv_zmult2_eq [of 4 y 100] by simp
  finally show ?thesis using assms(1) by simp
qed

lemma remap_weekday:
  "[SATURDAY, SUNDAY, MONDAY, TUESDAY, WEDNESDAY, THURSDAY, FRIDAY] ! nat ((z smod DAYS_PER_WEEK + DAYS_PER_WEEK) smod DAYS_PER_WEEK) =
    (z + 5) mod 7 + 1"
proof -
  have "z smod 7 mod 7 = z mod 7"
    by (simp add: signed_modulo_int_def sgn_if mod_minus_eq)
  moreover have "0 \<le> z smod 7 + 7" using smod_int_compares [of z 7] by linarith
  ultimately have m: "(z smod 7 + 7) smod 7 = z mod 7" by (simp add: smod_nonneg)
  have "(z + 5) mod 7 = (z mod 7 + 5) mod 7" by (simp add: mod_simps)
  moreover have "0 \<le> z mod 7" "z mod 7 < 7" by simp_all
  then have "z mod 7 = 0 \<or> z mod 7 = 1 \<or> z mod 7 = 2 \<or> z mod 7 = 3 \<or> z mod 7 = 4 \<or> z mod 7 = 5 \<or> z mod 7 = 6" by linarith
  ultimately show ?thesis using m by auto
qed

lemma weekday_eq:
  "int_weekday_from_date d m y =
     (let m' = (if m = 1 \<or> m = 2 then m + 12 else m); y' = (if m = 1 \<or> m = 2 then y - 1 else y)
      in (d + (13 * (m' + 1)) sdiv 5 + y' smod 100 + (y' smod 100) sdiv 4 + (y' sdiv 100) sdiv 4 - 2 * (y' sdiv 100) + 5) mod 7 + 1)"
  unfolding int_weekday_from_date_def remap_weekday by (simp add: Let_def)

text \<open>Zeller's terms and the days before a month differ by whole weeks.\<close>

lemma zeller_weeks:
  assumes "y' = 100 * j + k" "0 \<le> j" "0 \<le> k" "k < 100" "1 \<le> m" "m \<le> 12" "0 \<le> y"
    "y' = (if m \<le> 2 then y - 1 else y)" "m' = (if m \<le> 2 then m + 12 else m)"
  obtains q where "days_before_year (nat y) + days_before_month y m - 1 = (13 * (m' + 1)) div 5 + k + k div 4 + j div 4 - 2 * j + q * 7"
proof -
  let ?r = "52 * k + 5218 * j"
  note march = days_to_march [OF assms(1-4)]
  have "\<exists>c. days_before_year (nat y) + days_before_month y m - 1 = (13 * (m' + 1)) div 5 + k + k div 4 + j div 4 - 2 * j + (?r + c) * 7"
  proof (cases "m \<le> 2")
    case True
    then have "y' + 1 = y" using assms(8) by simp
    then have y: "days_before_year (nat y) = 36524 * j + 365 * k + k div 4 + j div 4 + 366" using march by simp
    from True assms(5) have "m = 1 \<or> m = 2" by auto
    then show ?thesis
    proof
      assume "m = 1"
      then show ?thesis using y assms(9) by (intro exI [of _ 47]) (simp add: algebra_simps)
    next
      assume "m = 2"
      then show ?thesis using y assms(9) by (intro exI [of _ 51]) (simp add: days_before_month_table algebra_simps)
    qed
  next
    case False
    then have "y' = y" "m' = m" using assms(8,9) by simp_all
    then have y: "days_before_year (nat y) = 36524 * j + 365 * k + k div 4 + j div 4 + 366 - days_in_year y"
      using march days_before_year_Suc [OF assms(7)] by simp
    have l: "days_in_year y = 337 + month_days y 2" by (simp add: days_in_year_def month_days_table)
    have "\<exists>c. 28 + days_before_month y m - month_days y 2 = 13 * (m + 1) div 5 + c * 7"
    proof -
      have "m = 3 \<or> m = 4 \<or> m = 5 \<or> m = 6 \<or> m = 7 \<or> m = 8 \<or> m = 9 \<or> m = 10 \<or> m = 11 \<or> m = 12"
        using month_cases [OF assms(5,6)] False by (metis (no_types) one_le_numeral order_refl)
      then show ?thesis by (elim disjE; simp add: days_before_month_table; presburger)
    qed
    then obtain c where c: "28 + days_before_month y m - month_days y 2 = 13 * (m + 1) div 5 + c * 7" by blast
    show ?thesis using y l c \<open>m' = m\<close> by (intro exI [of _ c]) (simp add: algebra_simps)
  qed
  then show ?thesis using that by blast
qed

lemma weekday_correct:
  assumes "0 \<le> y" "1 \<le> m" "m \<le> 12"
  shows "int_weekday_from_date d m y =
    (days_before_year (nat y) + days_before_month y m + d - 1 + (if y = 0 \<and> m \<le> 2 then 6 else 5)) mod 7 + 1"
proof (cases "y = 0 \<and> m \<le> 2")
  case True
  have c: "(- 1 :: int) smod 100 = - 1" "(- 1 :: int) sdiv 100 = 0" "(- 1 :: int) sdiv 4 = 0" "(0 :: int) sdiv 4 = 0" "(182 :: int) sdiv 5 = 36"
      "(195 :: int) sdiv 5 = 39" "(13 :: int) * (1 + 12 + 1) = 182" "(13 :: int) * (2 + 12 + 1) = 195" "(0 :: int) - 1 = - 1"
    by (simp_all add: signed_divide_int_def signed_modulo_int_def)
  have w: "int_weekday_from_date d 1 0 = (d + 36 + - 1 + 0 + 0 - 2 * 0 + 5) mod 7 + 1"
      "int_weekday_from_date d 2 0 = (d + 39 + - 1 + 0 + 0 - 2 * 0 + 5) mod 7 + 1"
    by (simp_all only: weekday_eq Let_def simp_thms if_True c)
  have "d + 36 + - 1 + 0 + 0 - 2 * 0 + 5 = d - 1 + 6 + 5 * 7" "d + 39 + - 1 + 0 + 0 - 2 * 0 + 5 = 31 + d - 1 + 6 + 1 * 7" by simp_all
  then have e: "(d + 36 + - 1 + 0 + 0 - 2 * 0 + 5) mod 7 = (d - 1 + 6) mod 7" "(d + 39 + - 1 + 0 + 0 - 2 * 0 + 5) mod 7 = (31 + d - 1 + 6) mod 7"
    by (simp_all only: mod_mult_self1)
  have "m = 1 \<or> m = 2" using True assms(2) by auto
  then show ?thesis
  proof
    assume "m = 1"
    then show ?thesis using True w(1) e(1) by simp
  next
    assume "m = 2"
    then show ?thesis using True w(2) e(2) by (simp add: days_before_month_table)
  qed
next
  case False
  define y' m' where "y' = (if m = 1 \<or> m = 2 then y - 1 else y)" and "m' = (if m = 1 \<or> m = 2 then m + 12 else m)"
  have md: "m = 1 \<or> m = 2 \<longleftrightarrow> m \<le> 2" using assms(2) by auto
  have y': "0 \<le> y'" using False assms(1) md by (auto simp: y'_def)
  define j k where "j = y' div 100" and "k = y' mod 100"
  have jk: "y' = 100 * j + k" "0 \<le> j" "0 \<le> k" "k < 100" using y' by (simp_all add: j_def k_def)
  have div: "y' sdiv 100 = j" "y' smod 100 = k" "k sdiv 4 = k div 4" "j sdiv 4 = j div 4"
    using y' jk(2,3) by (simp_all add: sdiv_nonneg smod_nonneg j_def [symmetric] k_def [symmetric])
  have m'0: "0 \<le> 13 * (m' + 1)" using assms(2) by (simp add: m'_def)
  have z: "int_weekday_from_date d m y = (d + (13 * (m' + 1)) div 5 + k + k div 4 + j div 4 - 2 * j + 5) mod 7 + 1"
    unfolding weekday_eq Let_def y'_def [symmetric] m'_def [symmetric] div by (simp only: sdiv_nonneg [OF m'0 zero_less_numeral])
  obtain q where q: "days_before_year (nat y) + days_before_month y m - 1 = (13 * (m' + 1)) div 5 + k + k div 4 + j div 4 - 2 * j + q * 7"
    by (rule zeller_weeks [OF jk assms(2,3,1)]) (simp_all only: y'_def m'_def md)
  have "days_before_year (nat y) + days_before_month y m + d - 1 + 5 = (d + (13 * (m' + 1)) div 5 + k + k div 4 + j div 4 - 2 * j + 5) + q * 7"
    using q by linarith
  then have "(days_before_year (nat y) + days_before_month y m + d - 1 + 5) mod 7 = (d + (13 * (m' + 1)) div 5 + k + k div 4 + j div 4 - 2 * j + 5) mod 7"
    by (simp only: mod_mult_self1)
  then show ?thesis unfolding z if_not_P [OF False] by simp
qed

end
