(* ===== verification/Date_Time_Overflow.thy ===== *)
theory Date_Time_Overflow
  imports Date_Time_Correct
begin

text \<open>
  The checked arithmetic of \<open>Date_Time\<close> against the reference of \<open>Date_Time_Ints\<close>: where the code does not
  overflow it computes what the reference does, and it does not overflow while the fields keep a
  distance from the ends of their type.
\<close>

section \<open>Without an overflow the results agree\<close>

lemma bind_Some: "Option.bind x f = Some y \<longleftrightarrow> (\<exists>a. x = Some a \<and> f a = Some y)"
  by (cases x) simp_all

lemma carry_down_sound: "carry_down n lo hi = Some r \<Longrightarrow> int_carry_down n lo hi = r"
proof (induction n lo hi rule: carry_down.induct)
  case (1 n lo hi)
  then show ?case by (subst int_carry_down.simps, subst (asm) carry_down.simps) (auto simp: bind_Some i32_Some split: if_splits)
qed

lemma carry_up_sound: "carry_up n lo hi = Some r \<Longrightarrow> int_carry_up n lo hi = r"
proof (induction n lo hi rule: carry_up.induct)
  case (1 n lo hi)
  then show ?case by (subst int_carry_up.simps, subst (asm) carry_up.simps) (auto simp: bind_Some i32_Some split: if_splits)
qed

lemma carry_sound: "carry n lo hi = Some r \<Longrightarrow> int_carry n lo hi = r"
  by (auto simp: carry_def int_carry_def bind_Some dest!: carry_down_sound carry_up_sound split: prod.splits)

lemma normalize_time_sound: "normalize_time d = Some r \<Longrightarrow> int_normalize_time d = r"
  by (auto simp: normalize_time_def int_normalize_time_def bind_Some dest!: carry_sound split: prod.splits)

lemma fix_month_sound: "fix_month d = Some r \<Longrightarrow> int_fix_month d = r"
  by (auto simp: fix_month_def int_fix_month_def bind_Some i32_Some split: if_splits)

lemma months_forward_sound:
  assumes ret: "months_forward d = Some r"
  shows "int_months_forward d = Some r"
proof (rule months_forward.raw_induct [where P = "\<lambda>d r. int_months_forward d = Some r", OF _ ret])
  fix f d r
  assume 1: "\<And>d r. f d = Some r \<Longrightarrow> int_months_forward d = Some r"
    "(case days_in_month (year d) (month d) of None \<Rightarrow> None
      | Some n \<Rightarrow> if mday d > n then do { md \<leftarrow> i32 (mday d - n); mo \<leftarrow> i32 (month d + 1);
          d \<leftarrow> fix_month (d\<lparr>mday := md, month := mo\<rparr>); f d } else Some d) = Some r"
  show "int_months_forward d = Some r"
  proof (cases "days_in_month (year d) (month d)")
    case (Some n)
    show ?thesis
    proof (cases "mday d > n")
      case True
      then obtain e where "fix_month (d\<lparr>mday := mday d - n, month := month d + 1\<rparr>) = Some e" "f e = Some r"
        using 1(2) Some by (auto simp: bind_Some i32_Some)
      then show ?thesis using 1(1) [of e r] fix_month_sound Some True by (subst int_months_forward.simps) auto
    next
      case False
      then show ?thesis using 1(2) Some by (subst int_months_forward.simps) simp
    qed
  qed (use 1(2) in simp)
qed

lemma months_back_sound:
  assumes ret: "months_back d = Some r"
  shows "int_months_back d = Some r"
proof (rule months_back.raw_induct [where P = "\<lambda>d r. int_months_back d = Some r", OF _ ret])
  fix f d r
  assume 1: "\<And>d r. f d = Some r \<Longrightarrow> int_months_back d = Some r"
    "(if mday d < FIRST_DAY_OF_MONTH then if year d = 0 \<and> month d = JANUARY then Some (clamp_to_minimum d)
      else do { mo \<leftarrow> i32 (month d - 1); d \<leftarrow> fix_month (d\<lparr>month := mo\<rparr>); n \<leftarrow> days_in_month (year d) (month d);
          md \<leftarrow> i32 (mday d + n); f (d\<lparr>mday := md\<rparr>) } else Some d) = Some r"
  show "int_months_back d = Some r"
  proof (cases "mday d < 1 \<and> \<not> (year d = 0 \<and> month d = 1)")
    case True
    then obtain e n where "fix_month (d\<lparr>month := month d - 1\<rparr>) = Some e" "days_in_month (year e) (month e) = Some n"
      "f (e\<lparr>mday := mday e + n\<rparr>) = Some r"
      using 1(2) by (auto simp: bind_Some i32_Some split: if_splits)
    then show ?thesis using 1(1) [of "e\<lparr>mday := mday e + n\<rparr>" r] fix_month_sound [of "d\<lparr>month := month d - 1\<rparr>" e] True
      by (subst int_months_back.simps) (auto simp: Let_def)
  next
    case False
    then show ?thesis using 1(2) by (subst int_months_back.simps) (auto split: if_splits)
  qed
qed

lemma weekday_sound: "weekday_from_date k m y = Some w \<Longrightarrow> int_weekday_from_date k m y = w"
  by (auto simp: weekday_from_date_def int_weekday_from_date_def Let_def bind_Some i32_Some split: if_splits)

lemma normalize_sound: "normalize_date_time d = Some r \<Longrightarrow> int_normalize_date_time d = Some r"
  by (auto simp: normalize_date_time_def int_normalize_date_time_def Let_def bind_Some
      dest!: normalize_time_sound fix_month_sound months_forward_sound months_back_sound weekday_sound)

section \<open>Bounds without an overflow\<close>

lemma fits_i32I: "- 2147483648 \<le> x \<Longrightarrow> x \<le> 2147483647 \<Longrightarrow> fits_i32 x"
  by (simp add: fits_i32_def)

lemma carry_down_fits:
  "0 < n \<Longrightarrow> fits_i32 n \<Longrightarrow> fits_i32 lo \<Longrightarrow> fits_i32 hi \<Longrightarrow> fits_i32 (hi + lo div n) \<Longrightarrow> \<exists>r. carry_down n lo hi = Some r \<and> fst r < n \<and>
     (0 \<le> lo \<longrightarrow> 0 \<le> fst r) \<and> fits_i32 (fst r) \<and> fits_i32 (snd r) \<and> snd r + fst r div n = hi + lo div n"
proof (induction n lo hi rule: carry_down.induct)
  case (1 n lo hi)
  show ?case
  proof (cases "lo \<ge> n")
    case True
    have d: "hi + 1 + (lo - n) div n = hi + lo div n" using 1(2) div_add_self2 [of n "lo - n"] by simp
    have "0 \<le> (lo - n) div n" using True 1(2) by (simp add: pos_imp_zdiv_nonneg_iff)
    then have f: "fits_i32 (lo - n)" "fits_i32 (hi + 1)" using True 1(2-6) d by (auto simp: fits_i32_def)
    from 1(1) [of "lo - n" "hi + 1"] True 1(2,3,6) f d obtain r where
      "carry_down n (lo - n) (hi + 1) = Some r" "fst r < n" "0 \<le> fst r" "fits_i32 (fst r)" "fits_i32 (snd r)" "snd r + fst r div n = hi + lo div n"
      by (auto simp: i32_Some)
    then show ?thesis using True f 1(2) by (subst carry_down.simps) (simp add: i32_def)
  next
    case False
    then show ?thesis using 1(4,5) by (subst carry_down.simps) simp
  qed
qed

lemma carry_up_fits:
  "0 < n \<Longrightarrow> fits_i32 n \<Longrightarrow> lo < n \<Longrightarrow> fits_i32 lo \<Longrightarrow> fits_i32 hi \<Longrightarrow> fits_i32 (hi + lo div n) \<Longrightarrow> carry_up n lo hi = Some (lo mod n, hi + lo div n)"
proof (induction n lo hi rule: carry_up.induct)
  case (1 n lo hi)
  show ?case
  proof (cases "lo < 0")
    case True
    have d: "hi - 1 + (lo + n) div n = hi + lo div n" "(lo + n) mod n = lo mod n" using 1(2) div_add_self2 [of n lo] by simp_all
    have "(lo + n) div n \<le> 0" using True 1(2) pos_imp_zdiv_neg_iff [of n lo] div_add_self2 [of n lo] by simp
    then have f: "fits_i32 (lo + n)" "fits_i32 (hi - 1)" using True 1(2-7) d by (auto simp: fits_i32_def)
    from 1(1) [of "lo + n" "hi - 1"] True 1(2,3,7) f d have "carry_up n (lo + n) (hi - 1) = Some (lo mod n, hi + lo div n)"
      by (auto simp: i32_Some)
    then show ?thesis using True f 1(2) by (subst carry_up.simps) (simp add: i32_def)
  next
    case False
    then show ?thesis using 1(2,4) by (subst carry_up.simps) simp
  qed
qed

lemma carry_fits:
  assumes "0 < n" "fits_i32 n" "fits_i32 lo" "fits_i32 hi" "fits_i32 (hi + lo div n)"
  shows "carry n lo hi = Some (lo mod n, hi + lo div n)"
proof -
  obtain lo' hi' where d: "carry_down n lo hi = Some (lo', hi')" "lo' < n" "fits_i32 lo'" "fits_i32 hi'" "hi' + lo' div n = hi + lo div n"
    using carry_down_fits [OF assms] by auto
  from carry_up_fits [OF assms(1,2) d(2-4)] d(5) assms(5) have "carry_up n lo' hi' = Some (lo' mod n, hi + lo div n)" by simp
  then have "carry n lo hi = Some (lo' mod n, hi + lo div n)" using d(1) by (simp add: carry_def)
  moreover from carry_sound [OF this] have "lo' mod n = lo mod n" using carry_eq [OF assms(1), of lo hi] by simp
  ultimately show ?thesis by simp
qed

text \<open>The fields that no carry takes out of range.\<close>

definition date_in_range :: "date_time \<Rightarrow> bool" where
  "date_in_range d \<longleftrightarrow> date_fits d \<and> \<bar>minutes d\<bar> \<le> 2000000000 \<and> \<bar>hours d\<bar> \<le> 2000000000 \<and> \<bar>mday d\<bar> \<le> 2000000000 \<and> year d \<le> 2000000000"

lemma normalize_time_fits:
  assumes "date_in_range d"
  shows "normalize_time d = Some (int_normalize_time d) \<and> \<bar>mday (int_normalize_time d)\<bar> \<le> 2100000000"
proof -
  define mi h where "mi = minutes d + seconds d div 60" and "h = hours d + mi div 60"
  have r: "fits_i32 (seconds d)" "fits_i32 (minutes d)" "fits_i32 (hours d)" "fits_i32 (mday d)"
    "\<bar>minutes d\<bar> \<le> 2000000000" "\<bar>hours d\<bar> \<le> 2000000000" "\<bar>mday d\<bar> \<le> 2000000000"
    using assms by (simp_all add: date_in_range_def date_fits_def)
  have "\<bar>seconds d div 60\<bar> \<le> 36000000" using r(1) unfolding fits_i32_def by linarith
  then have mi: "\<bar>mi\<bar> \<le> 2036000000" using r(5) unfolding mi_def by linarith
  then have "\<bar>mi div 60\<bar> \<le> 34000000" by linarith
  then have h: "\<bar>h\<bar> \<le> 2034000000" using r(6) unfolding h_def by linarith
  then have "\<bar>h div 24\<bar> \<le> 85000000" by linarith
  then have md: "\<bar>mday d + h div 24\<bar> \<le> 2085000000" using r(7) by linarith
  have f: "fits_i32 mi" "fits_i32 h" "fits_i32 (mday d + h div 24)" "fits_i32 60" "fits_i32 24" using mi h md by (simp_all add: fits_i32_def abs_le_iff)
  have "carry 60 (seconds d) (minutes d) = Some (seconds d mod 60, mi)" "carry 60 mi (hours d) = Some (mi mod 60, h)"
    "carry 24 h (mday d) = Some (h mod 24, mday d + h div 24)"
    using carry_fits [of 60 "seconds d" "minutes d"] carry_fits [of 60 mi "hours d"] carry_fits [of 24 h "mday d"] f r(1-4)
    by (simp_all add: mi_def [symmetric] h_def [symmetric])
  then have n: "normalize_time d = Some (d\<lparr>seconds := seconds d mod 60, minutes := mi mod 60, hours := h mod 24, mday := mday d + h div 24\<rparr>)"
    by (simp add: normalize_time_def)
  from normalize_time_sound [OF n] n md show ?thesis by auto
qed

lemma fix_month_fits: "fits_i32 (year d) \<Longrightarrow> year d < 2147483647 \<Longrightarrow> 0 \<le> year d \<Longrightarrow> fix_month d = Some (int_fix_month d)"
  by (auto simp: fix_month_def int_fix_month_def i32_def fits_i32_def)

text \<open>What is stored in the year has been checked.\<close>

lemma fix_month_year: "fix_month d = Some r \<Longrightarrow> fits_i32 (year d) \<Longrightarrow> fits_i32 (year r)"
  by (auto simp: fix_month_def bind_Some i32_Some clamp_to_minimum_def fits_i32_def split: if_splits)

lemma months_forward_year:
  assumes ret: "months_forward d = Some r"
  shows "fits_i32 (year d) \<longrightarrow> fits_i32 (year r)"
proof (rule months_forward.raw_induct [where P = "\<lambda>d r. fits_i32 (year d) \<longrightarrow> fits_i32 (year r)", OF _ ret])
  fix f d r
  assume 1: "\<And>d r. f d = Some r \<Longrightarrow> fits_i32 (year d) \<longrightarrow> fits_i32 (year r)"
    "(case days_in_month (year d) (month d) of None \<Rightarrow> None
      | Some n \<Rightarrow> if mday d > n then do { md \<leftarrow> i32 (mday d - n); mo \<leftarrow> i32 (month d + 1);
          d \<leftarrow> fix_month (d\<lparr>mday := md, month := mo\<rparr>); f d } else Some d) = Some r"
  then show "fits_i32 (year d) \<longrightarrow> fits_i32 (year r)"
    by (auto simp: bind_Some i32_Some dest!: fix_month_year split: option.splits if_splits)
qed

lemma months_back_year:
  assumes ret: "months_back d = Some r"
  shows "fits_i32 (year d) \<longrightarrow> fits_i32 (year r)"
proof (rule months_back.raw_induct [where P = "\<lambda>d r. fits_i32 (year d) \<longrightarrow> fits_i32 (year r)", OF _ ret])
  fix f d r
  assume 1: "\<And>d r. f d = Some r \<Longrightarrow> fits_i32 (year d) \<longrightarrow> fits_i32 (year r)"
    "(if mday d < FIRST_DAY_OF_MONTH then if year d = 0 \<and> month d = JANUARY then Some (clamp_to_minimum d)
      else do { mo \<leftarrow> i32 (month d - 1); d \<leftarrow> fix_month (d\<lparr>month := mo\<rparr>); n \<leftarrow> days_in_month (year d) (month d);
          md \<leftarrow> i32 (mday d + n); f (d\<lparr>mday := md\<rparr>) } else Some d) = Some r"
  show "fits_i32 (year d) \<longrightarrow> fits_i32 (year r)"
  proof (cases "mday d < 1 \<and> \<not> (year d = 0 \<and> month d = 1)")
    case True
    then obtain e n where "fix_month (d\<lparr>month := month d - 1\<rparr>) = Some e" "f (e\<lparr>mday := mday e + n\<rparr>) = Some r"
      using 1(2) by (auto simp: bind_Some i32_Some split: if_splits)
    then show ?thesis using 1(1) [of "e\<lparr>mday := mday e + n\<rparr>" r] fix_month_year [of "d\<lparr>month := month d - 1\<rparr>" e] by simp
  next
    case False
    then show ?thesis using 1(2) by (auto simp: clamp_to_minimum_def fits_i32_def split: if_splits)
  qed
qed

lemma normalize_time_year: "normalize_time d = Some r \<Longrightarrow> year r = year d"
  by (auto simp: normalize_time_def bind_Some split: prod.splits)

lemma normalize_year: "normalize_date_time d = Some r \<Longrightarrow> fits_i32 (year d) \<Longrightarrow> fits_i32 (year r)"
proof -
  assume n: "normalize_date_time d = Some r" and y: "fits_i32 (year d)"
  then obtain e f g h w where "normalize_time d = Some e" "fix_month (if year e < 0 then clamp_to_minimum e else e) = Some f"
    "months_forward f = Some g" "months_back g = Some h" "r = h\<lparr>wday := w\<rparr>"
    by (auto simp: normalize_date_time_def Let_def bind_Some)
  moreover have "fits_i32 (year (if year e < 0 then clamp_to_minimum e else e))"
    using y normalize_time_year [OF calculation(1)] by (simp add: clamp_to_minimum_def fits_i32_def)
  ultimately show ?thesis using fix_month_year months_forward_year months_back_year by fastforce
qed

text \<open>A day number of at most 28 times the years left ends before they do.\<close>

lemma months_forward_fits:
  "date_ok d \<Longrightarrow> mday d \<le> month_days (year d) (month d) \<or> mday d \<le> 28 * (2147483647 - year d) \<Longrightarrow> fits_i32 (mday d) \<Longrightarrow> year d \<le> 2147483647 \<Longrightarrow>
   \<exists>e. months_forward d = Some e \<and> date_ok e \<and> year e \<le> 2147483647 \<and> fits_i32 (mday e) \<and> mday e \<le> month_days (year e) (month e)"
proof (induction "nat (mday d)" arbitrary: d rule: less_induct)
  case less
  have y: "0 \<le> year d" "1 \<le> month d" "month d \<le> 12" using less(2) by (simp_all add: date_ok_def)
  have n: "days_in_month (year d) (month d) = Some (month_days (year d) (month d))" "28 \<le> month_days (year d) (month d)"
    "month_days (year d) (month d) \<le> 31" using y days_in_month_Some month_days_bounds by simp_all
  show ?case
  proof (cases "mday d > month_days (year d) (month d)")
    case True
    let ?k = "mday d - month_days (year d) (month d)"
    let ?d = "d\<lparr>mday := ?k, month := month d + 1\<rparr>"
    let ?e = "int_fix_month ?d"
    have b: "mday d \<le> 28 * (2147483647 - year d)" "year d < 2147483646"
    proof -
      show "mday d \<le> 28 * (2147483647 - year d)" using True less(3) by linarith
      then have "29 \<le> 28 * (2147483647 - year d)" using True n(2) by linarith
      then show "year d < 2147483646" by presburger
    qed
    have "year ?d = year d" by simp
    then have f: "fix_month ?d = Some ?e" using y b(2) by (intro fix_month_fits) (simp_all add: fits_i32_def)
    have e: "year ?e \<le> year d + 1" using y by (auto simp: int_fix_month_def)
    note s = step_forward [OF less(2), of ?k]
    have "nat (mday ?e) < nat (mday d)" using True n(2) s(3) by simp
    moreover have "mday ?e \<le> 28 * (2147483647 - year ?e)"
    proof -
      have "a \<le> 28 * (2147483647 - y')" if "a = md - k" "md \<le> 28 * (2147483647 - y)" "28 \<le> k" "y' \<le> y + 1" for a md k y y' :: int
        using that by (simp add: right_diff_distrib)
      from this [OF s(3) b(1) n(2) e] show ?thesis .
    qed
    moreover have k: "fits_i32 ?k" "fits_i32 (month d + 1)" using True n(2) less(4) y by (simp_all add: fits_i32_def)
    moreover have "months_forward d = months_forward ?e" using True n(1) f k by (subst months_forward.simps) (simp add: i32_def)
    ultimately show ?thesis using less(1) [of ?e] s(1,3) e b(2) by simp
  next
    case False
    then have "months_forward d = Some d" using n(1) by (subst months_forward.simps) simp
    then show ?thesis using less False by simp
  qed
qed

lemma months_back_fits:
  "date_ok d \<Longrightarrow> mday d \<le> month_days (year d) (month d) \<Longrightarrow> fits_i32 (mday d) \<Longrightarrow> year d \<le> 2147483647 \<Longrightarrow>
   \<exists>e. months_back d = Some e \<and> date_ok e \<and> year e \<le> 2147483647 \<and> 1 \<le> mday e \<and> mday e \<le> 31"
proof (induction "nat (1 - mday d)" arbitrary: d rule: less_induct)
  case less
  have y: "0 \<le> year d" "1 \<le> month d" "month d \<le> 12" using less(2) by (simp_all add: date_ok_def)
  show ?case
  proof (cases "mday d < 1 \<and> \<not> (year d = 0 \<and> month d = 1)")
    case True
    let ?d = "d\<lparr>month := month d - 1\<rparr>"
    let ?e = "int_fix_month ?d"
    let ?n = "month_days (year ?e) (month ?e)"
    let ?f = "?e\<lparr>mday := mday ?e + ?n\<rparr>"
    note s = step_back [OF less(2) True [THEN conjunct2]]
    have f: "fix_month ?d = Some ?e" using y True less(5) by (auto simp: fix_month_def int_fix_month_def i32_def fits_i32_def)
    have n: "days_in_month (year ?e) (month ?e) = Some ?n" "28 \<le> ?n" "?n \<le> 31"
      using s(1) days_in_month_Some month_days_bounds by (simp_all add: date_ok_def)
    have e: "year ?e \<le> year d" using y by (auto simp: int_fix_month_def clamp_to_minimum_def)
    have k: "fits_i32 (month d - 1)" "fits_i32 (mday ?e + ?n)" using y True n s(2) less(4) by (simp_all add: fits_i32_def)
    have "nat (1 - mday ?f) < nat (1 - mday d)" using True n(2) s(2) by simp
    moreover have "date_ok ?f" "mday ?f \<le> month_days (year ?f) (month ?f)" using s True by (simp_all add: date_ok_def)
    moreover have "months_back d = months_back ?f" using True f n(1) k by (subst months_back.simps) (auto simp: i32_def)
    ultimately show ?thesis using less(1) [of ?f] k(2) e less(5) by simp
  next
    case False
    then have "months_back d = Some (if mday d < 1 then clamp_to_minimum d else d)" by (subst months_back.simps) auto
    moreover have "month_days (year d) (month d) \<le> 31" using y month_days_bounds by simp
    ultimately show ?thesis using less(2,3,5) by (simp add: clamp_to_minimum_def date_ok_def)
  qed
qed

lemma weekday_fits:
  assumes "0 \<le> y" "y \<le> 2147483647" "1 \<le> m" "m \<le> 12" "1 \<le> k" "k \<le> 31"
  shows "weekday_from_date k m y = Some (int_weekday_from_date k m y)"
proof -
  have table: "\<exists>w. weekday_from_date k m y = Some w" if a: "(if m = 1 \<or> m = 2 then (m + 12, y - 1) else (m, y)) = (m', y')" for m' y'
  proof -
    have m: "3 \<le> m'" "m' \<le> 14" and y: "y' = - 1 \<or> 0 \<le> y' \<and> y' \<le> 2147483647" using a assms by (auto split: if_splits)
    have c: "- 1 \<le> y' smod 100" "y' smod 100 \<le> 99" "0 \<le> y' sdiv 100" "y' sdiv 100 \<le> 21474836"
      using y by (auto simp: smod_nonneg sdiv_nonneg)
    have d: "- 1 \<le> y' smod 100 sdiv 4" "y' smod 100 sdiv 4 \<le> 24" "0 \<le> y' sdiv 100 sdiv 4" "y' sdiv 100 sdiv 4 \<le> 5368709"
      using y by (auto simp: smod_nonneg sdiv_nonneg)
    have z: "0 \<le> 13 * (m' + 1) sdiv 5" "13 * (m' + 1) sdiv 5 \<le> 39" using m by (auto simp: sdiv_nonneg)
    have sums: "fits_i32 (k + p) \<and> fits_i32 (k + p + a) \<and> fits_i32 (k + p + a + b) \<and> fits_i32 (k + p + a + b + e) \<and>
        fits_i32 (2 * c) \<and> fits_i32 (k + p + a + b + e - 2 * c)"
      if "0 \<le> p" "p \<le> 39" "- 1 \<le> a" "a \<le> 99" "- 1 \<le> b" "b \<le> 24" "0 \<le> c" "c \<le> 21474836" "0 \<le> e" "e \<le> 5368709" for p a b c e
      using that assms(5,6) by (intro conjI fits_i32I; linarith)
    note f = sums [OF z c(1,2) d(1,2) c(3,4) d(3,4)]
    have "fits_i32 (m' + 1)" "fits_i32 (13 * (m' + 1))" using m by (simp_all add: fits_i32_def)
    moreover
    have "fits_i32 (m + 12)" "fits_i32 (y - 1)" using assms by (simp_all add: fits_i32_def)
    ultimately have i: "i32 (m + 12) = Some (m + 12)" "i32 (y - 1) = Some (y - 1)" "i32 (m' + 1) = Some (m' + 1)"
      "i32 (13 * (m' + 1)) = Some (13 * (m' + 1))" by (simp_all add: i32_def)
    have g: "i32 x = Some x" if "fits_i32 x" for x using that by (simp add: i32_def)
    note g = f [THEN conjunct1, THEN g] f [THEN conjunct2, THEN conjunct1, THEN g] f [THEN conjunct2, THEN conjunct2, THEN conjunct1, THEN g]
      f [THEN conjunct2, THEN conjunct2, THEN conjunct2, THEN conjunct1, THEN g]
      f [THEN conjunct2, THEN conjunct2, THEN conjunct2, THEN conjunct2, THEN conjunct1, THEN g]
      f [THEN conjunct2, THEN conjunct2, THEN conjunct2, THEN conjunct2, THEN conjunct2, THEN g]
    have "(if m = JANUARY \<or> m = FEBRUARY then do { m \<leftarrow> i32 (m + MONTHS_PER_YEAR); y \<leftarrow> i32 (y - 1); Some (m, y) } else Some (m, y)) = Some (m', y')"
      using a i(1,2) by (simp split: if_splits)
    then show ?thesis unfolding weekday_from_date_def Let_def by (simp add: i g del: distrib_left_numeral)
  qed
  then obtain w where "weekday_from_date k m y = Some w" by (metis surj_pair)
  then show ?thesis using weekday_sound by blast
qed

lemma normalize_fits:
  assumes "fix_month (if year e < 0 then clamp_to_minimum e else e) = Some f" "normalize_time d = Some e" "date_ok f"
    "mday f \<le> month_days (year f) (month f) \<or> mday f \<le> 28 * (2147483647 - year f)" "fits_i32 (mday f)" "year f \<le> 2147483647"
  shows "\<exists>r. normalize_date_time d = Some r"
proof -
  obtain g where g: "months_forward f = Some g" "date_ok g" "year g \<le> 2147483647" "fits_i32 (mday g)" "mday g \<le> month_days (year g) (month g)"
    using months_forward_fits [OF assms(3-6)] by blast
  obtain h where h: "months_back g = Some h" "date_ok h" "year h \<le> 2147483647" "1 \<le> mday h" "mday h \<le> 31"
    using months_back_fits [OF g(2,5,4,3)] by blast
  have "weekday_from_date (mday h) (month h) (year h) = Some (int_weekday_from_date (mday h) (month h) (year h))"
    using h(2-5) by (intro weekday_fits) (simp_all add: date_ok_def)
  then show ?thesis using assms(1,2) g(1) h(1,3) by (simp add: normalize_date_time_def Let_def)
qed

text \<open>A date in range, and a normal date of any year.\<close>

lemma normalize_in_range:
  assumes "date_in_range d"
  shows "\<exists>r. normalize_date_time d = Some r"
proof -
  let ?e = "int_normalize_time d"
  let ?c = "if year ?e < 0 then clamp_to_minimum ?e else ?e"
  let ?f = "int_fix_month ?c"
  have e: "normalize_time d = Some ?e" "\<bar>mday ?e\<bar> \<le> 2100000000" "year ?e = year d"
    using normalize_time_fits [OF assms] normalize_time_eq(1) [of d] by auto
  have y: "year d \<le> 2000000000" using assms by (simp add: date_in_range_def)
  have c: "0 \<le> year ?c" "year ?c \<le> 2000000000" "\<bar>mday ?c\<bar> \<le> 2100000000" using e(2,3) y by (simp_all add: clamp_to_minimum_def)
  have f: "fix_month ?c = Some ?f" using c(1,2) by (intro fix_month_fits) (simp_all add: fits_i32_def)
  have b: "year ?f \<le> 2000000001" "\<bar>mday ?f\<bar> \<le> 2100000000" "date_ok ?f"
    using c by (auto simp: int_fix_month_def clamp_to_minimum_def date_ok_def)
  have "fits_i32 (mday ?f)" using b(2) by (simp add: fits_i32_def abs_le_iff)
  moreover have "mday ?f \<le> 28 * (2147483647 - year ?f)" using b(1,2) by (simp add: right_diff_distrib)
  ultimately show ?thesis using b by (intro normalize_fits [OF f e(1)]) simp_all
qed

lemma normalize_normal_fits:
  assumes "normal d" "year d \<le> 2147483647"
  shows "\<exists>r. normalize_date_time d = Some r"
proof -
  have d: "0 \<le> year d" "1 \<le> month d" "month d \<le> 12" "1 \<le> mday d" "mday d \<le> month_days (year d) (month d)"
    "0 \<le> hours d" "hours d < 24" "0 \<le> minutes d" "minutes d < 60" "0 \<le> seconds d" "seconds d < 60"
    using assms(1) by (simp_all add: normal_def date_ok_def)
  have m: "mday d \<le> 31" using d(5) month_days_bounds [OF d(2,3), of "year d"] by simp
  have "normalize_time d = Some d" using d m by (simp add: normalize_time_def carry_fits fits_i32_def)
  moreover have "fix_month d = Some d" using d by (simp add: fix_month_def)
  ultimately show ?thesis using normalize_fits [of d d d] d m assms(2) by (auto simp: date_ok_def fits_i32_def)
qed

end
