(* ===== verification/Date_Time_Properties.thy ===== *)
theory Date_Time_Properties
  imports Date_Time_Overflow
begin

text \<open>
  The properties of the calendar: normalisation always ends in a valid date and time, which is the
  instant the fields name, and the weekday agrees with the count of days.
\<close>

section \<open>What the normalisation starts from\<close>

definition start_of :: "date_time \<Rightarrow> date_time" where
  "start_of d = int_fix_month (if year (int_normalize_time d) < 0 then clamp_to_minimum (int_normalize_time d) else int_normalize_time d)"

lemma start_of_ok: "date_ok (start_of d)"
  by (auto simp: start_of_def int_fix_month_def clamp_to_minimum_def date_ok_def)

lemma start_of_time:
  "0 \<le> hours (start_of d)" "hours (start_of d) < 24" "0 \<le> minutes (start_of d)" "minutes (start_of d) < 60"
  "0 \<le> seconds (start_of d)" "seconds (start_of d) < 60"
  using normalize_time_eq [of d] by (simp_all add: start_of_def int_fix_month_def clamp_to_minimum_def)

lemmas normalize_from_start = normalize_from [OF start_of_def [symmetric] start_of_ok start_of_time]

lemma start_of_in_range: "date_ok d \<Longrightarrow> start_of d = int_normalize_time d"
  using normalize_time_eq(1,2) [of d] by (simp add: start_of_def date_ok_def int_fix_month_def)

lemma normal_wday [simp]: "normal (d\<lparr>wday := w\<rparr>) = normal d"
  by (simp add: normal_def date_ok_def)

lemma normal_start: "normal d \<Longrightarrow> start_of d = d"
  using normalize_time_eq(10) [of d] by (simp add: start_of_in_range normal_def)

lemma weekday_range: "1 \<le> int_weekday_from_date k m y" "int_weekday_from_date k m y \<le> 7"
  by (simp_all add: weekday_eq Let_def)

lemma normalize_normal: "normal d \<Longrightarrow> int_normalize_date_time d = Some (d\<lparr>wday := int_weekday_from_date (mday d) (month d) (year d)\<rparr>)"
  using normalize_from_start [of d] by (auto simp: normal_start)

lemma normalize_valid: "normal d \<Longrightarrow> is_date_time_valid (d\<lparr>wday := int_weekday_from_date (mday d) (month d) (year d)\<rparr>) = Some True"
  by (rule valid_normal) (simp_all add: weekday_range)

lemma instant_wday [simp]: "instant (d\<lparr>wday := w\<rparr>) = instant d"
  by (simp add: instant_def day_number_def day_seconds_def)

lemma instant_clamp: "instant (clamp_to_minimum d) = 0"
  by (simp add: instant_def day_number_def day_seconds_def clamp_to_minimum_def)

lemma instant_normalize_time: "date_ok d \<Longrightarrow> instant (int_normalize_time d) = instant d"
  using normalize_time_eq(1,2,9) [of d] by (simp add: instant_def day_number_def)

lemma instant_sign:
  assumes "0 \<le> day_seconds d" "day_seconds d < 86400"
  shows "0 \<le> instant d \<longleftrightarrow> 0 \<le> day_number d"
  using assms by (auto simp: instant_def)

lemma day_seconds_range: "0 \<le> day_seconds (start_of d)" "day_seconds (start_of d) < 86400"
  using start_of_time [of d] by (simp_all add: day_seconds_def)

section \<open>Properties\<close>

text \<open>C33. Normalisation of any \<open>int32_t\<close> fields either overflows a field or leaves a date and time that is valid and that
  normalisation does not change again; and it does not overflow while minutes, hours and days are within two billion of zero
  and the year is at most two billion. No call of \<open>days_in_month\<close> on the way is out of range.\<close>

theorem normalize_gives_valid:
  assumes "date_fits d"
  shows "(normalize_date_time d = None \<or>
      (\<exists>r. normalize_date_time d = Some r \<and> is_date_time_valid r = Some True \<and> normalize_date_time r = Some r)) \<and>
    (date_in_range d \<longrightarrow> (\<exists>r. normalize_date_time d = Some r))"
proof -
  obtain r where r: "int_normalize_date_time d = Some (r\<lparr>wday := int_weekday_from_date (mday r) (month r) (year r)\<rparr>)" "normal r"
    using normalize_from_start [of d] by blast
  let ?r = "r\<lparr>wday := int_weekday_from_date (mday r) (month r) (year r)\<rparr>"
  have idem: "int_normalize_date_time ?r = Some ?r" using normalize_normal [of ?r] r(2) by simp
  have "normalize_date_time d = None \<or> normalize_date_time d = Some ?r" using normalize_sound [of d] r(1) by (cases "normalize_date_time d") auto
  moreover have "normalize_date_time ?r = Some ?r" if "year ?r \<le> 2147483647"
    using normalize_normal_fits [of ?r] that r(2) normalize_sound [of ?r] idem by auto
  moreover have "year ?r \<le> 2147483647" if "normalize_date_time d = Some ?r"
    using normalize_year [OF that] assms by (simp add: date_fits_def fits_i32_def)
  ultimately show ?thesis using normalize_valid [OF r(2)] normalize_in_range by blast
qed

text \<open>C25. For a month in range, a non-negative year of at most two billion, minutes, hours and days within two billion of zero, and any
  seconds, the normalised date and time is the same instant, counted in seconds from the first day of year 0 with the length of
  every year and month summed up; an instant before that day becomes its midnight.\<close>

theorem normalize_keeps_instant:
  assumes "date_in_range d" "0 \<le> year d" "1 \<le> month d" "month d \<le> 12"
  shows "\<exists>r. normalize_date_time d = Some r \<and> is_date_time_valid r = Some True \<and> instant r = max 0 (instant d)"
proof -
  have ok: "date_ok d" using assms by (simp add: date_ok_def)
  obtain r where r: "int_normalize_date_time d = Some (r\<lparr>wday := int_weekday_from_date (mday r) (month r) (year r)\<rparr>)" "normal r"
    "if 0 \<le> day_number (start_of d) then same_time r (start_of d) \<and> day_number r = day_number (start_of d)
     else \<exists>f. r = clamp_to_minimum f"
    using normalize_from_start [of d] by blast
  have s: "instant (start_of d) = instant d" using ok by (simp add: start_of_in_range instant_normalize_time)
  have "instant r = max 0 (instant d)"
  proof (cases "0 \<le> day_number (start_of d)")
    case True
    then have "instant r = instant (start_of d)" using r(3) by (simp add: instant_def day_seconds_def same_time_def)
    moreover have "0 \<le> instant (start_of d)" using True instant_sign [OF day_seconds_range] by simp
    ultimately show ?thesis using s by simp
  next
    case False
    then have "instant d < 0" using instant_sign [OF day_seconds_range, of d] s by simp
    then show ?thesis using False r(3) instant_clamp by auto
  qed
  moreover have "normalize_date_time d = Some (r\<lparr>wday := int_weekday_from_date (mday r) (month r) (year r)\<rparr>)"
    using normalize_in_range [OF assms(1)] normalize_sound [of d] r(1) by auto
  ultimately show ?thesis using normalize_valid [OF r(2)] by auto
qed

text \<open>The last second of February 2023, 36 hours and one second later.\<close>

theorem normalize_keeps_instant_witness:
  "\<exists>r. normalize_date_time \<lparr>hours = 59, minutes = 59, seconds = 60, year = 2023, month = 2, mday = 28, wday = 1\<rparr> = Some r \<and>
     is_date_time_valid r = Some True \<and>
     instant r = max 0 (instant \<lparr>hours = 59, minutes = 59, seconds = 60, year = 2023, month = 2, mday = 28, wday = 1\<rparr>)"
  by (rule normalize_keeps_instant) (simp_all add: date_in_range_def date_fits_def fits_i32_def)

text \<open>A year at the end of its type overflows.\<close>

theorem normalize_gives_valid_witness:
  "\<exists>r. normalize_date_time \<lparr>hours = 59, minutes = 59, seconds = 60, year = 2023, month = 2, mday = 28, wday = 1\<rparr> = Some r \<and>
     is_date_time_valid r = Some True \<and> normalize_date_time r = Some r"
proof -
  let ?d = "\<lparr>hours = 59, minutes = 59, seconds = 60, year = 2023, month = 2, mday = 28, wday = 1\<rparr>"
  have "date_fits ?d" "date_in_range ?d" by (simp_all add: date_in_range_def date_fits_def fits_i32_def)
  with normalize_gives_valid [OF this(1)] show ?thesis by auto
qed

lemma last_year_overflows:
  "normalize_date_time \<lparr>hours = 0, minutes = 0, seconds = 0, year = 2147483647, month = 13, mday = 1, wday = 1\<rparr> = None"
  by (simp add: normalize_date_time_def normalize_time_def carry_fits fix_month_def i32_def fits_i32_def)

text \<open>The weekday a normalised date gets follows the count of days, Monday being 1: it is that of the proleptic Gregorian
  calendar for every date from the first of March of year 0, and one day late in the January and the February before.\<close>

theorem weekday_follows_days:
  assumes "normalize_date_time d = Some r"
  shows "wday r = (day_number r + (if year r = 0 \<and> month r \<le> 2 then 6 else 5)) mod 7 + 1"
proof -
  obtain q where q: "int_normalize_date_time d = Some (q\<lparr>wday := int_weekday_from_date (mday q) (month q) (year q)\<rparr>)" "normal q"
    using normalize_from_start [of d] by blast
  then have "0 \<le> year q" "1 \<le> month q" "month q \<le> 12" by (simp_all add: normal_def date_ok_def)
  from weekday_correct [OF this] q(1) normalize_sound [OF assms] show ?thesis by (auto simp: day_number_def algebra_simps)
qed

theorem weekday_follows_days_witness:
  "\<exists>r. normalize_date_time \<lparr>hours = 0, minutes = 0, seconds = 0, year = 0, month = 1, mday = 1, wday = 1\<rparr> = Some r \<and> wday r = SUNDAY"
proof -
  let ?d = "\<lparr>hours = 0, minutes = 0, seconds = 0, year = 0, month = 1, mday = 1, wday = 1\<rparr>"
  have "normal ?d" by (simp add: normal_def date_ok_def month_days_table)
  then obtain r where r: "normalize_date_time ?d = Some r" using normalize_normal_fits [of ?d] by auto
  moreover have "year r = 0" "month r = 1" "mday r = 1"
    using normalize_sound [OF r] normalize_normal [OF \<open>normal ?d\<close>] by auto
  ultimately show ?thesis using weekday_follows_days [OF r] by (auto simp: day_number_def)
qed

section \<open>Examples\<close>

lemma year_2000_saturday: "int_weekday_from_date 1 1 2000 = SATURDAY" "day_number \<lparr>hours = 0, minutes = 0, seconds = 0, year = 2000, month = 1, mday = 1, wday = 1\<rparr> = 730485"
  by (simp_all add: weekday_correct day_number_def days_before_year_eq)

lemma minimum_is_sunday: "int_weekday_from_date 1 1 0 = SUNDAY" "int_weekday_from_date 1 3 0 = WEDNESDAY"
  by (simp_all add: weekday_correct days_before_month_table month_days_table is_leap_year_eq)

lemma seconds_to_time_instant:
  assumes "0 \<le> s" "s < 86400"
  shows "hours (seconds_to_time s) < 24 \<and> 0 \<le> hours (seconds_to_time s) \<and> minutes (seconds_to_time s) < 60 \<and> 0 \<le> minutes (seconds_to_time s) \<and>
    seconds (seconds_to_time s) < 60 \<and> 0 \<le> seconds (seconds_to_time s) \<and>
    3600 * hours (seconds_to_time s) + 60 * minutes (seconds_to_time s) + seconds (seconds_to_time s) = s"
proof -
  have e: "s sdiv 3600 = s div 3600" "s smod 3600 = s mod 3600" "(s mod 3600) sdiv 60 = (s mod 3600) div 60" "s smod 60 = s mod 60"
    using assms by (simp_all add: sdiv_nonneg smod_nonneg)
  have m: "s mod 60 = s mod 3600 mod 60" by (simp add: mod_mod_cancel)
  obtain h r where h: "s div 3600 = h" "s mod 3600 = r" "s = h * 3600 + r" by (metis div_mult_mod_eq)
  obtain a b where b: "r div 60 = a" "r mod 60 = b" "r = a * 60 + b" by (metis div_mult_mod_eq)
  have "0 \<le> r" "r < 3600" "0 \<le> b" "b < 60" using h(2) b(2) by (auto simp: pos_mod_bound)
  moreover have "seconds_to_time s = \<lparr>hours = h, minutes = a, seconds = b\<rparr>"
    using \<open>0 \<le> r\<close> by (simp add: seconds_to_time_def e m h(1,2) b(1,2) sdiv_nonneg)
  ultimately show ?thesis using assms h(3) b(3) by auto
qed

end
