(* ===== verification/Filters.thy ===== *)
theory Filters
  imports Zlibs_Prelude "HOL-Library.Signed_Division" "HOL-Library.Multiset"
begin

text \<open>
  The signal filters of \<open>filters/filters.h\<close> and \<open>filters.cpp\<close>: moving average, median, the analog
  filter that combines them over an array of channels, and the debouncer. The conversion to the
  sample type \<open>T\<close> is an argument of the moving average. The standard \<open>qsort\<close> is the library's
  \<open>sort\<close>; \<open>k_uptime_get\<close>, of the operating system, is a time in milliseconds passed to the
  operation, once for each of its calls.
\<close>

section \<open>Moving average\<close>

definition PERCENTAGE_SCALE :: int where [simp]: "PERCENTAGE_SCALE = 100"

record ema_filter =
  current_value :: int

definition ema_new :: "int \<Rightarrow> ema_filter" where
  "ema_new val = \<lparr>current_value = val\<rparr>"

definition ema_value :: "(int \<Rightarrow> int) \<Rightarrow> int \<Rightarrow> int \<Rightarrow> ema_filter \<Rightarrow> int \<times> ema_filter" where
  "ema_value static_cast raw percentage f =
     (if percentage > PERCENTAGE_SCALE
      then let f = f\<lparr>current_value := raw\<rparr> in (current_value f, f)
      else let f = f\<lparr>current_value :=
               static_cast ((percentage * raw + (PERCENTAGE_SCALE - percentage) * current_value f) sdiv PERCENTAGE_SCALE)\<rparr>
           in (current_value f, f))"

definition ema_current :: "ema_filter \<Rightarrow> int" where
  "ema_current f = current_value f"

definition ema_reset :: "ema_filter \<Rightarrow> ema_filter" where
  "ema_reset f = f\<lparr>current_value := 0\<rparr>"

definition ema_reset_to :: "int \<Rightarrow> ema_filter \<Rightarrow> ema_filter" where
  "ema_reset_to val f = f\<lparr>current_value := val\<rparr>"

section \<open>Median\<close>

record 'v median_filter =
  analog_sample :: "'v list"
  last_stable_value :: 'v
  median_sample_counter :: nat

definition MEDIAN_MIDDLE_VALUE :: "nat \<Rightarrow> nat" where
  "MEDIAN_MIDDLE_VALUE Size = (Size + 1) div 2 - 1"

definition median_new :: "nat \<Rightarrow> ('v :: {linorder, zero}) median_filter" where
  "median_new Size = \<lparr>analog_sample = replicate Size 0, last_stable_value = 0, median_sample_counter = 0\<rparr>"

definition median_compare :: "('v :: linorder) \<Rightarrow> 'v \<Rightarrow> int" where
  "median_compare a b = (if a < b then - 1 else if a > b then 1 else 0)"

definition median_filter_value :: "nat \<Rightarrow> ('v :: linorder) \<Rightarrow> 'v median_filter \<Rightarrow> 'v option \<times> 'v median_filter" where
  "median_filter_value Size raw f =
     (let f = f\<lparr>analog_sample := (analog_sample f)[median_sample_counter f := raw],
                median_sample_counter := median_sample_counter f + 1\<rparr>
      in if median_sample_counter f = Size
         then let f = f\<lparr>analog_sample := sort (analog_sample f), median_sample_counter := 0\<rparr>;
                  f = f\<lparr>last_stable_value := analog_sample f ! MEDIAN_MIDDLE_VALUE Size\<rparr>
              in (Some (last_stable_value f), f)
         else (None, f))"

definition median_value :: "'v median_filter \<Rightarrow> 'v" where
  "median_value f = last_stable_value f"

definition median_reset :: "('v :: zero) median_filter \<Rightarrow> 'v median_filter" where
  "median_reset f = f\<lparr>median_sample_counter := 0, last_stable_value := 0\<rparr>"

section \<open>Analog filter\<close>

record filter_config =
  MIN_RAW_READING_DIFF_SLOW :: u16
  K_MIN_RAW_READING_DIFF_FAST :: u16
  SLOW_FILTER_ENABLE_AFTER_INACTIVE_MS :: u32
  MEDIAN_FILTER_NUMBER_OF_READINGS :: nat
  EMA_FILTER_SMOOTHING_PERCENTAGE :: u16
  ENABLED :: bool

record analog_filter =
  ema_filters :: "ema_filter list"
  median_filters :: "u16 median_filter list"
  last_stable_raw_value :: "u16 list"
  last_stable_filtered_value :: "u16 list"
  last_stable_movement_time :: "u32 list"
  last_stable_direction :: "bool list"

definition channels :: "analog_filter \<Rightarrow> nat" where
  "channels s = length (last_stable_filtered_value s)"

text \<open>An index out of range is an assertion or an exception of \<open>at\<close>: the operation is \<open>None\<close>.\<close>

definition analog_reset :: "nat \<Rightarrow> analog_filter \<Rightarrow> analog_filter option" where
  "analog_reset i s =
     (if i < channels s
      then Some \<lparr>ema_filters = (ema_filters s)[i := ema_reset (ema_filters s ! i)],
                 median_filters = (median_filters s)[i := median_reset (median_filters s ! i)],
                 last_stable_raw_value = (last_stable_raw_value s)[i := 0],
                 last_stable_filtered_value = (last_stable_filtered_value s)[i := 0],
                 last_stable_movement_time = (last_stable_movement_time s)[i := 0],
                 last_stable_direction = (last_stable_direction s)[i := False]\<rparr>
      else None)"

definition analog_blank :: "filter_config \<Rightarrow> nat \<Rightarrow> analog_filter" where
  "analog_blank C Size =
     \<lparr>ema_filters = replicate Size (ema_new 0), median_filters = replicate Size (median_new (MEDIAN_FILTER_NUMBER_OF_READINGS C)),
      last_stable_raw_value = replicate Size 0, last_stable_filtered_value = replicate Size 0,
      last_stable_movement_time = replicate Size 0, last_stable_direction = replicate Size False\<rparr>"

definition analog_new :: "filter_config \<Rightarrow> nat \<Rightarrow> analog_filter" where
  "analog_new C Size = foldl (\<lambda>s i. the (analog_reset i s)) (analog_blank C Size) [0 ..< Size]"

definition slow_filter :: "filter_config \<Rightarrow> int \<Rightarrow> bool \<Rightarrow> nat \<Rightarrow> analog_filter \<Rightarrow> bool" where
  "slow_filter C now direction i s \<longleftrightarrow>
     now - uint (last_stable_movement_time s ! i) > uint (SLOW_FILTER_ENABLE_AFTER_INACTIVE_MS C) \<or>
     direction \<noteq> last_stable_direction s ! i"

definition analog_filter_value ::
    "filter_config \<Rightarrow> int \<Rightarrow> int \<Rightarrow> nat \<Rightarrow> u16 \<Rightarrow> analog_filter \<Rightarrow> (u16 option \<times> analog_filter) option" where
  "analog_filter_value C now now' i raw_value s =
     (if \<not> i < channels s then None
      else if \<not> ENABLED C then Some (Some raw_value, s)
      else let direction = (raw_value \<ge> last_stable_raw_value s ! i);
               min_reading_diff = (if slow_filter C now direction i s then MIN_RAW_READING_DIFF_SLOW C
                                   else K_MIN_RAW_READING_DIFF_FAST C);
               diff = \<bar>uint raw_value - uint (last_stable_raw_value s ! i)\<bar>
      in if diff < uint min_reading_diff then Some (None, s)
         else case median_filter_value (MEDIAN_FILTER_NUMBER_OF_READINGS C) raw_value (median_filters s ! i) of
           (median, m) \<Rightarrow>
             let s = s\<lparr>median_filters := (median_filters s)[i := m]\<rparr> in
             (case median of
                None \<Rightarrow> Some (None, s)
              | Some median \<Rightarrow>
                  (case ema_value (take_bit 16) (uint median) (uint (EMA_FILTER_SMOOTHING_PERCENTAGE C)) (ema_filters s ! i) of
                     (ema, e) \<Rightarrow>
                       let s = s\<lparr>ema_filters := (ema_filters s)[i := e]\<rparr>; ema = word_of_int ema
                       in if last_stable_filtered_value s ! i \<noteq> ema
                          then Some (Some ema,
                                 s\<lparr>last_stable_raw_value := (last_stable_raw_value s)[i := raw_value],
                                   last_stable_filtered_value := (last_stable_filtered_value s)[i := ema],
                                   last_stable_movement_time := (last_stable_movement_time s)[i := word_of_int now'],
                                   last_stable_direction := (last_stable_direction s)[i := direction]\<rparr>)
                          else Some (None, s))))"

definition analog_value :: "nat \<Rightarrow> analog_filter \<Rightarrow> u16 option" where
  "analog_value i s = (if i < channels s then Some (last_stable_filtered_value s ! i) else None)"

section \<open>Debounce\<close>

text \<open>
  The delayed work item is the time at which it is due; \<open>reschedule\<close> replaces a pending one and
  \<open>debounce_work\<close> is the callback that the work queue makes when it is due.
\<close>

record debounce =
  debounce_time_ms :: u32
  stable_state :: bool
  new_state :: bool
  work_due :: "int option"

definition debounce_new :: "u32 \<Rightarrow> debounce" where
  "debounce_new ms = \<lparr>debounce_time_ms = ms, stable_state = False, new_state = False, work_due = None\<rparr>"

definition debounce_update :: "int \<Rightarrow> bool \<Rightarrow> debounce \<Rightarrow> debounce" where
  "debounce_update now state s =
     (if state \<noteq> new_state s
      then let s = s\<lparr>new_state := state\<rparr>
           in if debounce_time_ms s \<noteq> 0 then s\<lparr>work_due := Some (now + uint (debounce_time_ms s))\<rparr>
              else s\<lparr>stable_state := state\<rparr>
      else s)"

definition debounce_work :: "debounce \<Rightarrow> debounce" where
  "debounce_work s = s\<lparr>stable_state := new_state s, work_due := None\<rparr>"

definition debounce_state :: "debounce \<Rightarrow> bool" where
  "debounce_state s = stable_state s"

definition set_debounce_time_ms :: "u32 \<Rightarrow> debounce \<Rightarrow> debounce" where
  "set_debounce_time_ms ms s = s\<lparr>debounce_time_ms := ms\<rparr>"

end
