(* ===== verification/Filters_Properties.thy ===== *)
theory Filters_Properties
  imports Filters
begin

text \<open>
  What the filters promise: where a moving average settles, that the median filter gives the
  median of each window, and that the analog filter reports changes only.
\<close>

section \<open>Moving average\<close>

text \<open>One step with values that are not negative, a percentage in range, and no narrowing.\<close>

definition ema_next :: "int \<Rightarrow> int \<Rightarrow> int \<Rightarrow> int" where
  "ema_next p raw v = (p * raw + (100 - p) * v) div 100"

lemma ema_next_shift: "ema_next p raw v = v + p * (raw - v) div 100"
proof -
  have "p * raw + (100 - p) * v = p * (raw - v) + v * 100" by (simp add: algebra_simps)
  then show ?thesis by (simp add: ema_next_def)
qed

lemma ema_value_next:
  assumes "0 \<le> raw" "0 \<le> p" "p \<le> 100" "0 \<le> v" "static_cast (ema_next p raw v) = ema_next p raw v"
  shows "ema_value static_cast raw p \<lparr>current_value = v\<rparr> = (ema_next p raw v, \<lparr>current_value = ema_next p raw v\<rparr>)"
proof -
  have "0 \<le> p * raw + (100 - p) * v" using assms by simp
  then have "(p * raw + (100 - p) * v) sdiv 100 = ema_next p raw v"
    by (cases "p * raw + (100 - p) * v = 0") (simp_all add: signed_divide_int_def ema_next_def)
  then show ?thesis using assms by (simp add: ema_value_def Let_def)
qed

lemma ema_next_up:
  assumes "v \<le> raw" "0 < p" "p \<le> 100"
  shows "v \<le> ema_next p raw v" "ema_next p raw v \<le> raw" "ema_next p raw v = v \<longleftrightarrow> p * (raw - v) < 100"
proof -
  let ?d = "p * (raw - v)"
  have d: "0 \<le> ?d" "?d \<le> 100 * (raw - v)" using assms mult_right_mono [of p 100 "raw - v"] by simp_all
  have "?d div 100 \<le> raw - v" using d(2) zdiv_mono1 [OF d(2), of 100] by simp
  then show "ema_next p raw v \<le> raw" by (simp add: ema_next_shift)
  show "v \<le> ema_next p raw v" using d(1) by (simp add: ema_next_shift pos_imp_zdiv_nonneg_iff)
  have "?d div 100 = 0 \<longleftrightarrow> ?d < 100" using d(1) by (auto simp: div_pos_pos_trivial zdiv_eq_0_iff)
  then show "ema_next p raw v = v \<longleftrightarrow> p * (raw - v) < 100" by (simp add: ema_next_shift)
qed

lemma ema_next_down:
  assumes "raw < v" "0 < p" "p \<le> 100"
  shows "raw \<le> ema_next p raw v" "ema_next p raw v < v"
proof -
  let ?d = "p * (raw - v)"
  have d: "?d < 0" "100 * (raw - v) \<le> ?d" using assms mult_right_mono_neg [of p 100 "raw - v"] by (simp_all add: mult_pos_neg)
  have "(raw - v) \<le> ?d div 100" using zdiv_mono1 [OF d(2), of 100] by simp
  then show "raw \<le> ema_next p raw v" by (simp add: ema_next_shift)
  have "?d div 100 < 0" using d(1) by (simp add: pos_imp_zdiv_neg_iff)
  then show "ema_next p raw v < v" by (simp add: ema_next_shift)
qed

text \<open>The value after \<open>n\<close> equal samples.\<close>

definition ema_run :: "(int \<Rightarrow> int) \<Rightarrow> int \<Rightarrow> int \<Rightarrow> nat \<Rightarrow> ema_filter \<Rightarrow> ema_filter" where
  "ema_run static_cast raw p n f = ((\<lambda>f. snd (ema_value static_cast raw p f)) ^^ n) f"

lemma ema_run_0 [simp]: "ema_run static_cast raw p 0 f = f"
  by (simp add: ema_run_def)

lemma ema_run_Suc: "ema_run static_cast raw p (Suc n) f = ema_run static_cast raw p n (snd (ema_value static_cast raw p f))"
  by (simp add: ema_run_def funpow_Suc_right del: funpow.simps)

lemma ema_run_up:
  assumes "0 \<le> v" "v \<le> raw" "0 < p" "p \<le> 100" "\<And>x. 0 \<le> x \<Longrightarrow> x \<le> raw \<Longrightarrow> static_cast x = x" "nat (raw - v) \<le> n"
  shows "\<exists>w. ema_run static_cast raw p n \<lparr>current_value = v\<rparr> = \<lparr>current_value = w\<rparr> \<and> v \<le> w \<and> w \<le> raw \<and> p * (raw - w) < 100"
  using assms(1,2,6)
proof (induction n arbitrary: v)
  case 0
  then show ?case by simp
next
  case (Suc n)
  let ?w = "ema_next p raw v"
  note up = ema_next_up [OF Suc.prems(2) assms(3,4)]
  have step: "snd (ema_value static_cast raw p \<lparr>current_value = v\<rparr>) = \<lparr>current_value = ?w\<rparr>"
    using ema_value_next [of raw p v static_cast] Suc.prems up assms(3-5) by simp
  show ?case
  proof (cases "?w = v")
    case True
    have "ema_run static_cast raw p m \<lparr>current_value = v\<rparr> = \<lparr>current_value = v\<rparr>" for m
      using step True by (induction m) (simp_all add: ema_run_Suc)
    then show ?thesis using True up(3) Suc.prems by auto
  next
    case False
    then have "nat (raw - ?w) \<le> n" "0 \<le> ?w" using up Suc.prems by auto
    from Suc.IH [OF this(2) up(2) this(1)] show ?thesis using step up(1) by (auto simp: ema_run_Suc)
  qed
qed

lemma ema_fix: "0 \<le> raw \<Longrightarrow> 0 < p \<Longrightarrow> p \<le> 100 \<Longrightarrow> static_cast raw = raw \<Longrightarrow>
  snd (ema_value static_cast raw p \<lparr>current_value = raw\<rparr>) = \<lparr>current_value = raw\<rparr>"
  using ema_value_next [of raw p raw static_cast] by (simp add: ema_next_shift)

lemma ema_run_down:
  assumes "0 \<le> raw" "raw \<le> v" "v \<le> M" "0 < p" "p \<le> 100" "\<And>x. 0 \<le> x \<Longrightarrow> x \<le> M \<Longrightarrow> static_cast x = x" "nat (v - raw) \<le> n"
  shows "ema_run static_cast raw p n \<lparr>current_value = v\<rparr> = \<lparr>current_value = raw\<rparr>"
  using assms(2,3,7)
proof (induction n arbitrary: v)
  case (Suc n)
  show ?case
  proof (cases "v = raw")
    case True
    then have "snd (ema_value static_cast raw p \<lparr>current_value = v\<rparr>) = \<lparr>current_value = raw\<rparr>"
      using ema_fix [of raw p static_cast] assms(1,4,5,6) Suc.prems by simp
    then show ?thesis using Suc.IH [of raw] True Suc.prems by (simp add: ema_run_Suc)
  next
    case False
    let ?w = "ema_next p raw v"
    have down: "raw \<le> ?w" "?w < v" using ema_next_down [OF _ assms(4,5), of raw v] False Suc.prems by simp_all
    then have "snd (ema_value static_cast raw p \<lparr>current_value = v\<rparr>) = \<lparr>current_value = ?w\<rparr>"
      using ema_value_next [of raw p v static_cast] assms(1,4,5,6) Suc.prems by simp
    moreover have "nat (?w - raw) \<le> n" "?w \<le> M" using down Suc.prems by auto
    ultimately show ?thesis using Suc.IH [OF down(1)] by (simp add: ema_run_Suc)
  qed
qed simp

text \<open>Fed one value, the moving average moves towards it and never past it. After at most as many samples as the distance it
  stands still: exactly on the value when it comes from above, and from below less than 100 divided by the percentage short of it.\<close>

theorem ema_settles:
  assumes "0 \<le> raw" "0 \<le> v" "0 < p" "p \<le> 100" "\<And>x. 0 \<le> x \<Longrightarrow> x \<le> max raw v \<Longrightarrow> static_cast x = x" "nat \<bar>raw - v\<bar> \<le> n"
  shows "\<exists>w. ema_run static_cast raw p n (ema_new v) = \<lparr>current_value = w\<rparr> \<and>
    ema_value static_cast raw p \<lparr>current_value = w\<rparr> = (w, \<lparr>current_value = w\<rparr>) \<and>
    (if raw \<le> v then w = raw else v \<le> w \<and> w \<le> raw \<and> p * (raw - w) < 100)"
proof (cases "raw \<le> v")
  case True
  then have "ema_run static_cast raw p n \<lparr>current_value = v\<rparr> = \<lparr>current_value = raw\<rparr>"
    using ema_run_down [of raw v v p static_cast n] assms by simp
  moreover have "ema_value static_cast raw p \<lparr>current_value = raw\<rparr> = (raw, \<lparr>current_value = raw\<rparr>)"
    using ema_value_next [of raw p raw static_cast] assms by (simp add: ema_next_shift)
  ultimately show ?thesis using True by (simp add: ema_new_def)
next
  case False
  then obtain w where w: "ema_run static_cast raw p n \<lparr>current_value = v\<rparr> = \<lparr>current_value = w\<rparr>" "v \<le> w" "w \<le> raw" "p * (raw - w) < 100"
    using ema_run_up [of v raw p static_cast n] assms by auto
  then have "ema_next p raw w = w" using ema_next_up(3) [of w raw p] assms(3,4) by simp
  then have "ema_value static_cast raw p \<lparr>current_value = w\<rparr> = (w, \<lparr>current_value = w\<rparr>)"
    using ema_value_next [of raw p w static_cast] assms w by simp
  then show ?thesis using False w by (auto simp: ema_new_def)
qed

text \<open>A 16-bit average at 50 per cent, from 0 towards 1023.\<close>

theorem ema_settles_witness:
  "\<exists>w. ema_run (take_bit 16) 1023 50 1023 (ema_new 0) = \<lparr>current_value = w\<rparr> \<and>
    ema_value (take_bit 16) 1023 50 \<lparr>current_value = w\<rparr> = (w, \<lparr>current_value = w\<rparr>) \<and>
    (if (1023 :: int) \<le> 0 then w = 1023 else 0 \<le> w \<and> w \<le> 1023 \<and> 50 * (1023 - w) < 100)"
  by (rule ema_settles) (simp_all add: take_bit_int_eq_self)

section \<open>Median\<close>

fun median_run :: "nat \<Rightarrow> ('v :: linorder) list \<Rightarrow> 'v median_filter \<Rightarrow> 'v option list \<times> 'v median_filter" where
  "median_run Size [] f = ([], f)"
| "median_run Size (x # xs) f =
     (case median_filter_value Size x f of (r, f) \<Rightarrow> case median_run Size xs f of (rs, f) \<Rightarrow> (r # rs, f))"

definition is_median :: "('v :: linorder) \<Rightarrow> 'v list \<Rightarrow> bool" where
  "is_median m w \<longleftrightarrow> m \<in> set w \<and> length (filter (\<lambda>x. x < m) w) \<le> length w div 2 \<and> length (filter (\<lambda>x. m < x) w) \<le> length w div 2"

lemma sorted_middle:
  assumes "sorted ys" "k < length ys"
  shows "length (filter (\<lambda>x. x < ys ! k) ys) \<le> k" "length (filter (\<lambda>x. ys ! k < x) ys) \<le> length ys - Suc k"
proof -
  have split: "filter P ys = filter P (take k ys) @ filter P (drop k ys)" "filter P ys = filter P (take (Suc k) ys) @ filter P (drop (Suc k) ys)" for P
    by (metis append_take_drop_id filter_append)+
  have "filter (\<lambda>x. x < ys ! k) (drop k ys) = []"
    using assms by (auto simp: filter_empty_conv in_set_conv_nth not_less intro!: sorted_nth_mono)
  then have "filter (\<lambda>x. x < ys ! k) ys = filter (\<lambda>x. x < ys ! k) (take k ys)" using split(1) by simp
  then show "length (filter (\<lambda>x. x < ys ! k) ys) \<le> k"
    by (metis length_filter_le length_take min.bounded_iff)
  have "filter (\<lambda>x. ys ! k < x) (take (Suc k) ys) = []"
    using assms by (auto simp: filter_empty_conv in_set_conv_nth not_less intro!: sorted_nth_mono)
  then have "filter (\<lambda>x. ys ! k < x) ys = filter (\<lambda>x. ys ! k < x) (drop (Suc k) ys)" using split(2) by simp
  then show "length (filter (\<lambda>x. ys ! k < x) ys) \<le> length ys - Suc k"
    by (metis length_filter_le length_drop)
qed

lemma sort_middle_median:
  assumes "odd (length w)"
  shows "is_median (sort w ! MEDIAN_MIDDLE_VALUE (length w)) w"
proof -
  obtain h where h: "length w = 2 * h + 1" using assms by (auto elim: oddE)
  then have k: "MEDIAN_MIDDLE_VALUE (length w) = h" "h < length (sort w)" "length w div 2 = h" by (simp_all add: MEDIAN_MIDDLE_VALUE_def)
  have f: "length (filter P w) = length (filter P (sort w))" for P
    by (metis mset_filter mset_sort size_mset)
  have "sort w ! h \<in> set w" using k(2) nth_mem [of h "sort w"] by simp
  then show ?thesis
    using sorted_middle [OF sorted_sort [of w] k(2)] h unfolding is_median_def k(1,3) f by simp
qed

text \<open>Between two medians the samples of the window so far stand at the front of the array.\<close>

definition median_ok :: "nat \<Rightarrow> 'v list \<Rightarrow> 'v median_filter \<Rightarrow> bool" where
  "median_ok Size window f \<longleftrightarrow>
     length (analog_sample f) = Size \<and> median_sample_counter f = length window \<and> length window < Size \<and>
     take (length window) (analog_sample f) = window"

lemma median_step:
  assumes "median_ok Size w f" "odd Size"
  shows "if Suc (length w) = Size
    then \<exists>m. median_filter_value Size x f = (Some m, snd (median_filter_value Size x f)) \<and>
           is_median m (w @ [x]) \<and> median_ok Size [] (snd (median_filter_value Size x f)) \<and>
           median_value (snd (median_filter_value Size x f)) = m
    else fst (median_filter_value Size x f) = None \<and> median_ok Size (w @ [x]) (snd (median_filter_value Size x f)) \<and>
           median_value (snd (median_filter_value Size x f)) = median_value f"
proof -
  let ?a = "(analog_sample f)[length w := x]"
  have ok: "length (analog_sample f) = Size" "median_sample_counter f = length w" "length w < Size" "take (length w) (analog_sample f) = w"
    using assms(1) by (simp_all add: median_ok_def)
  have t: "take (Suc (length w)) ?a = w @ [x]" using ok by (simp add: take_Suc_conv_app_nth)
  show ?thesis
  proof (cases "Suc (length w) = Size")
    case True
    then have a: "?a = w @ [x]" using t ok(1) by simp
    have "odd (length (w @ [x]))" using True assms(2) by simp
    from sort_middle_median [OF this] have "is_median (sort ?a ! MEDIAN_MIDDLE_VALUE Size) (w @ [x])" using True a by simp
    then show ?thesis using True ok by (simp add: median_filter_value_def median_ok_def median_value_def Let_def)
  next
    case False
    then show ?thesis using ok t by (simp add: median_filter_value_def median_ok_def median_value_def Let_def)
  qed
qed

text \<open>The medians of the complete windows of a stream that continues a window.\<close>

lemma median_run_outputs:
  assumes "odd Size" "median_ok Size w f" "i < length xs"
  shows "case fst (median_run Size xs f) ! i of
      None \<Rightarrow> (length w + Suc i) mod Size \<noteq> 0
    | Some m \<Rightarrow> (length w + Suc i) mod Size = 0 \<and> is_median m (slice (length w + Suc i - Size) Size (w @ xs))"
  using assms(2,3)
proof (induction xs arbitrary: w f i)
  case (Cons x xs)
  obtain r g where g: "median_filter_value Size x f = (r, g)" by fastforce
  have lw: "length w < Size" using Cons.prems(1) by (simp add: median_ok_def)
  note st = median_step [OF Cons.prems(1) assms(1), of x, unfolded g, simplified]
  have out: "fst (median_run Size (x # xs) f) ! i = (case i of 0 \<Rightarrow> r | Suc j \<Rightarrow> fst (median_run Size xs g) ! j)"
    using g by (cases i) (simp_all add: case_prod_unfold)
  show ?case
  proof (cases "Suc (length w) = Size")
    case True
    then obtain m where m: "r = Some m" "is_median m (w @ [x])" "median_ok Size [] g" using st by auto
    show ?thesis
    proof (cases i)
      case 0
      have "slice 0 Size (w @ x # xs) = w @ [x]" by (simp add: slice_def True [symmetric])
      then show ?thesis using 0 out m True by simp
    next
      case (Suc j)
      have e: "length w + Suc i = Suc j + Size" "(Suc j + Size) mod Size = Suc j mod Size" using Suc True mod_add_self2 [of "Suc j" Size] by (simp_all only:)
      have s: "slice (Suc j) Size (w @ x # xs) = slice (Suc j - Size) Size xs" if "Suc j mod Size = 0"
      proof -
        have "Size \<le> Suc j" using that by (auto dest: dvd_imp_le simp: mod_eq_0_iff_dvd)
        then show ?thesis using True [symmetric] by (simp add: slice_def Suc_diff_le)
      qed
      have "case fst (median_run Size xs g) ! j of None \<Rightarrow> Suc j mod Size \<noteq> 0
          | Some m \<Rightarrow> Suc j mod Size = 0 \<and> is_median m (slice (Suc j - Size) Size xs)"
        using Cons.IH [OF m(3), of j] Cons.prems(2) Suc by (simp cong: option.case_cong)
      moreover have "fst (median_run Size (x # xs) f) ! i = fst (median_run Size xs g) ! j" using out Suc by simp
      ultimately show ?thesis unfolding e add_diff_cancel_right' using s by (simp split: option.splits)
    qed
  next
    case False
    then have m: "r = None" "median_ok Size (w @ [x]) g" using st by auto
    show ?thesis
    proof (cases i)
      case 0
      then show ?thesis using out m lw False by simp
    next
      case (Suc j)
      then show ?thesis using Cons.IH [OF m(2), of j] Cons.prems(2) out by (simp split: option.splits)
    qed
  qed
qed simp

text \<open>C34. Over any stream of samples the median filter answers at every \<open>Size\<close>-th sample and at no other, and the answer is a
  median of the last \<open>Size\<close> samples: one of them, with no more than half of them below it and no more than half above.\<close>

theorem median_of_each_window:
  fixes xs :: "('v :: {linorder, zero}) list"
  assumes "odd Size" "i < length xs"
  shows "case fst (median_run Size xs (median_new Size)) ! i of
      None \<Rightarrow> Suc i mod Size \<noteq> 0
    | Some m \<Rightarrow> Suc i mod Size = 0 \<and> is_median m (slice (Suc i - Size) Size xs)"
proof -
  have "median_ok Size [] (median_new Size :: 'v median_filter)"
    using assms(1) by (auto simp: median_ok_def median_new_def intro: odd_pos)
  from median_run_outputs [OF assms(1) this assms(2)] show ?thesis by (simp cong: option.case_cong)
qed

theorem median_of_each_window_witness:
  "case fst (median_run 3 [5, 100, 7, 1] (median_new 3)) ! 2 of
      None \<Rightarrow> Suc 2 mod 3 \<noteq> (0 :: nat)
    | Some m \<Rightarrow> Suc 2 mod 3 = (0 :: nat) \<and> is_median m (slice (Suc 2 - 3) 3 [5 :: int, 100, 7, 1])"
  by (rule median_of_each_window) simp_all

end
