(* ===== verification/Filters_Analog.thy ===== *)
theory Filters_Analog
  imports Filters_Properties
begin

text \<open>
  The analog filter over sessions of samples on all of its channels, and the age of the last
  movement after a long uptime.
\<close>

section \<open>Invariant\<close>






lemma replicate_update [simp]: "i < n \<Longrightarrow> (replicate n x)[i := x] = replicate n x"
  by (metis list_update_id nth_replicate)



section \<open>Sessions\<close>



definition reports :: "nat \<Rightarrow> (nat \<times> u16) list \<Rightarrow> u16 list" where
  "reports i rs = map snd (filter (\<lambda>r. fst r = i) rs)"

lemma reports_simps [simp]: "reports i [] = []" "reports i ((j, v) # rs) = (if j = i then v # reports i rs else reports i rs)"
  by (simp_all add: reports_def)


section \<open>Properties\<close>



text \<open>Once the uptime has passed 2 to the 32nd milliseconds (49.7 days) and the inactivity time, every sample is judged by the slow
  threshold, however recent the last movement: its time is kept in 32 bits and compared with the 64-bit uptime.\<close>

theorem analog_slow_after_uptime_wrap:
  assumes "i < channels s" "ENABLED C" "2 ^ 32 + uint (SLOW_FILTER_ENABLE_AFTER_INACTIVE_MS C) \<le> now"
    "\<bar>uint raw - uint (last_stable_raw_value s ! i)\<bar> < uint (MIN_RAW_READING_DIFF_SLOW C)"
  shows "analog_filter_value C now now' i raw s = Some (None, s)"
proof -
  have "uint (last_stable_movement_time s ! i) < 2 ^ 32" using uint_lt2p [of "last_stable_movement_time s ! i"] by simp
  then have "slow_filter C now d i s" for d using assms(3) by (simp add: slow_filter_def)
  then show ?thesis using assms by (simp add: analog_filter_value_def Let_def)
qed

text \<open>A movement one millisecond ago, and a sample five above it with a fast threshold of three.\<close>

theorem analog_slow_after_uptime_wrap_witness:
  "analog_filter_value \<lparr>MIN_RAW_READING_DIFF_SLOW = 10, K_MIN_RAW_READING_DIFF_FAST = 3, SLOW_FILTER_ENABLE_AFTER_INACTIVE_MS = 1000,
      MEDIAN_FILTER_NUMBER_OF_READINGS = 1, EMA_FILTER_SMOOTHING_PERCENTAGE = 100, ENABLED = True\<rparr> 5000000001 5000000001 0 25
    \<lparr>ema_filters = [ema_new 20], median_filters = [median_new 1], last_stable_raw_value = [20], last_stable_filtered_value = [20],
     last_stable_movement_time = [word_of_int 5000000000], last_stable_direction = [True]\<rparr> =
   Some (None, \<lparr>ema_filters = [ema_new 20], median_filters = [median_new 1], last_stable_raw_value = [20], last_stable_filtered_value = [20],
     last_stable_movement_time = [word_of_int 5000000000], last_stable_direction = [True]\<rparr>)"
  by (rule analog_slow_after_uptime_wrap) (simp_all add: channels_def)

section \<open>Debouncer\<close>

text \<open>The stable state trails the new state only while work is pending.\<close>

definition debounce_ok :: "debounce \<Rightarrow> bool" where
  "debounce_ok s \<longleftrightarrow> work_due s = None \<longrightarrow> stable_state s = new_state s"

lemma debounce_ok_new: "debounce_ok (debounce_new ms)"
  by (simp add: debounce_ok_def debounce_new_def)

lemma debounce_ok_work: "debounce_ok (debounce_work s)"
  by (simp add: debounce_ok_def debounce_work_def)

lemma debounce_ok_update: "debounce_ok s \<Longrightarrow> debounce_ok (debounce_update now b s)"
  by (simp add: debounce_ok_def debounce_update_def Let_def)

lemma debounce_ok_set_time: "debounce_ok s \<Longrightarrow> debounce_ok (set_debounce_time_ms ms s)"
  by (simp add: debounce_ok_def set_debounce_time_ms_def)

end
