(* ===== verification/Motor_Control.thy ===== *)
theory Motor_Control
  imports Complex_Main Zlibs_Prelude
begin

text \<open>
  The stepper motor driver of \<open>motor_control\<close>: \<open>motor.cpp\<close>, \<open>motor_control.cpp\<close>, their headers and
  \<open>round_to_nearest\<close> of \<open>misc/numeric.h\<close>. The hardware interface \<open>Hwa\<close>, with the uptime of the
  operating system, is a record of functions over a state of their own; the acceleration curve
  (\<open>std::exp\<close> and \<open>float\<close> arithmetic) is the argument \<open>curve\<close>, and the \<open>float\<close> intervals of the
  configuration are rational numbers that are only compared. Each member function and each timer or
  work queue callback is one step here; \<open>Motor_Control_Access\<close> has the calls access by access.
\<close>

section \<open>Types\<close>

datatype direction = Cw | Ccw

datatype motor_state = StStopped | StMoving | StStopping

datatype run_state = Stopped | Accelerating | Running | Decelerating

record movement =
  mv_direction :: direction
  mv_speed :: u32
  mv_pulses :: u32
  mv_max_run_time :: u32

definition empty_movement :: movement where
  "empty_movement = \<lparr>mv_direction = Cw, mv_speed = 0, mv_pulses = 0, mv_max_run_time = 0\<rparr>"

record motor_config =
  k_curve :: rat
  start_interval_us :: rat
  end_interval_us :: rat
  use_step_toggle :: bool

record 'h motor_hwa =
  hw_init :: "'h \<Rightarrow> bool \<times> 'h"
  hw_enable :: "'h \<Rightarrow> bool \<times> 'h"
  hw_disable :: "'h \<Rightarrow> bool \<times> 'h"
  hw_write_step :: "bool \<Rightarrow> 'h \<Rightarrow> bool \<times> 'h"
  hw_toggle_step :: "'h \<Rightarrow> bool \<times> 'h"
  hw_set_direction :: "direction \<Rightarrow> 'h \<Rightarrow> bool \<times> 'h"
  uptime :: "'h \<Rightarrow> int"
  curve :: "motor_config \<Rightarrow> u32 \<Rightarrow> nat \<Rightarrow> u32"

definition TIMER_INTERVAL_US :: u32 where
  "TIMER_INTERVAL_US = 100"

definition MAX_ACC_STEPS :: nat where
  "MAX_ACC_STEPS = 128"

record 'h motor =
  hwa :: 'h
  config :: motor_config
  run_state :: run_state
  timer_interval_us :: int
  acceleration_counter :: int
  movement_pulses_sent :: u32
  movement :: movement
  init_cb :: "(movement \<Rightarrow> 'h \<Rightarrow> bool \<times> 'h) option"
  stop_cb :: "('h \<Rightarrow> 'h) option"
  stop_requested :: bool
  pulses_before_deceleration :: u32
  accel_lookup_table :: "u16 list"
  timer_counter :: int
  run_start_time :: u32
  reset_scheduled :: bool

definition motor_new :: "'h \<Rightarrow> motor_config \<Rightarrow> 'h motor" where
  "motor_new h cfg =
     \<lparr>hwa = h, config = cfg, run_state = Stopped, timer_interval_us = 0, acceleration_counter = 0, movement_pulses_sent = 0,
      movement = empty_movement, init_cb = None, stop_cb = None, stop_requested = False, pulses_before_deceleration = 0,
      accel_lookup_table = replicate MAX_ACC_STEPS 0, timer_counter = 0, run_start_time = 0, reset_scheduled = False\<rparr>"

definition call_hwa :: "('h \<Rightarrow> bool \<times> 'h) \<Rightarrow> 'h motor \<Rightarrow> bool \<times> 'h motor" where
  "call_hwa f s = (case f (hwa s) of (ok, h) \<Rightarrow> (ok, s\<lparr>hwa := h\<rparr>))"

section \<open>Set-up\<close>

definition motor_init :: "'h motor_hwa \<Rightarrow> 'h motor \<Rightarrow> bool \<times> 'h motor" where
  "motor_init E s =
     and_then (call_hwa (hw_init E) s) (\<lambda>s.
       (True, s\<lparr>run_state := Stopped, timer_interval_us := 0, acceleration_counter := 0, movement_pulses_sent := 0,
                movement := empty_movement, stop_requested := False, pulses_before_deceleration := 0, timer_counter := 0,
                run_start_time := 0, init_cb := None, stop_cb := None\<rparr>))"

definition movement_state :: "'h motor \<Rightarrow> motor_state" where
  "movement_state s =
     (if stop_requested s then StStopping
      else if run_state s \<noteq> Stopped then StMoving else StStopped)"

definition register_init_callback :: "(movement \<Rightarrow> 'h \<Rightarrow> bool \<times> 'h) option \<Rightarrow> 'h motor \<Rightarrow> 'h motor" where
  "register_init_callback cb s = s\<lparr>init_cb := cb\<rparr>"

definition register_stop_callback :: "('h \<Rightarrow> 'h) option \<Rightarrow> 'h motor \<Rightarrow> bool \<times> 'h motor" where
  "register_stop_callback cb s =
     (if movement_state s \<noteq> StStopped then (False, s) else (True, s\<lparr>stop_cb := cb\<rparr>))"

definition round_to_nearest :: "u32 \<Rightarrow> u32 \<Rightarrow> u32" where
  "round_to_nearest val nearest = ((val + nearest div 2) div nearest) * nearest"

definition accel_table :: "'h motor_hwa \<Rightarrow> motor_config \<Rightarrow> u32 \<Rightarrow> u16 list" where
  "accel_table E cfg speed = map (\<lambda>i. ucast (round_to_nearest (curve E cfg speed i) TIMER_INTERVAL_US)) [0 ..< MAX_ACC_STEPS]"

definition write_direction :: "'h motor_hwa \<Rightarrow> direction \<Rightarrow> 'h motor \<Rightarrow> bool \<times> 'h motor" where
  "write_direction E d s = call_hwa (hw_set_direction E d) s"

text \<open>The end of \<open>setup_movement\<close>, from the enabling of the driver on.\<close>

definition start_movement :: "'h motor_hwa \<Rightarrow> movement \<Rightarrow> 'h motor \<Rightarrow> bool \<times> 'h motor" where
  "start_movement E info s =
     and_then (call_hwa (hw_enable E) s) (\<lambda>s.
     case write_direction E (mv_direction info) s of
       (False, s) \<Rightarrow> (False, snd (call_hwa (hw_disable E) s))
     | (True, s) \<Rightarrow>
         (True, s\<lparr>reset_scheduled := False, movement := info,
                  timer_interval_us := uint (accel_lookup_table s ! 0), acceleration_counter := 0,
                  movement_pulses_sent := 0, timer_counter := 0, run_start_time := word_of_int (uptime E (hwa s)),
                  stop_requested := False, run_state := Accelerating\<rparr>))"

definition setup_movement :: "'h motor_hwa \<Rightarrow> movement \<Rightarrow> 'h motor \<Rightarrow> bool \<times> 'h motor" where
  "setup_movement E info s =
     (if movement_state s \<noteq> StStopped then (False, s)
      else if start_interval_us (config s) = end_interval_us (config s) then (False, s)
      else and_then (case init_cb s of None \<Rightarrow> (True, s) | Some cb \<Rightarrow> call_hwa (cb info) s) (\<lambda>s.
      let lower = min (start_interval_us (config s)) (end_interval_us (config s));
          upper = max (start_interval_us (config s)) (end_interval_us (config s));
          speed = of_nat (unat (mv_speed info))
      in if speed < lower \<or> speed > upper then (False, s)
         else start_movement E info
                (s\<lparr>accel_lookup_table := accel_table E (config s) (mv_speed info),
                   pulses_before_deceleration := (if mv_pulses info \<noteq> 0 then mv_pulses info - mv_pulses info div 2 else 0)\<rparr>)))"

section \<open>Pulses\<close>

definition run_time :: "'h motor_hwa \<Rightarrow> 'h motor \<Rightarrow> u32" where
  "run_time E s =
     (if run_start_time s = 0 then 0 else word_of_int (uptime E (hwa s) - uint (run_start_time s)))"

definition reset_movement :: "'h motor \<Rightarrow> 'h motor" where
  "reset_movement s =
     s\<lparr>run_state := Stopped, timer_interval_us := 0, movement_pulses_sent := 0, acceleration_counter := 0,
       movement := empty_movement, stop_requested := False, pulses_before_deceleration := 0, timer_counter := 0,
       run_start_time := 0, reset_scheduled := True\<rparr>"

definition send_pulse :: "'h motor_hwa \<Rightarrow> 'h motor \<Rightarrow> bool \<times> 'h motor" where
  "send_pulse E s =
     (if use_step_toggle (config s) then call_hwa (hw_toggle_step E) s
      else and_then (call_hwa (hw_write_step E True) s) (call_hwa (hw_write_step E False)))"

text \<open>The \<open>switch\<close> on the run state.\<close>

definition advance_run_state :: "'h motor \<Rightarrow> 'h motor" where
  "advance_run_state s =
     (case run_state s of
        Accelerating \<Rightarrow>
          let s = s\<lparr>acceleration_counter := acceleration_counter s + 1\<rparr>;
              s = (if acceleration_counter s \<ge> int (length (accel_lookup_table s))
                   then s\<lparr>acceleration_counter := int (length (accel_lookup_table s)) - 1, run_state := Running\<rparr> else s)
          in s\<lparr>timer_interval_us := uint (accel_lookup_table s ! nat (acceleration_counter s))\<rparr>
      | Running \<Rightarrow>
          if mv_pulses (movement s) \<noteq> 0 \<and> movement_pulses_sent s \<ge> pulses_before_deceleration s
          then s\<lparr>run_state := Decelerating\<rparr> else s
      | Decelerating \<Rightarrow>
          let s = s\<lparr>acceleration_counter := acceleration_counter s - 1\<rparr>
          in if acceleration_counter s > 0
             then s\<lparr>timer_interval_us := uint (accel_lookup_table s ! nat (acceleration_counter s))\<rparr>
             else s\<lparr>run_state := Stopped\<rparr>
      | Stopped \<Rightarrow> s)"

definition calculate_next_pulse :: "'h motor_hwa \<Rightarrow> 'h motor \<Rightarrow> bool \<times> 'h motor" where
  "calculate_next_pulse E s =
     (let s = advance_run_state s;
          s = (if mv_max_run_time (movement s) \<noteq> 0 \<and> run_time E s \<ge> mv_max_run_time (movement s)
               then s\<lparr>run_state := Stopped\<rparr> else s);
          s = (if mv_pulses (movement s) \<noteq> 0 \<and> movement_pulses_sent s \<ge> mv_pulses (movement s)
               then s\<lparr>run_state := Stopped\<rparr> else s)
      in if run_state s = Stopped then (False, reset_movement s) else (True, s))"

definition calculate_and_send_next_pulse :: "'h motor_hwa \<Rightarrow> 'h motor \<Rightarrow> 'h motor" where
  "calculate_and_send_next_pulse E s =
     (let s = s\<lparr>timer_counter := timer_counter s + uint TIMER_INTERVAL_US\<rparr>
      in if timer_counter s \<ge> timer_interval_us s
         then let s = s\<lparr>timer_counter := 0\<rparr>
              in case calculate_next_pulse E s of
                   (False, s) \<Rightarrow> s
                 | (True, s) \<Rightarrow>
                     (case send_pulse E s of
                        (False, s) \<Rightarrow> reset_movement s
                      | (True, s) \<Rightarrow> s\<lparr>movement_pulses_sent := movement_pulses_sent s + 1\<rparr>)
         else s)"

definition stop_movement :: "bool \<Rightarrow> 'h motor \<Rightarrow> bool \<times> 'h motor" where
  "stop_movement force s =
     (if movement_state s = StStopped \<or> movement_state s = StStopping then (False, s)
      else if force then (True, reset_movement s)
      else if \<not> stop_requested s
           then let s = s\<lparr>stop_requested := True\<rparr>
                in (True, if run_state s = Accelerating \<or> run_state s = Running then s\<lparr>run_state := Decelerating\<rparr> else s)
           else (False, s))"

text \<open>The callback of the work item that \<open>reset_movement\<close> schedules.\<close>

definition reset_work :: "'h motor_hwa \<Rightarrow> 'h motor \<Rightarrow> 'h motor" where
  "reset_work E s =
     (let s = s\<lparr>reset_scheduled := False\<rparr> in
      if run_state s \<noteq> Stopped then s
      else let s = (if use_step_toggle (config s) then snd (call_hwa (hw_write_step E False) s) else s);
               s = snd (call_hwa (hw_disable E) s)
           in case stop_cb s of None \<Rightarrow> s | Some cb \<Rightarrow> s\<lparr>hwa := cb (hwa s)\<rparr>)"

section \<open>Several motors\<close>

record 'h motor_control =
  motors :: "'h motor list"
  timer_started :: bool
  timer_running :: bool

definition mc_new :: "'h motor list \<Rightarrow> 'h motor_control" where
  "mc_new ms = \<lparr>motors = ms, timer_started = False, timer_running = False\<rparr>"

fun init_motors :: "'h motor_hwa \<Rightarrow> 'h motor list \<Rightarrow> bool \<times> 'h motor list" where
  "init_motors E [] = (True, [])"
| "init_motors E (m # ms) =
     (case motor_init E m of
        (False, m) \<Rightarrow> (False, m # ms)
      | (True, m) \<Rightarrow> (case init_motors E ms of (ok, ms) \<Rightarrow> (ok, m # ms)))"

definition mc_init :: "'h motor_hwa \<Rightarrow> 'h motor_control \<Rightarrow> bool \<times> 'h motor_control" where
  "mc_init E s = (case init_motors E (motors s) of (ok, ms) \<Rightarrow> (ok, s\<lparr>motors := ms\<rparr>))"

definition mc_movement_state :: "nat \<Rightarrow> 'h motor_control \<Rightarrow> motor_state option" where
  "mc_movement_state i s = (if i < length (motors s) then Some (movement_state (motors s ! i)) else None)"

definition mc_setup_movement :: "'h motor_hwa \<Rightarrow> nat \<Rightarrow> movement \<Rightarrow> 'h motor_control \<Rightarrow> (bool \<times> 'h motor_control) option" where
  "mc_setup_movement E i info s =
     (if i < length (motors s)
      then Some (case setup_movement E info (motors s ! i) of
          (True, m) \<Rightarrow>
            let s = s\<lparr>motors := (motors s)[i := m]\<rparr>
            in (True, if \<not> timer_started s then s\<lparr>timer_started := True, timer_running := True\<rparr> else s)
        | (False, m) \<Rightarrow> (False, s\<lparr>motors := (motors s)[i := m]\<rparr>))
      else None)"

definition mc_stop_timer :: "'h motor_control \<Rightarrow> 'h motor_control" where
  "mc_stop_timer s = (if timer_started s then s\<lparr>timer_started := False, timer_running := False\<rparr> else s)"

definition mc_stop_movement :: "nat \<Rightarrow> bool \<Rightarrow> 'h motor_control \<Rightarrow> (bool \<times> 'h motor_control) option" where
  "mc_stop_movement i force s =
     (if i < length (motors s)
      then Some (case stop_movement force (motors s ! i) of
          (True, m) \<Rightarrow>
            let s = s\<lparr>motors := (motors s)[i := m]\<rparr>
            in (True, if list_all (\<lambda>m. movement_state m = StStopped) (motors s) then mc_stop_timer s else s)
        | (False, m) \<Rightarrow> (False, s\<lparr>motors := (motors s)[i := m]\<rparr>))
      else None)"

text \<open>One round of the loop of the timer handler.\<close>

definition motor_tick :: "'h motor_hwa \<Rightarrow> 'h motor \<Rightarrow> 'h motor" where
  "motor_tick E m = (if movement_state m \<noteq> StStopped then calculate_and_send_next_pulse E m else m)"

definition check_motors :: "'h motor_hwa \<Rightarrow> 'h motor_control \<Rightarrow> 'h motor_control" where
  "check_motors E s =
     (let ms = map (motor_tick E) (motors s); s = s\<lparr>motors := ms\<rparr>
      in if list_ex (\<lambda>m. movement_state m \<noteq> StStopped) ms then s else mc_stop_timer s)"

definition mc_register_init_callback :: "nat \<Rightarrow> (movement \<Rightarrow> 'h \<Rightarrow> bool \<times> 'h) option \<Rightarrow> 'h motor_control \<Rightarrow> 'h motor_control option" where
  "mc_register_init_callback i cb s =
     (if i < length (motors s) then Some (s\<lparr>motors := (motors s)[i := register_init_callback cb (motors s ! i)]\<rparr>) else None)"

definition mc_register_stop_callback :: "nat \<Rightarrow> ('h \<Rightarrow> 'h) option \<Rightarrow> 'h motor_control \<Rightarrow> (bool \<times> 'h motor_control) option" where
  "mc_register_stop_callback i cb s =
     (if i < length (motors s)
      then Some (case register_stop_callback cb (motors s ! i) of (ok, m) \<Rightarrow> (ok, s\<lparr>motors := (motors s)[i := m]\<rparr>))
      else None)"

definition total_motors :: "'h motor_control \<Rightarrow> nat" where
  "total_motors s = length (motors s)"

end
