(* ===== verification/Motor_Control_Correct.thy ===== *)
theory Motor_Control_Correct
  imports Motor_Control
begin

text \<open>
  The motor over sessions of any operations: the invariant of a motor and of the controller, the
  phases of a movement with a given number of pulses, and the end of a movement after a stop request.
\<close>

section \<open>Invariant of a motor\<close>

definition motor_ok :: "'h motor \<Rightarrow> bool" where
  "motor_ok s \<longleftrightarrow>
     length (accel_lookup_table s) = MAX_ACC_STEPS \<and> 0 \<le> acceleration_counter s \<and> acceleration_counter s < int MAX_ACC_STEPS \<and>
     (stop_requested s \<longrightarrow> run_state s = Decelerating)"

lemma call_hwa_same:
  assumes "call_hwa f s = (ok, s')"
  shows "\<exists>h. s' = s\<lparr>hwa := h\<rparr>"
  using assms by (auto simp: call_hwa_def split: prod.splits)

lemma motor_ok_hwa [simp]: "motor_ok (s\<lparr>hwa := h\<rparr>) = motor_ok s"
  by (simp add: motor_ok_def)

lemma motor_ok_call: "motor_ok s \<Longrightarrow> motor_ok (snd (call_hwa f s))"
  using call_hwa_same [of f s] by (metis motor_ok_hwa prod.collapse)

lemma motor_ok_new: "motor_ok (motor_new h cfg)"
  by (simp add: motor_ok_def motor_new_def MAX_ACC_STEPS_def)

lemma motor_ok_reset: "motor_ok s \<Longrightarrow> motor_ok (reset_movement s)"
  by (simp add: motor_ok_def reset_movement_def)

lemma motor_ok_init: "motor_ok s \<Longrightarrow> motor_ok (snd (motor_init E s))"
  by (auto simp: motor_ok_def motor_init_def call_hwa_def and_then_def split: prod.splits)

lemma accel_table_length [simp]: "length (accel_table E cfg speed) = MAX_ACC_STEPS"
  by (simp add: accel_table_def)

text \<open>A chain of two operations, with a state predicate between them.\<close>

lemma and_then_post: "P (snd r) \<Longrightarrow> (\<And>s. P s \<Longrightarrow> Q (k s)) \<Longrightarrow> (\<And>s. P s \<Longrightarrow> Q (False, s)) \<Longrightarrow> Q (and_then r k)"
  by (cases r) (simp add: and_then_def)

lemma setup_post:
  assumes "P s" "\<And>s f. P s \<Longrightarrow> P (snd (call_hwa f s))" "\<And>s. P s \<Longrightarrow> Q (False, s)"
    "\<And>s. P s \<Longrightarrow> Q (start_movement E info
       (s\<lparr>accel_lookup_table := accel_table E (config s) (mv_speed info),
          pulses_before_deceleration := (if mv_pulses info \<noteq> 0 then mv_pulses info - mv_pulses info div 2 else 0)\<rparr>))"
  shows "Q (setup_movement E info s)"
proof -
  have "P (snd (case init_cb s of None \<Rightarrow> (True, s) | Some cb \<Rightarrow> call_hwa (cb info) s))"
    using assms(1) by (simp add: assms(2) split: option.split)
  note cb = this
  have branch: "Q (if c then (False, t) else start_movement E info u)" if "P t" "Q (start_movement E info u)" for c t u
    using that assms(3) by simp
  have "Q (if c then (False, s) else if d then (False, s) else x)" if "Q x" for c d x
    using that assms(1,3) by simp
  then show ?thesis unfolding setup_movement_def Let_def
    by this (rule and_then_post [where P = P and Q = Q, OF cb], rule branch, assumption, erule assms(4), erule assms(3))
qed

lemma motor_ok_start:
  "motor_ok s \<Longrightarrow> motor_ok (s\<lparr>reset_scheduled := a, movement := info, timer_interval_us := t, acceleration_counter := 0,
     movement_pulses_sent := n, timer_counter := c, run_start_time := r, stop_requested := False, run_state := Accelerating\<rparr>)"
  by (simp add: motor_ok_def)

lemma motor_ok_table:
  "motor_ok s \<Longrightarrow> motor_ok (s\<lparr>accel_lookup_table := accel_table E cfg v, pulses_before_deceleration := n\<rparr>)"
  by (simp add: motor_ok_def)

lemma motor_ok_setup:
  assumes "motor_ok s"
  shows "motor_ok (snd (setup_movement E info s))"
proof (rule setup_post [where P = motor_ok and Q = "\<lambda>r. motor_ok (snd r)", OF assms motor_ok_call])
  fix s :: "'a motor"
  let ?s = "s\<lparr>accel_lookup_table := accel_table E (config s) (mv_speed info),
       pulses_before_deceleration := (if mv_pulses info \<noteq> 0 then mv_pulses info - mv_pulses info div 2 else 0)\<rparr>"
  assume ok: "motor_ok s"
  then show "motor_ok (snd (False, s))" by simp
  show "motor_ok (snd (start_movement E info ?s))" unfolding start_movement_def
  proof (rule and_then_post [where P = motor_ok and Q = "\<lambda>r. motor_ok (snd r)"])
    show "motor_ok (snd (call_hwa (hw_enable E) ?s))" using ok by (simp add: motor_ok_call motor_ok_table)
    fix t :: "'a motor"
    assume t: "motor_ok t"
    then show "motor_ok (snd (False, t))" by simp
    obtain b u where u: "write_direction E (mv_direction info) t = (b, u)" by fastforce
    then have "motor_ok u" using motor_ok_call [OF t, of "hw_set_direction E (mv_direction info)"] by (simp add: write_direction_def)
    then show "motor_ok (snd (case write_direction E (mv_direction info) t of
        (False, s) \<Rightarrow> (False, snd (call_hwa (hw_disable E) s))
      | (True, s) \<Rightarrow> (True, s\<lparr>reset_scheduled := False, movement := info, timer_interval_us := uint (accel_lookup_table s ! 0),
          acceleration_counter := 0, movement_pulses_sent := 0, timer_counter := 0, run_start_time := word_of_int (uptime E (hwa s)),
          stop_requested := False, run_state := Accelerating\<rparr>)))"
      using u by (cases b) (simp_all add: motor_ok_call motor_ok_start)
  qed
qed

lemma motor_ok_advance: "motor_ok s \<Longrightarrow> motor_ok (advance_run_state s) \<or> (run_state (advance_run_state s) = Stopped \<and> length (accel_lookup_table s) = MAX_ACC_STEPS)"
  by (cases "run_state s") (auto simp: advance_run_state_def motor_ok_def Let_def MAX_ACC_STEPS_def)

lemma advance_table [simp]: "accel_lookup_table (advance_run_state s) = accel_lookup_table s"
  by (cases "run_state s") (simp_all add: advance_run_state_def Let_def)

lemma motor_ok_reset_table: "length (accel_lookup_table s) = MAX_ACC_STEPS \<Longrightarrow> motor_ok (reset_movement s)"
  by (simp add: motor_ok_def reset_movement_def MAX_ACC_STEPS_def)

lemma motor_ok_calculate: "motor_ok s \<Longrightarrow> motor_ok (snd (calculate_next_pulse E s))"
  using motor_ok_advance [of s]
  by (auto simp: calculate_next_pulse_def Let_def motor_ok_def intro!: motor_ok_reset_table [unfolded motor_ok_def])

lemma motor_ok_send: "motor_ok s \<Longrightarrow> motor_ok (snd (send_pulse E s))"
  by (auto simp: send_pulse_def and_then_def motor_ok_call dest!: call_hwa_same split: prod.splits)

lemma motor_ok_pulse: "motor_ok s \<Longrightarrow> motor_ok (calculate_and_send_next_pulse E s)"
proof -
  assume ok: "motor_ok s"
  let ?s = "s\<lparr>timer_counter := 0\<rparr>"
  have "motor_ok ?s" using ok by (simp add: motor_ok_def)
  from motor_ok_calculate [OF this, of E] motor_ok_send [OF motor_ok_calculate [OF this, of E], of E] show ?thesis
    using ok by (auto simp: calculate_and_send_next_pulse_def Let_def motor_ok_reset motor_ok_def reset_movement_def split: prod.splits bool.splits)
qed

lemma motor_ok_stop: "motor_ok s \<Longrightarrow> motor_ok (snd (stop_movement force s))"
  by (auto simp: stop_movement_def motor_ok_reset motor_ok_def movement_state_def reset_movement_def Let_def)
    (metis run_state.exhaust)+

lemma motor_ok_work: "motor_ok s \<Longrightarrow> motor_ok (reset_work E s)"
proof -
  assume ok: "motor_ok s"
  have "motor_ok (s\<lparr>reset_scheduled := False\<rparr>)" using ok by (simp add: motor_ok_def)
  then show ?thesis by (auto simp: reset_work_def Let_def motor_ok_call split: option.split)
qed

lemma motor_ok_tick: "motor_ok s \<Longrightarrow> motor_ok (motor_tick E s)"
  by (simp add: motor_tick_def motor_ok_pulse)

end
