(* ===== verification/Motor_Control_Phases.thy ===== *)
theory Motor_Control_Phases
  imports Motor_Control_Correct
begin

text \<open>
  A movement seen from one due pulse to the next. Timer ticks lead to the next call of
  \<open>calculate_next_pulse\<close>; the phases of a movement are steps from call to call.
\<close>

section \<open>Ticks\<close>

definition ticks :: "'h motor_hwa \<Rightarrow> nat \<Rightarrow> 'h motor \<Rightarrow> 'h motor" where
  "ticks E N s = (motor_tick E ^^ N) s"

definition reaches :: "'h motor_hwa \<Rightarrow> 'h motor \<Rightarrow> 'h motor \<Rightarrow> bool" where
  "reaches E s t \<longleftrightarrow> (\<exists>N. t = ticks E N s)"

lemma ticks_add: "ticks E (M + N) s = ticks E N (ticks E M s)"
  by (simp add: ticks_def add.commute [of M] funpow_add)

lemma reaches_refl [simp]: "reaches E s s"
  unfolding reaches_def by (rule exI [of _ 0]) (simp add: ticks_def)

lemma reaches_trans: "reaches E s t \<Longrightarrow> reaches E t u \<Longrightarrow> reaches E s u"
  by (auto simp: reaches_def ticks_add [symmetric])

lemma reaches_tick: "reaches E s (motor_tick E s)"
  unfolding reaches_def by (rule exI [of _ 1]) (simp add: ticks_def)

lemma stopped_ticks: "movement_state s = StStopped \<Longrightarrow> ticks E N s = s"
  by (induction N) (simp_all add: ticks_def motor_tick_def)

text \<open>What happens at the tick on which the interval has passed.\<close>

definition pulse_due :: "'h motor_hwa \<Rightarrow> 'h motor \<Rightarrow> 'h motor" where
  "pulse_due E s =
     (case calculate_next_pulse E (s\<lparr>timer_counter := 0\<rparr>) of
        (False, s) \<Rightarrow> s
      | (True, s) \<Rightarrow>
          (case send_pulse E s of
             (False, s) \<Rightarrow> reset_movement s
           | (True, s) \<Rightarrow> s\<lparr>movement_pulses_sent := movement_pulses_sent s + 1\<rparr>))"

lemma pulse_due_counter [simp]: "pulse_due E (s\<lparr>timer_counter := c\<rparr>) = pulse_due E s"
  by (simp add: pulse_due_def)

lemma tick_eq:
  assumes "movement_state s \<noteq> StStopped"
  shows "motor_tick E s =
    (if timer_counter s + 100 \<ge> timer_interval_us s then pulse_due E s else s\<lparr>timer_counter := timer_counter s + 100\<rparr>)"
  using assms by (simp add: motor_tick_def calculate_and_send_next_pulse_def pulse_due_def TIMER_INTERVAL_US_def Let_def)

lemma reaches_due: "movement_state s \<noteq> StStopped \<Longrightarrow> reaches E s (pulse_due E s)"
proof (induction "nat (timer_interval_us s - timer_counter s)" arbitrary: s rule: less_induct)
  case less
  show ?case
  proof (cases "timer_counter s + 100 \<ge> timer_interval_us s")
    case True
    then show ?thesis using reaches_tick [of E s] tick_eq [OF less(2), of E] by simp
  next
    case False
    let ?t = "s\<lparr>timer_counter := timer_counter s + 100\<rparr>"
    have "movement_state ?t \<noteq> StStopped" using less(2) by (auto simp: movement_state_def split: if_splits)
    with less(1) [of ?t] False have "reaches E ?t (pulse_due E s)" by simp
    moreover have "reaches E s ?t" using reaches_tick [of E s] tick_eq [OF less(2), of E] False by simp
    ultimately show ?thesis by (blast intro: reaches_trans)
  qed
qed

section \<open>One due pulse\<close>

text \<open>Hardware that always takes a pulse, and a count \<open>n\<close> of the pulses it has taken.\<close>

definition pulse_counts :: "'h motor_hwa \<Rightarrow> ('h \<Rightarrow> nat) \<Rightarrow> bool" where
  "pulse_counts E n \<longleftrightarrow>
     (\<forall>h. (case hw_toggle_step E h of (ok, h') \<Rightarrow> ok \<and> n h' = Suc (n h)) \<and>
          (case hw_write_step E True h of (ok, h') \<Rightarrow> ok \<and> n h' = Suc (n h)) \<and>
          (case hw_write_step E False h of (ok, h') \<Rightarrow> ok \<and> n h' = n h))"

lemma send_pulse_counts:
  assumes "pulse_counts E n"
  shows "\<exists>h. send_pulse E s = (True, s\<lparr>hwa := h\<rparr>) \<and> n h = Suc (n (hwa s))"
proof (cases "use_step_toggle (config s)")
  case True
  then show ?thesis using assms [unfolded pulse_counts_def, rule_format, of "hwa s"]
    by (auto simp: send_pulse_def call_hwa_def split: prod.splits)
next
  case False
  obtain ok h where h: "hw_write_step E True (hwa s) = (ok, h)" by fastforce
  then show ?thesis using False assms [unfolded pulse_counts_def, rule_format, of "hwa s"] assms [unfolded pulse_counts_def, rule_format, of h]
    by (auto simp: send_pulse_def call_hwa_def split: prod.splits)
qed

lemma advance_same [simp]:
  "movement (advance_run_state s) = movement s" "movement_pulses_sent (advance_run_state s) = movement_pulses_sent s"
  "hwa (advance_run_state s) = hwa s" "stop_requested (advance_run_state s) = stop_requested s"
  "pulses_before_deceleration (advance_run_state s) = pulses_before_deceleration s" "config (advance_run_state s) = config s"
  by (cases "run_state s"; simp add: advance_run_state_def Let_def)+

lemma advance_counter_irrelevant:
  "advance_run_state (s\<lparr>timer_counter := c\<rparr>) = (advance_run_state s)\<lparr>timer_counter := c\<rparr>"
  by (cases "run_state s") (simp_all add: advance_run_state_def Let_def)

lemma due_sends:
  assumes "run_state (advance_run_state s) \<noteq> Stopped" "mv_max_run_time (movement s) = 0"
    "mv_pulses (movement s) = 0 \<or> movement_pulses_sent s < mv_pulses (movement s)" "pulse_counts E n"
  shows "\<exists>h. pulse_due E s = (advance_run_state s)\<lparr>timer_counter := 0, hwa := h, movement_pulses_sent := movement_pulses_sent s + 1\<rparr> \<and>
    n h = Suc (n (hwa s))"
proof -
  let ?a = "(advance_run_state s)\<lparr>timer_counter := 0\<rparr>"
  have "calculate_next_pulse E (s\<lparr>timer_counter := 0\<rparr>) = (True, ?a)"
    using assms(1-3) by (auto simp: calculate_next_pulse_def Let_def advance_counter_irrelevant)
  moreover obtain h where "send_pulse E ?a = (True, ?a\<lparr>hwa := h\<rparr>)" "n h = Suc (n (hwa s))"
    using send_pulse_counts [OF assms(4), of ?a] by auto
  ultimately show ?thesis by (intro exI [of _ h]) (simp add: pulse_due_def)
qed

lemma reset_hwa [simp]: "hwa (reset_movement s) = hwa s" "movement_state (reset_movement s) = StStopped"
  by (simp_all add: reset_movement_def movement_state_def)

lemma due_stops:
  assumes "run_state (advance_run_state s) = Stopped \<or>
    (mv_pulses (movement s) \<noteq> 0 \<and> mv_pulses (movement s) \<le> movement_pulses_sent s)"
  shows "movement_state (pulse_due E s) = StStopped \<and> hwa (pulse_due E s) = hwa s"
proof -
  have "fst (calculate_next_pulse E (s\<lparr>timer_counter := 0\<rparr>)) = False"
    "hwa (snd (calculate_next_pulse E (s\<lparr>timer_counter := 0\<rparr>))) = hwa s"
    "movement_state (snd (calculate_next_pulse E (s\<lparr>timer_counter := 0\<rparr>))) = StStopped"
    using assms by (auto simp: calculate_next_pulse_def Let_def advance_counter_irrelevant)
  then show ?thesis by (cases "calculate_next_pulse E (s\<lparr>timer_counter := 0\<rparr>)") (simp add: pulse_due_def)
qed

section \<open>The phases\<close>

definition phase :: "('h \<Rightarrow> nat) \<Rightarrow> nat \<Rightarrow> u32 \<Rightarrow> run_state \<Rightarrow> nat \<Rightarrow> nat \<Rightarrow> 'h motor \<Rightarrow> bool" where
  "phase n base p r c k s \<longleftrightarrow>
     run_state s = r \<and> acceleration_counter s = int c \<and> movement_pulses_sent s = of_nat k \<and> k \<le> unat p \<and>
     length (accel_lookup_table s) = 128 \<and> mv_pulses (movement s) = p \<and> mv_max_run_time (movement s) = 0 \<and>
     pulses_before_deceleration s = p - p div 2 \<and> n (hwa s) = base + k"

lemma phase_moves: "phase n base p r c k s \<Longrightarrow> r \<noteq> Stopped \<Longrightarrow> movement_state s \<noteq> StStopped"
  by (simp add: phase_def movement_state_def)

lemma of_nat_le_u32: "k \<le> unat (p :: u32) \<Longrightarrow> unat (of_nat k :: u32) = k"
proof -
  assume "k \<le> unat p"
  moreover have "unat p < 2 ^ LENGTH(32)" by (rule unsigned_less)
  ultimately show ?thesis by (intro unat_of_nat32) simp
qed

text \<open>The movement ends as soon as all pulses are sent.\<close>

definition ends_with :: "'h motor_hwa \<Rightarrow> ('h \<Rightarrow> nat) \<Rightarrow> nat \<Rightarrow> 'h motor \<Rightarrow> bool" where
  "ends_with E n k s \<longleftrightarrow> (\<exists>t. reaches E s t \<and> movement_state t = StStopped \<and> n (hwa t) = k)"

lemma ends_step: "reaches E s t \<Longrightarrow> ends_with E n k t \<Longrightarrow> ends_with E n k s"
  unfolding ends_with_def by (blast intro: reaches_trans)

lemma ends_now: "movement_state s \<noteq> StStopped \<Longrightarrow> movement_state (pulse_due E s) = StStopped \<and> hwa (pulse_due E s) = hwa s \<Longrightarrow>
  ends_with E n (n (hwa s)) s"
  unfolding ends_with_def using reaches_due by metis

lemma phase_all_sent:
  assumes "phase n base p r c (unat p) s" "r \<noteq> Stopped" "p \<noteq> 0"
  shows "ends_with E n (base + unat p) s"
proof -
  have "mv_pulses (movement s) \<noteq> 0 \<and> mv_pulses (movement s) \<le> movement_pulses_sent s" using assms by (simp add: phase_def)
  then have "ends_with E n (n (hwa s)) s" using ends_now [OF phase_moves [OF assms(1,2)] due_stops] by simp
  moreover have "n (hwa s) = base + unat p" using assms(1) by (simp add: phase_def)
  ultimately show ?thesis by simp
qed

text \<open>One pulse further: what the switch makes of the run state and of the counter.\<close>

lemma phase_pulse:
  assumes "phase n base p r c k s" "r \<noteq> Stopped" "k < unat p" "pulse_counts E n"
    "run_state (advance_run_state s) = r'" "r' \<noteq> Stopped" "acceleration_counter (advance_run_state s) = int c'"
  shows "\<exists>t. reaches E s t \<and> phase n base p r' c' (Suc k) t"
proof -
  have "movement_pulses_sent s < mv_pulses (movement s)"
    using assms(1,3) of_nat_le_u32 [of k p] by (simp add: phase_def word_less_nat_alt)
  then obtain h where h: "pulse_due E s = (advance_run_state s)\<lparr>timer_counter := 0, hwa := h, movement_pulses_sent := movement_pulses_sent s + 1\<rparr>"
    "n h = Suc (n (hwa s))"
    using due_sends [of s E n] assms by (auto simp: phase_def)
  have "phase n base p r' c' (Suc k) (pulse_due E s)"
    using assms(1,3,5,7) h by (simp add: phase_def)
  then show ?thesis using reaches_due [OF phase_moves [OF assms(1,2)]] by blast
qed

lemma phase_decelerating:
  assumes "p \<noteq> 0" "pulse_counts E n"
  shows "phase n base p Decelerating (Suc c) k s \<Longrightarrow> ends_with E n (base + min (unat p) (k + c)) s"
proof (induction c arbitrary: k s)
  case 0
  have "run_state (advance_run_state s) = Stopped" using 0 by (simp add: phase_def advance_run_state_def Let_def)
  then have "ends_with E n (n (hwa s)) s" using ends_now [OF phase_moves [OF 0] due_stops] by simp
  moreover have "n (hwa s) = base + min (unat p) (k + 0)" using 0 by (simp add: phase_def min_absorb2)
  ultimately show ?case by simp
next
  case (Suc c)
  have k: "k \<le> unat p" using Suc.prems by (simp add: phase_def)
  show ?case
  proof (cases "k = unat p")
    case True
    then show ?thesis using phase_all_sent [OF _ _ assms(1), of n base Decelerating "Suc (Suc c)" s E] Suc.prems by simp
  next
    case False
    have "run_state (advance_run_state s) = Decelerating" "acceleration_counter (advance_run_state s) = int (Suc c)"
      using Suc.prems by (simp_all add: phase_def advance_run_state_def Let_def)
    then obtain t where "reaches E s t" "phase n base p Decelerating (Suc c) (Suc k) t"
      using phase_pulse [OF Suc.prems _ _ assms(2), of Decelerating "Suc c"] False k by auto
    then show ?thesis using Suc.IH [of "Suc k" t] ends_step by fastforce
  qed
qed

lemma unat_half: "unat (p - p div 2 :: u32) = unat p - unat p div 2"
proof -
  have "p div 2 \<le> p" by (simp add: word_le_nat_alt unat_div)
  then show ?thesis by (simp add: unat_sub unat_div)
qed

lemma phase_running:
  assumes "p \<noteq> 0" "pulse_counts E n"
  shows "phase n base p Running 127 k s \<Longrightarrow> ends_with E n (base + min (unat p) (max k (unat p - unat p div 2) + 127)) s"
proof (induction "unat p - k" arbitrary: k s rule: less_induct)
  case less
  let ?B = "unat p - unat p div 2"
  have k: "k \<le> unat p" using less(2) by (simp add: phase_def)
  show ?case
  proof (cases "k = unat p")
    case True
    then show ?thesis using phase_all_sent [OF _ _ assms(1), of n base Running 127 s E] less(2) by (simp add: min_def)
  next
    case k_less: False
    have cmp: "movement_pulses_sent s \<ge> pulses_before_deceleration s \<longleftrightarrow> ?B \<le> k"
      using less(2) of_nat_le_u32 [OF k] unat_half [of p] by (simp add: phase_def word_le_nat_alt)
    have c: "acceleration_counter (advance_run_state s) = int 127"
      using less(2) by (simp add: phase_def advance_run_state_def)
    show ?thesis
    proof (cases "?B \<le> k")
      case True
      then have "run_state (advance_run_state s) = Decelerating"
        using less(2) cmp assms(1) by (simp add: phase_def advance_run_state_def)
      then obtain t where t: "reaches E s t" "phase n base p Decelerating (Suc 126) (Suc k) t"
        using phase_pulse [OF less(2) _ _ assms(2)] k_less k c by auto
      have "Suc k + 126 = max k ?B + 127" using True by simp
      then show ?thesis using ends_step [OF t(1) phase_decelerating [OF assms t(2)]] by (simp add: add.commute)
    next
      case False
      then have "run_state (advance_run_state s) = Running"
        using less(2) cmp assms(1) by (simp add: phase_def advance_run_state_def)
      then obtain t where t: "reaches E s t" "phase n base p Running 127 (Suc k) t"
        using phase_pulse [OF less(2) _ _ assms(2)] k_less k c by auto
      have "unat p - Suc k < unat p - k" "max (Suc k) ?B = max k ?B" using k_less k False by auto
      then show ?thesis using ends_step [OF t(1) less(1) [OF _ t(2)]] by simp
    qed
  qed
qed

lemma phase_accelerating:
  assumes "p \<noteq> 0" "pulse_counts E n"
  shows "k < 128 \<Longrightarrow> phase n base p Accelerating k k s \<Longrightarrow>
    ends_with E n (base + min (unat p) (max 128 (unat p - unat p div 2) + 127)) s"
proof (induction "127 - k" arbitrary: k s)
  case 0
  show ?case
  proof (cases "k = unat p")
    case True
    then show ?thesis using phase_all_sent [OF _ _ assms(1), of n base Accelerating k s E] 0 by (simp add: min_def)
  next
    case False
    then have "k < unat p" using 0 by (simp add: phase_def)
    moreover have "k = 127" using 0 by simp
    then have "run_state (advance_run_state s) = Running" "acceleration_counter (advance_run_state s) = int 127"
      using 0 by (simp_all add: phase_def advance_run_state_def Let_def)
    ultimately obtain t where t: "reaches E s t" "phase n base p Running 127 (Suc k) t"
      using phase_pulse [OF 0(3) _ _ assms(2)] by auto
    then show ?thesis using ends_step [OF t(1) phase_running [OF assms t(2)]] \<open>k = 127\<close> by simp
  qed
next
  case (Suc j)
  show ?case
  proof (cases "k = unat p")
    case True
    then show ?thesis using phase_all_sent [OF _ _ assms(1), of n base Accelerating k s E] Suc.prems by (simp add: min_def)
  next
    case False
    then have "k < unat p" using Suc.prems by (simp add: phase_def)
    moreover have "k < 127" using Suc by simp
    then have "run_state (advance_run_state s) = Accelerating" "acceleration_counter (advance_run_state s) = int (Suc k)"
      using Suc.prems by (simp_all add: phase_def advance_run_state_def Let_def)
    ultimately obtain t where t: "reaches E s t" "phase n base p Accelerating (Suc k) (Suc k) t"
      using phase_pulse [OF Suc.prems(2) _ _ assms(2), of Accelerating "Suc k"] by auto
    have "ends_with E n (base + min (unat p) (max 128 (unat p - unat p div 2) + 127)) t"
      using Suc.hyps(1) [OF _ _ t(2)] Suc.hyps(2) \<open>k < 127\<close> by simp
    then show ?thesis using ends_step [OF t(1)] by blast
  qed
qed

end
