(* ===== verification/Motor_Control_Access.thy ===== *)
theory Motor_Control_Access
  imports Motor_Control
begin

text \<open>
  The calls of \<open>motor.cpp\<close> and \<open>motor_control.cpp\<close>, access by access: the loads and stores of the
  atomic members in the order of the code. The timer interrupt may come between any two accesses, and
  so may another thread: a call takes \<open>_movement_lock\<close> against others of its kind, but \<open>stop_movement\<close> and the
  interrupt take no lock. The locks are left out, which only adds interleavings. The lemmas say that
  the accesses of an undisturbed call are the member function of \<open>Motor_Control\<close>.
\<close>

section \<open>Programs\<close>

text \<open>A call in progress: it is done, or its next access updates the state and it goes on with what it has seen.\<close>

datatype 's prog = Done bool | Act "'s \<Rightarrow> 's" "'s \<Rightarrow> 's prog"

primrec run_prog :: "'s prog \<Rightarrow> 's \<Rightarrow> bool \<times> 's" where
  "run_prog (Done b) s = (b, s)"
| "run_prog (Act f k) s = run_prog (k s) (f s)"

definition load :: "('s \<Rightarrow> 'a) \<Rightarrow> ('a \<Rightarrow> 's prog) \<Rightarrow> 's prog" where
  "load g k = Act (\<lambda>s. s) (\<lambda>s. k (g s))"

definition store :: "('s \<Rightarrow> 's) \<Rightarrow> 's prog \<Rightarrow> 's prog" where
  "store f p = Act f (\<lambda>s. p)"

definition hw_access :: "('h \<Rightarrow> bool \<times> 'h) \<Rightarrow> (bool \<Rightarrow> 'h motor prog) \<Rightarrow> 'h motor prog" where
  "hw_access f k = Act (\<lambda>s. snd (call_hwa f s)) (\<lambda>s. k (fst (call_hwa f s)))"

lemma run_prog_simps [simp]:
  "run_prog (load g k) s = run_prog (k (g s)) s"
  "run_prog (store f p) s = run_prog p (f s)"
  "run_prog (hw_access h j) m = run_prog (j (fst (call_hwa h m))) (snd (call_hwa h m))"
  by (simp_all add: load_def store_def hw_access_def)

section \<open>A motor\<close>

definition load_state :: "(motor_state \<Rightarrow> 'h motor prog) \<Rightarrow> 'h motor prog" where
  "load_state k =
     load stop_requested (\<lambda>requested.
     if requested then k StStopping
     else load run_state (\<lambda>r. k (if r \<noteq> Stopped then StMoving else StStopped)))"

definition reset_stores :: "'h motor prog \<Rightarrow> 'h motor prog" where
  "reset_stores p =
     (store (run_state_update (\<lambda>_. Stopped)) (store (timer_interval_us_update (\<lambda>_. 0))
     (store (movement_pulses_sent_update (\<lambda>_. 0)) (store (acceleration_counter_update (\<lambda>_. 0))
     (store (movement_update (\<lambda>_. empty_movement)) (store (stop_requested_update (\<lambda>_. False))
     (store (pulses_before_deceleration_update (\<lambda>_. 0)) (store (timer_counter_update (\<lambda>_. 0))
     (store (run_start_time_update (\<lambda>_. 0)) (store (reset_scheduled_update (\<lambda>_. True)) p))))))))))"

definition stop_prog :: "bool \<Rightarrow> 'h motor prog" where
  "stop_prog force =
     load_state (\<lambda>st. if st = StStopped then Done False else
     load_state (\<lambda>st. if st = StStopping then Done False else
     if force then reset_stores (Done True) else
     load stop_requested (\<lambda>requested. if requested then Done False else
     store (stop_requested_update (\<lambda>_. True)) (load run_state (\<lambda>r.
     if r = Accelerating \<or> r = Running then store (run_state_update (\<lambda>_. Decelerating)) (Done True)
     else Done True)))))"

primrec table_stores :: "'h motor_hwa \<Rightarrow> motor_config \<Rightarrow> u32 \<Rightarrow> nat list \<Rightarrow> 'h motor prog \<Rightarrow> 'h motor prog" where
  "table_stores E cfg speed [] p = p"
| "table_stores E cfg speed (i # is) p =
     store (accel_lookup_table_update (\<lambda>t. t[i := ucast (round_to_nearest (curve E cfg speed i) TIMER_INTERVAL_US)]))
       (table_stores E cfg speed is p)"

definition start_prog :: "'h motor_hwa \<Rightarrow> movement \<Rightarrow> 'h motor prog" where
  "start_prog E info =
     hw_access (hw_enable E) (\<lambda>ok. if \<not> ok then Done False else
     hw_access (hw_set_direction E (mv_direction info)) (\<lambda>ok.
     if \<not> ok then hw_access (hw_disable E) (\<lambda>ok. Done False) else
     store (reset_scheduled_update (\<lambda>_. False)) (store (movement_update (\<lambda>_. info))
     (load (\<lambda>s. accel_lookup_table s ! 0) (\<lambda>t. store (timer_interval_us_update (\<lambda>_. uint t))
     (store (acceleration_counter_update (\<lambda>_. 0)) (store (movement_pulses_sent_update (\<lambda>_. 0))
     (store (timer_counter_update (\<lambda>_. 0)) (store (\<lambda>s. s\<lparr>run_start_time := word_of_int (uptime E (hwa s))\<rparr>)
     (store (stop_requested_update (\<lambda>_. False)) (store (run_state_update (\<lambda>_. Accelerating)) (Done True))))))))))))"

definition setup_prog :: "'h motor_hwa \<Rightarrow> movement \<Rightarrow> 'h motor prog" where
  "setup_prog E info =
     load_state (\<lambda>st. if st \<noteq> StStopped then Done False else
     load init_cb (\<lambda>cb. load config (\<lambda>cfg.
     if start_interval_us cfg = end_interval_us cfg then Done False else
     (case cb of None \<Rightarrow> (\<lambda>k. k True) | Some cb \<Rightarrow> hw_access (cb info)) (\<lambda>ok. if \<not> ok then Done False else
     let lower = min (start_interval_us cfg) (end_interval_us cfg);
         upper = max (start_interval_us cfg) (end_interval_us cfg);
         speed = of_nat (unat (mv_speed info))
     in if speed < lower \<or> speed > upper then Done False
        else table_stores E cfg (mv_speed info) [0 ..< MAX_ACC_STEPS]
          (store (pulses_before_deceleration_update (\<lambda>_. if mv_pulses info \<noteq> 0 then mv_pulses info - mv_pulses info div 2 else 0))
             (start_prog E info))))))"

definition init_prog :: "'h motor_hwa \<Rightarrow> 'h motor prog" where
  "init_prog E =
     hw_access (hw_init E) (\<lambda>ok. if \<not> ok then Done False else
     store (run_state_update (\<lambda>_. Stopped)) (store (timer_interval_us_update (\<lambda>_. 0))
     (store (acceleration_counter_update (\<lambda>_. 0)) (store (movement_pulses_sent_update (\<lambda>_. 0))
     (store (movement_update (\<lambda>_. empty_movement)) (store (stop_requested_update (\<lambda>_. False))
     (store (pulses_before_deceleration_update (\<lambda>_. 0)) (store (timer_counter_update (\<lambda>_. 0))
     (store (run_start_time_update (\<lambda>_. 0)) (store (init_cb_update (\<lambda>_. None)) (store (stop_cb_update (\<lambda>_. None))
     (Done True))))))))))))"

definition stop_cb_prog :: "('h \<Rightarrow> 'h) option \<Rightarrow> 'h motor prog" where
  "stop_cb_prog cb = load_state (\<lambda>st. if st \<noteq> StStopped then Done False else store (stop_cb_update (\<lambda>_. cb)) (Done True))"

definition work_prog :: "'h motor_hwa \<Rightarrow> 'h motor prog" where
  "work_prog E =
     store (reset_scheduled_update (\<lambda>_. False)) (load run_state (\<lambda>r. if r \<noteq> Stopped then Done True else
     load config (\<lambda>cfg. (if use_step_toggle cfg then hw_access (hw_write_step E False) else (\<lambda>k. k True)) (\<lambda>ok.
     hw_access (hw_disable E) (\<lambda>ok. load stop_cb (\<lambda>cb.
     case cb of None \<Rightarrow> Done True | Some cb \<Rightarrow> store (\<lambda>s. s\<lparr>hwa := cb (hwa s)\<rparr>) (Done True)))))))"

lemma run_load_state [simp]: "run_prog (load_state k) s = run_prog (k (movement_state s)) s"
  by (simp add: load_state_def movement_state_def)

lemma run_stop: "run_prog (stop_prog force) s = stop_movement force s"
  by (simp add: stop_prog_def stop_movement_def reset_stores_def reset_movement_def Let_def)

lemma fold_table:
  "length t = n \<Longrightarrow> fold (\<lambda>i t. t[i := f i]) [0 ..< k] t = map f [0 ..< min k n] @ drop (min k n) t"
proof (induction k)
  case (Suc k)
  show ?case
  proof (cases "k < n")
    case True
    then have "drop k t = t ! k # drop (Suc k) t" using Suc.prems by (simp add: Cons_nth_drop_Suc)
    then show ?thesis using Suc True by (simp add: list_update_append)
  next
    case False
    then have "length (map f [0 ..< n] @ drop n t) \<le> k" "min k n = n" "min (Suc k) n = n" using Suc.prems by simp_all
    then show ?thesis using Suc by (simp add: list_update_beyond del: length_append length_map length_drop)
  qed
qed simp

lemma run_table_stores:
  "run_prog (table_stores E cfg speed is p) s =
     run_prog p (s\<lparr>accel_lookup_table := fold (\<lambda>i t. t[i := ucast (round_to_nearest (curve E cfg speed i) TIMER_INTERVAL_US)]) is
       (accel_lookup_table s)\<rparr>)"
  by (induction "is" arbitrary: s) simp_all

lemma run_table:
  "length (accel_lookup_table s) = MAX_ACC_STEPS \<Longrightarrow>
   run_prog (table_stores E cfg speed [0 ..< MAX_ACC_STEPS] p) s = run_prog p (s\<lparr>accel_lookup_table := accel_table E cfg speed\<rparr>)"
  by (simp add: run_table_stores fold_table accel_table_def)

lemma run_start: "run_prog (start_prog E info) s = start_movement E info s"
  by (simp add: start_prog_def start_movement_def write_direction_def and_then_def split: prod.split bool.split)

lemma run_init: "run_prog (init_prog E) s = motor_init E s"
  by (simp add: init_prog_def motor_init_def and_then_def split: prod.split)

lemma run_stop_cb: "run_prog (stop_cb_prog cb) s = register_stop_callback cb s"
  by (simp add: stop_cb_prog_def register_stop_callback_def)

lemma run_work: "snd (run_prog (work_prog E) s) = reset_work E s"
  by (auto simp: work_prog_def reset_work_def Let_def split: option.split)

lemma run_setup:
  assumes "length (accel_lookup_table s) = MAX_ACC_STEPS"
  shows "run_prog (setup_prog E info) s = setup_movement E info s"
proof (cases "init_cb s")
  case None
  then show ?thesis using assms
    by (simp add: setup_prog_def setup_movement_def Let_def run_table run_start and_then_def)
next
  case (Some cb)
  obtain ok h where h: "cb info (hwa s) = (ok, h)" by fastforce
  then show ?thesis using assms Some
    by (simp add: setup_prog_def setup_movement_def Let_def run_table run_start and_then_def call_hwa_def)
qed

section \<open>The controller\<close>

text \<open>The accesses of motor \<open>i\<close>, and then \<open>k\<close>.\<close>

primrec on_motor :: "nat \<Rightarrow> 'h motor prog \<Rightarrow> (bool \<Rightarrow> 'h motor_control prog) \<Rightarrow> 'h motor_control prog" where
  "on_motor i (Done b) k = k b"
| "on_motor i (Act f c) k = Act (\<lambda>s. s\<lparr>motors := (motors s)[i := f (motors s ! i)]\<rparr>) (\<lambda>s. on_motor i (c (motors s ! i)) k)"

definition mc_init_prog :: "'h motor_hwa \<Rightarrow> nat list \<Rightarrow> 'h motor_control prog" where
  "mc_init_prog E is = foldr (\<lambda>i p. on_motor i (init_prog E) (\<lambda>ok. if \<not> ok then Done False else p)) is (Done True)"

definition mc_setup_prog :: "'h motor_hwa \<Rightarrow> nat \<Rightarrow> movement \<Rightarrow> 'h motor_control prog" where
  "mc_setup_prog E i info =
     on_motor i (setup_prog E info) (\<lambda>ok. if \<not> ok then Done False else
     Act (timer_started_update (\<lambda>_. True)) (\<lambda>s. if \<not> timer_started s then store (timer_running_update (\<lambda>_. True)) (Done True)
     else Done True))"

text \<open>The loop over the motors, the exchange of \<open>_timer_started\<close> and \<open>_timer.stop()\<close>.\<close>

primrec all_stopped_prog :: "nat list \<Rightarrow> 'h motor_control prog" where
  "all_stopped_prog [] =
     Act (timer_started_update (\<lambda>_. False)) (\<lambda>s. if timer_started s then store (timer_running_update (\<lambda>_. False)) (Done True)
     else Done True)"
| "all_stopped_prog (i # is) = on_motor i (load_state (\<lambda>st. Done (st = StStopped))) (\<lambda>stopped. if stopped then all_stopped_prog is else Done True)"

definition mc_stop_prog :: "nat \<Rightarrow> bool \<Rightarrow> nat list \<Rightarrow> 'h motor_control prog" where
  "mc_stop_prog i force is = on_motor i (stop_prog force) (\<lambda>ok. if \<not> ok then Done False else all_stopped_prog is)"

datatype 'h mc_call =
    CallInit
  | CallSetup nat movement
  | CallStop nat bool
  | CallInitCb nat "(movement \<Rightarrow> 'h \<Rightarrow> bool \<times> 'h) option"
  | CallStopCb nat "('h \<Rightarrow> 'h) option"
  | CallWork nat

text \<open>Indices that fail the assertions of the calls are not called.\<close>

fun call_motor :: "'h mc_call \<Rightarrow> nat option" where
  "call_motor CallInit = None"
| "call_motor (CallSetup i info) = Some i"
| "call_motor (CallStop i force) = Some i"
| "call_motor (CallInitCb i cb) = Some i"
| "call_motor (CallStopCb i cb) = Some i"
| "call_motor (CallWork i) = Some i"

fun call_prog :: "'h motor_hwa \<Rightarrow> nat \<Rightarrow> 'h mc_call \<Rightarrow> 'h motor_control prog" where
  "call_prog E n CallInit = mc_init_prog E [0 ..< n]"
| "call_prog E n (CallSetup i info) = mc_setup_prog E i info"
| "call_prog E n (CallStop i force) = mc_stop_prog i force [0 ..< n]"
| "call_prog E n (CallInitCb i cb) = on_motor i (store (register_init_callback cb) (Done True)) Done"
| "call_prog E n (CallStopCb i cb) = on_motor i (stop_cb_prog cb) Done"
| "call_prog E n (CallWork i) = on_motor i (work_prog E) Done"

lemma run_on_motor:
  "i < length (motors s) \<Longrightarrow>
   run_prog (on_motor i p k) s = (case run_prog p (motors s ! i) of (b, m) \<Rightarrow> run_prog (k b) (s\<lparr>motors := (motors s)[i := m]\<rparr>))"
  by (induction p arbitrary: s) simp_all

lemma run_mc_setup:
  assumes "i < length (motors s)" "length (accel_lookup_table (motors s ! i)) = MAX_ACC_STEPS"
  shows "Some (run_prog (mc_setup_prog E i info) s) = mc_setup_movement E i info s"
  using assms by (simp add: mc_setup_prog_def mc_setup_movement_def run_on_motor run_setup split: prod.split bool.split)

lemma run_all_stopped:
  "\<forall>i \<in> set is. i < length (motors s) \<Longrightarrow>
   run_prog (all_stopped_prog is) s = (True, if \<forall>i \<in> set is. movement_state (motors s ! i) = StStopped then mc_stop_timer s else s)"
  by (induction "is") (auto simp: run_on_motor mc_stop_timer_def)

lemma run_mc_stop:
  assumes "i < length (motors s)"
  shows "Some (run_prog (mc_stop_prog i force [0 ..< length (motors s)]) s) = mc_stop_movement i force s"
  using assms
  by (auto simp: mc_stop_prog_def mc_stop_movement_def run_on_motor run_stop run_all_stopped Let_def list_all_length split: prod.split bool.split)

section \<open>Threads and the timer\<close>

text \<open>
  The calls in progress are a list. A new call starts with its first access, any call may do its next
  access, one that is done returns, and the timer interrupt runs to its end (one core).
\<close>

inductive mc_threads :: "'h motor_hwa \<Rightarrow> 'h motor_control \<Rightarrow> 'h motor_control prog list \<Rightarrow> bool" for E where
  threads_new: "mc_threads E (mc_new (map (\<lambda>(h, cfg). motor_new h cfg) hs)) []"
| threads_call: "mc_threads E s ts \<Longrightarrow> (\<forall>i. call_motor c = Some i \<longrightarrow> i < length (motors s)) \<Longrightarrow>
    mc_threads E s (ts @ [call_prog E (length (motors s)) c])"
| threads_access: "mc_threads E s ts \<Longrightarrow> t < length ts \<Longrightarrow> ts ! t = Act f k \<Longrightarrow> mc_threads E (f s) (ts[t := k s])"
| threads_return: "mc_threads E s ts \<Longrightarrow> t < length ts \<Longrightarrow> ts ! t = Done b \<Longrightarrow> mc_threads E s (take t ts @ drop (Suc t) ts)"
| threads_timer: "mc_threads E s ts \<Longrightarrow> timer_running s \<Longrightarrow> mc_threads E (check_motors E s) ts"

end
