(* ===== verification/Motor_Control_Properties.thy ===== *)
theory Motor_Control_Properties
  imports Motor_Control_Phases Motor_Control_Interleaving
begin

text \<open>
  The properties of the motor controller: its invariants over the interleavings of the accesses of
  its calls and of whole calls with the timer and the work queue, the number of pulses of a movement,
  and that a stop request is carried out; then the interleaving that leaves a motor stopping for ever.
\<close>

section \<open>Sessions of the controller\<close>

inductive mc_step :: "'h motor_hwa \<Rightarrow> 'h motor_control \<Rightarrow> 'h motor_control \<Rightarrow> bool" for E where
  step_init: "mc_init E s = (ok, s') \<Longrightarrow> mc_step E s s'"
| step_setup: "mc_setup_movement E i info s = Some (ok, s') \<Longrightarrow> mc_step E s s'"
| step_stop: "mc_stop_movement i force s = Some (ok, s') \<Longrightarrow> mc_step E s s'"
| step_init_cb: "mc_register_init_callback i cb s = Some s' \<Longrightarrow> mc_step E s s'"
| step_stop_cb: "mc_register_stop_callback i cb' s = Some (ok, s') \<Longrightarrow> mc_step E s s'"
| step_timer: "timer_running s \<Longrightarrow> mc_step E s (check_motors E s)"
| step_work: "i < length (motors s) \<Longrightarrow> reset_scheduled (motors s ! i) \<Longrightarrow>
    mc_step E s (s\<lparr>motors := (motors s)[i := reset_work E (motors s ! i)]\<rparr>)"

inductive mc_reachable :: "'h motor_hwa \<Rightarrow> 'h motor_control \<Rightarrow> bool" for E where
  reachable_new: "mc_reachable E (mc_new (map (\<lambda>(h, cfg). motor_new h cfg) hs))"
| reachable_step: "mc_reachable E s \<Longrightarrow> mc_step E s s' \<Longrightarrow> mc_reachable E s'"

definition mc_ok :: "'h motor_control \<Rightarrow> bool" where
  "mc_ok s \<longleftrightarrow> (\<forall>m \<in> set (motors s). motor_ok m) \<and> timer_started s = timer_running s \<and>
     ((\<exists>m \<in> set (motors s). movement_state m \<noteq> StStopped) \<longrightarrow> timer_running s)"

text \<open>What the operations do to the movement state of one motor.\<close>

lemma call_hwa_state: "call_hwa f s = (ok, t) \<Longrightarrow> movement_state t = movement_state s"
  by (auto dest!: call_hwa_same simp: movement_state_def)

lemma motor_init_state: "motor_init E s = (ok, t) \<Longrightarrow> movement_state t = StStopped \<or> movement_state t = movement_state s"
proof -
  assume r: "motor_init E s = (ok, t)"
  obtain b u where u: "call_hwa (hw_init E) s = (b, u)" by fastforce
  show ?thesis using r call_hwa_state [OF u] by (cases b) (auto simp: motor_init_def u movement_state_def)
qed

lemma call_hwa_state' [simp]: "movement_state (snd (call_hwa f s)) = movement_state s"
  by (rule call_hwa_state [of f s "fst (call_hwa f s)"]) simp

lemma movement_state_table: "movement_state (s\<lparr>accel_lookup_table := x, pulses_before_deceleration := y\<rparr>) = movement_state s"
  by (simp add: movement_state_def)

lemma setup_fails_state: "fst (setup_movement E info s) \<or> movement_state (snd (setup_movement E info s)) = movement_state s"
proof (rule setup_post [where P = "\<lambda>t. movement_state t = movement_state s" and Q = "\<lambda>r. fst r \<or> movement_state (snd r) = movement_state s"])
  fix t :: "'a motor"
  let ?t = "t\<lparr>accel_lookup_table := accel_table E (config t) (mv_speed info),
       pulses_before_deceleration := (if mv_pulses info \<noteq> 0 then mv_pulses info - mv_pulses info div 2 else 0)\<rparr>"
  assume t: "movement_state t = movement_state s"
  then have "movement_state ?t = movement_state s" by (simp only: movement_state_table)
  then show "fst (start_movement E info ?t) \<or> movement_state (snd (start_movement E info ?t)) = movement_state s"
    unfolding start_movement_def write_direction_def
    by (intro and_then_post [where P = "\<lambda>t. movement_state t = movement_state s" and Q = "\<lambda>r. fst r \<or> movement_state (snd r) = movement_state s"])
      (auto dest: call_hwa_state split: prod.splits bool.splits)
  show "fst (False, t) \<or> movement_state (snd (False, t)) = movement_state s" using t by simp
qed simp_all

lemma stop_state: "stop_movement force s = (False, t) \<Longrightarrow> t = s"
  by (auto simp: stop_movement_def Let_def split: if_splits)

lemma work_state: "movement_state (reset_work E s) = movement_state s"
  by (auto simp: reset_work_def Let_def movement_state_def call_hwa_def split: option.split prod.split)

lemma callback_state [simp]:
  "movement_state (register_init_callback cb s) = movement_state s"
  "movement_state (snd (register_stop_callback cb' s)) = movement_state s"
  by (auto simp: register_init_callback_def register_stop_callback_def movement_state_def)

lemma callback_ok [simp]:
  "motor_ok s \<Longrightarrow> motor_ok (register_init_callback cb s)" "motor_ok s \<Longrightarrow> motor_ok (snd (register_stop_callback cb' s))"
  by (auto simp: register_init_callback_def register_stop_callback_def motor_ok_def)

section \<open>The invariant of the controller\<close>

text \<open>One motor is replaced by one in a good state that has not started to move.\<close>

lemma mc_ok_update:
  assumes "mc_ok s" "i < length (motors s)" "motor_ok m" "movement_state m = StStopped \<or> movement_state m = movement_state (motors s ! i)"
  shows "mc_ok (s\<lparr>motors := (motors s)[i := m]\<rparr>)"
proof -
  have s: "\<forall>m \<in> set (motors s). motor_ok m" "\<exists>m \<in> set (motors s). movement_state m \<noteq> StStopped \<Longrightarrow> timer_running s"
    using assms(1) by (auto simp: mc_ok_def)
  have "\<forall>x \<in> set ((motors s)[i := m]). motor_ok x" using s(1) assms(3) by (auto dest: set_update_subset_insert [THEN subsetD])
  moreover have "timer_running s" if "x \<in> set ((motors s)[i := m])" "movement_state x \<noteq> StStopped" for x
  proof -
    have "x = m \<or> x \<in> set (motors s)" using that(1) by (auto dest: set_update_subset_insert [THEN subsetD])
    then show ?thesis using that(2) assms(4) s(2) nth_mem [OF assms(2)] by (metis (no_types, lifting))
  qed
  ultimately show ?thesis using assms(1) by (auto simp: mc_ok_def)
qed

lemma init_motors_ok:
  "init_motors E ms = (ok, ms') \<Longrightarrow> \<forall>m \<in> set ms. motor_ok m \<Longrightarrow>
    (\<forall>m \<in> set ms'. motor_ok m) \<and> ((\<exists>m \<in> set ms'. movement_state m \<noteq> StStopped) \<longrightarrow> (\<exists>m \<in> set ms. movement_state m \<noteq> StStopped))"
proof (induction ms arbitrary: ok ms')
  case (Cons m ms)
  obtain b u where u: "motor_init E m = (b, u)" by fastforce
  have "motor_ok u" "movement_state u = StStopped \<or> movement_state u = movement_state m"
    using motor_ok_init [of m E] motor_init_state [OF u] u Cons.prems(2) by simp_all
  moreover obtain b' us where us: "init_motors E ms = (b', us)" by fastforce
  moreover note Cons.IH [OF us]
  ultimately show ?case using Cons.prems u by (cases b) auto
qed simp

lemma mc_ok_timer_stop: "mc_ok s \<Longrightarrow> \<forall>m \<in> set (motors s). movement_state m = StStopped \<Longrightarrow> mc_ok (mc_stop_timer s)"
  by (simp add: mc_ok_def mc_stop_timer_def)

lemma mc_ok_step: "mc_step E s s' \<Longrightarrow> mc_ok s \<Longrightarrow> mc_ok s'"
proof (induction rule: mc_step.induct)
  case (step_init s ok s')
  obtain b ms where ms: "init_motors E (motors s) = (b, ms)" by fastforce
  then show ?case using init_motors_ok [OF ms] step_init by (auto simp: mc_init_def mc_ok_def)
next
  case (step_setup i info s ok s')
  obtain b m where m: "setup_movement E info (motors s ! i) = (b, m)" by fastforce
  have i: "i < length (motors s)" using step_setup(1) by (simp add: mc_setup_movement_def split: if_splits)
  then have ok: "motor_ok m" using motor_ok_setup [of "motors s ! i" E info] m step_setup(2) by (simp add: mc_ok_def)
  show ?case
  proof (cases b)
    case True
    have "\<forall>x \<in> set ((motors s)[i := m]). motor_ok x"
      using step_setup(2) ok by (auto simp: mc_ok_def dest: set_update_subset_insert [THEN subsetD])
    then show ?thesis using step_setup m True i by (auto simp: mc_setup_movement_def Let_def mc_ok_def)
  next
    case False
    then have "s' = s\<lparr>motors := (motors s)[i := m]\<rparr>" using step_setup(1) m i by (simp add: mc_setup_movement_def)
    then show ?thesis using mc_ok_update [OF step_setup(2) i ok] setup_fails_state [of E info "motors s ! i"] m False by simp
  qed
next
  case (step_stop i force s ok s')
  obtain b m where m: "stop_movement force (motors s ! i) = (b, m)" by fastforce
  have i: "i < length (motors s)" using step_stop(1) by (simp add: mc_stop_movement_def split: if_splits)
  then have mo: "motor_ok (motors s ! i)" using step_stop(2) by (simp add: mc_ok_def)
  then have ok: "motor_ok m" using motor_ok_stop [of "motors s ! i" force] m by simp
  show ?case
  proof (cases b)
    case False
    then have "m = motors s ! i" using stop_state [of force "motors s ! i" m] m by simp
    then show ?thesis using step_stop m False i by (simp add: mc_stop_movement_def)
  next
    case True
    have mv: "movement_state (motors s ! i) \<noteq> StStopped" using m True by (auto simp: stop_movement_def split: if_splits)
    then have run: "timer_running s" "timer_started s = timer_running s" using step_stop(2) i nth_mem [OF i] by (auto simp: mc_ok_def)
    have "\<forall>x \<in> set ((motors s)[i := m]). motor_ok x"
      using step_stop(2) ok by (auto simp: mc_ok_def dest: set_update_subset_insert [THEN subsetD])
    then have "mc_ok (s\<lparr>motors := (motors s)[i := m]\<rparr>)" using run by (simp add: mc_ok_def)
    then show ?thesis using step_stop(1) m True i mc_ok_timer_stop [of "s\<lparr>motors := (motors s)[i := m]\<rparr>"]
      by (auto simp: mc_stop_movement_def Let_def list_all_iff split: if_splits)
  qed
next
  case (step_init_cb i cb s s')
  then have i: "i < length (motors s)" by (simp add: mc_register_init_callback_def split: if_splits)
  then have "motor_ok (register_init_callback cb (motors s ! i))" using step_init_cb(2) by (simp add: mc_ok_def)
  with mc_ok_update [OF step_init_cb(2) i this] step_init_cb(1) i show ?case
    by (simp add: mc_register_init_callback_def)
next
  case (step_stop_cb i cb' s ok s')
  then have i: "i < length (motors s)" by (simp add: mc_register_stop_callback_def split: if_splits)
  then have "motor_ok (snd (register_stop_callback cb' (motors s ! i)))" using step_stop_cb(2) by (simp add: mc_ok_def)
  with mc_ok_update [OF step_stop_cb(2) i this] step_stop_cb(1) i show ?case
    by (auto simp: mc_register_stop_callback_def split: prod.splits)
next
  case (step_timer s)
  let ?s = "s\<lparr>motors := map (motor_tick E) (motors s)\<rparr>"
  have "mc_ok ?s" using step_timer motor_ok_tick by (auto simp: mc_ok_def)
  then show ?case using mc_ok_timer_stop [of ?s] by (auto simp: check_motors_def Let_def list_ex_iff)
next
  case (step_work i s)
  then have "motor_ok (reset_work E (motors s ! i))" by (simp add: motor_ok_work mc_ok_def)
  then show ?case using mc_ok_update [OF step_work(3) step_work(1)] by (simp add: work_state)
qed

lemma reachable_ok: "mc_reachable E s \<Longrightarrow> mc_ok s"
proof (induction rule: mc_reachable.induct)
  case (reachable_new hs)
  show ?case by (auto simp: mc_ok_def mc_new_def motor_ok_new) (simp add: motor_new_def movement_state_def)
qed (rule mc_ok_step)

section \<open>Stopping\<close>

text \<open>A count that a pulse raises by at most one, whether the hardware takes the pulse or not.\<close>

definition pulse_bounded :: "'h motor_hwa \<Rightarrow> ('h \<Rightarrow> nat) \<Rightarrow> bool" where
  "pulse_bounded E n \<longleftrightarrow>
     (\<forall>h. n (snd (hw_toggle_step E h)) \<le> Suc (n h) \<and> n (snd (hw_write_step E True h)) \<le> Suc (n h) \<and> n (snd (hw_write_step E False h)) \<le> n h)"

lemma send_pulse_bounded:
  assumes "pulse_bounded E n"
  shows "\<exists>h. snd (send_pulse E s) = s\<lparr>hwa := h\<rparr> \<and> n h \<le> Suc (n (hwa s))"
proof -
  note b = assms [unfolded pulse_bounded_def, rule_format]
  show ?thesis
  proof (cases "use_step_toggle (config s)")
    case True
    then show ?thesis using b [of "hwa s"] by (simp add: send_pulse_def call_hwa_def split: prod.splits) auto
  next
    case False
    obtain ok h where h: "hw_write_step E True (hwa s) = (ok, h)" by fastforce
    then have "n h \<le> Suc (n (hwa s))" "n (snd (hw_write_step E False h)) \<le> n h" using b [of "hwa s"] b [of h] by simp_all
    then show ?thesis using False h by (cases ok) (auto simp: send_pulse_def call_hwa_def split: prod.splits)
  qed
qed

lemma due_decelerating:
  assumes "run_state s = Decelerating" "acceleration_counter s = int c" "pulse_bounded E n"
  shows "(movement_state (pulse_due E s) = StStopped \<and> n (hwa (pulse_due E s)) \<le> n (hwa s) + (if c > 1 then 1 else 0)) \<or>
    (c > 1 \<and> run_state (pulse_due E s) = Decelerating \<and> acceleration_counter (pulse_due E s) = int (c - 1) \<and>
     n (hwa (pulse_due E s)) \<le> Suc (n (hwa s)))"
proof (cases "c > 1")
  case False
  then have "run_state (advance_run_state s) = Stopped" using assms(1,2) by (simp add: advance_run_state_def Let_def)
  then show ?thesis using due_stops [of s E] by simp
next
  case True
  let ?s = "s\<lparr>timer_counter := 0\<rparr>"
  have a: "run_state (advance_run_state ?s) = Decelerating" "acceleration_counter (advance_run_state ?s) = int (c - 1)"
    "hwa (advance_run_state ?s) = hwa s" using True assms(1,2) by (simp_all add: advance_run_state_def Let_def)
  obtain b u where u: "calculate_next_pulse E ?s = (b, u)" by fastforce
  show ?thesis
  proof (cases b)
    case False
    then have "movement_state u = StStopped" "hwa u = hwa s" using u a(3) by (auto simp: calculate_next_pulse_def Let_def split: if_splits)
    then show ?thesis using u False by (simp add: pulse_due_def)
  next
    case sent: True
    then have "u = advance_run_state ?s" using u by (auto simp: calculate_next_pulse_def Let_def split: if_splits)
    moreover obtain h where "snd (send_pulse E u) = u\<lparr>hwa := h\<rparr>" "n h \<le> Suc (n (hwa u))" using send_pulse_bounded [OF assms(3)] by blast
    ultimately show ?thesis using u sent a True
      by (cases "send_pulse E u"; cases "fst (send_pulse E u)") (simp_all add: pulse_due_def)
  qed
qed

lemma decelerating_ends:
  assumes "pulse_bounded E n"
  shows "run_state s = Decelerating \<Longrightarrow> acceleration_counter s = int c \<Longrightarrow>
    \<exists>t. reaches E s t \<and> movement_state t = StStopped \<and> n (hwa t) \<le> n (hwa s) + (c - 1)"
proof (induction c arbitrary: s rule: less_induct)
  case (less c)
  have r: "reaches E s (pulse_due E s)" using less.prems(1) by (intro reaches_due) (simp add: movement_state_def)
  from due_decelerating [OF less.prems assms] show ?case
  proof
    assume "movement_state (pulse_due E s) = StStopped \<and> n (hwa (pulse_due E s)) \<le> n (hwa s) + (if c > 1 then 1 else 0)"
    then show ?thesis using r by (intro exI [of _ "pulse_due E s"]) (auto split: if_splits)
  next
    assume d: "c > 1 \<and> run_state (pulse_due E s) = Decelerating \<and> acceleration_counter (pulse_due E s) = int (c - 1) \<and>
      n (hwa (pulse_due E s)) \<le> Suc (n (hwa s))"
    then obtain t where "reaches E (pulse_due E s) t" "movement_state t = StStopped" "n (hwa t) \<le> n (hwa (pulse_due E s)) + (c - 1 - 1)"
      using less.IH [of "c - 1" "pulse_due E s"] by auto
    then show ?thesis using reaches_trans [OF r] d by (intro exI [of _ t]) auto
  qed
qed

section \<open>Properties\<close>

text \<open>C20. A movement with a number of pulses and no time limit, on hardware that takes every pulse, ends after finitely many timer
  ticks. It has then sent all of its pulses only when they are few: it starts to decelerate once half of them are sent and stops
  when the 127 steps of the deceleration are used up, so a longer movement ends about half way.\<close>

theorem motor_pulses_sent:
  assumes "setup_movement E info s = (True, t)" "mv_pulses info \<noteq> 0" "mv_max_run_time info = 0" "pulse_counts E n"
  shows "\<exists>N. movement_state (ticks E N t) = StStopped \<and>
    n (hwa (ticks E N t)) = n (hwa t) +
      min (unat (mv_pulses info)) (max 128 (unat (mv_pulses info) - unat (mv_pulses info) div 2) + 127)"
proof -
  have "fst (setup_movement E info s) \<longrightarrow> phase n (n (hwa (snd (setup_movement E info s)))) (mv_pulses info) Accelerating 0 0 (snd (setup_movement E info s))"
  proof (rule setup_post [where P = "\<lambda>t. True" and Q = "\<lambda>r. fst r \<longrightarrow> phase n (n (hwa (snd r))) (mv_pulses info) Accelerating 0 0 (snd r)"])
    fix u :: "'a motor"
    let ?u = "u\<lparr>accel_lookup_table := accel_table E (config u) (mv_speed info),
       pulses_before_deceleration := (if mv_pulses info \<noteq> 0 then mv_pulses info - mv_pulses info div 2 else 0)\<rparr>"
    obtain b v where v: "call_hwa (hw_enable E) ?u = (b, v)" by fastforce
    obtain b' w where w: "write_direction E (mv_direction info) v = (b', w)" by fastforce
    have "length (accel_lookup_table w) = 128" "pulses_before_deceleration w = mv_pulses info - mv_pulses info div 2"
      using call_hwa_same [OF v] call_hwa_same [OF w [unfolded write_direction_def]] assms(2) by (auto simp: MAX_ACC_STEPS_def)
    then show "fst (start_movement E info ?u) \<longrightarrow>
        phase n (n (hwa (snd (start_movement E info ?u)))) (mv_pulses info) Accelerating 0 0 (snd (start_movement E info ?u))"
      using v w assms(2,3) by (cases b; cases b') (auto simp: start_movement_def phase_def)
  qed simp_all
  then have "phase n (n (hwa t)) (mv_pulses info) Accelerating 0 0 t" using assms(1) by simp
  from phase_accelerating [OF assms(2,4) _ this] show ?thesis by (auto simp: ends_with_def reaches_def)
qed

definition test_hwa :: "nat motor_hwa" where
  "test_hwa = \<lparr>hw_init = \<lambda>h. (True, h), hw_enable = \<lambda>h. (True, h), hw_disable = \<lambda>h. (True, h),
     hw_write_step = \<lambda>b h. (True, if b then Suc h else h), hw_toggle_step = \<lambda>h. (True, Suc h),
     hw_set_direction = \<lambda>d h. (True, h), uptime = \<lambda>h. 1, curve = \<lambda>c v i. 1500\<rparr>"

definition test_config :: motor_config where
  "test_config = \<lparr>k_curve = 1 / 10, start_interval_us = 1500, end_interval_us = 100, use_step_toggle = False\<rparr>"

text \<open>A movement of a thousand pulses ends after 627.\<close>

theorem motor_pulses_sent_witness:
  "\<exists>N. movement_state (ticks test_hwa N (snd (setup_movement test_hwa \<lparr>mv_direction = Cw, mv_speed = 100, mv_pulses = 1000, mv_max_run_time = 0\<rparr>
        (motor_new 0 test_config)))) = StStopped \<and>
    hwa (ticks test_hwa N (snd (setup_movement test_hwa \<lparr>mv_direction = Cw, mv_speed = 100, mv_pulses = 1000, mv_max_run_time = 0\<rparr>
        (motor_new 0 test_config)))) = 627"
proof -
  let ?i = "\<lparr>mv_direction = Cw, mv_speed = 100, mv_pulses = 1000, mv_max_run_time = 0\<rparr>"
  have s: "setup_movement test_hwa ?i (motor_new 0 test_config) = (True, snd (setup_movement test_hwa ?i (motor_new 0 test_config)))"
    "hwa (snd (setup_movement test_hwa ?i (motor_new 0 test_config))) = 0"
    by (simp_all add: setup_movement_def start_movement_def motor_new_def movement_state_def test_hwa_def test_config_def call_hwa_def
        write_direction_def Let_def)
  have "pulse_counts test_hwa (\<lambda>h. h)" by (simp add: pulse_counts_def test_hwa_def)
  from motor_pulses_sent [OF s(1) _ _ this] show ?thesis by (simp add: s(2))
qed

text \<open>C21. An accepted request to stop, forced or not, is carried out: after finitely many ticks the motor is stopped, with at most 127
  pulses more and none at all when forced, whatever the hardware answers.\<close>

theorem motor_stop_is_carried_out:
  assumes "mc_reachable E s" "i < length (motors s)" "stop_movement force (motors s ! i) = (True, m)" "pulse_bounded E n"
  shows "\<exists>N. movement_state (ticks E N m) = StStopped \<and> n (hwa (ticks E N m)) \<le> n (hwa m) + (if force then 0 else 127)"
proof -
  have ok: "motor_ok (motors s ! i)" using reachable_ok [OF assms(1)] assms(2) by (simp add: mc_ok_def)
  show ?thesis
  proof (cases force)
    case True
    then have "movement_state m = StStopped" using assms(3) by (auto simp: stop_movement_def split: if_splits)
    then show ?thesis using True stopped_ticks [of m E 0] by (intro exI [of _ 0]) simp
  next
    case False
    have "run_state m = Decelerating" "acceleration_counter m = acceleration_counter (motors s ! i)"
      using assms(3) False by (auto simp: stop_movement_def Let_def movement_state_def split: if_splits)
        (metis run_state.exhaust)
    moreover obtain c where "acceleration_counter (motors s ! i) = int c" "c \<le> 127"
      using ok zero_le_imp_eq_int by (fastforce simp: motor_ok_def MAX_ACC_STEPS_def)
    ultimately obtain t where "reaches E m t" "movement_state t = StStopped" "n (hwa t) \<le> n (hwa m) + (c - 1)"
      using decelerating_ends [OF assms(4), of m c] by auto
    then show ?thesis using False \<open>c \<le> 127\<close> by (auto simp: reaches_def)
  qed
qed

theorem motor_stop_is_carried_out_witness:
  "\<exists>N. movement_state (ticks test_hwa N (snd (stop_movement False (motors (snd (the (mc_setup_movement test_hwa 0
        \<lparr>mv_direction = Cw, mv_speed = 100, mv_pulses = 1000, mv_max_run_time = 0\<rparr> (mc_new [motor_new 0 test_config])))) ! 0)))) = StStopped"
proof -
  let ?i = "\<lparr>mv_direction = Cw, mv_speed = 100, mv_pulses = 1000, mv_max_run_time = 0\<rparr>"
  let ?s = "mc_new [motor_new 0 test_config] :: nat motor_control"
  let ?r = "the (mc_setup_movement test_hwa 0 ?i ?s)"
  have r: "mc_setup_movement test_hwa 0 ?i ?s = Some (fst ?r, snd ?r)" by (simp add: mc_setup_movement_def mc_new_def)
  have "mc_reachable test_hwa (mc_new (map (\<lambda>(h, cfg). motor_new h cfg) [(0, test_config)]))" by (rule reachable_new)
  then have "mc_reachable test_hwa (snd ?r)" by (intro reachable_step [OF _ step_setup [OF r]]) simp
  moreover have "0 < length (motors (snd ?r))" "fst (stop_movement False (motors (snd ?r) ! 0))"
    by (simp_all add: mc_setup_movement_def mc_new_def setup_movement_def start_movement_def motor_new_def movement_state_def
        test_hwa_def test_config_def call_hwa_def write_direction_def stop_movement_def Let_def)
  moreover have "pulse_bounded test_hwa (\<lambda>h. h)" by (simp add: pulse_bounded_def test_hwa_def)
  ultimately show ?thesis
    using motor_stop_is_carried_out [of test_hwa "snd ?r" 0 False "snd (stop_movement False (motors (snd ?r) ! 0))" "\<lambda>h. h"]
    by (metis prod.collapse)
qed

text \<open>C19. However the accesses of the calls of several threads and the timer interrupt interleave, the acceleration table keeps
  its 128 entries and the counter that indexes it stays inside of them. When the calls, the timer and the work queue interleave as
  wholes, a requested stop is always a deceleration, and the timer runs while any motor is not stopped.\<close>

theorem motor_control_invariant:
  "(mc_threads E s ts \<longrightarrow> (\<forall>m \<in> set (motors s). length (accel_lookup_table m) = MAX_ACC_STEPS \<and>
        0 \<le> acceleration_counter m \<and> acceleration_counter m < int MAX_ACC_STEPS)) \<and>
   (mc_reachable E s \<longrightarrow> (\<forall>m \<in> set (motors s). movement_state m = StStopping \<longrightarrow> run_state m = Decelerating) \<and>
        ((\<exists>m \<in> set (motors s). movement_state m \<noteq> StStopped) \<longrightarrow> timer_running s))"
proof -
  have "\<forall>m \<in> set (motors s). motor_bounds m" if "mc_threads E s ts"
    using threads_bounds [OF that] by (simp add: mc_bounds_def)
  then show ?thesis using reachable_ok [of E s] by (auto simp: mc_ok_def motor_ok_def motor_bounds_def movement_state_def split: if_splits)
qed

text \<open>The start of a movement, as one call and access by access.\<close>

lemma threads_run: "mc_threads E s (ts @ [p]) \<Longrightarrow> mc_threads E (snd (run_prog p s)) ts"
proof (induction p arbitrary: s)
  case (Done b)
  have "mc_threads E s (take (length ts) (ts @ [prog.Done b]) @ drop (Suc (length ts)) (ts @ [prog.Done b]))"
    by (rule threads_return [OF Done, where t = "length ts"]) simp_all
  then show ?case by simp
next
  case (Act f k)
  have "mc_threads E (f s) ((ts @ [prog.Act f k])[length ts := k s])"
    by (rule threads_access [OF Act.prems, where t = "length ts"]) simp_all
  then show ?case using Act.IH [of "k s" "f s"] by simp
qed

theorem motor_control_invariant_witness:
  "timer_running (snd (the (mc_setup_movement test_hwa 0
      \<lparr>mv_direction = Cw, mv_speed = 100, mv_pulses = 1000, mv_max_run_time = 0\<rparr> (mc_new [motor_new (0 :: nat) test_config])))) \<and>
    acceleration_counter (motors (snd (run_prog (mc_setup_prog test_hwa 0
      \<lparr>mv_direction = Cw, mv_speed = 100, mv_pulses = 1000, mv_max_run_time = 0\<rparr>) (mc_new [motor_new (0 :: nat) test_config]))) ! 0)
      < int MAX_ACC_STEPS"
proof -
  let ?i = "\<lparr>mv_direction = Cw, mv_speed = 100, mv_pulses = 1000, mv_max_run_time = 0\<rparr>"
  let ?s = "mc_new [motor_new 0 test_config] :: nat motor_control"
  let ?r = "the (mc_setup_movement test_hwa 0 ?i ?s)" and ?p = "mc_setup_prog test_hwa 0 ?i"
  have r: "mc_setup_movement test_hwa 0 ?i ?s = Some (fst ?r, snd ?r)" by (simp add: mc_setup_movement_def mc_new_def)
  have "mc_reachable test_hwa (mc_new (map (\<lambda>(h, cfg). motor_new h cfg) [(0, test_config)]))" by (rule reachable_new)
  then have reach: "mc_reachable test_hwa (snd ?r)" by (intro reachable_step [OF _ step_setup [OF r]]) simp
  have "mc_threads test_hwa (mc_new (map (\<lambda>(h, cfg). motor_new h cfg) [(0, test_config)])) []" by (rule threads_new)
  then have "mc_threads test_hwa ?s [?p]" using threads_call [of test_hwa ?s "[]" "CallSetup 0 ?i"] by (simp add: mc_new_def)
  then have thr: "mc_threads test_hwa (snd (run_prog ?p ?s)) []" using threads_run [of test_hwa ?s "[]"] by simp
  have eq: "run_prog ?p ?s = ?r"
    using run_mc_setup [of 0 ?s test_hwa ?i] by (simp add: mc_new_def motor_new_def) (metis option.sel)
  have "length (motors (snd ?r)) = 1" "movement_state (motors (snd ?r) ! 0) \<noteq> StStopped"
    by (simp_all add: mc_setup_movement_def mc_new_def setup_movement_def start_movement_def motor_new_def movement_state_def
        test_hwa_def test_config_def call_hwa_def write_direction_def Let_def)
  moreover from this(1) have "motors (snd ?r) ! 0 \<in> set (motors (snd ?r))" by simp
  ultimately show ?thesis
    using motor_control_invariant [of test_hwa "snd ?r" "[]"] reach thr unfolding eq by blast
qed

section \<open>An interrupt inside of stop_movement\<close>

text \<open>Some accesses of the last call.\<close>

primrec run_some :: "nat \<Rightarrow> 's prog \<Rightarrow> 's \<Rightarrow> 's prog \<times> 's" where
  "run_some 0 p s = (p, s)"
| "run_some (Suc n) p s = (case p of Done b \<Rightarrow> (Done b, s) | Act f k \<Rightarrow> run_some n (k s) (f s))"

lemma threads_some: "mc_threads E s (ts @ [p]) \<Longrightarrow> mc_threads E (snd (run_some n p s)) (ts @ [fst (run_some n p s)])"
proof (induction n arbitrary: p s)
  case (Suc n)
  show ?case
  proof (cases p)
    case (Act f k)
    have "mc_threads E (f s) ((ts @ [p])[length ts := k s])"
      by (rule threads_access [OF Suc.prems, where t = "length ts"]) (simp_all add: Act)
    then show ?thesis using Suc.IH [of "f s" "k s"] Act by simp
  qed (use Suc.prems in simp)
qed simp

text \<open>A motor that takes a pulse at each interrupt, and a movement of one pulse.\<close>

definition fast_hwa :: "nat motor_hwa" where
  "fast_hwa = test_hwa\<lparr>curve := \<lambda>c v i. 100\<rparr>"

definition one_pulse :: movement where
  "one_pulse = \<lparr>mv_direction = Cw, mv_speed = 100, mv_pulses = 1, mv_max_run_time = 0\<rparr>"

definition moving_motor :: "nat motor_control" where
  "moving_motor = check_motors fast_hwa (snd (run_prog (mc_setup_prog fast_hwa 0 one_pulse) (mc_new [motor_new 0 test_config])))"

text \<open>
  \<open>stop_movement\<close> finds the motor moving; the interrupt ends the movement and stops the timer; then the
  call sets \<open>_stop_requested\<close> and returns true. The motor is stopping from then on: the timer is off, and
  neither another stop nor a new movement is accepted.
\<close>

definition stuck_motor :: "nat motor_control" where
  "stuck_motor =
     (case run_some 4 (mc_stop_prog 0 False [0 ..< 1]) moving_motor of (p, s) \<Rightarrow> snd (run_prog p (check_motors fast_hwa s)))"

lemma moving_motor_threads: "mc_threads fast_hwa moving_motor []"
proof -
  let ?s = "mc_new [motor_new 0 test_config] :: nat motor_control" and ?p = "mc_setup_prog fast_hwa 0 one_pulse"
  have "mc_threads fast_hwa (mc_new (map (\<lambda>(h, cfg). motor_new h cfg) [(0, test_config)])) []" by (rule threads_new)
  then have "mc_threads fast_hwa ?s [?p]" using threads_call [of fast_hwa ?s "[]" "CallSetup 0 one_pulse"] by (simp add: mc_new_def)
  then have "mc_threads fast_hwa (snd (run_prog ?p ?s)) []" using threads_run [of fast_hwa ?s "[]"] by simp
  moreover have "timer_running (snd (run_prog ?p ?s))"
  proof -
    have "run_prog ?p ?s = the (mc_setup_movement fast_hwa 0 one_pulse ?s)"
      using run_mc_setup [of 0 ?s fast_hwa one_pulse] by (simp add: mc_new_def motor_new_def) (metis option.sel)
    then show ?thesis
      by (simp add: mc_setup_movement_def mc_new_def setup_movement_def start_movement_def motor_new_def movement_state_def
        fast_hwa_def one_pulse_def test_hwa_def test_config_def call_hwa_def write_direction_def Let_def)
  qed
  ultimately show ?thesis unfolding moving_motor_def by (rule threads_timer)
qed

lemma fast_table: "i < MAX_ACC_STEPS \<Longrightarrow> accel_table fast_hwa cfg v ! i = 100"
  by (simp add: accel_table_def fast_hwa_def test_hwa_def round_to_nearest_def TIMER_INTERVAL_US_def)

lemma moving_motor_eq:
  "moving_motor = \<lparr>motors = [\<lparr>hwa = 1, config = test_config, run_state = Accelerating, timer_interval_us = 100, acceleration_counter = 1,
      movement_pulses_sent = 1, movement = one_pulse, init_cb = None, stop_cb = None, stop_requested = False, pulses_before_deceleration = 1,
      accel_lookup_table = accel_table fast_hwa test_config 100, timer_counter = 0, run_start_time = 1, reset_scheduled = False\<rparr>],
      timer_started = True, timer_running = True\<rparr>"
proof -
  let ?s = "mc_new [motor_new 0 test_config] :: nat motor_control"
  have "run_prog (mc_setup_prog fast_hwa 0 one_pulse) ?s = the (mc_setup_movement fast_hwa 0 one_pulse ?s)"
    using run_mc_setup [of 0 ?s fast_hwa one_pulse] by (simp add: mc_new_def motor_new_def) (metis option.sel)
  moreover have "hw_enable fast_hwa = (\<lambda>h. (True, h))" "hw_set_direction fast_hwa = (\<lambda>d h. (True, h))" "hw_write_step fast_hwa = (\<lambda>b h. (True, if b then Suc h else h))"
    "uptime fast_hwa = (\<lambda>h. 1)" by (simp_all add: fast_hwa_def test_hwa_def)
  moreover have "accel_table fast_hwa test_config 100 ! 0 = 100" "accel_table fast_hwa test_config 100 ! Suc 0 = 100"
    by (simp_all add: fast_table MAX_ACC_STEPS_def)
  ultimately show ?thesis unfolding moving_motor_def
    by (simp add: mc_setup_movement_def mc_new_def setup_movement_def start_movement_def motor_new_def movement_state_def one_pulse_def test_config_def
        call_hwa_def write_direction_def Let_def and_then_def check_motors_def motor_tick_def calculate_and_send_next_pulse_def calculate_next_pulse_def
        advance_run_state_def send_pulse_def TIMER_INTERVAL_US_def MAX_ACC_STEPS_def)
qed

lemma stuck_motor_threads: "mc_threads fast_hwa stuck_motor []"
proof -
  let ?p = "mc_stop_prog 0 False [0 ..< 1] :: nat motor_control prog"
  obtain p s where ps: "run_some 4 ?p moving_motor = (p, s)" by (cases "run_some 4 ?p moving_motor")
  have "mc_threads fast_hwa moving_motor ([] @ [?p])"
    using threads_call [OF moving_motor_threads, of "CallStop 0 False"] by (simp add: moving_motor_eq)
  from threads_some [OF this, of 4, unfolded ps] have "mc_threads fast_hwa s ([] @ [p])" by simp
  moreover have "s = moving_motor" using ps
    by (auto simp: mc_stop_prog_def stop_prog_def load_state_def load_def numeral_eq_Suc moving_motor_eq)
  moreover from this have "timer_running s" by (simp add: moving_motor_eq)
  ultimately have "mc_threads fast_hwa (check_motors fast_hwa s) ([] @ [p])" by (intro threads_timer)
  from threads_run [OF this] show ?thesis unfolding stuck_motor_def ps by simp
qed

theorem motor_stop_race:
  "mc_threads fast_hwa stuck_motor [] \<and> length (motors stuck_motor) = 1 \<and> movement_state (motors stuck_motor ! 0) = StStopping \<and>
   run_state (motors stuck_motor ! 0) = Stopped \<and> \<not> timer_running stuck_motor \<and>
   \<not> fst (stop_movement force (motors stuck_motor ! 0)) \<and> \<not> fst (setup_movement fast_hwa info (motors stuck_motor ! 0))"
proof -
  have "hw_write_step fast_hwa = (\<lambda>b h. (True, if b then Suc h else h))" "uptime fast_hwa = (\<lambda>h. 1)"
    by (simp_all add: fast_hwa_def test_hwa_def)
  then have "check_motors fast_hwa moving_motor = \<lparr>motors = [(motors moving_motor ! 0)\<lparr>run_state := Stopped, timer_interval_us := 0,
      movement_pulses_sent := 0, acceleration_counter := 0, movement := empty_movement, pulses_before_deceleration := 0, timer_counter := 0,
      run_start_time := 0, reset_scheduled := True\<rparr>], timer_started = False, timer_running = False\<rparr>"
    by (simp add: moving_motor_eq check_motors_def motor_tick_def movement_state_def calculate_and_send_next_pulse_def calculate_next_pulse_def
        advance_run_state_def TIMER_INTERVAL_US_def one_pulse_def Let_def fast_table MAX_ACC_STEPS_def reset_movement_def mc_stop_timer_def)
  then have s: "length (motors stuck_motor) = 1" "stop_requested (motors stuck_motor ! 0)" "run_state (motors stuck_motor ! 0) = Stopped"
    "\<not> timer_running stuck_motor"
    by (simp_all add: stuck_motor_def mc_stop_prog_def stop_prog_def load_state_def load_def store_def numeral_eq_Suc moving_motor_eq)
  then have "movement_state (motors stuck_motor ! 0) = StStopping" by (simp add: movement_state_def)
  then show ?thesis using s stuck_motor_threads by (simp add: stop_movement_def setup_movement_def)
qed

end
