(* ===== verification/State_Machine.thy ===== *)
theory State_Machine
  imports Zlibs_Prelude
begin

text \<open>
  The state machine of \<open>state_machine/state_machine.h\<close>. The state types of the template are the
  values of \<open>'s\<close>; their \<open>enter\<close>, \<open>exit\<close> and \<open>handle\<close> functions are a record of functions over the
  state objects \<open>'d\<close>, where a state without a handler for an event answers \<open>None\<close>. Before
  \<open>init\<close> the pointer variant holds a null pointer to the first state type.
\<close>

section \<open>Actions and machines\<close>

text \<open>\<open>OneOf\<close> and \<open>Maybe\<close> are variants of these two actions.\<close>

datatype 's action = Transition 's | Nothing

record ('s, 'e, 'd) sm_states =
  first_state :: 's
  init_state :: 's
  error_state :: 's
  st_enter :: "'s \<Rightarrow> 'd \<Rightarrow> bool \<times> 'd"
  st_exit :: "'s \<Rightarrow> 'd \<Rightarrow> bool \<times> 'd"
  st_handle :: "'s \<Rightarrow> 'e \<Rightarrow> 'd \<Rightarrow> ('s action \<times> 'd) option"

record ('s, 'd) machine =
  states :: 'd
  current_state :: 's
  initialized :: bool

definition sm_new :: "('s, 'e, 'd) sm_states \<Rightarrow> 'd \<Rightarrow> ('s, 'd) machine" where
  "sm_new M d = \<lparr>states = d, current_state = first_state M, initialized = False\<rparr>"

definition sm_enter :: "('s, 'e, 'd) sm_states \<Rightarrow> ('s, 'd) machine \<Rightarrow> bool \<times> ('s, 'd) machine" where
  "sm_enter M m = (case st_enter M (current_state m) (states m) of (ok, d) \<Rightarrow> (ok, m\<lparr>states := d\<rparr>))"

definition sm_exit :: "('s, 'e, 'd) sm_states \<Rightarrow> ('s, 'd) machine \<Rightarrow> bool \<times> ('s, 'd) machine" where
  "sm_exit M m = (case st_exit M (current_state m) (states m) of (ok, d) \<Rightarrow> (ok, m\<lparr>states := d\<rparr>))"

definition sm_init :: "('s, 'e, 'd) sm_states \<Rightarrow> ('s, 'd) machine \<Rightarrow> bool \<times> ('s, 'd) machine" where
  "sm_init M m =
     (case sm_enter M (m\<lparr>current_state := init_state M\<rparr>) of
        (False, m) \<Rightarrow> (False, snd (sm_enter M (m\<lparr>current_state := error_state M\<rparr>)))
      | (True, m) \<Rightarrow> (True, m\<lparr>initialized := True\<rparr>))"

definition sm_transition_to :: "('s, 'e, 'd) sm_states \<Rightarrow> 's \<Rightarrow> ('s, 'd) machine \<Rightarrow> bool \<times> ('s, 'd) machine" where
  "sm_transition_to M s m =
     (if \<not> initialized m then (False, m)
      else case sm_exit M m of
        (False, m) \<Rightarrow> (False, snd (sm_enter M (m\<lparr>current_state := error_state M\<rparr>)))
      | (True, m) \<Rightarrow>
          (case sm_enter M (m\<lparr>current_state := s\<rparr>) of
             (False, m) \<Rightarrow> (False, snd (sm_enter M (m\<lparr>current_state := error_state M\<rparr>)))
           | (True, m) \<Rightarrow> (True, m)))"

fun action_execute :: "('s, 'e, 'd) sm_states \<Rightarrow> 's action \<Rightarrow> ('s, 'd) machine \<Rightarrow> ('s, 'd) machine" where
  "action_execute M (Transition s) m = snd (sm_transition_to M s m)"
| "action_execute M Nothing m = m"

definition sm_handle :: "('s, 'e, 'd) sm_states \<Rightarrow> 'e \<Rightarrow> ('s, 'd) machine \<Rightarrow> ('s, 'd) machine" where
  "sm_handle M e m =
     (if \<not> initialized m then m
      else case st_handle M (current_state m) e (states m) of
        None \<Rightarrow> m
      | Some (a, d) \<Rightarrow> action_execute M a (m\<lparr>states := d\<rparr>))"

definition sm_is_in_state :: "'s \<Rightarrow> ('s, 'd) machine \<Rightarrow> bool" where
  "sm_is_in_state s m \<longleftrightarrow> current_state m = s"

definition sm_state_index :: "'s list \<Rightarrow> 's \<Rightarrow> nat" where
  "sm_state_index ss s = length (takeWhile (\<lambda>t. t \<noteq> s) ss)"

definition sm_current_state_index :: "'s list \<Rightarrow> ('s, 'd) machine \<Rightarrow> nat" where
  "sm_current_state_index ss m = sm_state_index ss (current_state m)"

section \<open>Traces of calls\<close>

text \<open>
  The same states with a log of the calls of \<open>enter\<close> and \<open>exit\<close> and of their results: the machine
  runs over it like over the states themselves.
\<close>

datatype 's call = Enter 's bool | Exit 's bool

definition logged :: "('s, 'e, 'd) sm_states \<Rightarrow> ('s, 'e, 'd \<times> 's call list) sm_states" where
  "logged M =
     \<lparr>first_state = first_state M, init_state = init_state M, error_state = error_state M,
      st_enter = \<lambda>s (d, tr). (case st_enter M s d of (ok, d) \<Rightarrow> (ok, d, tr @ [Enter s ok])),
      st_exit = \<lambda>s (d, tr). (case st_exit M s d of (ok, d) \<Rightarrow> (ok, d, tr @ [Exit s ok])),
      st_handle = \<lambda>s e (d, tr). (case st_handle M s e d of None \<Rightarrow> None | Some (a, d) \<Rightarrow> Some (a, d, tr))\<rparr>"

definition calls :: "('s, 'd \<times> 's call list) machine \<Rightarrow> 's call list" where
  "calls m = snd (states m)"

datatype ('s, 'e) sm_op = OpInit | OpHandle 'e | OpTransition 's

fun sm_apply :: "('s, 'e, 'd) sm_states \<Rightarrow> ('s, 'e) sm_op \<Rightarrow> ('s, 'd) machine \<Rightarrow> ('s, 'd) machine" where
  "sm_apply M OpInit m = snd (sm_init M m)"
| "sm_apply M (OpHandle e) m = sm_handle M e m"
| "sm_apply M (OpTransition s) m = snd (sm_transition_to M s m)"

definition sm_run :: "('s, 'e, 'd) sm_states \<Rightarrow> ('s, 'e) sm_op list \<Rightarrow> ('s, 'd) machine \<Rightarrow> ('s, 'd) machine" where
  "sm_run M ops m = foldl (\<lambda>m op. sm_apply M op m) m ops"

section \<open>Well-formed traces\<close>

text \<open>The state entered last, and what may follow a call.\<close>

definition last_entered :: "'s call list \<Rightarrow> 's option" where
  "last_entered tr = foldl (\<lambda>s c. case c of Enter t _ \<Rightarrow> Some t | Exit _ _ \<Rightarrow> s) None tr"

lemma last_entered_simps [simp]:
  "last_entered [] = None" "last_entered (tr @ [Enter s b]) = Some s" "last_entered (tr @ [Exit s b]) = last_entered tr"
  by (simp_all add: last_entered_def)

definition trace_ok :: "'s \<Rightarrow> 's call list \<Rightarrow> bool" where
  "trace_ok err tr \<longleftrightarrow>
     (\<forall>xs s b ys. tr = xs @ Exit s b # ys \<longrightarrow> last_entered xs = Some s \<and> ys \<noteq> [] \<and> (\<exists>t c. hd ys = Enter t c \<and> (b \<or> t = err))) \<and>
     (\<forall>xs s ys. tr = xs @ Enter s False # ys \<longrightarrow> s = err \<or> (ys \<noteq> [] \<and> (\<exists>c. hd ys = Enter err c)))"

lemma trace_ok_Nil [simp]: "trace_ok err []"
  by (simp add: trace_ok_def)

lemma trace_ok_enter:
  assumes "trace_ok err tr" "b \<or> s = err"
  shows "trace_ok err (tr @ [Enter s b])"
  using assms unfolding trace_ok_def append_single_cases
  by (auto simp: hd_append) blast+

lemma trace_ok_retry:
  assumes "trace_ok err tr"
  shows "trace_ok err (tr @ [Enter s False, Enter err c])"
proof -
  have "tr @ [Enter s False, Enter err c] = (tr @ [Enter s False]) @ [Enter err c]" by simp
  then show ?thesis using assms unfolding trace_ok_def
    by (simp only: append_single_cases) (auto simp: hd_append, blast+)
qed

lemma trace_ok_change:
  assumes "trace_ok err tr" "last_entered tr = Some s" "b \<or> t = err" "c \<or> t = err"
  shows "trace_ok err (tr @ [Exit s b, Enter t c])"
proof -
  have "tr @ [Exit s b, Enter t c] = (tr @ [Exit s b]) @ [Enter t c]" by simp
  then show ?thesis using assms unfolding trace_ok_def
    by (simp only: append_single_cases) (auto simp: hd_append, blast+)
qed

lemma trace_ok_change_retry:
  assumes "trace_ok err tr" "last_entered tr = Some s"
  shows "trace_ok err (tr @ [Exit s True, Enter t False, Enter err c])"
proof -
  have "tr @ [Exit s True, Enter t False, Enter err c] = ((tr @ [Exit s True]) @ [Enter t False]) @ [Enter err c]" by simp
  then show ?thesis using assms unfolding trace_ok_def
    by (simp only: append_single_cases) (auto simp: hd_append, blast+)
qed

lemma last_entered_append2 [simp]: "last_entered (tr @ [x, Enter s b]) = Some s" "last_entered (tr @ [x, y, Enter s b]) = Some s"
  by (simp_all add: last_entered_def)

section \<open>The machine and its trace\<close>

text \<open>Reading the log back does not change what the machine does.\<close>

definition unlog :: "('s, 'd \<times> 's call list) machine \<Rightarrow> ('s, 'd) machine" where
  "unlog m = \<lparr>states = fst (states m), current_state = current_state m, initialized = initialized m\<rparr>"

lemma unlog_simps [simp]:
  "unlog (m\<lparr>current_state := s\<rparr>) = (unlog m)\<lparr>current_state := s\<rparr>" "unlog (m\<lparr>initialized := b\<rparr>) = (unlog m)\<lparr>initialized := b\<rparr>"
  "unlog (m\<lparr>states := d\<rparr>) = (unlog m)\<lparr>states := fst d\<rparr>"
  "current_state (unlog m) = current_state m" "initialized (unlog m) = initialized m" "states (unlog m) = fst (states m)"
  by (simp_all add: unlog_def)

lemma logged_simps [simp]: "init_state (logged M) = init_state M" "error_state (logged M) = error_state M" "first_state (logged M) = first_state M"
  by (simp_all add: logged_def)

lemma logged_enter: "sm_enter (logged M) m = (ok, m') \<Longrightarrow>
    sm_enter M (unlog m) = (ok, unlog m') \<and> calls m' = calls m @ [Enter (current_state m) ok] \<and>
    current_state m' = current_state m \<and> initialized m' = initialized m"
  by (cases "states m") (auto simp: sm_enter_def logged_def calls_def split: prod.splits)

lemma logged_exit: "sm_exit (logged M) m = (ok, m') \<Longrightarrow>
    sm_exit M (unlog m) = (ok, unlog m') \<and> calls m' = calls m @ [Exit (current_state m) ok] \<and>
    current_state m' = current_state m \<and> initialized m' = initialized m"
  by (cases "states m") (auto simp: sm_exit_def logged_def calls_def split: prod.splits)

definition sm_ok :: "('s, 'e, 'd) sm_states \<Rightarrow> ('s, 'd \<times> 's call list) machine \<Rightarrow> bool" where
  "sm_ok M m \<longleftrightarrow> trace_ok (error_state M) (calls m) \<and>
     (if calls m = [] then current_state m = first_state M \<and> \<not> initialized m else last_entered (calls m) = Some (current_state m))"

lemma calls_simps [simp]: "calls (m\<lparr>current_state := s\<rparr>) = calls m" "calls (m\<lparr>initialized := b\<rparr>) = calls m"
  by (simp_all add: calls_def)

lemma sm_init_ok:
  assumes "sm_ok M m"
  shows "sm_ok M (snd (sm_init (logged M) m)) \<and> sm_init M (unlog m) = (fst (sm_init (logged M) m), unlog (snd (sm_init (logged M) m)))"
proof -
  let ?m = "m\<lparr>current_state := init_state M\<rparr>"
  obtain ok m1 where m1: "sm_enter (logged M) ?m = (ok, m1)" by fastforce
  obtain ok2 m2 where m2: "sm_enter (logged M) (m1\<lparr>current_state := error_state M\<rparr>) = (ok2, m2)" by fastforce
  have t: "trace_ok (error_state M) (calls m)" using assms by (simp add: sm_ok_def)
  show ?thesis
  proof (cases ok)
    case True
    then show ?thesis using logged_enter [OF m1] m1 trace_ok_enter [OF t, of True "init_state M"] by (simp add: sm_init_def sm_ok_def)
  next
    case False
    then show ?thesis using logged_enter [OF m1] logged_enter [OF m2] m1 m2 trace_ok_retry [OF t, of "init_state M" ok2]
      by (simp add: sm_init_def sm_ok_def)
  qed
qed

lemma sm_transition_ok:
  assumes "sm_ok M m"
  shows "sm_ok M (snd (sm_transition_to (logged M) s m)) \<and>
    sm_transition_to M s (unlog m) = (fst (sm_transition_to (logged M) s m), unlog (snd (sm_transition_to (logged M) s m)))"
proof (cases "initialized m")
  case False
  then show ?thesis using assms by (simp add: sm_transition_to_def)
next
  case True
  have t: "trace_ok (error_state M) (calls m)" "last_entered (calls m) = Some (current_state m)" "calls m \<noteq> []"
    using assms True by (auto simp: sm_ok_def split: if_splits)
  obtain ok m1 where m1: "sm_exit (logged M) m = (ok, m1)" by fastforce
  obtain ok2 m2 where m2: "sm_enter (logged M) (m1\<lparr>current_state := s\<rparr>) = (ok2, m2)" by fastforce
  obtain ok3 m3 where m3: "sm_enter (logged M) (m2\<lparr>current_state := error_state M\<rparr>) = (ok3, m3)" by fastforce
  obtain ok4 m4 where m4: "sm_enter (logged M) (m1\<lparr>current_state := error_state M\<rparr>) = (ok4, m4)" by fastforce
  note l = logged_exit [OF m1] logged_enter [OF m2] logged_enter [OF m3] logged_enter [OF m4]
  show ?thesis
  proof (cases ok)
    case False
    then show ?thesis using True l m1 m4 trace_ok_change [OF t(1,2), of False "error_state M" ok4]
      by (simp add: sm_transition_to_def sm_ok_def)
  next
    case ok: True
    show ?thesis
    proof (cases ok2)
      case True
      then show ?thesis using \<open>initialized m\<close> ok l m1 m2 trace_ok_change [OF t(1,2), of True s True]
        by (simp add: sm_transition_to_def sm_ok_def)
    next
      case False
      then show ?thesis using \<open>initialized m\<close> ok l m1 m2 m3 trace_ok_change_retry [OF t(1,2), of s ok3]
        by (simp add: sm_transition_to_def sm_ok_def)
    qed
  qed
qed

lemma sm_handle_ok:
  assumes "sm_ok M m"
  shows "sm_ok M (sm_handle (logged M) e m) \<and> sm_handle M e (unlog m) = unlog (sm_handle (logged M) e m)"
proof (cases "initialized m")
  case True
  obtain d tr where d: "states m = (d, tr)" by fastforce
  show ?thesis
  proof (cases "st_handle M (current_state m) e d")
    case None
    then show ?thesis using assms True d by (simp add: sm_handle_def logged_def)
  next
    case (Some r)
    obtain a d' where r: "r = (a, d')" by fastforce
    let ?m = "m\<lparr>states := (d', tr)\<rparr>"
    have "sm_ok M ?m" using assms d by (simp add: sm_ok_def calls_def cong: if_cong)
    note t = sm_transition_ok [OF this]
    have h: "sm_handle (logged M) e m = action_execute (logged M) a ?m" "sm_handle M e (unlog m) = action_execute M a (unlog ?m)"
      using Some r True d by (simp_all add: sm_handle_def logged_def)
    show ?thesis using t \<open>sm_ok M ?m\<close> unfolding h by (cases a) simp_all
  qed
next
  case False
  then show ?thesis using assms by (simp add: sm_handle_def)
qed

lemma sm_run_ok:
  "sm_ok M m \<Longrightarrow> sm_ok M (sm_run (logged M) ops m) \<and> sm_run M ops (unlog m) = unlog (sm_run (logged M) ops m)"
proof (induction ops arbitrary: m)
  case (Cons op ops)
  have "sm_ok M (sm_apply (logged M) op m) \<and> sm_apply M op (unlog m) = unlog (sm_apply (logged M) op m)"
    using sm_init_ok [OF Cons.prems] sm_transition_ok [OF Cons.prems] sm_handle_ok [OF Cons.prems] by (cases op) simp_all
  with Cons.IH [of "sm_apply (logged M) op m"] show ?case by (simp add: sm_run_def)
qed (simp add: sm_run_def)

section \<open>Properties\<close>

text \<open>C26. Over any session of initialisations, events and transitions, with states that fail as they like: only the state entered last is
  ever left, every exit is followed by an entry, which is that of the error state when the exit failed, and a failed entry is
  followed by that of the error state. The current state is the one entered last, and the machine behaves as without the log.\<close>

theorem sm_trace:
  "let m = sm_run (logged M) ops (sm_new (logged M) (d, [])) in
    trace_ok (error_state M) (calls m) \<and>
    current_state m = (case last_entered (calls m) of None \<Rightarrow> first_state M | Some s \<Rightarrow> s) \<and>
    sm_run M ops (sm_new M d) = unlog m"
proof -
  let ?m = "sm_new (logged M) (d, []) :: ('a, 'b \<times> 'a call list) machine"
  have "sm_ok M ?m" "unlog ?m = sm_new M d" by (simp_all add: sm_ok_def sm_new_def calls_def unlog_def)
  with sm_run_ok [of M ?m ops] show ?thesis
    by (auto simp: sm_ok_def Let_def split: if_splits option.splits)
qed

text \<open>Until an initialisation succeeds, events and transitions do nothing: after a failed one the machine is in the error state but
  passes no event to it.\<close>

lemma sm_uninitialized: "\<not> initialized m \<Longrightarrow> sm_handle M e m = m \<and> sm_transition_to M s m = (False, m)"
  by (simp add: sm_handle_def sm_transition_to_def)

lemma sm_init_failure:
  "\<not> initialized m \<Longrightarrow> sm_init M m = (False, m') \<Longrightarrow> current_state m' = error_state M \<and> \<not> initialized m'"
  by (auto simp: sm_init_def sm_enter_def split: prod.splits bool.splits)

end
