(* ===== verification/Signaling.thy ===== *)
theory Signaling
  imports Zlibs_Prelude
begin

text \<open>
  The publish/subscribe channels and the dispatcher of \<open>signaling/signaling.h\<close> and
  \<open>signaling.cpp\<close>. A signal type is a value of \<open>'c\<close>; a callback is what it publishes in turn, on
  the dispatcher thread, when it is called with a signal, and every call of a callback is recorded.
  A nested publication runs at once inside the call, so the functions that call callbacks take fuel
  for the depth of nesting, and are \<open>None\<close> when it runs out. Each operation is one step; the steps
  inside an enqueueing are in \<open>Signaling_Queue\<close>.
\<close>

section \<open>Channels\<close>

record ('c, 'v) slot =
  slot_id :: nat
  slot_cb :: "('v \<Rightarrow> ('c \<times> 'v) list) option"
  needs_replay :: bool

record ('c, 'v) channel =
  subscribers :: "('c, 'v) slot list"
  next_id :: nat
  last_signal :: "'v option"
  publish_depth :: nat
  cleanup_required :: bool

definition channel_new :: "('c, 'v) channel" where
  "channel_new = \<lparr>subscribers = [], next_id = 0, last_signal = None, publish_depth = 0, cleanup_required = False\<rparr>"

definition cleanup_subs :: "('c, 'v) channel \<Rightarrow> ('c, 'v) channel" where
  "cleanup_subs ch =
     (if \<not> cleanup_required ch \<or> publish_depth ch \<noteq> 0 then ch
      else ch\<lparr>subscribers := filter (\<lambda>s. slot_cb s \<noteq> None) (subscribers ch), cleanup_required := False\<rparr>)"

text \<open>The new id, whether a replay is to be scheduled, and the channel; \<open>None\<close> is the assertion.\<close>

definition channel_subscribe ::
    "('v \<Rightarrow> ('c \<times> 'v) list) \<Rightarrow> bool \<Rightarrow> ('c, 'v) channel \<Rightarrow> (nat \<times> bool \<times> ('c, 'v) channel) option" where
  "channel_subscribe cb replay ch =
     (if publish_depth ch \<noteq> 0 then None
      else let ch = cleanup_subs ch; ident = next_id ch + 1; should_replay = (replay \<and> last_signal ch \<noteq> None)
           in Some (ident, should_replay,
                ch\<lparr>next_id := ident,
                   subscribers := subscribers ch @ [\<lparr>slot_id = ident, slot_cb = Some cb, needs_replay = should_replay\<rparr>]\<rparr>))"

fun clear_slot :: "nat \<Rightarrow> ('c, 'v) slot list \<Rightarrow> (bool \<times> ('c, 'v) slot list)" where
  "clear_slot ident [] = (False, [])"
| "clear_slot ident (s # ss) =
     (if slot_id s = ident \<and> slot_cb s \<noteq> None then (True, s\<lparr>slot_cb := None\<rparr> # ss)
      else case clear_slot ident ss of (found, ss) \<Rightarrow> (found, s # ss))"

definition channel_unsubscribe :: "nat \<Rightarrow> ('c, 'v) channel \<Rightarrow> ('c, 'v) channel option" where
  "channel_unsubscribe ident ch =
     (if publish_depth ch \<noteq> 0 then None
      else case clear_slot ident (subscribers ch) of
        (found, ss) \<Rightarrow>
          Some (cleanup_subs (ch\<lparr>subscribers := ss, cleanup_required := cleanup_required ch \<or> found\<rparr>)))"

section \<open>Calls of callbacks\<close>

record ('c, 'v) signals =
  channel :: "'c \<Rightarrow> ('c, 'v) channel"
  delivered :: "('c \<times> nat \<times> 'v) list"

definition on_channel :: "'c \<Rightarrow> (('c, 'v) channel \<Rightarrow> ('c, 'v) channel) \<Rightarrow> ('c, 'v) signals \<Rightarrow> ('c, 'v) signals" where
  "on_channel c f w = w\<lparr>channel := (channel w)(c := f (channel w c))\<rparr>"

fun each :: "('a \<Rightarrow> 'w \<Rightarrow> 'w option) \<Rightarrow> 'a list \<Rightarrow> 'w \<Rightarrow> 'w option" where
  "each f [] w = Some w"
| "each f (x # xs) w = Option.bind (f x w) (each f xs)"

text \<open>The call of the callback of slot \<open>i\<close>; \<open>publish\<close> is the nested publication.\<close>

definition call_slot ::
    "('c \<Rightarrow> 'v \<Rightarrow> ('c, 'v) signals \<Rightarrow> ('c, 'v) signals option) \<Rightarrow> 'c \<Rightarrow> nat \<Rightarrow> 'v \<Rightarrow> ('c, 'v) signals \<Rightarrow> ('c, 'v) signals option" where
  "call_slot publish c i v w =
     (let s = subscribers (channel w c) ! i in
      case slot_cb s of
        None \<Rightarrow> Some w
      | Some cb \<Rightarrow>
          let w = on_channel c (\<lambda>ch. ch\<lparr>subscribers := (subscribers ch)[i := s\<lparr>needs_replay := False\<rparr>]\<rparr>) w
          in each (\<lambda>(c, v). publish c v) (cb v) (w\<lparr>delivered := delivered w @ [(c, slot_id s, v)]\<rparr>))"

primrec channel_publish :: "nat \<Rightarrow> 'c \<Rightarrow> 'v \<Rightarrow> ('c, 'v) signals \<Rightarrow> ('c, 'v) signals option" where
  "channel_publish 0 = (\<lambda>c v w. None)"
| "channel_publish (Suc fuel) = (\<lambda>c v w.
     let w = on_channel c (\<lambda>ch. ch\<lparr>last_signal := Some v, publish_depth := publish_depth ch + 1\<rparr>) w
     in Option.bind (each (\<lambda>i. call_slot (channel_publish fuel) c i v) [0 ..< length (subscribers (channel w c))] w) (\<lambda>w.
        Some (on_channel c (\<lambda>ch. cleanup_subs (ch\<lparr>publish_depth := publish_depth ch - 1\<rparr>)) w)))"

definition replay_slot :: "nat \<Rightarrow> 'c \<Rightarrow> nat \<Rightarrow> ('c, 'v) signals \<Rightarrow> ('c, 'v) signals option" where
  "replay_slot fuel c i w =
     (if needs_replay (subscribers (channel w c) ! i)
      then call_slot (channel_publish fuel) c i (the (last_signal (channel w c))) w else Some w)"

definition channel_replay :: "nat \<Rightarrow> 'c \<Rightarrow> ('c, 'v) signals \<Rightarrow> ('c, 'v) signals option" where
  "channel_replay fuel c w =
     Option.bind
       (if last_signal (channel w c) \<noteq> None
        then let w = on_channel c (\<lambda>ch. ch\<lparr>publish_depth := publish_depth ch + 1\<rparr>) w
             in Option.bind (each (replay_slot fuel c) [0 ..< length (subscribers (channel w c))] w) (\<lambda>w.
                Some (on_channel c (\<lambda>ch. ch\<lparr>publish_depth := publish_depth ch - 1\<rparr>) w))
        else Some w)
       (\<lambda>w. Some (on_channel c cleanup_subs w))"

definition last_signal_data :: "'c \<Rightarrow> ('c, 'v) signals \<Rightarrow> 'v option" where
  "last_signal_data c w = last_signal (channel w c)"

section \<open>The dispatcher\<close>

datatype lifecycle = LcRunning | LcStopping | LcStopped

text \<open>A job of \<open>dispatch_sync\<close> is what its callback publishes; the waiting caller is not modelled here.\<close>

datatype ('c, 'v) job = PublishJob 'c 'v | ReplayJob 'c | DrainJob | DispatchSyncJob "('c \<times> 'v) list" | NoopJob

record ('c, 'v) signaling =
  lifecycle :: lifecycle
  fifo :: "('c, 'v) job list"
  slab_used :: nat
  enqueue_generation :: nat
  signals :: "('c, 'v) signals"

definition signaling_new :: "('c, 'v) signaling" where
  "signaling_new =
     \<lparr>lifecycle = LcRunning, fifo = [], slab_used = 0, enqueue_generation = 0,
      signals = \<lparr>channel = \<lambda>c. channel_new, delivered = []\<rparr>\<rparr>"

definition allocate :: "nat \<Rightarrow> ('c, 'v) signaling \<Rightarrow> bool \<times> ('c, 'v) signaling" where
  "allocate pool s = (if slab_used s < pool then (True, s\<lparr>slab_used := slab_used s + 1\<rparr>) else (False, s))"

definition release :: "('c, 'v) signaling \<Rightarrow> ('c, 'v) signaling" where
  "release s = s\<lparr>slab_used := slab_used s - 1\<rparr>"

definition try_enqueue :: "('c, 'v) job \<Rightarrow> ('c, 'v) signaling \<Rightarrow> bool \<times> ('c, 'v) signaling" where
  "try_enqueue j s =
     (if lifecycle s \<noteq> LcRunning then (False, s)
      else (True, s\<lparr>enqueue_generation := enqueue_generation s + 1, fifo := fifo s @ [j]\<rparr>))"

definition enqueue_job :: "nat \<Rightarrow> ('c, 'v) job \<Rightarrow> ('c, 'v) signaling \<Rightarrow> bool \<times> ('c, 'v) signaling" where
  "enqueue_job pool j s =
     (case allocate pool s of
        (False, s) \<Rightarrow> (False, s)
      | (True, s) \<Rightarrow> (case try_enqueue j s of (True, s) \<Rightarrow> (True, s) | (False, s) \<Rightarrow> (False, release s)))"

text \<open>\<open>publish\<close> from a thread other than the dispatcher, and from the dispatcher thread itself.\<close>

definition sig_publish :: "nat \<Rightarrow> 'c \<Rightarrow> 'v \<Rightarrow> ('c, 'v) signaling \<Rightarrow> bool \<times> ('c, 'v) signaling" where
  "sig_publish pool c v s =
     (if lifecycle s \<noteq> LcRunning then (False, s) else enqueue_job pool (PublishJob c v) s)"

definition sig_publish_on_dispatcher :: "nat \<Rightarrow> 'c \<Rightarrow> 'v \<Rightarrow> ('c, 'v) signaling \<Rightarrow> (bool \<times> ('c, 'v) signaling) option" where
  "sig_publish_on_dispatcher fuel c v s =
     (if lifecycle s \<noteq> LcRunning then Some (False, s)
      else Option.bind (channel_publish fuel c v (signals s)) (\<lambda>w. Some (True, s\<lparr>signals := w\<rparr>)))"

text \<open>The new id, the flag \<open>replay_dropped\<close>, and the state.\<close>

definition sig_subscribe ::
    "nat \<Rightarrow> 'c \<Rightarrow> ('v \<Rightarrow> ('c \<times> 'v) list) \<Rightarrow> bool \<Rightarrow> ('c, 'v) signaling \<Rightarrow> (nat \<times> bool \<times> ('c, 'v) signaling) option" where
  "sig_subscribe pool c cb replay s =
     Option.bind (channel_subscribe cb replay (channel (signals s) c)) (\<lambda>(ident, should_replay, ch).
       let s = s\<lparr>signals := on_channel c (\<lambda>_. ch) (signals s)\<rparr> in
       Some (if should_replay
             then (if lifecycle s = LcRunning
                   then (case enqueue_job pool (ReplayJob c) s of (queued, s) \<Rightarrow> (ident, \<not> queued, s))
                   else (ident, True, s))
             else (ident, False, s)))"

definition sig_unsubscribe :: "'c \<Rightarrow> nat \<Rightarrow> ('c, 'v) signaling \<Rightarrow> ('c, 'v) signaling option" where
  "sig_unsubscribe c ident s =
     Option.bind (channel_unsubscribe ident (channel (signals s) c)) (\<lambda>ch.
       Some (s\<lparr>signals := on_channel c (\<lambda>_. ch) (signals s)\<rparr>))"

fun invoke :: "nat \<Rightarrow> ('c, 'v) job \<Rightarrow> ('c, 'v) signals \<Rightarrow> ('c, 'v) signals option" where
  "invoke fuel (PublishJob c v) w = channel_publish fuel c v w"
| "invoke fuel (ReplayJob c) w = channel_replay fuel c w"
| "invoke fuel DrainJob w = Some w"
| "invoke fuel (DispatchSyncJob ps) w = each (\<lambda>(c, v). channel_publish fuel c v) ps w"
| "invoke fuel NoopJob w = Some w"

text \<open>One round of the dispatcher loop; without a job it waits.\<close>

definition dispatch :: "nat \<Rightarrow> ('c, 'v) signaling \<Rightarrow> ('c, 'v) signaling option" where
  "dispatch fuel s =
     (case fifo s of
        [] \<Rightarrow> Some s
      | j # js \<Rightarrow> Option.bind (invoke fuel j (signals s)) (\<lambda>w. Some (release (s\<lparr>fifo := js, signals := w\<rparr>))))"

section \<open>Subscriptions and observables\<close>

text \<open>A subscription handle is the channel and the id it unsubscribes, when it is active.\<close>

definition subscription_reset :: "('c \<times> nat) option \<Rightarrow> ('c, 'v) signaling \<Rightarrow> (('c \<times> nat) option \<times> ('c, 'v) signaling) option" where
  "subscription_reset sub s =
     (case sub of
        None \<Rightarrow> Some (None, s)
      | Some (c, ident) \<Rightarrow> Option.bind (sig_unsubscribe c ident s) (\<lambda>s. Some (None, s)))"

definition subscription_move ::
    "('c \<times> nat) option \<Rightarrow> ('c \<times> nat) option \<Rightarrow> ('c, 'v) signaling \<Rightarrow>
      (('c \<times> nat) option \<times> ('c \<times> nat) option \<times> ('c, 'v) signaling) option" where
  "subscription_move this other s =
     Option.bind (subscription_reset this s) (\<lambda>(_, s). Some (other, None, s))"

text \<open>
  An operator of an observable turns the values of its source into those its own observers see. The
  state that a subscription shares with its callback is the argument of \<open>accumulate\<close> and
  \<open>only_on_change\<close>.
\<close>

definition obs_transform :: "('v \<Rightarrow> 'u) \<Rightarrow> 'v list \<Rightarrow> 'u list" where
  "obs_transform f vs = map f vs"

definition obs_only_if :: "('v \<Rightarrow> bool) \<Rightarrow> 'v list \<Rightarrow> 'v list" where
  "obs_only_if pred vs = concat (map (\<lambda>v. if pred v then [v] else []) vs)"

fun obs_accumulate :: "('a \<Rightarrow> 'v \<Rightarrow> 'a) \<Rightarrow> 'a \<Rightarrow> 'v list \<Rightarrow> 'a list" where
  "obs_accumulate r state [] = []"
| "obs_accumulate r state (v # vs) = (let state = r state v in state # obs_accumulate r state vs)"

fun obs_only_on_change :: "'v option \<Rightarrow> 'v list \<Rightarrow> 'v list" where
  "obs_only_on_change prev [] = []"
| "obs_only_on_change prev (v # vs) =
     (if prev = None \<or> prev \<noteq> Some v then v # obs_only_on_change (Some v) vs else obs_only_on_change prev vs)"

end
