(* ===== verification/Signaling_Delivery.thy ===== *)
theory Signaling_Delivery
  imports Signaling
begin

text \<open>
  What a subscriber receives in a session of the dispatcher, when the callbacks do not publish
  themselves: the signals of the jobs that run, in their order, after at most one replay.
\<close>

section \<open>Publishing to callbacks that do not publish\<close>

definition silent_slot :: "('c, 'v) slot \<Rightarrow> bool" where
  "silent_slot s \<longleftrightarrow> (\<forall>f v. slot_cb s = Some f \<longrightarrow> f v = [])"

definition called :: "(('c, 'v) slot \<Rightarrow> bool) \<Rightarrow> ('c, 'v) slot \<Rightarrow> bool" where
  "called g s \<longleftrightarrow> g s \<and> slot_cb s \<noteq> None"

definition mark :: "(('c, 'v) slot \<Rightarrow> bool) \<Rightarrow> ('c, 'v) slot \<Rightarrow> ('c, 'v) slot" where
  "mark g s = (if called g s then s\<lparr>needs_replay := False\<rparr> else s)"

lemma mark_simps [simp]: "slot_id (mark g s) = slot_id s" "slot_cb (mark g s) = slot_cb s" "silent_slot (mark g s) = silent_slot s"
  by (simp_all add: mark_def silent_slot_def)

lemma each_append: "each f (xs @ ys) w = Option.bind (each f xs w) (each f ys)"
  by (induction xs arbitrary: w) (auto simp: Option.bind_eq_Some_conv split: Option.bind_splits)

lemma on_channel_simps [simp]:
  "channel (on_channel c f w) c' = (if c' = c then f (channel w c) else channel w c')" "delivered (on_channel c f w) = delivered w"
  by (simp_all add: on_channel_def)

text \<open>The state after the loop over the subscribers.\<close>

definition after_calls :: "(('c, 'v) slot \<Rightarrow> bool) \<Rightarrow> nat \<Rightarrow> 'c \<Rightarrow> 'v \<Rightarrow> ('c, 'v) signals \<Rightarrow> ('c, 'v) signals" where
  "after_calls g k c v w =
     (let ss = subscribers (channel w c) in
      (on_channel c (\<lambda>ch. ch\<lparr>subscribers := map (mark g) (take k ss) @ drop k ss\<rparr>) w)\<lparr>delivered :=
        delivered w @ map (\<lambda>s. (c, slot_id s, v)) (filter (called g) (take k ss))\<rparr>)"

lemma after_calls_step:
  assumes "k < length (subscribers (channel w c))" "\<forall>s \<in> set (subscribers (channel w c)). silent_slot s"
  shows "(if g (subscribers (channel (after_calls g k c v w) c) ! k) then call_slot P c k v (after_calls g k c v w)
          else Some (after_calls g k c v w)) = Some (after_calls g (Suc k) c v w)"
proof -
  let ?ss = "subscribers (channel w c)"
  have nth: "(map (mark g) (take k ?ss) @ drop k ?ss) ! k = ?ss ! k" using assms(1) by (simp add: nth_append)
  have silent: "silent_slot (?ss ! k)" using assms by simp
  have upd: "(map (mark g) (take k ?ss) @ drop k ?ss)[k := x] = map (mark g) (take k ?ss) @ x # drop (Suc k) ?ss" for x
    using assms(1) by (simp add: list_update_append Cons_nth_drop_Suc [symmetric])
  have t: "take (Suc k) ?ss = take k ?ss @ [?ss ! k]" using assms(1) by (rule take_Suc_conv_app_nth)
  show ?thesis
  proof (cases "called g (?ss ! k)")
    case True
    then obtain f where f: "slot_cb (?ss ! k) = Some f" "g (?ss ! k)" by (auto simp: called_def)
    have "f v = []" using silent f(1) by (simp add: silent_slot_def)
    then show ?thesis using f nth upd t True by (simp add: call_slot_def after_calls_def Let_def mark_def on_channel_def)
  next
    case False
    then show ?thesis using nth t assms(1)
      by (auto simp: call_slot_def after_calls_def Let_def mark_def on_channel_def called_def Cons_nth_drop_Suc)
  qed
qed

lemma each_calls:
  assumes "\<And>i w'. last_signal (channel w' c) = last_signal (channel w c) \<Longrightarrow>
      B i w' = (if g (subscribers (channel w' c) ! i) then call_slot P c i v w' else Some w')"
    "\<forall>s \<in> set (subscribers (channel w c)). silent_slot s" "k \<le> length (subscribers (channel w c))"
  shows "each B [0 ..< k] w = Some (after_calls g k c v w)"
  using assms(3)
proof (induction k)
  case 0
  then show ?case by (simp add: after_calls_def Let_def on_channel_def)
next
  case (Suc k)
  have "last_signal (channel (after_calls g k c v w) c) = last_signal (channel w c)" by (simp add: after_calls_def Let_def)
  then have "B k (after_calls g k c v w) = Some (after_calls g (Suc k) c v w)"
    using after_calls_step [OF _ assms(2), of k g v P] Suc.prems assms(1) by simp
  then show ?case using Suc by (simp add: each_append)
qed

section \<open>Invariant\<close>

definition channel_ok :: "('c, 'v) channel \<Rightarrow> bool" where
  "channel_ok ch \<longleftrightarrow> publish_depth ch = 0 \<and> distinct (map slot_id (subscribers ch)) \<and>
     (\<forall>s \<in> set (subscribers ch). slot_id s \<le> next_id ch \<and> silent_slot s)"

definition signals_ok :: "('c, 'v) signals \<Rightarrow> bool" where
  "signals_ok w \<longleftrightarrow> (\<forall>c. channel_ok (channel w c)) \<and> (\<forall>(c, i, v) \<in> set (delivered w). i \<le> next_id (channel w c))"

definition subscribed :: "'c \<Rightarrow> nat \<Rightarrow> bool \<Rightarrow> ('c, 'v) signals \<Rightarrow> bool" where
  "subscribed c i nr w \<longleftrightarrow> (\<exists>s \<in> set (subscribers (channel w c)). slot_id s = i \<and> slot_cb s \<noteq> None \<and> needs_replay s = nr)"

definition received :: "'c \<Rightarrow> nat \<Rightarrow> ('c, 'v) signals \<Rightarrow> 'v list" where
  "received c i w = map (\<lambda>(c, i, v). v) (filter (\<lambda>(c', i', v). c' = c \<and> i' = i) (delivered w))"

lemma distinct_filter_id:
  "distinct (map slot_id ss) \<Longrightarrow> s \<in> set ss \<Longrightarrow> P s \<Longrightarrow> filter (\<lambda>x. P x \<and> slot_id x = slot_id s) ss = [s]"
proof (induction ss)
  case (Cons x ss)
  show ?case
  proof (cases "s = x")
    case True
    then have "filter (\<lambda>y. P y \<and> slot_id y = slot_id s) ss = []" using Cons.prems(1) by (auto simp: filter_empty_conv) (metis imageI)
    then show ?thesis using True Cons.prems(3) by simp
  next
    case False
    then have "slot_id x \<noteq> slot_id s" using Cons.prems by auto
    then show ?thesis using False Cons by simp
  qed
qed simp

lemma received_after_calls:
  assumes "distinct (map slot_id (subscribers (channel w c)))" "s \<in> set (subscribers (channel w c))"
  shows "received c (slot_id s) (after_calls g (length (subscribers (channel w c))) c v w) =
    received c (slot_id s) w @ (if called g s then [v] else [])"
proof -
  let ?ss = "subscribers (channel w c)"
  have "filter (\<lambda>x. called g x \<and> slot_id x = slot_id s) ?ss = (if called g s then [s] else [])"
  proof (cases "called g s")
    case True
    then show ?thesis using distinct_filter_id [OF assms] by simp
  next
    case False
    have "\<not> (called g x \<and> slot_id x = slot_id s)" if "x \<in> set ?ss" for x
      using False that assms by (metis distinct_map inj_onD)
    then show ?thesis using False by (simp add: filter_empty_conv)
  qed
  then have "map (\<lambda>(c, i, v). v) (filter (\<lambda>(c', i', v). c' = c \<and> i' = slot_id s) (map (\<lambda>s. (c, slot_id s, v)) (filter (called g) ?ss))) =
      (if called g s then [v] else [])"
    by (simp add: filter_map comp_def filter_filter conj_commute)
  then show ?thesis by (simp add: received_def after_calls_def Let_def)
qed

lemma received_other: "c' \<noteq> c \<Longrightarrow> received c' i (after_calls g k c v w) = received c' i w"
  by (simp add: received_def after_calls_def Let_def filter_map comp_def)

text \<open>What cleaning up leaves.\<close>

lemma cleanup_ok: "channel_ok ch \<Longrightarrow> channel_ok (cleanup_subs ch)"
  by (auto simp: channel_ok_def cleanup_subs_def distinct_map_filter)

lemma cleanup_simps [simp]: "next_id (cleanup_subs ch) = next_id ch" "last_signal (cleanup_subs ch) = last_signal ch"
  "publish_depth (cleanup_subs ch) = publish_depth ch"
  by (simp_all add: cleanup_subs_def)

lemma cleanup_keeps: "slot_cb s \<noteq> None \<Longrightarrow> s \<in> set (subscribers (cleanup_subs ch)) \<longleftrightarrow> s \<in> set (subscribers ch)"
  by (auto simp: cleanup_subs_def)

section \<open>Publications and replays\<close>

definition set_depth :: "nat \<Rightarrow> ('c, 'v) channel \<Rightarrow> ('c, 'v) channel" where
  "set_depth n ch = ch\<lparr>publish_depth := n\<rparr>"

lemma mark_in_set: "slot_cb s \<noteq> None \<Longrightarrow> mark g s = (if g s then s\<lparr>needs_replay := False\<rparr> else s)"
  by (simp add: mark_def called_def)

lemma map_mark_ids [simp]: "map slot_id (map (mark g) ss) = map slot_id ss"
  by simp

lemma publish_silent:
  assumes "signals_ok w" "0 < fuel"
  shows "\<exists>w'. channel_publish fuel c v w = Some w' \<and> signals_ok w' \<and> last_signal (channel w' c) = Some v \<and>
    (\<forall>c'. c' \<noteq> c \<longrightarrow> channel w' c' = channel w c') \<and> next_id (channel w' c) = next_id (channel w c) \<and>
    (\<forall>i nr. subscribed c i nr w \<longrightarrow> subscribed c i False w' \<and> received c i w' = received c i w @ [v]) \<and>
    (\<forall>c' i. c' \<noteq> c \<longrightarrow> received c' i w' = received c' i w)"
proof -
  obtain n where n: "fuel = Suc n" using assms(2) gr0_implies_Suc by blast
  let ?w = "on_channel c (\<lambda>ch. ch\<lparr>last_signal := Some v, publish_depth := publish_depth ch + 1\<rparr>) w"
  let ?ss = "subscribers (channel w c)"
  let ?a = "after_calls (\<lambda>_. True) (length ?ss) c v ?w"
  let ?w' = "on_channel c (\<lambda>ch. cleanup_subs (ch\<lparr>publish_depth := publish_depth ch - 1\<rparr>)) ?a"
  have ok: "publish_depth (channel w c) = 0" "distinct (map slot_id ?ss)" "\<forall>s \<in> set ?ss. slot_id s \<le> next_id (channel w c) \<and> silent_slot s"
    using assms(1) by (auto simp: signals_ok_def channel_ok_def)
  have "each (\<lambda>i. call_slot (channel_publish n) c i v) [0 ..< length ?ss] ?w = Some ?a"
    using ok(3) by (intro each_calls [where P = "channel_publish n"]) simp_all
  then have p: "channel_publish fuel c v w = Some ?w'" using n by simp
  have ch: "channel ?w' c = cleanup_subs ((channel w c)\<lparr>last_signal := Some v, subscribers := map (mark (\<lambda>_. True)) ?ss, publish_depth := 0\<rparr>)"
    using ok(1) by (simp add: after_calls_def Let_def)
  have other: "c' \<noteq> c \<Longrightarrow> channel ?w' c' = channel w c'" for c' by (simp add: after_calls_def Let_def)
  have "channel_ok ((channel w c)\<lparr>last_signal := Some v, subscribers := map (mark (\<lambda>_. True)) ?ss, publish_depth := 0\<rparr>)"
    using ok by (auto simp: channel_ok_def comp_def)
  then have ok': "channel_ok (channel ?w' c)" unfolding ch by (rule cleanup_ok)
  have del: "delivered ?w' = delivered w @ map (\<lambda>s. (c, slot_id s, v)) (filter (called (\<lambda>_. True)) ?ss)"
    by (simp add: after_calls_def Let_def)
  have sok: "signals_ok ?w'" unfolding signals_ok_def
  proof (intro conjI allI ballI)
    fix c' show "channel_ok (channel ?w' c')" using ok' other assms(1) by (cases "c' = c") (auto simp: signals_ok_def)
  next
    fix x assume x: "x \<in> set (delivered ?w')"
    have "next_id (channel ?w' c') = next_id (channel w c')" for c' using ch other by (cases "c' = c") simp_all
    then show "case x of (c, i, v) \<Rightarrow> i \<le> next_id (channel ?w' c)"
      using x assms(1) ok(3) unfolding del by (auto simp: signals_ok_def)
  qed
  have sub: "subscribed c i False ?w' \<and> received c i ?w' = received c i w @ [v]" if sb: "subscribed c i nr w" for i nr
  proof -
    obtain s where s: "s \<in> set ?ss" "slot_id s = i" "slot_cb s \<noteq> None" using sb unfolding subscribed_def by blast
    have "mark (\<lambda>_. True) s \<in> set (subscribers (channel ?w' c))" unfolding ch using s by (subst cleanup_keeps) auto
    then have "subscribed c i False ?w'" using s unfolding subscribed_def by (intro bexI [of _ "mark (\<lambda>_. True) s"]) (auto simp: mark_def called_def)
    moreover have "received c i ?a = received c i ?w @ [v]"
      using received_after_calls [where w = ?w and c = c and s = s and g = "\<lambda>_. True" and v = v] ok(2) s by (simp add: called_def)
    then have "received c i ?w' = received c i w @ [v]" by (simp add: received_def)
    ultimately show ?thesis by blast
  qed
  have "received c' i ?w' = received c' i w" if "c' \<noteq> c" for c' i
    using received_other [OF that, where i = i and g = "\<lambda>_. True" and k = "length ?ss" and v = v and w = ?w] by (simp add: received_def)
  then show ?thesis using p sok other sub ch by (intro exI [of _ ?w']) simp
qed

lemma replay_silent:
  assumes "signals_ok w" "0 < fuel"
  shows "\<exists>w'. channel_replay fuel c w = Some w' \<and> signals_ok w' \<and>
    (\<forall>c'. last_signal (channel w' c') = last_signal (channel w c')) \<and>
    (\<forall>c'. c' \<noteq> c \<longrightarrow> channel w' c' = channel w c') \<and> next_id (channel w' c) = next_id (channel w c) \<and>
    (\<forall>i nr. subscribed c i nr w \<longrightarrow>
      (case last_signal (channel w c) of
         None \<Rightarrow> subscribed c i nr w' \<and> received c i w' = received c i w
       | Some v \<Rightarrow> subscribed c i False w' \<and> received c i w' = received c i w @ (if nr then [v] else []))) \<and>
    (\<forall>c' i. c' \<noteq> c \<longrightarrow> received c' i w' = received c' i w)"
proof (cases "last_signal (channel w c)")
  case None
  let ?w' = "on_channel c cleanup_subs w"
  have "signals_ok ?w'" using assms(1) cleanup_ok by (auto simp: signals_ok_def split: prod.splits)
  moreover have "subscribed c i nr ?w'" if "subscribed c i nr w" for i nr
    using that by (auto simp: subscribed_def cleanup_keeps)
  ultimately show ?thesis using None by (intro exI [of _ ?w']) (simp add: channel_replay_def received_def)
next
  case (Some v)
  let ?w = "on_channel c (\<lambda>ch. ch\<lparr>publish_depth := publish_depth ch + 1\<rparr>) w"
  let ?ss = "subscribers (channel w c)"
  let ?a = "after_calls needs_replay (length ?ss) c v ?w"
  let ?w' = "on_channel c cleanup_subs (on_channel c (\<lambda>ch. ch\<lparr>publish_depth := publish_depth ch - 1\<rparr>) ?a)"
  have ok: "publish_depth (channel w c) = 0" "distinct (map slot_id ?ss)" "\<forall>s \<in> set ?ss. slot_id s \<le> next_id (channel w c) \<and> silent_slot s"
    using assms(1) by (auto simp: signals_ok_def channel_ok_def)
  have "each (replay_slot fuel c) [0 ..< length ?ss] ?w = Some ?a"
    using Some ok(3) by (intro each_calls [where P = "channel_publish fuel"]) (simp_all add: replay_slot_def)
  then have p: "channel_replay fuel c w = Some ?w'" using Some by (simp add: channel_replay_def)
  have ch: "channel ?w' c = cleanup_subs ((channel w c)\<lparr>subscribers := map (mark needs_replay) ?ss, publish_depth := 0\<rparr>)"
    using ok(1) by (simp add: after_calls_def Let_def)
  have other: "c' \<noteq> c \<Longrightarrow> channel ?w' c' = channel w c'" for c' by (simp add: after_calls_def Let_def)
  have "channel_ok ((channel w c)\<lparr>subscribers := map (mark needs_replay) ?ss, publish_depth := 0\<rparr>)"
    using ok by (auto simp: channel_ok_def comp_def)
  then have ok': "channel_ok (channel ?w' c)" unfolding ch by (rule cleanup_ok)
  have del: "delivered ?w' = delivered w @ map (\<lambda>s. (c, slot_id s, v)) (filter (called needs_replay) ?ss)"
    by (simp add: after_calls_def Let_def)
  have sok: "signals_ok ?w'" unfolding signals_ok_def
  proof (intro conjI allI ballI)
    fix c' show "channel_ok (channel ?w' c')" using ok' other assms(1) by (cases "c' = c") (auto simp: signals_ok_def)
  next
    fix x assume x: "x \<in> set (delivered ?w')"
    have "next_id (channel ?w' c') = next_id (channel w c')" for c' using ch other by (cases "c' = c") simp_all
    then show "case x of (c, i, v) \<Rightarrow> i \<le> next_id (channel ?w' c)"
      using x assms(1) ok(3) unfolding del by (auto simp: signals_ok_def)
  qed
  have sub: "subscribed c i False ?w' \<and> received c i ?w' = received c i w @ (if nr then [v] else [])" if sb: "subscribed c i nr w" for i nr
  proof -
    obtain s where s: "s \<in> set ?ss" "slot_id s = i" "slot_cb s \<noteq> None" "needs_replay s = nr" using sb unfolding subscribed_def by blast
    have "mark needs_replay s \<in> set (subscribers (channel ?w' c))" unfolding ch using s by (subst cleanup_keeps) auto
    then have "subscribed c i False ?w'" using s unfolding subscribed_def by (intro bexI [of _ "mark needs_replay s"]) (auto simp: mark_def called_def)
    moreover have "received c i ?a = received c i ?w @ (if nr then [v] else [])"
      using received_after_calls [where w = ?w and c = c and s = s and g = needs_replay and v = v] ok(2) s by (simp add: called_def)
    then have "received c i ?w' = received c i w @ (if nr then [v] else [])" by (simp add: received_def)
    ultimately show ?thesis by blast
  qed
  have "received c' i ?w' = received c' i w" if "c' \<noteq> c" for c' i
    using received_other [OF that, where i = i and g = needs_replay and k = "length ?ss" and v = v and w = ?w] by (simp add: received_def)
  moreover have "last_signal (channel ?w' c') = last_signal (channel w c')" for c' using ch other by (cases "c' = c") simp_all
  ultimately show ?thesis using p sok other sub ch Some by (intro exI [of _ ?w']) simp
qed

section \<open>Sessions\<close>

text \<open>Calls from threads other than the dispatcher, and rounds of the dispatcher.\<close>

datatype ('c, 'v) op =
    OpPublish 'c 'v
  | OpSubscribe 'c bool
  | OpUnsubscribe 'c nat
  | OpDispatchSync "('c \<times> 'v) list"
  | OpDispatch

text \<open>A session gives the jobs that ran and the jobs that were accepted.\<close>

fun sig_run :: "nat \<Rightarrow> nat \<Rightarrow> ('c, 'v) op list \<Rightarrow> ('c, 'v) signaling \<Rightarrow> (('c, 'v) job list \<times> ('c, 'v) job list \<times> ('c, 'v) signaling) option" where
  "sig_run pool fuel [] s = Some ([], [], s)"
| "sig_run pool fuel (OpPublish c v # ops) s =
     (case sig_publish pool c v s of (ok, t) \<Rightarrow>
        map_option (\<lambda>(js, acc, u). (js, (if ok then [PublishJob c v] else []) @ acc, u)) (sig_run pool fuel ops t))"
| "sig_run pool fuel (OpSubscribe c replay # ops) s =
     (case sig_subscribe pool c (\<lambda>_. []) replay s of
        None \<Rightarrow> None
      | Some (i, dropped, t) \<Rightarrow>
          map_option (\<lambda>(js, acc, u). (js, drop (length (fifo s)) (fifo t) @ acc, u)) (sig_run pool fuel ops t))"
| "sig_run pool fuel (OpUnsubscribe c i # ops) s =
     (case sig_unsubscribe c i s of None \<Rightarrow> None | Some t \<Rightarrow> sig_run pool fuel ops t)"
| "sig_run pool fuel (OpDispatchSync ps # ops) s =
     (case enqueue_job pool (DispatchSyncJob ps) s of (ok, t) \<Rightarrow>
        map_option (\<lambda>(js, acc, u). (js, (if ok then [DispatchSyncJob ps] else []) @ acc, u)) (sig_run pool fuel ops t))"
| "sig_run pool fuel (OpDispatch # ops) s =
     (case dispatch fuel s of
        None \<Rightarrow> None
      | Some t \<Rightarrow> map_option (\<lambda>(js, acc, u). (take 1 (fifo s) @ js, acc, u)) (sig_run pool fuel ops t))"

text \<open>The signals of one channel in a job.\<close>

fun job_signals :: "'c \<Rightarrow> ('c, 'v) job \<Rightarrow> 'v list" where
  "job_signals c (PublishJob c' v) = (if c' = c then [v] else [])"
| "job_signals c (DispatchSyncJob ps) = map snd (filter (\<lambda>p. fst p = c) ps)"
| "job_signals c _ = []"

text \<open>
  What a subscriber receives from a sequence of jobs, by whether it waits for a replay and by the
  last signal of its channel.
\<close>

fun expected :: "'c \<Rightarrow> bool \<Rightarrow> 'v option \<Rightarrow> ('c, 'v) job list \<Rightarrow> 'v list" where
  "expected c nr last_v [] = []"
| "expected c nr last_v (j # js) =
     (if j = ReplayJob c \<and> nr \<and> last_v \<noteq> None then the last_v # expected c False last_v js
      else if job_signals c j \<noteq> [] then job_signals c j @ expected c False (Some (last (job_signals c j))) js
      else expected c nr last_v js)"

lemma publish_all_silent:
  assumes "0 < fuel"
  shows "signals_ok w \<Longrightarrow> \<exists>w'. each (\<lambda>(c, v). channel_publish fuel c v) ps w = Some w' \<and> signals_ok w' \<and>
    (\<forall>c. next_id (channel w' c) = next_id (channel w c)) \<and>
    (\<forall>c i nr. subscribed c i nr w \<longrightarrow>
      (let vs = map snd (filter (\<lambda>p. fst p = c) ps) in
        subscribed c i (if vs = [] then nr else False) w' \<and> received c i w' = received c i w @ vs \<and>
        last_signal (channel w' c) = (if vs = [] then last_signal (channel w c) else Some (last vs))))"
proof (induction ps arbitrary: w)
  case Nil
  then show ?case by simp
next
  case (Cons p ps)
  obtain c v where p: "p = (c, v)" by fastforce
  obtain w1 where w1: "channel_publish fuel c v w = Some w1" "signals_ok w1" "last_signal (channel w1 c) = Some v"
    "\<forall>c'. c' \<noteq> c \<longrightarrow> channel w1 c' = channel w c'" "next_id (channel w1 c) = next_id (channel w c)"
    "\<forall>i nr. subscribed c i nr w \<longrightarrow> subscribed c i False w1 \<and> received c i w1 = received c i w @ [v]"
    "\<forall>c' i. c' \<noteq> c \<longrightarrow> received c' i w1 = received c' i w"
    using publish_silent [OF Cons.prems assms] by blast
  obtain w' where w': "each (\<lambda>(c, v). channel_publish fuel c v) ps w1 = Some w'" "signals_ok w'"
    "\<forall>c. next_id (channel w' c) = next_id (channel w1 c)"
    "\<forall>c i nr. subscribed c i nr w1 \<longrightarrow>
      (let vs = map snd (filter (\<lambda>p. fst p = c) ps) in
        subscribed c i (if vs = [] then nr else False) w' \<and> received c i w' = received c i w1 @ vs \<and>
        last_signal (channel w' c) = (if vs = [] then last_signal (channel w1 c) else Some (last vs)))"
    using Cons.IH [OF w1(2)] by blast
  have "let vs = map snd (filter (\<lambda>p. fst p = c') (p # ps)) in
      subscribed c' i (if vs = [] then nr else False) w' \<and> received c' i w' = received c' i w @ vs \<and>
      last_signal (channel w' c') = (if vs = [] then last_signal (channel w c') else Some (last vs))"
    if "subscribed c' i nr w" for c' i nr
  proof (cases "c' = c")
    case True
    then show ?thesis using that w1(3,6) w'(4) [rule_format, of c i False] p by (auto simp: Let_def)
  next
    case False
    then have "subscribed c' i nr w1" using that w1(4) by (simp add: subscribed_def)
    then show ?thesis using False w1(4,7) w'(4) [rule_format, of c' i nr] p by (auto simp: Let_def)
  qed
  moreover have "next_id (channel w' c') = next_id (channel w c')" for c'
    using w'(3) w1(4,5) by (cases "c' = c") simp_all
  ultimately show ?case using w'(1,2) w1(1) p by simp
qed

end
