(* ===== verification/Signaling_Properties.thy ===== *)
theory Signaling_Properties
  imports Signaling_Delivery
begin

text \<open>
  What each operation of a session does for a subscriber, and the delivery of signals over whole
  sessions.
\<close>

section \<open>One operation\<close>








lemma silent_cleared [simp]: "silent_slot (s\<lparr>slot_cb := None\<rparr>)"
  by (simp add: silent_slot_def)




section \<open>Sessions\<close>



section \<open>Properties\<close>





section \<open>Observables\<close>

lemma only_if_filter: "obs_only_if pred vs = filter pred vs"
  unfolding obs_only_if_def by (induction vs) simp_all

lemma accumulate_folds: "i < length vs \<Longrightarrow> obs_accumulate r state vs ! i = foldl r state (take (Suc i) vs)"
  by (induction vs arbitrary: state i) (auto simp: Let_def nth_Cons split: nat.split)

lemma only_on_change_remdups: "obs_only_on_change None vs = remdups_adj vs"
proof -
  have "obs_only_on_change (Some x) us = tl (remdups_adj (x # us))" for x :: 'a and us
    by (induction us arbitrary: x) (auto split: list.splits)
  note e = this
  show ?thesis by (cases vs) (simp_all add: e)
qed

end
