(* ===== verification/Signaling_Queue.thy ===== *)
theory Signaling_Queue
  imports Zlibs_Prelude "HOL-Library.Sublist"
begin

text \<open>
  The queue of the dispatcher step by step, for any number of threads: the node pool, the check and
  the enqueueing inside \<open>try_enqueue\<close> and \<open>enqueue_drain_barrier\<close> (which hold \<open>_enqueue_lock\<close>),
  \<open>request_stop\<close> (which does not take it) and the loop of the dispatcher, in which taking a node,
  the end of its job and the release of the node are steps of their own. What a job does is left open:
  any step of the other threads may come while it runs. \<open>accepted\<close> and \<open>ran\<close> record the jobs put
  into the queue and those whose \<open>invoke\<close> has ended.
\<close>

section \<open>Steps\<close>

datatype queue_lifecycle = QRunning | QStopping | QStopped

text \<open>The order of the enumerators, which is that of their numbers.\<close>

primrec lifecycle_rank :: "queue_lifecycle \<Rightarrow> nat" where
  "lifecycle_rank QRunning = 0"
| "lifecycle_rank QStopping = 1"
| "lifecycle_rank QStopped = 2"

instantiation queue_lifecycle :: linorder
begin

definition less_eq_queue_lifecycle :: "queue_lifecycle \<Rightarrow> queue_lifecycle \<Rightarrow> bool" where
  "less_eq_queue_lifecycle a b = (lifecycle_rank a \<le> lifecycle_rank b)"

definition less_queue_lifecycle :: "queue_lifecycle \<Rightarrow> queue_lifecycle \<Rightarrow> bool" where
  "less_queue_lifecycle a b = (lifecycle_rank a < lifecycle_rank b)"

instance
proof
  fix a b :: queue_lifecycle
  show "a \<le> b \<Longrightarrow> b \<le> a \<Longrightarrow> a = b"
    by (cases a; cases b) (simp_all add: less_eq_queue_lifecycle_def)
qed (auto simp: less_eq_queue_lifecycle_def less_queue_lifecycle_def)

end

lemma lifecycle_bounds [simp]: "QRunning \<le> c" "c \<le> QStopped"
  by (cases c; simp add: less_eq_queue_lifecycle_def)+

text \<open>A job of a publisher, a drain barrier with the generation it was put at, the wake-up node.\<close>

datatype 'j queue_job = Counted 'j | Barrier nat | Noop

text \<open>The dispatcher is in the first part of its loop (with or without a node), after the release of a node, in the loop that
  drains, or has left \<open>run_loop\<close>.\<close>

datatype loop_state = Waiting | AfterJob | Draining | Ended

text \<open>The node the dispatcher holds: none, one whose job runs, one whose job has run and which is not released yet.\<close>

datatype 'j held_node = NoNode | Taken "'j queue_job" | Invoked

primrec running :: "'j held_node \<Rightarrow> 'j queue_job list" where
  "running NoNode = []"
| "running (Taken q) = [q]"
| "running Invoked = []"

text \<open>Where \<open>request_stop\<close> is: the thread object destroys itself once, then it allocates the wake-up node and puts it.\<close>

datatype stop_state = NotStopped | StopAllocating | StopPutting | StopDone

record 'j queue =
  q_lifecycle :: queue_lifecycle
  q_loop :: loop_state
  q_node :: "'j held_node"
  q_fifo :: "'j queue_job list"
  q_used :: nat
  q_generation :: nat
  q_pending :: "'j option list"
  q_checked :: "'j queue_job option"
  q_stop :: stop_state
  accepted :: "'j queue_job list"
  ran :: "'j queue_job list"

definition queue_new :: "'j queue" where
  "queue_new = \<lparr>q_lifecycle = QRunning, q_loop = Waiting, q_node = NoNode, q_fifo = [], q_used = 0, q_generation = 0, q_pending = [],
     q_checked = None, q_stop = NotStopped, accepted = [], ran = []\<rparr>"

definition is_counted :: "'j queue_job \<Rightarrow> bool" where
  "is_counted q = (case q of Counted _ \<Rightarrow> True | _ \<Rightarrow> False)"

definition put_job :: "'j queue_job \<Rightarrow> 'j queue \<Rightarrow> 'j queue" where
  "put_job q s = s\<lparr>q_fifo := q_fifo s @ [q], accepted := accepted s @ [q],
     q_generation := q_generation s + (if is_counted q then 1 else 0)\<rparr>"

definition take_job :: "'j queue \<Rightarrow> 'j queue" where
  "take_job s = s\<lparr>q_fifo := tl (q_fifo s), q_node := Taken (hd (q_fifo s))\<rparr>"

definition end_job :: "'j queue_job \<Rightarrow> 'j queue \<Rightarrow> 'j queue" where
  "end_job q s = s\<lparr>q_node := Invoked, ran := ran s @ [q]\<rparr>"

definition release_node :: "'j queue \<Rightarrow> 'j queue" where
  "release_node s = s\<lparr>q_node := NoNode, q_used := q_used s - 1\<rparr>"

text \<open>
  \<open>Some j\<close> in \<open>q_pending\<close> is an allocated node of a publisher, \<open>None\<close> that of a drain;
  \<open>q_checked\<close> is the node whose thread is in the critical section, after the check. A thread reads the lifecycle
  before it allocates, and \<open>drain\<close> allocates again in its loop without reading it, so that the dispatcher may have stopped
  when a node is allocated: the step has no guard but the pool. \<open>request_stop\<close> stores \<open>Stopping\<close> whatever the lifecycle is.
\<close>

inductive queue_step :: "nat \<Rightarrow> 'j queue \<Rightarrow> 'j queue \<Rightarrow> bool" for pool where
  allocate: "q_used s < pool \<Longrightarrow>
    queue_step pool s (s\<lparr>q_pending := r # q_pending s, q_used := q_used s + 1\<rparr>)"
| reject: "r \<in> set (q_pending s) \<Longrightarrow> q_lifecycle s \<noteq> QRunning \<Longrightarrow>
    queue_step pool s (s\<lparr>q_pending := remove1 r (q_pending s), q_used := q_used s - 1\<rparr>)"
| check: "Some j \<in> set (q_pending s) \<Longrightarrow> q_checked s = None \<Longrightarrow> q_lifecycle s = QRunning \<Longrightarrow>
    queue_step pool s (s\<lparr>q_pending := remove1 (Some j) (q_pending s), q_checked := Some (Counted j)\<rparr>)"
| check_drain: "None \<in> set (q_pending s) \<Longrightarrow> q_checked s = None \<Longrightarrow> q_lifecycle s = QRunning \<Longrightarrow>
    queue_step pool s (s\<lparr>q_pending := remove1 None (q_pending s), q_checked := Some (Barrier (q_generation s))\<rparr>)"
| put: "q_checked s = Some q \<Longrightarrow> queue_step pool s (put_job q (s\<lparr>q_checked := None\<rparr>))"
| stop: "q_stop s = NotStopped \<Longrightarrow> queue_step pool s (s\<lparr>q_lifecycle := QStopping, q_stop := StopAllocating\<rparr>)"
| stop_allocate: "q_stop s = StopAllocating \<Longrightarrow> q_used s < pool \<Longrightarrow>
    queue_step pool s (s\<lparr>q_stop := StopPutting, q_used := q_used s + 1\<rparr>)"
| stop_put: "q_stop s = StopPutting \<Longrightarrow> queue_step pool s (put_job Noop (s\<lparr>q_stop := StopDone\<rparr>))"
| run: "q_loop s = Waiting \<Longrightarrow> q_node s = NoNode \<Longrightarrow> q_fifo s \<noteq> [] \<Longrightarrow> queue_step pool s (take_job s)"
| run_end: "q_node s = Taken q \<Longrightarrow> queue_step pool s (end_job q s)"
| run_release: "q_loop s = Waiting \<Longrightarrow> q_node s = Invoked \<Longrightarrow> queue_step pool s (release_node (s\<lparr>q_loop := AfterJob\<rparr>))"
| again: "q_loop s = AfterJob \<Longrightarrow> q_lifecycle s = QRunning \<Longrightarrow> queue_step pool s (s\<lparr>q_loop := Waiting\<rparr>)"
| leave: "q_loop s = AfterJob \<Longrightarrow> q_lifecycle s \<noteq> QRunning \<Longrightarrow> queue_step pool s (s\<lparr>q_loop := Draining\<rparr>)"
| drain_run: "q_loop s = Draining \<Longrightarrow> q_node s = NoNode \<Longrightarrow> q_fifo s \<noteq> [] \<Longrightarrow> queue_step pool s (take_job s)"
| drain_release: "q_loop s = Draining \<Longrightarrow> q_node s = Invoked \<Longrightarrow> queue_step pool s (release_node s)"
| finish: "q_loop s = Draining \<Longrightarrow> q_node s = NoNode \<Longrightarrow> q_fifo s = [] \<Longrightarrow>
    queue_step pool s (s\<lparr>q_loop := Ended, q_lifecycle := QStopped\<rparr>)"

inductive queue_steps :: "nat \<Rightarrow> 'j queue \<Rightarrow> 'j queue \<Rightarrow> bool" for pool where
  steps_refl: "queue_steps pool s s"
| steps_step: "queue_steps pool s t \<Longrightarrow> queue_step pool t u \<Longrightarrow> queue_steps pool s u"

inductive_cases queue_stepE: "queue_step pool s t"

section \<open>Invariant\<close>

definition count_jobs :: "'j queue_job list \<Rightarrow> nat" where
  "count_jobs qs = length (filter is_counted qs)"

lemma count_simps [simp]: "count_jobs [] = 0" "count_jobs (q # qs) = (if is_counted q then 1 else 0) + count_jobs qs"
  "count_jobs (qs @ rs) = count_jobs qs + count_jobs rs"
  by (simp_all add: count_jobs_def)

lemma is_counted_simps [simp]: "is_counted (Counted j)" "\<not> is_counted (Barrier g)" "\<not> is_counted Noop"
  by (simp_all add: is_counted_def)

definition barriers_ok :: "'j queue_job list \<Rightarrow> bool" where
  "barriers_ok qs \<longleftrightarrow> (\<forall>xs g ys. qs = xs @ Barrier g # ys \<longrightarrow> g = count_jobs xs)"

lemma barriers_ok_snoc: "barriers_ok qs \<Longrightarrow> (\<And>g. q = Barrier g \<Longrightarrow> g = count_jobs qs) \<Longrightarrow> barriers_ok (qs @ [q])"
  unfolding barriers_ok_def append_single_cases by auto

text \<open>The nodes in use: queued, held by a thread that publishes or drains, by the one that stops, and by the dispatcher.\<close>

definition nodes_held :: "'j queue \<Rightarrow> nat" where
  "nodes_held s = length (q_fifo s) + length (q_pending s) + (if q_checked s = None then 0 else 1) +
     (if q_stop s = StopPutting then 1 else 0) + (if q_node s = NoNode then 0 else 1)"

definition queue_ok :: "nat \<Rightarrow> 'j queue \<Rightarrow> bool" where
  "queue_ok pool s \<longleftrightarrow>
     accepted s = ran s @ running (q_node s) @ q_fifo s \<and> q_generation s = count_jobs (accepted s) \<and> barriers_ok (accepted s) \<and>
     (\<forall>g. q_checked s = Some (Barrier g) \<longrightarrow> g = q_generation s) \<and>
     q_used s = nodes_held s \<and> q_used s \<le> pool \<and> (q_stop s = NotStopped \<longrightarrow> q_lifecycle s = QRunning) \<and>
     (q_loop s = AfterJob \<or> q_loop s = Ended \<longrightarrow> q_node s = NoNode) \<and> (q_loop s = Draining \<longrightarrow> q_stop s \<noteq> NotStopped)"

lemma remove1_length: "x \<in> set xs \<Longrightarrow> Suc (length (remove1 x xs)) = length xs"
  by (simp add: length_remove1) (metis One_nat_def Suc_pred length_pos_if_in_set)

lemmas queue_state_simps = queue_ok_def nodes_held_def put_job_def take_job_def end_job_def release_node_def

lemma queue_ok_step: "queue_step pool s t \<Longrightarrow> queue_ok pool s \<Longrightarrow> queue_ok pool t"
proof (induction rule: queue_step.induct)
  case (reject r s)
  then show ?case using remove1_length [of r "q_pending s"] by (auto simp: queue_state_simps)
next
  case (check j s)
  then show ?case using remove1_length [of "Some j" "q_pending s"] by (auto simp: queue_state_simps)
next
  case (check_drain s)
  then show ?case using remove1_length [of None "q_pending s"] by (auto simp: queue_state_simps)
next
  case (put s q)
  then have "barriers_ok (accepted s @ [q])" by (intro barriers_ok_snoc) (auto simp: queue_ok_def)
  then show ?case using put by (auto simp: queue_state_simps)
next
  case (stop_put s)
  then have "barriers_ok (accepted s @ [Noop])" by (intro barriers_ok_snoc) (auto simp: queue_ok_def)
  then show ?case using stop_put by (auto simp: queue_state_simps)
next
  case (run s)
  then show ?case by (cases "q_fifo s") (auto simp: queue_state_simps)
next
  case (drain_run s)
  then show ?case by (cases "q_fifo s") (auto simp: queue_state_simps)
qed (auto simp: queue_state_simps)

lemma queue_ok_steps: "queue_steps pool s t \<Longrightarrow> queue_ok pool s \<Longrightarrow> queue_ok pool t"
  by (induction rule: queue_steps.induct) (auto intro: queue_ok_step)

lemma queue_new_ok: "queue_ok pool queue_new"
  by (simp add: queue_ok_def nodes_held_def queue_new_def barriers_ok_def)

lemmas reachable_ok = queue_ok_steps [OF _ queue_new_ok]

section \<open>After the end\<close>

definition ended :: "'j queue \<Rightarrow> bool" where
  "ended s \<longleftrightarrow> q_loop s = Ended \<and> q_node s = NoNode"

lemma ended_step: "queue_step pool s t \<Longrightarrow> ended s \<Longrightarrow> ended t \<and> ran t = ran s \<and> set (q_fifo s) \<subseteq> set (q_fifo t)"
  by (erule queue_stepE) (auto simp: ended_def put_job_def take_job_def)

lemma ended_steps: "queue_steps pool s t \<Longrightarrow> ended s \<Longrightarrow> ended t \<and> ran t = ran s \<and> set (q_fifo s) \<subseteq> set (q_fifo t)"
  proof (induction rule: queue_steps.induct)
  case (steps_step s t u)
  then show ?case using ended_step [OF steps_step(2)] by auto
qed simp

section \<open>Properties\<close>

text \<open>The life of the dispatcher goes forward, and what has run stays run.\<close>

lemma queue_step_forward: "queue_step pool s t \<Longrightarrow> queue_ok pool s \<Longrightarrow> q_lifecycle s \<le> q_lifecycle t \<and> prefix (ran s) (ran t)"
  by (induction rule: queue_step.induct) (auto simp: queue_state_simps prefix_def)

lemma queue_steps_forward: "queue_steps pool s t \<Longrightarrow> queue_ok pool s \<Longrightarrow> q_lifecycle s \<le> q_lifecycle t \<and> prefix (ran s) (ran t)"
proof (induction rule: queue_steps.induct)
  case (steps_step s t u)
  then have "queue_ok pool t" by (blast intro: queue_ok_steps)
  from queue_step_forward [OF steps_step(2) this] steps_step show ?case by (auto intro: order_trans prefix_order.trans)
qed simp

text \<open>C17. However the threads interleave, the accepted jobs are, in the order of their acceptance, those that have run, the one
  that is running and those queued, each once; the nodes in use are those queued, those held by a thread that publishes,
  drains or stops, and that of the job the dispatcher runs, never more than the pool has. From any state on, further jobs
  only come after the ones that have run, and the dispatcher goes from running to stopping to stopped and never back.\<close>

theorem queue_is_fifo:
  assumes "queue_steps pool queue_new s" "queue_steps pool s t"
  shows "accepted s = ran s @ running (q_node s) @ q_fifo s \<and> q_used s = nodes_held s \<and> q_used s \<le> pool \<and>
    prefix (ran s) (ran t) \<and> q_lifecycle s \<le> q_lifecycle t"
  using reachable_ok [OF assms(1)] queue_steps_forward [OF assms(2) reachable_ok [OF assms(1)]] unfolding queue_ok_def by blast

text \<open>A job on its way through the queue, and the stop after it.\<close>

definition job_pending :: "nat queue" where
  "job_pending = queue_new\<lparr>q_pending := [Some 7], q_used := 1\<rparr>"

definition job_stopped :: "nat queue" where
  "job_stopped = job_pending\<lparr>q_lifecycle := QStopping, q_stop := StopAllocating\<rparr>"

theorem queue_is_fifo_witness:
  "accepted job_pending = ran job_pending @ running (q_node job_pending) @ q_fifo job_pending \<and> q_used job_pending = 1 \<and>
   q_used job_pending = nodes_held job_pending \<and>
   prefix (ran job_pending) (ran job_stopped) \<and> q_lifecycle job_pending \<le> QStopping"
proof -
  have "queue_step 1 queue_new job_pending"
    using allocate [of queue_new 1 "Some (7 :: nat)"] by (simp add: queue_new_def job_pending_def)
  from steps_step [OF steps_refl this] have a: "queue_steps 1 queue_new job_pending" .
  have "queue_step 1 job_pending job_stopped"
    using stop [of job_pending 1] by (simp add: job_pending_def job_stopped_def queue_new_def)
  from steps_step [OF steps_refl this] have b: "queue_steps 1 job_pending job_stopped" .
  from queue_is_fifo [OF a b] show ?thesis by (simp add: job_pending_def job_stopped_def queue_new_def)
qed

text \<open>A barrier of \<open>drain\<close> has been reached, and the generation is the one of the barrier.\<close>

definition drain_returns :: "nat \<Rightarrow> 'j queue \<Rightarrow> bool" where
  "drain_returns before s \<longleftrightarrow> Barrier before \<in> set (ran s) \<and> before = q_generation s"

text \<open>C18. When a drain barrier has run and the generation is still the one at which the barrier was put, which is when \<open>drain\<close> returns
  true, every job accepted by \<open>try_enqueue\<close> has run: none is queued, and none is running.\<close>

theorem drain_quiesces:
  assumes "queue_steps pool queue_new s" "drain_returns g s"
  shows "filter is_counted (q_fifo s) = [] \<and> filter is_counted (running (q_node s)) = [] \<and>
    filter is_counted (ran s) = filter is_counted (accepted s)"
proof -
  have g: "Barrier g \<in> set (ran s)" "g = q_generation s" using assms(2) unfolding drain_returns_def by blast+
  have ok: "accepted s = ran s @ running (q_node s) @ q_fifo s" "q_generation s = count_jobs (accepted s)" "barriers_ok (accepted s)"
    using reachable_ok [OF assms(1)] unfolding queue_ok_def by blast+
  obtain xs ys where xs: "ran s = xs @ Barrier g # ys" using g(1) by (auto simp: in_set_conv_decomp)
  have "accepted s = xs @ Barrier g # (ys @ running (q_node s) @ q_fifo s)" unfolding ok(1) xs by simp
  then have "g = count_jobs xs" using ok(3) unfolding barriers_ok_def by blast
  with ok(2) g(2) have "count_jobs (accepted s) = count_jobs xs" by metis
  then have "count_jobs xs + (count_jobs ys + (count_jobs (running (q_node s)) + count_jobs (q_fifo s))) = count_jobs xs"
    unfolding ok(1) xs by simp
  then have "count_jobs (running (q_node s)) = 0" "count_jobs (q_fifo s) = 0" by simp_all
  then have "filter is_counted (running (q_node s)) = []" "filter is_counted (q_fifo s) = []" by (simp_all add: count_jobs_def)
  then show ?thesis unfolding ok(1) by simp
qed

text \<open>A drain of an empty queue.\<close>

definition drained :: "'j queue" where
  "drained = queue_new\<lparr>q_used := 1, q_node := Invoked, accepted := [Barrier 0], ran := [Barrier 0]\<rparr>"

lemma drain_run_example: "queue_steps 1 queue_new drained"
proof -
  let ?a = "(queue_new :: 'a queue)\<lparr>q_pending := [None], q_used := 1\<rparr>"
  let ?b = "(queue_new :: 'a queue)\<lparr>q_checked := Some (Barrier 0), q_used := 1\<rparr>"
  let ?c = "(queue_new :: 'a queue)\<lparr>q_used := 1, q_fifo := [Barrier 0], accepted := [Barrier 0]\<rparr>"
  let ?d = "(queue_new :: 'a queue)\<lparr>q_used := 1, q_node := Taken (Barrier 0), accepted := [Barrier 0]\<rparr>"
  have a: "queue_step 1 queue_new ?a" using allocate [of queue_new 1 None] by (simp add: queue_new_def)
  have b: "queue_step 1 ?a ?b" using check_drain [of ?a 1] by (simp add: queue_new_def)
  have c: "queue_step 1 ?b ?c" using put [of ?b "Barrier 0" 1] by (simp add: queue_new_def put_job_def)
  have d: "queue_step 1 ?c ?d" using run [of ?c 1] by (simp add: queue_new_def take_job_def)
  have e: "queue_step 1 ?d drained" using run_end [of ?d "Barrier 0" 1] by (simp add: drained_def queue_new_def end_job_def)
  show ?thesis by (rule steps_step [OF steps_step [OF steps_step [OF steps_step [OF steps_step [OF steps_refl a] b] c] d] e])
qed

theorem drain_quiesces_witness:
  "filter is_counted (q_fifo (drained :: nat queue)) = [] \<and> filter is_counted (running (q_node (drained :: nat queue))) = [] \<and>
   filter is_counted (ran (drained :: nat queue)) = filter is_counted (accepted (drained :: nat queue))"
  by (rule drain_quiesces [OF drain_run_example, of 0]) (simp add: drained_def drain_returns_def queue_new_def)

text \<open>\<open>request_stop\<close> does not take the lock of \<open>try_enqueue\<close>, so the dispatcher can end between the check of the lifecycle and the
  enqueueing: there are runs in which \<open>try_enqueue\<close> accepts a job that stays in the queue for ever, whatever happens next. A
  caller of \<open>dispatch_sync\<close> then waits for ever.\<close>

theorem accepted_job_never_runs:
  "\<exists>s :: 'j queue. queue_steps 2 queue_new s \<and> Counted j \<in> set (accepted s) \<and>
    (\<forall>t. queue_steps 2 s t \<longrightarrow> Counted j \<in> set (q_fifo t) \<and> ran t = ran s \<and> Counted j \<notin> set (ran t))"
proof -
  let ?a = "(queue_new :: 'j queue)\<lparr>q_pending := [Some j], q_used := 1\<rparr>"
  let ?b = "(queue_new :: 'j queue)\<lparr>q_used := 1, q_checked := Some (Counted j)\<rparr>"
  let ?s = "?b\<lparr>q_lifecycle := QStopping, q_stop := StopAllocating\<rparr>"
  let ?c = "?b\<lparr>q_lifecycle := QStopping, q_stop := StopPutting, q_used := 2\<rparr>"
  let ?d = "?b\<lparr>q_lifecycle := QStopping, q_stop := StopDone, q_used := 2, q_fifo := [Noop], accepted := [Noop]\<rparr>"
  let ?e = "?d\<lparr>q_fifo := [], q_node := Taken Noop\<rparr>"
  let ?f = "?d\<lparr>q_fifo := [], q_node := Invoked, ran := [Noop]\<rparr>"
  let ?g = "?d\<lparr>q_fifo := [], ran := [Noop], q_used := 1, q_loop := AfterJob\<rparr>"
  let ?i = "?g\<lparr>q_loop := Draining\<rparr>"
  let ?k = "?g\<lparr>q_loop := Ended, q_lifecycle := QStopped\<rparr>"
  let ?h = "put_job (Counted j) (?k\<lparr>q_checked := None\<rparr>)"
  have a: "queue_step 2 queue_new ?a" using allocate [of queue_new 2 "Some j"] by (simp add: queue_new_def)
  have b: "queue_step 2 ?a ?b" using check [of j ?a 2] by (simp add: queue_new_def)
  have s: "queue_step 2 ?b ?s" using stop [of ?b 2] by (simp add: queue_new_def)
  have c: "queue_step 2 ?s ?c" using stop_allocate [of ?s 2] by (simp add: queue_new_def numeral_2_eq_2)
  have d: "queue_step 2 ?c ?d" using stop_put [of ?c 2] by (simp add: queue_new_def put_job_def)
  have e: "queue_step 2 ?d ?e" using run [of ?d 2] by (simp add: queue_new_def take_job_def)
  have f: "queue_step 2 ?e ?f" using run_end [of ?e Noop 2] by (simp add: queue_new_def end_job_def)
  have g: "queue_step 2 ?f ?g" using run_release [of ?f 2] by (simp add: queue_new_def release_node_def)
  have i: "queue_step 2 ?g ?i" using leave [of ?g 2] by (simp add: queue_new_def)
  have k: "queue_step 2 ?i ?k" using finish [of ?i 2] by (simp add: queue_new_def)
  have h: "queue_step 2 ?k ?h" by (rule put) (simp add: queue_new_def)
  have "queue_steps 2 queue_new ?c"
    by (rule steps_step [OF steps_step [OF steps_step [OF steps_step [OF steps_refl a] b] s] c])
  then have "queue_steps 2 queue_new ?g" by (rule steps_step [OF steps_step [OF steps_step [OF steps_step [OF _ d] e] f] g])
  then have r: "queue_steps 2 queue_new ?h" by (rule steps_step [OF steps_step [OF steps_step [OF _ i] k] h])
  have "ended ?h" "Counted j \<in> set (q_fifo ?h)" "Counted j \<in> set (accepted ?h)" "Counted j \<notin> set (ran ?h)"
    by (simp_all add: ended_def put_job_def queue_new_def)
  with r obtain h :: "'j queue" where h: "queue_steps 2 queue_new h" "ended h" "Counted j \<in> set (q_fifo h)" "Counted j \<in> set (accepted h)"
    "Counted j \<notin> set (ran h)" by blast
  have "Counted j \<in> set (q_fifo t) \<and> ran t = ran h \<and> Counted j \<notin> set (ran t)" if "queue_steps 2 h t" for t
    using ended_steps [OF that h(2)] h(3,5) by auto
  then show ?thesis using h(1,4) by blast
qed

theorem accepted_job_never_runs_witness:
  "\<exists>s :: nat queue. queue_steps 2 queue_new s \<and> Counted 7 \<in> set (q_fifo s) \<and> Counted 7 \<in> set (accepted s) \<and> Counted 7 \<notin> set (ran s)"
  using accepted_job_never_runs [of 7] steps_refl by blast

end
