(* ===== verification/Settings.thy ===== *)
theory Settings
  imports Misc_Strings
begin

text \<open>
  The persisted settings of \<open>settings/base_setting.h\<close> and \<open>settings/settings.h\<close>. A setting descriptor
  is a type of the code; here it is a record, and a manager is a list of them, so that a type argument
  is a position of the list. The value of a setting is the bytes of its object, of which there are
  \<open>sizeof(Value)\<close>, the length of the default value. The settings subsystem of Zephyr is a record of
  functions over its state \<open>'w\<close>; its loading function calls a handler for stored entries.
\<close>

section \<open>Descriptors and the settings subsystem\<close>

type_synonym bytes = "u8 list"

record setting =
  st_key :: string
  st_default :: bytes
  st_keep :: bool
  st_validate :: "(bytes \<Rightarrow> bool) option"

definition value_size :: "setting \<Rightarrow> nat" where
  "value_size d = length (st_default d)"

text \<open>An entry handed to the handler: its key inside the subtree, its size, and the function that reads up to a
  number of bytes, which returns how many it read or a negative error.\<close>

record stored_entry =
  se_key :: string
  se_len :: nat
  se_read :: "nat \<Rightarrow> int \<times> bytes"

type_synonym load_handler = "stored_entry \<Rightarrow> bytes list \<Rightarrow> int \<times> bytes list"

record 'w settings_api =
  sa_subsys_init :: "'w \<Rightarrow> int \<times> 'w"
  sa_save_one :: "string \<Rightarrow> bytes \<Rightarrow> 'w \<Rightarrow> int \<times> 'w"
  sa_load_subtree :: "string \<Rightarrow> load_handler \<Rightarrow> bytes list \<Rightarrow> 'w \<Rightarrow> int \<times> bytes list \<times> 'w"
  sa_name_steq :: "string \<Rightarrow> string \<Rightarrow> bool \<times> string option"

section \<open>BaseSetting\<close>

definition setting_new :: "setting \<Rightarrow> bytes" where
  "setting_new d = st_default d"

definition setting_update :: "setting \<Rightarrow> bytes \<Rightarrow> bytes \<Rightarrow> bool \<times> bytes" where
  "setting_update d new_value v =
     (case st_validate d of
        Some validate \<Rightarrow> if \<not> validate new_value then (False, v) else (True, new_value)
      | None \<Rightarrow> (True, new_value))"

section \<open>SettingsManager\<close>

text \<open>The state of a manager is the tuple of the values; the subsystem is outside of it.\<close>

definition settings_new :: "setting list \<Rightarrow> bytes list" where
  "settings_new ds = map setting_new ds"

definition settings_value :: "bytes list \<Rightarrow> nat \<Rightarrow> bytes" where
  "settings_value vs i = vs ! i"

definition settings_path :: "string \<Rightarrow> setting \<Rightarrow> string" where
  "settings_path subtree d =
     literal_c_str (string_join [StringLiteral subtree, StringLiteral ''/'', StringLiteral (st_key d)])"

definition settings_update ::
  "'w settings_api \<Rightarrow> string \<Rightarrow> setting list \<Rightarrow> nat \<Rightarrow> bytes \<Rightarrow> bool \<Rightarrow> bytes list \<times> 'w \<Rightarrow> bool \<times> bytes list \<times> 'w"
where
  "settings_update A subtree ds i new_value retention s =
     (let (vs, w) = s;
          (ret, v) = setting_update (ds ! i) new_value (vs ! i);
          vs = vs[i := v]
      in if ret \<and> retention
         then let (rc, w) = sa_save_one A (settings_path subtree (ds ! i)) (vs ! i) w in (rc = 0, vs, w)
         else (ret, vs, w))"

fun reset_each ::
  "'w settings_api \<Rightarrow> string \<Rightarrow> setting list \<Rightarrow> nat list \<Rightarrow> bool \<Rightarrow> bytes list \<times> 'w \<Rightarrow> bool \<times> bytes list \<times> 'w"
where
  "reset_each A subtree ds [] ret s = (ret, s)"
| "reset_each A subtree ds (i # is) ret s =
     (if ret \<and> \<not> st_keep (ds ! i)
      then let (ret, s) = settings_update A subtree ds i (st_default (ds ! i)) True s
           in reset_each A subtree ds is ret s
      else reset_each A subtree ds is ret s)"

definition settings_reset ::
  "'w settings_api \<Rightarrow> string \<Rightarrow> setting list \<Rightarrow> bytes list \<times> 'w \<Rightarrow> bool \<times> bytes list \<times> 'w" where
  "settings_reset A subtree ds s = reset_each A subtree ds [0 ..< length ds] True s"

definition ENOENT :: int where
  "ENOENT = 2"

text \<open>The loader callback: \<open>load_each\<close> is its fold over the settings, with the variables \<open>rc\<close> and \<open>found\<close>.
  Reading writes the bytes into the value of the setting.\<close>

fun load_each ::
  "'w settings_api \<Rightarrow> setting list \<Rightarrow> stored_entry \<Rightarrow> nat list \<Rightarrow> int \<times> bool \<times> bytes list \<Rightarrow> int \<times> bool \<times> bytes list"
where
  "load_each A ds e [] r = r"
| "load_each A ds e (i # is) (rc, found, vs) =
     load_each A ds e is
       (if found then (rc, found, vs)
        else let (same, next) = sa_name_steq A (se_key e) (st_key (ds ! i))
             in if same \<and> next = None
                then if se_len e = value_size (ds ! i)
                     then let (rc, bs) = se_read e (value_size (ds ! i)) in (rc, True, vs[i := overwrite 0 bs (vs ! i)])
                     else (rc, True, vs)
                else (rc, found, vs))"

definition settings_load :: "'w settings_api \<Rightarrow> setting list \<Rightarrow> load_handler" where
  "settings_load A ds e vs =
     (let (rc, found, vs) = load_each A ds e [0 ..< length ds] (0, False, vs)
      in (if 0 \<le> rc \<and> found then 0 else - ENOENT, vs))"

definition settings_init ::
  "'w settings_api \<Rightarrow> string \<Rightarrow> setting list \<Rightarrow> bytes list \<times> 'w \<Rightarrow> bool \<times> bytes list \<times> 'w" where
  "settings_init A subtree ds s =
     (let (vs, w) = s; (rc, w) = sa_subsys_init A w
      in if rc \<noteq> 0 then (False, vs, w)
         else let (rc, vs, w) = sa_load_subtree A subtree (settings_load A ds) vs w in (rc = 0, vs, w))"

section \<open>Sessions\<close>

text \<open>The public operations, and a restart of the device: a new manager, initialised.\<close>

datatype settings_op =
    SetUpdate nat bytes bool
  | SetReset
  | SetRestart

fun settings_run_op ::
  "'w settings_api \<Rightarrow> string \<Rightarrow> setting list \<Rightarrow> settings_op \<Rightarrow> bytes list \<times> 'w \<Rightarrow> bool \<times> bytes list \<times> 'w"
where
  "settings_run_op A subtree ds (SetUpdate i x retention) s = settings_update A subtree ds i x retention s"
| "settings_run_op A subtree ds SetReset s = settings_reset A subtree ds s"
| "settings_run_op A subtree ds SetRestart s = settings_init A subtree ds (settings_new ds, snd s)"

fun settings_session ::
  "'w settings_api \<Rightarrow> string \<Rightarrow> setting list \<Rightarrow> settings_op list \<Rightarrow> bytes list \<times> 'w \<Rightarrow> bool list \<times> bytes list \<times> 'w"
where
  "settings_session A subtree ds [] s = ([], s)"
| "settings_session A subtree ds (op # ops) s =
     (let (r, s) = settings_run_op A subtree ds op s; (rs, s) = settings_session A subtree ds ops s
      in (r # rs, s))"

end
