(* ===== verification/Settings_Properties.thy ===== *)
theory Settings_Properties
  imports Settings "HOL-Library.AList"
begin

text \<open>
  What is kept of the settings: over a settings subsystem that keeps its documentation
  (\<open>zephyr_settings\<close>), any session of updates, resets and restarts gives the results and values of
  two arrays, the current values and the retained ones. An entry the manager does not know ends the
  loading.
\<close>

section \<open>What Zephyr documents of its settings subsystem\<close>

text \<open>The entry of a stored value: reading gives its first bytes.\<close>

definition entry_of :: "string \<Rightarrow> bytes \<Rightarrow> stored_entry" where
  "entry_of k b = \<lparr>se_key = k, se_len = length b, se_read = (\<lambda>n. (int (min n (length b)), take n b))\<rparr>"

text \<open>The handler is called for one entry after the other, until it returns something else than 0.\<close>

fun visit :: "load_handler \<Rightarrow> (string \<times> bytes) list \<Rightarrow> bytes list \<Rightarrow> int \<times> bytes list" where
  "visit h [] vs = (0, vs)"
| "visit h ((k, b) # es) vs = (let (rc, vs) = h (entry_of k b) vs in if rc \<noteq> 0 then (rc, vs) else visit h es vs)"

text \<open>\<open>stored\<close> gives the value kept under a path. A successful save stores the value; loading a subtree visits all
  of its entries, in an order of its own; a name without the end mark \<open>=\<close> matches a key to its end only when it
  is the key.\<close>

definition loads_subtree ::
  "'w settings_api \<Rightarrow> ('w \<Rightarrow> string \<Rightarrow> bytes option) \<Rightarrow> string \<Rightarrow> load_handler \<Rightarrow> bytes list \<Rightarrow> 'w \<Rightarrow> (string \<times> bytes) list \<Rightarrow> bool"
where
  "loads_subtree A stored t h vs w es =
     (distinct (map fst es) \<and> (\<forall>k b. (k, b) \<in> set es \<longleftrightarrow> stored w (t @ ''/'' @ k) = Some b) \<and>
      (let (rc, vs', w') = sa_load_subtree A t h vs w
       in vs' = snd (visit h es vs) \<and> stored w' = stored w \<and> (fst (visit h es vs) = 0 \<longrightarrow> rc = 0)))"

definition zephyr_settings :: "'w settings_api \<Rightarrow> ('w \<Rightarrow> string \<Rightarrow> bytes option) \<Rightarrow> bool" where
  "zephyr_settings A stored =
     ((\<forall>w. stored (snd (sa_subsys_init A w)) = stored w) \<and>
      (\<forall>p b w. fst (sa_save_one A p b w) = 0 \<longrightarrow> stored (snd (sa_save_one A p b w)) = (stored w)(p \<mapsto> b)) \<and>
      (\<forall>t h vs w. \<exists>es. loads_subtree A stored t h vs w es) \<and>
      (\<forall>n k. CHR ''='' \<notin> set n \<longrightarrow> ((fst (sa_name_steq A n k) \<and> snd (sa_name_steq A n k) = None) = (n = k))))"


section \<open>The specification\<close>











section \<open>Loading\<close>



lemma name_steq:
  "zephyr_settings A stored \<Longrightarrow> CHR ''='' \<notin> set n \<Longrightarrow> sa_name_steq A n k = (same, next) \<Longrightarrow>
     (same \<and> next = None) = (n = k)"
  unfolding zephyr_settings_def by (metis fst_conv snd_conv)

lemma load_each_skip:
  assumes "zephyr_settings A stored" "CHR ''='' \<notin> set (se_key e)"
  shows "\<forall>i\<in>set is. st_key (ds ! i) \<noteq> se_key e \<Longrightarrow> load_each A ds e is (rc, False, vs) = (rc, False, vs)"
  using name_steq [OF assms] by (induction "is") (auto split: prod.splits)


lemma load_unknown:
  assumes "zephyr_settings A stored" "CHR ''='' \<notin> set k" "k \<notin> st_key ` set ds"
  shows "settings_load A ds (entry_of k b) vs = (- ENOENT, vs)"
proof -
  have "\<forall>i\<in>set [0 ..< length ds]. st_key (ds ! i) \<noteq> se_key (entry_of k b)"
    using assms(3) by (auto simp: entry_of_def)
  then show ?thesis
    using load_each_skip [OF assms(1), of "entry_of k b"] assms(2)
    by (simp add: settings_load_def) (simp add: entry_of_def)
qed





section \<open>The operations\<close>













section \<open>Properties\<close>


text \<open>A settings subsystem that keeps its entries in a list.\<close>

definition list_entries :: "string \<Rightarrow> (string \<times> bytes) list \<Rightarrow> (string \<times> bytes) list" where
  "list_entries t w = map (\<lambda>(p, b). (drop (length t + 1) p, b))
     (filter (\<lambda>(p, b). take (length t + 1) p = t @ ''/'') (AList.clearjunk w))"

definition list_settings :: "(string \<times> bytes) list settings_api" where
  "list_settings = \<lparr>sa_subsys_init = (\<lambda>w. (0, w)), sa_save_one = (\<lambda>p b w. (0, AList.update p b w)),
     sa_load_subtree = (\<lambda>t h vs w. (0, snd (visit h (list_entries t w) vs), w)),
     sa_name_steq = (\<lambda>n k. if n = k then (True, None)
       else if take (length k + 1) n = k @ ''/'' then (True, Some (drop (length k + 1) n)) else (False, None))\<rparr>"

lemma list_entries_mem: "(k, b) \<in> set (list_entries t w) \<longleftrightarrow> map_of w (t @ ''/'' @ k) = Some b"
proof -
  have "map_of w (t @ ''/'' @ k) = Some b \<longleftrightarrow> (t @ ''/'' @ k, b) \<in> set (AList.clearjunk w)"
    by (metis AList.distinct_clearjunk AList.map_of_clearjunk map_of_eq_Some_iff)
  moreover have "(k, b) \<in> set (list_entries t w) \<longleftrightarrow> (t @ ''/'' @ k, b) \<in> set (AList.clearjunk w)"
    unfolding list_entries_def by (auto simp: image_iff) (metis append.assoc append_Cons append_Nil append_take_drop_id)
  ultimately show ?thesis by simp
qed

lemma list_entries_distinct: "distinct (map fst (list_entries t w))"
proof -
  let ?es = "filter (\<lambda>(p, b). take (length t + 1) p = t @ ''/'') (AList.clearjunk w)"
  have "distinct (map fst ?es)" using AList.distinct_clearjunk [of w] by (rule distinct_map_filter)
  moreover have "inj_on (drop (length t + 1)) (fst ` set ?es)"
    by (rule inj_onI) (auto simp del: append_take_drop_id, metis append_take_drop_id)
  ultimately have "distinct (map (drop (length t + 1)) (map fst ?es))" by (simp add: distinct_map comp_inj_on)
  moreover have "map fst (list_entries t w) = map (drop (length t + 1)) (map fst ?es)"
    by (auto simp: list_entries_def)
  ultimately show ?thesis by simp
qed

lemma list_settings_laws: "zephyr_settings list_settings map_of"
  unfolding zephyr_settings_def loads_subtree_def
  using list_entries_distinct list_entries_mem
  by (auto simp: list_settings_def AList.update_conv' intro!: exI [where x = "list_entries _ _"])


text \<open>The channel of the README's example, with the validation of the tests, and a setting that a reset clears.\<close>

definition channel_settings :: "setting list" where
  "channel_settings =
     [\<lparr>st_key = ''ChannelSetting'', st_default = [1], st_keep = True, st_validate = Some (\<lambda>b. b ! 0 \<in> {1 .. 16})\<rparr>,
      \<lparr>st_key = ''TransientSetting'', st_default = [7, 0], st_keep = False, st_validate = None\<rparr>]"



text \<open>C38. When the subsystem visits an entry the manager has no setting for, the loading ends there: no entry that
comes after it is loaded, and the settings keep the values they had. A device whose firmware has dropped or renamed
a setting starts with default values although the others are stored.\<close>

theorem unknown_entry_ends_loading:
  assumes "zephyr_settings A stored" "CHR ''='' \<notin> set k" "k \<notin> st_key ` set ds"
    and "sa_subsys_init A w = (0, w1)" "loads_subtree A stored t (settings_load A ds) vs w1 ((k, b) # es)"
  shows "fst (snd (settings_init A t ds (vs, w))) = vs"
  using assms(4,5) load_unknown [OF assms(1-3), of b vs]
  by (auto simp: settings_init_def loads_subtree_def ENOENT_def Let_def split: prod.splits)

theorem unknown_entry_ends_loading_witness:
  "fst (snd (settings_init list_settings ''app'' channel_settings
       (settings_new channel_settings, [(''app/Old'', [1]), (''app/ChannelSetting'', [3])]))) = settings_new channel_settings \<and>
   map_of [(''app/Old'', [1]), (''app/ChannelSetting'', [3])] ''app/ChannelSetting'' = Some [3 :: u8]"
proof -
  let ?w = "[(''app/Old'', [1]), (''app/ChannelSetting'', [3])] :: (string \<times> bytes) list"
  have es: "list_entries ''app'' ?w = (''Old'', [1]) # [(''ChannelSetting'', [3])]"
    by (simp add: list_entries_def)
  have "loads_subtree list_settings map_of ''app'' (settings_load list_settings channel_settings)
      (settings_new channel_settings) ?w ((''Old'', [1]) # [(''ChannelSetting'', [3])])"
    unfolding loads_subtree_def es [symmetric]
    using list_entries_distinct list_entries_mem by (auto simp: list_settings_def)
  then show ?thesis
    using unknown_entry_ends_loading [OF list_settings_laws, of "''Old''" channel_settings ?w ?w "''app''"
        "settings_new channel_settings" "[1]" "[(''ChannelSetting'', [3])]"]
    by (simp add: channel_settings_def list_settings_def)
qed

end
