(* ===== verification/Kernel_Objects.thy ===== *)
theory Kernel_Objects
  imports Zlibs_Prelude
begin

text \<open>
  The wrappers of Zephyr kernel objects: the threads of \<open>threads/threads.h\<close>, \<open>misc/timer.h\<close> and
  \<open>misc/kwork_delayable.h\<close>. The kernel, with the callbacks of the user, is one function from a call to its
  result and the new state \<open>'w\<close> of everything outside; the calls are recorded in their order.
\<close>

section \<open>Calls of the kernel\<close>

datatype timeout = NoWait | Usec nat | Msec nat | Seconds nat | Forever

text \<open>\<open>TimerUnit\<close> of \<open>misc/datetime.h\<close>, a type over \<open>uint8_t\<close>; other values are possible by a cast.\<close>

datatype timer_unit = UnitUs | UnitMs | UnitSec | UnitOther

datatype kernel_call =
    ThreadCreate | ThreadNameSet | ThreadResume | ThreadWakeup | ThreadJoin timeout | ThreadAbort
  | RunCallback | ExitCallback
  | QueueInit | QueueStart | QueueDrain bool | QueueStop timeout
  | TimerInit | TimerStart timeout timeout | TimerStop | TimerCallback
  | WorkInit | WorkReschedule timeout | WorkRescheduleFor nat timeout | WorkCancelSync | WorkIsPending | WorkCallback

type_synonym 'w kernel = "kernel_call \<Rightarrow> 'w \<Rightarrow> int \<times> 'w"

record 'w klog =
  world :: 'w
  calls :: "kernel_call list"

definition kcall :: "'w kernel \<Rightarrow> kernel_call \<Rightarrow> 'w klog \<Rightarrow> int \<times> 'w klog" where
  "kcall K c s = (case K c (world s) of (r, w) \<Rightarrow> (r, \<lparr>world = w, calls = calls s @ [c]\<rparr>))"

definition kdo :: "'w kernel \<Rightarrow> kernel_call \<Rightarrow> 'w klog \<Rightarrow> 'w klog" where
  "kdo K c s = snd (kcall K c s)"

section \<open>UserThread\<close>

text \<open>Of a callback only matters whether there is one. \<open>named\<close> is \<open>CONFIG_THREAD_NAME\<close>.\<close>

record user_thread =
  ut_created :: bool
  ut_run_cb :: bool
  ut_exit_cb :: bool

definition user_thread_create :: "'w kernel \<Rightarrow> bool \<Rightarrow> user_thread \<times> 'w klog \<Rightarrow> bool \<times> user_thread \<times> 'w klog" where
  "user_thread_create K named ts =
     (let (t, s) = ts; (tid, s) = kcall K ThreadCreate s
      in if tid = 0 then (False, t, s)
         else let s = (if named then kdo K ThreadNameSet s else s) in (True, t\<lparr>ut_created := True\<rparr>, s))"

text \<open>The constructors; the one without an exit callback is the case \<open>exit_cb = False\<close>.\<close>

definition user_thread_new :: "'w kernel \<Rightarrow> bool \<Rightarrow> bool \<Rightarrow> bool \<Rightarrow> 'w klog \<Rightarrow> user_thread \<times> 'w klog" where
  "user_thread_new K named run_cb exit_cb s =
     (let (ok, t, s) = user_thread_create K named (\<lparr>ut_created = False, ut_run_cb = False, ut_exit_cb = False\<rparr>, s)
      in if ok then (t\<lparr>ut_run_cb := run_cb, ut_exit_cb := exit_cb\<rparr>, s) else (t, s))"

text \<open>What the kernel runs on the thread.\<close>

definition user_thread_entry :: "'w kernel \<Rightarrow> user_thread \<times> 'w klog \<Rightarrow> user_thread \<times> 'w klog" where
  "user_thread_entry K ts = (let (t, s) = ts in if ut_run_cb t then (t, kdo K RunCallback s) else (t, s))"

definition user_thread_run :: "'w kernel \<Rightarrow> user_thread \<times> 'w klog \<Rightarrow> bool \<times> user_thread \<times> 'w klog" where
  "user_thread_run K ts =
     (let (t, s) = ts
      in if \<not> ut_created t \<or> \<not> ut_run_cb t then (False, t, s)
         else let s = kdo K ThreadResume s; s = kdo K ThreadWakeup s in (True, t, s))"

definition user_thread_destroy :: "'w kernel \<Rightarrow> timeout \<Rightarrow> user_thread \<times> 'w klog \<Rightarrow> user_thread \<times> 'w klog" where
  "user_thread_destroy K tmo ts =
     (let (t, s) = ts
      in if \<not> ut_created t then (t, s)
         else let t = t\<lparr>ut_created := False\<rparr>;
                  s = kdo K ThreadResume s;
                  s = (if ut_exit_cb t then kdo K ExitCallback s else s);
                  (ret, s) = kcall K (ThreadJoin tmo) s
              in if ret \<noteq> 0 then (t, kdo K (ThreadJoin Forever) (kdo K ThreadAbort s)) else (t, s))"

datatype thread_op = OpRun | OpDestroy timeout

fun thread_session :: "'w kernel \<Rightarrow> thread_op list \<Rightarrow> user_thread \<times> 'w klog \<Rightarrow> bool list \<times> user_thread \<times> 'w klog" where
  "thread_session K [] ts = ([], ts)"
| "thread_session K (OpRun # ops) ts =
     (let (r, ts) = user_thread_run K ts; (rs, ts) = thread_session K ops ts in (r # rs, ts))"
| "thread_session K (OpDestroy tmo # ops) ts = thread_session K ops (user_thread_destroy K tmo ts)"

section \<open>WorkqueueThread\<close>

text \<open>The singleton exists from the first use on; \<open>None\<close> is before it.\<close>

definition workqueue_create :: "'w kernel \<Rightarrow> bool \<times> 'w klog \<Rightarrow> bool \<times> bool \<times> 'w klog" where
  "workqueue_create K q =
     (let (created, s) = q
      in if created then (True, created, s)
         else let s = kdo K QueueInit s; s = kdo K QueueStart s in (True, True, s))"

definition workqueue_destroy_impl :: "'w kernel \<Rightarrow> bool \<times> 'w klog \<Rightarrow> bool \<times> 'w klog" where
  "workqueue_destroy_impl K q =
     (let (created, s) = q
      in if \<not> created then (False, s)
         else let s = kdo K (QueueDrain True) s; s = kdo K (QueueStop Forever) s in (False, s))"

definition workqueue_instance :: "'w kernel \<Rightarrow> bool option \<times> 'w klog \<Rightarrow> bool \<times> 'w klog" where
  "workqueue_instance K q =
     (case q of (Some created, s) \<Rightarrow> (created, s) | (None, s) \<Rightarrow> snd (workqueue_create K (False, s)))"

definition workqueue_handle :: "'w kernel \<Rightarrow> bool option \<times> 'w klog \<Rightarrow> bool option \<times> 'w klog" where
  "workqueue_handle K q = (let (created, s) = workqueue_instance K q in (Some created, s))"

definition workqueue_destroy :: "'w kernel \<Rightarrow> bool option \<times> 'w klog \<Rightarrow> bool option \<times> 'w klog" where
  "workqueue_destroy K q = (let (created, s) = workqueue_destroy_impl K (workqueue_instance K q) in (Some created, s))"

section \<open>Timer\<close>

datatype timer_type = OneShot | Repeating | OtherType

record timer =
  tm_type :: timer_type
  tm_cb :: bool

definition timer_new :: "'w kernel \<Rightarrow> timer_type \<Rightarrow> bool \<Rightarrow> 'w klog \<Rightarrow> timer \<times> 'w klog" where
  "timer_new K type cb s = (\<lparr>tm_type = type, tm_cb = cb\<rparr>, kdo K TimerInit s)"

text \<open>What the kernel runs when the timer expires.\<close>

definition timer_expired :: "'w kernel \<Rightarrow> timer \<times> 'w klog \<Rightarrow> timer \<times> 'w klog" where
  "timer_expired K ts = (let (t, s) = ts in if tm_cb t then (t, kdo K TimerCallback s) else (t, s))"

definition timer_start_timeout :: "'w kernel \<Rightarrow> timeout \<Rightarrow> timer \<times> 'w klog \<Rightarrow> bool \<times> timer \<times> 'w klog" where
  "timer_start_timeout K duration ts =
     (let (t, s) = ts; s = kdo K TimerStop s
      in case tm_type t of
           OneShot \<Rightarrow> (True, t, kdo K (TimerStart duration NoWait) s)
         | Repeating \<Rightarrow> (True, t, kdo K (TimerStart duration duration) s)
         | OtherType \<Rightarrow> (False, t, s))"

definition timer_start :: "'w kernel \<Rightarrow> nat \<Rightarrow> timer_unit \<Rightarrow> timer \<times> 'w klog \<Rightarrow> bool \<times> timer \<times> 'w klog" where
  "timer_start K duration unit ts =
     (case unit of
        UnitUs \<Rightarrow> timer_start_timeout K (Usec duration) ts
      | UnitMs \<Rightarrow> timer_start_timeout K (Msec duration) ts
      | UnitSec \<Rightarrow> timer_start_timeout K (Seconds duration) ts
      | UnitOther \<Rightarrow> (False, ts))"

definition timer_stop :: "'w kernel \<Rightarrow> timer \<times> 'w klog \<Rightarrow> timer \<times> 'w klog" where
  "timer_stop K ts = (let (t, s) = ts in (t, kdo K TimerStop s))"

section \<open>KworkDelayable\<close>

text \<open>The resolver of the target queue is a function of the state outside, when there is one; a queue is a number,
  \<open>None\<close> the null pointer.\<close>

record 'w work =
  wk_cb :: bool
  wk_workqueue :: "nat option"
  wk_resolver :: "('w \<Rightarrow> nat option) option"

definition work_new :: "'w kernel \<Rightarrow> bool \<Rightarrow> ('w \<Rightarrow> nat option) option \<Rightarrow> 'w klog \<Rightarrow> 'w work \<times> 'w klog" where
  "work_new K cb resolver s = (\<lparr>wk_cb = cb, wk_workqueue = None, wk_resolver = resolver\<rparr>, kdo K WorkInit s)"

definition work_handler :: "'w kernel \<Rightarrow> 'w work \<times> 'w klog \<Rightarrow> 'w work \<times> 'w klog" where
  "work_handler K ts = (let (t, s) = ts in if wk_cb t then (t, kdo K WorkCallback s) else (t, s))"

definition resolved_workqueue :: "'w work \<times> 'w klog \<Rightarrow> nat option" where
  "resolved_workqueue ts =
     (case wk_resolver (fst ts) of Some resolve \<Rightarrow> resolve (world (snd ts)) | None \<Rightarrow> wk_workqueue (fst ts))"

definition work_reschedule_timeout :: "'w kernel \<Rightarrow> timeout \<Rightarrow> 'w work \<times> 'w klog \<Rightarrow> bool \<times> 'w work \<times> 'w klog" where
  "work_reschedule_timeout K tmo ts =
     (let (t, s) = ts
      in case resolved_workqueue ts of
           None \<Rightarrow> (let (r, s) = kcall K (WorkReschedule tmo) s in (0 < r, t, s))
         | Some q \<Rightarrow> (let (r, s) = kcall K (WorkRescheduleFor q tmo) s in (0 < r, t, s)))"

definition work_reschedule :: "'w kernel \<Rightarrow> nat \<Rightarrow> timer_unit \<Rightarrow> 'w work \<times> 'w klog \<Rightarrow> bool \<times> 'w work \<times> 'w klog" where
  "work_reschedule K duration unit ts =
     (case unit of
        UnitUs \<Rightarrow> work_reschedule_timeout K (if duration \<noteq> 0 then Usec duration else NoWait) ts
      | UnitMs \<Rightarrow> work_reschedule_timeout K (if duration \<noteq> 0 then Msec duration else NoWait) ts
      | UnitSec \<Rightarrow> work_reschedule_timeout K (if duration \<noteq> 0 then Seconds duration else NoWait) ts
      | UnitOther \<Rightarrow> (False, ts))"

definition work_cancel :: "'w kernel \<Rightarrow> 'w work \<times> 'w klog \<Rightarrow> 'w work \<times> 'w klog" where
  "work_cancel K ts = (let (t, s) = ts in (t, kdo K WorkCancelSync s))"

definition work_is_pending :: "'w kernel \<Rightarrow> 'w work \<times> 'w klog \<Rightarrow> bool \<times> 'w work \<times> 'w klog" where
  "work_is_pending K ts = (let (t, s) = ts; (r, s) = kcall K WorkIsPending s in (r \<noteq> 0, t, s))"

datatype timer_op = OpStart nat timer_unit | OpStop | OpExpire

fun timer_session :: "'w kernel \<Rightarrow> timer_op list \<Rightarrow> timer \<times> 'w klog \<Rightarrow> timer \<times> 'w klog" where
  "timer_session K [] ts = ts"
| "timer_session K (OpStart d u # ops) ts = timer_session K ops (snd (timer_start K d u ts))"
| "timer_session K (OpStop # ops) ts = timer_session K ops (timer_stop K ts)"
| "timer_session K (OpExpire # ops) ts = timer_session K ops (timer_expired K ts)"

datatype queue_op = OpHandle | OpQueueDestroy

fun workqueue_session :: "'w kernel \<Rightarrow> queue_op list \<Rightarrow> bool option \<times> 'w klog \<Rightarrow> bool option \<times> 'w klog" where
  "workqueue_session K [] q = q"
| "workqueue_session K (OpHandle # ops) q = workqueue_session K ops (workqueue_handle K q)"
| "workqueue_session K (OpQueueDestroy # ops) q = workqueue_session K ops (workqueue_destroy K q)"

section \<open>Lemmas\<close>

lemma calls_kdo [simp]: "calls (kdo K c s) = calls s @ [c]"
  by (simp add: kdo_def kcall_def split: prod.splits)

lemma calls_kcall: "kcall K c s = (r, s') \<Longrightarrow> calls s' = calls s @ [c]"
  by (auto simp: kcall_def split: prod.splits)

lemma thread_dead:
  "\<not> ut_created t \<or> \<not> ut_run_cb t \<Longrightarrow> \<not> ut_created t \<Longrightarrow>
     thread_session K ops (t, s) = (map (\<lambda>_. False) (filter (\<lambda>op. op = OpRun) ops), t, s)"
  by (induction K ops "(t, s)" rule: thread_session.induct) (auto simp: user_thread_run_def user_thread_destroy_def)

text \<open>What the kernel does and answers when calls are made from a state outside: the world after some calls, and the answer to
  one more. The world of a state is the one after its recorded calls.\<close>

definition after :: "'w kernel \<Rightarrow> kernel_call list \<Rightarrow> 'w \<Rightarrow> 'w" where
  "after K cs w = fold (\<lambda>c w. snd (K c w)) cs w"

definition answer :: "'w kernel \<Rightarrow> kernel_call list \<Rightarrow> kernel_call \<Rightarrow> 'w \<Rightarrow> int" where
  "answer K cs c w = fst (K c (after K cs w))"

definition grown :: "'w kernel \<Rightarrow> 'w klog \<Rightarrow> kernel_call list \<Rightarrow> 'w klog \<Rightarrow> bool" where
  "grown K s cs s' \<longleftrightarrow> calls s' = calls s @ cs \<and> world s' = after K cs (world s)"

lemma grown_Nil [simp]: "grown K s [] s' \<longleftrightarrow> s' = s"
  by (auto simp: grown_def after_def)

lemma grown_kdo: "grown K s [c] (kdo K c s)"
  by (simp add: grown_def after_def kdo_def kcall_def split: prod.splits)

lemma grown_kcall: "kcall K c s = (r, s') \<Longrightarrow> grown K s [c] s' \<and> r = answer K [] c (world s)"
  by (auto simp: grown_def after_def answer_def kcall_def split: prod.splits)

lemma grown_trans: "grown K s cs s' \<Longrightarrow> grown K s' ds s'' \<Longrightarrow> grown K s (cs @ ds) s''"
  by (simp add: grown_def after_def)

lemma grown_answer: "grown K s cs s' \<Longrightarrow> answer K ds c (world s') = answer K (cs @ ds) c (world s)"
  by (simp add: grown_def after_def answer_def)

text \<open>The calls that end a thread after the calls \<open>cs\<close>: its exit callback, then the wait, and the abortion when the
  wait is answered by an error.\<close>

definition thread_end :: "'w kernel \<Rightarrow> 'w \<Rightarrow> kernel_call list \<Rightarrow> bool \<Rightarrow> timeout \<Rightarrow> kernel_call list" where
  "thread_end K w cs exit_cb tmo =
     (let exit = [ThreadResume] @ (if exit_cb then [ExitCallback] else [])
      in exit @ [ThreadJoin tmo] @
         (if answer K (cs @ exit) (ThreadJoin tmo) w = 0 then [] else [ThreadAbort, ThreadJoin Forever]))"

lemma destroy_calls:
  assumes "ut_created t"
  shows "fst (user_thread_destroy K tmo (t, s)) = t\<lparr>ut_created := False\<rparr> \<and>
     grown K s (thread_end K (world s) [] (ut_exit_cb t) tmo) (snd (user_thread_destroy K tmo (t, s)))"
proof -
  let ?exit = "[ThreadResume] @ (if ut_exit_cb t then [ExitCallback] else [])"
  let ?s = "if ut_exit_cb t then kdo K ExitCallback (kdo K ThreadResume s) else kdo K ThreadResume s"
  have e: "grown K s ?exit ?s" using grown_kdo grown_trans [OF grown_kdo grown_kdo] by auto
  obtain r s' where j: "kcall K (ThreadJoin tmo) ?s = (r, s')" by (cases "kcall K (ThreadJoin tmo) ?s")
  have w: "grown K s (?exit @ [ThreadJoin tmo]) s'" "r = answer K ?exit (ThreadJoin tmo) (world s)"
    using grown_kcall [OF j] grown_trans [OF e] grown_answer [OF e, of "[]"] by auto
  have "grown K s ((?exit @ [ThreadJoin tmo]) @ [ThreadAbort, ThreadJoin Forever]) (kdo K (ThreadJoin Forever) (kdo K ThreadAbort s'))"
    using grown_trans [OF w(1) grown_trans [OF grown_kdo grown_kdo]] by simp
  moreover have "user_thread_destroy K tmo (t, s) =
      (t\<lparr>ut_created := False\<rparr>, if r = 0 then s' else kdo K (ThreadJoin Forever) (kdo K ThreadAbort s'))"
    using assms j by (simp add: user_thread_destroy_def)
  ultimately show ?thesis using w by (simp add: thread_end_def Let_def)
qed

text \<open>The calls of a session on a created thread, and its results.\<close>

definition thread_trace :: "'w kernel \<Rightarrow> 'w \<Rightarrow> kernel_call list \<Rightarrow> bool \<Rightarrow> bool \<Rightarrow> thread_op list \<Rightarrow> kernel_call list" where
  "thread_trace K w cs run_cb exit_cb ops =
     (let runs = concat (map (\<lambda>_. if run_cb then [ThreadResume, ThreadWakeup] else []) (takeWhile (\<lambda>op. op = OpRun) ops))
      in runs @ (case dropWhile (\<lambda>op. op = OpRun) ops of OpDestroy tmo # _ \<Rightarrow> thread_end K w (cs @ runs) exit_cb tmo | _ \<Rightarrow> []))"

definition thread_results :: "bool \<Rightarrow> thread_op list \<Rightarrow> bool list" where
  "thread_results run_cb ops =
     map (\<lambda>_. run_cb) (takeWhile (\<lambda>op. op = OpRun) ops) @
     map (\<lambda>_. False) (filter (\<lambda>op. op = OpRun) (dropWhile (\<lambda>op. op = OpRun) ops))"

lemma thread_end_grown: "grown K s cs s' \<Longrightarrow> thread_end K (world s') ds e tmo = thread_end K (world s) (cs @ ds) e tmo"
  by (simp add: thread_end_def Let_def grown_answer)

lemma thread_trace_grown: "grown K s cs s' \<Longrightarrow> thread_trace K (world s') ds r e ops = thread_trace K (world s) (cs @ ds) r e ops"
  by (cases "dropWhile (\<lambda>op. op = OpRun) ops")
    (auto simp: thread_trace_def Let_def thread_end_grown simp del: dropWhile_eq_Nil_conv split: thread_op.split)

lemma thread_session_created:
  "ut_created t \<Longrightarrow>
     fst (thread_session K ops (t, s)) = thread_results (ut_run_cb t) ops \<and>
     grown K s (thread_trace K (world s) [] (ut_run_cb t) (ut_exit_cb t) ops) (snd (snd (thread_session K ops (t, s))))"
proof (induction ops arbitrary: s)
  case Nil
  then show ?case by (simp add: thread_results_def thread_trace_def)
next
  case (Cons op ops)
  show ?case
  proof (cases op)
    case OpRun
    let ?r = "if ut_run_cb t then [ThreadResume, ThreadWakeup] else []"
    let ?s = "if ut_run_cb t then kdo K ThreadWakeup (kdo K ThreadResume s) else s"
    have run: "user_thread_run K (t, s) = (ut_run_cb t, t, ?s)" using Cons.prems by (simp add: user_thread_run_def)
    have g: "grown K s ?r ?s" using grown_trans [OF grown_kdo grown_kdo] by auto
    have trace: "thread_trace K w [] (ut_run_cb t) e (OpRun # ops) = ?r @ thread_trace K w ?r (ut_run_cb t) e ops" for w e
      by (cases "dropWhile (\<lambda>op. op = OpRun) ops")
        (auto simp: thread_trace_def Let_def simp del: dropWhile_eq_Nil_conv split: thread_op.split)
    have "grown K s (?r @ thread_trace K (world s) ?r (ut_run_cb t) (ut_exit_cb t) ops) (snd (snd (thread_session K ops (t, ?s))))"
      using grown_trans [OF g] Cons.IH [OF Cons.prems, of ?s] thread_trace_grown [OF g, of "[]"] by simp
    moreover have "thread_session K (OpRun # ops) (t, s) = (ut_run_cb t # fst (thread_session K ops (t, ?s)), snd (thread_session K ops (t, ?s)))"
      unfolding thread_session.simps run Let_def by (simp add: case_prod_unfold)
    moreover have "thread_results (ut_run_cb t) (OpRun # ops) = ut_run_cb t # thread_results (ut_run_cb t) ops"
      by (simp add: thread_results_def)
    ultimately show ?thesis using Cons.IH [OF Cons.prems, of ?s] unfolding OpRun trace by (simp only: fst_conv snd_conv)
  next
    case (OpDestroy tmo)
    note d = destroy_calls [OF Cons.prems, of K tmo s]
    have "user_thread_destroy K tmo (t, s) = (t\<lparr>ut_created := False\<rparr>, snd (user_thread_destroy K tmo (t, s)))"
      using d by (simp add: prod_eq_iff)
    then show ?thesis
      using thread_dead [of "t\<lparr>ut_created := False\<rparr>" K ops "snd (user_thread_destroy K tmo (t, s))"] d OpDestroy
      by (simp add: thread_results_def thread_trace_def)
  qed
qed

lemma workqueue_stopped: "workqueue_session K ops (Some False, s) = (Some False, s)"
proof (induction ops)
  case (Cons op ops)
  then show ?case
    by (cases op) (auto simp: workqueue_handle_def workqueue_destroy_def workqueue_instance_def
      workqueue_destroy_impl_def)
qed simp

lemma workqueue_started:
  "calls (snd (workqueue_session K ops (Some True, s))) =
     calls s @ (if OpQueueDestroy \<in> set ops then [QueueDrain True, QueueStop Forever] else [])"
proof (induction ops)
  case (Cons op ops)
  then show ?case
    by (cases op) (auto simp: workqueue_handle_def workqueue_destroy_def workqueue_instance_def
      workqueue_destroy_impl_def workqueue_stopped)
qed simp

section \<open>Properties\<close>

text \<open>C39. In any session of \<open>run\<close> and \<open>destroy\<close> on a thread object, whatever the kernel answers: \<open>run\<close> reports success
exactly when the kernel created the thread, there is a callback and the object is not destroyed; the calls of the
kernel are the creation, one resumption per successful \<open>run\<close>, and for the first \<open>destroy\<close> a resumption, the exit
callback, once, the wait, and the abortion exactly when the kernel answers that wait with an error. Nothing is called
after that.\<close>

theorem user_thread_lifecycle:
  "let created = (fst (K ThreadCreate (world s)) \<noteq> 0);
       start = [ThreadCreate] @ (if created \<and> named then [ThreadNameSet] else []);
       r = thread_session K ops (user_thread_new K named run_cb exit_cb s)
   in fst r = (if created then thread_results run_cb ops else map (\<lambda>_. False) (filter (\<lambda>op. op = OpRun) ops)) \<and>
      calls (snd (snd r)) = calls s @ start @ (if created then thread_trace K (world s) start run_cb exit_cb ops else [])"
proof -
  obtain tid s1 where c: "kcall K ThreadCreate s = (tid, s1)" by (cases "kcall K ThreadCreate s")
  then have tid: "tid = fst (K ThreadCreate (world s))" by (auto simp: kcall_def split: prod.splits)
  let ?t = "\<lparr>ut_created = True, ut_run_cb = run_cb, ut_exit_cb = exit_cb\<rparr>"
  let ?s = "if named then kdo K ThreadNameSet s1 else s1"
  let ?start = "[ThreadCreate] @ (if named then [ThreadNameSet] else [])"
  show ?thesis
  proof (cases "tid = 0")
    case True
    then show ?thesis
      using c tid calls_kcall [OF c] thread_dead [of "\<lparr>ut_created = False, ut_run_cb = False, ut_exit_cb = False\<rparr>" K ops s1]
      by (simp add: user_thread_new_def user_thread_create_def)
  next
    case False
    then have n: "user_thread_new K named run_cb exit_cb s = (?t, ?s)"
      using c by (simp add: user_thread_new_def user_thread_create_def)
    have g: "grown K s ?start ?s" using grown_kcall [OF c] grown_trans [OF _ grown_kdo, of K s "[ThreadCreate]" s1] by auto
    have "grown K s (?start @ thread_trace K (world s) ?start run_cb exit_cb ops) (snd (snd (thread_session K ops (?t, ?s))))"
      using grown_trans [OF g] thread_session_created [of ?t K ops ?s] thread_trace_grown [OF g, of "[]"] by simp
    then show ?thesis
      using thread_session_created [of ?t K ops ?s] False tid n by (simp add: grown_def)
  qed
qed

text \<open>The work queue is initialised and started at its first use, and drained and stopped at most once; a later use
of its handle does not start it again.\<close>

theorem workqueue_starts_once:
  "calls (snd (workqueue_session K ops (None, s))) =
     calls s @ (if ops = [] then [] else [QueueInit, QueueStart]) @
       (if OpQueueDestroy \<in> set ops then [QueueDrain True, QueueStop Forever] else [])"
proof (cases ops)
  case (Cons op ops')
  then show ?thesis
    by (cases op) (auto simp: workqueue_handle_def workqueue_destroy_def workqueue_instance_def workqueue_create_def
      workqueue_destroy_impl_def workqueue_started workqueue_stopped)
qed simp

text \<open>Every start of the kernel timer directly follows a stop, and has a period only when the timer repeats.\<close>

definition starts_ok :: "timer_type \<Rightarrow> kernel_call list \<Rightarrow> bool" where
  "starts_ok type cs =
     (\<forall>xs d p ys. cs = xs @ TimerStart d p # ys \<longrightarrow> (\<exists>zs. xs = zs @ [TimerStop]) \<and>
        p = (if type = Repeating then d else NoWait))"

lemma starts_ok_snoc:
  "starts_ok type cs \<Longrightarrow> (\<And>d p. c = TimerStart d p \<Longrightarrow> (\<exists>zs. cs = zs @ [TimerStop]) \<and> p = (if type = Repeating then d else NoWait)) \<Longrightarrow>
     starts_ok type (cs @ [c])"
  unfolding starts_ok_def append_single_cases by blast

lemma timer_start_ok:
  assumes "starts_ok (tm_type t) (calls s)"
  shows "fst (snd (timer_start K d u (t, s))) = t \<and> starts_ok (tm_type t) (calls (snd (snd (timer_start K d u (t, s)))))"
proof -
  have stop: "starts_ok (tm_type t) (calls s @ [TimerStop])" by (rule starts_ok_snoc [OF assms]) simp
  have "starts_ok (tm_type t) ((calls s @ [TimerStop]) @ [TimerStart e (if tm_type t = Repeating then e else NoWait)])" for e
    by (rule starts_ok_snoc [OF stop]) simp
  then have one: "tm_type t = OneShot \<Longrightarrow> starts_ok OneShot (calls s @ [TimerStop, TimerStart e NoWait])"
    and rep: "tm_type t = Repeating \<Longrightarrow> starts_ok Repeating (calls s @ [TimerStop, TimerStart e e])" for e
    by fastforce+
  show ?thesis
    using assms stop
    by (cases u; cases "tm_type t") (simp_all add: timer_start_def timer_start_timeout_def one rep)
qed

theorem timer_starts_after_stop:
  "starts_ok type (calls s) \<Longrightarrow> starts_ok type (calls (snd (timer_session K ops (timer_new K type cb s))))"
proof -
  have session: "starts_ok (tm_type t) (calls s) \<Longrightarrow> starts_ok (tm_type t) (calls (snd (timer_session K ops (t, s))))" for t s
  proof (induction ops arbitrary: s)
    case (Cons op ops)
    show ?case
    proof (cases op)
      case (OpStart d u)
      obtain r s' where "timer_start K d u (t, s) = (r, t, s')" "starts_ok (tm_type t) (calls s')"
        using timer_start_ok [OF Cons.prems, of K d u] by (cases "timer_start K d u (t, s)") auto
      then show ?thesis using Cons.IH OpStart by simp
    next
      case OpStop
      then show ?thesis using Cons.IH [of "kdo K TimerStop s"] starts_ok_snoc [OF Cons.prems, of TimerStop]
        by (simp add: timer_stop_def)
    next
      case OpExpire
      then show ?thesis using Cons.IH [of "kdo K TimerCallback s"] Cons.IH [OF Cons.prems] starts_ok_snoc [OF Cons.prems, of TimerCallback]
        by (auto simp: timer_expired_def)
    qed
  qed simp
  assume "starts_ok type (calls s)"
  then have "starts_ok type (calls (kdo K TimerInit s))" using starts_ok_snoc [of type "calls s" TimerInit] by simp
  then show ?thesis using session [of "\<lparr>tm_type = type, tm_cb = cb\<rparr>" "kdo K TimerInit s"] by (simp add: timer_new_def)
qed

end
