(* ===== verification/Usb_Hw.thy ===== *)
theory Usb_Hw
  imports Zlibs_Prelude
begin

text \<open>
  The USB device wrapper of \<open>drivers/usb/\<close> and \<open>usb_hw.cpp\<close>: it hands the descriptors and
  configurations to the USB device stack of Zephyr and starts and stops it. The stack is a record of
  functions over its state \<open>'w\<close>, with the result codes of Zephyr; the descriptor objects are named
  by constructors, their contents and the ones of the classes are the stack's. The build
  configuration is the record \<open>usb_kconfig\<close>.
\<close>

section \<open>The USB device stack\<close>

datatype usb_speed = SpeedFS | SpeedHS

datatype 'd usb_descriptor = UsbLang | UsbMfr | UsbProduct | UsbSn | UsbUsbext | UsbExtra 'd

record usb_kconfig =
  kc_hwinfo :: bool
  kc_supports_hs :: bool
  kc_multi_interface_class :: bool
  kc_self_powered :: bool
  kc_usb20_extension :: bool

record ('w, 'd, 'v, 'c) usbd_api =
  us_device_is_ready :: "'v \<Rightarrow> 'w \<Rightarrow> bool"
  us_set_dev :: "'v option \<Rightarrow> 'w \<Rightarrow> 'w"
  us_add_descriptor :: "'d usb_descriptor \<Rightarrow> 'w \<Rightarrow> int \<times> 'w"
  us_caps_speed :: "'w \<Rightarrow> usb_speed"
  us_add_configuration :: "usb_speed \<Rightarrow> 'w \<Rightarrow> int \<times> 'w"
  us_register_all_classes :: "usb_speed \<Rightarrow> 'w \<Rightarrow> int \<times> 'w"
  us_set_code_triple :: "usb_speed \<Rightarrow> u8 \<times> u8 \<times> u8 \<Rightarrow> 'w \<Rightarrow> 'w"
  us_self_powered :: "bool \<Rightarrow> 'w \<Rightarrow> 'w"
  us_msg_register_cb :: "'c \<Rightarrow> 'w \<Rightarrow> int \<times> 'w"
  us_set_bcd_usb :: "usb_speed \<Rightarrow> u16 \<Rightarrow> 'w \<Rightarrow> 'w"
  us_init :: "'w \<Rightarrow> int \<times> 'w"
  us_can_detect_vbus :: "'w \<Rightarrow> bool"
  us_enable :: "'w \<Rightarrow> int \<times> 'w"
  us_disable :: "'w \<Rightarrow> int \<times> 'w"
  us_shutdown :: "'w \<Rightarrow> int \<times> 'w"
  us_enabled :: "'w \<Rightarrow> bool"
  us_initialized :: "'w \<Rightarrow> bool"

text \<open>A null descriptor among the extra ones is \<open>None\<close>.\<close>

record ('d, 'c) usb_config =
  message_callback :: "'c option"
  extra_descriptors :: "'d option list"

text \<open>A call that returns 0 on success, followed by the early return.\<close>

definition checked :: "int \<times> 'w \<Rightarrow> bool \<times> 'w" where
  "checked r = (fst r = 0, snd r)"

section \<open>Setting up the device\<close>

definition USB_BCC_MISCELLANEOUS :: u8 where
  "USB_BCC_MISCELLANEOUS = 0xEF"

definition COMPOSITE_DEVICE_SUBCLASS :: u8 where
  "COMPOSITE_DEVICE_SUBCLASS = 0x02"

definition COMPOSITE_DEVICE_PROTOCOL :: u8 where
  "COMPOSITE_DEVICE_PROTOCOL = 0x01"

definition usb_fix_code_triple :: "usb_kconfig \<Rightarrow> ('w, 'd, 'v, 'c) usbd_api \<Rightarrow> usb_speed \<Rightarrow> 'w \<Rightarrow> 'w" where
  "usb_fix_code_triple C A speed w =
     (if kc_multi_interface_class C
      then us_set_code_triple A speed (USB_BCC_MISCELLANEOUS, COMPOSITE_DEVICE_SUBCLASS, COMPOSITE_DEVICE_PROTOCOL) w
      else us_set_code_triple A speed (0, 0, 0) w)"

definition usb_setup_speed :: "usb_kconfig \<Rightarrow> ('w, 'd, 'v, 'c) usbd_api \<Rightarrow> usb_speed \<Rightarrow> 'w \<Rightarrow> bool \<times> 'w" where
  "usb_setup_speed C A speed w =
     and_then (checked (us_add_configuration A speed w)) (\<lambda>w.
     and_then (checked (us_register_all_classes A speed w)) (\<lambda>w.
     (True, usb_fix_code_triple C A speed w)))"

fun usb_add_extra :: "('w, 'd, 'v, 'c) usbd_api \<Rightarrow> 'd option list \<Rightarrow> 'w \<Rightarrow> bool \<times> 'w" where
  "usb_add_extra A [] w = (True, w)"
| "usb_add_extra A (None # ds) w = (False, w)"
| "usb_add_extra A (Some d # ds) w =
     and_then (checked (us_add_descriptor A (UsbExtra d) w)) (usb_add_extra A ds)"

definition usb_setup_device ::
  "usb_kconfig \<Rightarrow> ('w, 'd, 'v, 'c) usbd_api \<Rightarrow> ('d, 'c) usb_config \<Rightarrow> 'w \<Rightarrow> bool \<times> 'w" where
  "usb_setup_device C A config w =
     and_then (checked (us_add_descriptor A UsbLang w)) (\<lambda>w.
     and_then (checked (us_add_descriptor A UsbMfr w)) (\<lambda>w.
     and_then (checked (us_add_descriptor A UsbProduct w)) (\<lambda>w.
     and_then (if kc_hwinfo C then checked (us_add_descriptor A UsbSn w) else (True, w)) (\<lambda>w.
     and_then (if kc_supports_hs C \<and> us_caps_speed A w = SpeedHS then usb_setup_speed C A SpeedHS w else (True, w)) (\<lambda>w.
     and_then (usb_setup_speed C A SpeedFS w) (\<lambda>w.
     let w = us_self_powered A (kc_self_powered C) w in
     and_then (case message_callback config of Some cb \<Rightarrow> checked (us_msg_register_cb A cb w) | None \<Rightarrow> (True, w)) (\<lambda>w.
     and_then (usb_add_extra A (extra_descriptors config) w) (\<lambda>w.
     if kc_usb20_extension C
     then let w = us_set_bcd_usb A SpeedFS 0x0201 w; w = us_set_bcd_usb A SpeedHS 0x0201 w
          in checked (us_add_descriptor A UsbUsbext w)
     else (True, w)))))))))"

section \<open>UsbHw\<close>

record 'v usb_hw =
  ub_device :: "'v option"
  ub_initialized :: bool

definition usb_hw_new :: "'v option \<Rightarrow> 'v usb_hw" where
  "usb_hw_new device = \<lparr>ub_device = device, ub_initialized = False\<rparr>"

definition usb_instance :: "'v option \<Rightarrow> 'v usb_hw \<Rightarrow> 'v usb_hw" where
  "usb_instance device u =
     (if device \<noteq> None \<and> \<not> ub_initialized u then u\<lparr>ub_device := device\<rparr> else u)"

definition usb_init ::
  "usb_kconfig \<Rightarrow> ('w, 'd, 'v, 'c) usbd_api \<Rightarrow> ('d, 'c) usb_config \<Rightarrow> 'v usb_hw \<times> 'w \<Rightarrow> bool \<times> 'v usb_hw \<times> 'w" where
  "usb_init C A config s =
     (let (u, w) = s
      in if ub_initialized u then (True, u, w)
         else case ub_device u of
           None \<Rightarrow> (False, u, w)
         | Some dev \<Rightarrow>
             if \<not> us_device_is_ready A dev w then (False, u, w)
             else let w = us_set_dev A (Some dev) w;
                      (ok, w) =
                        and_then (usb_setup_device C A config w) (\<lambda>w.
                        and_then (checked (us_init A w)) (\<lambda>w.
                        if \<not> us_can_detect_vbus A w \<or> message_callback config = None
                        then checked (us_enable A w) else (True, w)))
                  in if ok then (True, u\<lparr>ub_initialized := True\<rparr>, w) else (False, u, w))"

definition usb_deinit :: "('w, 'd, 'v, 'c) usbd_api \<Rightarrow> 'v usb_hw \<times> 'w \<Rightarrow> bool \<times> 'v usb_hw \<times> 'w" where
  "usb_deinit A s =
     (let (u, w) = s
      in if \<not> ub_initialized u then (True, u, w)
         else let (ok, w) =
                    and_then (if us_enabled A w then checked (us_disable A w) else (True, w)) (\<lambda>w.
                    if us_initialized A w then checked (us_shutdown A w) else (True, w))
              in if ok then (True, u\<lparr>ub_initialized := False\<rparr>, us_set_dev A None w) else (False, u, w))"

section \<open>Sessions\<close>

datatype ('d, 'v, 'c) usb_op = UsbInstance "'v option" | UsbInit "('d, 'c) usb_config" | UsbDeinit

fun usb_op_step ::
  "usb_kconfig \<Rightarrow> ('w, 'd, 'v, 'c) usbd_api \<Rightarrow> ('d, 'v, 'c) usb_op \<Rightarrow> 'v usb_hw \<times> 'w \<Rightarrow> bool \<times> 'v usb_hw \<times> 'w" where
  "usb_op_step C A (UsbInstance device) s = (True, usb_instance device (fst s), snd s)"
| "usb_op_step C A (UsbInit config) s = usb_init C A config s"
| "usb_op_step C A UsbDeinit s = usb_deinit A s"

fun usb_session ::
  "usb_kconfig \<Rightarrow> ('w, 'd, 'v, 'c) usbd_api \<Rightarrow> ('d, 'v, 'c) usb_op list \<Rightarrow> 'v usb_hw \<times> 'w \<Rightarrow> bool list \<times> 'v usb_hw \<times> 'w" where
  "usb_session C A [] s = ([], s)"
| "usb_session C A (op # ops) s =
     (let (r, s) = usb_op_step C A op s; (rs, s) = usb_session C A ops s in (r # rs, s))"

section \<open>The calls that switch the stack\<close>

text \<open>
  The stack with a record of the calls that initialise, enable, disable and shut it down, and of their
  results. Nothing is assumed of the stack: whether it is up is read off the calls.
\<close>

datatype usb_event = UsbdInit int | UsbdEnable int | UsbdDisable int | UsbdShutdown int

definition silent :: "('w \<Rightarrow> 'w) \<Rightarrow> 'w \<times> usb_event list \<Rightarrow> 'w \<times> usb_event list" where
  "silent f s = (f (fst s), snd s)"

definition silent_call :: "('w \<Rightarrow> int \<times> 'w) \<Rightarrow> 'w \<times> usb_event list \<Rightarrow> int \<times> 'w \<times> usb_event list" where
  "silent_call f s = (case f (fst s) of (r, w) \<Rightarrow> (r, w, snd s))"

definition noted :: "(int \<Rightarrow> usb_event) \<Rightarrow> ('w \<Rightarrow> int \<times> 'w) \<Rightarrow> 'w \<times> usb_event list \<Rightarrow> int \<times> 'w \<times> usb_event list" where
  "noted ev f s = (case f (fst s) of (r, w) \<Rightarrow> (r, w, snd s @ [ev r]))"

definition logged :: "('w, 'd, 'v, 'c) usbd_api \<Rightarrow> ('w \<times> usb_event list, 'd, 'v, 'c) usbd_api" where
  "logged A = \<lparr>us_device_is_ready = (\<lambda>v s. us_device_is_ready A v (fst s)), us_set_dev = (\<lambda>v. silent (us_set_dev A v)),
     us_add_descriptor = (\<lambda>d. silent_call (us_add_descriptor A d)), us_caps_speed = (\<lambda>s. us_caps_speed A (fst s)),
     us_add_configuration = (\<lambda>x. silent_call (us_add_configuration A x)),
     us_register_all_classes = (\<lambda>x. silent_call (us_register_all_classes A x)),
     us_set_code_triple = (\<lambda>x t. silent (us_set_code_triple A x t)), us_self_powered = (\<lambda>b. silent (us_self_powered A b)),
     us_msg_register_cb = (\<lambda>cb. silent_call (us_msg_register_cb A cb)), us_set_bcd_usb = (\<lambda>x b. silent (us_set_bcd_usb A x b)),
     us_init = noted UsbdInit (us_init A), us_can_detect_vbus = (\<lambda>s. us_can_detect_vbus A (fst s)),
     us_enable = noted UsbdEnable (us_enable A), us_disable = noted UsbdDisable (us_disable A),
     us_shutdown = noted UsbdShutdown (us_shutdown A), us_enabled = (\<lambda>s. us_enabled A (fst s)),
     us_initialized = (\<lambda>s. us_initialized A (fst s))\<rparr>"

lemma logged_sel [simp]:
  "us_device_is_ready (logged A) dev s = us_device_is_ready A dev (fst s)" "us_set_dev (logged A) v = silent (us_set_dev A v)"
  "us_add_descriptor (logged A) d = silent_call (us_add_descriptor A d)" "us_caps_speed (logged A) s = us_caps_speed A (fst s)"
  "us_add_configuration (logged A) x = silent_call (us_add_configuration A x)"
  "us_register_all_classes (logged A) x = silent_call (us_register_all_classes A x)"
  "us_set_code_triple (logged A) x t = silent (us_set_code_triple A x t)" "us_self_powered (logged A) b = silent (us_self_powered A b)"
  "us_msg_register_cb (logged A) cb = silent_call (us_msg_register_cb A cb)" "us_set_bcd_usb (logged A) x y = silent (us_set_bcd_usb A x y)"
  "us_init (logged A) = noted UsbdInit (us_init A)" "us_can_detect_vbus (logged A) s = us_can_detect_vbus A (fst s)"
  "us_enable (logged A) = noted UsbdEnable (us_enable A)" "us_disable (logged A) = noted UsbdDisable (us_disable A)"
  "us_shutdown (logged A) = noted UsbdShutdown (us_shutdown A)" "us_enabled (logged A) s = us_enabled A (fst s)"
  "us_initialized (logged A) s = us_initialized A (fst s)"
  by (simp_all add: logged_def)

lemma silent_log [simp]: "snd (silent f s) = snd s" "snd (snd (silent_call g s)) = snd s"
  by (simp_all add: silent_def silent_call_def split: prod.splits)

text \<open>A successful \<open>usbd_init\<close> that no successful \<open>usbd_shutdown\<close> has followed.\<close>

fun event_up :: "usb_event \<Rightarrow> bool \<Rightarrow> bool" where
  "event_up (UsbdInit r) up = (up \<or> r = 0)"
| "event_up (UsbdShutdown r) up = (up \<and> r \<noteq> 0)"
| "event_up e up = up"

definition stack_up :: "usb_event list \<Rightarrow> bool" where
  "stack_up log = fold event_up log False"

lemma stack_up_append [simp]: "stack_up (log @ [e]) = event_up e (stack_up log)"
  by (simp add: stack_up_def)

definition failed_enable :: "usb_event list \<Rightarrow> bool" where
  "failed_enable log \<longleftrightarrow> (case rev log of UsbdEnable r # _ \<Rightarrow> r \<noteq> 0 | _ \<Rightarrow> False)"

definition switches_off :: "usb_event \<Rightarrow> bool" where
  "switches_off e = (case e of UsbdDisable _ \<Rightarrow> True | UsbdShutdown _ \<Rightarrow> True | _ \<Rightarrow> False)"

lemma and_then_log:
  assumes "snd (snd r) = l" "\<And>w. snd w = l \<Longrightarrow> snd (snd (k w)) = l"
  shows "snd (snd (and_then r k)) = l"
  using assms by (cases r) (auto simp: and_then_def)

lemma setup_speed_log: "snd (snd (usb_setup_speed C (logged A) x w)) = snd w"
  unfolding usb_setup_speed_def by (intro and_then_log) (auto simp: checked_def usb_fix_code_triple_def)

lemma add_extra_log: "snd (snd (usb_add_extra (logged A) ds w)) = snd w"
proof (induction ds arbitrary: w)
  case (Cons d ds)
  then show ?case by (cases d) (auto intro!: and_then_log simp: checked_def)
qed simp

lemma setup_device_log: "snd (snd (usb_setup_device C (logged A) config w)) = snd w"
  unfolding usb_setup_device_def Let_def
  by (intro and_then_log) (auto simp: checked_def setup_speed_log add_extra_log split: option.splits)

section \<open>What the members do to the stack\<close>

text \<open>The calls of an \<open>init\<close> that is tried, with its result and the wrapper after it.\<close>

lemma usb_init_log:
  assumes "\<not> ub_initialized u" "usb_init C (logged A) config (u, w, l) = (ok, u', w', l')"
  shows "(\<not> ok \<and> u' = u \<and> (l' = l \<or> (\<exists>r. r \<noteq> 0 \<and> l' = l @ [UsbdInit r]) \<or> (\<exists>r. r \<noteq> 0 \<and> l' = l @ [UsbdInit 0] @ [UsbdEnable r]))) \<or>
    (ok \<and> u' = u\<lparr>ub_initialized := True\<rparr> \<and> (l' = l @ [UsbdInit 0] \<or> l' = l @ [UsbdInit 0] @ [UsbdEnable 0]))"
proof -
  consider (ready) dev where "ub_device u = Some dev" "us_device_is_ready A dev w" | (refused) "l' = l" "\<not> ok" "u' = u"
    using assms by (cases "ub_device u") (auto simp: usb_init_def split: if_splits)
  then show ?thesis
  proof cases
    case (ready dev)
    obtain b w1 l1 where s: "usb_setup_device C (logged A) config (us_set_dev A (Some dev) w, l) = (b, w1, l1)"
      by (metis prod_cases3)
    have l1: "l1 = l" using setup_device_log [of C A config "(us_set_dev A (Some dev) w, l)"] s by simp
    obtain r w2 where i: "us_init A w1 = (r, w2)" by (cases "us_init A w1")
    obtain q w3 where e: "us_enable A w2 = (q, w3)" by (cases "us_enable A w2")
    show ?thesis using assms ready s l1 i e
      by (cases b; cases "r = 0"; cases "q = 0") (auto simp: usb_init_def silent_def and_then_def checked_def noted_def split: if_splits)
  qed simp
qed

lemma usb_deinit_log:
  assumes "ub_initialized u" "usb_deinit (logged A) (u, w, l) = (ok, u', w', l')" "stack_up l"
  shows "(ok \<longrightarrow> \<not> ub_initialized u') \<and> (\<not> ok \<longrightarrow> ub_initialized u' \<and> stack_up l') \<and> (\<not> failed_enable l' \<or> l' = l)"
proof -
  obtain r w2 where d: "us_disable A w = (r, w2)" by (cases "us_disable A w")
  obtain q w3 where s: "us_shutdown A w2 = (q, w3)" by (cases "us_shutdown A w2")
  obtain q' w4 where t: "us_shutdown A w = (q', w4)" by (cases "us_shutdown A w")
  show ?thesis using assms d s t
    by (cases "us_enabled A w"; cases "us_initialized A w"; cases "us_initialized A w2"; cases "r = 0"; cases "q = 0"; cases "q' = 0")
      (auto simp: usb_deinit_def and_then_def checked_def noted_def silent_def failed_enable_def stack_up_def)
qed

lemma instance_initialized [simp]: "ub_initialized (usb_instance device u) = ub_initialized u"
  by (simp add: usb_instance_def)

definition usb_inv :: "'v usb_hw \<Rightarrow> usb_event list \<Rightarrow> bool" where
  "usb_inv u l \<longleftrightarrow> (ub_initialized u \<longrightarrow> stack_up l) \<and> (failed_enable l \<longrightarrow> \<not> ub_initialized u \<and> stack_up l)"

lemma failed_enable_simps [simp]:
  "\<not> failed_enable []" "failed_enable (l @ [UsbdEnable r]) \<longleftrightarrow> r \<noteq> 0" "\<not> failed_enable (l @ [UsbdInit q])"
  "failed_enable (l @ [UsbdInit q, UsbdEnable r]) \<longleftrightarrow> r \<noteq> 0"
  by (simp_all add: failed_enable_def)

lemma stack_up_two [simp]: "stack_up (l @ [e, f]) = event_up f (event_up e (stack_up l))"
  by (simp add: stack_up_def)

lemma usb_inv_step:
  assumes "usb_inv u l" "usb_op_step C (logged A) op (u, w, l) = (r, u', w', l')"
  shows "usb_inv u' l'"
proof (cases op)
  case (UsbInstance device)
  then show ?thesis using assms by (auto simp: usb_inv_def)
next
  case (UsbInit config)
  show ?thesis
  proof (cases "ub_initialized u")
    case True
    then show ?thesis using assms UsbInit by (simp add: usb_init_def)
  next
    case False
    from usb_init_log [OF False, of C A config w l r u' w' l'] show ?thesis using assms UsbInit False
      by (auto simp: usb_inv_def)
  qed
next
  case UsbDeinit
  show ?thesis
  proof (cases "ub_initialized u")
    case True
    then have "stack_up l" "\<not> failed_enable l" using assms(1) by (auto simp: usb_inv_def)
    with usb_deinit_log [OF True, of A w l r u' w' l'] show ?thesis using assms(2) UsbDeinit by (auto simp: usb_inv_def)
  next
    case False
    then show ?thesis using assms UsbDeinit by (simp add: usb_deinit_def)
  qed
qed

lemma usb_inv_session:
  "usb_session C (logged A) ops (u, w, l) = (rs, u', w', l') \<Longrightarrow> usb_inv u l \<Longrightarrow> usb_inv u' l'"
proof (induction ops arbitrary: u w l rs)
  case (Cons op ops)
  obtain r u1 w1 l1 where 1: "usb_op_step C (logged A) op (u, w, l) = (r, u1, w1, l1)" by (metis prod_cases4)
  then obtain rs1 where "usb_session C (logged A) ops (u1, w1, l1) = (rs1, u', w', l')"
    using Cons.prems(1) by (auto split: prod.splits)
  then show ?case using Cons.IH usb_inv_step [OF Cons.prems(2) 1] by blast
qed simp

text \<open>No \<open>init\<close> succeeds.\<close>

fun init_fails :: "('d, 'v, 'c) usb_op list \<Rightarrow> bool list \<Rightarrow> bool" where
  "init_fails (UsbInit config # ops) (r # rs) = (\<not> r \<and> init_fails ops rs)"
| "init_fails (op # ops) (r # rs) = init_fails ops rs"
| "init_fails _ _ = True"

definition is_init :: "('d, 'v, 'c) usb_op \<Rightarrow> bool" where
  "is_init op = (case op of UsbInit _ \<Rightarrow> True | _ \<Rightarrow> False)"

lemma usb_stays_up:
  "usb_session C (logged A) ops (u, w, l) = (rs, u', w', l') \<Longrightarrow> \<not> ub_initialized u \<Longrightarrow> stack_up l \<Longrightarrow> init_fails ops rs \<Longrightarrow>
   \<not> ub_initialized u' \<and> stack_up l' \<and> (\<exists>es. l' = l @ es \<and> list_all (\<lambda>e. \<not> switches_off e) es) \<and>
   (list_all (\<lambda>op. \<not> is_init op) ops \<longrightarrow> w' = w \<and> l' = l \<and> rs = map (\<lambda>_. True) ops)"
proof (induction ops arbitrary: u w l rs)
  case (Cons op ops)
  obtain r u1 w1 l1 where 1: "usb_op_step C (logged A) op (u, w, l) = (r, u1, w1, l1)" by (metis prod_cases4)
  then obtain rs1 where 2: "usb_session C (logged A) ops (u1, w1, l1) = (rs1, u', w', l')" and rs: "rs = r # rs1"
    using Cons.prems(1) by (auto split: prod.splits)
  have "\<not> ub_initialized u1 \<and> stack_up l1 \<and> init_fails ops rs1 \<and> (\<exists>es. l1 = l @ es \<and> list_all (\<lambda>e. \<not> switches_off e) es) \<and>
    (\<not> is_init op \<longrightarrow> r \<and> w1 = w \<and> l1 = l)"
  proof (cases op)
    case (UsbInit config)
    then have "\<not> r" "usb_init C (logged A) config (u, w, l) = (r, u1, w1, l1)" "init_fails ops rs1" using 1 Cons.prems(4) rs by auto
    with usb_init_log [OF Cons.prems(2) this(2)] Cons.prems(2,3) UsbInit show ?thesis
      by (auto simp: switches_off_def is_init_def)
  next
    case (UsbInstance device)
    then show ?thesis using 1 rs Cons.prems by auto
  next
    case UsbDeinit
    then show ?thesis using 1 rs Cons.prems by (auto simp: usb_deinit_def)
  qed
  then obtain es where s: "\<not> ub_initialized u1" "stack_up l1" "init_fails ops rs1" "l1 = l @ es" "list_all (\<lambda>e. \<not> switches_off e) es"
    "\<not> is_init op \<longrightarrow> r \<and> w1 = w \<and> l1 = l" by blast
  from Cons.IH [OF 2 s(1-3)] obtain fs where t: "\<not> ub_initialized u'" "stack_up l'" "l' = l1 @ fs" "list_all (\<lambda>e. \<not> switches_off e) fs"
    "list_all (\<lambda>op. \<not> is_init op) ops \<longrightarrow> w' = w1 \<and> l' = l1 \<and> rs1 = map (\<lambda>_. True) ops" by blast
  have "l' = l @ es @ fs" "list_all (\<lambda>e. \<not> switches_off e) (es @ fs)" using s(4,5) t(3,4) by simp_all
  then show ?case using t(1,2,5) s(6) rs by auto
qed simp

section \<open>Properties\<close>

text \<open>C40. Whatever the stack answers, in every session that starts with a new wrapper: while the wrapper counts as
initialised, the stack has been initialised and not been shut down since. When the last of its calls is an enabling that
failed, the wrapper does not count as initialised although the stack is up; any number of \<open>deinit\<close> then return true, call
nothing and change nothing, and until an \<open>init\<close> succeeds, which initialises the stack that is still up once more, the
stack is neither disabled nor shut down.\<close>

theorem usb_session_status:
  assumes "usb_session C (logged A) ops (usb_hw_new device, w0, []) = (rs, u, w, log)"
  shows "(ub_initialized u \<longrightarrow> stack_up log) \<and>
    (failed_enable log \<longrightarrow> \<not> ub_initialized u \<and> stack_up log \<and> usb_deinit (logged A) (u, w, log) = (True, u, w, log) \<and>
      (case usb_session C (logged A) ops' (u, w, log) of (rs', u', w', log') \<Rightarrow> init_fails ops' rs' \<longrightarrow>
         \<not> ub_initialized u' \<and> stack_up log' \<and> (\<exists>es. log' = log @ es \<and> list_all (\<lambda>e. \<not> switches_off e) es) \<and>
         (list_all (\<lambda>op. \<not> is_init op) ops' \<longrightarrow> w' = w \<and> log' = log \<and> rs' = map (\<lambda>_. True) ops')))"
proof -
  have inv: "usb_inv u log" using usb_inv_session [OF assms] by (simp add: usb_inv_def usb_hw_new_def)
  obtain rs' u' w' log' where s: "usb_session C (logged A) ops' (u, w, log) = (rs', u', w', log')" by (metis prod_cases4)
  show ?thesis using inv usb_stays_up [OF s] by (auto simp: usb_inv_def s usb_deinit_def)
qed

text \<open>A stack that is only its status, and the number of times enabling it will fail.\<close>

definition failing_stack :: "(bool \<times> bool \<times> nat, unit, unit, unit) usbd_api" where
  "failing_stack = \<lparr>us_device_is_ready = (\<lambda>_ _. True), us_set_dev = (\<lambda>_ w. w), us_add_descriptor = (\<lambda>_ w. (0, w)),
     us_caps_speed = (\<lambda>_. SpeedHS), us_add_configuration = (\<lambda>_ w. (0, w)), us_register_all_classes = (\<lambda>_ w. (0, w)),
     us_set_code_triple = (\<lambda>_ _ w. w), us_self_powered = (\<lambda>_ w. w), us_msg_register_cb = (\<lambda>_ w. (0, w)),
     us_set_bcd_usb = (\<lambda>_ _ w. w),
     us_init = (\<lambda>(e, i, n). if i then (- 1, e, i, n) else (0, e, True, n)),
     us_can_detect_vbus = (\<lambda>_. False),
     us_enable = (\<lambda>(e, i, n). if 0 < n then (- 1, e, i, n - 1) else (0, True, i, n)),
     us_disable = (\<lambda>(e, i, n). (0, False, i, n)), us_shutdown = (\<lambda>(e, i, n). (0, e, False, n)),
     us_enabled = fst, us_initialized = (\<lambda>w. fst (snd w))\<rparr>"

definition full_kconfig :: usb_kconfig where
  "full_kconfig = \<lparr>kc_hwinfo = True, kc_supports_hs = True, kc_multi_interface_class = True, kc_self_powered = True,
     kc_usb20_extension = True\<rparr>"

definition plain_config :: "(unit, unit) usb_config" where
  "plain_config = \<lparr>message_callback = None, extra_descriptors = []\<rparr>"

theorem usb_session_status_witness:
  "usb_session full_kconfig (logged failing_stack) [UsbInit plain_config] (usb_hw_new (Some ()), (False, False, 1), []) =
     ([False], usb_hw_new (Some ()), (False, True, 0), [UsbdInit 0, UsbdEnable (- 1)]) \<and>
   fst (usb_session full_kconfig (logged failing_stack) [UsbDeinit, UsbInit plain_config]
     (usb_hw_new (Some ()), (False, True, 0), [UsbdInit 0, UsbdEnable (- 1)])) = [True, False] \<and>
   stack_up (snd (snd (snd (usb_session full_kconfig (logged failing_stack) [UsbDeinit, UsbInit plain_config]
     (usb_hw_new (Some ()), (False, True, 0), [UsbdInit 0, UsbdEnable (- 1)])))))"
proof -
  note defs = logged_def failing_stack_def full_kconfig_def plain_config_def usb_hw_new_def usb_init_def usb_setup_device_def
    usb_setup_speed_def usb_fix_code_triple_def checked_def silent_def silent_call_def noted_def usb_deinit_def and_then_def
  have run: "usb_session full_kconfig (logged failing_stack) [UsbInit plain_config] (usb_hw_new (Some ()), (False, False, 1), []) =
      ([False], usb_hw_new (Some ()), (False, True, 0), [UsbdInit 0, UsbdEnable (- 1)])" by (simp add: defs)
  have later: "fst (usb_session full_kconfig (logged failing_stack) [UsbDeinit, UsbInit plain_config]
     (usb_hw_new (Some ()), (False, True, 0), [UsbdInit 0, UsbdEnable (- 1)])) = [True, False]" by (simp add: defs)
  have "failed_enable [UsbdInit 0, UsbdEnable (- 1)]" by (simp add: failed_enable_def)
  with usb_session_status [OF run, of "[UsbDeinit, UsbInit plain_config]"] later show ?thesis
    using run by (auto split: prod.splits)
qed

end
