(* ===== verification/Spec2Isabelle.thy ===== *)
theory Spec2Isabelle
  imports Ring_Buffer Misc_Strings Misc_Numeric Emu_Properties Less_Db_Properties Less_Db_On_Eeprom Midi_Properties Midi_Transport_Properties Midi_Base Midi1 Uart_Properties Sysex_Conf_Properties Date_Time_Properties Filters_Analog Motor_Control_Properties State_Machine Signaling_Properties Signaling_Queue Settings_Properties Kernel_Objects Usb_Hw
begin

text \<open>
  zlibs is a C++ library of utilities and drivers for Zephyr based devices; its code is in
  \<open>src/module/include/zlibs/\<close> (headers, many of them templates with code) and \<open>src/module/src/\<close>.
  This development models the code of its components and proves what makes each of them correct.
  Paths below are relative to these two directories.

  The parts and how they interact. Two components store data in flash or memory through an
  interface the application implements: the emulated EEPROM (a log of entries over two flash pages,
  with a RAM mirror) and the parameter database LessDB (packed bit, half-byte, byte, word and
  double-word parameters). The MIDI stack converts between MIDI 1 byte streams and Universal MIDI
  Packets (UMP), moves them over USB, serial and BLE transports, and forwards them between
  interfaces (thru routing). SysExConf is a configuration protocol on top of those packets. The UART
  driver joins an interrupt routine and its callers with two ring buffers. The dispatcher of the
  signaling component runs publications of any thread on one thread, which calls the subscribers.
  The filters, the motor controller, the state machine and the calendar stand alone, the motor
  controller apart from a timer and a work queue that call it.

  Conventions. A class is a record of its members, a member function a function from its arguments
  and the state to its result and the new state; a member function that returns \<open>bool\<close> and changes
  members gives \<open>bool \<times> state\<close>, and a chain of early returns is written with \<open>and_then\<close> where it is
  long. Virtual interfaces and Zephyr functions are records of functions over a state of their own
  (type variables \<open>'h\<close> and \<open>'w\<close>), arguments of the model: nothing is assumed of them but in a
  locale, which states their documented contract and is interpreted on an implementation (the one of
  the repository's tests, where the application would provide it), or, for the settings subsystem and
  the USB stack of Zephyr, in a named hypothesis of the property. Integers keep their width (\<open>u8\<close>,
  \<open>u16\<close>, \<open>u32\<close>, \<open>u64\<close>) where the code can overflow them or works on their bits; array indices and
  sizes are natural numbers, \<open>int\<close> is \<open>int\<close> under stated ranges. A member function is one step: the
  mutexes that make it so are not modelled, and where the code does without one (the dispatcher's
  stop, the UART interrupt, the motor's timer) the steps are those the code leaves apart.

  The theories, by component:

  \<^item> \<open>Zlibs_Prelude\<close>: machine integers, the values of a counting loop (\<open>steps\<close>), reading and writing a
    range of an array (\<open>slice\<close>, \<open>overwrite\<close>), \<open>and_then\<close>.

  \<^item> \<open>Ring_Buffer\<close> (\<open>utils/misc/ring_buffer.h\<close>): indices into an array of one more item than the
    capacity. The locales \<open>fifo\<close>, \<open>rejecting_fifo\<close> and \<open>overwriting_fifo\<close> are bounded queues; both
    instances of the template are interpretations, so the buffer refines a queue that keeps the
    first or the newest items.

  \<^item> \<open>Emu_Common\<close>, \<open>Emu_Eeprom\<close> (\<open>utils/emueeprom/\<close>): the entry encoding and all of
    \<open>EmuEepromInternal\<close>. \<open>Emu_Log\<close> views a page as an append-only log, \<open>Emu_Flash\<close> states the flash
    contract (locale \<open>flash\<close>) and what the scans find, \<open>Emu_Journal\<close> follows the write path,
    \<open>Emu_Correct\<close> has the invariant \<open>emu_inv\<close> and the transfer of a page, \<open>Emu_Durable\<close> what survives
    a reset, \<open>Emu_Status\<close> what holds for any backend, \<open>Emu_Test_Flash\<close> the interpretation of the
    contract on the flash of the tests, for write blocks of 4 and of 8 bytes. \<open>Emu_Properties\<close>: any
    session of operations and reboots refines an array of values; \<open>init\<close> succeeds on any contents;
    transfers keep the values; what an interrupted transfer loses.

  \<^item> \<open>Less_Db\<close> (\<open>utils/lessdb/\<close>): layouts, addressing, packing and factory reset. \<open>Less_Db_Layout\<close>
    shows where parameters are, \<open>Less_Db_Storage\<close> has the storage contract (locale \<open>ldb_storage\<close>) and
    the invariant with the read cache, \<open>Less_Db_Correct\<close> and \<open>Less_Db_Reset\<close> the operations,
    \<open>Less_Db_Test_Storage\<close> the interpretation on the memory backend of the tests.
    \<open>Less_Db_Properties\<close>: a session refines a map from parameters to values, an accepted layout
    separates the parameters, a reset succeeds exactly when the defaults fit.

  \<^item> \<open>Less_Db_On_Eeprom\<close>: the two components composed, the database in the emulated EEPROM. The
    contract of the flash gives the contract of the database storage (a \<open>sublocale\<close>), and sessions
    with power losses refine a map that they do not change. The EEPROM must offer one address more
    than the database needs: with all addresses in use a page has no block left for a write.

  \<^item> \<open>Midi_Common\<close> (\<open>utils/midi/midi_common.h\<close>): packet accessors, packets to bytes, the stream
    parser, payloads to packets. \<open>Midi_Packets\<close> states the field positions of UMP words (locale
    \<open>ump_macros\<close>, for the macros of Zephyr), \<open>Midi_Stream\<close> and \<open>Midi_Parser\<close> relate both directions
    to messages as data, \<open>Midi_Properties\<close> has the round trips, the loop of an empty payload and the
    messages the parser drops. \<open>Midi1\<close> (\<open>utils/midi/midi1.h\<close>): the packet builders.

  \<^item> \<open>Midi_Transport\<close> (\<open>utils/midi/transport/\<close>): the null, USB, serial and BLE transports.
    \<open>Midi_Reading\<close> has the locale \<open>byte_source\<close> for the parser loop, \<open>Midi_Ble\<close> the locale \<open>ble_air\<close>
    and the packets the BLE writer makes, \<open>Midi_Links\<close> the two readers. \<open>Midi_Transport_Properties\<close>:
    messages sent over either link are read as they were sent, on the adapters of the tests; a SysEx
    with a timestamp before its end is lost. \<open>Midi_Base\<close> (\<open>utils/midi/midi.h\<close>, \<open>midi.cpp\<close>): the
    interface class and its thru table, a bounded set of routes.

  \<^item> \<open>Uart_Hw\<close> (\<open>drivers/uart/\<close>, \<open>drivers/uart_hw/\<close>): the interrupt routine and the member functions.
    \<open>Uart_Properties\<close> has the locale \<open>uart_buffers\<close>, interpreted on the ring buffers, the order of the
    bytes in both directions, and the race of the loopback with a write.

  \<^item> \<open>Sysex_Conf\<close> (\<open>utils/sysex_conf/\<close>): assembling requests, checks, answers, custom messages.
    \<open>Sysex_Conf_Buffer\<close>, \<open>Sysex_Conf_Safety\<close>, \<open>Sysex_Conf_Session\<close>: no overrun of the response array
    and the invariant over sessions; \<open>Sysex_Conf_Guard\<close>: the handler is asked only for parameters of
    the layout; \<open>Sysex_Conf_Requests\<close>, \<open>Sysex_Conf_Answers\<close>: reference functions for the answers (locale
    \<open>sx_store\<close> for handlers that store values); \<open>Sysex_Conf_Assembly\<close>: packets and whole messages;
    \<open>Sysex_Conf_Test_Handler\<close>: the handler of the tests. \<open>Sysex_Conf_Properties\<close> puts them together.

  \<^item> \<open>Date_Time\<close> (\<open>utils/misc/datetime.h\<close>): the calendar; \<open>Date_Time_Correct\<close> counts days;
    \<open>Date_Time_Properties\<close>: normalisation keeps the instant and gives a valid value.

  \<^item> \<open>Filters\<close> (\<open>utils/filters/\<close>): moving average, median, analog filter, debouncer;
    \<open>Filters_Properties\<close> and \<open>Filters_Analog\<close>.

  \<^item> \<open>Motor_Control\<close> (\<open>utils/motor_control/\<close>): motor and controller. \<open>Motor_Control_Correct\<close> has the
    invariant of a motor, \<open>Motor_Control_Phases\<close> follows a movement from pulse to pulse,
    \<open>Motor_Control_Properties\<close> the interleavings (inductive \<open>mc_step\<close>), the pulses sent and the stop.

  \<^item> \<open>State_Machine\<close> (\<open>utils/state_machine/state_machine.h\<close>) with its trace property.

  \<^item> \<open>Signaling\<close> (\<open>utils/signaling/\<close>): channels, subscriptions, observables, dispatcher;
    \<open>Signaling_Delivery\<close> and \<open>Signaling_Properties\<close>: what a subscriber receives. \<open>Signaling_Queue\<close> has
    the queue in small steps for any number of threads (inductive \<open>queue_step\<close>): order, draining, and
    the job that is accepted while the dispatcher stops.

  \<^item> \<open>Settings\<close> (\<open>utils/settings/\<close>): typed settings over the settings subsystem of Zephyr.
    \<open>Settings_Properties\<close> states what Zephyr documents of it, proves that sessions with restarts refine
    an array of current and an array of retained values, and that an unknown entry ends the loading.

  \<^item> \<open>Kernel_Objects\<close> (\<open>utils/threads/threads.h\<close>, \<open>utils/misc/timer.h\<close>, \<open>kwork_delayable.h\<close>): the
    wrappers of kernel objects as the calls they make, and the life of a thread.

  \<^item> \<open>Usb_Hw\<close> (\<open>drivers/usb_hw/\<close>): setting up, starting and stopping the USB device stack, and what a
    failed start leaves behind.

  \<^item> \<open>Misc_Strings\<close> (\<open>utils/misc/string.h\<close>, \<open>version.h\<close>) and \<open>Misc_Numeric\<close> (\<open>numeric.h\<close>, \<open>bit.h\<close>): the
    strings the settings build their paths from, decimal notation, bit operations and range mapping.

  Loops and fuel. Counting loops are folds or maps over their values. Loops whose end depends on
  the data are \<open>partial_function (option)\<close>, where \<open>None\<close> is a loop that does not end: the search for
  the month, the reading of MIDI bytes, the BLE reader and the two loops of the UART interrupt; the
  properties about them state that they end. The packet loop of a SysEx payload takes as fuel
  \<open>MAX_MESSAGE_SIZE\<close> in SysExConf, which is more than the packets of any response, and running out
  is recorded in the state. Nested publications take fuel for the depth of nesting; callbacks that
  do not publish need one level, and the delivery property is about them. The BLE properties hold
  for packets of more than two bytes, since smaller ones have no room after the header and the
  timestamp.

  Not modelled. Mutexes, atomics and memory order, as said above (\<open>utils/misc/mutex.h\<close> is the wrapper
  of the Zephyr mutex); what the kernel does with threads, timers and delayable work, of which only
  the calls made are modelled. \<open>misc/meta.h\<close>, \<open>noncopyable.h\<close>, \<open>userdata_struct.h\<close> and \<open>midi/midi2.h\<close>
  are compile-time definitions, \<open>conversion.h\<close> is \<open>float\<close> arithmetic, as is the acceleration curve of
  the motor, which is an argument. The contents of USB descriptors are macros of Zephyr. The mocks of
  the drivers and the sample in \<open>src/app/\<close> have no logic of their own. Log messages are left out
  everywhere.
\<close>

end
